(* ===== verification/Prelude.thy ===== *)
theory Prelude
  imports Main "HOL-Library.Sublist" "HOL-Library.Word"
begin

section \<open>Shared vocabulary of the development\<close>

text \<open>
  What every component uses: the type synonyms of the model, the collections of simplification
  rules the component proofs share, and the generic facts about lists and maps that the standard
  library does not have in the form needed.

  A Rust \<open>String\<close> is a sequence of UTF-8 bytes; the model keeps it that way: a \<open>rstr\<close> is a
  list of \<open>char\<close>, each \<open>char\<close> one byte, so \<open>length\<close> is Rust's \<open>len()\<close> and an
  index is a byte offset. A \<open>Result<T, E>\<close> is the sum \<open>'e + 't\<close> with \<open>Inl\<close> for \<open>Err\<close>.
\<close>

type_synonym rstr = string
type_synonym byte_vec = string
type_synonym u32 = "32 word"

named_theorems str_simps \<open>unfolding of the string operations on concrete shapes\<close>
named_theorems path_simps \<open>facts on path components\<close>
named_theorems hist_simps \<open>facts on the ids carried by a message history\<close>
named_theorems hist_intros \<open>closure of history well-formedness\<close>
named_theorems disk_simps \<open>facts on the file system primitives\<close>

abbreviation is_ok :: "'e + 't \<Rightarrow> bool" where
  "is_ok r \<equiv> \<not> isl r"

subsection \<open>Lists\<close>

fun join :: "'a list \<Rightarrow> 'a list list \<Rightarrow> 'a list" where
  "join sep [] = []"
| "join sep [x] = x"
| "join sep (x # y # zs) = x @ sep @ join sep (y # zs)"

lemma join_Cons: "join sep (x # xs) = (if xs = [] then x else x @ sep @ join sep xs)"
  by (cases xs) auto

lemma set_join: "set (join sep xs) \<subseteq> set sep \<union> \<Union> (set ` set xs)"
  by (induction sep xs rule: join.induct) auto

lemma prefix_iff_take: "prefix xs ys \<longleftrightarrow> take (length xs) ys = xs"
  by (metis append_eq_conv_conj prefix_def take_is_prefix)

lemma prefix_drop_append: "prefix xs ys \<Longrightarrow> xs @ drop (length xs) ys = ys"
  by (auto simp: prefix_def)

lemma filter_eq_if_all: "(\<And>x. x \<in> set xs \<Longrightarrow> P x) \<Longrightarrow> filter P xs = xs"
  by (induction xs) auto

lemma list_all_filter_self: "list_all P (filter P xs)"
  by (simp add: list_all_iff)

lemma mem_map_filter: "y \<in> set (List.map_filter f xs) \<longleftrightarrow> (\<exists>x \<in> set xs. f x = Some y)"
  by (force simp: map_filter_def)

lemma takeWhile_dropWhile_split:
  "dropWhile P xs \<noteq> [] \<Longrightarrow> xs = takeWhile P xs @ hd (dropWhile P xs) # tl (dropWhile P xs)"
  by (metis list.collapse takeWhile_dropWhile_id)

subsection \<open>Strictly growing lists of numbers\<close>

lemma sorted_wrt_less_last_le:
  "sorted_wrt (<) (xs @ [x :: nat]) \<Longrightarrow> y \<in> set xs \<Longrightarrow> y < x"
  by (auto simp: sorted_wrt_append)

subsection \<open>Association lists\<close>

text \<open>Set the value of a key in place, or add it at the end.\<close>

fun upsert :: "'k \<Rightarrow> 'v \<Rightarrow> ('v \<Rightarrow> 'v) \<Rightarrow> ('k \<times> 'v) list \<Rightarrow> ('k \<times> 'v) list" where
  "upsert k d f [] = [(k, f d)]"
| "upsert k d f ((k', v) # kvs) = (if k' = k then (k', f v) # kvs else (k', v) # upsert k d f kvs)"

lemma map_of_upsert:
  "map_of (upsert k d f ls) k' = (if k' = k then Some (f (case map_of ls k of None \<Rightarrow> d | Some v \<Rightarrow> v))
     else map_of ls k')"
  by (induction ls) auto

lemma fst_upsert:
  "map fst (upsert k d f ls) = (if k \<in> set (map fst ls) then map fst ls else map fst ls @ [k])"
  by (induction k d f ls rule: upsert.induct) auto

lemma set_upsert_subset: "set (upsert k d f kvs) \<subseteq> {(k, f d)} \<union> set kvs \<union> {(k, f v) | v. (k, v) \<in> set kvs}"
  by (induction k d f kvs rule: upsert.induct) auto

subsection \<open>Updated lists\<close>

lemma list_all_update: "list_all P xs \<Longrightarrow> (k < length xs \<Longrightarrow> P (xs ! k) \<Longrightarrow> P x) \<Longrightarrow> list_all P (xs[k := x])"
  by (cases "k < length xs") (auto simp: list_all_length nth_list_update)

lemma list_ex_update:
  "i < length xs \<Longrightarrow> list_ex P (xs[i := x]) \<longleftrightarrow> P x \<or> (\<exists>j < length xs. j \<noteq> i \<and> P (xs ! j))"
  by (auto simp: list_ex_length nth_list_update)

lemma list_ex_calm: "i < length xs \<Longrightarrow> \<not> P (xs ! i) \<Longrightarrow> \<not> P x \<Longrightarrow> list_ex P (xs[i := x]) = list_ex P xs"
  by (auto simp: list_ex_length nth_list_update)

end
