(* ===== verification/RustStr.thy ===== *)
theory RustStr
  imports Prelude
begin

section \<open>The Rust standard library's string operations\<close>

text \<open>
  The operations of \<open>str\<close> and \<open>String\<close> that the crates call, on UTF-8 byte lists:
  slicing at char boundaries, substring search and replacement, lines, trimming and splitting at
  Unicode white space, decimal numbers. A UTF-8 encoded pattern occurs in UTF-8 text only at char
  boundaries, so searching bytes is searching chars.
\<close>

abbreviation nl :: char where "nl \<equiv> CHR 0x0A"
abbreviation cr :: char where "cr \<equiv> CHR 0x0D"

definition byte_val :: "char \<Rightarrow> nat" where
  "byte_val c = of_char c"

subsection \<open>Char boundaries\<close>

definition is_continuation :: "char \<Rightarrow> bool" where
  "is_continuation c \<longleftrightarrow> 128 \<le> byte_val c \<and> byte_val c < 192"

definition is_char_boundary :: "rstr \<Rightarrow> nat \<Rightarrow> bool" where
  "is_char_boundary s i \<longleftrightarrow>
     i = 0 \<or> i = length s \<or> (i < length s \<and> \<not> is_continuation (s ! i))"

text \<open>\<open>&s[a..b]\<close>: a panic (\<open>None\<close>) when an end is out of range or inside a char.\<close>

definition str_slice :: "rstr \<Rightarrow> nat \<Rightarrow> nat \<Rightarrow> rstr option" where
  "str_slice s a b =
     (if a \<le> b \<and> b \<le> length s \<and> is_char_boundary s a \<and> is_char_boundary s b
      then Some (take (b - a) (drop a s)) else None)"

lemma is_char_boundary_0 [simp]: "is_char_boundary s 0"
  by (simp add: is_char_boundary_def)

lemma is_char_boundary_length [simp]: "is_char_boundary s (length s)"
  by (simp add: is_char_boundary_def)

lemma str_slice_prefix: "str_slice s 0 b = Some t \<Longrightarrow> t = take b s"
  by (auto simp: str_slice_def split: if_splits)

subsection \<open>Well-formed UTF-8\<close>

text \<open>The length of the well-formed sequence at the start of a byte string, 0 when there is none.\<close>

definition byte_in :: "nat \<Rightarrow> nat \<Rightarrow> rstr \<Rightarrow> nat \<Rightarrow> bool" where
  "byte_in lo hi s i \<longleftrightarrow> i < length s \<and> lo \<le> byte_val (s ! i) \<and> byte_val (s ! i) \<le> hi"

definition utf8_seq_len :: "rstr \<Rightarrow> nat" where
  "utf8_seq_len s =
     (let cont = byte_in 128 191 s
      in if byte_in 0 127 s 0 then 1
         else if byte_in 194 223 s 0 \<and> cont 1 then 2
         else if (byte_in 224 224 s 0 \<and> byte_in 160 191 s 1 \<or> byte_in 225 236 s 0 \<and> cont 1 \<or>
                  byte_in 237 237 s 0 \<and> byte_in 128 159 s 1 \<or> byte_in 238 239 s 0 \<and> cont 1) \<and> cont 2
              then 3
         else if (byte_in 240 240 s 0 \<and> byte_in 144 191 s 1 \<or> byte_in 241 243 s 0 \<and> cont 1 \<or>
                  byte_in 244 244 s 0 \<and> byte_in 128 143 s 1) \<and> cont 2 \<and> cont 3
              then 4
         else 0)"

function utf8_valid :: "byte_vec \<Rightarrow> bool" where
  "utf8_valid s =
     (if s = [] then True else if utf8_seq_len s = 0 then False
      else utf8_valid (drop (utf8_seq_len s) s))"
  by pat_completeness auto
termination
  by (relation "measure length") auto

declare utf8_valid.simps [simp del]

subsection \<open>Prefixes, suffixes, search\<close>

definition starts_with :: "rstr \<Rightarrow> rstr \<Rightarrow> bool" where
  "starts_with s p = prefix p s"

definition ends_with :: "rstr \<Rightarrow> rstr \<Rightarrow> bool" where
  "ends_with s p = suffix p s"

definition strip_prefix :: "rstr \<Rightarrow> rstr \<Rightarrow> rstr option" where
  "strip_prefix s p = (if prefix p s then Some (drop (length p) s) else None)"

definition strip_suffix :: "rstr \<Rightarrow> rstr \<Rightarrow> rstr option" where
  "strip_suffix s p = (if suffix p s then Some (take (length s - length p) s) else None)"

fun str_find :: "rstr \<Rightarrow> rstr \<Rightarrow> nat option" where
  "str_find [] p = (if p = [] then Some 0 else None)"
| "str_find (c # cs) p = (if prefix p (c # cs) then Some 0 else map_option Suc (str_find cs p))"

definition str_contains :: "rstr \<Rightarrow> rstr \<Rightarrow> bool" where
  "str_contains s p \<longleftrightarrow> str_find s p \<noteq> None"

lemma str_find_Some:
  "str_find s p = Some i \<Longrightarrow> i + length p \<le> length s \<and> s = take i s @ p @ drop (i + length p) s"
proof (induction s arbitrary: i)
  case Nil
  then show ?case by (simp split: if_splits)
next
  case (Cons c cs)
  show ?case
  proof (cases "prefix p (c # cs)")
    case True
    with Cons.prems show ?thesis
      using prefix_length_le [OF True] by (auto simp: prefix_drop_append)
  next
    case False
    with Cons.prems obtain j where j: "str_find cs p = Some j" "i = Suc j" by auto
    from Cons.IH [OF j(1)] j(2) show ?thesis by simp
  qed
qed

lemma str_find_appended: "str_find (pre @ p @ post) p \<noteq> None"
proof (induction pre)
  case Nil
  then show ?case by (cases p; cases post) auto
qed auto

lemma str_contains_iff: "str_contains s p \<longleftrightarrow> (\<exists>pre post. s = pre @ p @ post)"
proof
  assume "str_contains s p"
  then obtain i where "str_find s p = Some i" by (auto simp: str_contains_def)
  from str_find_Some [OF this] show "\<exists>pre post. s = pre @ p @ post" by blast
next
  assume "\<exists>pre post. s = pre @ p @ post"
  then show "str_contains s p" using str_find_appended by (auto simp: str_contains_def)
qed

lemma str_find_before:
  "str_find s p = Some i \<Longrightarrow> j < i \<Longrightarrow> \<not> prefix p (drop j s)"
proof (induction s arbitrary: i j)
  case (Cons c cs)
  then show ?case by (cases j) (auto split: if_splits)
qed (auto split: if_splits)

subsection \<open>Non-overlapping occurrences and replacement\<close>

text \<open>
  \<open>matches(p).count()\<close> and \<open>replace(p, r)\<close> scan left to right and continue after a match.
  The code calls them with a non-empty pattern only.
\<close>

function count_matches :: "rstr \<Rightarrow> rstr \<Rightarrow> nat" where
  "count_matches [] p = 0"
| "count_matches (c # cs) p =
     (if p \<noteq> [] \<and> prefix p (c # cs) then Suc (count_matches (drop (length p) (c # cs)) p)
      else count_matches cs p)"
  by pat_completeness auto
termination
  by (relation "measure (\<lambda>(s, p). length s)") (auto simp: Suc_le_eq)

function str_replace :: "rstr \<Rightarrow> rstr \<Rightarrow> rstr \<Rightarrow> rstr" where
  "str_replace [] p r = []"
| "str_replace (c # cs) p r =
     (if p \<noteq> [] \<and> prefix p (c # cs) then r @ str_replace (drop (length p) (c # cs)) p r
      else c # str_replace cs p r)"
  by pat_completeness auto
termination
  by (relation "measure (\<lambda>(s, p, r). length s)") (auto simp: Suc_le_eq)

text \<open>\<open>replacen(p, r, 1)\<close>: the first occurrence only.\<close>

definition str_replace_first :: "rstr \<Rightarrow> rstr \<Rightarrow> rstr \<Rightarrow> rstr" where
  "str_replace_first s p r =
     (case str_find s p of None \<Rightarrow> s | Some i \<Rightarrow> take i s @ r @ drop (i + length p) s)"

lemma count_matches_0_iff: "p \<noteq> [] \<Longrightarrow> count_matches s p = 0 \<longleftrightarrow> \<not> str_contains s p"
  by (induction s p rule: count_matches.induct) (auto simp: str_contains_def)

lemma count_matches_Nil [simp]: "count_matches s [] = 0"
  by (induction s "[] :: rstr" rule: count_matches.induct) auto

lemma str_replace_absent: "\<not> str_contains s p \<Longrightarrow> str_replace s p r = s"
  by (induction s p r rule: str_replace.induct) (auto simp: str_contains_def)

lemma str_replace_single:
  assumes "p \<noteq> []" "count_matches s p = 1"
  shows "str_replace s p r = str_replace_first s p r"
  using assms
proof (induction s p r rule: str_replace.induct)
  case (2 c cs p r)
  show ?case
  proof (cases "prefix p (c # cs)")
    case True
    with 2 have "count_matches (drop (length p) (c # cs)) p = 0" by simp
    with 2 have "\<not> str_contains (drop (length p) (c # cs)) p"
      by (simp add: count_matches_0_iff)
    with True 2 show ?thesis
      by (simp add: str_replace_absent str_replace_first_def)
  next
    case False
    with 2 have "str_replace cs p r = str_replace_first cs p r" by simp
    with False 2 show ?thesis
      by (auto simp: str_replace_first_def split: option.splits)
  qed
qed auto

lemma count_matches_pos_contains: "0 < count_matches s p \<Longrightarrow> str_contains s p"
  using count_matches_0_iff [of p s] by (cases "p = []") auto

lemma str_replace_first_contains:
  "str_contains s p \<Longrightarrow> \<exists>pre post. s = pre @ p @ post \<and> str_replace_first s p r = pre @ r @ post"
  using str_find_Some by (fastforce simp: str_contains_def str_replace_first_def)

lemma str_replace_set: "set (str_replace s p r) \<subseteq> set s \<union> set r"
proof (induction s p r rule: str_replace.induct)
  case (2 c cs p r)
  then show ?case
    using set_drop_subset [of "length p" "c # cs"] by (auto simp del: drop_Suc)
qed auto


subsection \<open>Lines\<close>

text \<open>\<open>str::lines\<close>: pieces ended by \<open>\n\<close>, a \<open>\r\<close> before it dropped; no empty last line.\<close>

definition strip_cr :: "rstr \<Rightarrow> rstr" where
  "strip_cr l = (if l \<noteq> [] \<and> last l = cr then butlast l else l)"

fun lines_from :: "rstr \<Rightarrow> rstr \<Rightarrow> rstr list" where
  "lines_from cur [] = (if cur = [] then [] else [cur])"
| "lines_from cur (c # cs) =
     (if c = nl then strip_cr cur # lines_from [] cs else lines_from (cur @ [c]) cs)"

definition str_lines :: "rstr \<Rightarrow> rstr list" where
  "str_lines s = lines_from [] s"

lemma str_lines_Nil [simp]: "str_lines [] = []"
  by (simp add: str_lines_def)

lemma lines_from_eq_Nil_iff [simp]: "lines_from cur s = [] \<longleftrightarrow> cur = [] \<and> s = []"
  by (induction cur s rule: lines_from.induct) auto

lemma set_strip_cr: "set (strip_cr l) \<subseteq> set l"
  by (auto simp: strip_cr_def dest: in_set_butlastD)

lemma lines_from_no_nl: "nl \<notin> set cur \<Longrightarrow> l \<in> set (lines_from cur s) \<Longrightarrow> nl \<notin> set l"
  by (induction cur s rule: lines_from.induct)
     (auto split: if_splits dest: set_strip_cr [THEN subsetD])

lemma str_lines_no_nl: "l \<in> set (str_lines s) \<Longrightarrow> nl \<notin> set l"
  using lines_from_no_nl [of "[]"] by (simp add: str_lines_def)

lemma lines_from_step: "nl \<notin> set l \<Longrightarrow> lines_from cur (l @ nl # rest) = strip_cr (cur @ l) # str_lines rest"
  by (induction l arbitrary: cur) (auto simp: str_lines_def)

lemma lines_from_last: "nl \<notin> set l \<Longrightarrow> lines_from cur l = (if cur @ l = [] then [] else [cur @ l])"
  by (induction l arbitrary: cur) auto

lemma str_lines_line: "nl \<notin> set l \<Longrightarrow> l \<noteq> [] \<Longrightarrow> str_lines l = [l]"
  by (simp add: str_lines_def lines_from_last)

lemma str_lines_Cons_line: "nl \<notin> set l \<Longrightarrow> str_lines (l @ nl # rest) = strip_cr l # str_lines rest"
  by (simp add: str_lines_def lines_from_step)

text \<open>Text without carriage returns is its lines joined again, up to one final newline.\<close>

lemma strip_cr_id: "cr \<notin> set l \<Longrightarrow> strip_cr l = l"
  by (metis last_in_set strip_cr_def)

lemma ends_with_nl_Cons: "ends_with (c # cs) [nl] \<longleftrightarrow> (if cs = [] then c = nl else ends_with cs [nl])"
  by (auto simp: ends_with_def suffix_Cons)

lemma join_lines_from:
  "cr \<notin> set (cur @ s) \<Longrightarrow>
   join [nl] (lines_from cur s) @ (if ends_with s [nl] then [nl] else []) = cur @ s"
proof (induction cur s rule: lines_from.induct)
  case (1 cur)
  then show ?case by (auto simp: ends_with_def)
next
  case (2 cur c cs)
  then show ?case
    by (cases "cs = []") (auto simp: ends_with_nl_Cons strip_cr_id join_Cons)
qed

lemma join_str_lines:
  "cr \<notin> set s \<Longrightarrow> join [nl] (str_lines s) @ (if ends_with s [nl] then [nl] else []) = s"
  using join_lines_from [of "[]" s] by (simp add: str_lines_def)

text \<open>Joining lines that hold no newline and reading the lines again gives the lines back.\<close>

lemma str_lines_join:
  assumes "\<forall>l \<in> set ls. nl \<notin> set l \<and> cr \<notin> set l" "ls = [] \<or> last ls \<noteq> []"
  shows "str_lines (join [nl] ls) = ls"
  using assms
proof (induction "[nl]" ls rule: join.induct)
  case (3 x y zs)
  then show ?case by (simp add: str_lines_Cons_line strip_cr_id)
qed (auto simp: str_lines_line)

subsection \<open>White space\<close>

text \<open>The UTF-8 encodings of the characters with the Unicode property \<open>White_Space\<close>.\<close>

definition ws_chars :: "rstr list" where
  "ws_chars =
     [[CHR 0x20], [CHR 0x0A], [CHR 0x09], [CHR 0x0D], [CHR 0x0B], [CHR 0x0C],
      [CHR 0xC2, CHR 0x85], [CHR 0xC2, CHR 0xA0], [CHR 0xE1, CHR 0x9A, CHR 0x80],
      [CHR 0xE2, CHR 0x80, CHR 0x80], [CHR 0xE2, CHR 0x80, CHR 0x81],
      [CHR 0xE2, CHR 0x80, CHR 0x82], [CHR 0xE2, CHR 0x80, CHR 0x83],
      [CHR 0xE2, CHR 0x80, CHR 0x84], [CHR 0xE2, CHR 0x80, CHR 0x85],
      [CHR 0xE2, CHR 0x80, CHR 0x86], [CHR 0xE2, CHR 0x80, CHR 0x87],
      [CHR 0xE2, CHR 0x80, CHR 0x88], [CHR 0xE2, CHR 0x80, CHR 0x89],
      [CHR 0xE2, CHR 0x80, CHR 0x8A], [CHR 0xE2, CHR 0x80, CHR 0xA8],
      [CHR 0xE2, CHR 0x80, CHR 0xA9], [CHR 0xE2, CHR 0x80, CHR 0xAF],
      [CHR 0xE2, CHR 0x81, CHR 0x9F], [CHR 0xE3, CHR 0x80, CHR 0x80]]"

definition ws_len :: "rstr \<Rightarrow> nat" where
  "ws_len s = (case find (\<lambda>w. prefix w s) ws_chars of None \<Rightarrow> 0 | Some w \<Rightarrow> length w)"

definition ws_len_end :: "rstr \<Rightarrow> nat" where
  "ws_len_end s = (case find (\<lambda>w. suffix w s) ws_chars of None \<Rightarrow> 0 | Some w \<Rightarrow> length w)"

lemma ws_len_Nil [simp]: "ws_len [] = 0"
  by (simp add: ws_len_def ws_chars_def)

lemma ws_len_end_Nil [simp]: "ws_len_end [] = 0"
  by (simp add: ws_len_end_def ws_chars_def)

lemma ws_len_pos_ne: "0 < ws_len s \<Longrightarrow> s \<noteq> []" "0 < ws_len_end s \<Longrightarrow> s \<noteq> []"
  by auto

function trim_start :: "rstr \<Rightarrow> rstr" where
  "trim_start s = (if ws_len s = 0 then s else trim_start (drop (ws_len s) s))"
  by pat_completeness auto
termination
  by (relation "measure length") (auto intro!: Suc_leI simp: ws_len_pos_ne)

function trim_end :: "rstr \<Rightarrow> rstr" where
  "trim_end s = (if ws_len_end s = 0 then s else trim_end (take (length s - ws_len_end s) s))"
  by pat_completeness auto
termination
  by (relation "measure length") (auto intro!: Suc_leI simp: ws_len_pos_ne)

declare trim_start.simps [simp del] trim_end.simps [simp del]

definition str_trim :: "rstr \<Rightarrow> rstr" where
  "str_trim s = trim_end (trim_start s)"

text \<open>\<open>split_whitespace\<close>: the maximal runs without white space.\<close>

function words_from :: "rstr \<Rightarrow> rstr \<Rightarrow> rstr list" where
  "words_from cur s =
     (if s = [] then (if cur = [] then [] else [cur])
      else if ws_len s = 0 then words_from (cur @ [hd s]) (tl s)
      else (if cur = [] then [] else [cur]) @ words_from [] (drop (ws_len s) s))"
  by pat_completeness auto
termination
  by (relation "measure (\<lambda>(cur, s). length s)") auto

declare words_from.simps [simp del]

definition split_whitespace :: "rstr \<Rightarrow> rstr list" where
  "split_whitespace s = words_from [] s"

lemma trim_start_suffix: "suffix (trim_start s) s"
proof (induction s rule: trim_start.induct)
  case (1 s)
  then show ?case
    by (subst trim_start.simps) (auto intro: suffix_order.order_trans suffix_drop)
qed

lemma trim_end_prefix: "prefix (trim_end s) s"
proof (induction s rule: trim_end.induct)
  case (1 s)
  then show ?case
    by (subst trim_end.simps) (auto intro: prefix_order.order_trans take_is_prefix)
qed

lemma trim_start_Nil [simp]: "trim_start [] = []"
  by (simp add: trim_start.simps)

lemma trim_end_Nil [simp]: "trim_end [] = []"
  by (simp add: trim_end.simps)

subsection \<open>Splitting at a character\<close>

fun split_char_from :: "char \<Rightarrow> rstr \<Rightarrow> rstr \<Rightarrow> rstr list" where
  "split_char_from d cur [] = [cur]"
| "split_char_from d cur (c # cs) =
     (if c = d then cur # split_char_from d [] cs else split_char_from d (cur @ [c]) cs)"

definition split_char :: "char \<Rightarrow> rstr \<Rightarrow> rstr list" where
  "split_char d s = split_char_from d [] s"

lemma split_char_from_ne [simp]: "split_char_from d cur s \<noteq> []"
  by (induction d cur s rule: split_char_from.induct) auto

lemma split_char_from_absent: "d \<notin> set s \<Longrightarrow> split_char_from d cur s = [cur @ s]"
  by (induction d cur s rule: split_char_from.induct) auto

lemma join_split_char_from: "join [d] (split_char_from d cur s) = cur @ s"
  by (induction d cur s rule: split_char_from.induct) (auto simp: join_Cons)

text \<open>\<open>trim_matches(c)\<close>, \<open>trim_start_matches(c)\<close>, \<open>trim_end_matches(c)\<close> for one ASCII character.\<close>

definition trim_start_matches :: "char \<Rightarrow> rstr \<Rightarrow> rstr" where
  "trim_start_matches c s = dropWhile (\<lambda>x. x = c) s"

definition trim_end_matches :: "char \<Rightarrow> rstr \<Rightarrow> rstr" where
  "trim_end_matches c s = rev (dropWhile (\<lambda>x. x = c) (rev s))"

definition trim_matches :: "char \<Rightarrow> rstr \<Rightarrow> rstr" where
  "trim_matches c s = trim_end_matches c (trim_start_matches c s)"

subsection \<open>Decimal and hexadecimal numbers\<close>

definition digit_char :: "nat \<Rightarrow> char" where
  "digit_char n = char_of (48 + n)"

definition is_digit :: "char \<Rightarrow> bool" where
  "is_digit c \<longleftrightarrow> 48 \<le> byte_val c \<and> byte_val c \<le> 57"

fun nat_str :: "nat \<Rightarrow> rstr" where
  "nat_str n = (if n < 10 then [digit_char n] else nat_str (n div 10) @ [digit_char (n mod 10)])"

declare nat_str.simps [simp del]

fun digits_value :: "nat \<Rightarrow> rstr \<Rightarrow> nat option" where
  "digits_value acc [] = Some acc"
| "digits_value acc (c # cs) =
     (if is_digit c then digits_value (10 * acc + (byte_val c - 48)) cs else None)"

text \<open>\<open>str::parse\<close> for an unsigned type of the given width: an optional \<open>+\<close>, then digits.\<close>

definition parse_unsigned :: "nat \<Rightarrow> rstr \<Rightarrow> nat option" where
  "parse_unsigned w s =
     (let ds = (case s of c # cs \<Rightarrow> if c = CHR ''+'' then cs else s | [] \<Rightarrow> [])
      in if ds = [] then None
         else (case digits_value 0 ds of
                 None \<Rightarrow> None
               | Some n \<Rightarrow> if n < 2 ^ w then Some n else None))"

text \<open>\<open>format!("{n:0w}")\<close>\<close>

definition pad_zeros :: "nat \<Rightarrow> rstr \<Rightarrow> rstr" where
  "pad_zeros w s = replicate (w - length s) (CHR ''0'') @ s"

lemma byte_val_digit_char: "n < 10 \<Longrightarrow> byte_val (digit_char n) = 48 + n"
  by (simp add: byte_val_def digit_char_def)

lemma is_digit_digit_char: "n < 10 \<Longrightarrow> is_digit (digit_char n)"
  by (simp add: is_digit_def byte_val_digit_char)

lemma is_digit_zero: "is_digit (CHR ''0'')"
  by (simp add: is_digit_def byte_val_def)

lemma not_digit_plus: "\<not> is_digit (CHR ''+'')"
  by (simp add: is_digit_def byte_val_def)

lemma digits_value_append:
  "digits_value acc (xs @ ys) = (case digits_value acc xs of None \<Rightarrow> None | Some a \<Rightarrow> digits_value a ys)"
  by (induction acc xs rule: digits_value.induct) auto

lemma digits_value_nat_str: "digits_value 0 (nat_str n) = Some n"
proof (induction n rule: nat_str.induct)
  case (1 n)
  show ?case
  proof (cases "n < 10")
    case True
    then show ?thesis
      by (simp add: nat_str.simps [of n] is_digit_digit_char byte_val_digit_char)
  next
    case False
    with 1 show ?thesis
      by (simp add: nat_str.simps [of n] digits_value_append is_digit_digit_char byte_val_digit_char)
  qed
qed

lemma digits_value_zeros: "digits_value 0 (replicate k (CHR ''0'') @ s) = digits_value 0 s"
  by (induction k) (auto simp: is_digit_def byte_val_def)

lemma nat_str_ne [simp]: "nat_str n \<noteq> []"
  by (subst nat_str.simps) auto

lemma is_digit_nat_str: "c \<in> set (nat_str n) \<Longrightarrow> is_digit c"
proof (induction n rule: nat_str.induct)
  case (1 n)
  then show ?case
    by (subst (asm) (2) nat_str.simps) (auto simp: is_digit_digit_char split: if_splits)
qed

lemma parse_unsigned_padded:
  assumes "n < 2 ^ w"
  shows "parse_unsigned w (pad_zeros k (nat_str n)) = Some n"
proof -
  let ?s = "pad_zeros k (nat_str n)"
  have d: "\<forall>c \<in> set ?s. is_digit c"
    by (auto simp: pad_zeros_def is_digit_nat_str is_digit_zero)
  have ne: "?s \<noteq> []" by (simp add: pad_zeros_def)
  have "hd ?s \<noteq> CHR ''+''"
    using d ne hd_in_set [OF ne] not_digit_plus by metis
  then have "(case ?s of c # cs \<Rightarrow> if c = CHR ''+'' then cs else ?s | [] \<Rightarrow> []) = ?s"
    using ne by (cases ?s) auto
  moreover have "digits_value 0 ?s = Some n"
    by (simp add: pad_zeros_def digits_value_zeros digits_value_nat_str)
  ultimately show ?thesis using assms ne by (simp add: parse_unsigned_def)
qed

definition hex_digit :: "nat \<Rightarrow> char" where
  "hex_digit n = (if n < 10 then char_of (48 + n) else char_of (55 + n))"

text \<open>\<open>format!("{b:02X}")\<close>\<close>

definition hex_byte :: "char \<Rightarrow> rstr" where
  "hex_byte c = [hex_digit (byte_val c div 16), hex_digit (byte_val c mod 16)]"

lemma byte_val_lt: "byte_val c < 256"
  by (simp add: byte_val_def)

lemma byte_val_inj: "byte_val a = byte_val b \<Longrightarrow> a = b"
  by (simp add: byte_val_def)

lemma byte_val_char_of: "n < 256 \<Longrightarrow> byte_val (char_of n) = n"
  by (simp add: byte_val_def)

lemma hex_digit_inj: "m < 16 \<Longrightarrow> n < 16 \<Longrightarrow> hex_digit m = hex_digit n \<Longrightarrow> m = n"
proof -
  assume a: "m < 16" "n < 16" "hex_digit m = hex_digit n"
  have v: "byte_val (hex_digit k) = (if k < 10 then 48 + k else 55 + k)" if "k < 16" for k
  proof -
    have "48 + k < 256" "55 + k < 256" using that by arith+
    from this [THEN byte_val_char_of] show ?thesis by (simp only: hex_digit_def split: if_split) blast
  qed
  have "(if m < 10 then 48 + m else 55 + m) = (if n < 10 then 48 + n else 55 + n)"
    by (simp only: v [OF a(1), symmetric] v [OF a(2), symmetric] a(3))
  then show "m = n" by (simp split: if_splits)
qed

lemma byte_val_split: "byte_val c = 16 * (byte_val c div 16) + byte_val c mod 16"
  by simp

lemma hex_byte_inj: "hex_byte a = hex_byte b \<Longrightarrow> a = b"
proof -
  assume a: "hex_byte a = hex_byte b"
  have l: "byte_val c div 16 < 16" "byte_val c mod 16 < 16" for c
    using byte_val_lt [of c] by auto
  from a have "byte_val a div 16 = byte_val b div 16" "byte_val a mod 16 = byte_val b mod 16"
    using hex_digit_inj [OF l(1) l(1)] hex_digit_inj [OF l(2) l(2)] by (auto simp: hex_byte_def)
  then have "byte_val a = byte_val b" by (metis byte_val_split)
  then show "a = b" by (rule byte_val_inj)
qed

lemma length_hex_byte [simp]: "length (hex_byte c) = 2"
  by (simp add: hex_byte_def)

definition is_ascii_alphanumeric :: "char \<Rightarrow> bool" where
  "is_ascii_alphanumeric c \<longleftrightarrow>
     is_digit c \<or> (65 \<le> byte_val c \<and> byte_val c \<le> 90) \<or> (97 \<le> byte_val c \<and> byte_val c \<le> 122)"

definition to_ascii_lowercase :: "rstr \<Rightarrow> rstr" where
  "to_ascii_lowercase s =
     map (\<lambda>c. if 65 \<le> byte_val c \<and> byte_val c \<le> 90 then char_of (byte_val c + 32) else c) s"

definition em_dash :: rstr where
  "em_dash = [CHR 0xE2, CHR 0x80, CHR 0x94]"

subsection \<open>Lossy decoding\<close>

text \<open>
  \<open>String::from_utf8_lossy\<close>: each maximal ill-formed part becomes \<open>U+FFFD\<close>. The length of such a part
  is the number of its bytes that begin some well-formed sequence, and at least one.
\<close>

definition ill_formed_len :: "rstr \<Rightarrow> nat" where
  "ill_formed_len s =
     (let cont = byte_in 128 191 s;
          three = byte_in 224 224 s 0 \<and> byte_in 160 191 s 1 \<or> byte_in 225 236 s 0 \<and> cont 1 \<or>
                  byte_in 237 237 s 0 \<and> byte_in 128 159 s 1 \<or> byte_in 238 239 s 0 \<and> cont 1;
          four = byte_in 240 240 s 0 \<and> byte_in 144 191 s 1 \<or> byte_in 241 243 s 0 \<and> cont 1 \<or>
                 byte_in 244 244 s 0 \<and> byte_in 128 143 s 1
      in if four \<and> cont 2 then 3 else if three \<or> four then 2 else 1)"

definition replacement_char :: rstr where
  "replacement_char = [CHR 0xEF, CHR 0xBF, CHR 0xBD]"

function from_utf8_lossy :: "byte_vec \<Rightarrow> rstr" where
  "from_utf8_lossy s =
     (if s = [] then []
      else if utf8_seq_len s = 0 then replacement_char @ from_utf8_lossy (drop (ill_formed_len s) s)
      else take (utf8_seq_len s) s @ from_utf8_lossy (drop (utf8_seq_len s) s))"
  by pat_completeness auto
termination
  by (relation "measure length") (auto simp: ill_formed_len_def Let_def)

declare from_utf8_lossy.simps [simp del]

lemma from_utf8_lossy_valid: "utf8_valid s \<Longrightarrow> from_utf8_lossy s = s"
proof (induction s rule: utf8_valid.induct)
  case (1 s)
  show ?case
  proof (cases "s = []")
    case True
    then show ?thesis by (simp add: from_utf8_lossy.simps)
  next
    case False
    with "1.prems" have "utf8_seq_len s \<noteq> 0" "utf8_valid (drop (utf8_seq_len s) s)"
      by (subst (asm) utf8_valid.simps, simp split: if_splits)+
    with False 1 show ?thesis by (subst from_utf8_lossy.simps) simp
  qed
qed

text \<open>\<open>str::chars\<close>: the characters, each as its bytes.\<close>

function str_chars :: "rstr \<Rightarrow> rstr list" where
  "str_chars s =
     (if s = [] then []
      else take (max 1 (utf8_seq_len s)) s # str_chars (drop (max 1 (utf8_seq_len s)) s))"
  by pat_completeness auto
termination
  by (relation "measure length") auto

declare str_chars.simps [simp del]

lemma concat_str_chars: "concat (str_chars s) = s"
proof (induction s rule: str_chars.induct)
  case (1 s)
  then show ?case by (subst str_chars.simps) simp
qed

end
