(* ===== verification/Util.thy ===== *)
theory Util
  imports RustStr
begin

section \<open>Truncation helpers (\<open>crates/agent/src/util.rs\<close>)\<close>

text \<open>
  \<open>floor_char_boundary\<close>, \<open>truncate_str\<close> and \<open>truncate_output\<close>, which every tool uses to bound
  what it shows the model, and \<open>truncate_and_persist\<close>, which also saves the full text. Saving is
  file I/O: the model takes as argument the path it was saved under, or \<open>None\<close> when one of the
  two file operations failed.
\<close>

subsection \<open>Cutting at a char boundary\<close>

fun floor_from :: "rstr \<Rightarrow> nat \<Rightarrow> nat" where
  "floor_from s 0 = 0"
| "floor_from s (Suc e) = (if is_char_boundary s (Suc e) then Suc e else floor_from s e)"

definition floor_char_boundary :: "rstr \<Rightarrow> nat \<Rightarrow> nat" where
  "floor_char_boundary s target = (if length s \<le> target then length s else floor_from s target)"

text \<open>\<open>&s[..floor_char_boundary(s, max_bytes)]\<close>; \<open>None\<close> would be the slice's panic.\<close>

definition truncate_str :: "rstr \<Rightarrow> nat \<Rightarrow> rstr option" where
  "truncate_str s max_bytes = str_slice s 0 (floor_char_boundary s max_bytes)"

lemma floor_from_le: "floor_from s e \<le> e"
  by (induction e) auto

lemma floor_from_boundary: "is_char_boundary s (floor_from s e)"
  by (induction e) auto

lemma floor_from_greatest: "b \<le> e \<Longrightarrow> is_char_boundary s b \<Longrightarrow> b \<le> floor_from s e"
  by (induction e) (auto simp: le_Suc_eq)

lemma floor_char_boundary_le: "floor_char_boundary s t \<le> t"
  by (simp add: floor_char_boundary_def floor_from_le)

lemma floor_char_boundary_le_length: "floor_char_boundary s t \<le> length s"
  using floor_from_le [of s t] by (simp add: floor_char_boundary_def)

lemma floor_char_boundary_boundary: "is_char_boundary s (floor_char_boundary s t)"
  by (simp add: floor_char_boundary_def floor_from_boundary)

lemma floor_char_boundary_greatest:
  "b \<le> t \<Longrightarrow> b \<le> length s \<Longrightarrow> is_char_boundary s b \<Longrightarrow> b \<le> floor_char_boundary s t"
  by (simp add: floor_char_boundary_def floor_from_greatest)

text \<open>Truncating never panics; this is the value.\<close>

lemma truncate_str_eq: "truncate_str s m = Some (take (floor_char_boundary s m) s)"
  by (simp add: truncate_str_def str_slice_def floor_char_boundary_le_length
      floor_char_boundary_boundary)

definition truncated :: "rstr \<Rightarrow> nat \<Rightarrow> rstr" where
  "truncated s m = take (floor_char_boundary s m) s"

lemma length_truncated: "length (truncated s m) \<le> m"
  using floor_char_boundary_le [of s m] by (simp add: truncated_def)

lemma prefix_truncated: "prefix (truncated s m) s"
  by (simp add: truncated_def take_is_prefix)

subsection \<open>Bounding lines and bytes\<close>

definition trunc_marker :: "nat \<Rightarrow> nat \<Rightarrow> nat \<Rightarrow> nat \<Rightarrow> rstr" where
  "trunc_marker line_count total_lines byte_count total_bytes =
     [nl] @ ''... truncated ('' @ nat_str line_count @ '' of '' @ nat_str total_lines @
     '' lines, '' @ nat_str byte_count @ '' of '' @ nat_str total_bytes @ '' bytes)''"

fun trunc_loop ::
  "nat \<Rightarrow> nat \<Rightarrow> nat \<Rightarrow> nat \<Rightarrow> nat \<Rightarrow> nat \<Rightarrow> rstr \<Rightarrow> rstr list \<Rightarrow> rstr" where
  "trunc_loop max_lines max_bytes nlines nbytes line_count byte_count result [] = result"
| "trunc_loop max_lines max_bytes nlines nbytes line_count byte_count result (line # rest) =
     (if line_count \<ge> max_lines \<or> byte_count + length line + 1 > max_bytes
      then result @ trunc_marker line_count nlines byte_count nbytes
      else trunc_loop max_lines max_bytes nlines nbytes (line_count + 1)
             (byte_count + (if line_count > 0 then 1 else 0) + length line)
             (result @ (if line_count > 0 then [nl] else []) @ line) rest)"

definition truncate_output :: "rstr \<Rightarrow> nat \<Rightarrow> nat \<Rightarrow> rstr" where
  "truncate_output output max_lines max_bytes =
     (let total_lines = length (str_lines output); total_bytes = length output
      in if total_lines \<le> max_lines \<and> total_bytes \<le> max_bytes then output
         else trunc_loop max_lines max_bytes total_lines total_bytes 0 0 [] (str_lines output))"

definition truncate_and_persist :: "rstr \<Rightarrow> nat \<Rightarrow> nat \<Rightarrow> rstr option \<Rightarrow> rstr" where
  "truncate_and_persist output max_lines max_bytes saved =
     (if length (str_lines output) \<le> max_lines \<and> length output \<le> max_bytes then output
      else let truncated = truncate_output output max_lines max_bytes
           in case saved of
                Some path \<Rightarrow> truncated @ [nl] @ ''Full output saved to '' @ path @
                  ''. Use the read tool to view specific sections.''
              | None \<Rightarrow> truncated)"

text \<open>
  What the loop keeps: after \<open>k\<close> lines the result is those lines joined, and \<open>byte_count\<close> is its
  length. It stops at the first line that would exceed a limit.
\<close>

lemma join_snoc: "join sep (xs @ [x]) = (if xs = [] then x else join sep xs @ sep @ x)"
  by (induction sep xs rule: join.induct) (auto simp: join_Cons)

lemma trunc_loop_spec:
  assumes "result = join [nl] done_lines" "line_count = length done_lines"
    "byte_count = length result" "line_count \<le> max_lines" "byte_count \<le> max_bytes"
  shows "\<exists>k \<le> length rest. let kept = join [nl] (done_lines @ take k rest) in
     length done_lines + k \<le> max_lines \<and> length kept \<le> max_bytes \<and>
     trunc_loop max_lines max_bytes nlines nbytes line_count byte_count result rest =
       kept @ (if k < length rest then trunc_marker (length done_lines + k) nlines (length kept) nbytes else [])"
  using assms
proof (induction rest arbitrary: done_lines result line_count byte_count)
  case Nil
  then show ?case by (simp add: Let_def)
next
  case (Cons line rest)
  show ?case
  proof (cases "line_count \<ge> max_lines \<or> byte_count + length line + 1 > max_bytes")
    case True
    with Cons.prems show ?thesis by (intro exI [of _ 0]) (auto simp: Let_def)
  next
    case False
    let ?d = "done_lines @ [line]"
    let ?r = "result @ (if line_count > 0 then [nl] else []) @ line"
    let ?b = "byte_count + (if line_count > 0 then 1 else 0) + length line"
    have 1: "?r = join [nl] ?d" using Cons.prems by (auto simp: join_snoc)
    have 2: "?b = length ?r" "?b \<le> max_bytes" using Cons.prems False by auto
    from Cons.IH [OF 1 _ 2(1) _ 2(2), of "line_count + 1"] Cons.prems False
    obtain k where "k \<le> length rest" and k: "let kept = join [nl] (?d @ take k rest) in
       length ?d + k \<le> max_lines \<and> length kept \<le> max_bytes \<and>
       trunc_loop max_lines max_bytes nlines nbytes (line_count + 1) ?b ?r rest =
         kept @ (if k < length rest then trunc_marker (length ?d + k) nlines (length kept) nbytes else [])"
      by auto
    with False show ?thesis by (intro exI [of _ "Suc k"]) (auto simp: Let_def)
  qed
qed

text \<open>
  When a tool's output exceeds a limit, what is shown is a number of its first lines, within
  both limits, with a final note of how much was left out unless all lines were kept.
\<close>

theorem truncate_output_bounded:
  assumes "\<not> (length (str_lines output) \<le> max_lines \<and> length output \<le> max_bytes)"
  shows "\<exists>k \<le> length (str_lines output). let kept = join [nl] (take k (str_lines output)) in
     k \<le> max_lines \<and> length kept \<le> max_bytes \<and>
     truncate_output output max_lines max_bytes =
       kept @ (if k < length (str_lines output)
               then trunc_marker k (length (str_lines output)) (length kept) (length output) else [])"
proof -
  have eq: "truncate_output output max_lines max_bytes =
      trunc_loop max_lines max_bytes (length (str_lines output)) (length output) 0 0 [] (str_lines output)"
    using assms by (auto simp: truncate_output_def Let_def)
  show ?thesis unfolding eq
    using trunc_loop_spec [of "[]" "[]" 0 0 max_lines max_bytes "str_lines output"
        "length (str_lines output)" "length output"]
    by (simp only: append_Nil list.size(3) add_0 join.simps(1) le0 simp_thms)
qed

definition two_lines :: rstr where
  "two_lines = [CHR ''a'', nl, CHR ''b'']"

theorem truncate_output_bounded_witness:
  "length (str_lines two_lines) = 2 \<and>
   (\<exists>k \<le> length (str_lines two_lines). let kept = join [nl] (take k (str_lines two_lines)) in
     k \<le> 1 \<and> length kept \<le> 100 \<and>
     truncate_output two_lines 1 100 =
       kept @ (if k < length (str_lines two_lines)
               then trunc_marker k (length (str_lines two_lines)) (length kept) (length two_lines) else []))"
proof -
  have two: "length (str_lines two_lines) = 2" by (simp add: two_lines_def str_lines_def strip_cr_def)
  then have "\<not> (length (str_lines two_lines) \<le> 1 \<and> length two_lines \<le> 100)" by simp
  from truncate_output_bounded [OF this] two show ?thesis by blast
qed

end
