(* ===== verification/EditTool.thy ===== *)
theory EditTool
  imports Util
begin

section \<open>The edit tool's matching engine (\<open>tool/edit.rs\<close>)\<close>

text \<open>
  \<open>replace\<close> finds \<open>oldString\<close> in a file by eight strategies, from exact to fuzzy, and replaces the
  first candidate text that occurs exactly once (or all its occurrences). The strategies and their
  order, the uniqueness rule, the line ending handling and the error with match locations are
  modelled as they are. Two crates are arguments: \<open>similar a b\<close> stands for
  \<open>strsim::normalized_levenshtein(a, b) >= 0.7\<close>, and \<open>ws_find words line\<close> for the first match in
  the line of the regular expression joining the escaped words with \<open>\s+\<close> (\<open>regex\<close>).
  A byte slice off a char boundary panics; \<open>replace\<close> returns \<open>None\<close> for that.
\<close>

subsection \<open>Line endings\<close>

definition detect_crlf :: "rstr \<Rightarrow> bool" where
  "detect_crlf content = str_contains (truncated content 1000) [cr, nl]"

definition normalize_lf :: "rstr \<Rightarrow> rstr" where
  "normalize_lf s = str_replace s [cr, nl] [nl]"

definition to_crlf :: "rstr \<Rightarrow> rstr" where
  "to_crlf s = str_replace (normalize_lf s) [nl] [cr, nl]"

lemma str_replace_no_first: "p \<noteq> [] \<Longrightarrow> hd p \<notin> set s \<Longrightarrow> str_replace s p r = s"
proof (induction s p r rule: str_replace.induct)
  case (2 c cs p r)
  have "\<not> prefix p (c # cs)" using "2.prems" by (cases p) auto
  with 2 show ?case by auto
qed simp

lemma normalize_lf_no_cr: "cr \<notin> set s \<Longrightarrow> normalize_lf s = s"
  by (simp add: normalize_lf_def str_replace_no_first)

lemma normalize_lf_crlf:
  "cr \<notin> set s \<Longrightarrow> str_replace (str_replace s [nl] [cr, nl]) [cr, nl] [nl] = s"
  by (induction s) auto

lemma normalize_to_crlf: "cr \<notin> set s \<Longrightarrow> normalize_lf (to_crlf s) = s"
  unfolding to_crlf_def normalize_lf_no_cr by (simp add: normalize_lf_def normalize_lf_crlf)

lemma str_replace_char_append: "str_replace (xs @ ys) [c] r = str_replace xs [c] r @ str_replace ys [c] r"
  by (induction xs) auto

lemma to_crlf_append:
  "cr \<notin> set xs \<Longrightarrow> cr \<notin> set ys \<Longrightarrow> to_crlf (xs @ ys) = to_crlf xs @ to_crlf ys"
  by (simp add: to_crlf_def normalize_lf_no_cr str_replace_char_append)

subsection \<open>Occurrences\<close>

definition count_occurrences :: "rstr \<Rightarrow> rstr \<Rightarrow> nat" where
  "count_occurrences haystack needle =
     (if needle = [] then 0 else count_matches haystack needle)"

definition windows :: "nat \<Rightarrow> 'a list \<Rightarrow> 'a list list" where
  "windows n xs =
     (if length xs < n then [] else map (\<lambda>i. take n (drop i xs)) [0 ..< length xs - n + 1])"

type_synonym replacer = "rstr \<Rightarrow> rstr \<Rightarrow> rstr list"

subsection \<open>The strategies\<close>

definition exact_replacer :: replacer where
  "exact_replacer content pat = (if str_contains content pat then [pat] else [])"

definition line_trimmed_replacer :: replacer where
  "line_trimmed_replacer content pat =
     (let find_lines = str_lines pat; find_trimmed = map str_trim find_lines
      in if find_lines = [] then []
         else map (join [nl]) (filter (\<lambda>w. map str_trim w = find_trimmed)
                (windows (length find_lines) (str_lines content))))"

definition block_anchor_replacer :: "(rstr \<Rightarrow> rstr \<Rightarrow> bool) \<Rightarrow> replacer" where
  "block_anchor_replacer similar content pat =
     (let find_lines = str_lines pat
      in if length find_lines < 3 then []
         else let anchor_size = min 2 (length find_lines div 2);
                  first_anchor = join [nl] (take anchor_size find_lines);
                  last_anchor = join [nl] (drop (length find_lines - anchor_size) find_lines)
              in map (join [nl]) (filter (\<lambda>w.
                   similar first_anchor (join [nl] (take anchor_size w)) \<and>
                   similar last_anchor (join [nl] (drop (length w - anchor_size) w)))
                   (windows (length find_lines) (str_lines content))))"

definition normalize_whitespace :: "rstr \<Rightarrow> rstr" where
  "normalize_whitespace text = join '' '' (split_whitespace text)"

definition single_line_whitespace_match ::
  "(rstr list \<Rightarrow> rstr \<Rightarrow> rstr option) \<Rightarrow> rstr \<Rightarrow> rstr \<Rightarrow> rstr list" where
  "single_line_whitespace_match ws_find content find_normalized =
     (let words = split_char (CHR '' '') find_normalized
      in List.map_filter (\<lambda>line.
           if normalize_whitespace line = find_normalized then Some line
           else if str_contains (normalize_whitespace line) find_normalized then ws_find words line
           else None) (str_lines content))"

definition multi_line_whitespace_match :: "rstr \<Rightarrow> rstr \<Rightarrow> nat \<Rightarrow> rstr list" where
  "multi_line_whitespace_match content find_normalized find_line_count =
     filter (\<lambda>window_text. normalize_whitespace window_text = find_normalized)
       (map (join [nl]) (windows find_line_count (str_lines content)))"

definition whitespace_normalized_replacer ::
  "(rstr list \<Rightarrow> rstr \<Rightarrow> rstr option) \<Rightarrow> replacer" where
  "whitespace_normalized_replacer ws_find content pat =
     (let find_normalized = normalize_whitespace pat; find_lines = str_lines pat
      in if find_normalized = [] then []
         else if length find_lines \<le> 1
              then single_line_whitespace_match ws_find content find_normalized
              else multi_line_whitespace_match content find_normalized (length find_lines))"

definition indent_of :: "rstr \<Rightarrow> nat" where
  "indent_of l = length l - length (trim_start l)"

definition de_indent :: "rstr \<Rightarrow> rstr" where
  "de_indent text =
     (let lines = str_lines text;
          indents = map indent_of (filter (\<lambda>l. str_trim l \<noteq> []) lines);
          min_indent = (if indents = [] then 0 else Min (set indents))
      in join [nl] (map (\<lambda>l. if str_trim l = [] then []
                             else drop (floor_char_boundary l min_indent) l) lines))"

definition indentation_flexible_replacer :: replacer where
  "indentation_flexible_replacer content pat =
     (let find_lines = str_lines pat
      in if find_lines = [] then []
         else filter (\<lambda>window_text. de_indent window_text = de_indent pat)
                (map (join [nl]) (windows (length find_lines) (str_lines content))))"

definition backslash :: char where "backslash = CHR 0x5C"

definition normalize_escapes :: "rstr \<Rightarrow> rstr" where
  "normalize_escapes s =
     (let s1 = str_replace s [backslash, CHR ''n''] [nl];
          s2 = str_replace s1 [backslash, CHR ''t''] [CHR 0x09];
          s3 = str_replace s2 [backslash, CHR 0x22] [CHR 0x22];
          s4 = str_replace s3 [backslash, CHR 0x27] [CHR 0x27]
      in str_replace s4 [backslash, backslash] [backslash])"

definition escape_normalized_replacer :: replacer where
  "escape_normalized_replacer content pat =
     (let find_norm = normalize_escapes pat
      in if find_norm = pat then []
         else if str_contains content find_norm then [find_norm] else [])"

definition trimmed_boundary_replacer :: replacer where
  "trimmed_boundary_replacer content pat =
     (let find_trimmed = trim_matches nl pat
      in if find_trimmed = pat \<or> find_trimmed = [] then []
         else exact_replacer content find_trimmed)"

fun first_some :: "('a \<Rightarrow> 'b option) \<Rightarrow> 'a list \<Rightarrow> 'b option" where
  "first_some f [] = None"
| "first_some f (x # xs) = (case f x of Some y \<Rightarrow> Some y | None \<Rightarrow> first_some f xs)"

definition context_aware_replacer :: "(rstr \<Rightarrow> rstr \<Rightarrow> bool) \<Rightarrow> replacer" where
  "context_aware_replacer similar content pat =
     (let anchors = filter (\<lambda>l. str_trim l \<noteq> []) (str_lines pat)
      in if length anchors < 2 then []
         else
           let first = str_trim (hd anchors); lst = str_trim (last anchors);
               content_lines = str_lines content;
               max_span = length (str_lines pat) + 5;
               attempt = (\<lambda>i.
                 if similar first (str_trim (content_lines ! i))
                 then map_option (\<lambda>j. join [nl] (take (j + 1 - i) (drop i content_lines)))
                        (find (\<lambda>j. similar lst (str_trim (content_lines ! j)))
                           (rev [i + 1 ..< min (length content_lines) (i + max_span)]))
                 else None)
           in (case first_some attempt [0 ..< length content_lines] of
                 Some candidate \<Rightarrow> [candidate]
               | None \<Rightarrow> []))"

definition replacers ::
  "(rstr \<Rightarrow> rstr \<Rightarrow> bool) \<Rightarrow> (rstr list \<Rightarrow> rstr \<Rightarrow> rstr option) \<Rightarrow> replacer list" where
  "replacers similar ws_find =
     [exact_replacer, line_trimmed_replacer, block_anchor_replacer similar,
      whitespace_normalized_replacer ws_find, indentation_flexible_replacer,
      escape_normalized_replacer, trimmed_boundary_replacer, context_aware_replacer similar]"

subsection \<open>Choosing a candidate\<close>

fun try_candidates :: "rstr \<Rightarrow> rstr \<Rightarrow> bool \<Rightarrow> rstr list \<Rightarrow> rstr option" where
  "try_candidates content repl all [] = None"
| "try_candidates content repl all (c # cs) =
     (let count = count_occurrences content c
      in if count = 0 then try_candidates content repl all cs
         else if all then Some (str_replace content c repl)
         else if count = 1 then Some (str_replace_first content c repl)
         else try_candidates content repl all cs)"

fun replace_loop ::
  "rstr \<Rightarrow> rstr \<Rightarrow> rstr \<Rightarrow> bool \<Rightarrow> bool \<Rightarrow> replacer list \<Rightarrow> bool \<times> rstr option" where
  "replace_loop content old repl all found [] = (found, None)"
| "replace_loop content old repl all found (r # rs) =
     (let candidates = r content old
      in if candidates = [] then replace_loop content old repl all found rs
         else case try_candidates content repl all candidates of
                Some result \<Rightarrow> (True, Some result)
              | None \<Rightarrow> replace_loop content old repl all True rs)"

subsection \<open>The locations shown for an ambiguous match\<close>

fun locate :: "nat \<Rightarrow> rstr \<Rightarrow> rstr \<Rightarrow> nat \<Rightarrow> rstr list option" where
  "locate 0 content candidate frm = Some []"
| "locate (Suc left) content candidate frm =
     (case str_find (drop frm content) candidate of
        None \<Rightarrow> Some []
      | Some pos \<Rightarrow>
          let abs_pos = frm + pos;
              line_num = count_matches (take abs_pos content) [nl] + 1;
              preview_end = min (abs_pos + 60) (length content)
          in case str_slice content abs_pos preview_end of
               None \<Rightarrow> None
             | Some p \<Rightarrow>
                 map_option (\<lambda>ls. (''  Line '' @ nat_str line_num @ '': '' @
                                    str_replace p [nl] [backslash, CHR ''n''] @ ''...'') # ls)
                   (locate left content candidate (abs_pos + length candidate)))"

fun locations :: "rstr \<Rightarrow> rstr list \<Rightarrow> rstr list option" where
  "locations content [] = Some []"
| "locations content (c # cs) =
     (case locate 5 content c 0 of
        None \<Rightarrow> None
      | Some [] \<Rightarrow> locations content cs
      | Some ls \<Rightarrow> Some ls)"

definition no_match_error :: rstr where
  "no_match_error = ''No match found for the specified oldString in the file. Read the file again and copy the exact text you want to replace, including 2-3 surrounding lines for context.''"

definition replace ::
  "(rstr \<Rightarrow> rstr \<Rightarrow> bool) \<Rightarrow> (rstr list \<Rightarrow> rstr \<Rightarrow> rstr option) \<Rightarrow>
   rstr \<Rightarrow> rstr \<Rightarrow> rstr \<Rightarrow> bool \<Rightarrow> (rstr + rstr) option" where
  "replace similar ws_find content old_string new_string replace_all =
     (if old_string = [] then Some (Inl ''Error: oldString must not be empty'')
      else if old_string = new_string then
        Some (Inl (''Error: oldString and newString are identical '' @ em_dash @ '' no change needed''))
      else
        let is_crlf = detect_crlf content;
            content_lf = normalize_lf content;
            old_lf = normalize_lf old_string;
            new_lf = normalize_lf new_string;
            rs = replacers similar ws_find
        in case replace_loop content_lf old_lf new_lf replace_all False rs of
             (_, Some result) \<Rightarrow> Some (Inr (if is_crlf then to_crlf result else result))
           | (False, None) \<Rightarrow> Some (Inl no_match_error)
           | (True, None) \<Rightarrow>
               map_option (\<lambda>ls. Inl (''Multiple matches found for the specified oldString. Add more surrounding lines to oldString to make it unique, or use replaceAll=true.'' @
                   (if ls = [] then [] else [nl] @ ''Match locations:'' @ [nl] @ join [nl] ls)))
                 (locations content_lf (concat (map (\<lambda>r. r content_lf old_lf) rs))))"

subsection \<open>What a successful edit did\<close>

definition replaced_at :: "rstr \<Rightarrow> rstr \<Rightarrow> bool \<Rightarrow> rstr \<Rightarrow> rstr \<Rightarrow> bool" where
  "replaced_at content repl all c r \<longleftrightarrow> 0 < count_occurrences content c \<and>
     (if all then r = str_replace content c repl
      else count_occurrences content c = 1 \<and> r = str_replace_first content c repl)"

lemma try_candidates_Some:
  "try_candidates content repl replace_all cs = Some r \<Longrightarrow>
   \<exists>c. replaced_at content repl replace_all c r"
proof (induction cs)
  case (Cons c cs)
  show ?case
  proof (cases "replaced_at content repl replace_all c r")
    case False
    with Cons.prems have "try_candidates content repl replace_all cs = Some r"
      by (auto simp: Let_def replaced_at_def split: if_splits)
    then show ?thesis by (rule Cons.IH)
  qed blast
qed simp

lemma replace_loop_Some:
  "replace_loop content old repl replace_all found rs = (b, Some r) \<Longrightarrow>
   \<exists>c. replaced_at content repl replace_all c r"
proof (induction content old repl replace_all found rs rule: replace_loop.induct)
  case (2 content old repl all found g rs)
  show ?case
  proof (cases "g content old \<noteq> [] \<and> try_candidates content repl all (g content old) = Some r")
    case True
    then show ?thesis using try_candidates_Some by blast
  next
    case False
    with 2 show ?thesis by (simp add: Let_def split: if_splits option.splits)
  qed
qed simp

lemma count_occurrences_ne: "0 < count_occurrences s c \<Longrightarrow> c \<noteq> [] \<and> 0 < count_matches s c"
  by (auto simp: count_occurrences_def split: if_splits)

lemma replace_OkD:
  assumes "replace similar ws_find content old new replace_all = Some (Inr r)"
  shows "\<exists>b t. replace_loop (normalize_lf content) (normalize_lf old) (normalize_lf new) replace_all
           False (replacers similar ws_find) = (b, Some t) \<and>
         r = (if detect_crlf content then to_crlf t else t)"
  using assms unfolding replace_def Let_def
  by (auto split: if_splits prod.splits option.splits bool.splits)

lemma set_normalize_lf: "set (normalize_lf s) \<subseteq> set s \<union> {nl}"
  using str_replace_set [of s "[cr, nl]" "[nl]"] by (simp add: normalize_lf_def)

lemma locate_ascii:
  "\<forall>c \<in> set content. byte_val c < 128 \<Longrightarrow> frm \<le> length content \<Longrightarrow> locate n content cand frm \<noteq> None"
proof (induction n arbitrary: frm)
  case (Suc n)
  have b: "is_char_boundary content i" if "i \<le> length content" for i
  proof (cases "i = length content")
    case False
    with that have "content ! i \<in> set content" by simp
    with Suc(2) have "byte_val (content ! i) < 128" by blast
    with that False show ?thesis by (simp add: is_char_boundary_def is_continuation_def)
  qed simp
  show ?case
  proof (cases "str_find (drop frm content) cand")
    case (Some pos)
    with str_find_Some [OF Some] have le: "frm + pos + length cand \<le> length content"
      using Suc(3) by auto
    then have "str_slice content (frm + pos) (min (frm + pos + 60) (length content)) \<noteq> None"
      using b by (simp add: str_slice_def)
    with Suc.IH [OF Suc(2) le] Some show ?thesis by (auto simp: Let_def)
  qed simp
qed simp

lemma locations_ascii: "\<forall>c \<in> set content. byte_val c < 128 \<Longrightarrow> locations content cs \<noteq> None"
  by (induction cs) (auto dest: locate_ascii split: option.splits list.splits)

lemma replace_one_place:
  assumes "replace similar ws_find content old new False = Some (Inr r)"
  shows "\<exists>pre c post. normalize_lf content = pre @ c @ post \<and> c \<noteq> [] \<and>
     count_matches (normalize_lf content) c = 1 \<and>
     r = (if detect_crlf content then to_crlf (pre @ normalize_lf new @ post)
          else pre @ normalize_lf new @ post)"
proof -
  from replace_OkD [OF assms] obtain b t where
    t: "replace_loop (normalize_lf content) (normalize_lf old) (normalize_lf new) False False
          (replacers similar ws_find) = (b, Some t)"
    "r = (if detect_crlf content then to_crlf t else t)" by blast
  from replace_loop_Some [OF t(1)] obtain c where
    c: "count_occurrences (normalize_lf content) c = 1"
    "t = str_replace_first (normalize_lf content) c (normalize_lf new)"
    by (auto simp: replaced_at_def)
  then have ne: "c \<noteq> []" "count_matches (normalize_lf content) c = 1"
    by (auto simp: count_occurrences_def split: if_splits)
  with str_replace_first_contains [OF count_matches_pos_contains] c(2) t(2) show ?thesis
    by (metis zero_less_one)
qed

subsection \<open>Properties\<close>

text \<open>
  A successful edit without \<open>replaceAll\<close> changes one place only: the file text (with LF line
  ends) contains some candidate exactly once, that occurrence is replaced by \<open>newString\<close>,
  everything before and after it is kept, and CRLF is restored when the file was found to use it.
\<close>

theorem edit_changes_one_place:
  assumes "replace similar ws_find content old new False = Some (Inr r)"
  shows "\<exists>pre c post. normalize_lf content = pre @ c @ post \<and> c \<noteq> [] \<and>
     count_matches (normalize_lf content) c = 1 \<and>
     r = (if detect_crlf content then to_crlf (pre @ normalize_lf new @ post)
          else pre @ normalize_lf new @ post)"
  using assms by (rule replace_one_place)

theorem edit_changes_one_place_witness:
  "\<exists>pre c post. normalize_lf ''ab'' = pre @ c @ post \<and> c \<noteq> [] \<and>
     count_matches (normalize_lf ''ab'') c = 1 \<and>
     ''ac'' = (if detect_crlf ''ab'' then to_crlf (pre @ normalize_lf ''c'' @ post)
          else pre @ normalize_lf ''c'' @ post)"
proof -
  have "replace (\<lambda>_ _. False) (\<lambda>_ _. None) ''ab'' ''b'' ''c'' False = Some (Inr ''ac'')"
    by code_simp
  from edit_changes_one_place [OF this] show ?thesis .
qed

text \<open>
  An \<open>oldString\<close> that occurs exactly once (up to line endings) is always replaced at that very
  occurrence: the fuzzy strategies never get a say.
\<close>

theorem edit_exact_match_wins:
  assumes "old \<noteq> []" "old \<noteq> new" "count_matches (normalize_lf content) (normalize_lf old) = 1"
  shows "replace similar ws_find content old new replace_all =
     Some (Inr (let t = str_replace_first (normalize_lf content) (normalize_lf old) (normalize_lf new)
                in if detect_crlf content then to_crlf t else t))"
proof -
  let ?c = "normalize_lf content" and ?o = "normalize_lf old"
  have ne: "?o \<noteq> []" using assms(3) by auto
  then have "exact_replacer ?c ?o = [?o]" "count_occurrences ?c ?o = 1"
    using assms(3) count_matches_pos_contains [of ?c ?o]
    by (auto simp: exact_replacer_def count_occurrences_def)
  then have "replace_loop ?c ?o (normalize_lf new) replace_all False (replacers similar ws_find) =
      (True, Some (str_replace_first ?c ?o (normalize_lf new)))"
    using str_replace_single [OF ne assms(3)] by (simp add: replacers_def)
  with assms(1,2) show ?thesis by (simp add: replace_def Let_def)
qed

theorem edit_exact_match_wins_witness:
  "replace (\<lambda>_ _. True) (\<lambda>_ _. None) ''x = 1;'' ''1'' ''2'' False = Some (Inr ''x = 2;'')"
proof -
  have "count_matches (normalize_lf ''x = 1;'') (normalize_lf ''1'') = 1" by code_simp
  from edit_exact_match_wins [OF _ _ this, of "''2''" "\<lambda>_ _. True" "\<lambda>_ _. None" False]
  show ?thesis
    by (simp add: str_replace_first_def normalize_lf_def detect_crlf_def truncated_def
        floor_char_boundary_def str_contains_def)
qed

text \<open>
  In a file with consistent CRLF line ends, detected as such, an edit keeps every byte before
  and after the replaced text, CRLF included, and gives the new text CRLF line ends.
\<close>

theorem edit_preserves_crlf:
  assumes "cr \<notin> set text" "detect_crlf (to_crlf text)" "cr \<notin> set (normalize_lf new)"
    and "replace similar ws_find (to_crlf text) old new False = Some (Inr r)"
  shows "\<exists>pre c post. to_crlf text = to_crlf pre @ to_crlf c @ to_crlf post \<and>
     r = to_crlf pre @ to_crlf (normalize_lf new) @ to_crlf post"
proof -
  from replace_one_place [OF assms(4)] obtain pre c post where
    e: "text = pre @ c @ post" "r = to_crlf (pre @ normalize_lf new @ post)"
    using assms(2) by (auto simp: normalize_to_crlf [OF assms(1)])
  with assms(1,3) show ?thesis by (intro exI [of _ pre] exI [of _ c] exI [of _ post]) (simp add: to_crlf_append)
qed

theorem edit_preserves_crlf_witness:
  "\<exists>pre c post. to_crlf [CHR ''a'', nl, CHR ''b''] = to_crlf pre @ to_crlf c @ to_crlf post \<and>
     [CHR ''a'', cr, nl, CHR ''c''] = to_crlf pre @ to_crlf (normalize_lf ''c'') @ to_crlf post"
proof (rule edit_preserves_crlf)
  show "replace (\<lambda>_ _. False) (\<lambda>_ _. None) (to_crlf [CHR ''a'', nl, CHR ''b'']) ''b'' ''c'' False =
      Some (Inr [CHR ''a'', cr, nl, CHR ''c''])" by code_simp
qed code_simp+

text \<open>
  On ASCII files the engine never panics: it always returns new contents or an error message.
\<close>

theorem edit_total_on_ascii:
  assumes "\<forall>c \<in> set content. byte_val c < 128"
  shows "replace similar ws_find content old new replace_all \<noteq> None"
proof -
  have "\<forall>c \<in> set (normalize_lf content). byte_val c < 128"
    using set_normalize_lf [of content] assms by (auto simp: byte_val_def)
  from locations_ascii [OF this] show ?thesis
    unfolding replace_def Let_def by (auto split: prod.splits option.splits bool.splits)
qed

theorem edit_total_on_ascii_witness:
  "replace (\<lambda>_ _. False) (\<lambda>_ _. None) ''a b a'' ''a'' ''c'' False \<noteq> None"
  by (rule edit_total_on_ascii) (simp add: byte_val_def)

text \<open>
  On other files it can panic: the preview of a match location is cut 60 bytes after the match
  without looking for a char boundary. Here \<open>oldString\<close> occurs twice and a three-byte character
  lies across the cut.
\<close>

theorem edit_location_preview_panics:
  "replace (\<lambda>_ _. False) (\<lambda>_ _. None)
     (''a'' @ replicate 58 (CHR ''x'') @ [CHR 0xE2, CHR 0x82, CHR 0xAC] @ ''a'') ''a'' ''b'' False = None"
  by code_simp

end
