(* ===== verification/RustPath.thy ===== *)
theory RustPath
  imports RustStr
begin

section \<open>Paths (\<open>std::path\<close>) and the path guard of \<open>util.rs\<close>\<close>

text \<open>
  A Unix path is a byte string; \<open>Path::components\<close> gives its normal form (repeated separators
  and inner \<open>.\<close> dropped, \<open>..\<close> kept), which \<open>starts_with\<close>, \<open>parent\<close> and \<open>pop\<close> work on.
  What the operating system answers about a path (\<open>exists\<close>, \<open>canonicalize\<close>) is an argument of
  the model.
\<close>

datatype component = RootDir | CurDir | ParentDir | Normal rstr

type_synonym path = "component list"

definition to_component :: "rstr \<Rightarrow> component" where
  "to_component seg = (if seg = ''..'' then ParentDir else Normal seg)"

definition is_absolute :: "rstr \<Rightarrow> bool" where
  "is_absolute s \<longleftrightarrow> starts_with s ''/''"

definition components :: "rstr \<Rightarrow> path" where
  "components s =
     (let segs = split_char (CHR ''/'') s
      in (if is_absolute s then [RootDir] else if hd segs = ''.'' then [CurDir] else [])
         @ map to_component (filter (\<lambda>seg. seg \<noteq> [] \<and> seg \<noteq> ''.'') segs))"

text \<open>\<open>Path::join\<close>\<close>

definition path_join :: "rstr \<Rightarrow> rstr \<Rightarrow> rstr" where
  "path_join base p =
     (if is_absolute p then p
      else base @ (if base \<noteq> [] \<and> last base \<noteq> CHR ''/'' then ''/'' else []) @ p)"

text \<open>\<open>Path::parent\<close> on components; \<open>pop\<close> is the same with failure for a root or empty path.\<close>

definition path_parent :: "path \<Rightarrow> path option" where
  "path_parent p = (if p = [] \<or> last p = RootDir then None else Some (butlast p))"

text \<open>\<open>Path::starts_with\<close> compares whole components.\<close>

definition path_starts_with :: "path \<Rightarrow> path \<Rightarrow> bool" where
  "path_starts_with p base = prefix base p"

text \<open>\<open>util::resolve_path\<close>\<close>

definition resolve_path :: "rstr \<Rightarrow> rstr \<Rightarrow> rstr" where
  "resolve_path working_dir file_path =
     (if is_absolute file_path then file_path else path_join working_dir file_path)"

text \<open>
  \<open>Path::strip_prefix\<close>: whole components are compared, the rest of the text is kept as it is
  but for empty and dot segments at its ends.
\<close>

definition trivial_segment :: "rstr \<Rightarrow> bool" where
  "trivial_segment seg \<longleftrightarrow> seg = [] \<or> seg = ''.''"

fun skip_segments :: "nat \<Rightarrow> rstr list \<Rightarrow> rstr list" where
  "skip_segments 0 segs = dropWhile trivial_segment segs"
| "skip_segments (Suc k) [] = []"
| "skip_segments (Suc k) (seg # segs) =
     (if trivial_segment seg then skip_segments (Suc k) segs else skip_segments k segs)"

definition path_strip_prefix :: "rstr \<Rightarrow> rstr \<Rightarrow> rstr option" where
  "path_strip_prefix path base =
     (if \<not> prefix (components base) (components path) then None
      else if components base = [] then Some path
      else Some (join ''/'' (rev (dropWhile trivial_segment
             (rev (skip_segments (length (filter (\<lambda>c. c \<noteq> RootDir \<and> c \<noteq> CurDir) (components base)))
                (split_char (CHR ''/'') path)))))))"

text \<open>
  \<open>Path::parent\<close> on the text: the last component goes, then what separates it from the rest; a leading
  slash or dot stays.
\<close>

definition parent_text :: "rstr \<Rightarrow> rstr option" where
  "parent_text p =
     (if components p = [] \<or> last (components p) = RootDir then None
      else
        let body = rev (dropWhile trivial_segment (tl (dropWhile trivial_segment (rev (split_char (CHR ''/'') p)))))
        in Some (if body \<noteq> [] then join ''/'' body
                 else if is_absolute p then ''/''
                 else if hd (components p) = CurDir \<and> 1 < length (components p) then ''.'' else []))"

text \<open>The parent is a shorter text, so walking up ends.\<close>

lemma join_append:
  "xs \<noteq> [] \<Longrightarrow> ys \<noteq> [] \<Longrightarrow> join sep (xs @ ys) = join sep xs @ sep @ join sep ys"
  by (induction xs) (auto simp: join_Cons)

lemma parent_text_shorter:
  assumes "parent_text p = Some q"
  shows "length q < length p"
proof -
  have ne: "components p \<noteq> []" "last (components p) \<noteq> RootDir" using assms by (auto simp: parent_text_def split: if_splits)
  define segs where "segs = split_char (CHR ''/'') p"
  define body where "body = rev (dropWhile trivial_segment (tl (dropWhile trivial_segment (rev segs))))"
  have p: "p = join ''/'' segs" using join_split_char_from [of "CHR ''/''" "[]" p] by (simp add: segs_def split_char_def)
  have q: "q = (if body \<noteq> [] then join ''/'' body else if is_absolute p then ''/''
      else if hd (components p) = CurDir \<and> 1 < length (components p) then ''.'' else [])"
    using assms by (auto simp: parent_text_def body_def segs_def Let_def split: if_splits)
  show ?thesis
  proof (cases "body = []")
    case False
    let ?r = "rev segs"
    have "suffix (rev body) (tl (dropWhile trivial_segment ?r))" by (simp add: body_def suffix_dropWhile)
    moreover have "dropWhile trivial_segment ?r \<noteq> []"
    proof
      assume "dropWhile trivial_segment ?r = []"
      then have "body = []" unfolding body_def by (simp only: list.sel(2) dropWhile.simps rev.simps)
      with False show False ..
    qed
    ultimately have "strict_suffix (rev body) (dropWhile trivial_segment ?r)"
      by (metis strict_suffix_def suffix_order.le_less_trans suffix_tl tl_Nil list.exhaust_sel not_Cons_self2)
    then have "strict_suffix (rev body) ?r" using suffix_dropWhile suffix_order.less_le_trans by blast
    then obtain zs where "?r = zs @ rev body" "zs \<noteq> []" unfolding strict_suffix_def suffix_def by force
    then have "segs = body @ rev zs" "rev zs \<noteq> []" by (metis rev_append rev_rev_ident, simp)
    with False p q show ?thesis by (simp add: join_append)
  next
    case True
    have "q = [] \<or> length q = 1" using q True by auto
    moreover have "p \<noteq> []" using ne by (auto simp: components_def split_char_def is_absolute_def starts_with_def to_component_def)
    moreover have "length p \<noteq> 1" if "q \<noteq> []"
    proof
      assume "length p = 1"
      then obtain ch where ch: "p = [ch]" by (auto simp: length_Suc_conv)
      show False
        using that q True ne ch
        by (auto simp: components_def split_char_def is_absolute_def starts_with_def to_component_def split: if_splits)
    qed
    ultimately show ?thesis by (cases "q = []"; cases p; cases "tl p") auto
  qed
qed

subsection \<open>The guard\<close>

record os_view =
  os_exists :: "path \<Rightarrow> bool"
  os_canonicalize :: "path \<Rightarrow> path option"

definition canonical_within :: "os_view \<Rightarrow> path \<Rightarrow> path \<Rightarrow> bool" where
  "canonical_within os canonical_wd p =
     (case os_canonicalize os p of Some c \<Rightarrow> path_starts_with c canonical_wd | None \<Rightarrow> False)"

function nearest_within :: "os_view \<Rightarrow> path \<Rightarrow> path \<Rightarrow> bool" where
  "nearest_within os canonical_wd ancestor =
     (if os_exists os ancestor then canonical_within os canonical_wd ancestor
      else case path_parent ancestor of
             None \<Rightarrow> False
           | Some a \<Rightarrow> nearest_within os canonical_wd a)"
  by pat_completeness auto
termination
  by (relation "measure (\<lambda>(os, wd, a). length a)") (auto simp: path_parent_def split: if_splits)

declare nearest_within.simps [simp del]

definition is_path_within_working_dir :: "os_view \<Rightarrow> path \<Rightarrow> path \<Rightarrow> bool" where
  "is_path_within_working_dir os working_dir resolved =
     (case os_canonicalize os working_dir of
        None \<Rightarrow> False
      | Some canonical_wd \<Rightarrow>
          if os_exists os resolved then canonical_within os canonical_wd resolved
          else nearest_within os canonical_wd resolved)"

lemma is_path_within_nearest:
  "is_path_within_working_dir os wd p =
     (case os_canonicalize os wd of None \<Rightarrow> False | Some c \<Rightarrow> nearest_within os c p)"
  by (auto simp: is_path_within_working_dir_def nearest_within.simps [of os _ p] split: option.splits)

subsection \<open>A directory tree without symbolic links\<close>

text \<open>
  The location a path names in a tree of directories and files, walked component by component
  from a current location: \<open>..\<close> leads to the parent of a directory that must exist.
  A location is the list of names from the root.
\<close>

type_synonym loc = "rstr list"

fun walk :: "(loc \<Rightarrow> bool) \<Rightarrow> loc \<Rightarrow> path \<Rightarrow> loc option" where
  "walk present cur [] = (if present cur then Some cur else None)"
| "walk present cur (RootDir # p) = walk present [] p"
| "walk present cur (CurDir # p) = (if present cur then walk present cur p else None)"
| "walk present cur (ParentDir # p) = (if present cur then walk present (butlast cur) p else None)"
| "walk present cur (Normal n # p) = (if present cur then walk present (cur @ [n]) p else None)"

definition loc_path :: "loc \<Rightarrow> path" where
  "loc_path l = RootDir # map Normal l"

definition tree_os :: "(loc \<Rightarrow> bool) \<Rightarrow> os_view" where
  "tree_os present =
     \<lparr>os_exists = (\<lambda>p. walk present [] p \<noteq> None),
      os_canonicalize = (\<lambda>p. map_option loc_path (walk present [] p))\<rparr>"

text \<open>
  Where a write to a path ends once \<open>create_dir_all\<close> has made every missing directory on the
  way: each component takes effect.
\<close>

fun land :: "loc \<Rightarrow> path \<Rightarrow> loc" where
  "land cur [] = cur"
| "land cur (RootDir # p) = land [] p"
| "land cur (CurDir # p) = land cur p"
| "land cur (ParentDir # p) = land (butlast cur) p"
| "land cur (Normal n # p) = land (cur @ [n]) p"

lemma walk_Some_land: "walk present cur p = Some l \<Longrightarrow> l = land cur p"
  by (induction present cur p rule: walk.induct) (auto split: if_splits)

lemma land_append: "land cur (p @ q) = land (land cur p) q"
  by (induction cur p rule: land.induct) auto

lemma land_loc_path: "land cur (loc_path l) = l"
proof -
  have "land cur (map Normal l) = cur @ l" for cur by (induction l arbitrary: cur) auto
  then show ?thesis by (simp add: loc_path_def)
qed

lemma path_starts_with_loc_path:
  "path_starts_with (loc_path l) (loc_path w) \<longleftrightarrow> prefix w l"
proof
  assume "path_starts_with (loc_path l) (loc_path w)"
  then obtain z where z: "map Normal l = map Normal w @ z"
    by (auto simp: path_starts_with_def loc_path_def prefix_def)
  then have "z = map Normal (drop (length w) l)"
    by (metis append_eq_conv_conj drop_map length_map)
  with z have "map Normal l = map Normal (w @ drop (length w) l)" by simp
  then have "l = w @ drop (length w) l"
    by (metis component.inject inj_map_eq_map inj_onI)
  then show "prefix w l" by (metis prefixI)
qed (auto simp: path_starts_with_def loc_path_def prefix_def)

lemma land_down: "ParentDir \<notin> set p \<Longrightarrow> RootDir \<notin> set p \<Longrightarrow> prefix cur (land cur p)"
  by (induction cur p rule: land.induct)
     (auto intro: prefix_order.order_trans [OF _ ] simp: prefix_def)

text \<open>
  The walk up the ancestors stops at an existing one; the components below it are only taken as
  they stand by \<open>land\<close>. Without \<open>..\<close> among them the write stays below that ancestor.
\<close>

lemma nearest_within_split:
  assumes "nearest_within (tree_os present) (loc_path w) p"
  shows "\<exists>q r l. p = q @ r \<and> walk present [] q = Some l \<and> prefix w l \<and>
                 (\<forall>c \<in> set r. c \<noteq> RootDir)"
  using assms
proof (induction p rule: rev_induct)
  case Nil
  then show ?case
    by (subst (asm) nearest_within.simps)
       (auto simp: tree_os_def canonical_within_def path_starts_with_loc_path path_parent_def
          split: if_splits)
next
  case (snoc c p)
  show ?case
  proof (cases "walk present [] (p @ [c])")
    case (Some l)
    with snoc.prems have "prefix w l"
      by (subst (asm) nearest_within.simps)
         (simp add: tree_os_def canonical_within_def path_starts_with_loc_path)
    with Some show ?thesis by (intro exI [of _ "p @ [c]"] exI [of _ "[]"] exI [of _ l]) simp
  next
    case None
    with snoc.prems have c: "c \<noteq> RootDir" "nearest_within (tree_os present) (loc_path w) p"
      by (subst (asm) nearest_within.simps, simp add: tree_os_def path_parent_def split: if_splits)+
    from snoc.IH [OF c(2)] obtain q r l where
      "p = q @ r" "walk present [] q = Some l" "prefix w l" "\<forall>c \<in> set r. c \<noteq> RootDir" by blast
    with c(1) show ?thesis
      by (intro exI [of _ q] exI [of _ "r @ [c]"] exI [of _ l]) auto
  qed
qed

lemma guard_keeps_inside:
  assumes "is_path_within_working_dir (tree_os present) wd p"
    and "walk present [] wd = Some w" and "ParentDir \<notin> set p"
  shows "prefix w (land [] p)"
proof -
  from assms(1,2) have "nearest_within (tree_os present) (loc_path w) p"
    by (simp add: is_path_within_nearest tree_os_def)
  from nearest_within_split [OF this] obtain q r l where
    p: "p = q @ r" "walk present [] q = Some l" "prefix w l" "\<forall>c \<in> set r. c \<noteq> RootDir" by blast
  then have "land [] p = land l r" using walk_Some_land [OF p(2)] by (simp add: land_append)
  moreover have "prefix l (land l r)" using p assms(3) by (intro land_down) auto
  ultimately show ?thesis using p(3) by (metis prefix_order.order_trans)
qed

end
