(* ===== verification/Disk.thy ===== *)
theory Disk
  imports RustPath
begin

section \<open>The file system the tools and the checkpoint layer use\<close>

text \<open>
  The regular files of the machine, each named by its location, and the operations of
  \<open>tokio::fs\<close> on them. Which location a path string names (relative spellings, symbolic links) is
  the operating system's answer, \<open>env_loc\<close>. Directories are not represented: \<open>env_dir\<close> says
  which locations are directories, and an operation that fails because of one (a missing parent, a
  file in the place of a directory, no permission, a full disk) fails by \<open>env_fault\<close>: the error
  the n-th operation of the run meets, if any. A write that fails may leave anything behind,
  \<open>env_residue\<close>.
\<close>

record io_env =
  env_loc :: "rstr \<Rightarrow> loc"
  env_dir :: "loc \<Rightarrow> bool"
  env_fault :: "nat \<Rightarrow> rstr option"
  env_residue :: "nat \<Rightarrow> byte_vec option"

record world =
  w_files :: "loc \<Rightarrow> byte_vec option"
  w_tick :: nat

datatype io_error = NotFound | OtherIo rstr

fun io_text :: "io_error \<Rightarrow> rstr" where
  "io_text NotFound = ''No such file or directory (os error 2)''"
| "io_text (OtherIo m) = m"

definition fault_now :: "io_env \<Rightarrow> 'z world_scheme \<Rightarrow> rstr option" where
  "fault_now env w = env_fault env (w_tick w)"

definition tick :: "'z world_scheme \<Rightarrow> 'z world_scheme" where
  "tick w = w\<lparr>w_tick := Suc (w_tick w)\<rparr>"

definition file_at :: "io_env \<Rightarrow> 'z world_scheme \<Rightarrow> rstr \<Rightarrow> byte_vec option" where
  "file_at env w p = w_files w (env_loc env p)"

definition set_file :: "io_env \<Rightarrow> rstr \<Rightarrow> byte_vec option \<Rightarrow> 'z world_scheme \<Rightarrow> 'z world_scheme" where
  "set_file env p v w = w\<lparr>w_files := (w_files w)(env_loc env p := v)\<rparr>"

subsection \<open>Operations\<close>

text \<open>\<open>tokio::fs::read\<close>\<close>

definition fs_read ::
  "io_env \<Rightarrow> rstr \<Rightarrow> 'z world_scheme \<Rightarrow> (io_error + byte_vec) \<times> 'z world_scheme" where
  "fs_read env p w =
     ((case fault_now env w of
         Some m \<Rightarrow> Inl (OtherIo m)
       | None \<Rightarrow> (case file_at env w p of None \<Rightarrow> Inl NotFound | Some b \<Rightarrow> Inr b)), tick w)"

text \<open>\<open>tokio::fs::read_to_string\<close> also refuses bytes that are not UTF-8.\<close>

definition fs_read_to_string ::
  "io_env \<Rightarrow> rstr \<Rightarrow> 'z world_scheme \<Rightarrow> (io_error + rstr) \<times> 'z world_scheme" where
  "fs_read_to_string env p w =
     (case fs_read env p w of
        (Inr b, w') \<Rightarrow>
          (if utf8_valid b then Inr b else Inl (OtherIo ''stream did not contain valid UTF-8''), w')
      | r \<Rightarrow> r)"

text \<open>\<open>tokio::fs::metadata(p)\<close>, of which the code reads \<open>is_file()\<close>.\<close>

definition fs_is_file ::
  "io_env \<Rightarrow> rstr \<Rightarrow> 'z world_scheme \<Rightarrow> (io_error + bool) \<times> 'z world_scheme" where
  "fs_is_file env p w =
     ((case fault_now env w of
         Some m \<Rightarrow> Inl (OtherIo m)
       | None \<Rightarrow> if file_at env w p \<noteq> None then Inr True
                 else if env_dir env (env_loc env p) then Inr False else Inl NotFound), tick w)"

text \<open>\<open>Path::exists\<close> and \<open>Path::is_file\<close>: false on any error.\<close>

definition path_exists :: "io_env \<Rightarrow> rstr \<Rightarrow> 'z world_scheme \<Rightarrow> bool" where
  "path_exists env p w \<longleftrightarrow> file_at env w p \<noteq> None \<or> env_dir env (env_loc env p)"

definition path_is_file :: "io_env \<Rightarrow> rstr \<Rightarrow> 'z world_scheme \<Rightarrow> bool" where
  "path_is_file env p w \<longleftrightarrow> file_at env w p \<noteq> None"

text \<open>\<open>tokio::fs::write\<close>\<close>

definition fs_write ::
  "io_env \<Rightarrow> rstr \<Rightarrow> byte_vec \<Rightarrow> 'z world_scheme \<Rightarrow> (io_error + unit) \<times> 'z world_scheme" where
  "fs_write env p b w =
     (case fault_now env w of
        Some m \<Rightarrow> (Inl (OtherIo m), tick (set_file env p (env_residue env (w_tick w)) w))
      | None \<Rightarrow> (Inr (), tick (set_file env p (Some b) w)))"

text \<open>Opening a file with \<open>create\<close> and \<open>append\<close> and writing to it.\<close>

definition fs_append ::
  "io_env \<Rightarrow> rstr \<Rightarrow> byte_vec \<Rightarrow> 'z world_scheme \<Rightarrow> (io_error + unit) \<times> 'z world_scheme" where
  "fs_append env p b w =
     (case fault_now env w of
        Some m \<Rightarrow> (Inl (OtherIo m), tick w)
      | None \<Rightarrow> (Inr (), tick (set_file env p
          (Some ((case file_at env w p of None \<Rightarrow> [] | Some old \<Rightarrow> old) @ b)) w)))"

text \<open>\<open>tokio::fs::remove_file\<close>\<close>

definition fs_remove ::
  "io_env \<Rightarrow> rstr \<Rightarrow> 'z world_scheme \<Rightarrow> (io_error + unit) \<times> 'z world_scheme" where
  "fs_remove env p w =
     (case fault_now env w of
        Some m \<Rightarrow> (Inl (OtherIo m), tick w)
      | None \<Rightarrow> if file_at env w p = None then (Inl NotFound, tick w)
                else (Inr (), tick (set_file env p None w)))"

text \<open>Any operation that touches no regular file: \<open>create_dir_all\<close>, \<open>read_dir\<close> and the like.\<close>

definition fs_other :: "io_env \<Rightarrow> 'z world_scheme \<Rightarrow> (io_error + unit) \<times> 'z world_scheme" where
  "fs_other env w =
     ((case fault_now env w of Some m \<Rightarrow> Inl (OtherIo m) | None \<Rightarrow> Inr ()), tick w)"

subsection \<open>What they change\<close>

lemmas fs_defs = fs_read_def fs_read_to_string_def fs_is_file_def fs_write_def fs_remove_def fs_other_def

lemma tick_simps [simp, disk_simps]: "w_files (tick w) = w_files w" "w_tick (tick w) = Suc (w_tick w)"
  by (simp_all add: tick_def)

lemma world_more_tick [simp, disk_simps]: "world.more (tick w) = world.more w"
  by (simp add: tick_def)

lemma set_file_simps [simp, disk_simps]:
  "w_files (set_file env p v w) = (w_files w)(env_loc env p := v)"
  "w_tick (set_file env p v w) = w_tick w" "world.more (set_file env p v w) = world.more w"
  by (simp_all add: set_file_def)

lemma fs_read_files [disk_simps]: "fs_read env p w = (r, w') \<Longrightarrow> w_files w' = w_files w"
  by (auto simp: fs_read_def)

lemma fs_read_to_string_files [disk_simps]:
  "fs_read_to_string env p w = (r, w') \<Longrightarrow> w_files w' = w_files w"
  by (auto simp: fs_read_to_string_def fs_read_def split: prod.splits sum.splits)

lemma fs_read_to_string_OkD:
  "fs_read_to_string env p w = (Inr s, w') \<Longrightarrow> w_files w (env_loc env p) = Some s \<and> utf8_valid s"
  by (auto simp: fs_read_to_string_def fs_read_def file_at_def split: option.splits sum.splits if_splits)

lemma fs_is_file_files [disk_simps]: "fs_is_file env p w = (r, w') \<Longrightarrow> w_files w' = w_files w"
  by (auto simp: fs_is_file_def)

lemma fs_other_files [disk_simps]: "fs_other env w = (r, w') \<Longrightarrow> w_files w' = w_files w"
  by (auto simp: fs_other_def)

lemma fs_write_only [disk_simps]:
  "fs_write env p b w = (r, w') \<Longrightarrow> l \<noteq> env_loc env p \<Longrightarrow> w_files w' l = w_files w l"
  by (auto simp: fs_write_def split: option.splits)

lemma fs_remove_only [disk_simps]:
  "fs_remove env p w = (r, w') \<Longrightarrow> l \<noteq> env_loc env p \<Longrightarrow> w_files w' l = w_files w l"
  by (auto simp: fs_remove_def split: option.splits if_splits)

end
