(* ===== verification/Checkpoint.thy ===== *)
theory Checkpoint
  imports Disk
begin

section \<open>File checkpoints (\<open>crates/git-ops/src/checkpoint.rs\<close>)\<close>

text \<open>
  Before a tool changes a file it calls \<open>backup_file\<close>, which keeps the file's prior bytes in a
  directory of the application, one per session and turn; \<open>restore_to\<close> applies the kept
  bytes backwards. The checkpoint directory lies outside the project, so the model keeps it apart
  from the project's files: \<open>c_store\<close> maps the directory name of a session to the listing of its
  turn directories, in the order \<open>read_dir\<close> gives them. A turn directory holds a manifest (a
  parsed one, or the reason it does not parse) and its blobs; the temporary file that makes the
  manifest write atomic is not represented.
\<close>

record backup_entry =
  be_path :: rstr
  be_existed_before :: bool
  be_blob :: "rstr option"

record turn_manifest =
  tm_version :: nat
  tm_session_id :: rstr
  tm_turn :: u32
  tm_entries :: "backup_entry list"

record turn_info =
  ti_turn :: u32
  ti_file_count :: nat
  ti_paths :: "rstr list"

record turn_files =
  tf_manifest :: "(rstr + turn_manifest) option"
  tf_blobs :: "rstr \<Rightarrow> byte_vec option"

record cworld = world +
  c_store :: "rstr \<Rightarrow> (rstr \<times> turn_files) list option"

datatype git_ops_error =
    NonAbsolutePath rstr
  | CheckpointNotFound rstr u32
  | CorruptManifest rstr rstr
  | GitIo io_error

record diff_output =
  do_diff :: rstr
  do_files_changed :: u32
  do_insertions :: u32
  do_deletions :: u32
  do_stat :: rstr

definition manifest_version :: nat where
  "manifest_version = 1"

subsection \<open>Names\<close>

definition safe_byte :: "char \<Rightarrow> bool" where
  "safe_byte c \<longleftrightarrow> is_ascii_alphanumeric c \<or> c \<in> {CHR ''.'', CHR ''_'', CHR ''-''}"

definition sanitize_session_id :: "rstr \<Rightarrow> rstr" where
  "sanitize_session_id session_id =
     concat (map (\<lambda>b. if safe_byte b then [b] else CHR 0x25 # hex_byte b) session_id)"

definition turn_name :: "u32 \<Rightarrow> rstr" where
  "turn_name turn = ''turn-'' @ pad_zeros 4 (nat_str (unat turn))"

definition parse_turn_from_dirname :: "rstr \<Rightarrow> u32 option" where
  "parse_turn_from_dirname name =
     map_option word_of_nat (Option.bind (strip_prefix name ''turn-'') (parse_unsigned 32))"

definition manifest_path :: "rstr \<Rightarrow> rstr \<Rightarrow> rstr" where
  "manifest_path seg tname = seg @ ''/'' @ tname @ ''/manifest.json''"

subsection \<open>The checkpoint directory\<close>

definition turn_at :: "rstr \<Rightarrow> rstr \<Rightarrow> 'z cworld_scheme \<Rightarrow> turn_files option" where
  "turn_at seg tname w = Option.bind (c_store w seg) (\<lambda>ls. map_of ls tname)"

definition empty_turn :: turn_files where
  "empty_turn = \<lparr>tf_manifest = None, tf_blobs = (\<lambda>_. None)\<rparr>"

definition change_turn ::
  "rstr \<Rightarrow> rstr \<Rightarrow> (turn_files \<Rightarrow> turn_files) \<Rightarrow> 'z cworld_scheme \<Rightarrow> 'z cworld_scheme" where
  "change_turn seg tname f w =
     w\<lparr>c_store := (c_store w)(seg \<mapsto> upsert tname empty_turn f
         (case c_store w seg of None \<Rightarrow> [] | Some ls \<Rightarrow> ls))\<rparr>"

definition read_manifest ::
  "io_env \<Rightarrow> rstr \<Rightarrow> rstr \<Rightarrow> 'z cworld_scheme \<Rightarrow>
   (git_ops_error + turn_manifest option) \<times> 'z cworld_scheme" where
  "read_manifest env seg tname w =
     (case fs_other env w of
        (Inl e, w1) \<Rightarrow> (Inl (GitIo e), w1)
      | (Inr _, w1) \<Rightarrow>
          (case Option.bind (turn_at seg tname w) tf_manifest of
             None \<Rightarrow> (Inr None, w1)
           | Some (Inl reason) \<Rightarrow> (Inl (CorruptManifest (manifest_path seg tname) reason), w1)
           | Some (Inr m) \<Rightarrow> (Inr (Some m), w1)))"

text \<open>The three operations of the atomic write: make the directory, write the copy, rename it.\<close>

definition write_manifest_atomic ::
  "io_env \<Rightarrow> rstr \<Rightarrow> rstr \<Rightarrow> turn_manifest \<Rightarrow> 'z cworld_scheme \<Rightarrow>
   (git_ops_error + unit) \<times> 'z cworld_scheme" where
  "write_manifest_atomic env seg tname m w =
     (case fs_other env w of
        (Inl e, w1) \<Rightarrow> (Inl (GitIo e), w1)
      | (Inr _, w1) \<Rightarrow>
          (case fs_other env (change_turn seg tname id w1) of
             (Inl e, w2) \<Rightarrow> (Inl (GitIo e), w2)
           | (Inr _, w2) \<Rightarrow>
               (case fs_other env w2 of
                  (Inl e, w3) \<Rightarrow> (Inl (GitIo e), w3)
                | (Inr _, w3) \<Rightarrow>
                    (Inr (), change_turn seg tname (\<lambda>t. t\<lparr>tf_manifest := Some (Inr m)\<rparr>) w3))))"

definition write_blob ::
  "io_env \<Rightarrow> rstr \<Rightarrow> rstr \<Rightarrow> rstr \<Rightarrow> byte_vec \<Rightarrow> 'z cworld_scheme \<Rightarrow>
   (git_ops_error + unit) \<times> 'z cworld_scheme" where
  "write_blob env seg tname name bytes w =
     (case fs_other env w of
        (Inl e, w1) \<Rightarrow> (Inl (GitIo e), w1)
      | (Inr _, w1) \<Rightarrow>
          let put = (\<lambda>v. change_turn seg tname (\<lambda>t. t\<lparr>tf_blobs := (tf_blobs t)(name := v)\<rparr>))
          in (case fs_other env w1 of
                (Inl e, w2) \<Rightarrow> (Inl (GitIo e), put (env_residue env (w_tick w1)) w2)
              | (Inr _, w2) \<Rightarrow> (Inr (), put (Some bytes) w2)))"

definition read_blob ::
  "io_env \<Rightarrow> rstr \<Rightarrow> rstr \<Rightarrow> rstr \<Rightarrow> 'z cworld_scheme \<Rightarrow>
   (git_ops_error + byte_vec) \<times> 'z cworld_scheme" where
  "read_blob env seg tname name w =
     (case fs_other env w of
        (Inl e, w1) \<Rightarrow> (Inl (GitIo e), w1)
      | (Inr _, w1) \<Rightarrow>
          (case Option.bind (turn_at seg tname w) (\<lambda>t. tf_blobs t name) of
             None \<Rightarrow> (Inl (GitIo NotFound), w1)
           | Some b \<Rightarrow> (Inr b, w1)))"

subsection \<open>Backing up\<close>

definition blob_name :: "nat \<Rightarrow> rstr" where
  "blob_name n = pad_zeros 4 (nat_str n) @ ''.blob''"

definition add_entry :: "rstr \<Rightarrow> bool \<Rightarrow> rstr option \<Rightarrow> turn_manifest \<Rightarrow> turn_manifest" where
  "add_entry path existed blob m =
     m\<lparr>tm_entries := tm_entries m @ [\<lparr>be_path = path, be_existed_before = existed, be_blob = blob\<rparr>]\<rparr>"

definition has_entry :: "rstr \<Rightarrow> backup_entry list \<Rightarrow> bool" where
  "has_entry path entries \<longleftrightarrow> list_ex (\<lambda>e. be_path e = path) entries"

definition backup_file ::
  "io_env \<Rightarrow> rstr \<Rightarrow> u32 \<Rightarrow> rstr \<Rightarrow> 'z cworld_scheme \<Rightarrow>
   (git_ops_error + unit) \<times> 'z cworld_scheme" where
  "backup_file env session_id turn file_path w =
     (if \<not> is_absolute file_path then (Inl (NonAbsolutePath file_path), w)
      else
        let seg = sanitize_session_id session_id; tname = turn_name turn
        in case read_manifest env seg tname w of
             (Inl e, w1) \<Rightarrow> (Inl e, w1)
           | (Inr found, w1) \<Rightarrow>
               let m = (case found of
                          Some m \<Rightarrow> m
                        | None \<Rightarrow> \<lparr>tm_version = manifest_version, tm_session_id = session_id,
                                   tm_turn = turn, tm_entries = []\<rparr>)
               in if has_entry file_path (tm_entries m) then (Inr (), w1)
                  else case fs_is_file env file_path w1 of
                    (Inr True, w2) \<Rightarrow>
                      (case fs_read env file_path w2 of
                         (Inl e, w3) \<Rightarrow> (Inl (GitIo e), w3)
                       | (Inr bytes, w3) \<Rightarrow>
                           let name = blob_name (length (tm_entries m))
                           in (case write_blob env seg tname name bytes w3 of
                                 (Inl e, w4) \<Rightarrow> (Inl e, w4)
                               | (Inr _, w4) \<Rightarrow> write_manifest_atomic env seg tname
                                   (add_entry file_path True (Some name) m) w4))
                  | (Inl (OtherIo e), w2) \<Rightarrow> (Inl (GitIo (OtherIo e)), w2)
                  | (_, w2) \<Rightarrow> write_manifest_atomic env seg tname (add_entry file_path False None m) w2)"

subsection \<open>Listing, restoring, deleting\<close>

fun next_entries ::
  "io_env \<Rightarrow> (rstr \<times> turn_files) list \<Rightarrow> 'z cworld_scheme \<Rightarrow>
   (git_ops_error + u32 list) \<times> 'z cworld_scheme" where
  "next_entries env [] w =
     (case fs_other env w of (Inl e, w1) \<Rightarrow> (Inl (GitIo e), w1) | (Inr _, w1) \<Rightarrow> (Inr [], w1))"
| "next_entries env ((name, t) # rest) w =
     (case fs_other env w of
        (Inl e, w1) \<Rightarrow> (Inl (GitIo e), w1)
      | (Inr _, w1) \<Rightarrow>
          (case next_entries env rest w1 of
             (Inl e, w2) \<Rightarrow> (Inl e, w2)
           | (Inr ts, w2) \<Rightarrow>
               (Inr (case parse_turn_from_dirname name of None \<Rightarrow> ts | Some n \<Rightarrow> n # ts), w2)))"

definition list_turn_numbers ::
  "io_env \<Rightarrow> rstr \<Rightarrow> 'z cworld_scheme \<Rightarrow> (git_ops_error + u32 list) \<times> 'z cworld_scheme" where
  "list_turn_numbers env seg w =
     (case fs_other env w of
        (Inl e, w1) \<Rightarrow> (Inl (GitIo e), w1)
      | (Inr _, w1) \<Rightarrow>
          (case c_store w seg of
             None \<Rightarrow> (Inl (GitIo NotFound), w1)
           | Some ls \<Rightarrow> next_entries env ls w1))"

fun normalize_onto :: "path \<Rightarrow> path \<Rightarrow> path option" where
  "normalize_onto acc [] = Some acc"
| "normalize_onto acc (ParentDir # cs) =
     (case path_parent acc of None \<Rightarrow> None | Some acc' \<Rightarrow> normalize_onto acc' cs)"
| "normalize_onto acc (CurDir # cs) = normalize_onto acc cs"
| "normalize_onto acc (RootDir # cs) = normalize_onto [RootDir] cs"
| "normalize_onto acc (Normal n # cs) = normalize_onto (acc @ [Normal n]) cs"

definition is_within_root :: "path \<Rightarrow> path \<Rightarrow> bool" where
  "is_within_root root candidate =
     (case normalize_onto [] candidate of
        None \<Rightarrow> False | Some normalized \<Rightarrow> path_starts_with normalized root)"

definition restore_entry ::
  "io_env \<Rightarrow> path \<Rightarrow> rstr \<Rightarrow> rstr \<Rightarrow> backup_entry \<Rightarrow> 'z cworld_scheme \<Rightarrow>
   (git_ops_error + nat) \<times> 'z cworld_scheme" where
  "restore_entry env project_root seg tname entry w =
     (if \<not> is_within_root project_root (components (be_path entry)) then (Inr 0, w)
      else if \<not> be_existed_before entry then
        (case fs_remove env (be_path entry) w of
           (Inl (OtherIo e), w1) \<Rightarrow> (Inl (GitIo (OtherIo e)), w1)
         | (_, w1) \<Rightarrow> (Inr 1, w1))
      else
        (case be_blob entry of
           None \<Rightarrow> (Inl (CorruptManifest (manifest_path seg tname)
                     (''entry '' @ be_path entry @ '' has existed_before=true but no blob'')), w)
         | Some name \<Rightarrow>
             (case read_blob env seg tname name w of
                (Inl e, w1) \<Rightarrow> (Inl e, w1)
              | (Inr bytes, w1) \<Rightarrow>
                  (case fs_other env w1 of
                     (Inl e, w2) \<Rightarrow> (Inl (GitIo e), w2)
                   | (Inr _, w2) \<Rightarrow>
                       (case fs_write env (be_path entry) bytes w2 of
                          (Inl e, w3) \<Rightarrow> (Inl (GitIo e), w3)
                        | (Inr _, w3) \<Rightarrow> (Inr 1, w3))))))"

fun restore_entries ::
  "io_env \<Rightarrow> path \<Rightarrow> rstr \<Rightarrow> rstr \<Rightarrow> backup_entry list \<Rightarrow> nat \<Rightarrow> 'z cworld_scheme \<Rightarrow>
   (git_ops_error + nat) \<times> 'z cworld_scheme" where
  "restore_entries env root seg tname [] changed w = (Inr changed, w)"
| "restore_entries env root seg tname (e # es) changed w =
     (case restore_entry env root seg tname e w of
        (Inl err, w1) \<Rightarrow> (Inl err, w1)
      | (Inr n, w1) \<Rightarrow> restore_entries env root seg tname es (changed + n) w1)"

fun restore_turns ::
  "io_env \<Rightarrow> path \<Rightarrow> rstr \<Rightarrow> u32 list \<Rightarrow> nat \<Rightarrow> 'z cworld_scheme \<Rightarrow>
   (git_ops_error + nat) \<times> 'z cworld_scheme" where
  "restore_turns env root seg [] changed w = (Inr changed, w)"
| "restore_turns env root seg (t # ts) changed w =
     (case read_manifest env seg (turn_name t) w of
        (Inl err, w1) \<Rightarrow> (Inl err, w1)
      | (Inr None, w1) \<Rightarrow> restore_turns env root seg ts changed w1
      | (Inr (Some m), w1) \<Rightarrow>
          (case restore_entries env root seg (turn_name t) (tm_entries m) changed w1 of
             (Inl err, w2) \<Rightarrow> (Inl err, w2)
           | (Inr changed', w2) \<Rightarrow> restore_turns env root seg ts changed' w2))"

text \<open>\<open>metadata(&root)\<close> fails when the session has no directory.\<close>

definition restore_to ::
  "io_env \<Rightarrow> rstr \<Rightarrow> u32 \<Rightarrow> path \<Rightarrow> 'z cworld_scheme \<Rightarrow>
   (git_ops_error + nat) \<times> 'z cworld_scheme" where
  "restore_to env session_id target_turn project_root w =
     (let seg = sanitize_session_id session_id
      in case fs_other env w of
           (Inl _, w1) \<Rightarrow> (Inr 0, w1)
         | (Inr _, w1) \<Rightarrow>
             if c_store w seg = None then (Inr 0, w1)
             else case list_turn_numbers env seg w1 of
                    (Inl e, w2) \<Rightarrow> (Inl e, w2)
                  | (Inr turns, w2) \<Rightarrow>
                      restore_turns env project_root seg
                        (rev (sort (filter (\<lambda>t. target_turn < t) turns))) 0 w2)"

fun list_infos ::
  "io_env \<Rightarrow> rstr \<Rightarrow> u32 list \<Rightarrow> 'z cworld_scheme \<Rightarrow>
   (git_ops_error + turn_info list) \<times> 'z cworld_scheme" where
  "list_infos env seg [] w = (Inr [], w)"
| "list_infos env seg (t # ts) w =
     (case read_manifest env seg (turn_name t) w of
        (Inl e, w1) \<Rightarrow> (Inl e, w1)
      | (Inr found, w1) \<Rightarrow>
          (case list_infos env seg ts w1 of
             (Inl e, w2) \<Rightarrow> (Inl e, w2)
           | (Inr out, w2) \<Rightarrow>
               (Inr (case found of
                       None \<Rightarrow> out
                     | Some m \<Rightarrow> \<lparr>ti_turn = t, ti_file_count = length (tm_entries m),
                                  ti_paths = map be_path (tm_entries m)\<rparr> # out), w2)))"

definition list_checkpoints ::
  "io_env \<Rightarrow> rstr \<Rightarrow> 'z cworld_scheme \<Rightarrow> (git_ops_error + turn_info list) \<times> 'z cworld_scheme" where
  "list_checkpoints env session_id w =
     (let seg = sanitize_session_id session_id
      in case fs_other env w of
           (Inl _, w1) \<Rightarrow> (Inr [], w1)
         | (Inr _, w1) \<Rightarrow>
             if c_store w seg = None then (Inr [], w1)
             else case list_turn_numbers env seg w1 of
                    (Inl e, w2) \<Rightarrow> (Inl e, w2)
                  | (Inr turns, w2) \<Rightarrow> list_infos env seg (sort turns) w2)"

text \<open>\<open>remove_dir_all\<close>: the directory of that name must exist.\<close>

definition remove_turn ::
  "io_env \<Rightarrow> rstr \<Rightarrow> rstr \<Rightarrow> 'z cworld_scheme \<Rightarrow> (git_ops_error + unit) \<times> 'z cworld_scheme" where
  "remove_turn env seg tname w =
     (case fs_other env w of
        (Inl e, w1) \<Rightarrow> (Inl (GitIo e), w1)
      | (Inr _, w1) \<Rightarrow>
          if turn_at seg tname w = None then (Inl (GitIo NotFound), w1)
          else (Inr (), w1\<lparr>c_store := (c_store w1)(seg :=
                  map_option (filter (\<lambda>kv. fst kv \<noteq> tname)) (c_store w1 seg))\<rparr>))"

fun remove_turns ::
  "io_env \<Rightarrow> rstr \<Rightarrow> u32 \<Rightarrow> u32 list \<Rightarrow> u32 \<Rightarrow> 'z cworld_scheme \<Rightarrow>
   (git_ops_error + u32) \<times> 'z cworld_scheme" where
  "remove_turns env seg from_turn [] deleted w = (Inr deleted, w)"
| "remove_turns env seg from_turn (t # ts) deleted w =
     (if from_turn \<le> t then
        (case remove_turn env seg (turn_name t) w of
           (Inl e, w1) \<Rightarrow> (Inl e, w1)
         | (Inr _, w1) \<Rightarrow> remove_turns env seg from_turn ts (deleted + 1) w1)
      else remove_turns env seg from_turn ts deleted w)"

definition delete_from ::
  "io_env \<Rightarrow> rstr \<Rightarrow> u32 \<Rightarrow> 'z cworld_scheme \<Rightarrow> (git_ops_error + u32) \<times> 'z cworld_scheme" where
  "delete_from env session_id from_turn w =
     (let seg = sanitize_session_id session_id
      in case fs_other env w of
           (Inl _, w1) \<Rightarrow> (Inr 0, w1)
         | (Inr _, w1) \<Rightarrow>
             if c_store w seg = None then (Inr 0, w1)
             else case list_turn_numbers env seg w1 of
                    (Inl e, w2) \<Rightarrow> (Inl e, w2)
                  | (Inr turns, w2) \<Rightarrow> remove_turns env seg from_turn turns 0 w2)"

subsection \<open>The diff of a turn\<close>

fun common_prefix :: "'a list \<Rightarrow> 'a list \<Rightarrow> nat" where
  "common_prefix (x # xs) (y # ys) = (if x = y then Suc (common_prefix xs ys) else 0)"
| "common_prefix _ _ = 0"

text \<open>The lines removed and the lines added, once common lines at both ends are trimmed.\<close>

definition changed_lines :: "rstr list \<Rightarrow> rstr list \<Rightarrow> rstr list \<times> rstr list" where
  "changed_lines p_lines c_lines =
     (let pre = common_prefix p_lines c_lines;
          suf = common_prefix (rev (drop pre p_lines)) (rev (drop pre c_lines))
      in (take (length p_lines - suf - pre) (drop pre p_lines),
          take (length c_lines - suf - pre) (drop pre c_lines)))"

definition marked_lines :: "char \<Rightarrow> rstr list \<Rightarrow> rstr" where
  "marked_lines c ls = concat (map (\<lambda>l. c # l @ [nl]) ls)"

text \<open>\<open>unified_file_diff\<close>: the text appended, and what the two counters grow by.\<close>

definition unified_file_diff :: "rstr \<Rightarrow> byte_vec \<Rightarrow> byte_vec \<Rightarrow> rstr \<times> u32 \<times> u32" where
  "unified_file_diff path prior current =
     (if utf8_valid prior \<and> utf8_valid current then
        let (dels, inss) = changed_lines (str_lines prior) (str_lines current)
        in (''--- a/'' @ path @ [nl] @ ''+++ b/'' @ path @ [nl] @
              marked_lines (CHR ''-'') dels @ marked_lines (CHR ''+'') inss,
            word_of_nat (length inss), word_of_nat (length dels))
      else (''Binary files a/'' @ path @ '' and b/'' @ path @ '' differ'' @ [nl], 1, 0))"

text \<open>The loop of \<open>diff_turn\<close> over the entries, with the three counters and the text so far.\<close>

fun diff_entries ::
  "io_env \<Rightarrow> rstr \<Rightarrow> rstr \<Rightarrow> backup_entry list \<Rightarrow> rstr \<times> u32 \<times> u32 \<times> u32 \<Rightarrow> 'z cworld_scheme \<Rightarrow>
   (git_ops_error + rstr \<times> u32 \<times> u32 \<times> u32) \<times> 'z cworld_scheme" where
  "diff_entries env seg tname [] acc w = (Inr acc, w)"
| "diff_entries env seg tname (e # es) (diff, files, inss, dels) w =
     (case (case be_blob e of Some name \<Rightarrow> read_blob env seg tname name w | None \<Rightarrow> (Inr [], w)) of
        (Inl err, w1) \<Rightarrow> (Inl err, w1)
      | (Inr prior, w1) \<Rightarrow>
          (case fs_read env (be_path e) w1 of
             (Inl (OtherIo m), w2) \<Rightarrow> (Inl (GitIo (OtherIo m)), w2)
           | (r, w2) \<Rightarrow>
               let current = (case r of Inr b \<Rightarrow> b | Inl _ \<Rightarrow> [])
               in if prior = current then diff_entries env seg tname es (diff, files, inss, dels) w2
                  else let (txt, i, d) = unified_file_diff (be_path e) prior current
                       in diff_entries env seg tname es (diff @ txt, files + 1, inss + i, dels + d) w2))"

definition diff_turn ::
  "io_env \<Rightarrow> rstr \<Rightarrow> u32 \<Rightarrow> 'z cworld_scheme \<Rightarrow> (git_ops_error + diff_output) \<times> 'z cworld_scheme" where
  "diff_turn env session_id turn w =
     (let seg = sanitize_session_id session_id; tname = turn_name turn
      in case read_manifest env seg tname w of
           (Inl e, w1) \<Rightarrow> (Inl e, w1)
         | (Inr None, w1) \<Rightarrow> (Inl (CheckpointNotFound session_id turn), w1)
         | (Inr (Some m), w1) \<Rightarrow>
             (case diff_entries env seg tname (tm_entries m) ([], 0, 0, 0) w1 of
                (Inl e, w2) \<Rightarrow> (Inl e, w2)
              | (Inr (diff, files, inss, dels), w2) \<Rightarrow>
                  (Inr \<lparr>do_diff = diff, do_files_changed = files, do_insertions = inss, do_deletions = dels,
                     do_stat = nat_str (unat files) @ '' files changed, '' @ nat_str (unat inss) @
                       '' insertions(+), '' @ nat_str (unat dels) @ '' deletions(-)''\<rparr>, w2)))"

lemma common_prefix_take:
  "take (common_prefix xs ys) xs = take (common_prefix xs ys) ys \<and>
   common_prefix xs ys \<le> length xs \<and> common_prefix xs ys \<le> length ys"
  by (induction xs ys rule: common_prefix.induct) auto

lemma common_prefix_maximal:
  "xs = take (common_prefix xs ys) xs @ x # xs' \<Longrightarrow> ys = take (common_prefix xs ys) ys @ y # ys' \<Longrightarrow> x \<noteq> y"
  by (induction xs ys rule: common_prefix.induct) (auto split: if_splits)

lemma rev_snoc_append: "P = D @ B \<Longrightarrow> D = xs @ [x] \<Longrightarrow> rev P = rev B @ x # rev xs"
  by simp

lemma changed_lines_split:
  assumes "changed_lines p c = (dels, inss)"
  shows "\<exists>a b. p = a @ dels @ b \<and> c = a @ inss @ b \<and>
    (dels \<noteq> [] \<and> inss \<noteq> [] \<longrightarrow> hd dels \<noteq> hd inss \<and> last dels \<noteq> last inss)"
proof -
  let ?pre = "common_prefix p c"
  let ?p = "drop ?pre p" and ?c = "drop ?pre c"
  let ?suf = "common_prefix (rev ?p) (rev ?c)"
  note pre = common_prefix_take [of p c] and suf = common_prefix_take [of "rev ?p" "rev ?c"]
  have d: "dels = take (length ?p - ?suf) ?p" "inss = take (length ?c - ?suf) ?c"
    using assms by (auto simp: changed_lines_def Let_def add.commute)
  let ?b = "drop (length ?p - ?suf) ?p"
  have "rev ?b = take ?suf (rev ?p)" using suf by (simp add: take_rev)
  also have "\<dots> = rev (drop (length ?c - ?suf) ?c)" using suf by (simp add: take_rev)
  finally have b: "drop (length ?c - ?suf) ?c = ?b" by (metis rev_rev_ident)
  have p: "p = take ?pre p @ dels @ ?b" using d by (metis append_take_drop_id)
  have c: "c = take ?pre p @ inss @ ?b" using d b pre by (metis append_take_drop_id)
  have "hd dels \<noteq> hd inss \<and> last dels \<noteq> last inss" if ne: "dels \<noteq> []" "inss \<noteq> []"
  proof
    obtain x xs y ys where s: "dels = x # xs" "inss = y # ys" using ne by (cases dels; cases inss) auto
    have "p = take ?pre p @ x # (xs @ ?b)" "c = take ?pre c @ y # (ys @ ?b)"
      using p c s pre by auto
    from common_prefix_maximal [OF this] s show "hd dels \<noteq> hd inss" by simp
    obtain xs' x' ys' y' where s': "dels = xs' @ [x']" "inss = ys' @ [y']"
      using ne by (cases dels rule: rev_cases; cases inss rule: rev_cases) auto
    have "?p = dels @ ?b" "?c = inss @ ?b" using d b by (metis append_take_drop_id)+
    then have "rev ?p = rev ?b @ x' # rev xs'" "rev ?c = rev ?b @ y' # rev ys'"
      using s' by (blast intro: rev_snoc_append)+
    moreover have "rev ?b = take ?suf (rev ?p)" "rev ?b = take ?suf (rev ?c)"
      using suf by (simp_all add: take_rev)
    ultimately have "rev ?p = take ?suf (rev ?p) @ x' # rev xs'" "rev ?c = take ?suf (rev ?c) @ y' # rev ys'"
      by metis+
    from common_prefix_maximal [OF this] s' show "last dels \<noteq> last inss" by simp
  qed
  with p c show ?thesis by blast
qed
subsection \<open>Names are unambiguous\<close>

lemma safe_not_percent: "\<not> safe_byte (CHR 0x25)"
  by (simp add: safe_byte_def is_ascii_alphanumeric_def is_digit_def byte_val_def)

lemma sanitize_Cons:
  "sanitize_session_id (b # s) =
     (if safe_byte b then [b] else CHR 0x25 # hex_byte b) @ sanitize_session_id s"
  by (simp add: sanitize_session_id_def)

lemma sanitize_Nil_iff: "sanitize_session_id s = [] \<longleftrightarrow> s = []"
  by (cases s) (simp_all add: sanitize_session_id_def)

lemma sanitize_inj: "sanitize_session_id s = sanitize_session_id s' \<Longrightarrow> s = s'"
proof (induction s arbitrary: s')
  case Nil
  then show ?case by (metis sanitize_Nil_iff)
next
  case (Cons b s)
  then obtain b' t where s': "s' = b' # t"
    by (metis list.exhaust list.simps(3) sanitize_Nil_iff)
  have eq: "(if safe_byte b then [b] else CHR 0x25 # hex_byte b) @ sanitize_session_id s =
      (if safe_byte b' then [b'] else CHR 0x25 # hex_byte b') @ sanitize_session_id t"
    using Cons.prems s' by (simp add: sanitize_Cons)
  have "b = b' \<and> sanitize_session_id s = sanitize_session_id t"
  proof (cases "safe_byte b"; cases "safe_byte b'")
    assume "\<not> safe_byte b" "\<not> safe_byte b'"
    with eq have "hex_byte b @ sanitize_session_id s = hex_byte b' @ sanitize_session_id t" by simp
    then have "hex_byte b = hex_byte b' \<and> sanitize_session_id s = sanitize_session_id t"
      by (subst (asm) append_eq_append_conv) auto
    then show ?thesis using hex_byte_inj by auto
  qed (use eq safe_not_percent in auto)
  with Cons.IH s' show ?case by simp
qed

lemma parse_turn_name: "parse_turn_from_dirname (turn_name t) = Some t"
proof -
  have "unat t < 2 ^ 32" using unsigned_less [of t] by simp
  from parse_unsigned_padded [OF this] show ?thesis
    by (simp add: parse_turn_from_dirname_def turn_name_def strip_prefix_def)
qed

lemma turn_name_inj: "turn_name t = turn_name u \<longleftrightarrow> t = u"
  by (metis option.inject parse_turn_name)

lemma blob_name_inj: "blob_name m = blob_name n \<longleftrightarrow> m = n"
proof
  assume "blob_name m = blob_name n"
  then have "digits_value 0 (pad_zeros 4 (nat_str m)) = digits_value 0 (pad_zeros 4 (nat_str n))"
    by (simp add: blob_name_def)
  then show "m = n" by (simp add: pad_zeros_def digits_value_zeros digits_value_nat_str)
qed simp

subsection \<open>The log of one turn\<close>

text \<open>
  What a turn directory means: the prior contents it keeps, as a function that gives them back.
  \<open>note_prior\<close> is what \<open>backup_file\<close> does to it, \<open>revert\<close> what \<open>restore_to\<close> does with it.
\<close>

type_synonym turn_log = "backup_entry list \<times> (rstr \<Rightarrow> byte_vec option)"

definition log_of :: "turn_files option \<Rightarrow> turn_log" where
  "log_of t = (case t of
      None \<Rightarrow> ([], \<lambda>_. None)
    | Some tf \<Rightarrow> (case tf_manifest tf of Some (Inr m) \<Rightarrow> tm_entries m | _ \<Rightarrow> [], tf_blobs tf))"

definition new_log :: turn_log where
  "new_log = ([], \<lambda>_. None)"

definition note_prior :: "rstr \<Rightarrow> byte_vec option \<Rightarrow> turn_log \<Rightarrow> turn_log" where
  "note_prior p prior log =
     (let es = fst log; name = blob_name (length es)
      in if has_entry p es then log
         else case prior of
           None \<Rightarrow> (es @ [\<lparr>be_path = p, be_existed_before = False, be_blob = None\<rparr>], snd log)
         | Some b \<Rightarrow> (es @ [\<lparr>be_path = p, be_existed_before = True, be_blob = Some name\<rparr>],
                      (snd log)(name \<mapsto> b)))"

definition prior_value :: "(rstr \<Rightarrow> byte_vec option) \<Rightarrow> backup_entry \<Rightarrow> byte_vec option" where
  "prior_value blobs e = (if be_existed_before e then Option.bind (be_blob e) blobs else None)"

definition revert_entry ::
  "io_env \<Rightarrow> path \<Rightarrow> (rstr \<Rightarrow> byte_vec option) \<Rightarrow> (loc \<Rightarrow> byte_vec option) \<Rightarrow> backup_entry \<Rightarrow>
   loc \<Rightarrow> byte_vec option" where
  "revert_entry env root blobs files e =
     (if is_within_root root (components (be_path e))
      then files(env_loc env (be_path e) := prior_value blobs e) else files)"

definition revert ::
  "io_env \<Rightarrow> path \<Rightarrow> turn_log \<Rightarrow> (loc \<Rightarrow> byte_vec option) \<Rightarrow> loc \<Rightarrow> byte_vec option" where
  "revert env root log files = foldl (revert_entry env root (snd log)) files (fst log)"

text \<open>Well-formed logs over a set of paths: their entries name blobs that exist, one per entry.\<close>

definition wf_log :: "rstr set \<Rightarrow> turn_log \<Rightarrow> bool" where
  "wf_log P log \<longleftrightarrow>
     (\<forall>i < length (fst log). be_path (fst log ! i) \<in> P \<and>
        (be_existed_before (fst log ! i) \<longrightarrow>
           be_blob (fst log ! i) = Some (blob_name i) \<and> snd log (blob_name i) \<noteq> None))"

text \<open>A path of the set whose location no other path of the set names, inside the project.\<close>

definition admissible :: "io_env \<Rightarrow> path \<Rightarrow> rstr set \<Rightarrow> rstr \<Rightarrow> bool" where
  "admissible env root P p \<longleftrightarrow>
     p \<in> P \<and> is_within_root root (components p) \<and>
     (\<forall>q \<in> P. env_loc env q = env_loc env p \<longrightarrow> q = p)"

lemma foldl_revert_touched:
  "\<exists>e \<in> set es. is_within_root root (components (be_path e)) \<and> env_loc env (be_path e) = l \<Longrightarrow>
   foldl (revert_entry env root bl) (f(l := v)) es = foldl (revert_entry env root bl) f es"
proof (induction es arbitrary: f)
  case (Cons e es)
  show ?case
  proof (cases "is_within_root root (components (be_path e)) \<and> env_loc env (be_path e) = l")
    case True
    then have "revert_entry env root bl (f(l := v)) e = revert_entry env root bl f e"
      by (auto simp: revert_entry_def)
    then show ?thesis by (simp only: foldl.simps)
  next
    case False
    then have e: "revert_entry env root bl (f(l := v)) e = (revert_entry env root bl f e)(l := v)"
      by (auto simp: revert_entry_def)
    from Cons.prems False have "\<exists>e \<in> set es. is_within_root root (components (be_path e)) \<and>
        env_loc env (be_path e) = l" by auto
    from Cons.IH [OF this] show ?thesis by (simp only: foldl.simps e)
  qed
qed simp

lemma foldl_revert_untouched:
  "\<forall>e \<in> set es. env_loc env (be_path e) \<noteq> l \<Longrightarrow>
   foldl (revert_entry env root bl) (f(l := v)) es = (foldl (revert_entry env root bl) f es)(l := v) \<and>
   foldl (revert_entry env root bl) f es l = f l"
proof (induction es arbitrary: f)
  case (Cons e es)
  then have e: "revert_entry env root bl (f(l := v)) e = (revert_entry env root bl f e)(l := v)"
    "revert_entry env root bl f e l = f l" by (auto simp: revert_entry_def)
  from Cons.prems have "\<forall>e \<in> set es. env_loc env (be_path e) \<noteq> l" by simp
  from Cons.IH [OF this, of "revert_entry env root bl f e"] show ?case by (simp only: foldl.simps e)
qed simp

lemma foldl_revert_blobs:
  "\<forall>e \<in> set es. prior_value bl e = prior_value bl' e \<Longrightarrow>
   foldl (revert_entry env root bl) f es = foldl (revert_entry env root bl') f es"
  by (induction es arbitrary: f) (auto simp: revert_entry_def)

lemma wf_log_new: "wf_log P new_log"
  by (simp add: wf_log_def new_log_def)

lemma wf_log_note: "wf_log P log \<Longrightarrow> p \<in> P \<Longrightarrow> wf_log P (note_prior p v log)"
  by (cases v) (auto simp: wf_log_def note_prior_def Let_def nth_append less_Suc_eq)

lemma revert_new: "revert env root new_log f = f"
  by (simp add: revert_def new_log_def)

lemma wf_log_prior:
  assumes "wf_log P log" "e \<in> set (fst log)"
  shows "prior_value ((snd log)(blob_name (length (fst log)) := v)) e = prior_value (snd log) e"
proof -
  from assms(2) obtain i where i: "i < length (fst log)" "e = fst log ! i"
    by (metis in_set_conv_nth)
  with assms(1) show ?thesis by (auto simp: wf_log_def prior_value_def blob_name_inj)
qed

lemma revert_note:
  assumes "wf_log P log" "admissible env root P p"
  shows "revert env root (note_prior p (f (env_loc env p)) log) (f(env_loc env p := v)) =
    revert env root log f"
proof (cases "has_entry p (fst log)")
  case True
  then obtain e where "e \<in> set (fst log)" "be_path e = p" by (auto simp: has_entry_def list_ex_iff)
  with assms(2) have "\<exists>e \<in> set (fst log). is_within_root root (components (be_path e)) \<and>
      env_loc env (be_path e) = env_loc env p" by (auto simp: admissible_def)
  from foldl_revert_touched [OF this] True show ?thesis
    by (simp add: revert_def note_prior_def Let_def)
next
  case False
  have "be_path e \<in> P \<and> be_path e \<noteq> p" if "e \<in> set (fst log)" for e
    using that assms(1) False
    by (metis (mono_tags, lifting) has_entry_def in_set_conv_nth list_ex_iff wf_log_def)
  with assms(2) have untouched: "\<forall>e \<in> set (fst log). env_loc env (be_path e) \<noteq> env_loc env p"
    by (auto simp: admissible_def)
  note u = foldl_revert_untouched [OF untouched, of root]
  show ?thesis
  proof (cases "f (env_loc env p)")
    case None
    with False assms(2) show ?thesis
      by (simp add: revert_def note_prior_def Let_def revert_entry_def [of _ _ _ _ "\<lparr>be_path = p, be_existed_before = False, be_blob = None\<rparr>"]
          prior_value_def admissible_def u fun_upd_idem)
  next
    case (Some b)
    let ?n = "blob_name (length (fst log))"
    have "foldl (revert_entry env root ((snd log)(?n \<mapsto> b))) g (fst log) =
        foldl (revert_entry env root (snd log)) g (fst log)" for g
      using wf_log_prior [OF assms(1)] by (intro foldl_revert_blobs) blast
    with Some False assms(2) show ?thesis
      by (simp add: revert_def note_prior_def Let_def revert_entry_def [of _ _ _ _ "\<lparr>be_path = p, be_existed_before = True, be_blob = Some ?n\<rparr>"]
          prior_value_def admissible_def u fun_upd_idem)
  qed
qed

subsection \<open>Undo logs as an interface\<close>

text \<open>
  What a store of undo logs promises its client, with the logs of a session's turns newest first:
  reverting an edit after its prior value was noted is reverting without the edit.
\<close>

definition revert_all :: "('g \<Rightarrow> 'f \<Rightarrow> 'f) \<Rightarrow> 'g list \<Rightarrow> 'f \<Rightarrow> 'f" where
  "revert_all rv logs f = foldl (\<lambda>f log. rv log f) f logs"

lemma revert_all_simps [simp]:
  "revert_all rv [] f = f" "revert_all rv (g # gs) f = revert_all rv gs (rv g f)"
  by (simp_all add: revert_all_def)

locale undo_log =
  fixes empty_log :: 'g
    and put :: "'p \<Rightarrow> 'v \<Rightarrow> 'g \<Rightarrow> 'g"
    and rv :: "'g \<Rightarrow> ('l \<Rightarrow> 'v) \<Rightarrow> 'l \<Rightarrow> 'v"
    and locate_path :: "'p \<Rightarrow> 'l"
    and wf :: "'g \<Rightarrow> bool"
    and adm :: "'p \<Rightarrow> bool"
  assumes wf_empty: "wf empty_log"
    and wf_note: "wf g \<Longrightarrow> adm p \<Longrightarrow> wf (put p v g)"
    and rv_empty: "rv empty_log f = f"
    and rv_note: "wf g \<Longrightarrow> adm p \<Longrightarrow>
      rv (put p (f (locate_path p)) g) (f(locate_path p := v)) = rv g f"
begin

lemma edit_in_turn:
  "wf g \<Longrightarrow> adm p \<Longrightarrow> f' = f(locate_path p := v) \<Longrightarrow> g' = put p (f (locate_path p)) g \<Longrightarrow>
   revert_all rv (g' # gs) f' = revert_all rv (g # gs) f"
  by (simp add: rv_note)

lemma edit_opens_turn:
  "adm p \<Longrightarrow> f' = f(locate_path p := v) \<Longrightarrow> g' = put p (f (locate_path p)) empty_log \<Longrightarrow>
   revert_all rv (g' # gs) f' = revert_all rv gs f"
  by (simp add: rv_note wf_empty rv_empty)

end

interpretation turn_log: undo_log new_log note_prior "revert env root" "env_loc env" "wf_log P"
    "admissible env root P" for env root P
  by unfold_locales (auto simp: wf_log_new wf_log_note revert_new revert_note admissible_def)

subsection \<open>The store without faults\<close>

definition no_faults :: "io_env \<Rightarrow> bool" where
  "no_faults env \<longleftrightarrow> (\<forall>n. env_fault env n = None)"

lemma no_faults_ops:
  assumes "no_faults env"
  shows "fs_other env w = (Inr (), tick w)"
    "fs_read env p w = (case file_at env w p of None \<Rightarrow> Inl NotFound | Some b \<Rightarrow> Inr b, tick w)"
    "fs_is_file env p w = (if file_at env w p \<noteq> None then Inr True
        else if env_dir env (env_loc env p) then Inr False else Inl NotFound, tick w)"
    "fs_write env p b w = (Inr (), tick (set_file env p (Some b) w))"
    "fs_remove env p w = (if file_at env w p = None then (Inl NotFound, tick w)
        else (Inr (), tick (set_file env p None w)))"
  using assms by (auto simp: no_faults_def fault_now_def fs_defs)

lemma c_store_tick [simp]: "c_store (tick w) = c_store w" "c_store (set_file env p v w) = c_store w"
  by (simp_all add: tick_def set_file_def)

lemma turn_at_tick [simp]: "turn_at s n (tick w) = turn_at s n w"
    "turn_at s n (set_file env p v w) = turn_at s n w"
  by (simp_all add: turn_at_def)

lemma file_at_tick [simp]: "file_at env (tick w) p = file_at env w p"
  by (simp add: file_at_def)

lemma turn_at_change [simp]:
  "turn_at s n (change_turn s' n' f w) =
     (if s = s' \<and> n = n' then Some (f (case turn_at s n w of None \<Rightarrow> empty_turn | Some t \<Rightarrow> t))
      else turn_at s n w)"
  by (auto simp: turn_at_def change_turn_def map_of_upsert split: option.splits)

lemma change_turn_files [simp]:
  "w_files (change_turn s n f w) = w_files w" "w_tick (change_turn s n f w) = w_tick w"
  "file_at env (change_turn s n f w) p = file_at env w p"
  by (simp_all add: change_turn_def file_at_def)

definition names_in :: "rstr \<Rightarrow> 'z cworld_scheme \<Rightarrow> rstr list" where
  "names_in seg w = (case c_store w seg of None \<Rightarrow> [] | Some ls \<Rightarrow> map fst ls)"

lemma names_in_change [simp]:
  "names_in s (change_turn s' n f w) =
     (if s = s' \<and> n \<notin> set (names_in s w) then names_in s w @ [n] else names_in s w)"
  by (auto simp: names_in_def change_turn_def fst_upsert split: option.splits)

lemma names_in_tick [simp]: "names_in s (tick w) = names_in s w"
    "names_in s (set_file env p v w) = names_in s w"
  by (simp_all add: names_in_def)

lemma turn_at_None_iff: "turn_at s n w = None \<longleftrightarrow> n \<notin> set (names_in s w)"
  by (cases "c_store w s") (auto simp: turn_at_def names_in_def map_of_eq_None_iff)

lemma c_store_change [simp]: "c_store (change_turn s n f w) s' = None \<longleftrightarrow> s' \<noteq> s \<and> c_store w s' = None"
  by (simp add: change_turn_def)

lemma c_store_change_same [simp]:
  "c_store (change_turn s n f w) s = Some (upsert n empty_turn f (case c_store w s of None \<Rightarrow> [] | Some ls \<Rightarrow> ls))"
  by (simp add: change_turn_def)

text \<open>A readable turn: it has a manifest that parses.\<close>

definition readable :: "turn_files option \<Rightarrow> bool" where
  "readable t \<longleftrightarrow> (\<exists>tf m. t = Some tf \<and> tf_manifest tf = Some (Inr m))"

text \<open>What \<open>backup_file\<close> does to a turn that is new or readable.\<close>

lemma backup_file_effect:
  assumes "no_faults env" "is_absolute p"
    and "turn_at seg (turn_name t) w = None \<or> readable (turn_at seg (turn_name t) w)"
    and "seg = sanitize_session_id sid" "backup_file env sid t p w = (r, w')"
  shows "r = Inr () \<and> w_files w' = w_files w \<and>
    log_of (turn_at seg (turn_name t) w') =
      note_prior p (file_at env w p) (log_of (turn_at seg (turn_name t) w)) \<and>
    readable (turn_at seg (turn_name t) w') \<and>
    (\<forall>s n. (s, n) \<noteq> (seg, turn_name t) \<longrightarrow> turn_at s n w' = turn_at s n w) \<and>
    names_in seg w' = (if turn_name t \<in> set (names_in seg w) then names_in seg w
                       else names_in seg w @ [turn_name t]) \<and>
    c_store w' seg \<noteq> None"
proof -
  let ?tn = "turn_name t"
  note ops = no_faults_ops [OF assms(1)] write_manifest_atomic_def write_blob_def read_manifest_def
  show ?thesis
  proof (cases "turn_at seg ?tn w")
    case None
    with turn_at_None_iff [of seg ?tn w] have n: "?tn \<notin> set (names_in seg w)" by simp
    from assms n None show ?thesis
      by (cases "file_at env w p"; cases "env_dir env (env_loc env p)")
         (auto simp: backup_file_def Let_def ops has_entry_def add_entry_def log_of_def note_prior_def
            readable_def empty_turn_def fun_eq_iff)
  next
    case (Some tf)
    with turn_at_None_iff [of seg ?tn w] have n: "?tn \<in> set (names_in seg w)" by simp
    then have cs: "c_store w seg \<noteq> None" by (cases "c_store w seg") (auto simp: names_in_def)
    from Some assms(3) obtain m where m: "tf_manifest tf = Some (Inr m)" by (auto simp: readable_def)
    show ?thesis
    proof (cases "has_entry p (tm_entries m)")
      case True
      with assms m n Some cs show ?thesis
        by (auto simp: backup_file_def Let_def ops log_of_def note_prior_def readable_def)
    next
      case False
      with assms m n Some show ?thesis
        by (cases "file_at env w p"; cases "env_dir env (env_loc env p)")
           (auto simp: backup_file_def Let_def ops has_entry_def add_entry_def log_of_def note_prior_def
            readable_def fun_eq_iff)
    qed
  qed
qed

subsection \<open>Restoring without faults\<close>

lemma restore_entries_ok:
  assumes "no_faults env" "turn_at seg tname w = Some tf"
    and "\<forall>e \<in> set es. be_existed_before e \<longrightarrow> Option.bind (be_blob e) (tf_blobs tf) \<noteq> None"
  shows "\<exists>k w'. restore_entries env root seg tname es c w = (Inr k, w') \<and>
     w_files w' = foldl (revert_entry env root (tf_blobs tf)) (w_files w) es \<and> c_store w' = c_store w"
  using assms(2,3)
proof (induction es arbitrary: c w)
  case (Cons e es)
  have step: "\<exists>n w1. restore_entry env root seg tname e w = (Inr n, w1) \<and>
      w_files w1 = revert_entry env root (tf_blobs tf) (w_files w) e \<and> c_store w1 = c_store w"
  proof (cases "is_within_root root (components (be_path e)) \<and> be_existed_before e")
    case True
    with Cons.prems(2) obtain name b where "be_blob e = Some name" "tf_blobs tf name = Some b"
      by (auto simp: bind_eq_Some_conv)
    with True Cons.prems(1) show ?thesis
      by (simp add: restore_entry_def read_blob_def no_faults_ops [OF assms(1)] revert_entry_def
          prior_value_def)
  next
    case False
    then show ?thesis
      by (auto simp: restore_entry_def no_faults_ops [OF assms(1)] revert_entry_def prior_value_def
          file_at_def)
  qed
  then obtain n w1 where w1: "restore_entry env root seg tname e w = (Inr n, w1)"
    "w_files w1 = revert_entry env root (tf_blobs tf) (w_files w) e" "c_store w1 = c_store w" by blast
  then have "turn_at seg tname w1 = Some tf" using Cons.prems(1) by (simp add: turn_at_def)
  from Cons.IH [OF this, of "c + n"] Cons.prems(2) w1 show ?case by simp
qed simp

lemma wf_log_blobs:
  "wf_log P (es, bl) \<Longrightarrow> e \<in> set es \<Longrightarrow> be_existed_before e \<Longrightarrow> Option.bind (be_blob e) bl \<noteq> None"
  by (auto simp: wf_log_def in_set_conv_nth)

definition usable :: "rstr set \<Rightarrow> turn_files option \<Rightarrow> bool" where
  "usable P t \<longleftrightarrow> readable t \<and> wf_log P (log_of t)"

lemma restore_turns_ok:
  assumes "no_faults env" "\<forall>t \<in> set ts. usable P (turn_at seg (turn_name t) w)"
  shows "\<exists>k w'. restore_turns env root seg ts c w = (Inr k, w') \<and> c_store w' = c_store w \<and>
     w_files w' = revert_all (revert env root) (map (\<lambda>t. log_of (turn_at seg (turn_name t) w)) ts) (w_files w)"
  using assms(2)
proof (induction ts arbitrary: c w)
  case (Cons t ts)
  let ?tn = "turn_name t"
  from Cons.prems obtain tf m where t: "turn_at seg ?tn w = Some tf" "tf_manifest tf = Some (Inr m)"
    "wf_log P (tm_entries m, tf_blobs tf)" by (auto simp: usable_def readable_def log_of_def)
  then have rm: "read_manifest env seg ?tn w = (Inr (Some m), tick w)"
    by (simp add: read_manifest_def no_faults_ops [OF assms(1)])
  from t have "turn_at seg ?tn (tick w) = Some tf" by simp
  from restore_entries_ok [OF assms(1) this, of "tm_entries m" root c] wf_log_blobs [OF t(3)]
  obtain k w1 where w1: "restore_entries env root seg ?tn (tm_entries m) c (tick w) = (Inr k, w1)"
    "w_files w1 = foldl (revert_entry env root (tf_blobs tf)) (w_files w) (tm_entries m)"
    "c_store w1 = c_store w" by auto
  then have tw: "turn_at s n w1 = turn_at s n w" for s n by (simp add: turn_at_def)
  have "\<forall>t \<in> set ts. usable P (turn_at seg (turn_name t) w1)" using Cons.prems tw by simp
  from Cons.IH [OF this, of k] t rm w1 show ?case
    by (simp add: tw revert_def log_of_def)
qed simp

lemma next_entries_ok:
  assumes "no_faults env"
  shows "\<exists>w'. next_entries env ls w = (Inr (List.map_filter parse_turn_from_dirname (map fst ls)), w') \<and>
     w_files w' = w_files w \<and> c_store w' = c_store w"
proof (induction ls arbitrary: w)
  case (Cons a ls)
  from Cons [of "tick w"] show ?case
    by (cases a) (auto simp: no_faults_ops [OF assms] map_filter_simps split: option.splits)
qed (simp add: no_faults_ops [OF assms] map_filter_simps)

definition turn_numbers :: "rstr \<Rightarrow> 'z cworld_scheme \<Rightarrow> u32 list" where
  "turn_numbers seg w = List.map_filter parse_turn_from_dirname (names_in seg w)"

definition turns_after :: "rstr \<Rightarrow> u32 \<Rightarrow> 'z cworld_scheme \<Rightarrow> u32 list" where
  "turns_after seg target w = rev (sort (filter (\<lambda>t. target < t) (turn_numbers seg w)))"

definition logs_after :: "rstr \<Rightarrow> u32 \<Rightarrow> 'z cworld_scheme \<Rightarrow> turn_log list" where
  "logs_after seg target w = map (\<lambda>t. log_of (turn_at seg (turn_name t) w)) (turns_after seg target w)"

lemma restore_to_ok:
  assumes "no_faults env" "seg = sanitize_session_id sid"
    and "\<forall>t \<in> set (turns_after seg target w). usable P (turn_at seg (turn_name t) w)"
  shows "\<exists>k w'. restore_to env sid target root w = (Inr k, w') \<and>
     w_files w' = revert_all (revert env root) (logs_after seg target w) (w_files w)"
proof (cases "c_store w seg")
  case None
  then show ?thesis
    by (simp add: restore_to_def no_faults_ops [OF assms(1)] assms(2) logs_after_def turns_after_def
        turn_numbers_def names_in_def map_filter_simps)
next
  case (Some ls)
  from next_entries_ok [OF assms(1), of ls "tick (tick w)"] obtain w2 where w2:
    "next_entries env ls (tick (tick w)) = (Inr (turn_numbers seg w), w2)"
    "w_files w2 = w_files w" "c_store w2 = c_store w"
    using Some by (auto simp: turn_numbers_def names_in_def)
  then have tw: "turn_at s n w2 = turn_at s n w" for s n by (simp add: turn_at_def)
  have "\<forall>t \<in> set (turns_after seg target w). usable P (turn_at seg (turn_name t) w2)"
    using assms(3) tw by simp
  from restore_turns_ok [OF assms(1) this, of root 0] obtain k w3 where
    "restore_turns env root seg (turns_after seg target w) 0 w2 = (Inr k, w3)"
    "w_files w3 = revert_all (revert env root) (logs_after seg target w) (w_files w)"
    using w2 by (auto simp: tw logs_after_def)
  moreover have "restore_to env sid target root w = restore_turns env root seg (turns_after seg target w) 0 w2"
    using w2 Some assms(2)
    by (simp add: restore_to_def Let_def list_turn_numbers_def no_faults_ops [OF assms(1)] turns_after_def)
  ultimately show ?thesis by auto
qed

subsection \<open>A session of edits\<close>

text \<open>
  \<open>agent_run env sid P t w u w'\<close>: from world \<open>w\<close> at turn \<open>t\<close> the session's tools lead to world
  \<open>w'\<close> at turn \<open>u\<close>; each step backs up one path of \<open>P\<close> and then changes what is there,
  in any way, and nothing else; between steps anything may happen that leaves the files and the
  checkpoints alone. Turns never go back.
\<close>

inductive agent_run ::
  "io_env \<Rightarrow> rstr \<Rightarrow> rstr set \<Rightarrow> u32 \<Rightarrow> cworld \<Rightarrow> u32 \<Rightarrow> cworld \<Rightarrow> bool" for env sid P t w where
  run_start: "agent_run env sid P t w t w"
| run_idle: "agent_run env sid P t w u w1 \<Longrightarrow> w_files w2 = w_files w1 \<Longrightarrow> c_store w2 = c_store w1 \<Longrightarrow>
    agent_run env sid P t w u w2"
| run_edit: "agent_run env sid P t w u w1 \<Longrightarrow> u \<le> v \<Longrightarrow> p \<in> P \<Longrightarrow>
    backup_file env sid v p w1 = (Inr (), w2) \<Longrightarrow> c_store w3 = c_store w2 \<Longrightarrow>
    w_files w3 = (w_files w2)(env_loc env p := content) \<Longrightarrow> agent_run env sid P t w v w3"

definition canonical_names :: "rstr list \<Rightarrow> bool" where
  "canonical_names ns \<longleftrightarrow>
     distinct ns \<and> (\<forall>n \<in> set ns. \<forall>t. parse_turn_from_dirname n = Some t \<longrightarrow> n = turn_name t)"

lemma sort_snoc_max: "\<forall>x \<in> set xs. x \<le> t \<Longrightarrow> sort (xs @ [t]) = sort xs @ [t :: 'a :: linorder]"
proof (induction xs)
  case (Cons x xs)
  have "insort x (ys @ [t]) = insort x ys @ [t]" if "x \<le> t" for ys using that by (induction ys) auto
  with Cons show ?case by simp
qed simp

lemma sort_max_last:
  assumes "distinct ts" "t \<in> set ts" "\<forall>x \<in> set ts. x \<le> (t :: 'a :: linorder)"
  shows "\<exists>r. rev (sort ts) = t # r \<and> t \<notin> set r"
proof -
  from assms have "t \<in> set (sort ts)" "distinct (sort ts)" by auto
  then obtain xs ys where s: "sort ts = xs @ t # ys" "t \<notin> set ys" by (metis split_list_last)
  have "ys = []"
  proof (rule ccontr)
    assume "ys \<noteq> []"
    then obtain y where y: "y \<in> set ys" by (cases ys) auto
    have "sorted (xs @ t # ys)" using s(1) by (metis sorted_sort)
    with y have "t \<le> y" by (auto simp: sorted_append)
    moreover have "y \<in> set ts" using y s(1) by (metis in_set_conv_decomp set_sort append_Cons append_assoc)
    ultimately show False using assms(3) y s(2) by auto
  qed
  with s \<open>distinct (sort ts)\<close> show ?thesis by auto
qed

lemma turn_numbers_iff:
  "canonical_names (names_in seg w) \<Longrightarrow> t \<in> set (turn_numbers seg w) \<longleftrightarrow> turn_name t \<in> set (names_in seg w)"
  unfolding turn_numbers_def canonical_names_def mem_map_filter using parse_turn_name by metis

lemma distinct_turn_numbers: "canonical_names (names_in seg w) \<Longrightarrow> distinct (turn_numbers seg w)"
proof -
  have "canonical_names ns \<Longrightarrow> distinct (List.map_filter parse_turn_from_dirname ns)" for ns
  proof (induction ns)
    case (Cons n ns)
    then have "canonical_names ns" by (simp add: canonical_names_def)
    moreover have "t \<notin> set (List.map_filter parse_turn_from_dirname ns)"
      if "parse_turn_from_dirname n = Some t" for t
      using that Cons.prems unfolding canonical_names_def mem_map_filter
      by (metis distinct.simps(2) list.set_intros)
    ultimately show ?case using Cons by (auto simp: map_filter_simps split: option.splits)
  qed (simp add: map_filter_simps)
  then show "canonical_names (names_in seg w) \<Longrightarrow> distinct (turn_numbers seg w)"
    by (simp add: turn_numbers_def)
qed

definition run_inv ::
  "io_env \<Rightarrow> path \<Rightarrow> rstr set \<Rightarrow> rstr \<Rightarrow> u32 \<Rightarrow> u32 \<Rightarrow> (loc \<Rightarrow> byte_vec option) \<Rightarrow> cworld \<Rightarrow> bool" where
  "run_inv env root P seg target t before w \<longleftrightarrow>
     canonical_names (names_in seg w) \<and>
     (\<forall>u \<in> set (turns_after seg target w). u \<le> t \<and> usable P (turn_at seg (turn_name u) w)) \<and>
     revert_all (revert env root) (logs_after seg target w) (w_files w) = before"

lemma turn_numbers_snoc:
  "names_in seg w' = names_in seg w @ [turn_name v] \<Longrightarrow> turn_numbers seg w' = turn_numbers seg w @ [v]"
  by (simp add: turn_numbers_def parse_turn_name map_filter_def)

lemma turns_after_backup:
  assumes "canonical_names (names_in seg w)" "target < v"
    and "\<forall>u \<in> set (turns_after seg target w). u \<le> v"
    and "names_in seg w' = (if turn_name v \<in> set (names_in seg w) then names_in seg w
                            else names_in seg w @ [turn_name v])"
  shows "\<exists>r. turns_after seg target w' = v # r \<and> v \<notin> set r \<and> set r \<subseteq> set (turns_after seg target w) \<and>
     (if turn_name v \<in> set (names_in seg w) then turns_after seg target w = v # r
      else turns_after seg target w = r)"
proof (cases "turn_name v \<in> set (names_in seg w)")
  case True
  let ?ts = "filter (\<lambda>t. target < t) (turn_numbers seg w)"
  have "distinct ?ts" "v \<in> set ?ts" "\<forall>x \<in> set ?ts. x \<le> v"
    using assms True turn_numbers_iff [OF assms(1)] distinct_turn_numbers [OF assms(1)]
    by (auto simp: turns_after_def)
  from sort_max_last [OF this] obtain r where "turns_after seg target w = v # r" "v \<notin> set r"
    by (auto simp: turns_after_def)
  moreover have "turns_after seg target w' = turns_after seg target w"
    using assms(4) True by (simp add: turns_after_def turn_numbers_def)
  ultimately show ?thesis using True by auto
next
  case False
  then have "turn_numbers seg w' = turn_numbers seg w @ [v]"
    using assms(4) by (intro turn_numbers_snoc) simp
  moreover have "v \<notin> set (turns_after seg target w)"
    using False turn_numbers_iff [OF assms(1)] by (simp add: turns_after_def)
  moreover have "sort (filter (\<lambda>t. target < t) (turn_numbers seg w) @ [v]) =
      sort (filter (\<lambda>t. target < t) (turn_numbers seg w)) @ [v]"
    using assms(3) by (intro sort_snoc_max) (simp add: turns_after_def)
  ultimately show ?thesis using False assms(2) by (simp add: turns_after_def)
qed

lemma canonical_snoc:
  "canonical_names ns \<Longrightarrow> turn_name v \<notin> set ns \<Longrightarrow> canonical_names (ns @ [turn_name v])"
  by (auto simp: canonical_names_def parse_turn_name)

lemma run_inv_edit:
  assumes inv: "run_inv env root P seg target u before w1"
    and env: "no_faults env" "seg = sanitize_session_id sid"
    and p: "is_absolute p" "admissible env root P p" "u \<le> v" "target < v"
    and step: "backup_file env sid v p w1 = (Inr (), w2)" "c_store w3 = c_store w2"
      "w_files w3 = (w_files w2)(env_loc env p := content)"
  shows "run_inv env root P seg target v before w3"
proof -
  let ?tn = "turn_name v" and ?ts = "turns_after seg target w1"
  let ?old = "turn_at seg ?tn w1"
  have can: "canonical_names (names_in seg w1)"
    and us: "\<forall>t \<in> set ?ts. t \<le> v \<and> usable P (turn_at seg (turn_name t) w1)"
    and rev: "revert_all (revert env root) (logs_after seg target w1) (w_files w1) = before"
    using inv p(3) by (auto simp: run_inv_def)
  have mem: "?tn \<in> set (names_in seg w1) \<longleftrightarrow> v \<in> set ?ts"
    using turn_numbers_iff [OF can] p(4) by (simp add: turns_after_def)
  have old: "?old = None \<or> usable P ?old" using us mem turn_at_None_iff [of seg ?tn w1] by blast
  then have "?old = None \<or> readable ?old" by (auto simp: usable_def)
  note eff = backup_file_effect [OF env(1) p(1) this env(2) step(1), simplified]
  have at3: "turn_at s n w3 = turn_at s n w2" "names_in s w3 = names_in s w2" for s n
    using step(2) by (simp_all add: turn_at_def names_in_def)
  have files: "w_files w3 = (w_files w1)(env_loc env p := content)" using eff step(3) by simp
  have n3: "names_in seg w3 = (if ?tn \<in> set (names_in seg w1) then names_in seg w1
      else names_in seg w1 @ [?tn])" using eff at3 by simp
  from turns_after_backup [OF can p(4) _ n3] us obtain r where
    r: "turns_after seg target w3 = v # r" "v \<notin> set r" "set r \<subseteq> set ?ts"
    "if ?tn \<in> set (names_in seg w1) then ?ts = v # r else ?ts = r" by blast
  have rest: "turn_at seg (turn_name t) w3 = turn_at seg (turn_name t) w1" if "t \<in> set r" for t
    using that r(2) eff at3 by (metis prod.inject turn_name_inj)
  have wf_old: "wf_log P (log_of ?old)"
    using old by (auto simp: usable_def log_of_def wf_log_def)
  have noted: "log_of (turn_at seg ?tn w3) = note_prior p (w_files w1 (env_loc env p)) (log_of ?old)"
    using eff at3 by (simp add: file_at_def)
  have "p \<in> P" using p(2) by (simp add: admissible_def)
  then have u3: "usable P (turn_at seg ?tn w3)"
    using noted wf_log_note [OF wf_old] eff at3 by (simp add: usable_def)
  have logs3: "logs_after seg target w3 = note_prior p (w_files w1 (env_loc env p)) (log_of ?old) #
      map (\<lambda>t. log_of (turn_at seg (turn_name t) w1)) r"
    using r(1) noted rest by (simp add: logs_after_def)
  have "revert_all (revert env root) (logs_after seg target w3) (w_files w3) = before"
  proof (cases "?tn \<in> set (names_in seg w1)")
    case True
    with r(4) have "logs_after seg target w1 = log_of ?old # map (\<lambda>t. log_of (turn_at seg (turn_name t) w1)) r"
      by (simp add: logs_after_def)
    with turn_log.edit_in_turn [OF wf_old p(2) files refl] rev show ?thesis unfolding logs3 by simp
  next
    case False
    then have "log_of ?old = new_log" using turn_at_None_iff [of seg ?tn w1]
      by (simp add: log_of_def new_log_def)
    with turn_log.edit_opens_turn [OF p(2) files refl] rev False r(4) show ?thesis
      unfolding logs3 by (simp add: logs_after_def)
  qed
  moreover have "canonical_names (names_in seg w3)" using n3 can canonical_snoc by simp
  moreover have "t \<le> v \<and> usable P (turn_at seg (turn_name t) w3)"
    if "t \<in> set (turns_after seg target w3)" for t
  proof (cases "t = v")
    case False
    with that r have "t \<in> set r" by auto
    with rest r(3) us show ?thesis by auto
  qed (use u3 in simp)
  ultimately show ?thesis by (simp add: run_inv_def)
qed

lemma agent_run_inv:
  assumes "agent_run env sid P t w u w'" "no_faults env" "seg = sanitize_session_id sid" "target < t"
    and "\<forall>p \<in> P. is_absolute p \<and> admissible env root P p"
    and "run_inv env root P seg target t before w"
  shows "run_inv env root P seg target u before w' \<and> t \<le> u"
  using assms(1)
proof induction
  case run_start
  then show ?case using assms(6) by simp
next
  case (run_idle u w1 w2)
  then show ?case by (simp add: run_inv_def logs_after_def turns_after_def turn_numbers_def names_in_def turn_at_def)
next
  case (run_edit u w1 v p w2 w3 content)
  with assms(5) have p: "is_absolute p" "admissible env root P p" by auto
  from run_edit assms(4) have "target < v" "t \<le> v" by auto
  with run_inv_edit [OF _ assms(2,3) p run_edit.hyps(2)] run_edit show ?case by blast
qed

subsection \<open>Only files inside the project are restored\<close>

lemma normalize_onto_abs: "normalize_onto (loc_path a) cs = Some n \<Longrightarrow> n = loc_path (land a cs)"
proof (induction a cs rule: land.induct)
  case (4 cur p)
  show ?case
  proof (cases cur rule: rev_cases)
    case (snoc xs x)
    with 4 show ?thesis by (simp add: path_parent_def loc_path_def)
  qed (use 4 in \<open>simp add: path_parent_def loc_path_def\<close>)
next
  case (2 cur p)
  then show ?case by (simp add: loc_path_def)
next
  case (5 cur n p)
  then show ?case by (simp add: loc_path_def)
qed auto

lemma normalize_onto_rel:
  "RootDir \<notin> set acc \<Longrightarrow> normalize_onto acc cs = Some n \<Longrightarrow> RootDir \<in> set n \<Longrightarrow> n = loc_path (land cur cs)"
proof (induction acc cs arbitrary: cur rule: normalize_onto.induct)
  case (4 acc cs)
  then have "normalize_onto (loc_path []) cs = Some n" by (simp add: loc_path_def)
  from normalize_onto_abs [OF this] show ?case by simp
next
  case (2 acc cs)
  then show ?case
    by (auto simp: path_parent_def dest: in_set_butlastD split: option.splits if_splits)
qed auto

lemma is_within_root_land:
  assumes "is_within_root (loc_path r) p"
  shows "prefix r (land [] p)"
proof -
  from assms obtain n where n: "normalize_onto [] p = Some n" "path_starts_with n (loc_path r)"
    by (auto simp: is_within_root_def split: option.splits)
  then have "RootDir \<in> set n" by (auto simp: path_starts_with_def loc_path_def prefix_def)
  with n normalize_onto_rel [OF _ n(1)] have "n = loc_path (land [] p)" by simp
  with n(2) show ?thesis by (simp add: path_starts_with_loc_path)
qed

definition only_inside :: "io_env \<Rightarrow> path \<Rightarrow> 'z cworld_scheme \<Rightarrow> 'z cworld_scheme \<Rightarrow> bool" where
  "only_inside env root w w' \<longleftrightarrow>
     (\<forall>l. w_files w' l \<noteq> w_files w l \<longrightarrow> (\<exists>p. env_loc env p = l \<and> is_within_root root (components p)))"

lemma only_inside_refl: "w_files w' = w_files w \<Longrightarrow> only_inside env root w w'"
  by (simp add: only_inside_def)

lemma only_inside_trans: "only_inside env root w w1 \<Longrightarrow> only_inside env root w1 w2 \<Longrightarrow> only_inside env root w w2"
  unfolding only_inside_def by (intro allI impI) (case_tac "w_files w1 l = w_files w l"; simp)

lemma read_blob_files [disk_simps]: "read_blob env seg tn n w = (r, w') \<Longrightarrow> w_files w' = w_files w"
  by (auto simp: read_blob_def fs_other_def split: prod.splits sum.splits option.splits)

lemma read_manifest_files [disk_simps]: "read_manifest env seg tn w = (r, w') \<Longrightarrow> w_files w' = w_files w"
  by (auto simp: read_manifest_def fs_other_def split: prod.splits sum.splits option.splits)

lemma write_manifest_files [disk_simps]:
  "write_manifest_atomic env seg tn m w = (r, w') \<Longrightarrow> w_files w' = w_files w"
  by (auto simp: write_manifest_atomic_def fs_other_def fault_now_def split: option.splits)

lemma write_blob_files [disk_simps]: "write_blob env seg tn n b w = (r, w') \<Longrightarrow> w_files w' = w_files w"
  by (auto simp: write_blob_def fs_other_def fault_now_def Let_def split: option.splits)

lemma backup_file_files: "backup_file env sid t p w = (r, w') \<Longrightarrow> w_files w' = w_files w"
  by (auto simp: backup_file_def Let_def split: if_splits prod.splits sum.splits io_error.splits bool.splits
      dest!: read_manifest_files fs_is_file_files fs_read_files write_blob_files write_manifest_files)

lemma next_entries_files [disk_simps]: "next_entries env ls w = (r, w') \<Longrightarrow> w_files w' = w_files w"
proof (induction env ls w arbitrary: r w' rule: next_entries.induct)
  case (2 env name t rest w)
  obtain r1 w1 where 1: "fs_other env w = (r1, w1)" by fastforce
  obtain r2 w2 where 2: "next_entries env rest w1 = (r2, w2)" by fastforce
  from "2.prems" 1 2 have "w' = w1 \<or> (\<exists>u. r1 = Inr u) \<and> w' = w2" by (auto split: sum.splits)
  with "2.IH" [OF 1 [symmetric] _ 2] fs_other_files [OF 1] show ?case by auto
qed (auto simp: fs_other_def split: option.splits)

lemma restore_entry_inside:
  "restore_entry env root seg tn e w = (r, w') \<Longrightarrow> only_inside env root w w'"
proof -
  assume a: "restore_entry env root seg tn e w = (r, w')"
  have other: "w_files w' l = w_files w l"
    if "l \<noteq> env_loc env (be_path e) \<or> \<not> is_within_root root (components (be_path e))" for l
    using a that unfolding restore_entry_def
    by (auto split: if_splits option.splits prod.splits sum.splits io_error.splits
        dest!: fs_remove_only fs_write_only read_blob_files fs_other_files)
  show ?thesis unfolding only_inside_def
  proof (intro allI impI)
    fix l assume "w_files w' l \<noteq> w_files w l"
    with other [of l] show "\<exists>p. env_loc env p = l \<and> is_within_root root (components p)"
      by (intro exI [of _ "be_path e"]) argo
  qed
qed

lemma restore_entries_inside:
  "restore_entries env root seg tn es c w = (r, w') \<Longrightarrow> only_inside env root w w'"
proof (induction es arbitrary: c w)
  case (Cons e es)
  obtain r1 w1 where 1: "restore_entry env root seg tn e w = (r1, w1)" by fastforce
  with Cons restore_entry_inside [OF 1] show ?case
    by (auto split: sum.splits intro: only_inside_trans)
qed (simp add: only_inside_refl)

lemma restore_turns_inside:
  "restore_turns env root seg ts c w = (r, w') \<Longrightarrow> only_inside env root w w'"
proof (induction ts arbitrary: c w)
  case (Cons t ts)
  obtain r1 w1 where 1: "read_manifest env seg (turn_name t) w = (r1, w1)" by fastforce
  then have f: "only_inside env root w w1" by (auto intro: only_inside_refl dest: read_manifest_files)
  show ?case
  proof (cases r1)
    case (Inr found)
    show ?thesis
    proof (cases found)
      case (Some m)
      obtain r2 w2 where 2: "restore_entries env root seg (turn_name t) (tm_entries m) c w1 = (r2, w2)"
        by fastforce
      from restore_entries_inside [OF this] f have "only_inside env root w w2" by (rule only_inside_trans [rotated])
      with 1 2 Inr Some Cons show ?thesis by (auto split: sum.splits intro: only_inside_trans)
    qed (use 1 Inr Cons f in \<open>auto intro: only_inside_trans\<close>)
  qed (use 1 Cons f in simp)
qed (simp add: only_inside_refl)

lemma restore_to_inside:
  "restore_to env sid target root w = (r, w') \<Longrightarrow> only_inside env root w w'"
proof -
  assume a: "restore_to env sid target root w = (r, w')"
  obtain r1 w1 where 1: "fs_other env w = (r1, w1)" by fastforce
  obtain r2 w2 where 2: "list_turn_numbers env (sanitize_session_id sid) w1 = (r2, w2)" by fastforce
  have "w_files w1 = w_files w" "w_files w2 = w_files w1"
    using 1 2 by (auto simp: list_turn_numbers_def split: prod.splits sum.splits option.splits
        dest!: fs_other_files next_entries_files)
  with a 1 2 show ?thesis
    by (auto simp: restore_to_def Let_def split: sum.splits if_splits
        intro: only_inside_refl only_inside_trans [OF only_inside_refl restore_turns_inside])
qed

subsection \<open>Properties\<close>

definition fresh_session :: "rstr \<Rightarrow> u32 \<Rightarrow> 'z cworld_scheme \<Rightarrow> bool" where
  "fresh_session sid target w \<longleftrightarrow>
     canonical_names (names_in (sanitize_session_id sid) w) \<and>
     turns_after (sanitize_session_id sid) target w = []"

lemma restore_undoes:
  assumes "agent_run env sid P t w u w'" "no_faults env" "target < t"
    and "\<forall>p \<in> P. is_absolute p \<and> is_within_root root (components p)" "inj_on (env_loc env) P"
    and "fresh_session sid target w"
  shows "\<exists>n w''. restore_to env sid target root w' = (Inr n, w'') \<and> w_files w'' = w_files w"
proof -
  let ?seg = "sanitize_session_id sid"
  have adm: "\<forall>p \<in> P. is_absolute p \<and> admissible env root P p"
    using assms(4,5) by (auto simp: admissible_def inj_on_def)
  have "run_inv env root P ?seg target t (w_files w) w"
    using assms(6) by (simp add: run_inv_def fresh_session_def logs_after_def)
  from agent_run_inv [OF assms(1,2) refl assms(3) adm this]
  have inv: "run_inv env root P ?seg target u (w_files w) w'" by simp
  then have "\<forall>t \<in> set (turns_after ?seg target w'). usable P (turn_at ?seg (turn_name t) w')"
    by (simp add: run_inv_def)
  from restore_to_ok [OF assms(2) refl this, of root] inv show ?thesis by (auto simp: run_inv_def)
qed

text \<open>
  C35: \<open>restore_to\<close> undoes every turn after the target: however often the tools edited, created or
  deleted files in those turns, in any order, as long as each change was preceded by its backup,
  every file of the machine afterwards holds what it held at the end of the target turn.
  Hypotheses: no file operation fails, the edited paths are absolute, inside the project and no
  two of them name the same file, and the session kept no later turns before.
\<close>

theorem restore_undoes_turns:
  assumes "agent_run env sid P t w u w'" "no_faults env" "target < t"
    and "\<forall>p \<in> P. is_absolute p \<and> is_within_root root (components p)" "inj_on (env_loc env) P"
    and "fresh_session sid target w"
  shows "\<exists>n w''. restore_to env sid target root w' = (Inr n, w'') \<and> w_files w'' = w_files w"
  using assms by (rule restore_undoes)

definition quiet_env :: io_env where
  "quiet_env = \<lparr>env_loc = (\<lambda>p. [p]), env_dir = (\<lambda>_. False), env_fault = (\<lambda>_. None), env_residue = (\<lambda>_. None)\<rparr>"

definition one_file_world :: cworld where
  "one_file_world = \<lparr>w_files = [[''/p/a''] \<mapsto> ''old''], w_tick = 0, c_store = (\<lambda>_. None)\<rparr>"

theorem restore_undoes_turns_witness:
  "\<exists>w'. agent_run quiet_env ''s'' {''/p/a'', ''/p/b''} 1 one_file_world 2 w' \<and>
     w_files w' = [[''/p/b''] \<mapsto> ''new''] \<and>
     (\<exists>n w''. restore_to quiet_env ''s'' 0 [RootDir, Normal ''p''] w' = (Inr n, w'') \<and>
        w_files w'' = [[''/p/a''] \<mapsto> ''old''])"
proof -
  let ?P = "{''/p/a'', ''/p/b''}"
  let ?w0 = one_file_world
  have nf: "no_faults quiet_env" by (simp add: no_faults_def quiet_env_def)
  have abs: "is_absolute ''/p/a''" "is_absolute ''/p/b''" by (simp_all add: is_absolute_def starts_with_def)
  have "turn_at (sanitize_session_id ''s'') (turn_name 1) ?w0 = None"
    by (simp add: turn_at_def one_file_world_def)
  note b1 = backup_file_effect [OF nf abs(1) disjI1 [OF this] refl]
  obtain w1 where w1: "backup_file quiet_env ''s'' 1 ''/p/a'' ?w0 = (Inr (), w1)"
    using b1 [OF surjective_pairing] by (metis surjective_pairing)
  let ?w2 = "w1\<lparr>w_files := (w_files w1)(env_loc quiet_env ''/p/a'' := None)\<rparr>"
  have r2: "agent_run quiet_env ''s'' ?P 1 ?w0 1 ?w2"
    using run_edit [OF run_start _ _ w1, of 1 ?P ?w2 None] by simp
  have "turn_at (sanitize_session_id ''s'') (turn_name 2) ?w2 = None"
    using b1 [OF w1] by (simp add: turn_at_def one_file_world_def turn_name_inj)
  note b2 = backup_file_effect [OF nf abs(2) disjI1 [OF this] refl]
  obtain w3 where w3: "backup_file quiet_env ''s'' 2 ''/p/b'' ?w2 = (Inr (), w3)"
    using b2 [OF surjective_pairing] by (metis surjective_pairing)
  let ?w4 = "w3\<lparr>w_files := (w_files w3)(env_loc quiet_env ''/p/b'' := Some ''new'')\<rparr>"
  have r4: "agent_run quiet_env ''s'' ?P 1 ?w0 2 ?w4"
    using run_edit [OF r2 _ _ w3, of ?w4 "Some ''new''"] by simp
  have "w_files ?w4 = [[''/p/b''] \<mapsto> ''new'']"
    using b1 [OF w1] b2 [OF w3] by (auto simp: quiet_env_def one_file_world_def)
  moreover have "\<exists>n w''. restore_to quiet_env ''s'' 0 [RootDir, Normal ''p''] ?w4 = (Inr n, w'') \<and>
      w_files w'' = w_files ?w0"
    by (rule restore_undoes_turns [OF r4 nf])
       (simp_all add: abs quiet_env_def fresh_session_def names_in_def one_file_world_def canonical_names_def
          turns_after_def turn_numbers_def map_filter_simps is_within_root_def components_def split_char_def
          is_absolute_def starts_with_def to_component_def path_starts_with_def)
  ultimately show ?thesis using r4 by (auto simp: one_file_world_def)
qed



text \<open>
  Turn directories read back as the turn they were made for, and distinct turns have distinct
  directories, for every 32-bit turn number (the four-digit padding is a minimum only).
\<close>

theorem turn_dirname_roundtrip:
  "parse_turn_from_dirname (turn_name t) = Some t \<and> (turn_name t = turn_name u) = (t = u)"
  by (simp add: parse_turn_name turn_name_inj)

text \<open>
  Whatever the manifests say (an entry of a tampered one may name any path) and whichever
  operation fails, a restore changes only files inside the project: in a directory tree without
  symbolic links, where a path names the location its components lead to, every changed file lies
  below the project's root.
\<close>

theorem restore_stays_in_project:
  assumes "env_loc env = (\<lambda>p. land [] (components p))"
    and "restore_to env sid target (loc_path r) w = (res, w')" "w_files w' l \<noteq> w_files w l"
  shows "prefix r l"
proof -
  from restore_to_inside [OF assms(2)] assms(3) obtain p where
    "env_loc env p = l" "is_within_root (loc_path r) (components p)"
    by (auto simp: only_inside_def)
  with is_within_root_land assms(1) show ?thesis by auto
qed

definition tampered_world :: cworld where
  "tampered_world =
     \<lparr>w_files = [[''etc'', ''x''] \<mapsto> ''keep'', [''p'', ''a''] \<mapsto> ''drop''], w_tick = 0,
      c_store = [''s'' \<mapsto> [(turn_name 1,
        \<lparr>tf_manifest = Some (Inr \<lparr>tm_version = 1, tm_session_id = ''s'', tm_turn = 1, tm_entries =
            [\<lparr>be_path = ''/p/../etc/x'', be_existed_before = False, be_blob = None\<rparr>,
             \<lparr>be_path = ''/p/a'', be_existed_before = False, be_blob = None\<rparr>]\<rparr>),
         tf_blobs = (\<lambda>_. None)\<rparr>)]]\<rparr>"

definition tree_env :: io_env where
  "tree_env = \<lparr>env_loc = (\<lambda>p. land [] (components p)), env_dir = (\<lambda>_. False),
     env_fault = (\<lambda>_. None), env_residue = (\<lambda>_. None)\<rparr>"

lemma sanitize_s: "sanitize_session_id ''s'' = ''s''"
  by (simp add: sanitize_session_id_def safe_byte_def is_ascii_alphanumeric_def byte_val_def)

lemma paths_p: "components ''/p/a'' = loc_path [''p'', ''a'']"
    "components ''/p/./a'' = loc_path [''p'', ''a'']"
    "components ''/p/../etc/x'' = [RootDir, Normal ''p'', ParentDir, Normal ''etc'', Normal ''x'']"
  by code_simp+

lemma within_p: "is_within_root (loc_path [''p'']) (loc_path [''p'', ''a''])"
    "\<not> is_within_root (loc_path [''p'']) [RootDir, Normal ''p'', ParentDir, Normal ''etc'', Normal ''x'']"
  by code_simp+

lemma tree_env_ok: "no_faults tree_env" "env_loc tree_env p = land [] (components p)"
  by (simp_all add: no_faults_def tree_env_def)

theorem restore_stays_in_project_witness:
  "\<exists>w'. restore_to tree_env ''s'' 0 (loc_path [''p'']) tampered_world = (Inr 1, w') \<and>
     w_files w' [''p'', ''a''] = None \<and> prefix [''p''] [''p'', ''a'']"
proof -
  obtain w' where w': "restore_to tree_env ''s'' 0 (loc_path [''p'']) tampered_world = (Inr 1, w')"
    "w_files w' [''p'', ''a''] = None"
    by (simp add: restore_to_def Let_def sanitize_s no_faults_ops [OF tree_env_ok(1)] list_turn_numbers_def
        tampered_world_def parse_turn_name read_manifest_def turn_at_def restore_entry_def paths_p within_p
        file_at_def tree_env_ok(2) land_loc_path)
  then have "prefix [''p''] [''p'', ''a'']"
    by (intro restore_stays_in_project [OF _ w'(1)]) (simp_all add: tree_env_ok tampered_world_def fun_eq_iff)
  with w' show ?thesis by blast
qed

text \<open>
  The diff of a file is an honest one. For texts, the lines it marks as removed and added
  stand between common lines before and after; they differ in their first and last line (nothing
  common is left at the ends), they are printed in order, and the counters grow by their numbers.
\<close>

theorem unified_diff_sound:
  assumes "utf8_valid prior" "utf8_valid current"
  shows "\<exists>a dels inss b. str_lines prior = a @ dels @ b \<and> str_lines current = a @ inss @ b \<and>
    (dels \<noteq> [] \<and> inss \<noteq> [] \<longrightarrow> hd dels \<noteq> hd inss \<and> last dels \<noteq> last inss) \<and>
    unified_file_diff path prior current =
      (''--- a/'' @ path @ [nl] @ ''+++ b/'' @ path @ [nl] @
         marked_lines (CHR ''-'') dels @ marked_lines (CHR ''+'') inss,
       word_of_nat (length inss), word_of_nat (length dels))"
proof -
  obtain dels inss where c: "changed_lines (str_lines prior) (str_lines current) = (dels, inss)"
    by fastforce
  from changed_lines_split [OF c] c assms show ?thesis
    by (auto simp: unified_file_diff_def)
qed

theorem unified_diff_sound_witness:
  "unified_file_diff ''f'' [CHR ''a'', nl, CHR ''b''] [CHR ''a'', nl, CHR ''c''] =
     (''--- a/f'' @ [nl] @ ''+++ b/f'' @ [nl] @ ''-b'' @ [nl] @ ''+c'' @ [nl], 1, 1) \<and>
   (\<exists>a dels inss b. str_lines [CHR ''a'', nl, CHR ''b''] = a @ dels @ b \<and>
      str_lines [CHR ''a'', nl, CHR ''c''] = a @ inss @ b \<and> (dels \<noteq> [] \<and> inss \<noteq> [] \<longrightarrow> hd dels \<noteq> hd inss))"
proof -
  have v: "utf8_valid [CHR ''a'', nl, CHR ''b'']" "utf8_valid [CHR ''a'', nl, CHR ''c'']" by code_simp+
  have "unified_file_diff ''f'' [CHR ''a'', nl, CHR ''b''] [CHR ''a'', nl, CHR ''c''] =
     (''--- a/f'' @ [nl] @ ''+++ b/f'' @ [nl] @ ''-b'' @ [nl] @ ''+c'' @ [nl], 1, 1)" by code_simp
  with unified_diff_sound [OF v, of "''f''"] show ?thesis by blast
qed

definition aliased_edits :: "cworld \<Rightarrow> cworld" where
  "aliased_edits w0 =
     (let w1 = set_file tree_env ''/p/a'' (Some ''two'') (snd (backup_file tree_env ''s'' 1 ''/p/a'' w0))
      in set_file tree_env ''/p/a'' (Some ''three'') (snd (backup_file tree_env ''s'' 1 ''/p/./a'' w1)))"

text \<open>
  Two spellings of one file defeat the undo. A turn that edits \<open>/p/a\<close> under the names
  \<open>/p/a\<close> and \<open>/p/./a\<close> keeps two entries; they are applied in the order they were made, so the
  restore leaves the content between the two edits instead of the one before them.
\<close>

theorem restore_misses_aliased_path:
  "\<exists>w. w_files w [''p'', ''a''] = Some ''one'' \<and>
     w_files (snd (restore_to tree_env ''s'' 0 (loc_path [''p'']) (aliased_edits w))) [''p'', ''a''] = Some ''two''"
proof -
  define w0 :: cworld where
    "w0 = \<lparr>w_files = [[''p'', ''a''] \<mapsto> ''one''], w_tick = 0, c_store = (\<lambda>_. None)\<rparr>"
  note ops = no_faults_ops [OF tree_env_ok(1)]
  have abs: "is_absolute ''/p/a''" "is_absolute ''/p/./a''" by (simp_all add: is_absolute_def starts_with_def)
  have none: "turn_at (sanitize_session_id ''s'') (turn_name 1) w0 = None" by (simp add: turn_at_def w0_def)
  obtain w1 where b1: "backup_file tree_env ''s'' 1 ''/p/a'' w0 = (Inr (), w1)"
    using backup_file_effect [OF tree_env_ok(1) abs(1) disjI1 [OF none] refl surjective_pairing]
    by (metis surjective_pairing)
  note e1 = backup_file_effect [OF tree_env_ok(1) abs(1) disjI1 [OF none] refl b1]
  let ?w1 = "set_file tree_env ''/p/a'' (Some ''two'') w1"
  have r1: "readable (turn_at (sanitize_session_id ''s'') (turn_name 1) ?w1)" using e1 by simp
  obtain w2 where b2: "backup_file tree_env ''s'' 1 ''/p/./a'' ?w1 = (Inr (), w2)"
    using backup_file_effect [OF tree_env_ok(1) abs(2) disjI2 [OF r1] refl surjective_pairing]
    by (metis surjective_pairing)
  note e2 = backup_file_effect [OF tree_env_ok(1) abs(2) disjI2 [OF r1] refl b2]
  let ?w2 = "set_file tree_env ''/p/a'' (Some ''three'') w2"
  let ?log = "note_prior ''/p/./a'' (Some ''two'') (note_prior ''/p/a'' (Some ''one'') new_log)"
  have ae: "aliased_edits w0 = ?w2" by (simp add: aliased_edits_def b1 b2)
  have log: "log_of (turn_at (sanitize_session_id ''s'') (turn_name 1) ?w2) = ?log"
    using e1 e2 none
    by (simp add: file_at_def tree_env_ok(2) paths_p land_loc_path w0_def log_of_def [of None] new_log_def)
  have n: "names_in (sanitize_session_id ''s'') ?w2 = [turn_name 1]"
  proof -
    have "names_in (sanitize_session_id ''s'') w0 = []" by (simp add: names_in_def w0_def)
    with e1 e2 show ?thesis by simp
  qed
  then have ts: "turns_after (sanitize_session_id ''s'') 0 ?w2 = [1]"
    by (simp add: turns_after_def turn_numbers_def map_filter_simps parse_turn_name)
  have "wf_log {''/p/a'', ''/p/./a''} ?log" by (intro wf_log_note wf_log_new) simp_all
  then have "\<forall>t \<in> set (turns_after (sanitize_session_id ''s'') 0 ?w2).
      usable {''/p/a'', ''/p/./a''} (turn_at (sanitize_session_id ''s'') (turn_name t) ?w2)"
    using e2 log by (simp add: ts usable_def)
  from restore_to_ok [OF tree_env_ok(1) refl this, of "loc_path [''p'']"] obtain k w3 where
    "restore_to tree_env ''s'' 0 (loc_path [''p'']) ?w2 = (Inr k, w3)"
    "w_files w3 = revert tree_env (loc_path [''p'']) ?log (w_files ?w2)"
    using log by (auto simp: logs_after_def ts)
  then have "w_files (snd (restore_to tree_env ''s'' 0 (loc_path [''p'']) ?w2)) [''p'', ''a''] = Some ''two''"
    by (simp add: revert_def note_prior_def Let_def new_log_def has_entry_def revert_entry_def paths_p within_p
        tree_env_ok(2) land_loc_path prior_value_def blob_name_inj)
  then show ?thesis by (intro exI [of _ w0]) (simp add: ae, simp add: w0_def)
qed

end
