(* ===== verification/PatchTool.thy ===== *)
theory PatchTool
  imports RustStr
begin

section \<open>Unified diffs (\<open>tool/apply_patch.rs\<close>)\<close>

text \<open>
  The parser of unified diffs and the application of their hunks to a file's lines. The parser
  works on the remaining lines where the code has an index into all of them. Line numbers and
  offsets are \<open>isize\<close>: 64-bit two's complement, wrapping in a release build.
\<close>

datatype patch_op = Create | Modify | Delete

datatype hunk_line = Context | Remove | Add rstr

record hunk =
  h_old_start :: nat
  h_lines :: "hunk_line list"

record file_patch =
  fp_path :: rstr
  fp_operation :: patch_op
  fp_hunks :: "hunk list"

subsection \<open>Parsing\<close>

definition parse_file_path :: "rstr \<Rightarrow> rstr \<Rightarrow> rstr" where
  "parse_file_path line pre =
     (let raw = (case strip_prefix line pre of Some r \<Rightarrow> r | None \<Rightarrow> line)
      in if starts_with raw ''a/'' \<or> starts_with raw ''b/'' then drop 2 raw else raw)"

text \<open>\<open>split(pat)\<close> for a non-empty pattern\<close>

function split_str :: "rstr \<Rightarrow> rstr \<Rightarrow> rstr list" where
  "split_str pat s =
     (case str_find s pat of
        None \<Rightarrow> [s]
      | Some i \<Rightarrow> if pat = [] then [s]
                  else take i s # split_str pat (drop (i + length pat) s))"
  by pat_completeness auto
termination
proof (relation "measure (\<lambda>(p, s). length s)")
  fix pat s i assume "str_find s pat = Some i" "pat \<noteq> []"
  then show "((pat, drop (i + length pat) s), pat, s) \<in> measure (\<lambda>(p, s). length s)"
    using str_find_Some by (cases pat) fastforce+
qed simp

declare split_str.simps [simp del]

definition stops_hunk :: "rstr \<Rightarrow> bool" where
  "stops_hunk line \<longleftrightarrow> starts_with line ''@@ '' \<or> starts_with line ''--- '' \<or> starts_with line ''diff ''"

definition no_newline_marker :: rstr where
  "no_newline_marker = CHR 0x5C # '' No newline at end of file''"

fun hunk_line_of :: "rstr \<Rightarrow> hunk_line option" where
  "hunk_line_of line =
     (if starts_with line ''-'' then Some Remove
      else case strip_prefix line ''+'' of
        Some content \<Rightarrow> Some (Add content)
      | None \<Rightarrow> if starts_with line '' '' then Some Context
                else if line = no_newline_marker then None
                else Some Context)"

declare hunk_line_of.simps [simp del]

fun hunk_body :: "rstr list \<Rightarrow> hunk_line list \<times> rstr list" where
  "hunk_body [] = ([], [])"
| "hunk_body (line # rest) =
     (if stops_hunk line then ([], line # rest)
      else let (hls, r) = hunk_body rest
           in (case hunk_line_of line of Some h \<Rightarrow> h # hls | None \<Rightarrow> hls, r))"

definition hunk_old_start :: "rstr list \<Rightarrow> nat" where
  "hunk_old_start parts =
     (let range_part = str_trim (parts ! 1);
          old_range = hd (split_char (CHR '' '') range_part);
          first = hd (split_char (CHR '','') (trim_start_matches (CHR ''-'') old_range))
      in case parse_unsigned 64 first of Some n \<Rightarrow> n | None \<Rightarrow> 1)"

definition parse_hunk :: "rstr \<Rightarrow> rstr list \<Rightarrow> rstr + hunk \<times> rstr list" where
  "parse_hunk header rest =
     (let parts = split_str ''@@'' header
      in if length parts < 3 then Inl (''Invalid hunk header: '' @ header)
         else let (hls, r) = hunk_body rest
              in Inr (\<lparr>h_old_start = hunk_old_start parts, h_lines = hls\<rparr>, r))"

lemma hunk_body_shorter: "hunk_body ls = (hs, r) \<Longrightarrow> length r \<le> length ls"
  by (induction ls arbitrary: hs r) (fastforce split: if_splits prod.splits)+

lemma parse_hunk_shorter: "parse_hunk h ls = Inr (hk, r) \<Longrightarrow> length r \<le> length ls"
  by (auto simp: parse_hunk_def Let_def hunk_body_shorter split: if_splits prod.splits)

text \<open>The hunks of one file, up to the next file header.\<close>

function parse_hunks :: "rstr list \<Rightarrow> rstr + hunk list \<times> rstr list" where
  "parse_hunks [] = Inr ([], [])"
| "parse_hunks (line # rest) =
     (if starts_with line ''--- '' \<or> starts_with line ''diff '' then Inr ([], line # rest)
      else if starts_with line ''@@ '' then
        (case parse_hunk line rest of
           Inl e \<Rightarrow> Inl e
         | Inr (hk, r) \<Rightarrow>
             (case parse_hunks r of Inl e \<Rightarrow> Inl e | Inr (hks, r') \<Rightarrow> Inr (hk # hks, r')))
      else parse_hunks rest)"
  by pat_completeness auto
termination
  by (relation "measure length") (auto dest: parse_hunk_shorter)

lemma parse_hunks_shorter: "parse_hunks ls = Inr (hks, r) \<Longrightarrow> length r \<le> length ls"
proof (induction ls arbitrary: hks r rule: parse_hunks.induct)
  case (2 line rest)
  then show ?case
    by (fastforce dest: parse_hunk_shorter split: if_splits sum.splits prod.splits)
qed simp

definition patch_op_of :: "rstr \<Rightarrow> rstr \<Rightarrow> patch_op" where
  "patch_op_of old_path new_path =
     (if old_path = ''/dev/null'' then Create
      else if new_path = ''/dev/null'' then Delete else Modify)"

function parse_file_patches :: "rstr list \<Rightarrow> rstr + file_patch list" where
  "parse_file_patches [] = Inr []"
| "parse_file_patches [line] = Inr []"
| "parse_file_patches (line # line2 # rest) =
     (if starts_with line ''--- '' \<and> starts_with line2 ''+++ '' then
        let old_path = parse_file_path line ''--- ''; new_path = parse_file_path line2 ''+++ '';
            operation = patch_op_of old_path new_path
        in (case parse_hunks rest of
              Inl e \<Rightarrow> Inl e
            | Inr (hunks, r) \<Rightarrow>
                (case parse_file_patches r of
                   Inl e \<Rightarrow> Inl e
                 | Inr fps \<Rightarrow>
                     Inr (\<lparr>fp_path = (if operation = Create then new_path else old_path),
                           fp_operation = operation, fp_hunks = hunks\<rparr> # fps)))
      else parse_file_patches (line2 # rest))"
  by pat_completeness auto
termination
  by (relation "measure length") (auto dest: parse_hunks_shorter)

definition parse_unified_diff :: "rstr \<Rightarrow> rstr + file_patch list" where
  "parse_unified_diff patch = parse_file_patches (str_lines patch)"

subsection \<open>Applying\<close>

definition isize :: "int \<Rightarrow> int" where
  "isize n = (n + 2 ^ 63) mod 2 ^ 64 - 2 ^ 63"

text \<open>The loop over one hunk's lines: the file's lines, the position, removals and additions.\<close>

fun apply_hunk_lines ::
  "hunk_line list \<Rightarrow> rstr list \<Rightarrow> nat \<Rightarrow> nat \<Rightarrow> nat \<Rightarrow> rstr list \<times> nat \<times> nat" where
  "apply_hunk_lines [] lines pos removals additions = (lines, removals, additions)"
| "apply_hunk_lines (Context # hs) lines pos removals additions =
     apply_hunk_lines hs lines (pos + 1) removals additions"
| "apply_hunk_lines (Remove # hs) lines pos removals additions =
     (if pos < length lines
      then apply_hunk_lines hs (take pos lines @ drop (pos + 1) lines) pos (removals + 1) additions
      else apply_hunk_lines hs lines pos removals additions)"
| "apply_hunk_lines (Add txt # hs) lines pos removals additions =
     (if pos \<le> length lines
      then apply_hunk_lines hs (take pos lines @ txt # drop pos lines) (pos + 1) removals (additions + 1)
      else apply_hunk_lines hs lines pos removals additions)"

fun apply_hunk_list :: "hunk list \<Rightarrow> rstr list \<Rightarrow> int \<Rightarrow> (nat \<times> int) + rstr list" where
  "apply_hunk_list [] lines off = Inr lines"
| "apply_hunk_list (h # hs) lines off =
     (let raw = isize (isize (isize (int (h_old_start h)) - 1) + off)
      in if raw < 0 then Inl (h_old_start h, raw)
         else case apply_hunk_lines (h_lines h) lines (nat raw) 0 0 of
           (lines', removals, additions) \<Rightarrow>
             apply_hunk_list hs lines' (isize (off + isize (int additions - int removals))))"

definition int_str :: "int \<Rightarrow> rstr" where
  "int_str i = (if i < 0 then CHR ''-'' # nat_str (nat (- i)) else nat_str (nat i))"

definition with_trailing_newline :: "rstr \<Rightarrow> rstr \<Rightarrow> rstr" where
  "with_trailing_newline content result =
     (if ends_with content [nl] \<and> \<not> ends_with result [nl] then result @ [nl] else result)"

definition apply_hunks :: "rstr \<Rightarrow> hunk list \<Rightarrow> rstr + rstr" where
  "apply_hunks content hunks =
     (case apply_hunk_list hunks (str_lines content) 0 of
        Inl (n, raw) \<Rightarrow> Inl (''Hunk at old_start='' @ nat_str n @ '' produces negative offset ('' @
          int_str raw @ '') '' @ [CHR 0xE2, CHR 0x80, CHR 0x94] @ '' patch is invalid'')
      | Inr lines \<Rightarrow> Inr (with_trailing_newline content (join [nl] lines)))"

definition added_lines :: "hunk_line list \<Rightarrow> rstr list" where
  "added_lines hls = List.map_filter (\<lambda>h. case h of Add t \<Rightarrow> Some t | _ \<Rightarrow> None) hls"

definition apply_hunks_to_empty :: "hunk list \<Rightarrow> rstr" where
  "apply_hunks_to_empty hunks =
     (let result = join [nl] (concat (map (\<lambda>h. added_lines (h_lines h)) hunks))
      in if result = [] then [] else result @ [nl])"

subsection \<open>Edit scripts: what a diff stands for\<close>

text \<open>
  A script is what a diff tool computes: pieces of unchanged lines (a gap), each followed by a
  hunk of kept, deleted and inserted lines, and unchanged lines at the end. It has an old and a
  new version, and it prints as hunks whose start is counted in old lines, from one; a hunk
  without any old line is numbered by the line before it, as \<open>diff\<close> and \<open>git\<close> do.
\<close>

datatype edit_line = Keep rstr | Del rstr | Ins rstr

type_synonym script = "(rstr list \<times> edit_line list) list"

fun old_lines :: "edit_line list \<Rightarrow> rstr list" where
  "old_lines [] = []"
| "old_lines (Keep l # es) = l # old_lines es"
| "old_lines (Del l # es) = l # old_lines es"
| "old_lines (Ins l # es) = old_lines es"

fun new_lines :: "edit_line list \<Rightarrow> rstr list" where
  "new_lines [] = []"
| "new_lines (Keep l # es) = l # new_lines es"
| "new_lines (Del l # es) = new_lines es"
| "new_lines (Ins l # es) = l # new_lines es"

fun hunk_line_for :: "edit_line \<Rightarrow> hunk_line" where
  "hunk_line_for (Keep l) = Context"
| "hunk_line_for (Del l) = Remove"
| "hunk_line_for (Ins l) = Add l"

definition script_old :: "script \<Rightarrow> rstr list \<Rightarrow> rstr list" where
  "script_old s final = concat (map (\<lambda>(g, b). g @ old_lines b) s) @ final"

definition script_new :: "script \<Rightarrow> rstr list \<Rightarrow> rstr list" where
  "script_new s final = concat (map (\<lambda>(g, b). g @ new_lines b) s) @ final"

fun script_hunks :: "nat \<Rightarrow> script \<Rightarrow> hunk list" where
  "script_hunks n [] = []"
| "script_hunks n ((g, b) # s) =
     \<lparr>h_old_start = n + length g + (if old_lines b = [] then 0 else 1), h_lines = map hunk_line_for b\<rparr>
     # script_hunks (n + length g + length (old_lines b)) s"

definition dels :: "edit_line list \<Rightarrow> nat" where
  "dels b = length (filter (\<lambda>e. case e of Del _ \<Rightarrow> True | _ \<Rightarrow> False) b)"

definition inss :: "edit_line list \<Rightarrow> nat" where
  "inss b = length (filter (\<lambda>e. case e of Ins _ \<Rightarrow> True | _ \<Rightarrow> False) b)"

lemma dels_inss_simps [simp]:
  "dels [] = 0" "dels (Keep l # b) = dels b" "dels (Del l # b) = Suc (dels b)" "dels (Ins l # b) = dels b"
  "inss [] = 0" "inss (Keep l # b) = inss b" "inss (Del l # b) = inss b" "inss (Ins l # b) = Suc (inss b)"
  by (simp_all add: dels_def inss_def)

lemma apply_hunk_lines_script:
  "apply_hunk_lines (map hunk_line_for b) (P @ old_lines b @ T) (length P) r a =
     (P @ new_lines b @ T, r + dels b, a + inss b)"
proof (induction b arbitrary: P r a)
  case (Cons e b)
  show ?case
  proof (cases e)
    case (Keep l)
    with Cons [of "P @ [l]" r a] show ?thesis by simp
  next
    case (Del l)
    with Cons [of P "Suc r" a] show ?thesis by simp
  next
    case (Ins l)
    with Cons [of "P @ [l]" r "Suc a"] show ?thesis by simp
  qed
qed simp

lemma length_new_lines: "length (new_lines b) + dels b = length (old_lines b) + inss b"
  by (induction b rule: old_lines.induct) auto

lemma isize_id: "- (2 ^ 63) \<le> n \<Longrightarrow> n < 2 ^ 63 \<Longrightarrow> isize n = n"
  by (simp add: isize_def)

lemma dels_le: "dels b \<le> length (old_lines b)" "inss b \<le> length (new_lines b)"
  by (induction b rule: old_lines.induct) auto

lemma apply_hunk_list_script:
  assumes "\<forall>(g, b) \<in> set s. old_lines b \<noteq> []"
    and "n + length (script_old s final) < 2 ^ 62" "length P + length (script_new s final) < 2 ^ 62"
  shows "apply_hunk_list (script_hunks n s) (P @ script_old s final) (int (length P) - int n) =
    Inr (P @ script_new s final)"
  using assms
proof (induction s arbitrary: n P)
  case Nil
  then show ?case by (simp add: script_old_def script_new_def)
next
  case (Cons gb s)
  obtain g b where gb: "gb = (g, b)" by fastforce
  let ?T = "script_old s final" and ?N = "script_new s final"
  have old: "script_old (gb # s) final = g @ old_lines b @ ?T"
    and new: "script_new (gb # s) final = g @ new_lines b @ ?N"
    using gb by (simp_all add: script_old_def script_new_def)
  have ne: "old_lines b \<noteq> []" using Cons.prems(1) gb by auto
  let ?start = "int (n + length g + 1)" and ?off = "int (length P) - int n"
  have b: "n + length g + length (old_lines b) + length ?T < 2 ^ 62"
    "length P + length g + length (new_lines b) + length ?N < 2 ^ 62"
    using Cons.prems(2,3) old new by simp_all
  then have raw: "isize (isize (isize ?start - 1) + ?off) = int (length P + length g)"
    by (simp add: isize_id)
  have off: "isize (?off + isize (int (inss b) - int (dels b))) =
      int (length (P @ g @ new_lines b)) - int (n + length g + length (old_lines b))"
    using b dels_le [of b] length_new_lines [of b] by (simp add: isize_id)
  have "apply_hunk_lines (map hunk_line_for b) (P @ g @ old_lines b @ ?T) (length P + length g) 0 0 =
      (P @ g @ new_lines b @ ?T, dels b, inss b)"
    using apply_hunk_lines_script [of b "P @ g" ?T 0 0] by simp
  moreover have "apply_hunk_list (script_hunks (n + length g + length (old_lines b)) s)
      ((P @ g @ new_lines b) @ ?T)
      (int (length (P @ g @ new_lines b)) - int (n + length g + length (old_lines b))) =
      Inr ((P @ g @ new_lines b) @ ?N)"
    using Cons.prems(1) b by (intro Cons.IH) auto
  ultimately show ?case
    using ne raw off unfolding gb old [unfolded gb] new [unfolded gb] by (simp add: nat_int_add)
qed

subsection \<open>From text to text\<close>

definition unlines :: "rstr list \<Rightarrow> rstr" where
  "unlines ls = concat (map (\<lambda>l. l @ [nl]) ls)"

definition plain_line :: "rstr \<Rightarrow> bool" where
  "plain_line l \<longleftrightarrow> nl \<notin> set l \<and> cr \<notin> set l"

lemma unlines_simps [simp]: "unlines [] = []" "unlines (l # ls) = l @ nl # unlines ls"
    "unlines (xs @ ys) = unlines xs @ unlines ys"
  by (simp_all add: unlines_def)

lemma str_lines_unlines: "\<forall>l \<in> set ls. plain_line l \<Longrightarrow> str_lines (unlines ls) = ls"
  by (induction ls) (auto simp: plain_line_def str_lines_Cons_line strip_cr_id)

lemma unlines_join: "ls \<noteq> [] \<Longrightarrow> unlines ls = join [nl] ls @ [nl]"
  by (induction ls) (auto simp: join_Cons)

lemma unlines_ends: "ls \<noteq> [] \<Longrightarrow> ends_with (unlines ls) [nl]"
  by (simp add: unlines_join ends_with_def)

lemma ends_with_char: "ends_with s [c] \<longleftrightarrow> s \<noteq> [] \<and> last s = c"
  by (cases s rule: rev_cases) (auto simp: ends_with_def)

lemma join_ends_nl:
  "ls \<noteq> [] \<Longrightarrow> \<forall>l \<in> set ls. nl \<notin> set l \<Longrightarrow> last ls \<noteq> [] \<Longrightarrow> \<not> ends_with (join [nl] ls) [nl]"
proof (induction ls)
  case (Cons l ls)
  show ?case
  proof (cases "ls = []")
    case True
    with Cons.prems show ?thesis by (simp add: ends_with_char) (metis last_in_set)
  next
    case False
    with Cons have "\<not> ends_with (join [nl] ls) [nl]" by simp
    moreover have "join [nl] ls \<noteq> []"
      using False Cons.prems by (cases ls) (auto simp: join_Cons split: if_splits)
    ultimately show ?thesis using False
      by (simp add: join_Cons ends_with_char)
  qed
qed simp

lemma apply_hunks_script:
  assumes "\<forall>(g, b) \<in> set s. old_lines b \<noteq> []"
    and "length (script_old s final) < 2 ^ 62" "length (script_new s final) < 2 ^ 62"
    and "\<forall>l \<in> set (script_old s final) \<union> set (script_new s final). plain_line l"
    and "script_old s final \<noteq> []" "script_new s final \<noteq> []" "last (script_new s final) \<noteq> []"
  shows "apply_hunks (unlines (script_old s final)) (script_hunks 0 s) = Inr (unlines (script_new s final))"
proof -
  have "apply_hunk_list (script_hunks 0 s) (script_old s final) 0 = Inr (script_new s final)"
    using apply_hunk_list_script [of s 0 final "[]"] assms(1,2,3) by simp
  moreover have "\<not> ends_with (join [nl] (script_new s final)) [nl]"
    using assms(4,6,7) by (intro join_ends_nl) (auto simp: plain_line_def)
  moreover have "str_lines (unlines (script_old s final)) = script_old s final"
    using assms(4) by (intro str_lines_unlines) simp
  ultimately show ?thesis
    using unlines_ends [OF assms(5)] unlines_join [OF assms(6)]
    by (simp add: apply_hunks_def with_trailing_newline_def)
qed

subsection \<open>Printing a diff and reading it\<close>

fun print_edit_line :: "edit_line \<Rightarrow> rstr" where
  "print_edit_line (Keep l) = CHR '' '' # l"
| "print_edit_line (Del l) = CHR ''-'' # l"
| "print_edit_line (Ins l) = CHR ''+'' # l"

definition hunk_header :: "nat \<Rightarrow> nat \<Rightarrow> nat \<Rightarrow> nat \<Rightarrow> rstr" where
  "hunk_header s c t d =
     ''@@ -'' @ nat_str s @ '','' @ nat_str c @ '' +'' @ nat_str t @ '','' @ nat_str d @ '' @@''"

text \<open>The printed lines of a script; \<open>n\<close> and \<open>m\<close> count the old and new lines before it.\<close>

fun print_hunks :: "nat \<Rightarrow> nat \<Rightarrow> script \<Rightarrow> rstr list" where
  "print_hunks n m [] = []"
| "print_hunks n m ((g, b) # s) =
     hunk_header (n + length g + (if old_lines b = [] then 0 else 1)) (length (old_lines b))
       (m + length g + (if new_lines b = [] then 0 else 1)) (length (new_lines b))
     # map print_edit_line b
     @ print_hunks (n + length g + length (old_lines b)) (m + length g + length (new_lines b)) s"

definition print_patch :: "rstr \<Rightarrow> script \<Rightarrow> rstr" where
  "print_patch path s = unlines ((''--- a/'' @ path) # (''+++ b/'' @ path) # print_hunks 0 0 s)"

text \<open>A deleted line that starts with \<open>-- \<close> prints as one that looks like a file header.\<close>

fun printable :: "edit_line \<Rightarrow> bool" where
  "printable (Keep l) = plain_line l"
| "printable (Del l) = (plain_line l \<and> \<not> starts_with l ''-- '')"
| "printable (Ins l) = plain_line l"

lemma str_find_skip: "c \<notin> set mid \<Longrightarrow> str_find (mid @ c # r) (c # p) = map_option (\<lambda>i. length mid + i) (str_find (c # r) (c # p))"
  by (induction mid) (auto simp: option.map_comp comp_def)

lemma hd_split_char: "d \<notin> set a \<Longrightarrow> hd (split_char d (a @ d # r)) = a"
proof -
  have "d \<notin> set a \<Longrightarrow> hd (split_char_from d cur (a @ d # r)) = cur @ a" for cur
    by (induction a arbitrary: cur) auto
  then show "d \<notin> set a \<Longrightarrow> hd (split_char d (a @ d # r)) = a" by (simp add: split_char_def)
qed

lemma suffix_last: "suffix w s \<Longrightarrow> w \<noteq> [] \<Longrightarrow> last s = last w"
  by (auto simp: suffix_def)

lemma trim_end_id:
  assumes "s \<noteq> []" "is_digit (last s)"
  shows "trim_end s = s"
proof -
  have "\<forall>w \<in> set ws_chars. w \<noteq> [] \<and> \<not> is_digit (last w)"
    by (simp add: ws_chars_def is_digit_def byte_val_def)
  with assms(2) suffix_last [of _ s] have "find (\<lambda>w. suffix w s) ws_chars = None"
    unfolding find_None_iff by metis
  then show ?thesis by (simp add: trim_end.simps ws_len_end_def)
qed

lemma trim_end_space: "trim_end (s @ '' '') = trim_end s"
proof -
  have "ws_len_end (s @ '' '') = 1" by (simp add: ws_len_end_def ws_chars_def suffix_def)
  then show ?thesis by (subst trim_end.simps) simp
qed

lemma trim_start_space: "trim_start (CHR '' '' # CHR ''-'' # s) = CHR ''-'' # s"
proof -
  have "ws_len (CHR '' '' # CHR ''-'' # s) = 1" "ws_len (CHR ''-'' # s) = 0"
    by (simp_all add: ws_len_def ws_chars_def)
  then show ?thesis by (simp add: trim_start.simps [of "CHR '' '' # _"] trim_start.simps [of "CHR ''-'' # _"])
qed

lemma digits_chars: "c \<in> set (nat_str n) \<Longrightarrow> c \<noteq> CHR ''@'' \<and> c \<noteq> CHR '' '' \<and> c \<noteq> CHR '','' \<and> c \<noteq> CHR ''-'' \<and> c \<noteq> nl \<and> c \<noteq> cr"
  by (drule is_digit_nat_str) (auto simp: is_digit_def byte_val_def)

lemma parse_nat_str: "n < 2 ^ 64 \<Longrightarrow> parse_unsigned 64 (nat_str n) = Some n"
  using parse_unsigned_padded [of n 64 0] by (simp add: pad_zeros_def)

lemma trim_start_matches_digits: "trim_start_matches (CHR ''-'') (CHR ''-'' # nat_str n @ r) = nat_str n @ r"
  using digits_chars [of "hd (nat_str n)" n] by (cases "nat_str n") (auto simp: trim_start_matches_def)

lemma parse_hunk_header:
  assumes "s < 2 ^ 64"
  shows "\<exists>parts. split_str ''@@'' (hunk_header s c t d) = parts \<and> length parts = 3 \<and> hunk_old_start parts = s"
proof -
  define mid where "mid = '' -'' @ nat_str s @ '','' @ nat_str c @ '' +'' @ nat_str t @ '','' @ nat_str d @ '' ''"
  have h: "hunk_header s c t d = ''@@'' @ mid @ ''@@''" by (simp add: hunk_header_def mid_def)
  have "CHR ''@'' \<notin> set mid" using digits_chars by (auto simp: mid_def)
  then have "str_find (mid @ ''@@'') ''@@'' = Some (length mid)" by (simp add: str_find_skip)
  then have m: "split_str ''@@'' (mid @ ''@@'') = [mid, []]"
    by (subst split_str.simps) (simp add: split_str.simps [of _ "[]"])
  have "split_str ''@@'' (hunk_header s c t d) = [[], mid, []]"
    unfolding h by (subst split_str.simps) (simp add: m [simplified])
  moreover have "str_trim mid = CHR ''-'' # nat_str s @ '','' @ nat_str c @ '' +'' @ nat_str t @ '','' @ nat_str d"
  proof -
    have "trim_start mid = (CHR ''-'' # nat_str s @ '','' @ nat_str c @ '' +'' @ nat_str t @ '','' @ nat_str d) @ '' ''"
      by (simp add: mid_def trim_start_space)
    moreover have "is_digit (last (nat_str d))" by (metis is_digit_nat_str last_in_set nat_str_ne)
    ultimately show ?thesis unfolding str_trim_def
      by (simp only: trim_end_space) (intro trim_end_id, simp_all)
  qed
  moreover have "hd (split_char (CHR '' '') (CHR ''-'' # nat_str s @ '','' @ nat_str c @ '' +'' @ nat_str t @ '','' @ nat_str d)) =
      CHR ''-'' # nat_str s @ '','' @ nat_str c"
    using hd_split_char [of "CHR '' ''" "CHR ''-'' # nat_str s @ '','' @ nat_str c"] digits_chars by fastforce
  moreover have "hd (split_char (CHR '','') (nat_str s @ '','' @ nat_str c)) = nat_str s"
    using hd_split_char [of "CHR '',''" "nat_str s" "nat_str c"] digits_chars by fastforce
  ultimately show ?thesis
    using trim_start_matches_digits [of s "'','' @ nat_str c"] assms
    by (simp add: hunk_old_start_def parse_nat_str)
qed

lemma stops_hunk_print: "printable e \<Longrightarrow> \<not> stops_hunk (print_edit_line e)"
  by (cases e) (auto simp: stops_hunk_def starts_with_def)

lemma hunk_line_of_print: "hunk_line_of (print_edit_line e) = Some (hunk_line_for e)"
  by (cases e) (auto simp: hunk_line_of.simps starts_with_def strip_prefix_def)

lemma hunk_body_print:
  "\<forall>e \<in> set b. printable e \<Longrightarrow> rest = [] \<or> stops_hunk (hd rest) \<Longrightarrow>
   hunk_body (map print_edit_line b @ rest) = (map hunk_line_for b, rest)"
proof (induction b)
  case Nil
  then show ?case by (cases rest) auto
next
  case (Cons e b)
  then show ?case by (simp add: stops_hunk_print hunk_line_of_print)
qed

lemma stops_header: "stops_hunk (hunk_header s c t d)" "\<not> starts_with (hunk_header s c t d) ''--- ''"
    "\<not> starts_with (hunk_header s c t d) ''diff ''" "starts_with (hunk_header s c t d) ''@@ ''"
  by (simp_all add: stops_hunk_def starts_with_def hunk_header_def)

lemma parse_hunks_print:
  assumes "\<forall>(g, b) \<in> set s. \<forall>e \<in> set b. printable e" "n + length (script_old s []) < 2 ^ 63"
  shows "parse_hunks (print_hunks n m s) = Inr (script_hunks n s, [])"
  using assms
proof (induction s arbitrary: n m)
  case (Cons gb s)
  obtain g b where gb: "gb = (g, b)" by fastforce
  let ?start = "n + length g + (if old_lines b = [] then 0 else 1)"
  let ?rest = "print_hunks (n + length g + length (old_lines b)) (m + length g + length (new_lines b)) s"
  have len: "n + length g + length (old_lines b) + length (script_old s []) < 2 ^ 63"
    using Cons.prems(2) gb by (simp add: script_old_def)
  then have st: "?start < 2 ^ 64" by simp
  have "?rest = [] \<or> stops_hunk (hd ?rest)"
    by (cases s rule: list.exhaust; cases "hd s") (auto simp: stops_header)
  with Cons.prems(1) gb have body: "hunk_body (map print_edit_line b @ ?rest) = (map hunk_line_for b, ?rest)"
    by (intro hunk_body_print) auto
  have IH: "parse_hunks ?rest = Inr (script_hunks (n + length g + length (old_lines b)) s, [])"
    using Cons.prems(1) len by (intro Cons.IH) auto
  have "parse_hunk (hunk_header ?start c t d) (map print_edit_line b @ ?rest) =
      Inr (\<lparr>h_old_start = ?start, h_lines = map hunk_line_for b\<rparr>, ?rest)" for c t d
    using parse_hunk_header [OF st, of c t d] body by (auto simp: parse_hunk_def Let_def)
  with IH show ?case unfolding gb by (simp only: print_hunks.simps parse_hunks.simps stops_header
      script_hunks.simps simp_thms if_False if_True sum.case prod.case)
qed simp

lemma plain_header: "plain_line (hunk_header s c t d)"
  using digits_chars by (auto simp: plain_line_def hunk_header_def)

lemma plain_print: "printable e \<Longrightarrow> plain_line (print_edit_line e)"
  by (cases e) (auto simp: plain_line_def)

lemma plain_print_hunks:
  "\<forall>(g, b) \<in> set s. \<forall>e \<in> set b. printable e \<Longrightarrow> \<forall>l \<in> set (print_hunks n m s). plain_line l"
  by (induction n m s rule: print_hunks.induct) (auto simp: plain_header plain_print)

lemma parse_print_patch:
  assumes "\<forall>(g, b) \<in> set s. \<forall>e \<in> set b. printable e" "length (script_old s []) < 2 ^ 63"
    and "plain_line path" "path \<noteq> ''/dev/null''"
  shows "parse_unified_diff (print_patch path s) =
    Inr [\<lparr>fp_path = path, fp_operation = Modify, fp_hunks = script_hunks 0 s\<rparr>]"
proof -
  have "str_lines (print_patch path s) = (''--- a/'' @ path) # (''+++ b/'' @ path) # print_hunks 0 0 s"
    unfolding print_patch_def using plain_print_hunks [OF assms(1)] assms(3)
    by (intro str_lines_unlines) (auto simp: plain_line_def)
  moreover have "parse_file_path (''--- a/'' @ path) ''--- '' = path" "parse_file_path (''+++ b/'' @ path) ''+++ '' = path"
    by (simp_all add: parse_file_path_def strip_prefix_def starts_with_def)
  ultimately show ?thesis
    using parse_hunks_print [OF assms(1), of 0 0] assms(2)
    by (simp add: parse_unified_diff_def starts_with_def patch_op_of_def assms(4))
qed

subsection \<open>Properties\<close>

text \<open>
  C38: The tool applies exactly what a diff says. A diff printed from any script (any number of
  hunks, each with at least one old line, and no deleted line that starts with \<open>-- \<close>) parses to
  one modification of its file, and applying it to the old version gives the new version: the
  running offset puts every hunk at its place. The new version must not end in a blank line.
\<close>

theorem patch_applies_printed_diff:
  assumes "\<forall>(g, b) \<in> set s. old_lines b \<noteq> [] \<and> (\<forall>e \<in> set b. printable e)"
    and "length (script_old s final) < 2 ^ 62" "length (script_new s final) < 2 ^ 62"
    and "\<forall>l \<in> set (script_old s final) \<union> set (script_new s final). plain_line l"
    and "script_new s final \<noteq> []" "last (script_new s final) \<noteq> []" "s \<noteq> []"
    and "plain_line path" "path \<noteq> ''/dev/null''"
  shows "\<exists>hunks. parse_unified_diff (print_patch path s) =
      Inr [\<lparr>fp_path = path, fp_operation = Modify, fp_hunks = hunks\<rparr>] \<and>
    apply_hunks (unlines (script_old s final)) hunks = Inr (unlines (script_new s final))"
proof -
  have "script_old s final \<noteq> []"
    using assms(1,7) by (cases s) (auto simp: script_old_def)
  moreover have "length (script_old s []) < 2 ^ 63" using assms(2) by (simp add: script_old_def)
  ultimately show ?thesis
    using parse_print_patch [OF _ _ assms(8,9), of s] apply_hunks_script [OF _ assms(2-4) _ assms(5,6)] assms(1)
    by (auto simp: split_beta)
qed

definition example_script :: script where
  "example_script = [([''a''], [Keep ''b'', Ins ''x'', Ins ''y'']), ([''c'', ''d''], [Del ''e'', Keep ''f''])]"

theorem patch_applies_printed_diff_witness:
  "\<exists>hunks. parse_unified_diff (print_patch ''f.txt'' example_script) =
      Inr [\<lparr>fp_path = ''f.txt'', fp_operation = Modify, fp_hunks = hunks\<rparr>] \<and>
    apply_hunks (unlines [''a'', ''b'', ''c'', ''d'', ''e'', ''f'', ''g'']) hunks =
      Inr (unlines [''a'', ''b'', ''x'', ''y'', ''c'', ''d'', ''f'', ''g''])"
  using patch_applies_printed_diff [of example_script "[''g'']" "''f.txt''"]
  by (simp add: example_script_def script_old_def script_new_def plain_line_def starts_with_def)

text \<open>
  What the previous statement excludes does go wrong. A blank last line is lost when another
  line is changed; an insertion hunk without context lines, numbered as \<open>diff\<close> numbers it, lands
  one line too early; and a hunk that deletes a line starting with \<open>-- \<close> is parsed as empty, so
  the patch reports success and changes nothing.
\<close>

theorem patch_misapplied_cases:
  "apply_hunks (unlines [''x'', '''']) (script_hunks 0 [([], [Del ''x'', Ins ''y''])]) = Inr (unlines [''y'']) \<and>
   apply_hunks (unlines [''a'', ''b'']) (script_hunks 0 [([''a''], [Ins ''x''])]) = Inr (unlines [''x'', ''a'', ''b'']) \<and>
   parse_unified_diff (print_patch ''f'' [([], [Del ''-- old'', Keep ''k''])]) =
     Inr [\<lparr>fp_path = ''f'', fp_operation = Modify, fp_hunks = [\<lparr>h_old_start = 1, h_lines = []\<rparr>]\<rparr>]"
proof (intro conjI)
  have "hunk_old_start (split_str ''@@'' (hunk_header 1 2 1 1)) = 1 \<and> length (split_str ''@@'' (hunk_header 1 2 1 1)) = 3"
    using parse_hunk_header [of 1 2 1 1] by auto
  moreover have "str_lines (print_patch ''f'' [([], [Del ''-- old'', Keep ''k''])]) =
      [''--- a/f'', ''+++ b/f'', hunk_header 1 2 1 1, ''--- old'', '' k'']"
    unfolding print_patch_def
    by (subst str_lines_unlines) (auto simp: plain_line_def plain_header [unfolded plain_line_def] numeral_2_eq_2)
  ultimately show "parse_unified_diff (print_patch ''f'' [([], [Del ''-- old'', Keep ''k''])]) =
     Inr [\<lparr>fp_path = ''f'', fp_operation = Modify, fp_hunks = [\<lparr>h_old_start = 1, h_lines = []\<rparr>]\<rparr>]"
    by (simp add: parse_unified_diff_def parse_file_path_def strip_prefix_def starts_with_def stops_header [unfolded starts_with_def]
        parse_hunk_def Let_def stops_hunk_def patch_op_of_def)
qed (simp_all add: apply_hunks_def with_trailing_newline_def ends_with_char isize_def unlines_def str_lines_def strip_cr_def)

end
