(* ===== verification/JsonValue.thy ===== *)
theory JsonValue
  imports RustStr
begin

section \<open>JSON values and argument validation (\<open>tool/schema.rs\<close>)\<close>

text \<open>
  \<open>serde_json::Value\<close> as the crates inspect it. An object is the list of its members in key
  order (the map is a \<open>BTreeMap\<close>); a number is an integer or the text of a float. Reading JSON
  text is \<open>serde_json\<close>'s work and an argument of the definitions that need it.
  \<open>validate_args\<close> checks a tool call's arguments against the tool's schema.
\<close>

datatype json =
    JNull
  | JBool bool
  | JInt int
  | JFloat rstr
  | JStr rstr
  | JArr "json list"
  | JObj "(rstr \<times> json) list"

fun jget :: "rstr \<Rightarrow> json \<Rightarrow> json option" where
  "jget k (JObj kvs) = map_of kvs k"
| "jget k _ = None"

fun as_str :: "json \<Rightarrow> rstr option" where
  "as_str (JStr s) = Some s"
| "as_str _ = None"

fun as_bool :: "json \<Rightarrow> bool option" where
  "as_bool (JBool b) = Some b"
| "as_bool _ = None"

fun as_array :: "json \<Rightarrow> json list option" where
  "as_array (JArr xs) = Some xs"
| "as_array _ = None"

fun as_object :: "json \<Rightarrow> (rstr \<times> json) list option" where
  "as_object (JObj kvs) = Some kvs"
| "as_object _ = None"

fun as_u64 :: "json \<Rightarrow> nat option" where
  "as_u64 (JInt n) = (if 0 \<le> n \<and> n < 2 ^ 64 then Some (nat n) else None)"
| "as_u64 _ = None"

fun is_i64_or_u64 :: "json \<Rightarrow> bool" where
  "is_i64_or_u64 (JInt n) \<longleftrightarrow> - (2 ^ 63) \<le> n \<and> n < 2 ^ 64"
| "is_i64_or_u64 _ \<longleftrightarrow> False"

fun is_number :: "json \<Rightarrow> bool" where
  "is_number (JInt n) = True"
| "is_number (JFloat t) = True"
| "is_number _ = False"

text \<open>\<open>args.get(k).and_then(|v| v.as_str())\<close>\<close>

definition get_str :: "rstr \<Rightarrow> json \<Rightarrow> rstr option" where
  "get_str k v = Option.bind (jget k v) as_str"

definition get_u64 :: "rstr \<Rightarrow> json \<Rightarrow> nat option" where
  "get_u64 k v = Option.bind (jget k v) as_u64"

definition get_bool :: "rstr \<Rightarrow> json \<Rightarrow> bool option" where
  "get_bool k v = Option.bind (jget k v) as_bool"

definition get_array :: "rstr \<Rightarrow> json \<Rightarrow> json list option" where
  "get_array k v = Option.bind (jget k v) as_array"

fun json_type_name :: "json \<Rightarrow> rstr" where
  "json_type_name JNull = ''null''"
| "json_type_name (JBool _) = ''boolean''"
| "json_type_name (JInt _) = ''number''"
| "json_type_name (JFloat _) = ''number''"
| "json_type_name (JStr _) = ''string''"
| "json_type_name (JArr _) = ''array''"
| "json_type_name (JObj _) = ''object''"

subsection \<open>Validation\<close>

definition type_ok :: "rstr \<Rightarrow> json \<Rightarrow> bool" where
  "type_ok expected v =
     (if expected = ''string'' then as_str v \<noteq> None
      else if expected = ''integer'' then is_i64_or_u64 v
      else if expected = ''number'' then is_number v
      else if expected = ''boolean'' then as_bool v \<noteq> None
      else if expected = ''object'' then as_object v \<noteq> None
      else if expected = ''array'' then as_array v \<noteq> None
      else True)"

definition quoted :: "rstr \<Rightarrow> rstr" where
  "quoted s = [CHR 0x27] @ s @ [CHR 0x27]"

fun check_required :: "(rstr \<times> json) list \<Rightarrow> json list \<Rightarrow> rstr + unit" where
  "check_required args [] = Inr ()"
| "check_required args (req # reqs) =
     (case as_str req of
        Some field \<Rightarrow>
          if map_of args field = None
          then Inl (''Missing required parameter: '' @ quoted field)
          else check_required args reqs
      | None \<Rightarrow> check_required args reqs)"

fun check_types :: "(rstr \<times> json) list \<Rightarrow> (rstr \<times> json) list \<Rightarrow> rstr + unit" where
  "check_types props [] = Inr ()"
| "check_types props ((key, value) # args) =
     (case Option.bind (Option.bind (map_of props key) (jget ''type'')) as_str of
        Some expected \<Rightarrow>
          if type_ok expected value then check_types props args
          else Inl (''Parameter '' @ quoted key @ '' must be of type '' @ quoted expected @
                    '', got '' @ json_type_name value)
      | None \<Rightarrow> check_types props args)"

definition validate_args :: "json \<Rightarrow> json \<Rightarrow> rstr + unit" where
  "validate_args args schema =
     (case as_object args of
        None \<Rightarrow> Inl ''Arguments must be a JSON object''
      | Some args_obj \<Rightarrow>
          (case as_object schema of
             None \<Rightarrow> Inr ()
           | Some schema_obj \<Rightarrow>
               (case (case map_of schema_obj ''required'' of
                        Some (JArr required) \<Rightarrow> check_required args_obj required
                      | _ \<Rightarrow> Inr ()) of
                  Inl e \<Rightarrow> Inl e
                | Inr _ \<Rightarrow>
                    (case map_of schema_obj ''properties'' of
                       Some (JObj properties) \<Rightarrow> check_types properties args_obj
                     | _ \<Rightarrow> Inr ()))))"

text \<open>What acceptance means, member by member.\<close>

lemma check_required_ok:
  "check_required args reqs = Inr () \<longleftrightarrow>
     (\<forall>r \<in> set reqs. \<forall>f. as_str r = Some f \<longrightarrow> map_of args f \<noteq> None)"
  by (induction args reqs rule: check_required.induct) (auto split: option.splits)

abbreviation declared_type :: "(rstr \<times> json) list \<Rightarrow> rstr \<Rightarrow> rstr option" where
  "declared_type props key \<equiv> Option.bind (Option.bind (map_of props key) (jget ''type'')) as_str"

lemma check_types_ok:
  "check_types props args = Inr () \<longleftrightarrow>
     (\<forall>(k, v) \<in> set args. \<forall>e. declared_type props k = Some e \<longrightarrow> type_ok e v)"
  by (induction props args rule: check_types.induct) (auto split: option.splits)

lemma validate_args_ok:
  "validate_args args schema = Inr () \<longleftrightarrow>
     (\<exists>kvs. args = JObj kvs \<and>
        (\<forall>sch. schema = JObj sch \<longrightarrow>
           (\<forall>reqs. map_of sch ''required'' = Some (JArr reqs) \<longrightarrow> check_required kvs reqs = Inr ()) \<and>
           (\<forall>props. map_of sch ''properties'' = Some (JObj props) \<longrightarrow> check_types props kvs = Inr ())))"
  by (cases args; cases schema)
     (auto simp: validate_args_def split: option.splits json.splits sum.splits)

lemma validated_string:
  assumes "validate_args args (JObj sch) = Inr ()"
    and "map_of sch ''required'' = Some (JArr reqs)" "JStr f \<in> set reqs"
    and "map_of sch ''properties'' = Some (JObj props)" "declared_type props f = Some ''string''"
  shows "\<exists>s. get_str f args = Some s"
proof -
  from assms obtain kvs where kvs: "args = JObj kvs"
    "check_required kvs reqs = Inr ()" "check_types props kvs = Inr ()"
    by (auto simp: validate_args_ok)
  from kvs(2) assms(3) obtain v where v: "map_of kvs f = Some v"
    by (fastforce simp: check_required_ok)
  from v have "(f, v) \<in> set kvs" by (rule map_of_SomeD)
  with kvs(3) assms(5) have "type_ok ''string'' v" by (auto simp: check_types_ok)
  with v kvs(1) show ?thesis by (auto simp: type_ok_def get_str_def)
qed

text \<open>
  \<open>validate_args\<close> accepts exactly the objects that have every required member and whose
  members of a declared type have that type. An argument list or a string is never accepted, and
  a schema that is no object accepts every object.
\<close>

theorem validate_args_exact:
  "validate_args args schema = Inr () \<longleftrightarrow>
     (\<exists>kvs. args = JObj kvs \<and>
        (\<forall>sch. schema = JObj sch \<longrightarrow>
           (\<forall>reqs f. map_of sch ''required'' = Some (JArr reqs) \<and> JStr f \<in> set reqs \<longrightarrow>
              map_of kvs f \<noteq> None) \<and>
           (\<forall>props k v e. map_of sch ''properties'' = Some (JObj props) \<and> (k, v) \<in> set kvs \<and>
              declared_type props k = Some e \<longrightarrow> type_ok e v)))"
proof -
  have str: "as_str r = Some f \<longleftrightarrow> r = JStr f" for r f by (cases r) auto
  have A: "(\<forall>reqs. m = Some (JArr reqs) \<longrightarrow> check_required kvs reqs = Inr ()) \<longleftrightarrow>
      (\<forall>reqs f. m = Some (JArr reqs) \<and> JStr f \<in> set reqs \<longrightarrow> map_of kvs f \<noteq> None)" for m kvs
    unfolding check_required_ok str by blast
  have B: "(\<forall>props. m = Some (JObj props) \<longrightarrow> check_types props kvs = Inr ()) \<longleftrightarrow>
      (\<forall>props k v e. m = Some (JObj props) \<and> (k, v) \<in> set kvs \<and> declared_type props k = Some e \<longrightarrow> type_ok e v)"
    for m kvs
    unfolding check_types_ok by blast
  show ?thesis unfolding validate_args_ok A B ..
qed

theorem validate_args_exact_witness:
  "validate_args (JObj [(''path'', JStr ''a'')])
     (JObj [(''required'', JArr [JStr ''path'']), (''properties'', JObj [(''path'', JObj [(''type'', JStr ''string'')])])]) = Inr () \<and>
   validate_args (JObj [(''path'', JInt 1)])
     (JObj [(''required'', JArr [JStr ''path'']), (''properties'', JObj [(''path'', JObj [(''type'', JStr ''string'')])])]) \<noteq> Inr ()"
  unfolding validate_args_exact by (auto simp: type_ok_def)

end
