(* ===== verification/FileTools.thy ===== *)
theory FileTools
  imports Checkpoint EditTool PatchTool JsonValue
begin

section \<open>The tools that change files (\<open>tool/write.rs\<close>, \<open>edit.rs\<close>, \<open>apply_patch.rs\<close>, \<open>edit_plan.rs\<close>, \<open>save_plan.rs\<close>)\<close>

text \<open>
  Each tool's \<open>execute\<close> as a function from the arguments and the world to an outcome and the
  world after it. A \<open>ToolError\<close> is \<open>Failed\<close>, a panic (which aborts a release build) \<open>Panicked\<close>.
  Logging is left out. Directories are made by operations of the world that touch no file.
\<close>

record tool_result =
  tr_output :: rstr
  tr_is_error :: bool
  tr_yield_data :: "json option"
  tr_modified_files :: "rstr list"

datatype tool_outcome = Finished tool_result | Failed rstr | Panicked

definition result_success :: "rstr \<Rightarrow> tool_result" where
  "result_success output =
     \<lparr>tr_output = output, tr_is_error = False, tr_yield_data = None, tr_modified_files = []\<rparr>"

definition result_error :: "rstr \<Rightarrow> tool_result" where
  "result_error output =
     \<lparr>tr_output = output, tr_is_error = True, tr_yield_data = None, tr_modified_files = []\<rparr>"

record tool_policy =
  bash_timeout_ceiling_ms :: "nat option"
  search_timeout_ms :: "nat option"
  search_default_ignores :: bool
  codebase_search_limit :: "u32 option"
  codebase_search_chunk_bytes :: "nat option"
  codebase_graph_section_cap :: "nat option"

definition default_policy :: tool_policy where
  "default_policy =
     \<lparr>bash_timeout_ceiling_ms = None, search_timeout_ms = None, search_default_ignores = False,
      codebase_search_limit = None, codebase_search_chunk_bytes = None, codebase_graph_section_cap = None\<rparr>"

definition bench_policy :: tool_policy where
  "bench_policy =
     \<lparr>bash_timeout_ceiling_ms = Some 300000, search_timeout_ms = Some 60000, search_default_ignores = True,
      codebase_search_limit = Some 20, codebase_search_chunk_bytes = Some 2048,
      codebase_graph_section_cap = Some 50\<rparr>"

text \<open>\<open>ToolContext\<close> without its channels; the checkpoint directory is one, present or not.\<close>

record tool_context =
  tx_working_dir :: rstr
  tx_session_id :: rstr
  tx_tool_call_id :: rstr
  tx_checkpoint_dir :: "rstr option"
  tx_checkpoint_turn :: u32
  tx_policy :: tool_policy

definition checkpoint :: "io_env \<Rightarrow> tool_context \<Rightarrow> rstr \<Rightarrow> cworld \<Rightarrow> cworld" where
  "checkpoint env ctx path w =
     (case tx_checkpoint_dir ctx of
        None \<Rightarrow> w
      | Some _ \<Rightarrow> snd (backup_file env (tx_session_id ctx) (tx_checkpoint_turn ctx) path w))"

definition missing_parameter :: "rstr \<Rightarrow> rstr" where
  "missing_parameter p = ''Missing required parameter: '' @ p"

text \<open>\<open>if let Some(parent) = path.parent() { create_dir_all(parent)? }\<close>\<close>

definition create_parents :: "io_env \<Rightarrow> rstr \<Rightarrow> cworld \<Rightarrow> (io_error + unit) \<times> cworld" where
  "create_parents env path w =
     (case path_parent (components path) of None \<Rightarrow> (Inr (), w) | Some _ \<Rightarrow> fs_other env w)"

subsection \<open>write\<close>

definition write_execute ::
  "io_env \<Rightarrow> tool_context \<Rightarrow> json \<Rightarrow> cworld \<Rightarrow> tool_outcome \<times> cworld" where
  "write_execute env ctx args w =
     (case get_str ''filePath'' args of
        None \<Rightarrow> (Failed (missing_parameter ''filePath''), w)
      | Some file_path \<Rightarrow>
          (case get_str ''content'' args of
             None \<Rightarrow> (Failed (missing_parameter ''content''), w)
           | Some content \<Rightarrow>
               let path = resolve_path (tx_working_dir ctx) file_path
               in (case create_parents env path w of
                     (Inl e, w1) \<Rightarrow> (Failed (''Failed to create parent directories: '' @ io_text e), w1)
                   | (Inr _, w1) \<Rightarrow>
                       (case fs_write env path content (checkpoint env ctx path w1) of
                          (Inl e, w2) \<Rightarrow> (Failed (''Failed to write file: '' @ io_text e), w2)
                        | (Inr _, w2) \<Rightarrow>
                            (Finished (result_success (''Wrote '' @ nat_str (length content) @
                               '' bytes to '' @ path)), w2)))))"

subsection \<open>edit\<close>

type_synonym edit_crates = "(rstr \<Rightarrow> rstr \<Rightarrow> bool) \<times> (rstr list \<Rightarrow> rstr \<Rightarrow> rstr option)"

definition edit_execute ::
  "edit_crates \<Rightarrow> io_env \<Rightarrow> tool_context \<Rightarrow> json \<Rightarrow> cworld \<Rightarrow> tool_outcome \<times> cworld" where
  "edit_execute crates env ctx args w =
     (case get_str ''filePath'' args of
        None \<Rightarrow> (Failed (missing_parameter ''filePath''), w)
      | Some file_path \<Rightarrow>
     (case get_str ''oldString'' args of
        None \<Rightarrow> (Failed (missing_parameter ''oldString''), w)
      | Some old_string \<Rightarrow>
     (case get_str ''newString'' args of
        None \<Rightarrow> (Failed (missing_parameter ''newString''), w)
      | Some new_string \<Rightarrow>
          let replace_all = (get_bool ''replaceAll'' args = Some True);
              path = resolve_path (tx_working_dir ctx) file_path
          in if \<not> path_exists env path w
             then (Finished (result_error (''Error: File not found: '' @ path)), w)
             else if \<not> path_is_file env path w
             then (Finished (result_error (''Error: Path is not a file: '' @ path)), w)
             else case fs_read_to_string env path w of
               (Inl e, w1) \<Rightarrow> (Failed (''Failed to read file: '' @ io_text e), w1)
             | (Inr raw_content, w1) \<Rightarrow>
                 (case replace (fst crates) (snd crates) raw_content old_string new_string replace_all of
                    None \<Rightarrow> (Panicked, w1)
                  | Some (Inl e) \<Rightarrow> (Finished (result_error e), w1)
                  | Some (Inr new_content) \<Rightarrow>
                      (case fs_write env path new_content (checkpoint env ctx path w1) of
                         (Inl e, w2) \<Rightarrow> (Failed (''Failed to write file: '' @ io_text e), w2)
                       | (Inr _, w2) \<Rightarrow>
                           (Finished (result_success (''Successfully edited '' @ path @
                              (if replace_all then '' (all occurrences)'' else []))), w2))))))"

subsection \<open>apply_patch\<close>

datatype staged_action = StageWrite rstr | StageDelete | StageCreateDirs rstr

record staged =
  st_path :: rstr
  st_name :: rstr
  st_action :: staged_action

text \<open>Phase 1: every file's new contents, or the outcome to stop with; only files are read.\<close>

definition push_staged ::
  "staged \<Rightarrow> (tool_outcome + staged list) \<times> cworld \<Rightarrow> (tool_outcome + staged list) \<times> cworld" where
  "push_staged st rest = (case rest of (Inl out, w) \<Rightarrow> (Inl out, w) | (Inr sts, w) \<Rightarrow> (Inr (st # sts), w))"

fun stage_patches ::
  "io_env \<Rightarrow> os_view \<Rightarrow> tool_context \<Rightarrow> file_patch list \<Rightarrow> cworld \<Rightarrow> (tool_outcome + staged list) \<times> cworld" where
  "stage_patches env os ctx [] w = (Inr [], w)"
| "stage_patches env os ctx (fp # fps) w =
     (let name = fp_path fp; path = resolve_path (tx_working_dir ctx) name;
          push = (\<lambda>action. push_staged \<lparr>st_path = path, st_name = name, st_action = action\<rparr>)
      in if \<not> is_path_within_working_dir os (components (tx_working_dir ctx)) (components path)
         then (Inl (Finished (result_error (''Path '' @ quoted name @
                 '' is outside the working directory. Cannot apply patch.''))), w)
         else case fp_operation fp of
           Delete \<Rightarrow> push StageDelete (stage_patches env os ctx fps w)
         | Create \<Rightarrow> push (StageCreateDirs (apply_hunks_to_empty (fp_hunks fp)))
               (stage_patches env os ctx fps w)
         | Modify \<Rightarrow>
             (case fs_read_to_string env path w of
                (Inl e, w1) \<Rightarrow> (Inl (Failed (''Failed to read '' @ name @ '': '' @ io_text e)), w1)
              | (Inr content, w1) \<Rightarrow>
                  (case apply_hunks content (fp_hunks fp) of
                     Inl e \<Rightarrow> (Inl (Finished (result_error (''Failed to apply patch to '' @ name @ '': '' @ e))), w1)
                   | Inr new_content \<Rightarrow> push (StageWrite new_content) (stage_patches env os ctx fps w1))))"

text \<open>Phase 2: one file, after its backup; then all of them.\<close>

definition commit_one ::
  "io_env \<Rightarrow> tool_context \<Rightarrow> staged \<Rightarrow> cworld \<Rightarrow> (rstr + unit) \<times> cworld" where
  "commit_one env ctx st w =
     (let path = st_path st; name = st_name st; w0 = checkpoint env ctx path w
      in case st_action st of
           StageDelete \<Rightarrow>
             if path_exists env path w0 then
               (case fs_remove env path w0 of
                  (Inl e, w1) \<Rightarrow> (Inl (''Failed to delete '' @ name @ '': '' @ io_text e), w1)
                | (Inr _, w1) \<Rightarrow> (Inr (), w1))
             else (Inr (), w0)
         | StageCreateDirs content \<Rightarrow>
             (case create_parents env path w0 of
                (Inl e, w1) \<Rightarrow> (Inl (''Failed to create dirs: '' @ io_text e), w1)
              | (Inr _, w1) \<Rightarrow>
                  (case fs_write env path content w1 of
                     (Inl e, w2) \<Rightarrow> (Inl (''Failed to write '' @ name @ '': '' @ io_text e), w2)
                   | (Inr _, w2) \<Rightarrow> (Inr (), w2)))
         | StageWrite content \<Rightarrow>
             (case fs_write env path content w0 of
                (Inl e, w1) \<Rightarrow> (Inl (''Failed to write '' @ name @ '': '' @ io_text e), w1)
              | (Inr _, w1) \<Rightarrow> (Inr (), w1)))"

fun commit_all ::
  "io_env \<Rightarrow> tool_context \<Rightarrow> staged list \<Rightarrow> cworld \<Rightarrow> (rstr + unit) \<times> cworld" where
  "commit_all env ctx [] w = (Inr (), w)"
| "commit_all env ctx (st # sts) w =
     (case commit_one env ctx st w of
        (Inl e, w1) \<Rightarrow> (Inl e, w1)
      | (Inr _, w1) \<Rightarrow> commit_all env ctx sts w1)"

definition names_where :: "(staged_action \<Rightarrow> bool) \<Rightarrow> staged list \<Rightarrow> rstr list" where
  "names_where P sts = map st_name (filter (\<lambda>st. P (st_action st)) sts)"

definition patch_part :: "rstr \<Rightarrow> rstr list \<Rightarrow> rstr list" where
  "patch_part verb names =
     (if names = [] then []
      else [verb @ '' '' @ nat_str (length names) @ '' file(s) ('' @ join '', '' names @ '')''])"

definition patch_result :: "staged list \<Rightarrow> tool_result" where
  "patch_result sts =
     (let modified = names_where (\<lambda>a. case a of StageWrite _ \<Rightarrow> True | _ \<Rightarrow> False) sts;
          created = names_where (\<lambda>a. case a of StageCreateDirs _ \<Rightarrow> True | _ \<Rightarrow> False) sts;
          deleted = names_where (\<lambda>a. a = StageDelete) sts;
          parts = patch_part ''modified'' modified @ patch_part ''created'' created @
                  patch_part ''deleted'' deleted
      in (result_success (''Applied patch: '' @ join '', '' parts))
           \<lparr>tr_modified_files := modified @ created @ deleted\<rparr>)"

definition apply_patch_execute ::
  "io_env \<Rightarrow> os_view \<Rightarrow> tool_context \<Rightarrow> json \<Rightarrow> cworld \<Rightarrow> tool_outcome \<times> cworld" where
  "apply_patch_execute env os ctx args w =
     (case get_str ''patch'' args of
        None \<Rightarrow> (Failed (missing_parameter ''patch''), w)
      | Some patch_str \<Rightarrow>
          if str_trim patch_str = [] then (Finished (result_error ''Patch content is empty.''), w)
          else case parse_unified_diff patch_str of
            Inl e \<Rightarrow> (Finished (result_error (''Failed to parse patch: '' @ e)), w)
          | Inr file_patches \<Rightarrow>
              if file_patches = []
              then (Finished (result_error ''No file patches found in the input. Expected unified diff format with --- and +++ headers.''), w)
              else case stage_patches env os ctx file_patches w of
                (Inl out, w1) \<Rightarrow> (out, w1)
              | (Inr sts, w1) \<Rightarrow>
                  (case commit_all env ctx sts w1 of
                     (Inl e, w2) \<Rightarrow> (Failed e, w2)
                   | (Inr _, w2) \<Rightarrow> (Finished (patch_result sts), w2)))"

subsection \<open>What a tool run can change\<close>

text \<open>
  A run changes the world by edits only: each backs up its path (if checkpoints are on) and then
  changes that one file. This holds whichever operation fails.
\<close>

definition same_disk :: "cworld \<Rightarrow> cworld \<Rightarrow> bool" where
  "same_disk w w' \<longleftrightarrow> w_files w' = w_files w \<and> c_store w' = c_store w"

definition edits :: "io_env \<Rightarrow> tool_context \<Rightarrow> rstr \<Rightarrow> cworld \<Rightarrow> cworld \<Rightarrow> bool" where
  "edits env ctx p w w' \<longleftrightarrow> (\<exists>w1 content. same_disk w w1 \<and>
     w_files w' = (w_files (checkpoint env ctx p w1))(env_loc env p := content) \<and>
     c_store w' = c_store (checkpoint env ctx p w1))"

inductive changes :: "io_env \<Rightarrow> tool_context \<Rightarrow> rstr set \<Rightarrow> cworld \<Rightarrow> cworld \<Rightarrow> bool" for env ctx P w where
  no_change: "same_disk w w' \<Longrightarrow> changes env ctx P w w'"
| one_change: "changes env ctx P w w1 \<Longrightarrow> p \<in> P \<Longrightarrow> edits env ctx p w1 w2 \<Longrightarrow> changes env ctx P w w2"

lemma same_disk_refl [simp]: "same_disk w w"
  by (simp add: same_disk_def)

lemma same_disk_trans: "same_disk w w1 \<Longrightarrow> same_disk w1 w2 \<Longrightarrow> same_disk w w2"
  by (simp add: same_disk_def)

lemma same_disk_tick [simp]: "same_disk w (tick w)"
  by (simp add: same_disk_def)

lemma fs_same_disk:
  "fs_read env p w = (r1, w') \<Longrightarrow> same_disk w w'"
  "fs_read_to_string env p w = (r2, w') \<Longrightarrow> same_disk w w'"
  "fs_other env w = (r3, w') \<Longrightarrow> same_disk w w'"
  "create_parents env p w = (r3, w') \<Longrightarrow> same_disk w w'"
  by (auto simp: same_disk_def fs_defs create_parents_def split: prod.splits sum.splits option.splits)

lemma checkpoint_files: "w_files (checkpoint env ctx p w) = w_files w"
  using backup_file_files [OF surjective_pairing] by (auto simp: checkpoint_def split: option.splits)

lemma edits_same:
  "same_disk w w1 \<Longrightarrow> same_disk (checkpoint env ctx p w1) w' \<Longrightarrow> edits env ctx p w w'"
  unfolding edits_def
  by (rule exI [of _ w1], rule exI [of _ "w_files w1 (env_loc env p)"])
     (auto simp: same_disk_def checkpoint_files)

lemma edits_write:
  "same_disk w w1 \<Longrightarrow> same_disk (checkpoint env ctx p w1) w2 \<Longrightarrow> fs_write env p b w2 = (r, w') \<Longrightarrow>
   edits env ctx p w w'"
  unfolding edits_def fs_write_def
  by (rule exI [of _ w1]) (auto simp: same_disk_def split: option.splits)

lemma edits_remove:
  "same_disk w w1 \<Longrightarrow> fs_remove env p (checkpoint env ctx p w1) = (r, w') \<Longrightarrow> edits env ctx p w w'"
proof -
  assume a: "same_disk w w1" "fs_remove env p (checkpoint env ctx p w1) = (r, w')"
  then consider "w' = tick (checkpoint env ctx p w1)" | "w' = tick (set_file env p None (checkpoint env ctx p w1))"
    by (auto simp: fs_remove_def split: option.splits if_splits)
  then show ?thesis
  proof cases
    case 1
    with a show ?thesis by (auto intro: edits_same)
  next
    case 2
    then show ?thesis unfolding edits_def by (intro exI [of _ w1] exI [of _ None]) (simp add: a)
  qed
qed

lemma edits_changes: "p \<in> P \<Longrightarrow> edits env ctx p w w' \<Longrightarrow> changes env ctx P w w'"
  by (rule one_change [OF no_change]) simp_all

lemma changes_mono: "changes env ctx P w w' \<Longrightarrow> P \<subseteq> Q \<Longrightarrow> changes env ctx Q w w'"
  by (induction rule: changes.induct) (auto intro: changes.intros)

lemma changes_trans: "changes env ctx P w1 w2 \<Longrightarrow> changes env ctx P w w1 \<Longrightarrow> changes env ctx P w w2"
proof (induction rule: changes.induct)
  case (no_change w')
  from no_change(2) show ?case
  proof cases
    case no_change
    with \<open>same_disk w1 w'\<close> show ?thesis by (auto intro: changes.no_change same_disk_trans)
  next
    case (one_change w0 p)
    with \<open>same_disk w1 w'\<close> have "edits env ctx p w0 w'" by (auto simp: edits_def same_disk_def)
    with one_change show ?thesis by (auto intro: changes.one_change)
  qed
qed (auto intro: one_change)

lemma changes_only: "changes env ctx P w w' \<Longrightarrow> w_files w' l \<noteq> w_files w l \<Longrightarrow> \<exists>p \<in> P. env_loc env p = l"
proof (induction rule: changes.induct)
  case (one_change w1 p w2)
  then obtain w0 c where e: "same_disk w1 w0" "w_files w2 = (w_files w0)(env_loc env p := c)"
    by (auto simp: edits_def checkpoint_files)
  show ?case
  proof (cases "env_loc env p = l")
    case False
    with e one_change show ?thesis by (auto simp: same_disk_def)
  qed (use one_change in blast)
qed (simp add: same_disk_def)

definition args_path :: "tool_context \<Rightarrow> json \<Rightarrow> rstr set" where
  "args_path ctx args =
     (case get_str ''filePath'' args of None \<Rightarrow> {} | Some f \<Rightarrow> {resolve_path (tx_working_dir ctx) f})"

lemma write_changes:
  "write_execute env ctx args w = (out, w') \<Longrightarrow> changes env ctx (args_path ctx args) w w'"
  unfolding write_execute_def args_path_def Let_def
  by (auto split: option.splits prod.splits sum.splits
      intro: no_change edits_changes edits_write [OF _ same_disk_refl] dest: fs_same_disk)

lemma edit_changes:
  "edit_execute crates env ctx args w = (out, w') \<Longrightarrow> changes env ctx (args_path ctx args) w w'"
  unfolding edit_execute_def args_path_def Let_def
  by (auto split: option.splits prod.splits sum.splits if_splits
      intro: no_change edits_changes edits_write [OF _ same_disk_refl] dest: fs_same_disk)

lemma commit_one_changes:
  assumes "commit_one env ctx st w = (r, w')"
  shows "edits env ctx (st_path st) w w'"
proof (cases "st_action st")
  case StageDelete
  with assms show ?thesis
    by (auto simp: commit_one_def Let_def split: if_splits prod.splits sum.splits
        intro: edits_remove [OF same_disk_refl] edits_same [OF same_disk_refl])
next
  case (StageWrite c)
  with assms show ?thesis
    by (auto simp: commit_one_def Let_def split: prod.splits sum.splits
        intro: edits_write [OF same_disk_refl same_disk_refl])
next
  case (StageCreateDirs c)
  with assms show ?thesis
    by (auto simp: commit_one_def Let_def split: prod.splits sum.splits
        intro: edits_write [OF same_disk_refl] edits_same [OF same_disk_refl] dest!: fs_same_disk(4))
qed

lemma commit_all_changes:
  "commit_all env ctx sts w = (r, w') \<Longrightarrow> changes env ctx (st_path ` set sts) w w'"
proof (induction sts arbitrary: w)
  case (Cons st sts)
  obtain r1 w1 where 1: "commit_one env ctx st w = (r1, w1)" by fastforce
  from commit_one_changes [OF 1] have c1: "changes env ctx (st_path ` set (st # sts)) w w1"
    by (auto intro: edits_changes)
  show ?case
  proof (cases r1)
    case (Inr u)
    with 1 Cons.prems have "commit_all env ctx sts w1 = (r, w')" by simp
    from changes_trans [OF changes_mono [OF Cons.IH [OF this]] c1] show ?thesis by auto
  qed (use 1 Cons.prems c1 in simp)
qed (simp add: no_change)

definition staged_ok :: "os_view \<Rightarrow> tool_context \<Rightarrow> file_patch list \<Rightarrow> staged \<Rightarrow> bool" where
  "staged_ok os ctx fps st \<longleftrightarrow>
     st_path st \<in> resolve_path (tx_working_dir ctx) ` fp_path ` set fps \<and>
     is_path_within_working_dir os (components (tx_working_dir ctx)) (components (st_path st))"

lemma stage_patches_same:
  "stage_patches env os ctx fps w = (r, w') \<Longrightarrow> same_disk w w' \<and>
   (\<forall>sts. r = Inr sts \<longrightarrow> (\<forall>st \<in> set sts. staged_ok os ctx fps st))"
proof (induction fps arbitrary: w r w')
  case (Cons fp fps)
  let ?path = "resolve_path (tx_working_dir ctx) (fp_path fp)"
  have push: "same_disk w w' \<and> (\<forall>sts. r = Inr sts \<longrightarrow> (\<forall>st \<in> set sts. staged_ok os ctx (fp # fps) st))"
    if "push_staged st0 (stage_patches env os ctx fps w1) = (r, w')" "st_path st0 = ?path" "same_disk w w1"
      "is_path_within_working_dir os (components (tx_working_dir ctx)) (components ?path)" for st0 w1
  proof -
    obtain r2 w2 where 2: "stage_patches env os ctx fps w1 = (r2, w2)" by fastforce
    from Cons.IH [OF 2] 2 that show ?thesis
      by (cases r2) (auto simp: push_staged_def staged_ok_def intro: same_disk_trans)
  qed
  show ?case
  proof (cases "is_path_within_working_dir os (components (tx_working_dir ctx)) (components ?path)")
    case inside: True
    show ?thesis
    proof (cases "fp_operation fp")
      case Modify
      obtain r1 w1 where 1: "fs_read_to_string env ?path w = (r1, w1)" by fastforce
      note d = fs_same_disk(2) [OF 1]
      show ?thesis
      proof (cases "\<exists>c n. r1 = Inr c \<and> apply_hunks c (fp_hunks fp) = Inr n")
        case True
        then obtain c n where "r1 = Inr c" "apply_hunks c (fp_hunks fp) = Inr n" by blast
        with Cons.prems Modify inside 1 have
          "push_staged \<lparr>st_path = ?path, st_name = fp_path fp, st_action = StageWrite n\<rparr>
             (stage_patches env os ctx fps w1) = (r, w')" by (simp add: Let_def)
        from push [OF this _ d inside] show ?thesis by simp
      next
        case False
        with Cons.prems Modify inside 1 d show ?thesis by (auto simp: Let_def split: sum.splits)
      qed
    next
      case Create
      with Cons.prems inside have "push_staged \<lparr>st_path = ?path, st_name = fp_path fp,
          st_action = StageCreateDirs (apply_hunks_to_empty (fp_hunks fp))\<rparr> (stage_patches env os ctx fps w) = (r, w')"
        by (simp add: Let_def)
      from push [OF this _ same_disk_refl inside] show ?thesis by simp
    next
      case Delete
      with Cons.prems inside have "push_staged \<lparr>st_path = ?path, st_name = fp_path fp,
          st_action = StageDelete\<rparr> (stage_patches env os ctx fps w) = (r, w')" by (simp add: Let_def)
      from push [OF this _ same_disk_refl inside] show ?thesis by simp
    qed
  qed (use Cons.prems in auto)
qed simp

lemma apply_patch_changes:
  assumes "apply_patch_execute env os ctx args w = (out, w')"
  shows "\<exists>fps. changes env ctx {p. \<exists>st. p = st_path st \<and> staged_ok os ctx fps st} w w' \<and>
     (fps \<noteq> [] \<longrightarrow> (\<exists>patch. get_str ''patch'' args = Some patch \<and> parse_unified_diff patch = Inr fps))"
proof (cases "\<exists>patch fps. get_str ''patch'' args = Some patch \<and> parse_unified_diff patch = Inr fps \<and>
    str_trim patch \<noteq> [] \<and> fps \<noteq> []")
  case True
  then obtain patch fps where p: "get_str ''patch'' args = Some patch" "parse_unified_diff patch = Inr fps"
    "str_trim patch \<noteq> []" "fps \<noteq> []" by blast
  obtain r1 w1 where 1: "stage_patches env os ctx fps w = (r1, w1)" by fastforce
  note s = stage_patches_same [OF 1]
  have "changes env ctx {p. \<exists>st. p = st_path st \<and> staged_ok os ctx fps st} w w'"
  proof (cases r1)
    case (Inr sts)
    obtain r2 w2 where 2: "commit_all env ctx sts w1 = (r2, w2)" by fastforce
    with assms p 1 Inr have w': "w' = w2" by (auto simp: apply_patch_execute_def split: sum.splits)
    have c: "changes env ctx (st_path ` set sts) w w2"
      using s by (intro changes_trans [OF commit_all_changes [OF 2]] no_change) simp
    have "st_path ` set sts \<subseteq> {p. \<exists>st. p = st_path st \<and> staged_ok os ctx fps st}"
      using s Inr by blast
    from changes_mono [OF c this] w' show ?thesis by simp
  next
    case (Inl out)
    with assms p 1 have "w' = w1" by (simp add: apply_patch_execute_def)
    with s show ?thesis by (simp add: no_change)
  qed
  with p show ?thesis by blast
next
  case False
  then have "w' = w"
  proof (cases "get_str ''patch'' args")
    case (Some patch)
    show ?thesis
    proof (cases "parse_unified_diff patch")
      case (Inl e)
      with Some assms show ?thesis by (simp add: apply_patch_execute_def split: if_splits)
    next
      case (Inr fps)
      with Some False have "str_trim patch = [] \<or> fps = []" by blast
      with Inr Some assms show ?thesis by (auto simp: apply_patch_execute_def split: if_splits)
    qed
  qed (use assms in \<open>simp add: apply_patch_execute_def\<close>)
  then show ?thesis by (intro exI [of _ "[]"]) (simp add: no_change)
qed

subsection \<open>Properties\<close>

lemma path_exists_checkpoint: "path_exists env p (checkpoint env ctx q w) = path_exists env p w"
    "file_at env (checkpoint env ctx q w) p = file_at env w p"
  by (simp_all add: path_exists_def file_at_def checkpoint_files)

lemma commit_one_ok:
  assumes "no_faults env" "\<forall>l. \<not> env_dir env l"
  shows "fst (commit_one env ctx st w) = Inr ()"
  using assms(2) unfolding commit_one_def Let_def
  by (cases "st_action st")
     (auto simp: no_faults_ops [OF assms(1)] create_parents_def path_exists_def split: option.splits)

lemma commit_all_ok:
  assumes "no_faults env" "\<forall>l. \<not> env_dir env l"
  shows "fst (commit_all env ctx sts w) = Inr ()"
proof (induction sts arbitrary: w)
  case (Cons st sts)
  obtain r1 w1 where "commit_one env ctx st w = (r1, w1)" by fastforce
  with commit_one_ok [OF assms, of ctx st w] Cons show ?case by simp
qed simp


definition plain_ctx :: tool_context where
  "plain_ctx = \<lparr>tx_working_dir = ''/p'', tx_session_id = ''s'', tx_tool_call_id = ''t'',
     tx_checkpoint_dir = Some ''/c'', tx_checkpoint_turn = 1, tx_policy = default_policy\<rparr>"

definition bad_patch :: rstr where
  "bad_patch = ''--- /dev/null'' @ [nl] @ ''+++ b/new'' @ [nl] @ ''@@ x @@'' @ [nl] @ ''+hi'' @ [nl] @
     ''--- a/gone'' @ [nl] @ ''+++ b/gone'' @ [nl] @ ''@@ x @@'' @ [nl] @ ''-a'' @ [nl]"

definition p_os :: os_view where
  "p_os = tree_os (\<lambda>l. l = [] \<or> l = [''p''])"

lemma bad_patch_parse:
  "parse_unified_diff bad_patch =
     Inr [\<lparr>fp_path = ''new'', fp_operation = Create, fp_hunks = [\<lparr>h_old_start = 1, h_lines = [Add ''hi'']\<rparr>]\<rparr>,
          \<lparr>fp_path = ''gone'', fp_operation = Modify, fp_hunks = [\<lparr>h_old_start = 1, h_lines = [Remove]\<rparr>]\<rparr>]"
  by code_simp

lemma p_os_guard:
  "is_path_within_working_dir p_os (components ''/p'') (components (resolve_path ''/p'' ''new''))"
  "is_path_within_working_dir p_os (components ''/p'') (components (resolve_path ''/p'' ''gone''))"
  "is_path_within_working_dir p_os (components ''/p'') (components (resolve_path ''/p'' ''new/../../x''))"
  by code_simp+


text \<open>
  A patch stays in the project: in a directory tree without symbolic links, every file it
  changes lies below the working directory, whichever operation fails, provided no path of the
  patch has a \<open>..\<close> component.
\<close>

theorem patch_stays_in_project:
  assumes "env_loc env = (\<lambda>p. land [] (components p))" "os = tree_os present"
    and "walk present [] (components (tx_working_dir ctx)) = Some r"
    and "apply_patch_execute env os ctx args w = (out, w')" "w_files w' l \<noteq> w_files w l"
    and "\<forall>patch fps. get_str ''patch'' args = Some patch \<and> parse_unified_diff patch = Inr fps \<longrightarrow>
           (\<forall>fp \<in> set fps. ParentDir \<notin> set (components (resolve_path (tx_working_dir ctx) (fp_path fp))))"
  shows "prefix r l"
proof -
  from apply_patch_changes [OF assms(4)] obtain fps where
    c: "changes env ctx {p. \<exists>st. p = st_path st \<and> staged_ok os ctx fps st} w w'" and
    f: "fps \<noteq> [] \<longrightarrow> (\<exists>patch. get_str ''patch'' args = Some patch \<and> parse_unified_diff patch = Inr fps)" by blast
  from changes_only [OF c assms(5)] obtain st where
    st: "staged_ok os ctx fps st" "env_loc env (st_path st) = l" by blast
  then obtain fp where fp: "fp \<in> set fps" "st_path st = resolve_path (tx_working_dir ctx) (fp_path fp)"
    by (auto simp: staged_ok_def)
  with f assms(6) have "ParentDir \<notin> set (components (st_path st))" by fastforce
  with guard_keeps_inside [OF _ assms(3)] st assms(1,2) show ?thesis by (auto simp: staged_ok_def)
qed

definition new_file_patch :: "rstr \<Rightarrow> rstr" where
  "new_file_patch path =
     ''--- /dev/null'' @ [nl] @ ''+++ b/'' @ path @ [nl] @ ''@@ x @@'' @ [nl] @ ''+hi'' @ [nl]"

lemma new_file_patch_run:
  assumes "str_trim (new_file_patch path) \<noteq> []"
    and "parse_unified_diff (new_file_patch path) =
     Inr [\<lparr>fp_path = path, fp_operation = Create, fp_hunks = [\<lparr>h_old_start = 1, h_lines = [Add ''hi'']\<rparr>]\<rparr>]"
    and "is_path_within_working_dir p_os (components ''/p'') (components (resolve_path ''/p'' path))"
    and "path_parent (components (resolve_path ''/p'' path)) \<noteq> None"
  shows "\<exists>r w'. apply_patch_execute tree_env p_os plain_ctx (JObj [(''patch'', JStr (new_file_patch path))]) one_file_world =
      (Finished r, w') \<and> \<not> tr_is_error r \<and>
    w_files w' = (w_files one_file_world)(land [] (components (resolve_path ''/p'' path)) := Some (''hi'' @ [nl]))"
proof -
  have "apply_hunks_to_empty [\<lparr>h_old_start = 1, h_lines = [Add ''hi'']\<rparr>] = ''hi'' @ [nl]"
    by (simp add: apply_hunks_to_empty_def added_lines_def map_filter_simps)
  moreover have "tx_working_dir plain_ctx = ''/p''" by (simp add: plain_ctx_def)
  ultimately show ?thesis using assms
    by (auto simp: apply_patch_execute_def get_str_def push_staged_def commit_one_def create_parents_def Let_def
        no_faults_ops [OF tree_env_ok(1)] patch_result_def result_success_def checkpoint_files tree_env_ok(2))
qed

theorem patch_stays_in_project_witness:
  "\<exists>w'. w_files w' [''p'', ''new''] = Some (''hi'' @ [nl]) \<and> prefix [''p''] [''p'', ''new''] \<and>
     snd (apply_patch_execute tree_env p_os plain_ctx (JObj [(''patch'', JStr (new_file_patch ''new''))]) one_file_world) = w'"
proof -
  have parse: "parse_unified_diff (new_file_patch ''new'') =
     Inr [\<lparr>fp_path = ''new'', fp_operation = Create, fp_hunks = [\<lparr>h_old_start = 1, h_lines = [Add ''hi'']\<rparr>]\<rparr>]"
    by code_simp
  have "str_trim (new_file_patch ''new'') \<noteq> []"
    and "path_parent (components (resolve_path ''/p'' ''new'')) \<noteq> None" by code_simp+
  from new_file_patch_run [OF this(1) parse p_os_guard(1) this(2)] obtain r w' where
    r: "apply_patch_execute tree_env p_os plain_ctx (JObj [(''patch'', JStr (new_file_patch ''new''))]) one_file_world =
       (Finished r, w')"
    "w_files w' = (w_files one_file_world)(land [] (components (resolve_path ''/p'' ''new'')) := Some (''hi'' @ [nl]))"
    by blast
  moreover have l: "land [] (components (resolve_path ''/p'' ''new'')) = [''p'', ''new'']" by code_simp
  moreover have "prefix [''p''] [''p'', ''new'']"
  proof (rule patch_stays_in_project [OF _ _ _ r(1)])
    show "env_loc tree_env = (\<lambda>p. land [] (components p))" by (simp add: tree_env_def)
    show "p_os = tree_os (\<lambda>l. l = [] \<or> l = [''p''])" by (simp add: p_os_def)
    show "walk (\<lambda>l. l = [] \<or> l = [''p'']) [] (components (tx_working_dir plain_ctx)) = Some [''p'']" by code_simp
    show "w_files w' [''p'', ''new''] \<noteq> w_files one_file_world [''p'', ''new'']"
      by (simp add: r(2) l one_file_world_def)
    have "ParentDir \<notin> set (components (resolve_path (tx_working_dir plain_ctx) ''new''))" by code_simp
    then show "\<forall>patch fps. get_str ''patch'' (JObj [(''patch'', JStr (new_file_patch ''new''))]) = Some patch \<and>
        parse_unified_diff patch = Inr fps \<longrightarrow>
        (\<forall>fp \<in> set fps. ParentDir \<notin> set (components (resolve_path (tx_working_dir plain_ctx) (fp_path fp))))"
      by (auto simp: get_str_def parse)
  qed
  ultimately show ?thesis by (intro exI [of _ w']) simp
qed

text \<open>
  With a \<open>..\<close> after a directory that does not exist yet the guard is fooled: it looks at the
  nearest existing ancestor, which is the working directory itself, and the directories made for
  the new file lead out of it. A patch that creates \<open>new/../../x\<close> in \<open>/p\<close> writes \<open>/x\<close>.
\<close>

theorem patch_guard_bypassed:
  "\<exists>r w'. apply_patch_execute tree_env p_os plain_ctx
      (JObj [(''patch'', JStr (new_file_patch ''new/../../x''))]) one_file_world = (Finished r, w') \<and>
     \<not> tr_is_error r \<and> w_files w' [''x''] = Some (''hi'' @ [nl]) \<and> w_files one_file_world [''x''] = None"
proof -
  have parse: "parse_unified_diff (new_file_patch ''new/../../x'') =
     Inr [\<lparr>fp_path = ''new/../../x'', fp_operation = Create, fp_hunks = [\<lparr>h_old_start = 1, h_lines = [Add ''hi'']\<rparr>]\<rparr>]"
    by code_simp
  have "str_trim (new_file_patch ''new/../../x'') \<noteq> []"
    and "path_parent (components (resolve_path ''/p'' ''new/../../x'')) \<noteq> None" by code_simp+
  from new_file_patch_run [OF this(1) parse p_os_guard(3) this(2)]
  obtain r w' where "apply_patch_execute tree_env p_os plain_ctx
      (JObj [(''patch'', JStr (new_file_patch ''new/../../x''))]) one_file_world = (Finished r, w')" "\<not> tr_is_error r"
    "w_files w' = (w_files one_file_world)(land [] (components (resolve_path ''/p'' ''new/../../x'')) := Some (''hi'' @ [nl]))"
    by blast
  moreover have "land [] (components (resolve_path ''/p'' ''new/../../x'')) = [''x'']" by code_simp
  ultimately show ?thesis by (simp add: one_file_world_def)
qed

end
