(* ===== verification/AutoTypes.thy ===== *)
theory AutoTypes
  imports JsonValue
begin

section \<open>The data of Auto mode (\<open>auto/types.rs\<close>)\<close>

text \<open>
  In Auto mode an orchestrator model splits a task into a plan of workers, each an agent loop of its
  own. These are the plan, the workers' results, the persisted snapshot of a run and its terminal
  results. Their JSON encodings are left to \<open>serde\<close>.
\<close>

datatype see_prior_keyword = SeeNone | SeeAll

datatype see_prior = Keyword see_prior_keyword | Specific "rstr list"

definition default_see_prior :: see_prior where
  "default_see_prior = Keyword SeeAll"

record worker_spec =
  ws_id :: rstr
  ws_model :: rstr
  ws_prompt :: rstr
  ws_see_prior :: see_prior

record plan =
  pl_version :: u32
  pl_reasoning :: rstr
  pl_workers :: "worker_spec list"

datatype worker_status =
    WOk
  | WMaxIterations
  | WToolError rstr
  | WLlmError rstr
  | WCancelled

fun is_hard_failure :: "worker_status \<Rightarrow> bool" where
  "is_hard_failure WOk = False"
| "is_hard_failure WMaxIterations = True"
| "is_hard_failure (WToolError m) = True"
| "is_hard_failure (WLlmError m) = True"
| "is_hard_failure WCancelled = False"

record worker_result =
  wr_id :: rstr
  wr_model :: rstr
  wr_prompt :: rstr
  wr_summary :: rstr
  wr_tool_count :: u32
  wr_cost_cents :: u32
  wr_status :: worker_status

record failure_context =
  fx_worker_id :: rstr
  fx_worker_model :: rstr
  fx_worker_prompt :: rstr
  fx_error_message :: rstr

datatype auto_status =
    StPlanning
  | StAwaitingApproval
  | StRunning
  | StAwaitingFailureDecision
  | StDone
  | StFailed
  | StCancelled

record auto_run =
  ar_id :: rstr
  ar_session_id :: rstr
  ar_status :: auto_status
  ar_plan_versions :: "plan list"
  ar_worker_results :: "worker_result list"
  ar_cost_cents :: u32
  ar_replans_used :: u32
  ar_current_worker :: "worker_spec option"
  ar_pending_failure :: "failure_context option"

datatype auto_result =
    ResDone rstr auto_run
  | ResFailed rstr auto_run
  | ResCancelled auto_run rstr

fun result_run :: "auto_result \<Rightarrow> auto_run" where
  "result_run (ResDone s r) = r"
| "result_run (ResFailed m r) = r"
| "result_run (ResCancelled r p) = r"

record pool_entry =
  pe_provider_id :: rstr
  pe_model :: rstr
  pe_description :: rstr

lemma hard_or_ok: "is_hard_failure s \<or> s = WOk \<or> s = WCancelled"
  by (cases s) auto

text \<open>\<open>u32::saturating_add\<close>\<close>

definition saturating_add :: "u32 \<Rightarrow> u32 \<Rightarrow> u32" where
  "saturating_add a b = word_of_nat (min (unat a + unat b) (2 ^ 32 - 1))"

lemma unat_saturating_add: "unat (saturating_add a b) = min (unat a + unat b) (2 ^ 32 - 1)"
  by (simp add: saturating_add_def unat_of_nat take_bit_nat_eq_self)

end
