(* ===== verification/ChatTypes.thy ===== *)
theory ChatTypes
  imports AutoTypes
begin

section \<open>Messages, events and errors of the agent crate\<close>

text \<open>
  The data of \<open>llm/types.rs\<close>, \<open>types.rs\<close>, \<open>persistence.rs\<close> and \<open>error.rs\<close>: what is sent to a
  provider, what a provider answers, what the loop tells the user interface and what it persists.
  Serialising a message (\<open>serde_json::to_value\<close>) is left to the library: a persisted record holds
  the message itself.
\<close>


subsection \<open>Messages\<close>

datatype provider = OpenAI | Anthropic

record cache_control =
  cc_type :: rstr
  cc_ttl :: "rstr option"

definition ephemeral :: cache_control where
  "ephemeral = \<lparr>cc_type = ''ephemeral'', cc_ttl = Some ''1h''\<rparr>"

datatype content_block =
    TextBlock rstr "cache_control option"
  | ImageUrl rstr "rstr option"

datatype message_content =
    MText rstr
  | MBlocks "content_block list"

fun first_text :: "content_block list \<Rightarrow> rstr option" where
  "first_text [] = None"
| "first_text (TextBlock t cc # bs) = Some t"
| "first_text (ImageUrl u d # bs) = first_text bs"

fun content_text :: "message_content \<Rightarrow> rstr" where
  "content_text (MText s) = s"
| "content_text (MBlocks bs) = (case first_text bs of Some t \<Rightarrow> t | None \<Rightarrow> [])"

fun has_images :: "message_content \<Rightarrow> bool" where
  "has_images (MText s) = False"
| "has_images (MBlocks bs) = list_ex (\<lambda>b. case b of ImageUrl u d \<Rightarrow> True | _ \<Rightarrow> False) bs"

record function_call =
  fc_name :: rstr
  fc_arguments :: rstr

record tool_call =
  tc_id :: rstr
  tc_type :: rstr
  tc_function :: function_call

record chat_message =
  cm_role :: rstr
  cm_content :: "message_content option"
  cm_tool_calls :: "tool_call list option"
  cm_tool_call_id :: "rstr option"
  cm_name :: "rstr option"
  cm_thinking :: "rstr option"

definition system_msg :: "rstr \<Rightarrow> chat_message" where
  "system_msg content =
     \<lparr>cm_role = ''system'', cm_content = Some (MText content), cm_tool_calls = None,
      cm_tool_call_id = None, cm_name = None, cm_thinking = None\<rparr>"

definition user_msg :: "rstr \<Rightarrow> chat_message" where
  "user_msg content =
     \<lparr>cm_role = ''user'', cm_content = Some (MText content), cm_tool_calls = None,
      cm_tool_call_id = None, cm_name = None, cm_thinking = None\<rparr>"

definition user_with_images :: "content_block list \<Rightarrow> chat_message" where
  "user_with_images blocks =
     \<lparr>cm_role = ''user'', cm_content = Some (MBlocks blocks), cm_tool_calls = None,
      cm_tool_call_id = None, cm_name = None, cm_thinking = None\<rparr>"

definition assistant_msg ::
  "rstr option \<Rightarrow> tool_call list option \<Rightarrow> rstr option \<Rightarrow> chat_message" where
  "assistant_msg content tool_calls thinking =
     \<lparr>cm_role = ''assistant'', cm_content = map_option MText content, cm_tool_calls = tool_calls,
      cm_tool_call_id = None, cm_name = None, cm_thinking = thinking\<rparr>"

definition tool_result_msg :: "rstr \<Rightarrow> rstr \<Rightarrow> chat_message" where
  "tool_result_msg tool_call_id content =
     \<lparr>cm_role = ''tool'', cm_content = Some (MText content), cm_tool_calls = None,
      cm_tool_call_id = Some tool_call_id, cm_name = None, cm_thinking = None\<rparr>"

lemmas msg_defs = system_msg_def user_msg_def user_with_images_def assistant_msg_def
  tool_result_msg_def

definition message_text :: "chat_message \<Rightarrow> rstr" where
  "message_text m = (case cm_content m of Some c \<Rightarrow> content_text c | None \<Rightarrow> [])"

record function_definition =
  fd_name :: rstr
  fd_description :: "rstr option"
  fd_parameters :: "json option"
  fd_strict :: "bool option"

record tool_definition =
  td_type :: rstr
  td_function :: function_definition
  td_cache_control :: "cache_control option"

subsection \<open>What a provider answers\<close>

record prompt_tokens_details =
  cached_tokens :: "u32 option"
  cache_creation_tokens :: "u32 option"

record usage =
  prompt_tokens :: u32
  completion_tokens :: u32
  total_tokens :: u32
  prompt_details :: "prompt_tokens_details option"

record llm_response =
  lr_content :: "rstr option"
  lr_tool_calls :: "tool_call list"
  lr_usage :: "usage option"
  lr_finish_reason :: "rstr option"
  lr_thinking :: "rstr option"

datatype agent_error =
    LlmApiError nat rstr
  | LlmParseError rstr
  | Cancelled
  | ChunkTimeout nat
  | HeaderTimeout nat
  | HttpError rstr
  | JsonError rstr
  | IoError rstr

fun error_text :: "agent_error \<Rightarrow> rstr" where
  "error_text (LlmApiError status body) =
     ''LLM API error (status '' @ nat_str status @ ''): '' @ body"
| "error_text (LlmParseError m) = ''LLM parse error: '' @ m"
| "error_text Cancelled = ''Agent cancelled''"
| "error_text (ChunkTimeout n) = ''SSE chunk timeout: no data received for '' @ nat_str n @ ''s''"
| "error_text (HeaderTimeout n) =
     ''LLM header timeout: response headers did not arrive within '' @ nat_str n @ ''ms''"
| "error_text (HttpError m) = ''HTTP error: '' @ m"
| "error_text (JsonError m) = ''JSON error: '' @ m"
| "error_text (IoError m) = ''IO error: '' @ m"

subsection \<open>Events and results\<close>

record todo_item =
  todo_id :: rstr
  todo_content :: rstr
  todo_status :: rstr

text \<open>\<open>AgentEvent\<close>: what a loop and its tools emit, then what Auto mode emits.\<close>

datatype agent_event =
    TextDelta rstr rstr
  | ThinkingDelta rstr rstr
  | ToolStart rstr rstr rstr rstr
  | ToolStatus rstr rstr rstr
  | ToolEnd rstr rstr bool rstr "rstr list option"
  | ErrorEvent rstr rstr bool
  | DoneEvent rstr "rstr option"
  | CompactionEvent rstr
  | TokenUsage rstr u32 "u32 option" "u32 option" "u32 option"
  | TurnCompleted rstr u32 "rstr list"
  | UserQuestionAsked rstr rstr "rstr list option"
  | TodoUpdated rstr "todo_item list"
  | PlanReadyEvent rstr rstr rstr rstr
  | SkillLoaded rstr rstr
  | SubagentStart rstr rstr rstr rstr rstr
  | SubagentEnd rstr rstr rstr bool rstr
  | AutoPlanning rstr rstr
  | AutoPlan rstr rstr u32 rstr "worker_spec list"
  | AutoAwaitingApproval rstr rstr
  | AutoWorkerStart rstr rstr rstr rstr rstr
  | AutoWorkerEnd rstr rstr rstr rstr u32 u32 worker_status
  | AutoWorkerToolStart rstr rstr rstr rstr rstr rstr
  | AutoWorkerToolEnd rstr rstr rstr rstr bool rstr
  | AutoReplan rstr rstr rstr
  | AutoFailed rstr rstr rstr "rstr option"
  | AutoAwaitingFailureDecision rstr rstr failure_context
  | AutoDone rstr rstr rstr u32

datatype agent_result =
    Done rstr
  | AskUser rstr "rstr list option"
  | PlanReady rstr rstr

subsection \<open>Persistence\<close>

datatype message_role = RUser | RAssistant | RTool | RSystem

datatype message_type = TText | TSessionInit | TCompaction | TToolCall | TToolResult | TCompletionSummary

datatype sender = HumanUser | AgentSender

definition str_to_role :: "rstr \<Rightarrow> message_role" where
  "str_to_role s =
     (if s = ''user'' then RUser else if s = ''assistant'' then RAssistant
      else if s = ''tool'' then RTool else if s = ''system'' then RSystem else RUser)"

definition str_to_type :: "rstr \<Rightarrow> message_type" where
  "str_to_type s =
     (if s = ''text'' then TText else if s = ''session_init'' then TSessionInit
      else if s = ''compaction'' then TCompaction else if s = ''tool_call'' then TToolCall
      else if s = ''tool_result'' then TToolResult
      else if s = ''completion_summary'' then TCompletionSummary else TText)"

record agent_message =
  am_content :: rstr
  am_llm_message :: chat_message
  am_metadata :: json
  am_role :: message_role
  am_type :: message_type
  am_sender :: sender
  am_turn :: "u32 option"

text \<open>\<open>AgentLoop::chat_to_agent_message\<close>\<close>

definition chat_to_agent_message ::
  "chat_message \<Rightarrow> message_type \<Rightarrow> sender \<Rightarrow> u32 option \<Rightarrow> agent_message" where
  "chat_to_agent_message msg mtype sndr turn =
     \<lparr>am_content = message_text msg, am_llm_message = msg, am_metadata = JObj [],
      am_role =
        (if cm_role msg = ''user'' then RUser else if cm_role msg = ''assistant'' then RAssistant
         else if cm_role msg = ''tool'' then RTool else if cm_role msg = ''system'' then RSystem
         else RUser),
      am_type = mtype, am_sender = sndr, am_turn = turn\<rparr>"

end
