(* ===== verification/ToolRegistry.thy ===== *)
theory ToolRegistry
  imports FileTools ChatTypes "HOL-Library.Char_ord" "HOL-Library.List_Lexorder"
begin

section \<open>Tools and their registry (\<open>tool/mod.rs\<close>)\<close>

text \<open>
  A tool is its description, the schema of its arguments and its \<open>execute\<close>: from the arguments, the
  context and the world to the events it sends, its outcome and the world after it. The registry
  is a finite map from names to tools, kept as a list of pairs with distinct names.
\<close>

record tool =
  tl_name :: rstr
  tl_description :: rstr
  tl_schema :: json
  tl_execute :: "json \<Rightarrow> tool_context \<Rightarrow> cworld \<Rightarrow> agent_event list \<times> tool_outcome \<times> cworld"

datatype tool_mode = AskMode | CodingMode | PlanMode

type_synonym registry = "(rstr \<times> tool) list"

definition register :: "tool \<Rightarrow> registry \<Rightarrow> registry" where
  "register t r = upsert (tl_name t) t (\<lambda>_. t) r"

definition registry_get :: "registry \<Rightarrow> rstr \<Rightarrow> tool option" where
  "registry_get r name = map_of r name"

definition retain :: "(rstr \<Rightarrow> bool) \<Rightarrow> registry \<Rightarrow> registry" where
  "retain pred r = filter (\<lambda>kv. pred (fst kv)) r"

definition registry_names :: "registry \<Rightarrow> rstr list" where
  "registry_names r = sort (map fst r)"

definition tool_definitions :: "registry \<Rightarrow> tool_definition list" where
  "tool_definitions r =
     sort_key (\<lambda>d. fd_name (td_function d))
       (map (\<lambda>kv. \<lparr>td_type = ''function'',
          td_function = \<lparr>fd_name = tl_name (snd kv), fd_description = Some (tl_description (snd kv)),
            fd_parameters = Some (tl_schema (snd kv)), fd_strict = None\<rparr>,
          td_cache_control = None\<rparr>) r)"

text \<open>
  \<open>for_mode\<close>: the names it registers, in order; the tools themselves come from a catalogue.
\<close>

definition mode_tools :: "tool_mode \<Rightarrow> rstr list" where
  "mode_tools mode =
     (case mode of
        AskMode \<Rightarrow> [''read'', ''glob'', ''grep'', ''ask_user'']
      | CodingMode \<Rightarrow> [''read'', ''write'', ''bash'', ''edit'', ''glob'', ''grep'', ''git'', ''create_pr'',
                     ''todo_write'', ''apply_patch'']
      | PlanMode \<Rightarrow> [''read'', ''glob'', ''grep'', ''ask_user'', ''save_plan'', ''edit_plan''])"

definition for_mode :: "(rstr \<Rightarrow> tool) \<Rightarrow> tool_mode \<Rightarrow> bool \<Rightarrow> bool \<Rightarrow> registry" where
  "for_mode catalogue mode has_engine has_skills =
     fold (\<lambda>name. register (catalogue name))
       (mode_tools mode @ (if has_engine then [''codebase_search'', ''codebase_graph''] else [])
          @ (if has_skills then [''skill''] else [])) []"

subsection \<open>Registry laws\<close>

definition wf_registry :: "registry \<Rightarrow> bool" where
  "wf_registry r \<longleftrightarrow> distinct (map fst r) \<and> (\<forall>(n, t) \<in> set r. tl_name t = n)"

lemma wf_register: "wf_registry r \<Longrightarrow> wf_registry (register t r)"
  using set_upsert_subset [of "tl_name t" t "\<lambda>_. t" r]
  by (auto simp: wf_registry_def register_def fst_upsert split: if_splits)

lemma wf_retain: "wf_registry r \<Longrightarrow> wf_registry (retain p r)"
  by (auto simp: wf_registry_def retain_def distinct_map_filter)

lemma registry_get_register:
  "registry_get (register t r) n = (if n = tl_name t then Some t else registry_get r n)"
  by (simp add: registry_get_def register_def map_of_upsert split: option.splits)

lemma registry_get_retain: "registry_get (retain p r) n = (if p n then registry_get r n else None)"
  by (induction r) (auto simp: registry_get_def retain_def)

text \<open>
  The operations a client of a registry relies on, as laws: looking up after registering and after
  filtering.
\<close>

locale tool_table =
  fixes lookup :: "'r \<Rightarrow> 'n \<Rightarrow> 't option"
    and add :: "'t \<Rightarrow> 'r \<Rightarrow> 'r"
    and keep :: "('n \<Rightarrow> bool) \<Rightarrow> 'r \<Rightarrow> 'r"
    and name_of :: "'t \<Rightarrow> 'n"
  assumes lookup_add: "lookup (add t r) n = (if n = name_of t then Some t else lookup r n)"
    and lookup_keep: "lookup (keep p r) n = (if p n then lookup r n else None)"
begin

text \<open>A filtered table never offers what the filter refuses, whatever was registered before.\<close>

lemma keep_sound: "lookup (keep p r) n = Some t \<Longrightarrow> p n \<and> lookup r n = Some t"
  by (simp add: lookup_keep split: if_splits)

lemma lookup_fold_other:
  "n \<notin> name_of ` set ts \<Longrightarrow> lookup (fold add ts r) n = lookup r n"
  by (induction ts arbitrary: r) (auto simp: lookup_add)

lemma lookup_fold:
  "distinct (map name_of ts) \<Longrightarrow> t \<in> set ts \<Longrightarrow> lookup (fold add ts r) (name_of t) = Some t"
  by (induction ts arbitrary: r) (auto simp: lookup_add lookup_fold_other)

end

interpretation reg: tool_table registry_get register retain tl_name
  by unfold_locales (simp_all add: registry_get_register registry_get_retain)

lemma for_mode_lookup:
  assumes "\<And>n. tl_name (cat n) = n" "distinct (mode_tools mode @ extra)"
  shows "registry_get (fold (\<lambda>name. register (cat name)) (mode_tools mode @ extra) []) n =
    (if n \<in> set (mode_tools mode @ extra) then Some (cat n) else None)"
proof -
  have f: "fold (\<lambda>name. register (cat name)) ns r = fold register (map cat ns) r" for ns r
    by (simp add: fold_map comp_def)
  show ?thesis
  proof (cases "n \<in> set (mode_tools mode @ extra)")
    case True
    have "distinct (map tl_name (map cat (mode_tools mode @ extra)))"
      using assms by (simp add: comp_def)
    from reg.lookup_fold [OF this, of "cat n"] True show ?thesis unfolding f using assms(1) by auto
  next
    case False
    then have "n \<notin> tl_name ` set (map cat (mode_tools mode @ extra))" using assms(1) by auto
    from reg.lookup_fold_other [OF this] False show ?thesis unfolding f by (simp add: registry_get_def)
  qed
qed

text \<open>
  The mode decides the tools: in every mode exactly the listed tools can be called, plus the
  context engine's and the skill tool when they exist. In ask mode and in plan mode no shell,
  no write, edit, patch, git or pull request tool is on offer.
\<close>

theorem mode_offers_exactly:
  assumes "\<And>n. tl_name (cat n) = n"
  shows "registry_get (for_mode cat mode has_engine has_skills) n =
      (if n \<in> set (mode_tools mode) \<or> has_engine \<and> n \<in> {''codebase_search'', ''codebase_graph''} \<or>
          has_skills \<and> n = ''skill''
       then Some (cat n) else None) \<and>
    (mode \<noteq> CodingMode \<longrightarrow>
       (\<forall>m \<in> {''write'', ''edit'', ''bash'', ''apply_patch'', ''git'', ''create_pr''}.
          registry_get (for_mode cat mode has_engine has_skills) m = None))"
proof -
  let ?extra = "(if has_engine then [''codebase_search'', ''codebase_graph''] else []) @ (if has_skills then [''skill''] else [])"
  have d: "distinct (mode_tools mode @ ?extra)"
    by (cases mode; cases has_engine; cases has_skills) (simp_all add: mode_tools_def)
  show ?thesis
    unfolding for_mode_def for_mode_lookup [OF assms d]
    by (cases mode; cases has_engine; cases has_skills) (simp_all add: mode_tools_def)
qed

definition stub_tool :: "rstr \<Rightarrow> tool" where
  "stub_tool n = \<lparr>tl_name = n, tl_description = [], tl_schema = JObj [],
     tl_execute = (\<lambda>_ _ w. ([], Finished (result_success n), w))\<rparr>"

theorem mode_offers_exactly_witness:
  "registry_get (for_mode stub_tool PlanMode False True) ''write'' = None \<and>
   registry_get (for_mode stub_tool PlanMode False True) ''edit_plan'' = Some (stub_tool ''edit_plan'')"
  using mode_offers_exactly [of stub_tool PlanMode False True "''edit_plan''"]
  by (simp add: stub_tool_def mode_tools_def)

end
