(* ===== verification/AgentDir.thy ===== *)
theory AgentDir
  imports Checkpoint Util
begin

section \<open>The \<open>.agent\<close> directory (\<open>util.rs\<close>)\<close>

text \<open>
  Tools keep plans, todo lists and full outputs under \<open>.agent\<close> in the working directory and enter
  that directory into git's \<open>info/exclude\<close>. What \<open>git rev-parse --absolute-git-dir\<close> prints is an
  argument, \<open>None\<close> when it fails. All of it is best effort: errors are ignored.
\<close>

definition exclude_listed :: "rstr \<Rightarrow> rstr \<Rightarrow> bool" where
  "exclude_listed content entry \<longleftrightarrow> list_ex (\<lambda>line. str_trim line = entry) (str_lines content)"

definition exclude_path :: "rstr \<Rightarrow> rstr" where
  "exclude_path git_dir = path_join (path_join (str_trim git_dir) ''info'') ''exclude''"

definition ensure_git_exclude :: "io_env \<Rightarrow> rstr option \<Rightarrow> rstr \<Rightarrow> cworld \<Rightarrow> cworld" where
  "ensure_git_exclude env git_dir entry w =
     (case git_dir of
        None \<Rightarrow> w
      | Some gd \<Rightarrow>
          let path = exclude_path gd;
              (needs_append, w1) =
                (if path_exists env path w then
                   (case fs_read_to_string env path w of
                      (Inl _, w') \<Rightarrow> (True, w')
                    | (Inr c, w') \<Rightarrow> (\<not> exclude_listed c entry, w'))
                 else (True, w))
          in if needs_append
             then snd (fs_append env path ([nl] @ entry @ [nl]) (snd (fs_other env w1)))
             else w1)"

definition agent_dir :: "rstr \<Rightarrow> rstr" where
  "agent_dir working_dir = path_join working_dir ''.agent''"

definition ensure_agent_dir :: "io_env \<Rightarrow> rstr option \<Rightarrow> cworld \<Rightarrow> cworld" where
  "ensure_agent_dir env git_dir w = ensure_git_exclude env git_dir ''.agent/'' (snd (fs_other env w))"

text \<open>Where the full output of a tool call goes: the call's id is the file's name.\<close>

definition output_path :: "rstr \<Rightarrow> rstr \<Rightarrow> rstr" where
  "output_path working_dir tool_call_id =
     path_join (path_join (agent_dir working_dir) ''tool-output'') (tool_call_id @ ''.txt'')"

definition save_full_output ::
  "io_env \<Rightarrow> rstr option \<Rightarrow> rstr \<Rightarrow> rstr \<Rightarrow> rstr \<Rightarrow> cworld \<Rightarrow> rstr option \<times> cworld" where
  "save_full_output env git_dir working_dir tool_call_id output w =
     (let path = output_path working_dir tool_call_id
      in case fs_other env (ensure_agent_dir env git_dir w) of
           (Inl _, w1) \<Rightarrow> (None, w1)
         | (Inr _, w1) \<Rightarrow>
             (case fs_write env path output w1 of
                (Inl _, w2) \<Rightarrow> (None, w2)
              | (Inr _, w2) \<Rightarrow> (Some path, w2)))"

definition truncate_and_persist_io ::
  "io_env \<Rightarrow> rstr option \<Rightarrow> rstr \<Rightarrow> nat \<Rightarrow> nat \<Rightarrow> rstr \<Rightarrow> rstr \<Rightarrow> cworld \<Rightarrow> rstr \<times> cworld" where
  "truncate_and_persist_io env git_dir output max_lines max_bytes working_dir tool_call_id w =
     (if length (str_lines output) \<le> max_lines \<and> length output \<le> max_bytes then (output, w)
      else let (saved, w') = save_full_output env git_dir working_dir tool_call_id output w
           in (truncate_and_persist output max_lines max_bytes saved, w'))"

subsection \<open>Entering the directory once is enough\<close>

lemma str_lines_append_nl:
  "nl \<notin> set l \<Longrightarrow> cr \<notin> set l \<Longrightarrow> l \<noteq> [] \<Longrightarrow> l \<in> set (str_lines (s @ nl # l @ [nl]))"
proof -
  assume l: "nl \<notin> set l" "cr \<notin> set l" "l \<noteq> []"
  have "l \<in> set (lines_from cur (s @ nl # l @ [nl]))" for cur
  proof (induction s arbitrary: cur)
    case Nil
    have "lines_from [] (l @ nl # []) = strip_cr ([] @ l) # str_lines []"
      using l(1) by (rule lines_from_step)
    with l show ?case by (simp add: strip_cr_id)
  qed auto
  then show "l \<in> set (str_lines (s @ nl # l @ [nl]))" by (simp add: str_lines_def)
qed

lemma exclude_listed_append:
  assumes "nl \<notin> set e" "cr \<notin> set e" "e \<noteq> []" "str_trim e = e"
  shows "exclude_listed (s @ [nl] @ e @ [nl]) e"
  using str_lines_append_nl [OF assms(1-3), of s] assms(4) by (auto simp: exclude_listed_def list_ex_iff)

end
