(* ===== verification/ToolCall.thy ===== *)
theory ToolCall
  imports ToolRegistry AgentDir
begin

section \<open>Running one tool call (\<open>execute_tool_call_impl\<close> in \<open>agent/loop_.rs\<close>)\<close>

text \<open>
  From the model's request (an id, a name and JSON text) to the result it is shown: parse the
  arguments, find the tool, validate the arguments, ask for approval, guard the path of a write or
  edit, run the tool, bound its output, and report start and end as events. What the call needs
  from its surroundings is a \<open>tool_host\<close>: \<open>serde_json\<close>'s parser and printer, the registry, the answers
  of the approval handler (a cancellation while it waits is the denial the code makes of it), the
  operating system's view of paths, and \<open>$HOME\<close>.
\<close>

datatype approval_decision = Approved | Denied "rstr option"

record tool_host =
  th_parse :: "rstr \<Rightarrow> rstr + json"
  th_render :: "json \<Rightarrow> rstr"
  th_registry :: registry
  th_working_dir :: rstr
  th_session_id :: rstr
  th_approval :: "(rstr \<Rightarrow> rstr \<Rightarrow> json \<Rightarrow> rstr \<Rightarrow> approval_decision) option"
  th_os :: os_view
  th_home :: "rstr option"
  th_env :: io_env
  th_git_dir :: "rstr option"
  th_checkpoint_dir :: "rstr option"
  th_policy :: tool_policy

definition max_tool_output_lines :: nat where "max_tool_output_lines = 2000"
definition max_tool_output_bytes :: nat where "max_tool_output_bytes = 50 * 1024"

subsection \<open>The summary shown to the user\<close>

definition shorten_path :: "rstr \<Rightarrow> rstr \<Rightarrow> rstr" where
  "shorten_path path wd =
     (case strip_prefix path wd of
        None \<Rightarrow> path
      | Some rel \<Rightarrow>
          let rel' = (case strip_prefix rel ''/'' of Some r \<Rightarrow> r | None \<Rightarrow> rel)
          in if rel' = [] then ''.'' else rel')"

definition str_or :: "rstr \<Rightarrow> rstr option \<Rightarrow> rstr" where
  "str_or d o' = (case o' of Some s \<Rightarrow> s | None \<Rightarrow> d)"

definition first_todo :: "json \<Rightarrow> rstr option" where
  "first_todo args =
     (case get_array ''todos'' args of
        Some (t # _) \<Rightarrow> get_str ''content'' t
      | _ \<Rightarrow> None)"

definition build_args_summary :: "(json \<Rightarrow> rstr) \<Rightarrow> rstr \<Rightarrow> json \<Rightarrow> rstr \<Rightarrow> rstr" where
  "build_args_summary render tool_name args wd =
     (let arg = (\<lambda>k. str_or ''?'' (get_str k args)); path = (\<lambda>k. shorten_path (arg k) wd)
      in if tool_name = ''read'' then ''Reading '' @ path ''filePath''
         else if tool_name = ''write'' then ''Writing '' @ path ''filePath''
         else if tool_name = ''bash'' then arg ''description''
         else if tool_name = ''edit'' then ''Editing '' @ path ''filePath''
         else if tool_name = ''glob'' then ''Searching for '' @ arg ''pattern''
         else if tool_name = ''grep'' then ''Searching for /'' @ arg ''pattern'' @ ''/''
         else if tool_name = ''git'' then arg ''description''
         else if tool_name = ''create_pr'' then ''Creating PR: '' @ arg ''title''
         else if tool_name = ''save_plan'' then
           ''Saving plan: '' @ str_or ''plan.md'' (get_str ''filename'' args)
         else if tool_name = ''edit_plan'' then
           (case get_str ''file_path'' args of
              Some p \<Rightarrow> ''Editing plan: '' @ shorten_path p wd
            | None \<Rightarrow> ''Editing plan'')
         else if tool_name = ''todo_write'' then
           (case first_todo args of Some c \<Rightarrow> ''Updating todos: '' @ c | None \<Rightarrow> ''Updating todos'')
         else if tool_name = ''todo_read'' then ''Reading todos''
         else if tool_name = ''codebase_search'' then ''Semantic search: '' @ arg ''query''
         else if tool_name = ''codebase_graph'' then
           ''Querying graph: '' @ (case get_str ''query'' args of
              Some q \<Rightarrow> q | None \<Rightarrow> arg ''function_name'')
         else if tool_name = ''ask_user'' then ''Asking: '' @ truncated (arg ''question'') 60
         else if tool_name = ''skill'' then ''Loading skill: '' @ arg ''name''
         else let s = render args
              in if length s > 100 then truncated s 100 @ ''...'' else s)"

subsection \<open>The gates before execution\<close>

definition ask :: "tool_host \<Rightarrow> rstr \<Rightarrow> rstr \<Rightarrow> json \<Rightarrow> rstr \<Rightarrow> rstr option" where
  "ask host tool_name tool_call_id args summary =
     (case th_approval host of
        None \<Rightarrow> None
      | Some request \<Rightarrow>
          (case request tool_name tool_call_id args summary of
             Approved \<Rightarrow> None
           | Denied reason \<Rightarrow> Some (str_or ''User denied'' reason)))"

definition modified_file_path :: "rstr \<Rightarrow> json \<Rightarrow> rstr option" where
  "modified_file_path tool_name args =
     (if tool_name = ''write'' \<or> tool_name = ''edit'' then
        Option.bind (case jget ''file_path'' args of Some v \<Rightarrow> Some v | None \<Rightarrow> jget ''filePath'' args) as_str
      else None)"

definition display_path :: "rstr option \<Rightarrow> rstr \<Rightarrow> rstr" where
  "display_path home p =
     (case home of
        Some h \<Rightarrow> if starts_with p h then CHR 0x7E # drop (length h) p else p
      | None \<Rightarrow> p)"

definition within_project :: "tool_host \<Rightarrow> rstr \<Rightarrow> bool" where
  "within_project host resolved =
     is_path_within_working_dir (th_os host) (components (th_working_dir host)) (components resolved)"

definition security_summary :: "tool_host \<Rightarrow> rstr \<Rightarrow> rstr" where
  "security_summary host resolved =
     ''[SECURITY] Write to '' @ display_path (th_home host) resolved @ '' (outside project)''"

definition path_gate :: "tool_host \<Rightarrow> rstr \<Rightarrow> rstr \<Rightarrow> json \<Rightarrow> rstr option" where
  "path_gate host tool_name tool_call_id args =
     (case modified_file_path tool_name args of
        None \<Rightarrow> None
      | Some file_path \<Rightarrow>
          let resolved = resolve_path (th_working_dir host) file_path
          in if within_project host resolved then None
             else if th_approval host = None then
               Some (''Path '' @ quoted resolved @ '' is outside the project directory '' @
                 quoted (th_working_dir host) @ ''. No approval handler to ask user.'')
             else map_option (\<lambda>reason. ''Path '' @ quoted resolved @
                    '' is outside the project directory. User denied: '' @ reason)
                  (ask host tool_name tool_call_id args (security_summary host resolved)))"

text \<open>All gates in order: the error shown to the model, or the tool to run.\<close>

definition gate :: "tool_host \<Rightarrow> rstr \<Rightarrow> rstr \<Rightarrow> json \<Rightarrow> rstr \<Rightarrow> rstr + tool" where
  "gate host tool_name tool_call_id args summary =
     (case registry_get (th_registry host) tool_name of
        None \<Rightarrow> Inl (''Unknown tool: '' @ quoted tool_name @ ''. Available tools: '' @
          join '', '' (map (\<lambda>d. fd_name (td_function d)) (tool_definitions (th_registry host))))
      | Some tool \<Rightarrow>
          (case validate_args args (tl_schema tool) of
             Inl e \<Rightarrow> Inl (''Invalid arguments for tool '' @ quoted tool_name @ '': '' @ e)
           | Inr _ \<Rightarrow>
               (case ask host tool_name tool_call_id args summary of
                  Some reason \<Rightarrow> Inl (''Permission denied for tool '' @ quoted tool_name @ '': '' @ reason)
                | None \<Rightarrow>
                    (case path_gate host tool_name tool_call_id args of
                       Some e \<Rightarrow> Inl e
                     | None \<Rightarrow> Inr tool))))"

subsection \<open>The call\<close>

definition call_context :: "tool_host \<Rightarrow> rstr \<Rightarrow> u32 \<Rightarrow> tool_context" where
  "call_context host tool_call_id turn =
     \<lparr>tx_working_dir = th_working_dir host, tx_session_id = th_session_id host,
      tx_tool_call_id = tool_call_id, tx_checkpoint_dir = th_checkpoint_dir host,
      tx_checkpoint_turn = turn, tx_policy = th_policy host\<rparr>"

definition call_end :: "tool_host \<Rightarrow> rstr \<Rightarrow> tool_result \<Rightarrow> agent_event" where
  "call_end host tool_call_id r =
     ToolEnd (th_session_id host) tool_call_id (\<not> tr_is_error r)
       (if length (tr_output r) > 200 then truncated (tr_output r) 200 @ ''...'' else tr_output r)
       (if \<not> tr_is_error r \<and> tr_modified_files r \<noteq> [] then Some (tr_modified_files r) else None)"

definition refused :: "tool_host \<Rightarrow> rstr \<Rightarrow> rstr \<Rightarrow> agent_event" where
  "refused host tool_call_id err = ToolEnd (th_session_id host) tool_call_id False err None"

definition note_modified :: "rstr option \<Rightarrow> tool_result \<Rightarrow> tool_result" where
  "note_modified file_path r =
     (case file_path of
        Some p \<Rightarrow> if \<not> tr_is_error r \<and> tr_modified_files r = [] then r\<lparr>tr_modified_files := [p]\<rparr> else r
      | None \<Rightarrow> r)"

definition execute_tool_call_impl ::
  "tool_host \<Rightarrow> u32 \<Rightarrow> tool_call \<Rightarrow> cworld \<Rightarrow> agent_event list \<times> tool_result option \<times> cworld" where
  "execute_tool_call_impl host turn tc w =
     (let tool_call_id = tc_id tc; tool_name = fc_name (tc_function tc);
          start = ToolStart (th_session_id host) tool_call_id tool_name
      in case th_parse host (fc_arguments (tc_function tc)) of
           Inl e \<Rightarrow>
             let err = ''Invalid JSON in tool arguments: '' @ e
             in ([start (''Executing '' @ tool_name), refused host tool_call_id err],
                 Some (result_error err), w)
         | Inr args \<Rightarrow>
             let summary = build_args_summary (th_render host) tool_name args (th_working_dir host)
             in case gate host tool_name tool_call_id args summary of
                  Inl err \<Rightarrow> ([start summary, refused host tool_call_id err], Some (result_error err), w)
                | Inr tool \<Rightarrow>
                    (case tl_execute tool args (call_context host tool_call_id turn) w of
                       (evs, Panicked, w1) \<Rightarrow> (start summary # evs, None, w1)
                     | (evs, Failed e, w1) \<Rightarrow>
                         let r = result_error (''Tool execution error: '' @ e)
                         in (start summary # evs @ [call_end host tool_call_id r], Some r, w1)
                     | (evs, Finished r0, w1) \<Rightarrow>
                         let (out, w2) = truncate_and_persist_io (th_env host) (th_git_dir host) (tr_output r0)
                               max_tool_output_lines max_tool_output_bytes (th_working_dir host) tool_call_id w1;
                             r = note_modified (modified_file_path tool_name args) (r0\<lparr>tr_output := out\<rparr>)
                         in (start summary # evs @ [call_end host tool_call_id r], Some r, w2)))"

subsection \<open>Properties\<close>

fun lifecycle :: "agent_event \<Rightarrow> bool" where
  "lifecycle (ToolStart s i n a) = True"
| "lifecycle (ToolEnd s i ok m f) = True"
| "lifecycle _ = False"

definition discreet :: "registry \<Rightarrow> bool" where
  "discreet reg \<longleftrightarrow> (\<forall>(n, t) \<in> set reg. \<forall>args ctx w. filter lifecycle (fst (tl_execute t args ctx w)) = [])"

lemma gate_InrD:
  assumes "gate host name i args summary = Inr tool"
  shows "registry_get (th_registry host) name = Some tool" "validate_args args (tl_schema tool) = Inr ()"
    "ask host name i args summary = None" "path_gate host name i args = None"
  using assms by (auto simp: gate_def split: option.splits sum.splits)

definition write_tool :: tool where
  "write_tool = \<lparr>tl_name = ''write'', tl_description = [], tl_schema = JObj [],
     tl_execute = (\<lambda>args ctx w. case write_execute tree_env ctx args w of (out, w') \<Rightarrow> ([], out, w'))\<rparr>"

definition example_host :: "json \<Rightarrow> (rstr \<Rightarrow> rstr \<Rightarrow> json \<Rightarrow> rstr \<Rightarrow> approval_decision) option \<Rightarrow> tool_host" where
  "example_host args approval =
     \<lparr>th_parse = (\<lambda>_. Inr args), th_render = (\<lambda>_. []), th_registry = [(''write'', write_tool)],
      th_working_dir = ''/p'', th_session_id = ''s'', th_approval = approval, th_os = p_os,
      th_home = None, th_env = tree_env, th_git_dir = None, th_checkpoint_dir = None,
      th_policy = default_policy\<rparr>"

definition write_call :: tool_call where
  "write_call = \<lparr>tc_id = ''t1'', tc_type = ''function'',
     tc_function = \<lparr>fc_name = ''write'', fc_arguments = ''...''\<rparr>\<rparr>"

definition write_args :: "rstr \<Rightarrow> json" where
  "write_args path = JObj [(''content'', JStr ''hi''), (''filePath'', JStr path)]"

lemma example_guard:
  "is_path_within_working_dir p_os (components ''/p'') (components (resolve_path ''/p'' ''n''))"
  "\<not> is_path_within_working_dir p_os (components ''/p'') (components (resolve_path ''/p'' ''/x''))"
  "path_parent (components (resolve_path ''/p'' ''n'')) \<noteq> None"
  "path_parent (components (resolve_path ''/p'' ''/x'')) \<noteq> None"
  "land [] (components (resolve_path ''/p'' ''n'')) = [''p'', ''n'']"
  "land [] (components (resolve_path ''/p'' ''/x'')) = [''x'']"
  by code_simp+

lemma write_tool_run:
  assumes "get_str ''filePath'' args = Some f" "get_str ''content'' args = Some ''hi''"
    and "tx_working_dir ctx = ''/p''" "tx_checkpoint_dir ctx = None" "path_parent (components (resolve_path ''/p'' f)) \<noteq> None"
  shows "\<exists>r. tl_execute write_tool args ctx w = ([], Finished (result_success (''Wrote 2 bytes to '' @ resolve_path ''/p'' f)),
      tick (set_file tree_env (resolve_path ''/p'' f) (Some ''hi'') (tick w)))"
proof -
  have "nat_str (Suc (Suc 0)) = ''2''" by code_simp
  with assms show ?thesis
    by (auto simp: write_tool_def write_execute_def create_parents_def Let_def checkpoint_def
        no_faults_ops [OF tree_env_ok(1)])
qed

lemma short_output:
  "truncate_and_persist_io env gd out ml mb wd i w = (out, w)" if "length (str_lines out) \<le> ml" "length out \<le> mb"
  using that by (simp add: truncate_and_persist_io_def)

lemma example_write_run:
  assumes "th_parse host a = Inr args" "fc_arguments (tc_function tc) = a" "fc_name (tc_function tc) = ''write''"
    and "gate host ''write'' (tc_id tc) args (build_args_summary (th_render host) ''write'' args (th_working_dir host)) = Inr write_tool"
    and "th_working_dir host = ''/p''" "th_checkpoint_dir host = None"
    and "get_str ''filePath'' args = Some f" "get_str ''content'' args = Some ''hi''"
    and "path_parent (components (resolve_path ''/p'' f)) \<noteq> None"
    and "length (str_lines (''Wrote 2 bytes to '' @ resolve_path ''/p'' f)) \<le> 2000"
      "length (''Wrote 2 bytes to '' @ resolve_path ''/p'' f) \<le> 51200"
  shows "\<exists>evs r w'. execute_tool_call_impl host turn tc w = (evs, Some r, w') \<and> \<not> tr_is_error r \<and>
    w_files w' = (w_files w)(env_loc tree_env (resolve_path ''/p'' f) := Some ''hi'')"
proof -
  from write_tool_run [OF assms(7,8), of "call_context host (tc_id tc) turn" w] assms(5,6,9)
  have "tl_execute write_tool args (call_context host (tc_id tc) turn) w =
      ([], Finished (result_success (''Wrote 2 bytes to '' @ resolve_path ''/p'' f)),
      tick (set_file tree_env (resolve_path ''/p'' f) (Some ''hi'') (tick w)))"
    by (auto simp: call_context_def)
  then show ?thesis
    using assms short_output [OF assms(10,11), unfolded]
    by (auto simp: execute_tool_call_impl_def Let_def result_success_def max_tool_output_lines_def
        max_tool_output_bytes_def short_output note_modified_def split: option.splits)
qed

lemma example_inside:
  "\<exists>evs r w'. execute_tool_call_impl (example_host (write_args ''n'') None) turn write_call w = (evs, Some r, w') \<and>
     \<not> tr_is_error r \<and> w_files w' = (w_files w)([''p'', ''n''] := Some ''hi'')"
proof -
  let ?host = "example_host (write_args ''n'') None"
  have "gate ?host ''write'' i (write_args ''n'') s = Inr write_tool" for i s
    by (simp add: gate_def registry_get_def example_host_def write_tool_def validate_args_def ask_def path_gate_def
        modified_file_path_def within_project_def example_guard write_args_def)
  moreover have "length (str_lines (''Wrote 2 bytes to '' @ resolve_path ''/p'' ''n'')) \<le> 2000"
    "length (''Wrote 2 bytes to '' @ resolve_path ''/p'' ''n'') \<le> 51200"
    by (simp_all add: resolve_path_def is_absolute_def starts_with_def str_lines_def path_join_def)
  moreover have "env_loc tree_env (resolve_path ''/p'' ''n'') = [''p'', ''n'']"
    by (simp add: tree_env_ok(2) example_guard)
  ultimately show ?thesis
    using example_write_run [of ?host "''...''" "write_args ''n''" write_call "''n''" turn w]
    by (auto simp: example_host_def write_call_def get_str_def example_guard write_args_def)
qed

text \<open>
  Every tool call that does not crash is reported by exactly one start and one end event, in
  this order and both with the call's id; the end event's success flag is the opposite of the
  result's error flag. (The tools themselves send no such events.)
\<close>

theorem tool_call_reported_once:
  assumes "discreet (th_registry host)" "execute_tool_call_impl host turn tc w = (evs, Some r, w')"
  shows "\<exists>summary out files. filter lifecycle evs =
    [ToolStart (th_session_id host) (tc_id tc) (fc_name (tc_function tc)) summary,
     ToolEnd (th_session_id host) (tc_id tc) (\<not> tr_is_error r) out files]"
proof (cases "th_parse host (fc_arguments (tc_function tc))")
  case (Inl e)
  with assms(2) show ?thesis by (auto simp: execute_tool_call_impl_def Let_def refused_def result_error_def)
next
  case (Inr args)
  let ?s = "build_args_summary (th_render host) (fc_name (tc_function tc)) args (th_working_dir host)"
  show ?thesis
  proof (cases "gate host (fc_name (tc_function tc)) (tc_id tc) args ?s")
    case (Inl err)
    with Inr assms(2) show ?thesis
      by (auto simp: execute_tool_call_impl_def Let_def refused_def result_error_def)
  next
    case gated: (Inr tool)
    obtain es out w1 where x: "tl_execute tool args (call_context host (tc_id tc) turn) w = (es, out, w1)"
      using prod_cases3 by blast
    from gate_InrD(1) [OF gated] have "(fc_name (tc_function tc), tool) \<in> set (th_registry host)"
      by (auto simp: registry_get_def dest: map_of_SomeD)
    with assms(1) have "filter lifecycle (fst (tl_execute tool args (call_context host (tc_id tc) turn) w)) = []"
      unfolding discreet_def by blast
    with x have "filter lifecycle es = []" by simp
    with Inr gated x assms(2) show ?thesis
      by (cases out) (auto simp: execute_tool_call_impl_def Let_def call_end_def split: prod.splits)
  qed
qed

theorem tool_call_reported_once_witness:
  "\<exists>evs r w' summary out files.
     execute_tool_call_impl (example_host (write_args ''n'') None) 1 write_call one_file_world = (evs, Some r, w') \<and>
     filter lifecycle evs = [ToolStart ''s'' ''t1'' ''write'' summary, ToolEnd ''s'' ''t1'' True out files]"
proof -
  obtain evs r w' where x: "execute_tool_call_impl (example_host (write_args ''n'') None) 1 write_call one_file_world =
      (evs, Some r, w')" "\<not> tr_is_error r"
    using example_inside [of 1 one_file_world] by blast
  have "discreet (th_registry (example_host (write_args ''n'') None))"
    by (simp add: discreet_def example_host_def write_tool_def split: prod.splits)
  from tool_call_reported_once [OF this x(1)] x show ?thesis
    by (auto simp: example_host_def write_call_def)
qed

text \<open>
  C36: Nothing runs ungated. A call that changes the world, succeeds or crashes had arguments that
  parse, named a registered tool, satisfied its schema, and was approved when there is a
  handler; and if it is a write or edit of a path outside the project, the handler also approved
  the separate security request. Any other call is answered with an error and changes nothing.
\<close>

theorem tool_call_gated:
  assumes "execute_tool_call_impl host turn tc w = (evs, res, w')"
    and "w' \<noteq> w \<or> res = None \<or> (\<exists>r. res = Some r \<and> \<not> tr_is_error r)"
  shows "\<exists>args tool. th_parse host (fc_arguments (tc_function tc)) = Inr args \<and>
    registry_get (th_registry host) (fc_name (tc_function tc)) = Some tool \<and>
    validate_args args (tl_schema tool) = Inr () \<and>
    (\<forall>request. th_approval host = Some request \<longrightarrow>
       request (fc_name (tc_function tc)) (tc_id tc) args
         (build_args_summary (th_render host) (fc_name (tc_function tc)) args (th_working_dir host)) = Approved) \<and>
    (\<forall>p. modified_file_path (fc_name (tc_function tc)) args = Some p \<longrightarrow>
       within_project host (resolve_path (th_working_dir host) p) \<or>
       (\<exists>request. th_approval host = Some request \<and>
          request (fc_name (tc_function tc)) (tc_id tc) args
            (security_summary host (resolve_path (th_working_dir host) p)) = Approved))"
proof (cases "th_parse host (fc_arguments (tc_function tc))")
  case (Inl e)
  with assms show ?thesis by (auto simp: execute_tool_call_impl_def Let_def result_error_def)
next
  case (Inr args)
  let ?n = "fc_name (tc_function tc)"
  let ?s = "build_args_summary (th_render host) ?n args (th_working_dir host)"
  show ?thesis
  proof (cases "gate host ?n (tc_id tc) args ?s")
    case (Inl err)
    with Inr assms show ?thesis by (auto simp: execute_tool_call_impl_def Let_def result_error_def)
  next
    case gated: (Inr tool)
    note g = gate_InrD [OF gated]
    have "\<forall>request. th_approval host = Some request \<longrightarrow> request ?n (tc_id tc) args ?s = Approved"
      using g(3) by (auto simp: ask_def split: option.splits approval_decision.splits)
    moreover have "within_project host (resolve_path (th_working_dir host) p) \<or>
       (\<exists>request. th_approval host = Some request \<and>
          request ?n (tc_id tc) args (security_summary host (resolve_path (th_working_dir host) p)) = Approved)"
      if "modified_file_path ?n args = Some p" for p
      using g(4) that by (auto simp: path_gate_def Let_def ask_def split: if_splits option.splits approval_decision.splits)
    ultimately show ?thesis using Inr g(1,2) by blast
  qed
qed

theorem tool_call_gated_witness:
  "\<exists>evs r w'. execute_tool_call_impl (example_host (write_args ''n'') None) 1 write_call one_file_world = (evs, Some r, w') \<and>
     within_project (example_host (write_args ''n'') None) (resolve_path ''/p'' ''n'')"
proof -
  let ?host = "example_host (write_args ''n'') None"
  obtain evs r w' where x: "execute_tool_call_impl ?host 1 write_call one_file_world = (evs, Some r, w')" "\<not> tr_is_error r"
    using example_inside [of 1 one_file_world] by blast
  have "Some r = None \<or> (\<exists>r'. Some r = Some r' \<and> \<not> tr_is_error r')" using x(2) by simp
  then obtain args tool where g: "th_parse ?host (fc_arguments (tc_function write_call)) = Inr args"
    "\<forall>p. modified_file_path (fc_name (tc_function write_call)) args = Some p \<longrightarrow>
       within_project ?host (resolve_path (th_working_dir ?host) p) \<or>
       (\<exists>request. th_approval ?host = Some request \<and>
          request (fc_name (tc_function write_call)) (tc_id write_call) args
            (security_summary ?host (resolve_path (th_working_dir ?host) p)) = Approved)"
    using tool_call_gated [OF x(1)] by blast
  then have "args = write_args ''n''" by (simp add: example_host_def)
  then have "modified_file_path (fc_name (tc_function write_call)) args = Some ''n''"
    by (simp add: modified_file_path_def write_call_def write_args_def)
  with g(2) have "within_project ?host (resolve_path ''/p'' ''n'')"
    by (simp add: example_host_def)
  with x(1) show ?thesis by blast
qed

text \<open>
  The guard can be made to look at another path than the tool writes to: it prefers the key
  \<open>file_path\<close>, which no schema declares, while write and edit only read \<open>filePath\<close>. With both keys a
  write outside the project succeeds without any approval handler; with \<open>filePath\<close> alone the same
  write is refused.
\<close>

theorem path_guard_reads_other_key:
  "\<exists>evs r w'. execute_tool_call_impl
      (example_host (JObj [(''content'', JStr ''hi''), (''filePath'', JStr ''/x''), (''file_path'', JStr ''n'')]) None)
      1 write_call one_file_world = (evs, Some r, w') \<and>
    \<not> tr_is_error r \<and> w_files w' [''x''] = Some ''hi'' \<and>
    (\<exists>evs' r'. execute_tool_call_impl (example_host (write_args ''/x'') None) 1 write_call one_file_world =
       (evs', Some r', one_file_world) \<and> tr_is_error r')"
proof -
  let ?args = "JObj [(''content'', JStr ''hi''), (''filePath'', JStr ''/x''), (''file_path'', JStr ''n'')]"
  let ?host = "example_host ?args None"
  have "gate ?host ''write'' i ?args s = Inr write_tool" for i s
    by (simp add: gate_def registry_get_def example_host_def write_tool_def validate_args_def ask_def path_gate_def
        modified_file_path_def within_project_def example_guard)
  moreover have "length (str_lines (''Wrote 2 bytes to '' @ resolve_path ''/p'' ''/x'')) \<le> 2000"
    "length (''Wrote 2 bytes to '' @ resolve_path ''/p'' ''/x'') \<le> 51200"
    by (simp_all add: resolve_path_def is_absolute_def starts_with_def str_lines_def)
  ultimately obtain evs r w' where "execute_tool_call_impl ?host 1 write_call one_file_world = (evs, Some r, w')"
    "\<not> tr_is_error r" "w_files w' = (w_files one_file_world)(env_loc tree_env (resolve_path ''/p'' ''/x'') := Some ''hi'')"
    using example_write_run [of ?host "''...''" ?args write_call "''/x''" 1 one_file_world]
    by (auto simp: example_host_def write_call_def get_str_def example_guard)
  moreover have "env_loc tree_env (resolve_path ''/p'' ''/x'') = [''x'']"
    by (simp add: tree_env_ok(2) example_guard)
  moreover have "\<exists>evs' r'. execute_tool_call_impl (example_host (write_args ''/x'') None) 1 write_call one_file_world =
       (evs', Some r', one_file_world) \<and> tr_is_error r'"
    by (simp add: execute_tool_call_impl_def Let_def gate_def registry_get_def example_host_def write_tool_def
        validate_args_def ask_def path_gate_def modified_file_path_def within_project_def example_guard write_call_def
        write_args_def result_error_def)
  ultimately show ?thesis by fastforce
qed

end
