(* ===== verification/Compaction.thy ===== *)
theory Compaction
  imports ChatTypes
begin

section \<open>History compaction (\<open>agent/compaction.rs\<close> and the history surgery of \<open>loop_.rs\<close>)\<close>

text \<open>
  When the conversation nears the model's context limit, a middle range of the history is replaced
  by a summary. The theory models the trigger (\<open>needs_compaction_by_tokens\<close>, with its
  double-precision threshold), the estimate, the choice of the range (\<open>compaction_boundaries\<close> and
  its two helpers), the summary prompt, the splice of \<open>apply_compaction\<close>, and
  \<open>strip_orphaned_tool_results\<close>, which removes tool results and tool calls whose partner is gone.
\<close>

subsection \<open>Double-precision scaling\<close>

text \<open>
  \<open>(context_limit as f64 * threshold_pct) as usize\<close>. A non-negative finite \<open>f64\<close> is \<open>m / 2^k\<close>
  with \<open>m < 2^53\<close>; conversion and multiplication round to 53 significant bits, ties to even, and
  the conversion back truncates. Subnormal and infinite values do not arise from these factors.
\<close>

fun bit_len :: "nat \<Rightarrow> nat" where
  "bit_len n = (if n = 0 then 0 else Suc (bit_len (n div 2)))"

declare bit_len.simps [simp del]

definition round53 :: "nat \<Rightarrow> nat" where
  "round53 p =
     (let b = bit_len p - 53
      in if b = 0 then p
         else let q = p div 2 ^ b; r = p mod 2 ^ b; h = 2 ^ (b - 1)
              in (if h < r \<or> (r = h \<and> odd q) then q + 1 else q) * 2 ^ b)"

definition f64_scale :: "nat \<Rightarrow> nat \<times> nat \<Rightarrow> nat" where
  "f64_scale n pct = round53 (round53 n * fst pct) div 2 ^ snd pct"

record compaction_config =
  context_limit :: nat
  auto_compact :: bool
  threshold_pct :: "nat \<times> nat"
  keep_recent_messages :: nat
  max_messages :: nat

text \<open>\<open>0.80\<close> as an \<open>f64\<close>.\<close>

definition pct_080 :: "nat \<times> nat" where
  "pct_080 = (7205759403792794, 53)"

definition default_compaction_config :: compaction_config where
  "default_compaction_config =
     \<lparr>context_limit = 128000, auto_compact = True, threshold_pct = pct_080,
      keep_recent_messages = 10, max_messages = 10000\<rparr>"

definition needs_compaction_by_tokens :: "nat \<Rightarrow> nat \<Rightarrow> compaction_config \<Rightarrow> bool" where
  "needs_compaction_by_tokens total_toks message_count config =
     (if message_count \<ge> max_messages config then True
      else if \<not> auto_compact config \<or> total_toks = 0 then False
      else total_toks \<ge> f64_scale (context_limit config) (threshold_pct config))"

subsection \<open>The estimate\<close>

definition message_tokens :: "chat_message \<Rightarrow> nat" where
  "message_tokens m =
     (let content_len = (case cm_content m of Some c \<Rightarrow> length (content_text c) | None \<Rightarrow> 0);
          tool_calls_len =
            (case cm_tool_calls m of
               Some tcs \<Rightarrow> sum_list (map (\<lambda>tc. length (fc_name (tc_function tc)) +
                              length (fc_arguments (tc_function tc)) + 20) tcs)
             | None \<Rightarrow> 0);
          thinking_len = (case cm_thinking m of Some t \<Rightarrow> length t | None \<Rightarrow> 0)
      in (content_len + tool_calls_len + thinking_len) div 4 + 4)"

definition estimate_token_count :: "chat_message list \<Rightarrow> nat" where
  "estimate_token_count messages = sum_list (map message_tokens messages)"

subsection \<open>Choosing the range\<close>

definition is_tool_msg :: "chat_message \<Rightarrow> bool" where
  "is_tool_msg m \<longleftrightarrow> cm_role m = ''tool''"

definition is_call_msg :: "chat_message \<Rightarrow> bool" where
  "is_call_msg m \<longleftrightarrow> cm_role m = ''assistant'' \<and> cm_tool_calls m \<noteq> None"

fun snap_to_turn_boundary :: "chat_message list \<Rightarrow> nat \<Rightarrow> nat" where
  "snap_to_turn_boundary messages 0 = 0"
| "snap_to_turn_boundary messages (Suc e) =
     (if is_tool_msg (messages ! e) then snap_to_turn_boundary messages e
      else if is_call_msg (messages ! e) then snap_to_turn_boundary messages e
      else Suc e)"

definition calls_of :: "chat_message \<Rightarrow> tool_call list" where
  "calls_of m = (case cm_tool_calls m of Some tcs \<Rightarrow> tcs | None \<Rightarrow> [])"

text \<open>The ids of all tool calls carried by a list of messages.\<close>

definition call_ids :: "chat_message list \<Rightarrow> rstr set" where
  "call_ids ms = (\<Union>m \<in> set ms. tc_id ` set (calls_of m))"

fun advance_run :: "rstr set \<Rightarrow> chat_message list \<Rightarrow> nat" where
  "advance_run valid [] = 0"
| "advance_run valid (m # ms) =
     (if \<not> is_tool_msg m then 0
      else case cm_tool_call_id m of
             None \<Rightarrow> 0
           | Some i \<Rightarrow> if i \<in> valid then 0 else Suc (advance_run valid ms))"

definition advance_past_orphan_tool_results :: "chat_message list \<Rightarrow> nat \<Rightarrow> nat \<Rightarrow> nat" where
  "advance_past_orphan_tool_results messages start stop =
     (let valid_ids = call_ids (take start messages @ drop stop messages)
      in stop + advance_run valid_ids (drop stop messages))"

definition compaction_boundaries :: "chat_message list \<Rightarrow> nat \<Rightarrow> (nat \<times> nat) option" where
  "compaction_boundaries messages keep_recent =
     (if messages = [] then None
      else
        let start = (if cm_role (messages ! 0) = ''system'' then 1 else 0);
            raw_end = length messages - keep_recent
        in if raw_end \<le> start then None
           else
             let snapped = snap_to_turn_boundary messages raw_end;
                 stop = advance_past_orphan_tool_results messages start snapped
             in if stop \<le> start then None
                else if stop - start < 2 then None
                else Some (start, stop))"

subsection \<open>The summary prompt and the splice\<close>

definition build_compaction_prompt :: "chat_message list \<Rightarrow> rstr" where
  "build_compaction_prompt messages =
     concat (map (\<lambda>m. cm_role m @ '': '' @
               (case cm_content m of Some c \<Rightarrow> content_text c | None \<Rightarrow> ''[no content]'') @ [nl, nl])
             messages)"

definition splice_summary :: "chat_message list \<Rightarrow> nat \<Rightarrow> nat \<Rightarrow> chat_message \<Rightarrow> chat_message list" where
  "splice_summary messages start stop summary_msg =
     (if start > 0 then take start messages else []) @ [summary_msg] @ drop stop messages"

subsection \<open>Removing orphans\<close>

text \<open>
  The four phases of \<open>strip_orphaned_tool_results\<close>: collect the ids of all calls, drop the tool
  results with an unknown id, collect the ids answered, keep of each assistant's calls only the
  answered ones and clear the field when none is left. A tool message without an id is kept.
\<close>

definition keeps_result :: "rstr set \<Rightarrow> chat_message \<Rightarrow> bool" where
  "keeps_result valid m =
     (if is_tool_msg m then (case cm_tool_call_id m of Some i \<Rightarrow> i \<in> valid | None \<Rightarrow> True)
      else True)"

definition result_ids :: "chat_message list \<Rightarrow> rstr set" where
  "result_ids ms = {i. \<exists>m \<in> set ms. is_tool_msg m \<and> cm_tool_call_id m = Some i}"

definition answered_ids :: "chat_message list \<Rightarrow> rstr set" where
  "answered_ids ms = set (List.map_filter (\<lambda>m. if is_tool_msg m then cm_tool_call_id m else None) ms)"

definition prune_calls :: "rstr set \<Rightarrow> chat_message \<Rightarrow> chat_message" where
  "prune_calls answered m =
     (if cm_role m \<noteq> ''assistant'' then m
      else case cm_tool_calls m of
             None \<Rightarrow> m
           | Some tcs \<Rightarrow>
               let kept = filter (\<lambda>tc. tc_id tc \<in> answered) tcs
               in m\<lparr>cm_tool_calls := (if kept = [] then None else Some kept)\<rparr>)"

definition strip_orphaned_tool_results :: "chat_message list \<Rightarrow> chat_message list" where
  "strip_orphaned_tool_results messages =
     (let valid_tool_ids = call_ids messages;
          retained = filter (keeps_result valid_tool_ids) messages;
          answered_tool_ids = answered_ids retained
      in map (prune_calls answered_tool_ids) retained)"

text \<open>The lighter variant of \<open>llm/client.rs\<close>, run before each request: phases one and two.\<close>

definition sanitize_orphaned_tool_results :: "chat_message list \<Rightarrow> chat_message list" where
  "sanitize_orphaned_tool_results messages =
     filter (keeps_result (call_ids messages)) messages"

subsection \<open>Closed histories\<close>

text \<open>
  A provider accepts a history when every tool result answers a call and every call of an
  assistant is answered, with no empty list of calls.
\<close>

definition closed_history :: "chat_message list \<Rightarrow> bool" where
  "closed_history ms \<longleftrightarrow>
     result_ids ms \<subseteq> call_ids ms \<and>
     (\<forall>m \<in> set ms. cm_role m = ''assistant'' \<longrightarrow>
        tc_id ` set (calls_of m) \<subseteq> result_ids ms \<and> cm_tool_calls m \<noteq> Some [])"

lemma call_ids_simps [simp, hist_simps]:
  "call_ids [] = {}"
  "call_ids (m # ms) = tc_id ` set (calls_of m) \<union> call_ids ms"
  "call_ids (xs @ ys) = call_ids xs \<union> call_ids ys"
  by (auto simp: call_ids_def)

lemma result_ids_simps [simp, hist_simps]:
  "result_ids [] = {}"
  "result_ids (m # ms) =
     (if is_tool_msg m then set_option (cm_tool_call_id m) else {}) \<union> result_ids ms"
  "result_ids (xs @ ys) = result_ids xs \<union> result_ids ys"
  by (auto simp: result_ids_def)

lemma answered_ids_eq [simp]: "answered_ids ms = result_ids ms"
  by (induction ms) (auto simp: answered_ids_def List.map_filter_def split: option.splits)

lemma prune_calls_fields [simp]:
  "cm_role (prune_calls a m) = cm_role m"
  "cm_tool_call_id (prune_calls a m) = cm_tool_call_id m"
  "is_tool_msg (prune_calls a m) = is_tool_msg m"
  by (auto simp: prune_calls_def is_tool_msg_def Let_def split: option.splits)

lemma calls_of_prune:
  "calls_of (prune_calls a m) =
     (if cm_role m = ''assistant'' then filter (\<lambda>tc. tc_id tc \<in> a) (calls_of m) else calls_of m)"
  by (auto simp: prune_calls_def calls_of_def Let_def split: option.splits)

lemma prune_calls_not_empty:
  "cm_role m = ''assistant'' \<Longrightarrow> cm_tool_calls (prune_calls a m) \<noteq> Some []"
  by (auto simp: prune_calls_def Let_def split: option.splits)

lemma result_ids_prune [simp]: "result_ids (map (prune_calls a) ms) = result_ids ms"
  by (induction ms) auto

lemma call_ids_prune: "call_ids (map (prune_calls a) ms) \<supseteq> call_ids ms \<inter> a"
  by (induction ms) (auto simp: calls_of_prune)

lemma tool_no_calls_retained:
  "i \<in> call_ids ms \<Longrightarrow> i \<in> result_ids ms' \<Longrightarrow> set ms' \<subseteq> set ms \<Longrightarrow> i \<in> call_ids ms"
  by simp

definition calls_by_assistant :: "chat_message list \<Rightarrow> bool" where
  "calls_by_assistant ms \<longleftrightarrow> (\<forall>m \<in> set ms. cm_role m \<noteq> ''assistant'' \<longrightarrow> cm_tool_calls m = None)"

lemma call_ids_filter_keeps:
  assumes "calls_by_assistant ms"
  shows "call_ids (filter (keeps_result v) ms) = call_ids ms"
  using assms
  by (induction ms) (auto simp: calls_by_assistant_def keeps_result_def is_tool_msg_def calls_of_def
      split: option.splits)

lemma result_ids_filter_keeps: "result_ids (filter (keeps_result v) ms) = result_ids ms \<inter> v"
  by (induction ms) (auto simp: keeps_result_def split: option.splits)

lemma strip_result_ids:
  "result_ids (strip_orphaned_tool_results ms) = result_ids ms \<inter> call_ids ms"
  by (simp add: strip_orphaned_tool_results_def Let_def result_ids_filter_keeps)

lemma strip_closed:
  assumes "calls_by_assistant ms"
  shows "closed_history (strip_orphaned_tool_results ms)"
proof -
  let ?r = "filter (keeps_result (call_ids ms)) ms"
  let ?s = "strip_orphaned_tool_results ms"
  have s: "?s = map (prune_calls (result_ids ?r)) ?r"
    by (simp add: strip_orphaned_tool_results_def Let_def)
  have "result_ids ?s \<subseteq> call_ids ?r \<inter> result_ids ?r"
    by (auto simp: s call_ids_filter_keeps [OF assms] result_ids_filter_keeps)
  also have "\<dots> \<subseteq> call_ids ?s"
    using call_ids_prune [of ?r "result_ids ?r"] by (simp add: s)
  finally have 1: "result_ids ?s \<subseteq> call_ids ?s" .
  have 2: "tc_id ` set (calls_of m) \<subseteq> result_ids ?s \<and> cm_tool_calls m \<noteq> Some []"
    if "m \<in> set ?s" "cm_role m = ''assistant''" for m
    using that prune_calls_not_empty by (auto simp: s calls_of_prune)
  from 1 2 show ?thesis by (auto simp: closed_history_def)
qed

lemma prune_calls_id:
  assumes "tc_id ` set (calls_of m) \<subseteq> a" "cm_tool_calls m \<noteq> Some []"
  shows "prune_calls a m = m"
proof (cases "cm_role m = ''assistant'' \<and> cm_tool_calls m \<noteq> None")
  case True
  then obtain tcs where "cm_tool_calls m = Some tcs" by auto
  moreover from this assms have "filter (\<lambda>tc. tc_id tc \<in> a) tcs = tcs" "tcs \<noteq> []"
    by (auto simp: calls_of_def intro!: filter_eq_if_all)
  ultimately show ?thesis by (simp add: prune_calls_def)
qed (auto simp: prune_calls_def)

lemma keeps_result_closed:
  "result_ids ms \<subseteq> v \<Longrightarrow> m \<in> set ms \<Longrightarrow> keeps_result v m"
  by (auto simp: keeps_result_def result_ids_def split: option.splits)

lemma strip_id:
  assumes "closed_history ms"
  shows "strip_orphaned_tool_results ms = ms"
proof -
  have k: "filter (keeps_result (call_ids ms)) ms = ms"
    using assms by (intro filter_eq_if_all) (auto simp: closed_history_def intro: keeps_result_closed)
  have "map (prune_calls (result_ids ms)) ms = ms"
  proof (rule map_idI)
    fix m assume m: "m \<in> set ms"
    show "prune_calls (result_ids ms) m = m"
    proof (cases "cm_role m = ''assistant''")
      case True
      with assms m show ?thesis by (intro prune_calls_id) (auto simp: closed_history_def)
    qed (simp add: prune_calls_def)
  qed
  with k show ?thesis by (simp add: strip_orphaned_tool_results_def Let_def)
qed

subsection \<open>Turn structure\<close>

text \<open>
  The histories the loop builds: a message that is neither a tool result nor a call stands alone,
  and an assistant message with calls is followed by exactly its results, in call order.
\<close>

definition answers :: "tool_call list \<Rightarrow> chat_message list \<Rightarrow> bool" where
  "answers tcs ms \<longleftrightarrow>
     list_all2 (\<lambda>tc m. is_tool_msg m \<and> cm_tool_call_id m = Some (tc_id tc) \<and> cm_tool_calls m = None) tcs ms"

function well_turned :: "chat_message list \<Rightarrow> bool" where
  "well_turned [] = True"
| "well_turned (m # ms) =
     (if is_tool_msg m then False
      else if is_call_msg m then
        calls_of m \<noteq> [] \<and> answers (calls_of m) (take (length (calls_of m)) ms) \<and>
        well_turned (drop (length (calls_of m)) ms)
      else cm_tool_calls m = None \<and> well_turned ms)"
  by pat_completeness auto
termination
  by (relation "measure length") auto

definition plain_msg :: "chat_message \<Rightarrow> bool" where
  "plain_msg m \<longleftrightarrow> \<not> is_tool_msg m \<and> cm_tool_calls m = None"

lemma plain_msgs [simp]:
  "plain_msg (system_msg t)" "plain_msg (user_msg t)" "plain_msg (user_with_images bs)"
  "plain_msg (assistant_msg c None th)"
  by (simp_all add: plain_msg_def is_tool_msg_def msg_defs)

lemma plain_msg_Cons [hist_intros]: "plain_msg m \<Longrightarrow> well_turned ms \<Longrightarrow> well_turned (m # ms)"
  by (simp add: plain_msg_def is_call_msg_def)

lemma answers_length: "answers tcs ms \<Longrightarrow> length ms = length tcs"
  by (auto simp: answers_def dest: list_all2_lengthD)

lemma answers_tool:
  "answers tcs ms \<Longrightarrow> m \<in> set ms \<Longrightarrow> is_tool_msg m \<and> cm_tool_calls m = None"
  by (auto simp: answers_def list_all2_conv_all_nth in_set_conv_nth)

lemma answers_ids:
  "answers tcs ms \<Longrightarrow> result_ids ms = tc_id ` set tcs \<and> call_ids ms = {}"
  unfolding answers_def by (induction rule: list_all2_induct) (auto simp: calls_of_def)

lemma well_turned_append [hist_intros]:
  "well_turned xs \<Longrightarrow> well_turned ys \<Longrightarrow> well_turned (xs @ ys)"
proof (induction xs rule: well_turned.induct)
  case (2 m ms)
  show ?case
  proof (cases "is_call_msg m")
    case True
    with "2.prems" have "answers (calls_of m) (take (length (calls_of m)) ms)"
      by (simp split: if_splits)
    from answers_length [OF this] have "length (calls_of m) \<le> length ms" by simp
    with 2 True show ?thesis by (simp split: if_splits)
  next
    case False
    with 2 show ?thesis by (simp split: if_splits)
  qed
qed simp

lemma well_turned_block [hist_intros]:
  assumes "tcs \<noteq> []" "answers tcs results"
  shows "well_turned (assistant_msg c (Some tcs) th # results)"
  using assms answers_length [OF assms(2)]
  by (simp add: is_tool_msg_def is_call_msg_def calls_of_def msg_defs)

lemma well_turned_ids: "well_turned ms \<Longrightarrow> call_ids ms = result_ids ms"
proof (induction ms rule: well_turned.induct)
  case (2 m ms)
  let ?n = "length (calls_of m)"
  show ?case
  proof (cases "is_call_msg m")
    case True
    with 2 have a: "answers (calls_of m) (take ?n ms)"
      and IH: "call_ids (drop ?n ms) = result_ids (drop ?n ms)" and "\<not> is_tool_msg m"
      by (auto split: if_splits)
    have "call_ids ms = call_ids (take ?n ms) \<union> call_ids (drop ?n ms)"
      "result_ids ms = result_ids (take ?n ms) \<union> result_ids (drop ?n ms)"
      by (metis append_take_drop_id call_ids_simps(3), metis append_take_drop_id result_ids_simps(3))
    with answers_ids [OF a] IH \<open>\<not> is_tool_msg m\<close> show ?thesis by simp
  next
    case False
    with 2 show ?thesis by (auto simp: calls_of_def split: if_splits)
  qed
qed simp

lemma well_turned_no_empty_calls: "well_turned ms \<Longrightarrow> m \<in> set ms \<Longrightarrow> cm_tool_calls m \<noteq> Some []"
proof (induction ms rule: well_turned.induct)
  case (2 x ms)
  show ?case
  proof (cases "is_call_msg x")
    case True
    with 2 have a: "answers (calls_of x) (take (length (calls_of x)) ms)" "calls_of x \<noteq> []"
      by (auto split: if_splits)
    consider "m = x" | "m \<in> set (take (length (calls_of x)) ms)" | "m \<in> set (drop (length (calls_of x)) ms)"
      using "2.prems"(2) by (metis Un_iff append_take_drop_id set_ConsD set_append)
    then show ?thesis
    proof cases
      case 1
      with a(2) show ?thesis by (auto simp: calls_of_def)
    next
      case 2
      with answers_tool [OF a(1)] show ?thesis by simp
    next
      case 3
      with 2 True show ?thesis by (auto split: if_splits)
    qed
  next
    case False
    with 2 show ?thesis by (auto split: if_splits)
  qed
qed simp

lemma well_turned_closed: "well_turned ms \<Longrightarrow> closed_history ms"
  using well_turned_ids well_turned_no_empty_calls
  by (fastforce simp: closed_history_def call_ids_def)

lemma well_turned_split:
  assumes "well_turned ms" "e < length ms" "\<not> is_tool_msg (ms ! e)" "\<not> is_call_msg (ms ! e)"
  shows "well_turned (take (Suc e) ms) \<and> well_turned (drop (Suc e) ms)"
  using assms
proof (induction ms arbitrary: e rule: well_turned.induct)
  case (2 m ms)
  show ?case
  proof (cases "is_call_msg m")
    case True
    let ?n = "length (calls_of m)"
    from True 2 have a: "answers (calls_of m) (take ?n ms)" "calls_of m \<noteq> []" "\<not> is_tool_msg m"
      and rest: "well_turned (drop ?n ms)" by (auto split: if_splits)
    have n: "?n \<le> length ms" using answers_length [OF a(1)] by simp
    from True "2.prems"(4) obtain d where d: "e = Suc d" by (cases e) auto
    have "\<not> d < ?n"
    proof
      assume "d < ?n"
      then have "ms ! d \<in> set (take ?n ms)"
        using n by (metis in_set_conv_nth length_take min.absorb2 nth_take)
      with answers_tool [OF a(1)] d "2.prems"(3) show False by simp
    qed
    then obtain k where k: "d = ?n + k" by (metis le_add_diff_inverse not_less)
    with "2.prems" d n have "k < length (drop ?n ms)" "\<not> is_tool_msg (drop ?n ms ! k)"
      "\<not> is_call_msg (drop ?n ms ! k)" by (auto simp: add.commute)
    with 2 True a rest have "well_turned (take (Suc k) (drop ?n ms)) \<and> well_turned (drop (Suc k) (drop ?n ms))"
      by auto
    then show ?thesis using True a n d k
      by (simp add: take_drop min_def add.commute)
  next
    case False
    with 2 show ?thesis by (cases e) (auto split: if_splits)
  qed
qed simp

subsection \<open>What the chosen range guarantees\<close>

lemma snap_le: "snap_to_turn_boundary ms t \<le> t"
  by (induction ms t rule: snap_to_turn_boundary.induct) (auto intro: le_SucI)

lemma snap_boundary:
  "snap_to_turn_boundary ms t = Suc e \<Longrightarrow> \<not> is_tool_msg (ms ! e) \<and> \<not> is_call_msg (ms ! e)"
  by (induction ms t rule: snap_to_turn_boundary.induct) (auto split: if_splits)

lemma advance_run_le: "advance_run v ms \<le> length ms"
  by (induction v ms rule: advance_run.induct) (auto split: option.splits)

lemma advance_run_well_turned: "well_turned ms \<Longrightarrow> advance_run v ms = 0"
  by (cases ms) (auto split: if_splits)

lemma compaction_boundaries_SomeD:
  assumes "compaction_boundaries ms k = Some (s, e)"
  shows "s \<le> 1" "s + 2 \<le> e" "e \<le> length ms" "s = 1 \<longleftrightarrow> cm_role (ms ! 0) = ''system''"
    "e = advance_past_orphan_tool_results ms s (snap_to_turn_boundary ms (length ms - k))"
proof -
  let ?p = "snap_to_turn_boundary ms (length ms - k)"
  have "advance_past_orphan_tool_results ms s ?p \<le> length ms"
    using advance_run_le [of "call_ids (take s ms @ drop ?p ms)" "drop ?p ms"]
      snap_le [of ms "length ms - k"]
    by (simp add: advance_past_orphan_tool_results_def Let_def)
  with assms show "s \<le> 1" "s + 2 \<le> e" "e \<le> length ms" "s = 1 \<longleftrightarrow> cm_role (ms ! 0) = ''system''"
    "e = advance_past_orphan_tool_results ms s ?p"
    by (auto simp: compaction_boundaries_def Let_def split: if_splits)
qed

lemma compaction_boundaries_turned:
  assumes "well_turned ms" "compaction_boundaries ms k = Some (s, e)"
  shows "well_turned (take s ms)" "well_turned (drop e ms)"
proof -
  let ?p = "snap_to_turn_boundary ms (length ms - k)"
  note b = compaction_boundaries_SomeD [OF assms(2)]
  show "well_turned (drop e ms)"
  proof (cases ?p)
    case 0
    with assms(1) b(5) show ?thesis
      by (simp add: advance_past_orphan_tool_results_def advance_run_well_turned)
  next
    case (Suc p)
    have "p < length ms" using Suc b(2,3) snap_le [of ms "length ms - k"] by simp
    with well_turned_split [OF assms(1)] snap_boundary [OF Suc]
    have "well_turned (drop (Suc p) ms)" by blast
    with Suc b(5) show ?thesis
      by (simp add: advance_past_orphan_tool_results_def advance_run_well_turned)
  qed
  show "well_turned (take s ms)"
  proof (cases "s = 0")
    case False
    with b(1) have s: "s = 1" by simp
    with b have "cm_role (ms ! 0) = ''system''" "0 < length ms" by auto
    with well_turned_split [OF assms(1), of 0] s show ?thesis
      by (simp add: is_tool_msg_def is_call_msg_def)
  qed simp
qed

lemma splice_eq: "splice_summary ms s e m = take s ms @ m # drop e ms"
  by (simp add: splice_summary_def)

subsection \<open>Properties\<close>

text \<open>
  Compaction never splits a tool call from its results. In a history made of turns (each
  assistant message with calls followed by exactly its results), replacing the chosen range by the
  summary message leaves a history made of turns; so the sanitation that follows changes nothing.
\<close>

theorem compaction_preserves_turns:
  assumes "well_turned ms" "compaction_boundaries ms keep = Some (start, stop)"
  shows "well_turned (splice_summary ms start stop (user_msg summary)) \<and>
    strip_orphaned_tool_results (splice_summary ms start stop (user_msg summary)) =
      splice_summary ms start stop (user_msg summary)"
proof -
  have "well_turned (splice_summary ms start stop (user_msg summary))"
    unfolding splice_eq
    by (intro well_turned_append plain_msg_Cons plain_msgs compaction_boundaries_turned [OF assms])
  then show ?thesis by (simp add: strip_id well_turned_closed)
qed

definition example_call :: tool_call where
  "example_call = \<lparr>tc_id = ''t1'', tc_type = ''function'',
     tc_function = \<lparr>fc_name = ''read'', fc_arguments = ''{}''\<rparr>\<rparr>"

definition example_history :: "chat_message list" where
  "example_history =
     [system_msg ''s'', user_msg ''a'', assistant_msg (Some ''b'') None None,
      assistant_msg None (Some [example_call]) None, tool_result_msg ''t1'' ''out'', user_msg ''c'']"

lemma example_history_turned: "well_turned example_history"
  by (simp add: example_history_def example_call_def msg_defs is_tool_msg_def is_call_msg_def
      calls_of_def answers_def)

lemma example_history_range: "compaction_boundaries example_history 2 = Some (1, 3)"
  by (simp add: example_history_def example_call_def compaction_boundaries_def msg_defs
      is_tool_msg_def is_call_msg_def advance_past_orphan_tool_results_def numeral_eq_Suc)

theorem compaction_preserves_turns_witness:
  "well_turned (splice_summary example_history 1 3 (user_msg ''sum'')) \<and>
   strip_orphaned_tool_results (splice_summary example_history 1 3 (user_msg ''sum'')) =
     splice_summary example_history 1 3 (user_msg ''sum'')"
  by (rule compaction_preserves_turns [OF example_history_turned example_history_range])

text \<open>
  Whatever the history, the chosen range starts right after the system prompt (or at the
  start), covers at least two messages, ends inside the history, and the splice makes the history
  strictly shorter and keeps the system prompt and every message from the end of the range on.
\<close>

theorem compaction_range_shrinks:
  assumes "compaction_boundaries ms keep = Some (start, stop)"
  shows "start = (if cm_role (ms ! 0) = ''system'' then 1 else 0) \<and> start + 2 \<le> stop \<and>
    stop \<le> length ms \<and> length (splice_summary ms start stop m) < length ms \<and>
    take start (splice_summary ms start stop m) = take start ms \<and>
    drop (start + 1) (splice_summary ms start stop m) = drop stop ms"
proof -
  note b = compaction_boundaries_SomeD [OF assms]
  from b(1,2,3) have "start \<le> length ms" by simp
  with b show ?thesis by (auto simp: splice_eq min_def)
qed

theorem compaction_range_shrinks_witness:
  "length (splice_summary example_history 1 3 (user_msg ''sum'')) < length example_history"
  using compaction_range_shrinks [OF example_history_range, of "user_msg ''sum''"] by blast

text \<open>
  Sanitising any history in which only assistants carry calls yields one a provider accepts:
  every remaining tool result answers a remaining call, every remaining call is answered, and no
  assistant keeps an empty list of calls. Sanitising again changes nothing, and a history that is
  already acceptable is left as it is.
\<close>

theorem strip_orphaned_sound:
  assumes "calls_by_assistant ms"
  shows "closed_history (strip_orphaned_tool_results ms) \<and>
    strip_orphaned_tool_results (strip_orphaned_tool_results ms) = strip_orphaned_tool_results ms \<and>
    (closed_history ms \<longrightarrow> strip_orphaned_tool_results ms = ms)"
  using strip_closed [OF assms] strip_id by blast

definition orphan_history :: "chat_message list" where
  "orphan_history =
     [tool_result_msg ''t0'' ''lost'', user_msg ''a'', assistant_msg None (Some [example_call]) None]"

theorem strip_orphaned_sound_witness:
  "closed_history (strip_orphaned_tool_results orphan_history) \<and>
   strip_orphaned_tool_results orphan_history = [user_msg ''a'', assistant_msg None None None]"
proof -
  have "calls_by_assistant orphan_history"
    by (simp add: calls_by_assistant_def orphan_history_def msg_defs)
  from strip_orphaned_sound [OF this] show ?thesis
    by (simp add: orphan_history_def example_call_def strip_orphaned_tool_results_def msg_defs
        keeps_result_def is_tool_msg_def calls_of_def prune_calls_def)
qed

lemma default_threshold: "f64_scale 128000 pct_080 = 102400"
  by (simp add: f64_scale_def round53_def pct_080_def bit_len.simps)

text \<open>
  With the default configuration compaction is triggered exactly when the history holds at
  least 10000 messages or the tokens reach 102400; the rounding of the double-precision product
  \<open>128000 * 0.8\<close> does not move the threshold.
\<close>

theorem default_compaction_trigger:
  "needs_compaction_by_tokens toks n default_compaction_config \<longleftrightarrow> 10000 \<le> n \<or> 102400 \<le> toks"
  by (auto simp: needs_compaction_by_tokens_def default_compaction_config_def default_threshold)

end
