(* ===== verification/AgentLoop.thy ===== *)
theory AgentLoop
  imports ToolCall Compaction
begin

section \<open>The agent loop (\<open>agent/loop_.rs\<close>)\<close>

text \<open>
  \<open>AgentLoop::run\<close>: call the model with retries, append its answer, run the tools it asks for in
  parallel, append their results in the order of the calls, compact the history when it grows, stop
  on an answer without calls, on a yield, on cancellation, on an error or after
  \<open>max_iterations\<close> rounds. The state is the \<open>AgentLoop\<close> value with what its channels have received;
  the surroundings are a \<open>loop_env\<close>: what the provider answers to the n-th request (with the events
  it sends), whether the n-th look at the cancellation token finds it cancelled, and the order
  in which the tasks of a batch of tools complete. Each task is atomic in the model: the tools of
  a batch run one after another in that order.
\<close>

record retry_config =
  rc_max_retries :: nat
  rc_initial_delay :: nat
  rc_scale :: "nat \<Rightarrow> nat"
  rc_max_delay :: nat

text \<open>Delays are in milliseconds; the multiplier is 2.\<close>

definition default_retry_config :: retry_config where
  "default_retry_config =
     \<lparr>rc_max_retries = 3, rc_initial_delay = 1000, rc_scale = (\<lambda>d. 2 * d), rc_max_delay = 30000\<rparr>"

definition auto_worker_retry_config :: retry_config where
  "auto_worker_retry_config =
     \<lparr>rc_max_retries = 1, rc_initial_delay = 1000, rc_scale = (\<lambda>d. 2 * d), rc_max_delay = 4000\<rparr>"

record loop_config =
  lc_max_iterations :: u32
  lc_retry :: retry_config
  lc_system_prompt :: "(rstr \<times> cache_control option) list option"
  lc_parent_session :: "rstr option"
  lc_host :: tool_host

type_synonym chat_provider =
  "nat \<Rightarrow> chat_message list \<Rightarrow> tool_definition list \<Rightarrow> agent_event list \<times> (agent_error + llm_response)"

record loop_env =
  le_llm :: chat_provider
  le_compaction_llm :: "chat_provider option"
  le_cancelled :: "nat \<Rightarrow> bool"
  le_order :: "nat \<Rightarrow> nat \<Rightarrow> nat list"

record loop_state =
  ls_messages :: "chat_message list"
  ls_tokens :: nat
  ls_compaction :: compaction_config
  ls_offset :: u32
  ls_events :: "agent_event list"
  ls_persists :: bool
  ls_persisted :: "agent_message list"
  ls_sent :: "chat_message list list"
  ls_slept :: "nat list"
  ls_polls :: nat
  ls_world :: cworld

definition doom_loop_threshold :: nat where
  "doom_loop_threshold = 3"

definition sid :: "loop_config \<Rightarrow> rstr" where
  "sid cfg = th_session_id (lc_host cfg)"

definition emit :: "agent_event \<Rightarrow> loop_state \<Rightarrow> loop_state" where
  "emit ev st = st\<lparr>ls_events := ls_events st @ [ev]\<rparr>"

definition emits :: "agent_event list \<Rightarrow> loop_state \<Rightarrow> loop_state" where
  "emits evs st = st\<lparr>ls_events := ls_events st @ evs\<rparr>"

definition push :: "chat_message \<Rightarrow> loop_state \<Rightarrow> loop_state" where
  "push m st = st\<lparr>ls_messages := ls_messages st @ [m]\<rparr>"

definition json_insert :: "rstr \<Rightarrow> json \<Rightarrow> json \<Rightarrow> json" where
  "json_insert k v j = (case j of JObj kvs \<Rightarrow> JObj (upsert k v (\<lambda>_. v) kvs) | _ \<Rightarrow> j)"

definition persist_fire_and_forget :: "loop_config \<Rightarrow> agent_message \<Rightarrow> loop_state \<Rightarrow> loop_state" where
  "persist_fire_and_forget cfg msg st =
     (if ls_persists st then
        st\<lparr>ls_persisted := ls_persisted st @
          [case lc_parent_session cfg of
             Some parent \<Rightarrow> msg\<lparr>am_metadata := json_insert ''parent_session_id'' (JStr parent) (am_metadata msg)\<rparr>
           | None \<Rightarrow> msg]\<rparr>
      else st)"

text \<open>\<open>cancel_token.is_cancelled()\<close>\<close>

definition poll :: "loop_env \<Rightarrow> loop_state \<Rightarrow> bool \<times> loop_state" where
  "poll env st = (le_cancelled env (ls_polls st), st\<lparr>ls_polls := Suc (ls_polls st)\<rparr>)"

definition event_context_limit :: "loop_state \<Rightarrow> u32 option" where
  "event_context_limit st =
     (if auto_compact (ls_compaction st) then Some (word_of_nat (context_limit (ls_compaction st))) else None)"

definition update_context_limit :: "nat option \<Rightarrow> loop_state \<Rightarrow> loop_state" where
  "update_context_limit new_window st =
     st\<lparr>ls_compaction := (case new_window of
          Some n \<Rightarrow> (ls_compaction st)\<lparr>context_limit := n, auto_compact := True\<rparr>
        | None \<Rightarrow> (ls_compaction st)\<lparr>auto_compact := False\<rparr>)\<rparr>"

subsection \<open>Construction\<close>

definition system_messages :: "(rstr \<times> cache_control option) list option \<Rightarrow> chat_message list" where
  "system_messages prompt =
     (case prompt of
        None \<Rightarrow> []
      | Some [(txt, None)] \<Rightarrow> [system_msg txt]
      | Some blocks \<Rightarrow>
          [\<lparr>cm_role = ''system'', cm_content = Some (MBlocks (map (\<lambda>(t, cc). TextBlock t cc) blocks)),
            cm_tool_calls = None, cm_tool_call_id = None, cm_name = None, cm_thinking = None\<rparr>])"

definition with_provider :: "loop_config \<Rightarrow> compaction_config \<Rightarrow> cworld \<Rightarrow> loop_state" where
  "with_provider cfg cc w =
     \<lparr>ls_messages = system_messages (lc_system_prompt cfg), ls_tokens = 0, ls_compaction = cc,
      ls_offset = 0, ls_events = [], ls_persists = False, ls_persisted = [], ls_sent = [], ls_slept = [], ls_polls = 0,
      ls_world = w\<rparr>"

definition with_persister :: "loop_state \<Rightarrow> loop_state" where
  "with_persister st = st\<lparr>ls_persists := True\<rparr>"

definition with_initial_token_count :: "nat \<Rightarrow> loop_state \<Rightarrow> loop_state" where
  "with_initial_token_count toks st = st\<lparr>ls_tokens := toks\<rparr>"

definition with_turn_offset :: "u32 \<Rightarrow> loop_state \<Rightarrow> loop_state" where
  "with_turn_offset offset st = st\<lparr>ls_offset := offset\<rparr>"

definition with_parent_session_id :: "rstr \<Rightarrow> loop_config \<Rightarrow> loop_config" where
  "with_parent_session_id parent cfg = cfg\<lparr>lc_parent_session := Some parent\<rparr>"

definition with_approval_handler ::
  "(rstr \<Rightarrow> rstr \<Rightarrow> json \<Rightarrow> rstr \<Rightarrow> approval_decision) \<Rightarrow> loop_config \<Rightarrow> loop_config" where
  "with_approval_handler h cfg = cfg\<lparr>lc_host := (lc_host cfg)\<lparr>th_approval := Some h\<rparr>\<rparr>"

definition with_initial_context :: "loop_config \<Rightarrow> chat_message list \<Rightarrow> loop_state \<Rightarrow> loop_state" where
  "with_initial_context cfg messages st =
     (let st1 = fold (\<lambda>msg. persist_fire_and_forget cfg
            (chat_to_agent_message msg TCompletionSummary
               (if cm_role msg = ''user'' then HumanUser else AgentSender) None)) messages st
      in st1\<lparr>ls_messages := ls_messages st1 @ messages\<rparr>)"

definition with_resumed_context :: "chat_message list \<Rightarrow> loop_state \<Rightarrow> loop_state" where
  "with_resumed_context messages st = st\<lparr>ls_messages := ls_messages st @ messages\<rparr>"

subsection \<open>Calling the model\<close>

text \<open>One request: what is sent is recorded, its events pass on to the loop's channel or are dropped.\<close>

definition chat_completion ::
  "chat_provider \<Rightarrow> bool \<Rightarrow> chat_message list \<Rightarrow> tool_definition list \<Rightarrow> loop_state \<Rightarrow>
   (agent_error + llm_response) \<times> loop_state" where
  "chat_completion llm silent messages tool_defs st =
     (case llm (length (ls_sent st)) messages tool_defs of
        (evs, r) \<Rightarrow> (r, emits (if silent then [] else evs) (st\<lparr>ls_sent := ls_sent st @ [messages]\<rparr>)))"

definition retryable_status :: "nat \<Rightarrow> bool" where
  "retryable_status status \<longleftrightarrow> status \<in> {429, 500, 502, 503, 504}"

fun permanent :: "agent_error \<Rightarrow> bool" where
  "permanent (LlmApiError status body) \<longleftrightarrow> \<not> retryable_status status"
| "permanent _ \<longleftrightarrow> False"

definition retry_notice :: "loop_config \<Rightarrow> nat \<Rightarrow> agent_error option \<Rightarrow> agent_event" where
  "retry_notice cfg attempt last_error =
     ErrorEvent (sid cfg) (''LLM call failed, retrying (attempt '' @ nat_str attempt @ ''/'' @
       nat_str (rc_max_retries (lc_retry cfg)) @ ''): '' @
       (case last_error of Some e \<Rightarrow> error_text e | None \<Rightarrow> [])) True"

definition next_delay :: "retry_config \<Rightarrow> nat \<Rightarrow> nat" where
  "next_delay rc d = min (rc_scale rc d) (rc_max_delay rc)"

definition before_attempt ::
  "loop_config \<Rightarrow> nat \<Rightarrow> nat \<Rightarrow> agent_error option \<Rightarrow> loop_state \<Rightarrow> nat \<times> loop_state" where
  "before_attempt cfg attempt delay last_error st =
     (if attempt = 0 then (delay, st)
      else (next_delay (lc_retry cfg) delay,
            (emit (retry_notice cfg attempt last_error) st)\<lparr>ls_slept := ls_slept st @ [delay]\<rparr>))"

text \<open>The loop over attempts; \<open>n\<close> is how many further attempts there are after this one.\<close>

fun retry_loop ::
  "loop_env \<Rightarrow> loop_config \<Rightarrow> tool_definition list \<Rightarrow> nat \<Rightarrow> nat \<Rightarrow> nat \<Rightarrow> agent_error option \<Rightarrow>
   loop_state \<Rightarrow> (agent_error + llm_response) \<times> loop_state" where
  "retry_loop env cfg tool_defs n attempt delay last_error st =
     (case before_attempt cfg attempt delay last_error st of
        (delay', st0) \<Rightarrow>
          (case chat_completion (le_llm env) False (ls_messages st0) tool_defs st0 of
             (Inr response, st1) \<Rightarrow> (Inr response, st1)
           | (Inl e, st1) \<Rightarrow>
               if e = Cancelled then (Inl e, st1)
               else if permanent e then
                 (Inl e, emit (ErrorEvent (sid cfg) (error_text e) False) st1)
               else (case n of
                   0 \<Rightarrow> (Inl e, emit (ErrorEvent (sid cfg) (''LLM call failed after '' @
                           nat_str (rc_max_retries (lc_retry cfg)) @ '' retries: '' @ error_text e) False) st1)
                 | Suc n' \<Rightarrow> retry_loop env cfg tool_defs n' (Suc attempt) delay' (Some e) st1)))"

declare retry_loop.simps [simp del]

definition call_llm_with_retry ::
  "loop_env \<Rightarrow> loop_config \<Rightarrow> tool_definition list \<Rightarrow> loop_state \<Rightarrow>
   (agent_error + llm_response) \<times> loop_state" where
  "call_llm_with_retry env cfg tool_defs st =
     retry_loop env cfg tool_defs (rc_max_retries (lc_retry cfg)) 0 (rc_initial_delay (lc_retry cfg)) None st"

subsection \<open>Compaction\<close>

definition strip_state :: "loop_state \<Rightarrow> loop_state" where
  "strip_state st = st\<lparr>ls_messages := strip_orphaned_tool_results (ls_messages st)\<rparr>"

definition summary_instructions :: rstr where
  "summary_instructions =
     ''Summarize this conversation. Structure your summary as:'' @ [nl] @
     ''## Goal'' @ [nl] @ ''What the user is trying to accomplish.'' @ [nl] @
     ''## Key Decisions'' @ [nl] @ ''Important choices made and why.'' @ [nl] @
     ''## Work Completed'' @ [nl] @ ''What was done '' @ em_dash @ '' files modified, code written, tests run.'' @ [nl] @
     ''## Current State'' @ [nl] @ ''Where things stand '' @ em_dash @ '' what works, what'' @ [CHR 0x27] @
     ''s broken, what'' @ [CHR 0x27] @ ''s next.'' @ [nl] @
     ''## Relevant Files'' @ [nl] @ ''File paths referenced or modified.'' @ [nl, nl] @
     ''Preserve exact file paths, function names, error messages, and technical details. Be concise but complete.''"

fun summarize_attempts ::
  "chat_provider \<Rightarrow> chat_message list \<Rightarrow> nat \<Rightarrow> loop_state \<Rightarrow> rstr option \<times> loop_state" where
  "summarize_attempts llm msgs 0 st = (None, st)"
| "summarize_attempts llm msgs (Suc n) st =
     (case chat_completion llm True msgs [] st of
        (Inr response, st1) \<Rightarrow>
          let txt = (case lr_content response of Some t \<Rightarrow> t | None \<Rightarrow> [])
          in if str_trim txt \<noteq> [] then (Some txt, st1) else summarize_attempts llm msgs n st1
      | (Inl e, st1) \<Rightarrow> if e = Cancelled then (None, st1) else summarize_attempts llm msgs n st1)"

definition try_llm_summarization ::
  "loop_env \<Rightarrow> nat \<Rightarrow> nat \<Rightarrow> loop_state \<Rightarrow> rstr option \<times> loop_state" where
  "try_llm_summarization env start stop st =
     (let prompt = build_compaction_prompt (take (stop - start) (drop start (ls_messages st)));
          llm = (case le_compaction_llm env of Some c \<Rightarrow> c | None \<Rightarrow> le_llm env)
      in summarize_attempts llm [system_msg summary_instructions, user_msg prompt] 2 st)"

definition apply_compaction :: "loop_config \<Rightarrow> nat \<Rightarrow> nat \<Rightarrow> chat_message \<Rightarrow> loop_state \<Rightarrow> loop_state" where
  "apply_compaction cfg start stop summary st =
     (let st1 = strip_state (st\<lparr>ls_messages := splice_summary (ls_messages st) start stop summary\<rparr>);
          estimate = estimate_token_count (ls_messages st1);
          st2 = st1\<lparr>ls_tokens := estimate\<rparr>
      in emits [TokenUsage (sid cfg) (word_of_nat estimate) (event_context_limit st2) None None,
                CompactionEvent (sid cfg)] st2)"

definition truncation_notice :: rstr where
  "truncation_notice =
     ''[Earlier context was truncated due to length. Some conversation history has been lost.]''"

definition compaction_metadata :: "nat \<Rightarrow> bool \<Rightarrow> json" where
  "compaction_metadata kept_before truncated_flag =
     JObj ([(''kept_before_count'', JInt (int kept_before))] @
       (if truncated_flag then [(''truncated'', JBool True)] else []) @ [(''version'', JInt 1)])"

text \<open>Returns the cooldown: two rounds after a compaction, none when there was nothing to compact.\<close>

definition try_compaction :: "loop_env \<Rightarrow> loop_config \<Rightarrow> loop_state \<Rightarrow> nat \<times> loop_state" where
  "try_compaction env cfg st =
     (case compaction_boundaries (ls_messages st) (keep_recent_messages (ls_compaction st)) of
        None \<Rightarrow> (0, st)
      | Some (start, stop) \<Rightarrow>
          (case try_llm_summarization env start stop st of
             (summary, st1) \<Rightarrow>
               let msg = (case summary of
                      Some t \<Rightarrow> user_msg (''[Context summary from earlier in this conversation]'' @ [nl] @ t)
                    | None \<Rightarrow> user_msg truncation_notice);
                   record_msg = (chat_to_agent_message msg TCompaction AgentSender None)
                     \<lparr>am_metadata := compaction_metadata start (summary = None)\<rparr>
               in (2, apply_compaction cfg start stop msg (persist_fire_and_forget cfg record_msg st1))))"

subsection \<open>A batch of tools\<close>

fun run_tasks ::
  "tool_host \<Rightarrow> u32 \<Rightarrow> tool_call list \<Rightarrow> nat list \<Rightarrow> cworld \<Rightarrow>
   agent_event list \<times> (nat \<times> rstr \<times> tool_result) list \<times> cworld" where
  "run_tasks host turn tcs [] w = ([], [], w)"
| "run_tasks host turn tcs (i # is) w =
     (case execute_tool_call_impl host turn (tcs ! i) w of
        (evs, res, w1) \<Rightarrow>
          (case run_tasks host turn tcs is w1 of
             (evs', results, w2) \<Rightarrow>
               (evs @ evs',
                (case res of Some r \<Rightarrow> (i, tc_id (tcs ! i), r) # results | None \<Rightarrow> results), w2)))"

definition crash_result :: tool_result where
  "crash_result = result_error ''Tool execution crashed unexpectedly. Please try again.''"

definition collect_results ::
  "tool_call list \<Rightarrow> (nat \<times> rstr \<times> tool_result) list \<Rightarrow> (nat \<times> rstr \<times> tool_result) list" where
  "collect_results tcs results =
     (let completed_ids = (\<lambda>(_, i, _). i) ` set results;
          missing = filter (\<lambda>(_, tc). tc_id tc \<notin> completed_ids) (enumerate 0 tcs)
      in sort_key fst (results @ map (\<lambda>(idx, tc). (idx, tc_id tc, crash_result)) missing))"

definition all_failed :: "(nat \<times> rstr \<times> tool_result) list \<Rightarrow> bool" where
  "all_failed results \<longleftrightarrow> results \<noteq> [] \<and> list_all (\<lambda>(_, _, r). tr_is_error r) results"

definition push_result :: "loop_config \<Rightarrow> u32 \<Rightarrow> nat \<times> rstr \<times> tool_result \<Rightarrow> loop_state \<Rightarrow> loop_state" where
  "push_result cfg turn res st =
     (let msg = tool_result_msg (fst (snd res)) (tr_output (snd (snd res)))
      in push msg (persist_fire_and_forget cfg (chat_to_agent_message msg TToolResult AgentSender (Some turn)) st))"

definition first_yield :: "(nat \<times> rstr \<times> tool_result) list \<Rightarrow> json option" where
  "first_yield results = first_some (\<lambda>(_, _, r). tr_yield_data r) results"

definition doom_hint :: rstr where
  "doom_hint = ''You have failed multiple consecutive tool calls. Stop retrying the same approach. Either try a completely different strategy, or explain to the user what is blocking you.''"

text \<open>The new count of failed rounds in a row, and the hint when it reaches the threshold.\<close>

definition doom_step ::
  "loop_config \<Rightarrow> bool \<Rightarrow> nat \<Rightarrow> loop_state \<Rightarrow> nat \<times> loop_state" where
  "doom_step cfg failed failures st =
     (let n = (if failed then failures + 1 else 0)
      in if n \<ge> doom_loop_threshold then
           (0, emit (ErrorEvent (sid cfg) (''Doom loop detected: '' @ nat_str doom_loop_threshold @
                 '' consecutive tool failures '' @ em_dash @ '' injecting course-correction hint'') True)
               (push (system_msg doom_hint) st))
         else (n, st))"

definition str_member :: "rstr \<Rightarrow> json \<Rightarrow> rstr" where
  "str_member k j = str_or [] (get_str k j)"

definition string_items :: "json list \<Rightarrow> rstr list" where
  "string_items xs = List.map_filter as_str xs"

text \<open>A known yield ends the run.\<close>

definition handle_yield ::
  "loop_config \<Rightarrow> json option \<Rightarrow> loop_state \<Rightarrow> agent_result option \<times> loop_state" where
  "handle_yield cfg yield_data st =
     (case yield_data of
        None \<Rightarrow> (None, st)
      | Some data \<Rightarrow>
          if str_member ''yield_type'' data = ''save_plan'' then
            let plan = str_member ''plan'' data; plan_path = str_member ''plan_path'' data
            in (Some (PlanReady plan plan_path),
                emit (PlanReadyEvent (sid cfg) plan plan_path (th_working_dir (lc_host cfg))) st)
          else if str_member ''yield_type'' data = ''ask_user'' then
            let question = str_member ''question'' data;
                options = map_option string_items (get_array ''options'' data)
            in (Some (AskUser question options), emit (UserQuestionAsked (sid cfg) question options) st)
          else (None, st))"

subsection \<open>One round\<close>

text \<open>The local variables of the loop; the round number is the 32-bit counter of the code.\<close>

record turn_vars =
  tv_iteration :: u32
  tv_modified :: "rstr list"
  tv_failures :: nat
  tv_cooldown :: nat
  tv_measured :: nat

type_synonym outcome = "agent_error + agent_result"

definition compact_before_call ::
  "loop_env \<Rightarrow> loop_config \<Rightarrow> turn_vars \<Rightarrow> loop_state \<Rightarrow> turn_vars \<times> loop_state" where
  "compact_before_call env cfg tv st =
     (if tv_cooldown tv = 0 then
        let new_msg_tokens =
              (if tv_measured tv < length (ls_messages st)
               then estimate_token_count (drop (tv_measured tv) (ls_messages st)) else 0)
        in if needs_compaction_by_tokens (ls_tokens st + new_msg_tokens) (length (ls_messages st)) (ls_compaction st)
           then (case try_compaction env cfg st of
                   (cooldown, st1) \<Rightarrow> (tv\<lparr>tv_cooldown := cooldown, tv_measured := length (ls_messages st1)\<rparr>, st1))
           else (tv, st)
      else (tv, st))"

definition record_usage ::
  "loop_config \<Rightarrow> llm_response \<Rightarrow> turn_vars \<Rightarrow> loop_state \<Rightarrow> turn_vars \<times> loop_state" where
  "record_usage cfg response tv st =
     (case lr_usage response of
        None \<Rightarrow> (tv, st)
      | Some u \<Rightarrow>
          let (cache_read, cache_write) = (case prompt_details u of
                 Some d \<Rightarrow> (cached_tokens d, cache_creation_tokens d) | None \<Rightarrow> (None, None));
              st1 = st\<lparr>ls_tokens := unat (total_tokens u)\<rparr>
          in (tv\<lparr>tv_measured := length (ls_messages st)\<rparr>,
              emit (TokenUsage (sid cfg) (total_tokens u) (event_context_limit st1) cache_read cache_write) st1))"

definition current_turn :: "turn_vars \<Rightarrow> loop_state \<Rightarrow> u32" where
  "current_turn tv st = tv_iteration tv + ls_offset st"

definition push_assistant :: "loop_config \<Rightarrow> u32 \<Rightarrow> llm_response \<Rightarrow> loop_state \<Rightarrow> loop_state" where
  "push_assistant cfg turn response st =
     (let tool_calls = (if lr_tool_calls response = [] then None else Some (lr_tool_calls response));
          msg = assistant_msg (lr_content response) tool_calls (lr_thinking response)
      in push msg (persist_fire_and_forget cfg (chat_to_agent_message msg
           (if tool_calls \<noteq> None then TToolCall else TText) AgentSender (Some turn)) st))"

text \<open>An answer without calls ends the run; a blank one is an error.\<close>

definition finish_answer :: "loop_config \<Rightarrow> llm_response \<Rightarrow> loop_state \<Rightarrow> outcome \<times> loop_state" where
  "finish_answer cfg response st =
     (let summary = str_or [] (lr_content response)
      in if str_trim summary = [] then
           (Inl (LlmParseError ''empty response with no tool_calls''),
            emit (ErrorEvent (sid cfg) ''The model returned an empty response. This sometimes happens after context compaction. Please try again.'' False) st)
         else (Inr (Done summary), emit (DoneEvent (sid cfg) (Some summary)) st))"

definition limit_summary :: "loop_config \<Rightarrow> rstr" where
  "limit_summary cfg =
     ''Reached maximum of '' @ nat_str (unat (lc_max_iterations cfg)) @ '' steps. Progress preserved.''"

definition run_batch ::
  "loop_env \<Rightarrow> loop_config \<Rightarrow> turn_vars \<Rightarrow> tool_call list \<Rightarrow> loop_state \<Rightarrow>
   (nat \<times> rstr \<times> tool_result) list \<times> loop_state" where
  "run_batch env cfg tv tcs st =
     (case run_tasks (lc_host cfg) (current_turn tv st) tcs
             (le_order env (unat (tv_iteration tv)) (length tcs)) (ls_world st) of
        (evs, results, w) \<Rightarrow> (collect_results tcs results, emits evs (st\<lparr>ls_world := w\<rparr>)))"

definition turn_completed :: "loop_config \<Rightarrow> turn_vars \<Rightarrow> loop_state \<Rightarrow> loop_state" where
  "turn_completed cfg tv st = emit (TurnCompleted (sid cfg) (current_turn tv st) (tv_modified tv)) st"

text \<open>After the results are in the history: the cancellation check, compaction, the end of the turn.\<close>

definition close_round ::
  "loop_env \<Rightarrow> loop_config \<Rightarrow> turn_vars \<Rightarrow> loop_state \<Rightarrow> (outcome + turn_vars) \<times> loop_state" where
  "close_round env cfg tv st =
     (case poll env st of
        (True, st1) \<Rightarrow>
          (Inl (Inl Cancelled), if tv_modified tv \<noteq> [] then turn_completed cfg tv st1 else st1)
      | (False, st1) \<Rightarrow>
          (case (if tv_cooldown tv > 0 then (tv\<lparr>tv_cooldown := tv_cooldown tv - 1\<rparr>, st1)
                 else if needs_compaction_by_tokens (ls_tokens st1) (length (ls_messages st1)) (ls_compaction st1)
                 then (case try_compaction env cfg st1 of
                         (cooldown, st2) \<Rightarrow> (tv\<lparr>tv_cooldown := cooldown, tv_measured := length (ls_messages st2)\<rparr>, st2))
                 else (tv, st1)) of
             (tv2, st2) \<Rightarrow> (Inr (tv2\<lparr>tv_modified := []\<rparr>), turn_completed cfg tv2 st2)))"

definition tool_round ::
  "loop_env \<Rightarrow> loop_config \<Rightarrow> turn_vars \<Rightarrow> tool_call list \<Rightarrow> loop_state \<Rightarrow> (outcome + turn_vars) \<times> loop_state" where
  "tool_round env cfg tv tcs st =
     (case poll env st of
        (True, st1) \<Rightarrow> (Inl (Inl Cancelled), st1)
      | (False, st1) \<Rightarrow>
          (case run_batch env cfg tv tcs st1 of
             (results, st2) \<Rightarrow>
               let st3 = fold (push_result cfg (current_turn tv st2)) results st2;
                   files = concat (map (\<lambda>(_, _, r). tr_modified_files r) results)
               in case doom_step cfg (all_failed results) (tv_failures tv) st3 of
                    (failures, st4) \<Rightarrow>
                      (case handle_yield cfg (first_yield results) st4 of
                         (Some res, st5) \<Rightarrow> (Inl (Inr res), st5)
                       | (None, st5) \<Rightarrow>
                           close_round env cfg
                             (tv\<lparr>tv_failures := failures, tv_modified := tv_modified tv @ files\<rparr>) st5)))"

definition answer_round ::
  "loop_env \<Rightarrow> loop_config \<Rightarrow> turn_vars \<Rightarrow> loop_state \<Rightarrow> (outcome + turn_vars) \<times> loop_state" where
  "answer_round env cfg tv st =
     (case compact_before_call env cfg tv st of
        (tv1, st1) \<Rightarrow>
          (case call_llm_with_retry env cfg (tool_definitions (th_registry (lc_host cfg))) (strip_state st1) of
             (Inl e, st2) \<Rightarrow> (Inl (Inl e), st2)
           | (Inr response, st2) \<Rightarrow>
               (case record_usage cfg response tv1 st2 of
                  (tv3, st3) \<Rightarrow>
                    let st4 = push_assistant cfg (current_turn tv3 st3) response st3
                    in if lr_tool_calls response = [] then
                         (case finish_answer cfg response st4 of (r, st5) \<Rightarrow> (Inl r, st5))
                       else tool_round env cfg tv3 (lr_tool_calls response) st4)))"

definition loop_round ::
  "loop_env \<Rightarrow> loop_config \<Rightarrow> turn_vars \<Rightarrow> loop_state \<Rightarrow> (outcome + turn_vars) \<times> loop_state" where
  "loop_round env cfg tv st =
     (case poll env st of
        (True, st1) \<Rightarrow> (Inl (Inl Cancelled), st1)
      | (False, st1) \<Rightarrow>
          let tv1 = tv\<lparr>tv_iteration := tv_iteration tv + 1\<rparr>
          in if tv_iteration tv1 > lc_max_iterations cfg then
               (Inl (Inr (Done (limit_summary cfg))), emit (DoneEvent (sid cfg) (Some (limit_summary cfg))) st1)
             else answer_round env cfg tv1 st1)"

subsection \<open>The whole run\<close>

text \<open>
  The loop need not end: with \<open>max_iterations\<close> the largest 32-bit number the counter wraps before it
  exceeds it. The value \<open>None\<close> of \<open>run_loop\<close> stands for that.
\<close>

partial_function (option) run_loop ::
  "loop_env \<Rightarrow> loop_config \<Rightarrow> turn_vars \<Rightarrow> loop_state \<Rightarrow> (outcome \<times> loop_state) option" where
  "run_loop env cfg tv st =
     (case loop_round env cfg tv st of
        (Inl r, st1) \<Rightarrow> Some (r, st1)
      | (Inr tv1, st1) \<Rightarrow> run_loop env cfg tv1 st1)"

definition start_vars :: "loop_state \<Rightarrow> turn_vars" where
  "start_vars st = \<lparr>tv_iteration = 0, tv_modified = [], tv_failures = 0, tv_cooldown = 0,
     tv_measured = length (ls_messages st)\<rparr>"

definition correct_tokens :: "loop_state \<Rightarrow> loop_state" where
  "correct_tokens st =
     (if length (ls_messages st) > 2 \<and> estimate_token_count (ls_messages st) > ls_tokens st
      then st\<lparr>ls_tokens := estimate_token_count (ls_messages st)\<rparr> else st)"

text \<open>The preview of the user's message for the log: the first 100 bytes, a panic inside a character.\<close>

definition user_text_preview :: "chat_message \<Rightarrow> rstr option" where
  "user_text_preview msg =
     (case cm_content msg of
        None \<Rightarrow> Some []
      | Some c \<Rightarrow> str_slice (content_text c) 0 (min (length (content_text c)) 100))"

definition push_user :: "loop_config \<Rightarrow> chat_message \<Rightarrow> loop_state \<Rightarrow> loop_state" where
  "push_user cfg msg st =
     push msg (persist_fire_and_forget cfg
       (chat_to_agent_message msg TText HumanUser (Some (1 + ls_offset st))) st)"

datatype run_end = Returned outcome | Crashed

definition run_inner ::
  "loop_env \<Rightarrow> loop_config \<Rightarrow> chat_message \<Rightarrow> loop_state \<Rightarrow> (run_end \<times> loop_state) option" where
  "run_inner env cfg msg st =
     (case user_text_preview msg of
        None \<Rightarrow> Some (Crashed, st)
      | Some _ \<Rightarrow>
          let st1 = push_user cfg msg st
          in case run_loop env cfg (start_vars st1) (correct_tokens st1) of
               None \<Rightarrow> None
             | Some (r, st2) \<Rightarrow> Some (Returned r, st2))"

text \<open>\<open>run\<close> also closes the persister's channel, so a second run on the same loop persists nothing.\<close>

definition run_agent ::
  "loop_env \<Rightarrow> loop_config \<Rightarrow> chat_message \<Rightarrow> loop_state \<Rightarrow> (run_end \<times> loop_state) option" where
  "run_agent env cfg msg st =
     (case run_inner env cfg msg st of
        Some (Returned r, st1) \<Rightarrow> Some (Returned r, st1\<lparr>ls_persists := False\<rparr>)
      | other \<Rightarrow> other)"

end
