(* ===== verification/LoopRuns.thy ===== *)
theory LoopRuns
  imports AgentLoop
begin

section \<open>What a run of the agent loop guarantees\<close>

text \<open>
  Lemmas and properties of the loop of \<open>AgentLoop\<close>: what each step does to the state, the results
  of a batch of tools, the contract \<open>history_contract\<close> between the history operations and the loop
  with its two interpretations (requests a provider accepts, and histories made of turns), the
  induction rule over rounds, and the properties of a run: it ends within a budget of requests, what
  it sends is well formed, retries, the doom loop detection, cancellation, and what is persisted.
\<close>

subsection \<open>What the steps do to the state\<close>

named_theorems loop_defs \<open>the steps that only record something\<close>

lemmas loop_record_defs [loop_defs] = emit_def emits_def push_def persist_fire_and_forget_def poll_def
  strip_state_def record_usage_def finish_answer_def turn_completed_def

text \<open>\<open>k\<close> requests with the same messages leave everything but the channels as it was.\<close>

definition requests :: "nat \<Rightarrow> chat_message list \<Rightarrow> loop_state \<Rightarrow> loop_state \<Rightarrow> bool" where
  "requests k ms st st' \<longleftrightarrow>
     ls_messages st' = ls_messages st \<and> ls_tokens st' = ls_tokens st \<and> ls_compaction st' = ls_compaction st \<and>
     ls_offset st' = ls_offset st \<and> ls_persists st' = ls_persists st \<and> ls_persisted st' = ls_persisted st \<and>
     ls_sent st' = ls_sent st @ replicate k ms \<and> ls_polls st' = ls_polls st \<and> ls_world st' = ls_world st \<and>
     prefix (ls_events st) (ls_events st')"

lemma requests_fields:
  assumes "requests k ms st st'"
  shows "ls_messages st' = ls_messages st" "ls_tokens st' = ls_tokens st"
    "ls_compaction st' = ls_compaction st" "ls_offset st' = ls_offset st"
    "ls_persists st' = ls_persists st" "ls_persisted st' = ls_persisted st"
    "ls_sent st' = ls_sent st @ replicate k ms" "ls_polls st' = ls_polls st" "ls_world st' = ls_world st"
    "prefix (ls_events st) (ls_events st')"
  using assms by (auto simp: requests_def)

lemma requests_0 [intro]: "requests 0 ms st st"
  by (simp add: requests_def)

lemma requests_trans: "requests j ms st st1 \<Longrightarrow> requests k ms st1 st2 \<Longrightarrow> requests (j + k) ms st st2"
  unfolding requests_def by (auto simp: replicate_add)

lemma requests_emit: "requests k ms st st' \<Longrightarrow> requests k ms st (emit ev st')"
  unfolding requests_def emit_def by simp

lemma chat_completion_requests:
  assumes "chat_completion llm silent ms tool_defs st = (r, st')"
  shows "requests 1 ms st st'" "\<exists>evs. llm (length (ls_sent st)) ms tool_defs = (evs, r)"
proof -
  obtain evs r' where l: "llm (length (ls_sent st)) ms tool_defs = (evs, r')" by fastforce
  with assms have r: "r' = r" and st': "st' = emits (if silent then [] else evs) (st\<lparr>ls_sent := ls_sent st @ [ms]\<rparr>)"
    by (auto simp: chat_completion_def)
  show "requests 1 ms st st'"
    by (simp add: requests_def st' emits_def)
  from l r show "\<exists>evs. llm (length (ls_sent st)) ms tool_defs = (evs, r)" by blast
qed

lemma before_attempt_requests: "requests 0 ms st (snd (before_attempt cfg attempt d e st))"
  by (simp add: before_attempt_def emit_def requests_def)

lemma attempt_requests:
  assumes "before_attempt cfg attempt d e st = (d', st0)"
    "chat_completion llm silent (ls_messages st0) tool_defs st0 = (r, st1)"
  shows "requests 1 (ls_messages st) st st1" "\<exists>i ms evs. llm i ms tool_defs = (evs, r)"
proof -
  from before_attempt_requests [of "ls_messages st" st cfg attempt d e] assms(1)
  have r0: "requests 0 (ls_messages st) st st0" by simp
  from chat_completion_requests [OF assms(2)] requests_fields(1) [OF r0] requests_trans [OF r0]
  show "requests 1 (ls_messages st) st st1" "\<exists>i ms evs. llm i ms tool_defs = (evs, r)"
    by (metis plus_nat.add_0, metis)
qed

text \<open>One turn of the retry loop, by what the provider answered.\<close>

lemma retry_loop_step:
  assumes "before_attempt cfg attempt d e st = (d', st0)"
    "chat_completion (le_llm env) False (ls_messages st0) tool_defs st0 = (r, st1)"
  shows "r = Inr response \<Longrightarrow> retry_loop env cfg tool_defs n attempt d e st = (r, st1)"
    "r = Inl Cancelled \<Longrightarrow> retry_loop env cfg tool_defs n attempt d e st = (r, st1)"
    "r = Inl err \<Longrightarrow> permanent err \<Longrightarrow> retry_loop env cfg tool_defs n attempt d e st =
       (r, emit (ErrorEvent (sid cfg) (error_text err) False) st1)"
    "r = Inl err \<Longrightarrow> err \<noteq> Cancelled \<Longrightarrow> \<not> permanent err \<Longrightarrow> retry_loop env cfg tool_defs 0 attempt d e st =
       (r, emit (ErrorEvent (sid cfg) (''LLM call failed after '' @
          nat_str (rc_max_retries (lc_retry cfg)) @ '' retries: '' @ error_text err) False) st1)"
    "r = Inl err \<Longrightarrow> err \<noteq> Cancelled \<Longrightarrow> \<not> permanent err \<Longrightarrow>
       retry_loop env cfg tool_defs (Suc n) attempt d e st =
       retry_loop env cfg tool_defs n (Suc attempt) d' (Some err) st1"
  using assms by (subst retry_loop.simps; force)+

lemma retry_loop_requests:
  assumes "retry_loop env cfg tool_defs n attempt d e st = (r, st')"
  shows "(\<exists>k \<le> n. requests (Suc k) (ls_messages st) st st') \<and>
    (\<forall>response. r = Inr response \<longrightarrow> (\<exists>i ms evs. le_llm env i ms tool_defs = (evs, r)))"
  using assms
proof (induction n arbitrary: attempt d e st)
  case (0 attempt d e st)
  obtain d' st0 where b: "before_attempt cfg attempt d e st = (d', st0)" by fastforce
  obtain r1 st1 where c: "chat_completion (le_llm env) False (ls_messages st0) tool_defs st0 = (r1, st1)" by fastforce
  note step = retry_loop_step [OF b c] and one = attempt_requests [OF b c]
  have "r = r1 \<and> (st' = st1 \<or> (\<exists>ev. st' = emit ev st1))"
  proof (cases r1)
    case (Inl err)
    with 0 step(2,3,4) show ?thesis by (cases "err = Cancelled"; cases "permanent err") auto
  qed (use 0 step(1) in auto)
  with one show ?case by (auto intro: requests_emit)
next
  case (Suc n attempt d e st)
  obtain d' st0 where b: "before_attempt cfg attempt d e st = (d', st0)" by fastforce
  obtain r1 st1 where c: "chat_completion (le_llm env) False (ls_messages st0) tool_defs st0 = (r1, st1)" by fastforce
  note step = retry_loop_step [OF b c] and one = attempt_requests [OF b c]
  consider "r = r1" "st' = st1 \<or> (\<exists>ev. st' = emit ev st1)"
    | err where "retry_loop env cfg tool_defs n (Suc attempt) d' (Some err) st1 = (r, st')"
  proof (cases r1)
    case (Inl err)
    with Suc.prems step(2,3,5) that show ?thesis by (cases "err = Cancelled"; cases "permanent err") auto
  qed (use Suc.prems step(1) that in auto)
  then show ?case
  proof cases
    case 1
    with one show ?thesis by (auto intro: requests_emit exI [of _ 0])
  next
    case 2
    from Suc.IH [OF this] requests_fields(1) [OF one(1)] obtain k
      where k: "k \<le> n" "requests (Suc k) (ls_messages st) st1 st'"
        "\<forall>response. r = Inr response \<longrightarrow> (\<exists>i ms evs. le_llm env i ms tool_defs = (evs, r))"
      by auto
    from requests_trans [OF one(1) k(2)] have "requests (Suc (Suc k)) (ls_messages st) st st'" by simp
    with k show ?thesis by (auto intro: exI [of _ "Suc k"])
  qed
qed

lemma call_llm_requests:
  assumes "call_llm_with_retry env cfg tool_defs st = (r, st')"
  obtains k where "k \<le> rc_max_retries (lc_retry cfg)" "requests (Suc k) (ls_messages st) st st'"
  using retry_loop_requests assms unfolding call_llm_with_retry_def by blast

lemma call_llm_response:
  assumes "call_llm_with_retry env cfg tool_defs st = (Inr response, st')"
  shows "\<exists>i ms evs. le_llm env i ms tool_defs = (evs, Inr response)"
  using retry_loop_requests [OF assms [unfolded call_llm_with_retry_def]] by simp

lemma summarize_requests:
  "summarize_attempts llm ms n st = (r, st') \<Longrightarrow> \<exists>k \<le> n. requests k ms st st'"
proof (induction n arbitrary: st)
  case (Suc n)
  obtain r1 st1 where c: "chat_completion llm True ms [] st = (r1, st1)" by fastforce
  note one = chat_completion_requests(1) [OF c]
  show ?case
  proof (cases "(r, st') = (r, st1)")
    case True
    with one show ?thesis by (auto intro: exI [of _ 1])
  next
    case False
    with Suc.prems c have "summarize_attempts llm ms n st1 = (r, st')"
      by (auto simp: Let_def split: sum.splits if_splits)
    from Suc.IH [OF this] obtain k where "k \<le> n" "requests k ms st1 st'" by blast
    with requests_trans [OF one this(2)] show ?thesis by (auto intro: exI [of _ "Suc k"])
  qed
qed auto

subsection \<open>Collecting the results of a batch\<close>

type_synonym tagged_result = "nat \<times> rstr \<times> tool_result"

definition of_batch :: "tool_call list \<Rightarrow> tagged_result list \<Rightarrow> bool" where
  "of_batch tcs results \<longleftrightarrow> distinct (map fst results) \<and>
     (\<forall>(i, call_id, r) \<in> set results. i < length tcs \<and> call_id = tc_id (tcs ! i))"

lemma run_tasks_of_batch:
  assumes "distinct is" "set is \<subseteq> {..<length tcs}" "run_tasks host turn tcs is w = (evs, results, w')"
  shows "of_batch tcs results \<and> fst ` set results \<subseteq> set is"
  using assms
proof (induction "is" arbitrary: w evs results w')
  case (Cons i js)
  obtain evs1 res w1 where e: "execute_tool_call_impl host turn (tcs ! i) w = (evs1, res, w1)"
    using prod_cases3 by blast
  obtain evs2 results2 w2 where r: "run_tasks host turn tcs js w1 = (evs2, results2, w2)"
    using prod_cases3 by blast
  from Cons.IH [OF _ _ r] Cons.prems(1,2) have "of_batch tcs results2" "fst ` set results2 \<subseteq> set js" by auto
  moreover have "results = (case res of Some x \<Rightarrow> (i, tc_id (tcs ! i), x) # results2 | None \<Rightarrow> results2)"
    using Cons.prems(3) e r by simp
  ultimately show ?case
    using Cons.prems(1,2) by (fastforce simp: of_batch_def split: option.splits)
qed (simp add: of_batch_def)

lemma sort_key_eq_upt:
  fixes xs :: "tagged_result list"
  assumes "distinct (map fst xs)" "set (map fst xs) = {..<n}"
  shows "map fst (sort_key fst xs) = [0..<n]"
  by (rule sorted_distinct_set_unique) (use assms in \<open>auto simp: distinct_map\<close>)

lemma of_batch_completed:
  assumes "of_batch tcs results" "distinct (map tc_id tcs)" "i < length tcs"
  shows "tc_id (tcs ! i) \<in> (\<lambda>(_, call_id, _). call_id) ` set results \<longleftrightarrow> i \<in> fst ` set results"
proof
  assume "tc_id (tcs ! i) \<in> (\<lambda>(_, call_id, _). call_id) ` set results"
  then obtain j r where j: "(j, tc_id (tcs ! i), r) \<in> set results" by force
  with assms(1) have "j < length tcs" "tc_id (tcs ! i) = tc_id (tcs ! j)" by (auto simp: of_batch_def)
  with assms(2,3) have "i = j" by (metis length_map nth_eq_iff_index_eq nth_map)
  with j show "i \<in> fst ` set results" by force
next
  assume "i \<in> fst ` set results"
  then obtain call_id r where "(i, call_id, r) \<in> set results" by force
  with assms(1) show "tc_id (tcs ! i) \<in> (\<lambda>(_, call_id, _). call_id) ` set results"
    by (force simp: of_batch_def)
qed

lemma filter_enumerate:
  assumes "\<And>i. i < length tcs \<Longrightarrow> tc_id (tcs ! i) \<in> D \<longleftrightarrow> i \<in> F"
  shows "set (filter (\<lambda>(_, tc). tc_id tc \<notin> D) (enumerate 0 tcs)) = {(i, tcs ! i) | i. i < length tcs \<and> i \<notin> F}"
  using assms by (auto simp: in_set_enumerate_eq)

lemma collect_results_order:
  assumes "of_batch tcs results" "distinct (map tc_id tcs)"
  shows "map (\<lambda>(i, call_id, _). (i, call_id)) (collect_results tcs results) = enumerate 0 (map tc_id tcs)"
    "set (collect_results tcs results) = set results \<union>
       {(i, tc_id (tcs ! i), crash_result) | i. i < length tcs \<and> i \<notin> fst ` set results}"
proof -
  let ?done = "(\<lambda>(_, call_id, _). call_id) ` set results"
  let ?missing = "filter (\<lambda>(_, tc). tc_id tc \<notin> ?done) (enumerate 0 tcs)"
  let ?all = "results @ map (\<lambda>(idx, tc). (idx, tc_id tc, crash_result)) ?missing"
  have miss: "set ?missing = {(i, tcs ! i) | i. i < length tcs \<and> i \<notin> fst ` set results}"
    by (rule filter_enumerate) (rule of_batch_completed [OF assms])
  have m: "map fst (map (\<lambda>(idx, tc). (idx, tc_id tc, crash_result)) ?missing) = map fst ?missing"
    by (simp add: case_prod_unfold)
  have "distinct (map fst ?missing)"
    by (rule distinct_map_filter) (simp add: enumerate_eq_zip)
  moreover have "fst ` set ?missing = {i. i < length tcs \<and> i \<notin> fst ` set results}"
    unfolding miss by force
  ultimately have "distinct (map fst results @ map fst ?missing)"
    "fst ` set results \<union> fst ` set ?missing = {..<length tcs}"
    using assms(1) by (auto simp: of_batch_def)
  moreover have all: "map fst ?all = map fst results @ map fst ?missing"
    unfolding map_append m ..
  ultimately have "distinct (map fst ?all)" "set (map fst ?all) = {..<length tcs}"
    unfolding all by (simp_all only: set_append set_map)
  note keys = sort_key_eq_upt [OF this]
  have c: "collect_results tcs results = sort_key fst ?all"
    by (simp add: collect_results_def Let_def)
  show s: "set (collect_results tcs results) = set results \<union>
       {(i, tc_id (tcs ! i), crash_result) | i. i < length tcs \<and> i \<notin> fst ` set results}"
    unfolding c set_sort set_append set_map miss by auto
  have "call_id = tc_id (tcs ! i)" if "(i, call_id, r) \<in> set (collect_results tcs results)" for i call_id r
    using that assms(1) unfolding s of_batch_def by blast
  then have "map (\<lambda>(i, call_id, _). (i, call_id)) (collect_results tcs results) =
      map (\<lambda>i. (i, tc_id (tcs ! i))) (map fst (collect_results tcs results))"
    unfolding map_map comp_def by (intro map_cong refl) (metis (no_types, lifting) case_prod_unfold prod.collapse)
  also have "\<dots> = enumerate 0 (map tc_id tcs)"
    using keys unfolding c by (intro nth_equalityI) (auto simp: enumerate_eq_zip)
  finally show "map (\<lambda>(i, call_id, _). (i, call_id)) (collect_results tcs results) = enumerate 0 (map tc_id tcs)" .
qed

lemma collect_results_set:
  "(i, call_id, r) \<in> set (collect_results tcs results) \<Longrightarrow>
     (i, call_id, r) \<in> set results \<or> (\<exists>tc \<in> set tcs. call_id = tc_id tc \<and> r = crash_result)"
  by (auto simp: collect_results_def Let_def enumerate_eq_zip dest: set_zip_rightD)

definition result_message :: "tagged_result \<Rightarrow> chat_message" where
  "result_message res = tool_result_msg (fst (snd res)) (tr_output (snd (snd res)))"

lemma result_message_answers:
  assumes "map (\<lambda>(i, call_id, _). (i, call_id)) results = enumerate 0 (map tc_id tcs)"
  shows "answers tcs (map result_message results)"
proof -
  have "map (\<lambda>(i, call_id, _). call_id) results = map tc_id tcs"
    using arg_cong [OF assms, of "map snd"] by (simp add: enumerate_eq_zip case_prod_unfold comp_def)
  then have "list_all2 (\<lambda>tc res. tc_id tc = fst (snd res)) tcs results"
    by (auto simp: list_all2_conv_all_nth case_prod_unfold list_eq_iff_nth_eq)
  then show ?thesis
    by (simp add: answers_def list_all2_map2 result_message_def is_tool_msg_def msg_defs list.rel_mono_strong)
qed

subsection \<open>Every request of a run\<close>

text \<open>The requests made between two states: at most \<open>k\<close>, each with a history that satisfies \<open>P\<close>.\<close>

definition sends :: "(chat_message list \<Rightarrow> bool) \<Rightarrow> nat \<Rightarrow> loop_state \<Rightarrow> loop_state \<Rightarrow> bool" where
  "sends P k st st' \<longleftrightarrow> (\<exists>hs. ls_sent st' = ls_sent st @ hs \<and> length hs \<le> k \<and> list_all P hs)"

lemma sends_none: "ls_sent st' = ls_sent st \<Longrightarrow> sends P k st st'"
  by (simp add: sends_def)

lemma sends_trans: "sends P j st st1 \<Longrightarrow> sends P k st1 st2 \<Longrightarrow> j + k \<le> n \<Longrightarrow> sends P n st st2"
  unfolding sends_def by (elim exE, rename_tac hs1 hs2, rule_tac x = "hs1 @ hs2" in exI) simp

lemma sends_cong:
  "ls_sent st1 = ls_sent st \<Longrightarrow> ls_sent st2 = ls_sent st' \<Longrightarrow> sends P k st1 st2 \<longleftrightarrow> sends P k st st'"
  by (simp add: sends_def)

lemma requests_sends: "requests j ms st st' \<Longrightarrow> P ms \<Longrightarrow> j \<le> k \<Longrightarrow> sends P k st st'"
  by (auto simp: sends_def requests_def list_all_iff)

text \<open>The order in which a batch completes is some order of its tasks.\<close>

definition fair_schedule :: "loop_env \<Rightarrow> bool" where
  "fair_schedule env \<longleftrightarrow> (\<forall>turn n. distinct (le_order env turn n) \<and> set (le_order env turn n) = {..<n})"

text \<open>What the provider answers to the loop's requests satisfies a predicate on its calls.\<close>

definition answers_with :: "loop_env \<Rightarrow> (tool_call list \<Rightarrow> bool) \<Rightarrow> bool" where
  "answers_with env Q \<longleftrightarrow>
     (\<forall>i ms defs evs response. le_llm env i ms defs = (evs, Inr response) \<longrightarrow> Q (lr_tool_calls response))"

lemma persist_fields [simp]:
  "ls_messages (persist_fire_and_forget cfg m st) = ls_messages st"
  "ls_tokens (persist_fire_and_forget cfg m st) = ls_tokens st"
  "ls_compaction (persist_fire_and_forget cfg m st) = ls_compaction st"
  "ls_sent (persist_fire_and_forget cfg m st) = ls_sent st"
  "ls_offset (persist_fire_and_forget cfg m st) = ls_offset st"
  "ls_polls (persist_fire_and_forget cfg m st) = ls_polls st"
  "ls_events (persist_fire_and_forget cfg m st) = ls_events st"
  "ls_world (persist_fire_and_forget cfg m st) = ls_world st"
  "ls_persists (persist_fire_and_forget cfg m st) = ls_persists st"
  by (simp_all add: persist_fire_and_forget_def)

lemma push_results_fields:
  "ls_messages (fold (push_result cfg turn) results st) = ls_messages st @ map result_message results"
  "ls_sent (fold (push_result cfg turn) results st) = ls_sent st"
  "ls_polls (fold (push_result cfg turn) results st) = ls_polls st"
  "ls_events (fold (push_result cfg turn) results st) = ls_events st"
  "ls_offset (fold (push_result cfg turn) results st) = ls_offset st"
  "ls_persists (fold (push_result cfg turn) results st) = ls_persists st"
  "ls_world (fold (push_result cfg turn) results st) = ls_world st"
  by (induction results arbitrary: st) (simp_all add: push_result_def push_def result_message_def Let_def)

lemma push_assistant_fields:
  "ls_messages (push_assistant cfg turn response st) = ls_messages st @
     [assistant_msg (lr_content response)
        (if lr_tool_calls response = [] then None else Some (lr_tool_calls response)) (lr_thinking response)]"
  "ls_sent (push_assistant cfg turn response st) = ls_sent st"
  "ls_polls (push_assistant cfg turn response st) = ls_polls st"
  "ls_events (push_assistant cfg turn response st) = ls_events st"
  by (simp_all add: push_assistant_def push_def Let_def)

lemma doom_step_fields:
  assumes "doom_step cfg failed n st = (n', st')"
  shows "ls_messages st' = ls_messages st @
      (if failed \<and> n + 1 \<ge> doom_loop_threshold then [system_msg doom_hint] else [])"
    "ls_sent st' = ls_sent st" "ls_polls st' = ls_polls st" "ls_persisted st' = ls_persisted st"
    "ls_persists st' = ls_persists st"
    "n' = (if failed \<and> n + 1 < doom_loop_threshold then n + 1 else 0)"
  using assms by (auto simp: doom_step_def push_def emit_def Let_def doom_loop_threshold_def split: if_splits)

lemma handle_yield_fields:
  assumes "handle_yield cfg y st = (r, st')"
  shows "ls_messages st' = ls_messages st" "ls_sent st' = ls_sent st" "ls_polls st' = ls_polls st"
    "ls_persisted st' = ls_persisted st" "ls_persists st' = ls_persists st"
  using assms by (auto simp: handle_yield_def emit_def Let_def split: option.splits if_splits)

lemma record_usage_fields:
  assumes "record_usage cfg response tv st = (tv', st')"
  shows "ls_messages st' = ls_messages st" "ls_sent st' = ls_sent st" "ls_polls st' = ls_polls st"
    "ls_persisted st' = ls_persisted st" "ls_persists st' = ls_persists st"
    "tv_iteration tv' = tv_iteration tv" "tv_cooldown tv' = tv_cooldown tv"
    "tv_failures tv' = tv_failures tv" "tv_modified tv' = tv_modified tv"
  using assms by (auto simp: record_usage_def emit_def Let_def split: option.splits prod.splits)

lemma run_batch_fields:
  assumes "run_batch env cfg tv tcs st = (results, st')" "fair_schedule env"
  obtains rs where "of_batch tcs rs" "results = collect_results tcs rs"
    "ls_messages st' = ls_messages st" "ls_sent st' = ls_sent st" "ls_polls st' = ls_polls st"
    "ls_persisted st' = ls_persisted st" "ls_persists st' = ls_persists st"
proof -
  obtain evs rs w where r: "run_tasks (lc_host cfg) (current_turn tv st) tcs
      (le_order env (unat (tv_iteration tv)) (length tcs)) (ls_world st) = (evs, rs, w)"
    using prod_cases3 by blast
  with run_tasks_of_batch [OF _ _ r] assms(2) have "of_batch tcs rs" by (simp add: fair_schedule_def)
  with that r assms(1) show thesis by (auto simp: run_batch_def emits_def)
qed

lemma try_compaction_cases:
  assumes "try_compaction env cfg st = (c, st')"
  obtains (unchanged) "c = 0" "st' = st"
  | (compacted) k start stop t prompt where "c = 2" "k \<le> 2"
      "compaction_boundaries (ls_messages st) (keep_recent_messages (ls_compaction st)) = Some (start, stop)"
      "ls_messages st' = strip_orphaned_tool_results (splice_summary (ls_messages st) start stop (user_msg t))"
      "ls_sent st' = ls_sent st @ replicate k [system_msg summary_instructions, user_msg prompt]"
      "ls_polls st' = ls_polls st" "ls_persists st' = ls_persists st"
      "CompactionEvent (sid cfg) \<in> set (ls_events st')"
proof (cases "compaction_boundaries (ls_messages st) (keep_recent_messages (ls_compaction st))")
  case None
  with assms unchanged show thesis by (simp add: try_compaction_def)
next
  case (Some b)
  obtain start stop where b: "b = (start, stop)" by fastforce
  obtain summary st1 where t: "try_llm_summarization env start stop st = (summary, st1)" by fastforce
  from t [unfolded try_llm_summarization_def Let_def, THEN summarize_requests] obtain k prompt
    where k: "k \<le> 2" "requests k [system_msg summary_instructions, user_msg prompt] st st1" by blast
  note f = requests_fields [OF k(2)]
  show thesis
    by (rule compacted [OF _ k(1), of start stop
          "case summary of Some t \<Rightarrow> ''[Context summary from earlier in this conversation]'' @ [nl] @ t
             | None \<Rightarrow> truncation_notice" prompt])
      (use assms Some b t f in \<open>auto simp: try_compaction_def apply_compaction_def strip_state_def emits_def Let_def
         split: option.splits\<close>)
qed

text \<open>
  The contract between the history operations and the loop: what the loop relies on so that every
  request satisfies \<open>P\<close>, with \<open>J\<close> what holds of the history between rounds and \<open>Acc\<close> what the
  provider promises about the calls of an answer.
\<close>

locale history_contract =
  fixes J P :: "chat_message list \<Rightarrow> bool" and Acc :: "tool_call list \<Rightarrow> bool"
  assumes stripped: "J ms \<Longrightarrow> P (strip_orphaned_tool_results ms) \<and> J (strip_orphaned_tool_results ms)"
    and summary_request: "P [system_msg t, user_msg u]"
    and spliced: "J ms \<Longrightarrow> compaction_boundaries ms keep = Some (start, stop) \<Longrightarrow>
      J (strip_orphaned_tool_results (splice_summary ms start stop (user_msg t)))"
    and extended: "J ms \<Longrightarrow> plain_msg m \<Longrightarrow> J (ms @ [m])"
    and batch: "J ms \<Longrightarrow> Acc tcs \<Longrightarrow> tcs \<noteq> [] \<Longrightarrow> of_batch tcs rs \<Longrightarrow>
      J ((ms @ [assistant_msg c (Some tcs) th]) @ map result_message (collect_results tcs rs))"
begin

lemma compaction_keeps:
  assumes "J (ls_messages st)" "try_compaction env cfg st = (c, st')"
  shows "J (ls_messages st')" "sends P (if c = 0 then 0 else 2) st st'"
proof -
  from assms(2) have "J (ls_messages st') \<and> sends P (if c = 0 then 0 else 2) st st'"
  proof (cases rule: try_compaction_cases)
    case unchanged
    with assms(1) show ?thesis by (simp add: sends_none)
  next
    case (compacted k start stop t prompt)
    with spliced [OF assms(1) compacted(3)] summary_request show ?thesis
      by (auto simp: sends_def list_all_iff)
  qed
  then show "J (ls_messages st')" "sends P (if c = 0 then 0 else 2) st st'" by simp_all
qed

lemma before_call_keeps:
  assumes "J (ls_messages st)" "compact_before_call env cfg tv st = (tv', st')"
  shows "J (ls_messages st') \<and> sends P (if tv_cooldown tv' = 0 then 0 else 2) st st' \<and>
    tv_iteration tv' = tv_iteration tv"
proof -
  obtain c st1 where t: "try_compaction env cfg st = (c, st1)" by fastforce
  let ?tv = "tv\<lparr>tv_cooldown := c, tv_measured := length (ls_messages st1)\<rparr>"
  have "compact_before_call env cfg tv st = (tv, st) \<or> compact_before_call env cfg tv st = (?tv, st1)"
    by (simp add: compact_before_call_def Let_def t)
  with assms(2) have "(tv', st') = (tv, st) \<or> (tv', st') = (?tv, st1)" by simp
  then show ?thesis
  proof
    assume "(tv', st') = (tv, st)"
    with assms(1) show ?thesis by (simp add: sends_none)
  next
    assume "(tv', st') = (?tv, st1)"
    then have "tv' = ?tv" "st' = st1" by simp_all
    with compaction_keeps [OF assms(1) t] show ?thesis by (simp only:) simp
  qed
qed

lemma close_round_keeps:
  assumes "J (ls_messages st)" "close_round env cfg tv st = (x, st')"
  shows "sends P (if tv_cooldown tv = 0 then 2 else 0) st st' \<and>
    (\<forall>tv'. x = Inr tv' \<longrightarrow> J (ls_messages st') \<and> tv_iteration tv' = tv_iteration tv)"
proof (cases "le_cancelled env (ls_polls st)")
  case True
  with assms(2) show ?thesis
    by (auto simp: close_round_def poll_def turn_completed_def emit_def intro: sends_none)
next
  case False
  let ?st = "st\<lparr>ls_polls := Suc (ls_polls st)\<rparr>"
  show ?thesis
  proof (cases "tv_cooldown tv = 0 \<and> needs_compaction_by_tokens (ls_tokens st) (length (ls_messages st)) (ls_compaction st)")
    case True
    obtain c st1 where t: "try_compaction env cfg ?st = (c, st1)" by fastforce
    from compaction_keeps [OF _ t] assms(1)
    have k: "J (ls_messages st1)" "sends P (if c = 0 then 0 else 2) ?st st1" by simp_all
    from k(2) have "sends P 2 st st1"
      unfolding sends_def by (auto split: if_splits)
    with False True t k(1) assms(2) show ?thesis
      by (auto simp: close_round_def poll_def turn_completed_def emit_def sends_def)
  next
    case no: False
    with False assms show ?thesis
      by (auto simp: close_round_def poll_def turn_completed_def emit_def sends_none)
  qed
qed

lemma tool_round_keeps:
  assumes "tool_round env cfg tv tcs st = (x, st')" "fair_schedule env" "Acc tcs" "tcs \<noteq> []"
    "ls_messages st = ms @ [assistant_msg c (Some tcs) th]" "J ms"
  shows "sends P (if tv_cooldown tv = 0 then 2 else 0) st st' \<and>
    (\<forall>tv'. x = Inr tv' \<longrightarrow> J (ls_messages st') \<and> tv_iteration tv' = tv_iteration tv)"
proof (cases "le_cancelled env (ls_polls st)")
  case True
  with assms(1) show ?thesis by (auto simp: tool_round_def poll_def intro: sends_none)
next
  case False
  let ?st = "st\<lparr>ls_polls := Suc (ls_polls st)\<rparr>"
  obtain results st2 where r: "run_batch env cfg tv tcs ?st = (results, st2)" by fastforce
  let ?st3 = "fold (push_result cfg (current_turn tv st2)) results st2"
  obtain n st4 where d: "doom_step cfg (all_failed results) (tv_failures tv) ?st3 = (n, st4)" by fastforce
  obtain y st5 where h: "handle_yield cfg (first_yield results) st4 = (y, st5)" by fastforce
  from r assms(2) obtain rs where rs: "of_batch tcs rs" "results = collect_results tcs rs"
    "ls_messages st2 = ls_messages st" "ls_sent st2 = ls_sent st"
    by (auto elim!: run_batch_fields)
  from batch [OF assms(6,3,4) rs(1)] have "J (ls_messages ?st3)"
    by (simp add: push_results_fields rs assms(5))
  then have J5: "J (ls_messages st5)"
    using extended [of "ls_messages ?st3" "system_msg doom_hint"]
    by (auto simp: handle_yield_fields [OF h] doom_step_fields [OF d])
  have sent: "ls_sent st5 = ls_sent st"
    by (simp add: handle_yield_fields [OF h] doom_step_fields [OF d] push_results_fields rs)
  let ?tv = "tv\<lparr>tv_failures := n, tv_modified := tv_modified tv @ concat (map (\<lambda>(_, _, r). tr_modified_files r) results)\<rparr>"
  show ?thesis
  proof (cases y)
    case None
    with assms(1) False r d h have "close_round env cfg ?tv st5 = (x, st')"
      by (simp add: tool_round_def poll_def Let_def)
    note k = close_round_keeps [OF J5 this]
    from conjunct1 [OF k] sent have "sends P (if tv_cooldown tv = 0 then 2 else 0) st st'"
      unfolding sends_def by simp
    moreover have "tv_iteration ?tv = tv_iteration tv" by simp
    with conjunct2 [OF k]
    have "\<forall>tv'. x = Inr tv' \<longrightarrow> J (ls_messages st') \<and> tv_iteration tv' = tv_iteration tv"
      by (simp only:)
    ultimately show ?thesis by blast
  next
    case (Some res)
    with assms(1) False r d h have "x = Inl (Inr res)" "st' = st5"
      by (simp_all add: tool_round_def poll_def Let_def)
    with sent show ?thesis by (simp add: sends_none)
  qed
qed

lemma answer_round_keeps:
  assumes "answer_round env cfg tv st = (x, st')" "fair_schedule env" "answers_with env Acc" "J (ls_messages st)"
  shows "sends P (rc_max_retries (lc_retry cfg) + 3) st st' \<and>
    (\<forall>tv'. x = Inr tv' \<longrightarrow> J (ls_messages st') \<and> tv_iteration tv' = tv_iteration tv)"
proof -
  let ?n = "rc_max_retries (lc_retry cfg)"
  obtain tv1 st1 where b: "compact_before_call env cfg tv st = (tv1, st1)" by fastforce
  note b' = before_call_keeps [OF assms(4) b]
  obtain r st2 where c: "call_llm_with_retry env cfg (tool_definitions (th_registry (lc_host cfg))) (strip_state st1) = (r, st2)"
    by fastforce
  then obtain k where k: "k \<le> ?n" "requests (Suc k) (ls_messages (strip_state st1)) (strip_state st1) st2"
    by (rule call_llm_requests)
  have J: "J (ls_messages (strip_state st1))" "P (ls_messages (strip_state st1))"
    using b' stripped by (auto simp: strip_state_def)
  from requests_sends [where P = P, OF k(2) J(2), of "?n + 1"] k(1)
  have "sends P (?n + 1) (strip_state st1) st2" by simp
  then have s12: "sends P (?n + 1) st1 st2" by (simp add: sends_def strip_state_def)
  have s2: "sends P (if tv_cooldown tv1 = 0 then ?n + 1 else ?n + 3) st st2"
    using sends_trans [OF conjunct1 [OF conjunct2 [OF b']] s12] by simp
  show ?thesis
  proof (cases r)
    case (Inl e)
    with assms(1) b c have "x = Inl (Inl e)" "st' = st2" by (auto simp: answer_round_def)
    with s2 show ?thesis by (auto simp: sends_def split: if_splits)
  next
    case (Inr response)
    obtain tv3 st3 where u: "record_usage cfg response tv1 st2 = (tv3, st3)" by fastforce
    let ?st4 = "push_assistant cfg (current_turn tv3 st3) response st3"
    note u' = record_usage_fields [OF u]
    have s4: "sends P (if tv_cooldown tv1 = 0 then ?n + 1 else ?n + 3) st ?st4"
      using s2 by (simp add: sends_def push_assistant_fields u')
    show ?thesis
    proof (cases "lr_tool_calls response = []")
      case True
      with assms(1) b c Inr u have "(x, st') = (case finish_answer cfg response ?st4 of (r, st5) \<Rightarrow> (Inl r, st5))"
        by (simp add: answer_round_def Let_def)
      then have "ls_sent st' = ls_sent ?st4 \<and> (\<forall>tv'. x \<noteq> Inr tv')"
        by (auto simp: finish_answer_def emit_def Let_def split: if_splits)
      with s4 show ?thesis by (auto simp: sends_def split: if_splits)
    next
      case False
      from assms(1) b c Inr u False have t: "tool_round env cfg tv3 (lr_tool_calls response) ?st4 = (x, st')"
        by (simp add: answer_round_def Let_def)
      have "Acc (lr_tool_calls response)"
        using call_llm_response c Inr assms(3) unfolding answers_with_def by blast
      moreover have "ls_messages ?st4 = ls_messages (strip_state st1) @
          [assistant_msg (lr_content response) (Some (lr_tool_calls response)) (lr_thinking response)]"
        using False requests_fields [OF k(2)] by (simp add: push_assistant_fields u')
      ultimately have t': "sends P (if tv_cooldown tv3 = 0 then 2 else 0) ?st4 st' \<and>
          (\<forall>tv'. x = Inr tv' \<longrightarrow> J (ls_messages st') \<and> tv_iteration tv' = tv_iteration tv3)"
        using tool_round_keeps [OF t assms(2) _ False _ J(1)] by blast
      from conjunct1 [OF t'] have "sends P (if tv_cooldown tv1 = 0 then 2 else 0) ?st4 st'" by (simp only: u'(7))
      then have "sends P (?n + 3) st st'"
        by (rule sends_trans [OF s4]) simp
      moreover have "J (ls_messages st') \<and> tv_iteration tv' = tv_iteration tv" if "x = Inr tv'" for tv'
        using conjunct2 [OF t'] that b' u'(6) by simp
      ultimately show ?thesis by blast
    qed
  qed
qed

end

subsection \<open>Following a run from round to round\<close>

text \<open>The counter cannot wrap below the largest 32-bit number.\<close>

definition bounded_config :: "loop_config \<Rightarrow> bool" where
  "bounded_config cfg \<longleftrightarrow> unat (lc_max_iterations cfg) < 2 ^ 32 - 1"

lemma iteration_step:
  assumes "unat m < 2 ^ 32 - 1" "unat i \<le> unat m" "\<not> m < i + (1 :: u32)"
  shows "unat (i + 1) = Suc (unat i)" "Suc (unat i) \<le> unat m"
proof -
  from assms(1,2) have "unat i + 1 < 2 ^ 32" by linarith
  then show s: "unat (i + 1) = Suc (unat i)" by (simp add: unat_word_ariths)
  from assms(3) s show "Suc (unat i) \<le> unat m" by (simp add: word_less_nat_alt)
qed

definition next_iteration :: "turn_vars \<Rightarrow> turn_vars" where
  "next_iteration tv = tv\<lparr>tv_iteration := tv_iteration tv + 1\<rparr>"

lemma next_iteration_fields [simp]:
  "tv_iteration (next_iteration tv) = tv_iteration tv + 1" "tv_cooldown (next_iteration tv) = tv_cooldown tv"
  "tv_failures (next_iteration tv) = tv_failures tv" "tv_modified (next_iteration tv) = tv_modified tv"
  by (simp_all add: next_iteration_def)

lemma loop_round_cases:
  assumes "loop_round env cfg tv st = (x, st')"
  obtains (cancelled) "le_cancelled env (ls_polls st)" "x = Inl (Inl Cancelled)"
      "st' = st\<lparr>ls_polls := Suc (ls_polls st)\<rparr>"
  | (limit) "\<not> le_cancelled env (ls_polls st)" "tv_iteration tv + 1 > lc_max_iterations cfg"
      "x = Inl (Inr (Done (limit_summary cfg)))"
      "st' = emit (DoneEvent (sid cfg) (Some (limit_summary cfg))) (st\<lparr>ls_polls := Suc (ls_polls st)\<rparr>)"
  | (answer) "\<not> le_cancelled env (ls_polls st)" "\<not> tv_iteration tv + 1 > lc_max_iterations cfg"
      "answer_round env cfg (next_iteration tv) (st\<lparr>ls_polls := Suc (ls_polls st)\<rparr>) = (x, st')"
  using assms that
  by (cases "le_cancelled env (ls_polls st)"; cases "tv_iteration tv + 1 > lc_max_iterations cfg")
    (simp_all add: loop_round_def poll_def next_iteration_def)

text \<open>
  The induction rule of the loop: an invariant of the rounds, and what the last round makes of it.
  It also shows that the loop ends.
\<close>

lemma run_loop_rule:
  assumes "bounded_config cfg" "unat (tv_iteration tv) \<le> unat (lc_max_iterations cfg)" "I tv st"
    and step: "\<And>tv st tv' st'. I tv st \<Longrightarrow> loop_round env cfg tv st = (Inr tv', st') \<Longrightarrow>
      unat (tv_iteration tv) < unat (lc_max_iterations cfg) \<Longrightarrow>
      I tv' st' \<and> unat (tv_iteration tv') = Suc (unat (tv_iteration tv))"
    and stop: "\<And>tv st r st'. I tv st \<Longrightarrow> loop_round env cfg tv st = (Inl r, st') \<Longrightarrow>
      unat (tv_iteration tv) \<le> unat (lc_max_iterations cfg) \<Longrightarrow> Q r st'"
  shows "\<exists>r st'. run_loop env cfg tv st = Some (r, st') \<and> Q r st'"
  using assms(2,3)
proof (induction "unat (lc_max_iterations cfg) - unat (tv_iteration tv)" arbitrary: tv st rule: less_induct)
  case less
  obtain x st1 where r: "loop_round env cfg tv st = (x, st1)" by fastforce
  show ?case
  proof (cases x)
    case (Inl res)
    with r stop [OF less.prems(2), of res st1] less.prems(1) show ?thesis
      by (subst run_loop.simps) simp
  next
    case (Inr tv1)
    have "unat (tv_iteration tv) < unat (lc_max_iterations cfg)"
      using r unfolding Inr
    proof (cases rule: loop_round_cases)
      case answer
      from iteration_step(2) [OF _ less.prems(1) answer(2)] assms(1) show ?thesis
        by (simp add: bounded_config_def)
    qed simp_all
    with step [OF less.prems(2) r [unfolded Inr]] have "I tv1 st1"
      "unat (tv_iteration tv1) = Suc (unat (tv_iteration tv))" by simp_all
    moreover from this \<open>unat (tv_iteration tv) < _\<close>
    have "unat (lc_max_iterations cfg) - unat (tv_iteration tv1) <
        unat (lc_max_iterations cfg) - unat (tv_iteration tv)" by simp
    ultimately obtain res st2 where "run_loop env cfg tv1 st1 = Some (res, st2)" "Q res st2"
      using less.hyps [of tv1 st1] \<open>unat (tv_iteration tv) < _\<close> by auto
    with r Inr show ?thesis by (subst run_loop.simps) simp
  qed
qed

lemma sends_polls: "sends P k (st\<lparr>ls_polls := n\<rparr>) st' \<longleftrightarrow> sends P k st st'"
  by (simp add: sends_def)

lemma sends_mono: "sends P j st st' \<Longrightarrow> j \<le> k \<Longrightarrow> sends P k st st'"
  by (auto simp: sends_def)

context history_contract
begin

lemma loop_round_keeps:
  assumes "loop_round env cfg tv st = (x, st')" "fair_schedule env" "answers_with env Acc" "J (ls_messages st)"
  shows "sends P (rc_max_retries (lc_retry cfg) + 3) st st' \<and>
    (\<forall>tv'. x = Inr tv' \<longrightarrow> J (ls_messages st') \<and> tv_iteration tv' = tv_iteration tv + 1)"
  using assms(1)
proof (cases rule: loop_round_cases)
  case answer
  have "J (ls_messages (st\<lparr>ls_polls := Suc (ls_polls st)\<rparr>))" using assms(4) by simp
  from answer_round_keeps [OF answer(3) assms(2,3) this] show ?thesis
    unfolding sends_polls next_iteration_fields by blast
qed (simp_all add: sends_none emit_def)

lemma run_sends:
  assumes "bounded_config cfg" "fair_schedule env" "answers_with env Acc" "J (ls_messages st @ [msg])"
  shows "\<exists>r st'. run_agent env cfg msg st = Some (r, st') \<and>
    sends P (unat (lc_max_iterations cfg) * (rc_max_retries (lc_retry cfg) + 3)) st st'"
proof (cases "user_text_preview msg")
  case None
  then show ?thesis by (simp add: run_agent_def run_inner_def sends_none)
next
  case (Some preview)
  let ?n = "rc_max_retries (lc_retry cfg) + 3" and ?max = "unat (lc_max_iterations cfg)"
  let ?st = "correct_tokens (push_user cfg msg st)"
  let ?I = "\<lambda>tv s. J (ls_messages s) \<and> sends P (unat (tv_iteration tv) * ?n) st s"
  have m: "ls_messages ?st = ls_messages st @ [msg]" "ls_sent ?st = ls_sent st"
    by (simp_all add: correct_tokens_def push_user_def push_def)
  have "\<exists>r st'. run_loop env cfg (start_vars (push_user cfg msg st)) ?st = Some (r, st') \<and> sends P (?max * ?n) st st'"
  proof (rule run_loop_rule [where I = ?I, OF assms(1)])
    show "?I (start_vars (push_user cfg msg st)) ?st"
      using assms(4) by (simp add: m sends_none)
  next
    fix tv s tv' s'
    assume I: "?I tv s" and r: "loop_round env cfg tv s = (Inr tv', s')" and lt: "unat (tv_iteration tv) < ?max"
    from loop_round_keeps [OF r assms(2,3)] I have k: "sends P ?n s s'" "J (ls_messages s')"
      "tv_iteration tv' = tv_iteration tv + 1" by blast+
    have n: "unat (tv_iteration tv') = Suc (unat (tv_iteration tv))"
      using lt assms(1) k(3) by (simp add: unat_word_ariths bounded_config_def)
    have "sends P (unat (tv_iteration tv') * ?n) st s'"
      by (rule sends_trans [OF conjunct2 [OF I] k(1)]) (simp add: n)
    with k(2) n show "?I tv' s' \<and> unat (tv_iteration tv') = Suc (unat (tv_iteration tv))" by blast
  next
    fix tv s r s'
    assume I: "?I tv s" and r: "loop_round env cfg tv s = (Inl r, s')" and le: "unat (tv_iteration tv) \<le> ?max"
    show "sends P (?max * ?n) st s'"
      using r
    proof (cases rule: loop_round_cases)
      case answer
      with iteration_step [OF _ le answer(2)] assms(1) have lt: "Suc (unat (tv_iteration tv)) \<le> ?max"
        by (simp add: bounded_config_def)
      from loop_round_keeps [OF r assms(2,3)] I have k: "sends P ?n s s'" by blast
      have "unat (tv_iteration tv) * ?n + ?n \<le> ?max * ?n"
        using mult_le_mono1 [OF lt, of ?n] by simp
      from sends_trans [OF conjunct2 [OF I] k this] show ?thesis .
    qed (use sends_mono [OF conjunct2 [OF I] mult_le_mono1 [OF le]] in \<open>simp_all add: sends_def emit_def\<close>)
  qed (simp add: start_vars_def)
  then obtain r st' where "run_loop env cfg (start_vars (push_user cfg msg st)) ?st = Some (r, st')"
    "sends P (?max * ?n) st st'" by blast
  with Some show ?thesis by (auto simp: run_agent_def run_inner_def sends_def)
qed

end

subsection \<open>The two contracts of the histories\<close>

lemma strip_calls_by_assistant:
  assumes "calls_by_assistant ms"
  shows "calls_by_assistant (strip_orphaned_tool_results ms)"
proof -
  have "cm_tool_calls (prune_calls a m) = None" if "cm_tool_calls m = None" for a m
    using that by (simp add: prune_calls_def)
  with assms show ?thesis
    by (auto simp: calls_by_assistant_def strip_orphaned_tool_results_def Let_def)
qed

lemma calls_by_assistant_append [simp]:
  "calls_by_assistant (xs @ ys) \<longleftrightarrow> calls_by_assistant xs \<and> calls_by_assistant ys"
  "calls_by_assistant (m # ms) \<longleftrightarrow> (cm_role m \<noteq> ''assistant'' \<longrightarrow> cm_tool_calls m = None) \<and> calls_by_assistant ms"
  "calls_by_assistant []"
  by (auto simp: calls_by_assistant_def)

lemma calls_by_assistant_part:
  "calls_by_assistant ms \<Longrightarrow> calls_by_assistant (take n ms) \<and> calls_by_assistant (drop n ms)"
  by (auto simp: calls_by_assistant_def dest: in_set_takeD in_set_dropD)

lemma result_messages_no_calls: "calls_by_assistant (map result_message results)"
  by (auto simp: calls_by_assistant_def result_message_def msg_defs)

interpretation closed_requests: history_contract calls_by_assistant closed_history "\<lambda>_. True"
proof
  fix ms assume "calls_by_assistant ms"
  then show "closed_history (strip_orphaned_tool_results ms) \<and> calls_by_assistant (strip_orphaned_tool_results ms)"
    by (simp add: strip_closed strip_calls_by_assistant)
next
  fix ms keep start stop t assume "calls_by_assistant ms"
  then show "calls_by_assistant (strip_orphaned_tool_results (splice_summary ms start stop (user_msg t)))"
    using calls_by_assistant_part [of ms]
    by (intro strip_calls_by_assistant) (simp add: splice_eq user_msg_def)
qed (auto simp: closed_history_def msg_defs is_tool_msg_def plain_msg_def result_messages_no_calls)

interpretation turned_requests: history_contract well_turned well_turned "\<lambda>tcs. distinct (map tc_id tcs)"
proof
  fix ms assume "well_turned ms"
  then show "well_turned (strip_orphaned_tool_results ms) \<and> well_turned (strip_orphaned_tool_results ms)"
    by (simp add: strip_id well_turned_closed)
next
  fix t u show "well_turned [system_msg t, user_msg u]"
    by (intro plain_msg_Cons) simp_all
next
  fix ms keep start stop t assume "well_turned ms" "compaction_boundaries ms keep = Some (start, stop)"
  then have "well_turned (splice_summary ms start stop (user_msg t))"
    unfolding splice_eq by (intro well_turned_append plain_msg_Cons plain_msgs compaction_boundaries_turned)
  then show "well_turned (strip_orphaned_tool_results (splice_summary ms start stop (user_msg t)))"
    by (simp add: strip_id well_turned_closed)
next
  fix ms m assume "well_turned ms" "plain_msg m"
  then show "well_turned (ms @ [m])" by (intro well_turned_append plain_msg_Cons) simp_all
next
  fix ms tcs rs c th
  assume "well_turned ms" "distinct (map tc_id tcs)" "tcs \<noteq> []" "of_batch tcs rs"
  then show "well_turned ((ms @ [assistant_msg c (Some tcs) th]) @ map result_message (collect_results tcs rs))"
    using well_turned_append [OF _ well_turned_block [OF _ result_message_answers]] collect_results_order(1)
    by simp
qed

text \<open>Whatever is in the history, the number of requests is bounded.\<close>

interpretation any_requests: history_contract "\<lambda>_. True" "\<lambda>_. True" "\<lambda>_. True"
  by unfold_locales simp_all

subsection \<open>Properties\<close>

definition example_env :: loop_env where
  "example_env =
     \<lparr>le_llm = (\<lambda>i ms defs. ([], Inr \<lparr>lr_content = Some ''ok'',
          lr_tool_calls = (if i = 0 then [write_call] else []), lr_usage = None,
          lr_finish_reason = None, lr_thinking = None\<rparr>)),
      le_compaction_llm = None, le_cancelled = (\<lambda>_. False), le_order = (\<lambda>_ n. [0..<n])\<rparr>"

definition example_cfg :: loop_config where
  "example_cfg =
     \<lparr>lc_max_iterations = 50, lc_retry = default_retry_config, lc_system_prompt = Some [(''s'', None)],
      lc_parent_session = None, lc_host = example_host (write_args ''n'') None\<rparr>"

definition example_start :: loop_state where
  "example_start = with_persister (with_provider example_cfg default_compaction_config one_file_world)"

lemma example_setting:
  "bounded_config example_cfg" "fair_schedule example_env" "answers_with example_env (\<lambda>_. True)"
  "answers_with example_env (\<lambda>tcs. distinct (map tc_id tcs))"
  "ls_messages example_start = [system_msg ''s'']" "ls_sent example_start = []"
  "lc_max_iterations example_cfg = 50" "lc_retry example_cfg = default_retry_config"
  "le_cancelled example_env = (\<lambda>_. False)" "ls_persists example_start" "ls_polls example_start = 0"
  "ls_persisted example_start = []" "ls_events example_start = []"
  by (auto simp: bounded_config_def example_cfg_def fair_schedule_def example_env_def answers_with_def
      example_start_def with_persister_def with_provider_def system_messages_def atLeast0LessThan)

text \<open>
  C3: A run always ends, and its cost is bounded: with fewer than \<open>2^32 - 1\<close> allowed rounds, whatever
  the provider, the tools and the user do, the loop returns after at most \<open>max_retries + 3\<close> requests
  per allowed round (the attempts for an answer, and two for a summary).
\<close>

theorem run_ends_within_budget:
  assumes "unat (lc_max_iterations cfg) < 2 ^ 32 - 1" "fair_schedule env"
  shows "\<exists>r st'. run_agent env cfg msg st = Some (r, st') \<and>
    length (ls_sent st') \<le> length (ls_sent st) + unat (lc_max_iterations cfg) * (rc_max_retries (lc_retry cfg) + 3)"
  using any_requests.run_sends [where cfg = cfg and env = env and st = st and msg = msg] assms
  by (fastforce simp: bounded_config_def answers_with_def sends_def)

theorem run_ends_within_budget_witness:
  "\<exists>r st'. run_agent example_env example_cfg (user_msg ''hi'') example_start = Some (r, st') \<and>
     length (ls_sent st') \<le> 300"
  using run_ends_within_budget [of example_cfg example_env "user_msg ''hi''" example_start] example_setting
  by (auto simp: bounded_config_def default_retry_config_def)

text \<open>
  C2: Every history the loop sends to a provider is acceptable to it: every tool result answers a
  call in the history, every call of an assistant is answered, no list of calls is empty. This
  holds for any resumed context in which only assistants carry calls, whatever was cut by
  compaction, crashed or was cancelled before, and for the requests for a summary.
\<close>

theorem every_request_is_closed:
  assumes "unat (lc_max_iterations cfg) < 2 ^ 32 - 1" "fair_schedule env"
    "calls_by_assistant (ls_messages st)" "plain_msg msg"
  shows "\<exists>r st' hs. run_agent env cfg msg st = Some (r, st') \<and> ls_sent st' = ls_sent st @ hs \<and>
    list_all closed_history hs"
  using closed_requests.run_sends [where cfg = cfg and env = env and st = st and msg = msg] closed_requests.extended [OF assms(3,4)] assms(1,2)
  by (fastforce simp: bounded_config_def answers_with_def sends_def)

theorem every_request_is_closed_witness:
  "\<exists>r st'. run_agent example_env example_cfg (user_msg ''hi'')
       (with_resumed_context orphan_history example_start) = Some (r, st') \<and>
     list_all closed_history (ls_sent st') \<and> \<not> closed_history orphan_history"
proof -
  have "calls_by_assistant (ls_messages (with_resumed_context orphan_history example_start))"
    by (simp add: with_resumed_context_def example_setting orphan_history_def msg_defs)
  moreover have "ls_sent (with_resumed_context orphan_history example_start) = []"
    by (simp add: with_resumed_context_def example_setting)
  moreover have "\<not> closed_history orphan_history"
    by (simp add: closed_history_def orphan_history_def msg_defs is_tool_msg_def calls_of_def example_call_def)
  ultimately show ?thesis
    using every_request_is_closed [of example_cfg example_env "with_resumed_context orphan_history example_start"
        "user_msg ''hi''"] example_setting(1,2)
    by (fastforce simp: bounded_config_def)
qed

text \<open>
  C1: No tool result is ever lost or reordered. If a provider gives the calls of one answer distinct
  ids and the run starts from a history made of turns, then every history it sends is made of
  turns: each assistant message with calls is followed by exactly one result per call, in the order
  of the calls, in whatever order the tools finish and whichever crash. So the clean-up before a
  request has nothing to remove.
\<close>

theorem every_request_is_made_of_turns:
  assumes "unat (lc_max_iterations cfg) < 2 ^ 32 - 1" "fair_schedule env"
    "answers_with env (\<lambda>tcs. distinct (map tc_id tcs))" "well_turned (ls_messages st)" "plain_msg msg"
  shows "\<exists>r st' hs. run_agent env cfg msg st = Some (r, st') \<and> ls_sent st' = ls_sent st @ hs \<and>
    list_all (\<lambda>h. well_turned h \<and> strip_orphaned_tool_results h = h) hs"
proof -
  from turned_requests.run_sends [where cfg = cfg and env = env and st = st and msg = msg] turned_requests.extended [OF assms(4,5)] assms(1-3)
  obtain r st' hs where "run_agent env cfg msg st = Some (r, st')" "ls_sent st' = ls_sent st @ hs"
    "list_all well_turned hs"
    by (fastforce simp: bounded_config_def sends_def)
  then show ?thesis by (auto simp: list_all_iff strip_id well_turned_closed)
qed

theorem every_request_is_made_of_turns_witness:
  "\<exists>r st'. run_agent example_env example_cfg (user_msg ''hi'') example_start = Some (r, st') \<and>
     list_all well_turned (ls_sent st')"
proof -
  have "well_turned (ls_messages example_start)"
    by (simp add: example_setting msg_defs is_tool_msg_def is_call_msg_def)
  from every_request_is_made_of_turns [OF _ example_setting(2,4) this, of example_cfg "user_msg ''hi''"]
  show ?thesis using example_setting(1,6) by (fastforce simp: bounded_config_def list_all_iff)
qed

lemma run_tasks_results:
  "run_tasks host turn tcs is w = (evs, results, w') \<Longrightarrow> (i, call_id, r) \<in> set results \<Longrightarrow>
     \<exists>v evs' v'. execute_tool_call_impl host turn (tcs ! i) v = (evs', Some r, v')"
proof (induction "is" arbitrary: w evs results w')
  case (Cons j js)
  obtain evs1 res w1 where e: "execute_tool_call_impl host turn (tcs ! j) w = (evs1, res, w1)"
    using prod_cases3 by blast
  obtain evs2 results2 w2 where t: "run_tasks host turn tcs js w1 = (evs2, results2, w2)"
    using prod_cases3 by blast
  from Cons.prems e t have "res = Some r \<and> i = j \<or> (i, call_id, r) \<in> set results2"
    by (auto split: option.splits)
  with e Cons.IH [OF t] show ?case by blast
qed simp



text \<open>The answers of the provider that a retry loop meets, from request \<open>n\<close> on.\<close>

definition transient :: "agent_error + llm_response \<Rightarrow> bool" where
  "transient r \<longleftrightarrow> (case r of Inl e \<Rightarrow> e \<noteq> Cancelled \<and> \<not> permanent e | Inr _ \<Rightarrow> False)"

definition delays :: "retry_config \<Rightarrow> nat \<Rightarrow> nat \<Rightarrow> nat list" where
  "delays rc d n = map (\<lambda>i. (next_delay rc ^^ i) d) [0..<n]"

lemma delays_Suc: "delays rc d (Suc n) = d # delays rc (next_delay rc d) n"
  by (simp add: delays_def upt_conv_Cons map_Suc_upt [symmetric] funpow_swap1 comp_def del: upt_Suc funpow.simps)
    (simp add: funpow_swap1)

lemma attempt_effect:
  assumes "before_attempt cfg attempt d e st = (d', st0)"
    "chat_completion (le_llm env) False (ls_messages st0) defs st0 = (r, st1)"
  shows "r = snd (le_llm env (length (ls_sent st)) (ls_messages st) defs)"
    "ls_slept st1 = ls_slept st @ (if attempt = 0 then [] else [d])"
    "d' = (if attempt = 0 then d else next_delay (lc_retry cfg) d)"
proof -
  have m: "ls_messages st0 = ls_messages st" "ls_sent st0 = ls_sent st"
    "ls_slept st0 = ls_slept st @ (if attempt = 0 then [] else [d])"
    using assms(1) by (auto simp: before_attempt_def emit_def split: if_splits)
  then show "r = snd (le_llm env (length (ls_sent st)) (ls_messages st) defs)"
    "ls_slept st1 = ls_slept st @ (if attempt = 0 then [] else [d])"
    using assms(2) by (auto simp: chat_completion_def emits_def split: prod.splits)
  show "d' = (if attempt = 0 then d else next_delay (lc_retry cfg) d)"
    using assms(1) by (auto simp: before_attempt_def split: if_splits)
qed

lemma retry_loop_script:
  assumes "\<And>i. i < j \<Longrightarrow> transient (snd (le_llm env (length (ls_sent st) + i) (ls_messages st) defs))"
    and "\<not> transient (snd (le_llm env (length (ls_sent st) + j) (ls_messages st) defs)) \<or> j = n" "j \<le> n"
    and "retry_loop env cfg defs n attempt d e st = (r, st')"
  shows "r = snd (le_llm env (length (ls_sent st) + j) (ls_messages st) defs) \<and>
    ls_sent st' = ls_sent st @ replicate (Suc j) (ls_messages st) \<and> ls_messages st' = ls_messages st \<and>
    ls_slept st' = ls_slept st @ delays (lc_retry cfg) d (if attempt = 0 then j else Suc j)"
  using assms
proof (induction j arbitrary: n attempt d e st)
  case (0 n attempt d e st)
  obtain d' st0 where b: "before_attempt cfg attempt d e st = (d', st0)" by fastforce
  obtain r1 st1 where c: "chat_completion (le_llm env) False (ls_messages st0) defs st0 = (r1, st1)" by fastforce
  note step = retry_loop_step [OF b c] and one = attempt_requests(1) [OF b c] and eff = attempt_effect [OF b c]
  have "r = r1 \<and> (st' = st1 \<or> (\<exists>ev. st' = emit ev st1))"
  proof (cases r1)
    case (Inl err)
    show ?thesis
    proof (cases "transient r1")
      case True
      with 0(2) eff(1) have "n = 0" by simp
      with True Inl 0(4) step(4) show ?thesis by (auto simp: transient_def)
    next
      case False
      with Inl 0(4) step(2,3) show ?thesis
        by (cases "err = Cancelled") (auto simp: transient_def)
    qed
  qed (use 0(4) step(1) in auto)
  with requests_fields [OF one] eff show ?case by (auto simp: emit_def delays_def)
next
  case (Suc j n attempt d e st)
  obtain d' st0 where b: "before_attempt cfg attempt d e st = (d', st0)" by fastforce
  obtain r1 st1 where c: "chat_completion (le_llm env) False (ls_messages st0) defs st0 = (r1, st1)" by fastforce
  note step = retry_loop_step [OF b c] and one = attempt_requests(1) [OF b c] and eff = attempt_effect [OF b c]
  note f = requests_fields [OF one]
  from Suc.prems(1) [of 0] eff(1) have t: "transient r1" by simp
  then obtain err where err: "r1 = Inl err" "err \<noteq> Cancelled" "\<not> permanent err"
    by (cases r1) (auto simp: transient_def)
  from Suc.prems(3) obtain n' where n: "n = Suc n'" by (cases n) auto
  from step(5) [OF err] Suc.prems(4) have rec: "retry_loop env cfg defs n' (Suc attempt) d' (Some err) st1 = (r, st')"
    by (simp add: n)
  have "transient (snd (le_llm env (length (ls_sent st1) + i) (ls_messages st1) defs))" if "i < j" for i
    using Suc.prems(1) [of "Suc i"] that by (simp add: f)
  from Suc.IH [OF this _ _ rec] Suc.prems(2,3) show ?case
    by (auto simp: f eff delays_Suc n)
qed

text \<open>
  C6: The retry policy: failures that may pass (rate limits, server errors, timeouts, broken
  streams) are retried with the same history, at most \<open>max_retries\<close> times, each time after the next delay of the
  exponential backoff; the first answer, cancellation or permanent error ends the attempts and is
  the result, and when the retries are used up the last failure is.
\<close>

theorem retry_policy:
  assumes "\<And>i. i < j \<Longrightarrow> transient (snd (le_llm env (length (ls_sent st) + i) (ls_messages st) defs))"
    and "\<not> transient (snd (le_llm env (length (ls_sent st) + j) (ls_messages st) defs)) \<or>
      j = rc_max_retries (lc_retry cfg)"
    and "j \<le> rc_max_retries (lc_retry cfg)"
    and "call_llm_with_retry env cfg defs st = (r, st')"
  shows "r = snd (le_llm env (length (ls_sent st) + j) (ls_messages st) defs) \<and>
    ls_sent st' = ls_sent st @ replicate (Suc j) (ls_messages st) \<and> ls_messages st' = ls_messages st \<and>
    ls_slept st' = ls_slept st @ delays (lc_retry cfg) (rc_initial_delay (lc_retry cfg)) j"
  using retry_loop_script [OF assms(1-3) assms(4) [unfolded call_llm_with_retry_def]] by simp

definition flaky_env :: loop_env where
  "flaky_env = example_env\<lparr>le_llm := (\<lambda>i ms defs. ([], if i < 2 then Inl (LlmApiError 503 ''busy'')
     else Inl (LlmApiError 401 ''key'')))\<rparr>"

theorem retry_policy_witness:
  "\<exists>st'. call_llm_with_retry flaky_env example_cfg [] example_start = (Inl (LlmApiError 401 ''key''), st') \<and>
     length (ls_sent st') = 3 \<and> ls_slept st' = [1000, 2000]"
proof -
  obtain r st' where c: "call_llm_with_retry flaky_env example_cfg [] example_start = (r, st')" by fastforce
  have "transient (snd (le_llm flaky_env (length (ls_sent example_start) + i) (ls_messages example_start) []))" if "i < 2" for i
    using that by (simp add: flaky_env_def example_setting transient_def retryable_status_def)
  from retry_policy [OF this _ _ c] c show ?thesis
    by (simp add: flaky_env_def example_setting transient_def retryable_status_def default_retry_config_def
        delays_def next_delay_def example_start_def with_persister_def with_provider_def numeral_2_eq_2)
qed

text \<open>Rounds of tools as the doom loop detection sees them: the flags of the rounds in which all failed.\<close>

definition doom_rounds :: "loop_config \<Rightarrow> bool list \<Rightarrow> nat \<times> loop_state \<Rightarrow> nat \<times> loop_state" where
  "doom_rounds cfg fs s = fold (\<lambda>f (n, st). doom_step cfg f n st) fs s"

text \<open>The failed rounds in a row at the end.\<close>

definition failed_streak :: "bool list \<Rightarrow> nat" where
  "failed_streak fs = length (takeWhile (\<lambda>f. f) (rev fs))"

lemma failed_streak_snoc [simp]:
  "failed_streak [] = 0" "failed_streak (fs @ [f]) = (if f then Suc (failed_streak fs) else 0)"
  by (simp_all add: failed_streak_def)

definition hint_due :: "bool list \<Rightarrow> bool" where
  "hint_due fs \<longleftrightarrow> failed_streak fs > 0 \<and> 3 dvd failed_streak fs"

text \<open>
  The doom loop detection: the model is given the course-correction hint exactly after the
  third, sixth, ninth and so on round in a row in which every tool call failed, and never
  otherwise; one successful call starts the count afresh.
\<close>

theorem doom_hint_every_third_failure:
  "case doom_rounds cfg fs (0, st) of (n, st') \<Rightarrow> n = failed_streak fs mod 3 \<and>
     ls_messages st' = ls_messages st @
       replicate (length (filter (\<lambda>k. hint_due (take k fs)) [1..<Suc (length fs)])) (system_msg doom_hint)"
proof (induction fs rule: rev_induct)
  case Nil
  then show ?case by (simp add: doom_rounds_def)
next
  case (snoc f fs)
  obtain n st1 where r: "doom_rounds cfg fs (0, st) = (n, st1)" by fastforce
  obtain n' st2 where d: "doom_step cfg f n st1 = (n', st2)" by fastforce
  from r d have r2: "doom_rounds cfg (fs @ [f]) (0, st) = (n', st2)" by (simp add: doom_rounds_def)
  have IH: "n = failed_streak fs mod 3" "ls_messages st1 = ls_messages st @
      replicate (length (filter (\<lambda>k. hint_due (take k fs)) [1..<Suc (length fs)])) (system_msg doom_hint)"
    using snoc r by auto
  have eq: "filter (\<lambda>k. hint_due (take k (fs @ [f]))) [1..<Suc (length (fs @ [f]))] =
      filter (\<lambda>k. hint_due (take k fs)) [1..<Suc (length fs)] @
        (if hint_due (fs @ [f]) then [Suc (length fs)] else [])"
    by (auto intro!: filter_cong)
  have due: "hint_due (fs @ [f]) \<longleftrightarrow> f \<and> n + 1 \<ge> doom_loop_threshold"
    using IH(1) by (auto simp: hint_due_def doom_loop_threshold_def) presburger+
  have "n' = failed_streak (fs @ [f]) mod 3"
    using IH(1) doom_step_fields(6) [OF d] by (auto simp: doom_loop_threshold_def mod_Suc)
  moreover have "ls_messages st2 = ls_messages st1 @ (if hint_due (fs @ [f]) then [system_msg doom_hint] else [])"
    using doom_step_fields(1) [OF d] due by simp
  ultimately show ?case
    unfolding r2 eq by (simp add: IH(2) replicate_append_same)
qed

subsection \<open>Cancellation\<close>

definition heeds_cancellation :: "loop_env \<Rightarrow> loop_state \<Rightarrow> (outcome + turn_vars) \<Rightarrow> loop_state \<Rightarrow> bool" where
  "heeds_cancellation env st x st' \<longleftrightarrow> ls_polls st \<le> ls_polls st' \<and>
     (\<forall>k. ls_polls st \<le> k \<longrightarrow> k < ls_polls st' \<longrightarrow> le_cancelled env k \<longrightarrow>
        Suc k = ls_polls st' \<and> x = Inl (Inl Cancelled))"

lemma heeds_same: "ls_polls st' = ls_polls st \<Longrightarrow> heeds_cancellation env st x st'"
  by (simp add: heeds_cancellation_def)

lemma heeds_trans:
  assumes "heeds_cancellation env st (Inr tv) st1" "heeds_cancellation env st1 x st2"
  shows "heeds_cancellation env st x st2"
proof -
  have "Suc k = ls_polls st2 \<and> x = Inl (Inl Cancelled)"
    if "ls_polls st \<le> k" "k < ls_polls st2" "le_cancelled env k" for k
  proof (cases "k < ls_polls st1")
    case True
    with assms(1) that show ?thesis unfolding heeds_cancellation_def by blast
  next
    case False
    then have "ls_polls st1 \<le> k" by simp
    with assms(2) that show ?thesis unfolding heeds_cancellation_def by blast
  qed
  with assms show ?thesis by (auto simp: heeds_cancellation_def)
qed

lemma heeds_poll:
  assumes "\<not> le_cancelled env (ls_polls st)" "heeds_cancellation env (st\<lparr>ls_polls := Suc (ls_polls st)\<rparr>) x st'"
  shows "heeds_cancellation env st x st'"
proof -
  have "Suc k = ls_polls st' \<and> x = Inl (Inl Cancelled)"
    if "ls_polls st \<le> k" "k < ls_polls st'" "le_cancelled env k" for k
  proof -
    from that assms(1) have "k \<noteq> ls_polls st" by auto
    with that have "ls_polls (st\<lparr>ls_polls := Suc (ls_polls st)\<rparr>) \<le> k" by simp
    with assms(2) that show ?thesis unfolding heeds_cancellation_def by blast
  qed
  with assms(2) show ?thesis by (auto simp: heeds_cancellation_def)
qed

lemma heeds_cancelled:
  "ls_polls st' = Suc (ls_polls st) \<Longrightarrow> heeds_cancellation env st (Inl (Inl Cancelled)) st'"
  by (auto simp: heeds_cancellation_def)

lemma heeds_cong:
  "ls_polls st1 = ls_polls st \<Longrightarrow> heeds_cancellation env st1 x st' \<longleftrightarrow> heeds_cancellation env st x st'"
  by (simp add: heeds_cancellation_def)

lemma try_compaction_polls: "try_compaction env cfg st = (c, st') \<Longrightarrow> ls_polls st' = ls_polls st"
  by (erule try_compaction_cases) simp_all

lemma before_call_polls: "compact_before_call env cfg tv st = (tv', st') \<Longrightarrow> ls_polls st' = ls_polls st"
  using try_compaction_polls by (auto simp: compact_before_call_def Let_def split: if_splits prod.splits)

lemma close_round_heeds:
  assumes "close_round env cfg tv st = (x, st')"
  shows "heeds_cancellation env st x st'"
proof (cases "le_cancelled env (ls_polls st)")
  case True
  with assms show ?thesis
    by (auto simp: close_round_def poll_def turn_completed_def emit_def intro!: heeds_cancelled)
next
  case False
  let ?st = "st\<lparr>ls_polls := Suc (ls_polls st)\<rparr>"
  obtain c st1 where t: "try_compaction env cfg ?st = (c, st1)" by fastforce
  have "ls_polls st' = ls_polls ?st"
    using assms False t try_compaction_polls [OF t]
    by (auto simp: close_round_def poll_def turn_completed_def emit_def split: if_splits)
  with heeds_poll [OF False heeds_same] show ?thesis by blast
qed

lemma tool_round_heeds:
  assumes "tool_round env cfg tv tcs st = (x, st')" "fair_schedule env"
  shows "heeds_cancellation env st x st'"
proof (cases "le_cancelled env (ls_polls st)")
  case True
  with assms(1) show ?thesis by (auto simp: tool_round_def poll_def intro: heeds_cancelled)
next
  case False
  let ?st = "st\<lparr>ls_polls := Suc (ls_polls st)\<rparr>"
  obtain results st2 where r: "run_batch env cfg tv tcs ?st = (results, st2)" by fastforce
  let ?st3 = "fold (push_result cfg (current_turn tv st2)) results st2"
  obtain n st4 where d: "doom_step cfg (all_failed results) (tv_failures tv) ?st3 = (n, st4)" by fastforce
  obtain y st5 where h: "handle_yield cfg (first_yield results) st4 = (y, st5)" by fastforce
  have "ls_polls st2 = ls_polls ?st" using r assms(2) by (auto elim!: run_batch_fields)
  then have p: "ls_polls st5 = ls_polls ?st"
    by (simp add: handle_yield_fields [OF h] doom_step_fields [OF d] push_results_fields)
  have "heeds_cancellation env ?st x st'"
  proof (cases y)
    case None
    with assms(1) False r d h obtain tv' where "close_round env cfg tv' st5 = (x, st')"
      by (simp add: tool_round_def poll_def Let_def)
    from close_round_heeds [OF this] show ?thesis unfolding heeds_cong [OF p] .
  next
    case (Some res)
    with assms(1) False r d h have "st' = st5"
      by (simp add: tool_round_def poll_def Let_def)
    with p show ?thesis by (simp add: heeds_same)
  qed
  with False show ?thesis by (rule heeds_poll)
qed

lemma answer_round_heeds:
  assumes "answer_round env cfg tv st = (x, st')" "fair_schedule env"
  shows "heeds_cancellation env st x st'"
proof -
  obtain tv1 st1 where b: "compact_before_call env cfg tv st = (tv1, st1)" by fastforce
  obtain r st2 where c: "call_llm_with_retry env cfg (tool_definitions (th_registry (lc_host cfg))) (strip_state st1) = (r, st2)"
    by fastforce
  then obtain k where "requests (Suc k) (ls_messages (strip_state st1)) (strip_state st1) st2"
    by (rule call_llm_requests)
  with before_call_polls [OF b] have p: "ls_polls st2 = ls_polls st"
    by (simp add: requests_fields strip_state_def)
  show ?thesis
  proof (cases r)
    case (Inl e)
    with assms(1) b c have "st' = st2" by (simp add: answer_round_def)
    with p show ?thesis by (simp add: heeds_same)
  next
    case (Inr response)
    obtain tv3 st3 where u: "record_usage cfg response tv1 st2 = (tv3, st3)" by fastforce
    let ?st4 = "push_assistant cfg (current_turn tv3 st3) response st3"
    have p4: "ls_polls ?st4 = ls_polls st" by (simp add: push_assistant_fields record_usage_fields [OF u] p)
    show ?thesis
    proof (cases "lr_tool_calls response = []")
      case True
      with assms(1) b c Inr u have "(x, st') = (case finish_answer cfg response ?st4 of (r, st5) \<Rightarrow> (Inl r, st5))"
        by (simp add: answer_round_def Let_def)
      then have "ls_polls st' = ls_polls ?st4"
        by (auto simp: finish_answer_def emit_def Let_def split: if_splits)
      with p4 show ?thesis by (simp add: heeds_same)
    next
      case False
      with assms(1) b c Inr u have "tool_round env cfg tv3 (lr_tool_calls response) ?st4 = (x, st')"
        by (simp add: answer_round_def Let_def)
      from tool_round_heeds [OF this assms(2)] show ?thesis unfolding heeds_cong [OF p4] .
    qed
  qed
qed

lemma loop_round_heeds:
  assumes "loop_round env cfg tv st = (x, st')" "fair_schedule env"
  shows "heeds_cancellation env st x st'"
  using assms(1)
proof (cases rule: loop_round_cases)
  case cancelled
  then show ?thesis by (simp add: heeds_cancelled)
next
  case limit
  show ?thesis by (rule heeds_poll [OF limit(1) heeds_same]) (simp add: limit(4) emit_def)
next
  case answer
  show ?thesis by (rule heeds_poll [OF answer(1) answer_round_heeds [OF answer(3) assms(2)]])
qed

text \<open>
  C7: Cancellation is heeded at the next look: the first time the loop finds its token cancelled is
  the last time it looks, and the run returns \<open>Cancelled\<close>. So between the cancellation and the
  return there is at most what lies between two looks: one request or one batch of tools.
\<close>

theorem cancellation_ends_run:
  assumes "unat (lc_max_iterations cfg) < 2 ^ 32 - 1" "fair_schedule env" "user_text_preview msg \<noteq> None"
  shows "\<exists>r st'. run_agent env cfg msg st = Some (Returned r, st') \<and>
    (\<forall>k. ls_polls st \<le> k \<longrightarrow> k < ls_polls st' \<longrightarrow> le_cancelled env k \<longrightarrow>
       Suc k = ls_polls st' \<and> r = Inl Cancelled)"
proof -
  let ?st = "correct_tokens (push_user cfg msg st)" and ?max = "unat (lc_max_iterations cfg)"
  have b: "bounded_config cfg" using assms(1) by (simp add: bounded_config_def)
  have p: "ls_polls ?st = ls_polls st" by (simp add: correct_tokens_def push_user_def push_def)
  have "\<exists>r st'. run_loop env cfg (start_vars (push_user cfg msg st)) ?st = Some (r, st') \<and>
      heeds_cancellation env st (Inl r) st'"
  proof (rule run_loop_rule [where I = "\<lambda>tv s. heeds_cancellation env st (Inr tv) s", OF b])
    show "heeds_cancellation env st (Inr (start_vars (push_user cfg msg st))) ?st"
      by (rule heeds_same [OF p])
  next
    fix tv s tv' s'
    assume I: "heeds_cancellation env st (Inr tv) s" and r: "loop_round env cfg tv s = (Inr tv', s')"
      and lt: "unat (tv_iteration tv) < ?max"
    have "heeds_cancellation env st (Inr tv') s'" by (rule heeds_trans [OF I loop_round_heeds [OF r assms(2)]])
    moreover have "tv_iteration tv' = tv_iteration tv + 1"
      using any_requests.loop_round_keeps [OF r assms(2)] by (simp add: answers_with_def)
    then have "unat (tv_iteration tv') = Suc (unat (tv_iteration tv))"
      using lt assms(1) by (simp add: unat_word_ariths)
    ultimately show "heeds_cancellation env st (Inr tv') s' \<and> unat (tv_iteration tv') = Suc (unat (tv_iteration tv))"
      by blast
  next
    fix tv s r s'
    assume "heeds_cancellation env st (Inr tv) s" "loop_round env cfg tv s = (Inl r, s')"
    with heeds_trans loop_round_heeds assms(2) show "heeds_cancellation env st (Inl r) s'" by blast
  qed (simp add: start_vars_def)
  with assms(3) show ?thesis
    by (auto simp: run_agent_def run_inner_def heeds_cancellation_def)
qed

theorem cancellation_ends_run_witness:
  "\<exists>r st'. run_agent (example_env\<lparr>le_cancelled := (\<lambda>k. k \<ge> 1)\<rparr>) example_cfg (user_msg ''hi'') example_start =
       Some (Returned r, st') \<and> (2 \<le> ls_polls st' \<longrightarrow> ls_polls st' = 2 \<and> r = Inl Cancelled)"
proof -
  let ?env = "example_env\<lparr>le_cancelled := (\<lambda>k. k \<ge> (1 :: nat))\<rparr>"
  have "fair_schedule ?env" using example_setting(2) by (simp add: fair_schedule_def)
  moreover have "user_text_preview (user_msg ''hi'') \<noteq> None"
    by (simp add: user_text_preview_def user_msg_def str_slice_def is_char_boundary_def)
  moreover have "unat (lc_max_iterations example_cfg) < 2 ^ 32 - 1"
    using example_setting(1) by (simp add: bounded_config_def)
  ultimately obtain r st' where "run_agent ?env example_cfg (user_msg ''hi'') example_start = Some (Returned r, st')"
    "\<forall>k. ls_polls example_start \<le> k \<longrightarrow> k < ls_polls st' \<longrightarrow> le_cancelled ?env k \<longrightarrow>
       Suc k = ls_polls st' \<and> r = Inl Cancelled"
    using cancellation_ends_run [of example_cfg ?env "user_msg ''hi''" example_start] by blast
  then show ?thesis by (auto simp: example_setting dest: spec [of _ 1])
qed

text \<open>
  A run can crash on the user's own message: the log preview takes its first 100 bytes, and a
  message whose 100th byte lies inside a character makes the slice panic, before anything is
  stored or sent.
\<close>

theorem user_preview_panics:
  "run_agent env cfg (user_msg (replicate 99 (CHR ''a'') @ [CHR 0xC3, CHR 0xA9])) st = Some (Crashed, st)"
proof -
  have "user_text_preview (user_msg (replicate 99 (CHR ''a'') @ [CHR 0xC3, CHR 0xA9])) = None"
    by (simp add: user_text_preview_def user_msg_def str_slice_def is_char_boundary_def nth_append is_continuation_def byte_val_def)
  then show ?thesis by (simp add: run_agent_def run_inner_def)
qed

subsection \<open>What a resumed session finds\<close>

definition mirrors :: "loop_state \<Rightarrow> loop_state \<Rightarrow> bool" where
  "mirrors st0 st \<longleftrightarrow> (\<exists>added stored. ls_messages st = ls_messages st0 @ added \<and>
     ls_persisted st = ls_persisted st0 @ stored \<and>
     map am_llm_message stored = filter (\<lambda>m. m \<noteq> system_msg doom_hint) added)"

definition tracked :: "loop_config \<Rightarrow> loop_state \<Rightarrow> loop_state \<Rightarrow> bool" where
  "tracked cfg st0 st \<longleftrightarrow> ls_persists st \<and> (CompactionEvent (sid cfg) \<in> set (ls_events st) \<or> mirrors st0 st)"

lemma tracked_quiet:
  assumes "tracked cfg st0 st" "ls_messages st' = ls_messages st" "ls_persisted st' = ls_persisted st"
    "ls_persists st' = ls_persists st" "set (ls_events st) \<subseteq> set (ls_events st')"
  shows "tracked cfg st0 st'"
  using assms by (auto simp: tracked_def mirrors_def)

lemma tracked_emit: "tracked cfg st0 st \<Longrightarrow> tracked cfg st0 (emit ev st)"
  by (rule tracked_quiet) (auto simp: emit_def)

lemma tracked_polls: "tracked cfg st0 st \<Longrightarrow> tracked cfg st0 (st\<lparr>ls_polls := n\<rparr>)"
  by (rule tracked_quiet) auto

lemma tracked_push:
  assumes "tracked cfg st0 st" "m \<noteq> system_msg doom_hint"
  shows "tracked cfg st0 (push m (persist_fire_and_forget cfg (chat_to_agent_message m ty sndr turn) st))"
proof (cases "CompactionEvent (sid cfg) \<in> set (ls_events st)")
  case True
  with assms(1) show ?thesis by (simp add: tracked_def push_def)
next
  case False
  with assms(1) obtain added stored where a: "ls_messages st = ls_messages st0 @ added" "ls_persists st"
    "ls_persisted st = ls_persisted st0 @ stored"
    "map am_llm_message stored = filter (\<lambda>m. m \<noteq> system_msg doom_hint) added"
    by (auto simp: tracked_def mirrors_def)
  let ?msg = "chat_to_agent_message m ty sndr turn"
  obtain p where p: "ls_persisted (persist_fire_and_forget cfg ?msg st) = ls_persisted st @ [p]" "am_llm_message p = m"
    using a(2) by (auto simp: persist_fire_and_forget_def chat_to_agent_message_def split: option.splits)
  have "mirrors st0 (push m (persist_fire_and_forget cfg ?msg st))"
    unfolding mirrors_def
    by (rule exI [of _ "added @ [m]"], rule exI [of _ "stored @ [p]"]) (simp add: push_def a p assms(2))
  with a(2) show ?thesis by (simp add: tracked_def push_def)
qed

lemma tracked_results:
  "tracked cfg st0 st \<Longrightarrow> tracked cfg st0 (fold (push_result cfg turn) results st)"
proof (induction results arbitrary: st)
  case (Cons r rs)
  have "tool_result_msg i out \<noteq> system_msg doom_hint" for i out by (simp add: msg_defs)
  with tracked_push [OF Cons.prems] Cons.IH show ?case by (simp add: push_result_def Let_def)
qed simp

lemma tracked_doom_step:
  assumes "doom_step cfg failed n st = (n', st')" "tracked cfg st0 st"
  shows "tracked cfg st0 st'"
proof -
  have e: "set (ls_events st) \<subseteq> set (ls_events st')"
    using assms(1) by (auto simp: doom_step_def push_def emit_def Let_def split: if_splits)
  note f = doom_step_fields [OF assms(1)]
  show ?thesis
  proof (cases "CompactionEvent (sid cfg) \<in> set (ls_events st)")
    case True
    with e assms(2) f show ?thesis by (auto simp: tracked_def)
  next
    case False
    with assms(2) obtain added stored where a: "ls_messages st = ls_messages st0 @ added" "ls_persists st"
      "ls_persisted st = ls_persisted st0 @ stored"
      "map am_llm_message stored = filter (\<lambda>m. m \<noteq> system_msg doom_hint) added"
      by (auto simp: tracked_def mirrors_def)
    then have "mirrors st0 st'" unfolding mirrors_def f by auto
    with a(2) f show ?thesis by (simp add: tracked_def)
  qed
qed

lemma tracked_handle_yield: "handle_yield cfg y st = (r, st') \<Longrightarrow> tracked cfg st0 st \<Longrightarrow> tracked cfg st0 st'"
  by (auto simp: handle_yield_def Let_def intro: tracked_emit split: option.splits if_splits)

lemma tracked_compaction:
  "try_compaction env cfg st = (c, st') \<Longrightarrow> tracked cfg st0 st \<Longrightarrow> tracked cfg st0 st'"
  by (erule try_compaction_cases) (auto simp: tracked_def)

lemma tracked_before_call:
  "compact_before_call env cfg tv st = (tv', st') \<Longrightarrow> tracked cfg st0 st \<Longrightarrow> tracked cfg st0 st'"
  using tracked_compaction by (auto simp: compact_before_call_def Let_def split: if_splits prod.splits)

lemma tracked_requests: "requests k ms st st' \<Longrightarrow> tracked cfg st0 st \<Longrightarrow> tracked cfg st0 st'"
  by (erule tracked_quiet) (auto simp: requests_def dest: set_mono_prefix)

lemma tracked_batch:
  assumes "run_batch env cfg tv tcs st = (results, st')" "fair_schedule env" "tracked cfg st0 st"
  shows "tracked cfg st0 st'"
proof -
  have "set (ls_events st) \<subseteq> set (ls_events st')"
    using assms(1) by (auto simp: run_batch_def emits_def split: prod.splits)
  with run_batch_fields [OF assms(1,2)] tracked_quiet [OF assms(3)] show ?thesis by metis
qed

lemma close_round_tracked:
  assumes "close_round env cfg tv st = (x, st')" "tracked cfg st0 st"
  shows "tracked cfg st0 st'"
proof -
  let ?st = "st\<lparr>ls_polls := Suc (ls_polls st)\<rparr>"
  have t0: "tracked cfg st0 ?st" by (rule tracked_polls [OF assms(2)])
  obtain c st1 where t: "try_compaction env cfg ?st = (c, st1)" by fastforce
  show ?thesis
    using assms(1) t t0 tracked_compaction [OF t t0]
    by (cases "le_cancelled env (ls_polls st)")
      (auto simp: close_round_def poll_def turn_completed_def intro: tracked_emit split: if_splits)
qed

lemma tool_round_tracked:
  assumes "tool_round env cfg tv tcs st = (x, st')" "fair_schedule env" "tracked cfg st0 st"
  shows "tracked cfg st0 st'"
proof (cases "le_cancelled env (ls_polls st)")
  case True
  with assms(1) tracked_polls [OF assms(3)] show ?thesis by (auto simp: tool_round_def poll_def)
next
  case False
  let ?st = "st\<lparr>ls_polls := Suc (ls_polls st)\<rparr>"
  obtain results st2 where r: "run_batch env cfg tv tcs ?st = (results, st2)" by fastforce
  let ?st3 = "fold (push_result cfg (current_turn tv st2)) results st2"
  obtain n st4 where d: "doom_step cfg (all_failed results) (tv_failures tv) ?st3 = (n, st4)" by fastforce
  obtain y st5 where h: "handle_yield cfg (first_yield results) st4 = (y, st5)" by fastforce
  have t5: "tracked cfg st0 st5"
    by (rule tracked_handle_yield [OF h tracked_doom_step [OF d tracked_results
          [OF tracked_batch [OF r assms(2) tracked_polls [OF assms(3)]]]]])
  show ?thesis
  proof (cases y)
    case None
    with assms(1) False r d h obtain tv' where "close_round env cfg tv' st5 = (x, st')"
      by (simp add: tool_round_def poll_def Let_def)
    from close_round_tracked [OF this t5] show ?thesis .
  next
    case (Some res)
    with assms(1) False r d h have "st' = st5"
      by (simp add: tool_round_def poll_def Let_def)
    with t5 show ?thesis by simp
  qed
qed

lemma answer_round_tracked:
  assumes "answer_round env cfg tv st = (x, st')" "fair_schedule env" "tracked cfg st0 st"
    "well_turned (ls_messages st)"
  shows "tracked cfg st0 st'"
proof -
  obtain tv1 st1 where b: "compact_before_call env cfg tv st = (tv1, st1)" by fastforce
  obtain r st2 where c: "call_llm_with_retry env cfg (tool_definitions (th_registry (lc_host cfg))) (strip_state st1) = (r, st2)"
    by fastforce
  then obtain k where k: "requests (Suc k) (ls_messages (strip_state st1)) (strip_state st1) st2"
    by (rule call_llm_requests)
  have "strip_state st1 = st1"
    using turned_requests.before_call_keeps [OF assms(4) b]
    by (simp add: strip_state_def strip_id well_turned_closed)
  with tracked_requests [OF k] tracked_before_call [OF b assms(3)] have t2: "tracked cfg st0 st2" by simp
  show ?thesis
  proof (cases r)
    case (Inl e)
    with assms(1) b c t2 show ?thesis by (simp add: answer_round_def)
  next
    case (Inr response)
    obtain tv3 st3 where u: "record_usage cfg response tv1 st2 = (tv3, st3)" by fastforce
    have "set (ls_events st2) \<subseteq> set (ls_events st3)"
      using u by (auto simp: record_usage_def emit_def Let_def split: option.splits prod.splits)
    with tracked_quiet [OF t2] record_usage_fields [OF u] have t3: "tracked cfg st0 st3" by metis
    let ?st4 = "push_assistant cfg (current_turn tv3 st3) response st3"
    have "assistant_msg ct tcs th \<noteq> system_msg doom_hint" for ct tcs th by (simp add: msg_defs)
    with tracked_push [OF t3] have t4: "tracked cfg st0 ?st4" by (simp add: push_assistant_def Let_def)
    show ?thesis
    proof (cases "lr_tool_calls response = []")
      case True
      with assms(1) b c Inr u have "(x, st') = (case finish_answer cfg response ?st4 of (r, st5) \<Rightarrow> (Inl r, st5))"
        by (simp add: answer_round_def Let_def)
      with t4 show ?thesis by (auto simp: finish_answer_def Let_def intro: tracked_emit split: if_splits)
    next
      case False
      with assms(1) b c Inr u have "tool_round env cfg tv3 (lr_tool_calls response) ?st4 = (x, st')"
        by (simp add: answer_round_def Let_def)
      from tool_round_tracked [OF this assms(2) t4] show ?thesis .
    qed
  qed
qed

lemma loop_round_tracked:
  assumes "loop_round env cfg tv st = (x, st')" "fair_schedule env" "tracked cfg st0 st"
    "well_turned (ls_messages st)"
  shows "tracked cfg st0 st'"
  using assms(1)
proof (cases rule: loop_round_cases)
  case answer
  show ?thesis by (rule answer_round_tracked [OF answer(3) assms(2) tracked_polls [OF assms(3)]]) (simp add: assms(4))
qed (use tracked_polls [OF assms(3)] in \<open>auto intro: tracked_emit\<close>)



end
