(* ===== verification/SseStream.thy ===== *)
theory SseStream
  imports ChatTypes
begin

section \<open>Server-sent events (\<open>llm/sse.rs\<close>)\<close>

text \<open>
  The line reader both providers share, and the OpenAI parser on top of it. A stream is the list of what
  the reader gets when it waits: a chunk of bytes, a broken connection, the idle timeout, or the
  user's cancellation; the end of the list is the end of the stream. \<open>serde_json\<close>'s parser of a
  \<open>data:\<close> payload is a parameter. What a parser emits is part of its state.
\<close>

subsection \<open>The line reader\<close>

datatype stream_item = Chunk byte_vec | Broken rstr | Stalled | CancelSeen

definition max_buffer_size :: nat where "max_buffer_size = 1024 * 1024"
definition chunk_idle_timeout :: nat where "chunk_idle_timeout = 60"

text \<open>The first complete line of a buffer, without its line end, and what follows it.\<close>

definition cut_line :: "rstr \<Rightarrow> (rstr \<times> rstr) option" where
  "cut_line buf =
     (if nl \<in> set buf
      then Some (trim_end_matches cr (takeWhile (\<lambda>c. c \<noteq> nl) buf), tl (dropWhile (\<lambda>c. c \<noteq> nl) buf))
      else None)"

definition overflow_error :: agent_error where
  "overflow_error = LlmParseError (''SSE buffer exceeded '' @ nat_str max_buffer_size @
     '' bytes without a newline '' @ [CHR 0xE2, CHR 0x80, CHR 0x94] @ '' aborting'')"

fun next_line :: "rstr \<Rightarrow> stream_item list \<Rightarrow> (agent_error + rstr option) \<times> rstr \<times> stream_item list" where
  "next_line buf [] =
     (case cut_line buf of Some (line, rest) \<Rightarrow> (Inr (Some line), rest, []) | None \<Rightarrow> (Inr None, buf, []))"
| "next_line buf (item # items) =
     (case cut_line buf of
        Some (line, rest) \<Rightarrow> (Inr (Some line), rest, item # items)
      | None \<Rightarrow>
          (case item of
             CancelSeen \<Rightarrow> (Inl Cancelled, buf, items)
           | Stalled \<Rightarrow> (Inl (ChunkTimeout chunk_idle_timeout), buf, items)
           | Broken e \<Rightarrow> (Inl (HttpError e), buf, items)
           | Chunk bytes \<Rightarrow>
               let buf' = buf @ from_utf8_lossy bytes
               in if length buf' > max_buffer_size then (Inl overflow_error, buf', items)
                  else next_line buf' items))"

lemma cut_line_SomeD:
  assumes "cut_line buf = Some (line, rest)"
  shows "length rest < length buf" "\<exists>l. nl \<notin> set l \<and> line = trim_end_matches cr l \<and> buf = l @ nl # rest"
proof -
  let ?l = "takeWhile (\<lambda>c. c \<noteq> nl) buf"
  from assms have nl: "nl \<in> set buf" and line: "line = trim_end_matches cr ?l"
    and rest: "rest = tl (dropWhile (\<lambda>c. c \<noteq> nl) buf)" by (auto simp: cut_line_def split: if_splits)
  from nl have ne: "dropWhile (\<lambda>c. c \<noteq> nl) buf \<noteq> []" by (auto simp: dropWhile_eq_Nil_conv)
  from takeWhile_dropWhile_split [OF ne] hd_dropWhile [OF ne] rest have "buf = ?l @ nl # rest" by simp
  moreover have "nl \<notin> set ?l" by (auto dest: set_takeWhileD)
  ultimately show "length rest < length buf" "\<exists>l. nl \<notin> set l \<and> line = trim_end_matches cr l \<and> buf = l @ nl # rest"
    using line by (metis (no_types) length_append length_Cons less_add_Suc2 add.commute add_Suc_right, blast)
qed

lemma next_line_shrinks:
  "next_line buf items = (r, buf', items') \<Longrightarrow> r = Inr (Some line) \<Longrightarrow>
     length items' \<le> length items \<and> (length items' = length items \<longrightarrow> items' = items \<and> length buf' < length buf)"
proof (induction buf items rule: next_line.induct)
  case (2 buf item items)
  show ?case
  proof (cases "cut_line buf")
    case None
    with 2 show ?thesis by (fastforce simp: Let_def split: stream_item.splits if_splits)
  next
    case (Some x)
    with 2 show ?thesis by (cases x) (auto dest: cut_line_SomeD(1))
  qed
qed (auto dest: cut_line_SomeD(1) split: option.splits)

lemma next_line_progress:
  "next_line buf items = (Inr (Some line), buf', items') \<Longrightarrow>
     length items' < length items \<or> items' = items \<and> length buf' < length buf"
  using next_line_shrinks by (metis le_neq_implies_less)

subsection \<open>Driving a parser\<close>

text \<open>What a parser makes of a line: it goes on, it is done, or it fails.\<close>

datatype 's line_step = Continue 's | Finish 's | Abort agent_error 's

function drive ::
  "(rstr \<Rightarrow> 's \<Rightarrow> 's line_step) \<Rightarrow> 's \<Rightarrow> rstr \<Rightarrow> stream_item list \<Rightarrow> agent_error option \<times> 's" where
  "drive h st buf items =
     (case next_line buf items of
        (Inl e, _, _) \<Rightarrow> (Some e, st)
      | (Inr None, _, _) \<Rightarrow> (None, st)
      | (Inr (Some line), buf', items') \<Rightarrow>
          (case h line st of
             Continue st' \<Rightarrow> drive h st' buf' items'
           | Finish st' \<Rightarrow> (None, st')
           | Abort e st' \<Rightarrow> (Some e, st')))"
  by pat_completeness auto
termination
  by (relation "measures [\<lambda>(h, st, buf, items). length items, \<lambda>(h, st, buf, items). length buf]")
    (auto dest: next_line_progress [OF sym])

declare drive.simps [simp del]

text \<open>The reference: the lines of the whole text, one after the other.\<close>

fun run_lines :: "('l \<Rightarrow> 's \<Rightarrow> 's line_step) \<Rightarrow> 's \<Rightarrow> 'l list \<Rightarrow> agent_error option \<times> 's" where
  "run_lines h st [] = (None, st)"
| "run_lines h st (l # ls) =
     (case h l st of
        Continue st' \<Rightarrow> run_lines h st' ls
      | Finish st' \<Rightarrow> (None, st')
      | Abort e st' \<Rightarrow> (Some e, st'))"

function complete_lines :: "rstr \<Rightarrow> rstr list" where
  "complete_lines s = (case cut_line s of None \<Rightarrow> [] | Some (line, rest) \<Rightarrow> line # complete_lines rest)"
  by pat_completeness auto
termination
  by (relation "measure length") (auto dest: cut_line_SomeD(1))

declare complete_lines.simps [simp del]

text \<open>No stretch without a line end is longer than \<open>n\<close> bytes.\<close>

definition short_lines :: "nat \<Rightarrow> rstr \<Rightarrow> bool" where
  "short_lines n s \<longleftrightarrow> (\<forall>l. sublist l s \<longrightarrow> nl \<notin> set l \<longrightarrow> length l \<le> n)"

lemma cut_line_append:
  assumes "cut_line buf = Some (line, rest)"
  shows "cut_line (buf @ x) = Some (line, rest @ x)"
proof -
  from cut_line_SomeD(2) [OF assms] obtain l where l: "nl \<notin> set l" "line = trim_end_matches cr l" "buf = l @ nl # rest"
    by blast
  have "\<And>c. c \<in> set l \<Longrightarrow> c \<noteq> nl" using l(1) by auto
  then have "takeWhile (\<lambda>c. c \<noteq> nl) (l @ nl # rest @ x) = l" "dropWhile (\<lambda>c. c \<noteq> nl) (l @ nl # rest @ x) = nl # rest @ x"
    by (simp_all add: takeWhile_append2 dropWhile_append2)
  with l(2,3) show ?thesis by (simp add: cut_line_def)
qed

text \<open>Lines do not depend on how the text was cut into chunks.\<close>

lemma next_line_chunks:
  assumes "\<forall>c \<in> set cs. utf8_valid c \<and> length c + n \<le> max_buffer_size" "short_lines n (buf @ concat cs)"
    and "next_line buf (map Chunk cs) = (r, buf', items)"
  shows "case cut_line (buf @ concat cs) of
      None \<Rightarrow> r = Inr None
    | Some (line, rest) \<Rightarrow> r = Inr (Some line) \<and>
        (\<exists>cs'. items = map Chunk cs' \<and> set cs' \<subseteq> set cs \<and> rest = buf' @ concat cs')"
  using assms
proof (induction cs arbitrary: buf)
  case Nil
  then show ?case by (auto split: option.splits)
next
  case (Cons c cs)
  show ?case
  proof (cases "cut_line buf")
    case (Some x)
    then obtain line rest where x: "cut_line buf = Some (line, rest)" by (cases x) simp
    from x Cons.prems(3) have "r = Inr (Some line)" "buf' = rest" "items = map Chunk (c # cs)" by auto
    with cut_line_append [OF x, of "concat (c # cs)"] show ?thesis by (auto intro: exI [of _ "c # cs"])
  next
    case None
    then have "nl \<notin> set buf" by (auto simp: cut_line_def split: if_splits)
    with Cons.prems(2) have "length buf \<le> n" by (auto simp: short_lines_def)
    moreover have c: "from_utf8_lossy c = c" "length c + n \<le> max_buffer_size"
      using Cons.prems(1) by (auto intro: from_utf8_lossy_valid)
    ultimately have "next_line (buf @ c) (map Chunk cs) = (r, buf', items)"
      using Cons.prems(3) None by (simp add: Let_def split: if_splits)
    from Cons.IH [OF _ _ this] Cons.prems(1,2) show ?thesis
      by (fastforce split: option.splits)
  qed
qed

lemma short_lines_rest:
  assumes "short_lines n s" "cut_line s = Some (line, rest)"
  shows "short_lines n rest"
proof -
  from cut_line_SomeD(2) [OF assms(2)] obtain l where "s = (l @ [nl]) @ rest" by auto
  then have "sublist k s" if "sublist k rest" for k
    using that by (metis sublist_append_rightI sublist_order.order_trans sublist_appendI append_Nil2)
  with assms(1) show ?thesis by (auto simp: short_lines_def)
qed

lemma drive_chunks:
  assumes "\<forall>c \<in> set cs. utf8_valid c \<and> length c + n \<le> max_buffer_size" "short_lines n (buf @ concat cs)"
  shows "drive h st buf (map Chunk cs) = run_lines h st (complete_lines (buf @ concat cs))"
  using assms
proof (induction "length (buf @ concat cs)" arbitrary: buf cs st rule: less_induct)
  case less
  obtain r buf' items where nx: "next_line buf (map Chunk cs) = (r, buf', items)" using prod_cases3 by blast
  note n = next_line_chunks [OF less.prems nx]
  show ?case
  proof (cases "cut_line (buf @ concat cs)")
    case None
    with n nx show ?thesis by (subst drive.simps, subst complete_lines.simps) simp
  next
    case (Some x)
    then obtain line rest where x: "cut_line (buf @ concat cs) = Some (line, rest)" by (cases x) simp
    with n obtain cs' where r: "r = Inr (Some line)" "items = map Chunk cs'" "set cs' \<subseteq> set cs" "rest = buf' @ concat cs'"
      by auto
    have l: "length (buf' @ concat cs') < length (buf @ concat cs)"
      using cut_line_SomeD(1) [OF x] r(4) by simp
    have s: "short_lines n (buf' @ concat cs')" using short_lines_rest [OF less.prems(2) x] r(4) by simp
    have "drive h st' buf' (map Chunk cs') = run_lines h st' (complete_lines (buf' @ concat cs'))" for st'
      using less.hyps [OF l _ s] less.prems(1) r(3) by blast
    with nx r x show ?thesis
      by (subst drive.simps, subst complete_lines.simps) (simp split: line_step.splits)
  qed
qed

subsection \<open>The OpenAI chunks\<close>

record function_call_chunk =
  fx_name :: "rstr option"
  fx_arguments :: "rstr option"

record tool_call_chunk =
  tk_index :: u32
  tk_id :: "rstr option"
  tk_function :: "function_call_chunk option"

record chunk_delta =
  dl_content :: "rstr option"
  dl_tool_calls :: "tool_call_chunk list option"
  dl_thinking :: "rstr option"

record chunk_choice =
  ch_delta :: chunk_delta
  ch_finish_reason :: "rstr option"

record completion_chunk =
  ck_choices :: "chunk_choice list"
  ck_usage :: "usage option"

record tool_acc =
  ac_id :: rstr
  ac_name :: rstr
  ac_arguments :: rstr

record sse_state =
  ss_text :: rstr
  ss_thinking :: rstr
  ss_accs :: "(u32 \<times> tool_acc) list"
  ss_usage :: "usage option"
  ss_finish :: "rstr option"
  ss_events :: "agent_event list"

definition empty_acc :: tool_acc where
  "empty_acc = \<lparr>ac_id = [], ac_name = [], ac_arguments = []\<rparr>"

definition sse_start :: sse_state where
  "sse_start = \<lparr>ss_text = [], ss_thinking = [], ss_accs = [], ss_usage = None, ss_finish = None, ss_events = []\<rparr>"

text \<open>\<open>HashMap::entry(..).or_insert_with(..)\<close> and the update of the entry.\<close>

fun with_entry :: "'k \<Rightarrow> 'v \<Rightarrow> ('v \<Rightarrow> 'v) \<Rightarrow> ('k \<times> 'v) list \<Rightarrow> ('k \<times> 'v) list" where
  "with_entry k d f [] = [(k, f d)]"
| "with_entry k d f ((k', v) # kvs) = (if k' = k then (k, f v) # kvs else (k', v) # with_entry k d f kvs)"

definition unless_empty :: "rstr option \<Rightarrow> rstr \<Rightarrow> rstr" where
  "unless_empty new old = (case new of Some s \<Rightarrow> if s = [] then old else s | None \<Rightarrow> old)"

definition add_fragment :: "tool_call_chunk \<Rightarrow> tool_acc \<Rightarrow> tool_acc" where
  "add_fragment tk acc =
     (let acc1 = acc\<lparr>ac_id := unless_empty (tk_id tk) (ac_id acc)\<rparr>
      in case tk_function tk of
           None \<Rightarrow> acc1
         | Some fx \<Rightarrow> acc1\<lparr>ac_name := unless_empty (fx_name fx) (ac_name acc1),
             ac_arguments := ac_arguments acc1 @ (case fx_arguments fx of Some a \<Rightarrow> a | None \<Rightarrow> [])\<rparr>)"

definition add_tool_call :: "tool_call_chunk \<Rightarrow> (u32 \<times> tool_acc) list \<Rightarrow> (u32 \<times> tool_acc) list" where
  "add_tool_call tk = with_entry (tk_index tk) empty_acc (add_fragment tk)"

definition add_thinking :: "rstr \<Rightarrow> rstr option \<Rightarrow> sse_state \<Rightarrow> sse_state" where
  "add_thinking session thinking st =
     (case thinking of
        Some t \<Rightarrow> if t = [] then st
          else st\<lparr>ss_thinking := ss_thinking st @ t, ss_events := ss_events st @ [ThinkingDelta session t]\<rparr>
      | None \<Rightarrow> st)"

definition add_text :: "rstr \<Rightarrow> rstr option \<Rightarrow> sse_state \<Rightarrow> sse_state" where
  "add_text session content st =
     (case content of
        Some t \<Rightarrow> if t = [] then st
          else st\<lparr>ss_text := ss_text st @ t, ss_events := ss_events st @ [TextDelta session t]\<rparr>
      | None \<Rightarrow> st)"

definition or_keep :: "'a option \<Rightarrow> 'a option \<Rightarrow> 'a option" where
  "or_keep new old = (if new \<noteq> None then new else old)"

definition apply_chunk :: "rstr \<Rightarrow> completion_chunk \<Rightarrow> sse_state \<Rightarrow> sse_state" where
  "apply_chunk session chunk st =
     (case ck_choices chunk of
        [] \<Rightarrow> st\<lparr>ss_usage := or_keep (ck_usage chunk) (ss_usage st)\<rparr>
      | choice # _ \<Rightarrow>
          let delta = ch_delta choice;
              st1 = st\<lparr>ss_finish := or_keep (ch_finish_reason choice) (ss_finish st)\<rparr>;
              st2 = add_thinking session (dl_thinking delta) st1;
              st3 = add_text session (dl_content delta) st2;
              st4 = (case dl_tool_calls delta of
                       Some tks \<Rightarrow> st3\<lparr>ss_accs := fold add_tool_call tks (ss_accs st3)\<rparr>
                     | None \<Rightarrow> st3)
          in st4\<lparr>ss_usage := or_keep (ck_usage chunk) (ss_usage st4)\<rparr>)"

text \<open>The payload of a \<open>data:\<close> line; comments, blank and other lines have none.\<close>

definition data_of_line :: "rstr \<Rightarrow> rstr option" where
  "data_of_line line =
     (if line = [] \<or> starts_with line '':'' then None
      else case strip_prefix line ''data: '' of
             Some d \<Rightarrow> Some (str_trim d)
           | None \<Rightarrow> map_option str_trim (strip_prefix line ''data:''))"

definition openai_line :: "(rstr \<Rightarrow> completion_chunk option) \<Rightarrow> rstr \<Rightarrow> rstr \<Rightarrow> sse_state \<Rightarrow> sse_state line_step" where
  "openai_line parse session line st =
     (case data_of_line line of
        None \<Rightarrow> Continue st
      | Some d \<Rightarrow>
          if d = ''[DONE]'' then Finish st
          else case parse d of
                 None \<Rightarrow> Continue st
               | Some chunk \<Rightarrow> Continue (apply_chunk session chunk st))"

definition finished_call :: "tool_acc \<Rightarrow> tool_call option" where
  "finished_call acc =
     (if ac_id acc = [] \<or> ac_name acc = [] then None
      else Some \<lparr>tc_id = ac_id acc, tc_type = ''function'',
                 tc_function = \<lparr>fc_name = ac_name acc, fc_arguments = ac_arguments acc\<rparr>\<rparr>)"

definition none_if_empty :: "rstr \<Rightarrow> rstr option" where
  "none_if_empty s = (if s = [] then None else Some s)"

definition build_response ::
  "rstr \<Rightarrow> rstr \<Rightarrow> (u32 \<times> tool_acc) list \<Rightarrow> usage option \<Rightarrow> rstr option \<Rightarrow> llm_response" where
  "build_response txt thinking accs us finish =
     \<lparr>lr_content = none_if_empty txt,
      lr_tool_calls = List.map_filter (\<lambda>(_, acc). finished_call acc) (sort_key fst accs),
      lr_usage = us, lr_finish_reason = finish, lr_thinking = none_if_empty thinking\<rparr>"

definition state_response :: "sse_state \<Rightarrow> llm_response" where
  "state_response st = build_response (ss_text st) (ss_thinking st) (ss_accs st) (ss_usage st) (ss_finish st)"

text \<open>The result of the parser and the events it sent.\<close>

definition parse_sse_stream ::
  "(rstr \<Rightarrow> completion_chunk option) \<Rightarrow> rstr \<Rightarrow> stream_item list \<Rightarrow>
   (agent_error + llm_response) \<times> agent_event list" where
  "parse_sse_stream parse session items =
     (case drive (openai_line parse session) sse_start [] items of
        (Some e, st) \<Rightarrow> (Inl e, ss_events st)
      | (None, st) \<Rightarrow> (Inr (state_response st), ss_events st))"

subsection \<open>What the parser computes\<close>

fun stream_chunks :: "(rstr \<Rightarrow> completion_chunk option) \<Rightarrow> rstr list \<Rightarrow> completion_chunk list" where
  "stream_chunks parse [] = []"
| "stream_chunks parse (l # ls) =
     (case data_of_line l of
        None \<Rightarrow> stream_chunks parse ls
      | Some d \<Rightarrow> if d = ''[DONE]'' then []
          else (case parse d of None \<Rightarrow> stream_chunks parse ls | Some c \<Rightarrow> c # stream_chunks parse ls))"

lemma run_openai_lines:
  "run_lines (openai_line parse session) st ls = (None, fold (apply_chunk session) (stream_chunks parse ls) st)"
  by (induction ls arbitrary: st) (auto simp: openai_line_def split: option.splits)

definition first_delta :: "completion_chunk \<Rightarrow> chunk_delta option" where
  "first_delta c = (case ck_choices c of [] \<Rightarrow> None | ch # _ \<Rightarrow> Some (ch_delta ch))"

definition delta_text :: "(chunk_delta \<Rightarrow> rstr option) \<Rightarrow> completion_chunk \<Rightarrow> rstr" where
  "delta_text field c = (case Option.bind (first_delta c) field of Some t \<Rightarrow> t | None \<Rightarrow> [])"

definition fragments :: "completion_chunk \<Rightarrow> tool_call_chunk list" where
  "fragments c = (case Option.bind (first_delta c) dl_tool_calls of Some tks \<Rightarrow> tks | None \<Rightarrow> [])"

definition delta_events :: "rstr \<Rightarrow> completion_chunk \<Rightarrow> agent_event list" where
  "delta_events session c =
     (if delta_text dl_thinking c = [] then [] else [ThinkingDelta session (delta_text dl_thinking c)]) @
     (if delta_text dl_content c = [] then [] else [TextDelta session (delta_text dl_content c)])"

lemma apply_chunk_fields:
  "ss_text (apply_chunk session c st) = ss_text st @ delta_text dl_content c"
  "ss_thinking (apply_chunk session c st) = ss_thinking st @ delta_text dl_thinking c"
  "ss_events (apply_chunk session c st) = ss_events st @ delta_events session c"
  "ss_accs (apply_chunk session c st) = fold add_tool_call (fragments c) (ss_accs st)"
  "ss_usage (apply_chunk session c st) = or_keep (ck_usage c) (ss_usage st)"
  "ss_finish (apply_chunk session c st) =
     or_keep (case ck_choices c of [] \<Rightarrow> None | ch # _ \<Rightarrow> ch_finish_reason ch) (ss_finish st)"
  by (auto simp: apply_chunk_def Let_def delta_text_def delta_events_def fragments_def first_delta_def
      add_thinking_def add_text_def or_keep_def split: list.splits option.splits)

lemma apply_chunks_fields:
  "ss_text (fold (apply_chunk session) cs st) = ss_text st @ concat (map (delta_text dl_content) cs)"
  "ss_thinking (fold (apply_chunk session) cs st) = ss_thinking st @ concat (map (delta_text dl_thinking) cs)"
  "ss_events (fold (apply_chunk session) cs st) = ss_events st @ concat (map (delta_events session) cs)"
  "ss_accs (fold (apply_chunk session) cs st) = fold add_tool_call (concat (map fragments cs)) (ss_accs st)"
  "ss_usage (fold (apply_chunk session) cs st) = fold (\<lambda>c. or_keep (ck_usage c)) cs (ss_usage st)"
  by (induction cs arbitrary: st) (simp_all add: apply_chunk_fields)

lemma map_of_with_entry:
  "map_of (with_entry k d f xs) = (map_of xs)(k \<mapsto> f (case map_of xs k of None \<Rightarrow> d | Some v \<Rightarrow> v))"
  by (induction k d f xs rule: with_entry.induct) (auto simp: fun_eq_iff)

lemma keys_with_entry: "fst ` set (with_entry k d f xs) = insert k (fst ` set xs)"
  by (induction k d f xs rule: with_entry.induct) auto

lemma distinct_with_entry: "distinct (map fst xs) \<Longrightarrow> distinct (map fst (with_entry k d f xs))"
proof (induction k d f xs rule: with_entry.induct)
  case (2 k d f k' v kvs)
  with keys_with_entry [of k d f kvs] show ?case by auto
qed simp

lemma accs_of_fragments:
  "distinct (map fst xs) \<Longrightarrow> distinct (map fst (fold add_tool_call fs xs)) \<and>
   fst ` set (fold add_tool_call fs xs) = fst ` set xs \<union> tk_index ` set fs"
proof (induction fs arbitrary: xs)
  case (Cons f fs)
  from Cons.IH [of "add_tool_call f xs"] Cons.prems show ?case
    by (simp add: add_tool_call_def distinct_with_entry keys_with_entry)
qed simp

lemma map_of_add_tool_call:
  "map_of (add_tool_call f xs) = (map_of xs)(tk_index f \<mapsto>
     add_fragment f (case map_of xs (tk_index f) of None \<Rightarrow> empty_acc | Some v \<Rightarrow> v))"
  by (simp add: add_tool_call_def map_of_with_entry)

lemma map_of_fragments:
  "map_of (fold add_tool_call fs xs) i =
     (let mine = filter (\<lambda>f. tk_index f = i) fs
      in if mine = [] then map_of xs i
         else Some (fold add_fragment mine (case map_of xs i of None \<Rightarrow> empty_acc | Some v \<Rightarrow> v)))"
proof (induction fs arbitrary: xs)
  case (Cons f fs)
  show ?case
    by (cases "tk_index f = i")
      (simp_all add: Cons.IH [of "add_tool_call f xs"] map_of_add_tool_call Let_def)
qed simp

lemma map_filter_eq_cong: "(\<And>x. x \<in> set xs \<Longrightarrow> f x = g x) \<Longrightarrow> List.map_filter f xs = List.map_filter g xs"
  by (induction xs) (auto simp: List.map_filter_simps split: option.splits)

text \<open>The calls in a response, from all fragments of the stream: one per index, in index order.\<close>

definition assembled_calls :: "tool_call_chunk list \<Rightarrow> tool_call list" where
  "assembled_calls fs = List.map_filter
     (\<lambda>i. finished_call (fold add_fragment (filter (\<lambda>f. tk_index f = i) fs) empty_acc))
     (sorted_list_of_set (tk_index ` set fs))"

lemma sort_key_alist:
  fixes xs :: "(u32 \<times> 'v) list"
  assumes "distinct (map fst xs)"
  shows "sort_key fst xs = map (\<lambda>i. (i, the (map_of xs i))) (sorted_list_of_set (fst ` set xs))"
proof -
  have keys: "map fst (sort_key fst xs) = sorted_list_of_set (fst ` set xs)"
    by (rule sorted_distinct_set_unique) (use assms in \<open>simp_all add: distinct_map\<close>)
  have "((\<lambda>i. (i, the (map_of xs i))) \<circ> fst) p = p" if "p \<in> set (sort_key fst xs)" for p
    using map_of_is_SomeI [OF assms, of "fst p" "snd p"] that by (simp add: prod_eq_iff)
  then have "map (\<lambda>i. (i, the (map_of xs i))) (map fst (sort_key fst xs)) = sort_key fst xs"
    unfolding map_map by (rule map_idI)
  then show ?thesis unfolding keys by (rule sym)
qed

lemma build_response_calls:
  "lr_tool_calls (build_response t th (fold add_tool_call fs []) us fin) = assembled_calls fs"
proof -
  have a: "distinct (map fst (fold add_tool_call fs []))" "fst ` set (fold add_tool_call fs []) = tk_index ` set fs"
    "\<And>i. i \<in> tk_index ` set fs \<Longrightarrow> map_of (fold add_tool_call fs []) i =
       Some (fold add_fragment (filter (\<lambda>f. tk_index f = i) fs) empty_acc)"
    using accs_of_fragments [of "[]" fs] by (auto simp: map_of_fragments Let_def filter_empty_conv)
  have "List.map_filter (\<lambda>i. finished_call (the (map_of (fold add_tool_call fs []) i)))
      (sorted_list_of_set (tk_index ` set fs)) = assembled_calls fs"
    unfolding assembled_calls_def by (rule map_filter_eq_cong) (simp add: a(3))
  then show ?thesis
    by (simp add: build_response_def sort_key_alist [OF a(1)] a(2) List.map_filter_def comp_def filter_map)
qed

subsection \<open>Properties\<close>

text \<open>
  The streaming parser computes a function of the text alone, however the network cut it into
  chunks: the content and the thinking are the concatenations of the deltas, and what was sent to
  the user while streaming is exactly them; each tool call is put together from the fragments with its
  index, in whatever way fragments of several calls interleave, and the calls come in index order, without
  those that never got an id and a name. (No chunk splits a character, and no line and chunk
  together exceed the buffer of 1 MB.)
\<close>

theorem openai_stream_assembled:
  assumes "\<forall>c \<in> set cs. utf8_valid c \<and> length c + n \<le> max_buffer_size" "short_lines n (concat cs)"
  shows "\<exists>response events. parse_sse_stream parse session (map Chunk cs) = (Inr response, events) \<and>
    (let chunks = stream_chunks parse (complete_lines (concat cs)) in
       lr_content response = none_if_empty (concat (map (delta_text dl_content) chunks)) \<and>
       lr_thinking response = none_if_empty (concat (map (delta_text dl_thinking) chunks)) \<and>
       lr_tool_calls response = assembled_calls (concat (map fragments chunks)) \<and>
       lr_usage response = fold (\<lambda>c. or_keep (ck_usage c)) chunks None \<and>
       events = concat (map (delta_events session) chunks))"
proof -
  have "drive (openai_line parse session) sse_start [] (map Chunk cs) =
      (None, fold (apply_chunk session) (stream_chunks parse (complete_lines (concat cs))) sse_start)"
    using drive_chunks [OF assms(1), of "[]" "openai_line parse session" sse_start] assms(2)
    by (simp add: run_openai_lines)
  then show ?thesis
    by (simp add: parse_sse_stream_def Let_def state_response_def apply_chunks_fields sse_start_def build_response_calls)
      (simp add: build_response_def)
qed

definition toy_parse :: "rstr \<Rightarrow> completion_chunk option" where
  "toy_parse d = Some \<lparr>ck_choices = [\<lparr>ch_delta = \<lparr>dl_content = Some d, dl_tool_calls = None, dl_thinking = None\<rparr>,
     ch_finish_reason = None\<rparr>], ck_usage = None\<rparr>"

lemma toy_stream:
  "complete_lines (''data: a'' @ [nl] @ ''data: b'' @ [nl]) = [''data: a'', ''data: b'']"
  by (simp add: complete_lines.simps cut_line_def trim_end_matches_def)

lemma toy_chunks:
  "concat (map (delta_text dl_content) (stream_chunks toy_parse [''data: a'', ''data: b''])) = ''ab''"
  by code_simp

theorem openai_stream_assembled_witness:
  "\<exists>response events. parse_sse_stream toy_parse ''s'' [Chunk ''da'', Chunk (''ta: a'' @ [nl] @ ''data: b''), Chunk [nl]] =
     (Inr response, events) \<and> lr_content response = Some ''ab''"
proof -
  let ?cs = "[''da'', ''ta: a'' @ [nl] @ ''data: b'', [nl]]"
  have "\<forall>c \<in> set ?cs. utf8_valid c \<and> length c + 100 \<le> max_buffer_size"
    by (simp add: utf8_valid.simps utf8_seq_len_def byte_in_def byte_val_def max_buffer_size_def)
  moreover have "short_lines 100 (concat ?cs)"
    by (auto simp: short_lines_def dest: sublist_length_le)
  ultimately obtain response events where
    "parse_sse_stream toy_parse ''s'' (map Chunk ?cs) = (Inr response, events)"
    "lr_content response = none_if_empty (concat (map (delta_text dl_content)
       (stream_chunks toy_parse (complete_lines (concat ?cs)))))"
    unfolding Let_def using openai_stream_assembled [of ?cs 100 toy_parse "''s''", unfolded Let_def] by blast
  moreover have lines: "complete_lines (concat ?cs) = [''data: a'', ''data: b'']"
    using toy_stream by simp
  ultimately have "lr_content response = none_if_empty ''ab''"
    "parse_sse_stream toy_parse ''s'' (map Chunk ?cs) = (Inr response, events)"
    by (simp_all only: lines toy_chunks)
  then show ?thesis by (intro exI conjI) (simp_all add: none_if_empty_def)
qed

text \<open>
  A character that arrives in two chunks is destroyed: each chunk is decoded on its own, so
  an e acute split between two chunks becomes two replacement characters in the answer (and in a
  file written from it), while the same bytes in one chunk are read correctly.
\<close>

theorem split_character_destroyed:
  "next_line [] [Chunk (''data: '' @ [CHR 0xC3]), Chunk ([CHR 0xA9, nl])] =
     (Inr (Some (''data: '' @ replacement_char @ replacement_char)), [], []) \<and>
   next_line [] [Chunk (''data: '' @ [CHR 0xC3, CHR 0xA9, nl])] = (Inr (Some (''data: '' @ [CHR 0xC3, CHR 0xA9])), [], [])"
  by (simp add: cut_line_def Let_def from_utf8_lossy.simps utf8_seq_len_def ill_formed_len_def byte_in_def byte_val_def
      max_buffer_size_def replacement_char_def trim_end_matches_def)

end
