(* ===== verification/AnthropicApi.thy ===== *)
theory AnthropicApi
  imports SseStream Compaction
begin

section \<open>The Anthropic adapter (\<open>llm/anthropic.rs\<close>)\<close>

text \<open>
  \<open>build_anthropic_request\<close> translates the crate's OpenAI-shaped history into a native request: the
  system prompt apart, tool results gathered into user messages, adjacent messages of one role
  merged, cache breakpoints set. \<open>parse_anthropic_sse_stream\<close> assembles the event stream into the
  same \<open>LlmResponse\<close> as the OpenAI parser. Parsing JSON text is a parameter; a temperature
  (an \<open>f32\<close>) is the pair of a mantissa and a negated binary exponent.
\<close>

subsection \<open>The request\<close>

record llm_policy =
  lp_http1_only :: bool
  lp_no_pool :: bool
  lp_header_timeout_ms :: "nat option"

definition default_llm_policy :: llm_policy where
  "default_llm_policy = \<lparr>lp_http1_only = False, lp_no_pool = False, lp_header_timeout_ms = None\<rparr>"

definition bench_llm_policy :: llm_policy where
  "bench_llm_policy = \<lparr>lp_http1_only = True, lp_no_pool = True, lp_header_timeout_ms = Some 15000\<rparr>"

record client_config =
  cl_provider :: provider
  cl_base_url :: rstr
  cl_model :: rstr
  cl_api_key :: rstr
  cl_temperature :: "(nat \<times> nat) option"
  cl_max_completion_tokens :: "u32 option"
  cl_extra_headers :: "(rstr \<times> rstr) list"
  cl_thinking :: "json option"
  cl_disable_cache_control :: bool
  cl_policy :: llm_policy

datatype anthropic_block =
    AText rstr "cache_control option"
  | AImage rstr rstr
  | AToolUse rstr rstr json
  | AToolResult rstr rstr "cache_control option"
  | AThinking rstr

datatype anthropic_system =
    SystemText rstr
  | SystemBlocks "(rstr \<times> cache_control option) list"

record anthropic_message =
  an_role :: rstr
  an_content :: "anthropic_block list"

record anthropic_tool =
  at_name :: rstr
  at_description :: "rstr option"
  at_input_schema :: json
  at_cache_control :: "cache_control option"

record anthropic_request =
  ar_model :: rstr
  ar_max_tokens :: u32
  ar_messages :: "anthropic_message list"
  ar_stream :: bool
  ar_system :: "anthropic_system option"
  ar_temperature :: "(nat \<times> nat) option"
  ar_thinking :: "json option"
  ar_tools :: "anthropic_tool list option"
  ar_tool_choice :: "json option"

definition default_max_tokens :: u32 where "default_max_tokens = 8192"

text \<open>Character by character: a character of several bytes becomes one underscore.\<close>

function sanitize_tool_id :: "rstr \<Rightarrow> rstr" where
  "sanitize_tool_id s =
     (case s of
        [] \<Rightarrow> []
      | c # _ \<Rightarrow>
          (if is_ascii_alphanumeric c \<or> c = CHR ''_'' \<or> c = CHR ''-'' then c else CHR ''_'') #
            sanitize_tool_id (drop (max 1 (utf8_seq_len s)) s))"
  by pat_completeness auto
termination
  by (relation "measure length") auto

declare sanitize_tool_id.simps [simp del]

definition split_once :: "char \<Rightarrow> rstr \<Rightarrow> (rstr \<times> rstr) option" where
  "split_once d s =
     (if d \<in> set s then Some (takeWhile (\<lambda>c. c \<noteq> d) s, tl (dropWhile (\<lambda>c. c \<noteq> d) s)) else None)"

definition parse_data_uri :: "rstr \<Rightarrow> (rstr \<times> rstr) option" where
  "parse_data_uri url =
     (case Option.bind (strip_prefix url ''data:'') (split_once (CHR '','')) of
        None \<Rightarrow> None
      | Some (meta, data) \<Rightarrow>
          let media_type = (case strip_suffix meta '';base64'' of Some m \<Rightarrow> m | None \<Rightarrow> meta)
          in if media_type = [] then None else Some (media_type, data))"

definition keep_cache :: "bool \<Rightarrow> cache_control option \<Rightarrow> cache_control option" where
  "keep_cache cache_enabled cc = (if cache_enabled then cc else None)"

definition translate_block :: "bool \<Rightarrow> content_block \<Rightarrow> anthropic_block option" where
  "translate_block cache_enabled b =
     (case b of
        TextBlock t cc \<Rightarrow> Some (AText t (keep_cache cache_enabled cc))
      | ImageUrl url detail \<Rightarrow> map_option (\<lambda>(media_type, data). AImage media_type data) (parse_data_uri url))"

definition translate_user :: "bool \<Rightarrow> chat_message \<Rightarrow> anthropic_message" where
  "translate_user cache_enabled msg =
     \<lparr>an_role = ''user'', an_content =
        (case cm_content msg of
           Some (MBlocks blocks) \<Rightarrow> List.map_filter (translate_block cache_enabled) blocks
         | Some (MText s) \<Rightarrow> [AText s None]
         | None \<Rightarrow> [])\<rparr>"

definition tool_input :: "(rstr \<Rightarrow> rstr + json) \<Rightarrow> rstr \<Rightarrow> json" where
  "tool_input parse arguments =
     (if arguments = [] then JObj [] else case parse arguments of Inr v \<Rightarrow> v | Inl _ \<Rightarrow> JObj [])"

definition translate_call :: "(rstr \<Rightarrow> rstr + json) \<Rightarrow> tool_call \<Rightarrow> anthropic_block" where
  "translate_call parse tc =
     AToolUse (sanitize_tool_id (tc_id tc)) (fc_name (tc_function tc)) (tool_input parse (fc_arguments (tc_function tc)))"

definition translate_assistant :: "(rstr \<Rightarrow> rstr + json) \<Rightarrow> chat_message \<Rightarrow> anthropic_message" where
  "translate_assistant parse msg =
     \<lparr>an_role = ''assistant'', an_content =
        (case cm_thinking msg of Some t \<Rightarrow> if t = [] then [] else [AThinking t] | None \<Rightarrow> []) @
        (if message_text msg = [] then [] else [AText (message_text msg) None]) @
        map (translate_call parse) (calls_of msg)\<rparr>"

definition translate_result :: "chat_message \<Rightarrow> anthropic_block" where
  "translate_result msg =
     AToolResult (sanitize_tool_id (case cm_tool_call_id msg of Some i \<Rightarrow> i | None \<Rightarrow> [])) (message_text msg) None"

definition flush_results :: "anthropic_block list \<Rightarrow> anthropic_message list" where
  "flush_results pending = (if pending = [] then [] else [\<lparr>an_role = ''user'', an_content = pending\<rparr>])"

text \<open>The loop over the messages, with the tool results gathered so far.\<close>

fun translate_messages ::
  "(rstr \<Rightarrow> rstr + json) \<Rightarrow> bool \<Rightarrow> anthropic_block list \<Rightarrow> chat_message list \<Rightarrow> anthropic_message list" where
  "translate_messages parse cache pending [] = flush_results pending"
| "translate_messages parse cache pending (msg # msgs) =
     (if cm_role msg = ''system'' then translate_messages parse cache pending msgs
      else if cm_role msg = ''tool''
      then translate_messages parse cache (pending @ [translate_result msg]) msgs
      else flush_results pending @
        (if cm_role msg = ''assistant'' then translate_assistant parse msg else translate_user cache msg) #
        translate_messages parse cache [] msgs)"

fun merge_onto :: "anthropic_message list \<Rightarrow> anthropic_message list \<Rightarrow> anthropic_message list" where
  "merge_onto out [] = out"
| "merge_onto out (msg # msgs) =
     (if out \<noteq> [] \<and> an_role (last out) = an_role msg
      then merge_onto (butlast out @ [(last out)\<lparr>an_content := an_content (last out) @ an_content msg\<rparr>]) msgs
      else merge_onto (out @ [msg]) msgs)"

definition merge_adjacent_roles :: "anthropic_message list \<Rightarrow> anthropic_message list" where
  "merge_adjacent_roles msgs = merge_onto [] msgs"

fun set_block_cache_control :: "cache_control option \<Rightarrow> anthropic_block \<Rightarrow> anthropic_block" where
  "set_block_cache_control cc (AText t _) = AText t cc"
| "set_block_cache_control cc (AToolResult i t _) = AToolResult i t cc"
| "set_block_cache_control cc b = b"

definition on_last :: "('a \<Rightarrow> 'a) \<Rightarrow> 'a list \<Rightarrow> 'a list" where
  "on_last f xs = (if xs = [] then [] else butlast xs @ [f (last xs)])"

definition mark_last_block :: "anthropic_message list \<Rightarrow> anthropic_message list" where
  "mark_last_block msgs =
     on_last (\<lambda>m. m\<lparr>an_content := on_last (set_block_cache_control (Some ephemeral)) (an_content m)\<rparr>) msgs"

definition system_segments :: "bool \<Rightarrow> chat_message list \<Rightarrow> (rstr \<times> cache_control option) list" where
  "system_segments cache_enabled messages =
     concat (map (\<lambda>msg.
       if cm_role msg \<noteq> ''system'' then []
       else case cm_content msg of
              Some (MText s) \<Rightarrow> [(s, None)]
            | Some (MBlocks bs) \<Rightarrow> List.map_filter (\<lambda>b. case b of
                  TextBlock t cc \<Rightarrow> Some (t, keep_cache cache_enabled cc) | ImageUrl _ _ \<Rightarrow> None) bs
            | None \<Rightarrow> []) messages)"

definition extract_system :: "bool \<Rightarrow> chat_message list \<Rightarrow> anthropic_system option" where
  "extract_system cache_enabled messages =
     (let segments = system_segments cache_enabled messages
      in if segments = [] then None
         else if list_ex (\<lambda>(_, cc). cc \<noteq> None) segments then Some (SystemBlocks segments)
         else Some (SystemText (join [nl, nl] (map fst segments))))"

definition thinking_enabled :: "json option \<Rightarrow> bool" where
  "thinking_enabled thinking =
     (case Option.bind thinking (get_u64 ''budget_tokens'') of Some n \<Rightarrow> n > 0 | None \<Rightarrow> False)"

definition translate_tool :: "tool_definition \<Rightarrow> anthropic_tool" where
  "translate_tool t =
     \<lparr>at_name = fd_name (td_function t), at_description = fd_description (td_function t),
      at_input_schema = (case fd_parameters (td_function t) of
         Some p \<Rightarrow> p | None \<Rightarrow> JObj [(''type'', JStr ''object'')]),
      at_cache_control = None\<rparr>"

definition build_anthropic_request ::
  "(rstr \<Rightarrow> rstr + json) \<Rightarrow> client_config \<Rightarrow> chat_message list \<Rightarrow> tool_definition list \<Rightarrow> anthropic_request" where
  "build_anthropic_request parse config messages tools =
     (let cache = \<not> cl_disable_cache_control config;
          merged = merge_adjacent_roles (translate_messages parse cache [] messages);
          (thinking, temperature) =
            (if thinking_enabled (cl_thinking config) then (cl_thinking config, Some (1, 0))
             else (None, cl_temperature config))
      in \<lparr>ar_model = cl_model config,
          ar_max_tokens = (case cl_max_completion_tokens config of Some n \<Rightarrow> n | None \<Rightarrow> default_max_tokens),
          ar_messages = (if cache then mark_last_block merged else merged),
          ar_stream = True, ar_system = extract_system cache messages,
          ar_temperature = temperature, ar_thinking = thinking,
          ar_tools = (if tools = [] then None
             else Some ((if cache then on_last (\<lambda>t. t\<lparr>at_cache_control := Some ephemeral\<rparr>) else (\<lambda>ts. ts))
                         (map translate_tool tools))),
          ar_tool_choice = (if tools = [] then None else Some (JObj [(''type'', JStr ''auto'')]))\<rparr>)"

subsection \<open>The event stream\<close>

record anthropic_state =
  as_text :: rstr
  as_thinking :: rstr
  as_accs :: "(u32 \<times> tool_acc) list"
  as_finish :: "rstr option"
  as_input :: u32
  as_cache_read :: u32
  as_cache_creation :: u32
  as_output :: u32
  as_have_usage :: bool
  as_events :: "agent_event list"

definition anthropic_start :: anthropic_state where
  "anthropic_start = \<lparr>as_text = [], as_thinking = [], as_accs = [], as_finish = None, as_input = 0,
     as_cache_read = 0, as_cache_creation = 0, as_output = 0, as_have_usage = False, as_events = []\<rparr>"

definition u32_field :: "rstr \<Rightarrow> json \<Rightarrow> u32" where
  "u32_field key v = word_of_nat (case get_u64 key v of Some n \<Rightarrow> n | None \<Rightarrow> 0)"

definition str_field :: "rstr \<Rightarrow> json \<Rightarrow> rstr" where
  "str_field key v = (case get_str key v of Some s \<Rightarrow> s | None \<Rightarrow> [])"

definition map_stop_reason :: "rstr \<Rightarrow> rstr" where
  "map_stop_reason reason =
     (if reason = ''end_turn'' then ''stop'' else if reason = ''tool_use'' then ''tool_calls''
      else if reason = ''max_tokens'' then ''length'' else ''stop'')"

definition on_message_start :: "json \<Rightarrow> anthropic_state \<Rightarrow> anthropic_state" where
  "on_message_start v st =
     (case Option.bind (jget ''message'' v) (jget ''usage'') of
        None \<Rightarrow> st
      | Some u \<Rightarrow> st\<lparr>as_input := u32_field ''input_tokens'' u,
          as_cache_creation := u32_field ''cache_creation_input_tokens'' u,
          as_cache_read := u32_field ''cache_read_input_tokens'' u, as_have_usage := True\<rparr>)"

definition on_block_start :: "json \<Rightarrow> anthropic_state \<Rightarrow> anthropic_state" where
  "on_block_start v st =
     (case jget ''content_block'' v of
        None \<Rightarrow> st
      | Some cb \<Rightarrow>
          if get_str ''type'' cb = Some ''tool_use'' then
            let acc = \<lparr>ac_id = str_field ''id'' cb, ac_name = str_field ''name'' cb, ac_arguments = []\<rparr>
            in st\<lparr>as_accs := with_entry (u32_field ''index'' v) acc (\<lambda>_. acc) (as_accs st)\<rparr>
          else st)"

text \<open>\<open>get_mut(&index)\<close> and the update of the entry, if there is one.\<close>

definition on_entry :: "'k \<Rightarrow> ('v \<Rightarrow> 'v) \<Rightarrow> ('k \<times> 'v) list \<Rightarrow> ('k \<times> 'v) list" where
  "on_entry k f kvs = map (\<lambda>(k', v). (k', if k' = k then f v else v)) kvs"

definition on_block_delta :: "rstr \<Rightarrow> json \<Rightarrow> anthropic_state \<Rightarrow> anthropic_state" where
  "on_block_delta session v st =
     (case jget ''delta'' v of
        None \<Rightarrow> st
      | Some delta \<Rightarrow>
          let kind = str_field ''type'' delta
          in if kind = ''text_delta'' then
               (case get_str ''text'' delta of
                  Some t \<Rightarrow> if t = [] then st
                    else st\<lparr>as_text := as_text st @ t, as_events := as_events st @ [TextDelta session t]\<rparr>
                | None \<Rightarrow> st)
             else if kind = ''thinking_delta'' then
               (case get_str ''thinking'' delta of
                  Some t \<Rightarrow> if t = [] then st
                    else st\<lparr>as_thinking := as_thinking st @ t, as_events := as_events st @ [ThinkingDelta session t]\<rparr>
                | None \<Rightarrow> st)
             else if kind = ''input_json_delta'' then
               (case get_str ''partial_json'' delta of
                  Some p \<Rightarrow> st\<lparr>as_accs := on_entry (u32_field ''index'' v)
                    (\<lambda>acc. acc\<lparr>ac_arguments := ac_arguments acc @ p\<rparr>) (as_accs st)\<rparr>
                | None \<Rightarrow> st)
             else st)"

definition on_message_delta :: "json \<Rightarrow> anthropic_state \<Rightarrow> anthropic_state" where
  "on_message_delta v st =
     (let st1 = (case Option.bind (jget ''delta'' v) (get_str ''stop_reason'') of
                   Some sr \<Rightarrow> st\<lparr>as_finish := Some (map_stop_reason sr)\<rparr> | None \<Rightarrow> st)
      in case jget ''usage'' v of
           None \<Rightarrow> st1
         | Some u \<Rightarrow>
             let cc = u32_field ''cache_creation_input_tokens'' u;
                 cr = u32_field ''cache_read_input_tokens'' u
             in st1\<lparr>as_output := (case get_u64 ''output_tokens'' u of Some n \<Rightarrow> word_of_nat n | None \<Rightarrow> as_output st1),
                  as_cache_creation := (if cc > 0 then cc else as_cache_creation st1),
                  as_cache_read := (if cr > 0 then cr else as_cache_read st1), as_have_usage := True\<rparr>)"

definition stream_error :: "json \<Rightarrow> rstr" where
  "stream_error v =
     (case Option.bind (jget ''error'' v) (get_str ''message'') of Some m \<Rightarrow> m | None \<Rightarrow> ''unknown error'')"

definition anthropic_event :: "rstr \<Rightarrow> json \<Rightarrow> anthropic_state \<Rightarrow> anthropic_state line_step" where
  "anthropic_event session v st =
     (let kind = str_field ''type'' v
      in if kind = ''message_start'' then Continue (on_message_start v st)
         else if kind = ''content_block_start'' then Continue (on_block_start v st)
         else if kind = ''content_block_delta'' then Continue (on_block_delta session v st)
         else if kind = ''message_delta'' then Continue (on_message_delta v st)
         else if kind = ''message_stop'' then Finish st
         else if kind = ''error'' then Abort (LlmParseError (''Anthropic stream error: '' @ stream_error v)) st
         else Continue st)"

definition anthropic_line ::
  "(rstr \<Rightarrow> rstr + json) \<Rightarrow> rstr \<Rightarrow> rstr \<Rightarrow> anthropic_state \<Rightarrow> anthropic_state line_step" where
  "anthropic_line parse session line st =
     (case data_of_line line of
        None \<Rightarrow> Continue st
      | Some d \<Rightarrow> (case parse d of Inl _ \<Rightarrow> Continue st | Inr v \<Rightarrow> anthropic_event session v st))"

definition anthropic_usage :: "anthropic_state \<Rightarrow> usage option" where
  "anthropic_usage st =
     (if as_have_usage st then
        let prompt = as_input st + as_cache_read st + as_cache_creation st
        in Some \<lparr>prompt_tokens = prompt, completion_tokens = as_output st,
             total_tokens = prompt + as_output st,
             prompt_details = Some \<lparr>cached_tokens = Some (as_cache_read st),
               cache_creation_tokens = Some (as_cache_creation st)\<rparr>\<rparr>
      else None)"

definition parse_anthropic_sse_stream ::
  "(rstr \<Rightarrow> rstr + json) \<Rightarrow> rstr \<Rightarrow> stream_item list \<Rightarrow> (agent_error + llm_response) \<times> agent_event list" where
  "parse_anthropic_sse_stream parse session items =
     (case drive (anthropic_line parse session) anthropic_start [] items of
        (Some e, st) \<Rightarrow> (Inl e, as_events st)
      | (None, st) \<Rightarrow> (Inr (build_response (as_text st) (as_thinking st) (as_accs st) (anthropic_usage st)
          (as_finish st)), as_events st))"

subsection \<open>Roles alternate and nothing is lost\<close>

definition message_blocks :: "(rstr \<Rightarrow> rstr + json) \<Rightarrow> bool \<Rightarrow> chat_message \<Rightarrow> anthropic_block list" where
  "message_blocks parse cache msg =
     (if cm_role msg = ''system'' then []
      else if cm_role msg = ''tool'' then [translate_result msg]
      else an_content (if cm_role msg = ''assistant'' then translate_assistant parse msg else translate_user cache msg))"

definition contents :: "anthropic_message list \<Rightarrow> anthropic_block list" where
  "contents msgs = concat (map an_content msgs)"

lemma contents_simps [simp]:
  "contents [] = []" "contents (m # ms) = an_content m @ contents ms" "contents (xs @ ys) = contents xs @ contents ys"
  by (simp_all add: contents_def)

lemma contents_flush [simp]: "contents (flush_results pending) = pending"
  by (simp add: flush_results_def)

lemma contents_translate:
  "contents (translate_messages parse cache pending msgs) =
     pending @ concat (map (message_blocks parse cache) msgs)"
  by (induction parse cache pending msgs rule: translate_messages.induct) (auto simp: message_blocks_def)

text \<open>Merging from the right, which is what merging onto the last message comes to.\<close>

fun merge_right :: "anthropic_message list \<Rightarrow> anthropic_message list" where
  "merge_right [] = []"
| "merge_right (m # ms) =
     (case merge_right ms of
        [] \<Rightarrow> [m]
      | m' # ms' \<Rightarrow>
          if an_role m = an_role m' then m\<lparr>an_content := an_content m @ an_content m'\<rparr> # ms' else m # m' # ms')"

lemma merge_right_Cons_role: "\<exists>m' ms'. merge_right (m # ms) = m' # ms' \<and> an_role m' = an_role m"
  by (simp split: list.splits)

lemma merge_onto_right: "merge_onto (out @ [m]) msgs = out @ merge_right (m # msgs)"
proof (induction msgs arbitrary: out m)
  case (Cons a msgs)
  obtain m' ms' where r: "merge_right (a # msgs) = m' # ms'" "an_role m' = an_role a"
    using merge_right_Cons_role by blast
  show ?case
  proof (cases "an_role m = an_role a")
    case True
    let ?m = "m\<lparr>an_content := an_content m @ an_content a\<rparr>"
    from True Cons.IH [of out ?m] have "merge_onto (out @ [m]) (a # msgs) = out @ merge_right (?m # msgs)" by simp
    also have "merge_right (?m # msgs) = merge_right (m # a # msgs)"
      using True by (cases "merge_right msgs") simp_all
    finally show ?thesis .
  next
    case False
    with Cons.IH [of "out @ [m]" a] r show ?thesis by simp
  qed
qed simp

lemma merge_adjacent_right: "merge_adjacent_roles msgs = merge_right msgs"
  using merge_onto_right [of "[]"] by (cases msgs) (simp_all add: merge_adjacent_roles_def)

lemma merge_right_alternates: "successively (\<lambda>a b. an_role a \<noteq> an_role b) (merge_right msgs)"
  by (induction msgs) (auto split: list.splits simp: successively_Cons)

lemma merge_right_contents: "contents (merge_right msgs) = contents msgs"
  by (induction msgs) (auto split: list.splits)

lemma merge_right_roles: "an_role ` set (merge_right msgs) \<subseteq> an_role ` set msgs"
proof (induction msgs)
  case (Cons m ms)
  then show ?case by (cases "merge_right ms") (auto simp: image_subset_iff)
qed simp

lemma translate_roles: "an_role ` set (translate_messages parse cache pending msgs) \<subseteq> {''user'', ''assistant''}"
  by (induction parse cache pending msgs rule: translate_messages.induct)
    (auto simp: flush_results_def translate_assistant_def translate_user_def)

definition uncached :: "anthropic_block \<Rightarrow> anthropic_block" where
  "uncached = set_block_cache_control None"

lemma uncached_set [simp]: "uncached (set_block_cache_control cc b) = uncached b"
  by (cases b) (simp_all add: uncached_def)

lemma mark_last_cases: "mark_last_block msgs = [] \<and> msgs = [] \<or>
  (\<exists>ms m. msgs = ms @ [m] \<and> mark_last_block msgs =
     ms @ [m\<lparr>an_content := on_last (set_block_cache_control (Some ephemeral)) (an_content m)\<rparr>])"
  by (cases msgs rule: rev_cases) (auto simp: mark_last_block_def on_last_def)

lemma uncached_on_last: "map uncached (on_last (set_block_cache_control cc) bs) = map uncached bs"
  by (cases bs rule: rev_cases) (simp_all add: on_last_def)

lemma mark_last_roles: "map an_role (mark_last_block msgs) = map an_role msgs"
  using mark_last_cases [of msgs] by auto

lemma mark_last_contents: "map uncached (contents (mark_last_block msgs)) = map uncached (contents msgs)"
  using mark_last_cases [of msgs] by (auto simp: uncached_on_last)

lemma successively_roles:
  "successively (\<lambda>a b. an_role a \<noteq> an_role b) msgs \<longleftrightarrow> successively (\<noteq>) (map an_role msgs)"
  by (simp add: successively_map)

text \<open>
  The request is one Anthropic accepts in shape, and it says what the history says: its
  messages are from the user and the assistant in turn, and their blocks, in order, are exactly the
  blocks of the messages of the history other than the system prompt (cache marks apart).
\<close>

theorem anthropic_request_faithful:
  "successively (\<noteq>) (map an_role (ar_messages (build_anthropic_request parse config messages tools))) \<and>
   an_role ` set (ar_messages (build_anthropic_request parse config messages tools)) \<subseteq> {''user'', ''assistant''} \<and>
   map uncached (contents (ar_messages (build_anthropic_request parse config messages tools))) =
     map uncached (concat (map (message_blocks parse (\<not> cl_disable_cache_control config)) messages))"
proof -
  let ?t = "translate_messages parse (\<not> cl_disable_cache_control config) [] messages"
  let ?out = "ar_messages (build_anthropic_request parse config messages tools)"
  have out: "?out = (if \<not> cl_disable_cache_control config then mark_last_block (merge_right ?t) else merge_right ?t)"
    by (simp add: build_anthropic_request_def Let_def merge_adjacent_right split: prod.splits)
  then have roles: "map an_role ?out = map an_role (merge_right ?t)" by (simp add: mark_last_roles)
  moreover have "map uncached (contents ?out) = map uncached (contents (merge_right ?t))"
    using out by (simp add: mark_last_contents)
  moreover have "an_role ` set ?out = an_role ` set (merge_right ?t)"
    using arg_cong [OF roles, of set] by simp
  ultimately show ?thesis
    using merge_right_alternates [of ?t] merge_right_roles [of ?t] translate_roles
    by (simp add: successively_roles merge_right_contents contents_translate) blast
qed

subsection \<open>Results follow their calls\<close>

definition tool_uses :: "anthropic_message \<Rightarrow> rstr list" where
  "tool_uses m = List.map_filter (\<lambda>b. case b of AToolUse i n v \<Rightarrow> Some i | _ \<Rightarrow> None) (an_content m)"

definition answers_uses :: "rstr list \<Rightarrow> anthropic_message \<Rightarrow> bool" where
  "answers_uses ids m \<longleftrightarrow> an_role m = ''user'' \<and>
     (\<exists>rs rest. an_content m = rs @ rest \<and> list_all2 (\<lambda>i b. \<exists>t cc. b = AToolResult i t cc) ids rs)"

fun results_follow :: "anthropic_message list \<Rightarrow> bool" where
  "results_follow [] = True"
| "results_follow (m # ms) \<longleftrightarrow>
     (an_role m = ''assistant'' \<and> tool_uses m \<noteq> [] \<longrightarrow> (\<exists>m' ms'. ms = m' # ms' \<and> answers_uses (tool_uses m) m')) \<and>
     results_follow ms"

lemma answers_uses_extend:
  "answers_uses ids m \<Longrightarrow> answers_uses ids (m\<lparr>an_content := an_content m @ ext\<rparr>)"
  unfolding answers_uses_def by (elim conjE exE, rename_tac rs rest) (auto intro: exI [of _ "_ @ ext"])

lemma merge_right_head:
  "\<exists>ext ms'. merge_right (m # ms) = m\<lparr>an_content := an_content m @ ext\<rparr> # ms'"
  by (auto split: list.splits intro: exI [of _ "[]"])

lemma tool_uses_append [simp]:
  "tool_uses (m\<lparr>an_content := xs @ ys\<rparr>) = tool_uses (m\<lparr>an_content := xs\<rparr>) @ tool_uses (m\<lparr>an_content := ys\<rparr>)"
  by (simp add: tool_uses_def List.map_filter_def)

lemma tool_uses_content [simp]: "tool_uses (m\<lparr>an_content := an_content m'\<rparr>) = tool_uses m'"
  by (simp add: tool_uses_def)

lemma merge_right_follow: "results_follow ms \<Longrightarrow> results_follow (merge_right ms)"
proof (induction ms)
  case (Cons m ms)
  then have IH: "results_follow (merge_right ms)" by simp
  show ?case
  proof (cases ms)
    case (Cons a as)
    obtain ext tl where r: "merge_right ms = a\<lparr>an_content := an_content a @ ext\<rparr> # tl"
      using merge_right_head Cons by blast
    let ?a = "a\<lparr>an_content := an_content a @ ext\<rparr>"
    show ?thesis
    proof (cases "an_role m = ''assistant'' \<and> tool_uses m \<noteq> []")
      case True
      with Cons.prems Cons have a: "answers_uses (tool_uses m) a" by auto
      then have "an_role m \<noteq> an_role ?a" using True by (simp add: answers_uses_def)
      with r answers_uses_extend [OF a] IH show ?thesis by auto
    next
      case False
      have u: "tool_uses (m\<lparr>an_content := an_content m @ an_content ?a\<rparr>) = tool_uses m @ tool_uses ?a"
        by (simp only: tool_uses_append tool_uses_content)
      from r IH False u show ?thesis by auto
    qed
  next
    case Nil
    with Cons.prems show ?thesis by simp
  qed
qed simp

definition marked :: "anthropic_message \<Rightarrow> anthropic_message" where
  "marked m = m\<lparr>an_content := on_last (set_block_cache_control (Some ephemeral)) (an_content m)\<rparr>"

lemma tool_uses_marked [simp]: "tool_uses (marked m) = tool_uses m"
proof (cases "an_content m" rule: rev_cases)
  case (snoc bs b)
  then show ?thesis by (cases b) (simp_all add: marked_def tool_uses_def on_last_def List.map_filter_def)
qed (simp add: marked_def tool_uses_def on_last_def)

lemma answers_uses_marked:
  assumes "answers_uses ids m"
  shows "answers_uses ids (marked m)"
proof -
  from assms obtain rs rest where c: "an_role m = ''user''" "an_content m = rs @ rest"
    "list_all2 (\<lambda>i b. \<exists>t cc. b = AToolResult i t cc) ids rs" by (auto simp: answers_uses_def)
  let ?f = "set_block_cache_control (Some ephemeral)"
  have f: "list_all2 (\<lambda>i b. \<exists>t cc. b = AToolResult i t cc) ids (on_last ?f rs)"
  proof (cases rs rule: rev_cases)
    case (snoc xs x)
    with c(3) obtain us i t cc where "ids = us @ [i]" "x = AToolResult i t cc"
      "list_all2 (\<lambda>i b. \<exists>t cc. b = AToolResult i t cc) us xs"
      by (auto simp: list_all2_append2 list_all2_Cons2)
    with snoc show ?thesis by (simp add: on_last_def list_all2_appendI)
  qed (use c(3) in \<open>simp add: on_last_def\<close>)
  have "an_content (marked m) = (if rest = [] then on_last ?f rs else rs @ on_last ?f rest)"
    by (simp add: marked_def c(2) on_last_def butlast_append)
  with c f show ?thesis
    by (cases "rest = []") (auto simp: answers_uses_def marked_def intro: exI [of _ "[]"])
qed

lemma marked_role [simp]: "an_role (marked m) = an_role m"
  by (simp add: marked_def)

lemma results_follow_marked: "results_follow (ms @ [m]) \<Longrightarrow> results_follow (ms @ [marked m])"
proof (induction ms)
  case (Cons a ms)
  then show ?case by (cases ms) (auto dest: answers_uses_marked)
qed simp

lemma mark_last_follow: "results_follow ms \<Longrightarrow> results_follow (mark_last_block ms)"
  using mark_last_cases [of ms] results_follow_marked by (auto simp: marked_def)

lemma tool_uses_assistant:
  "tool_uses (translate_assistant parse m) = map (\<lambda>tc. sanitize_tool_id (tc_id tc)) (calls_of m)"
  by (auto simp: tool_uses_def translate_assistant_def List.map_filter_def translate_call_def comp_def filter_map
      split: option.splits)

lemma translate_flush:
  assumes "well_turned ms" "pending \<noteq> []"
  shows "translate_messages parse cache pending ms =
    \<lparr>an_role = ''user'', an_content = pending\<rparr> # translate_messages parse cache [] ms"
  using assms(1)
proof (induction ms)
  case Nil
  then show ?case using assms(2) by (simp add: flush_results_def)
next
  case (Cons m ms)
  then have tool: "cm_role m \<noteq> ''tool''" by (auto simp: is_tool_msg_def split: if_splits)
  show ?case
  proof (cases "cm_role m = ''system''")
    case True
    with Cons.prems have "well_turned ms" by (auto simp: is_tool_msg_def is_call_msg_def)
    with Cons.IH True show ?thesis by simp
  next
    case False
    with tool assms(2) show ?thesis by (simp add: flush_results_def)
  qed
qed

lemma translate_results:
  "answers tcs rs \<Longrightarrow> translate_messages parse cache pending (rs @ ms) =
     translate_messages parse cache (pending @ map translate_result rs) ms"
proof (induction rs arbitrary: tcs pending)
  case (Cons r rs)
  from Cons.prems obtain tc tcs' where "tcs = tc # tcs'" "answers tcs' rs" "is_tool_msg r"
    by (cases tcs) (auto simp: answers_def)
  with Cons.IH show ?case by (simp add: is_tool_msg_def)
qed simp

lemma translated_results_answer:
  "answers tcs rs \<Longrightarrow> list_all2 (\<lambda>i b. \<exists>t cc. b = AToolResult i t cc)
     (map (\<lambda>tc. sanitize_tool_id (tc_id tc)) tcs) (map translate_result rs)"
  unfolding answers_def list_all2_map1 list_all2_map2
  by (erule list_all2_mono) (auto simp: translate_result_def)

lemma translate_follow: "well_turned ms \<Longrightarrow> results_follow (translate_messages parse cache [] ms)"
proof (induction ms rule: well_turned.induct)
  case (2 m ms)
  show ?case
  proof (cases "is_call_msg m")
    case True
    let ?n = "length (calls_of m)"
    from True 2 have a: "calls_of m \<noteq> []" "answers (calls_of m) (take ?n ms)" "well_turned (drop ?n ms)"
      and IH: "results_follow (translate_messages parse cache [] (drop ?n ms))" by (auto split: if_splits)
    have ne: "map translate_result (take ?n ms) \<noteq> []"
      using a(1) answers_length [OF a(2)] by auto
    have "translate_messages parse cache [] (m # ms) = translate_assistant parse m #
        translate_messages parse cache [] (take ?n ms @ drop ?n ms)"
      using True by (simp add: is_call_msg_def flush_results_def)
    also have "\<dots> = translate_assistant parse m # \<lparr>an_role = ''user'', an_content = map translate_result (take ?n ms)\<rparr> #
        translate_messages parse cache [] (drop ?n ms)"
      by (simp only: translate_results [OF a(2)] append_Nil translate_flush [OF a(3) ne])
    finally have eq: "translate_messages parse cache [] (m # ms) = \<dots>" .
    have "answers_uses (tool_uses (translate_assistant parse m))
        \<lparr>an_role = ''user'', an_content = map translate_result (take ?n ms)\<rparr>"
      using translated_results_answer [OF a(2)] by (auto simp: answers_uses_def tool_uses_assistant)
    with IH show ?thesis unfolding eq by simp
  next
    case False
    with 2 have "well_turned ms" "cm_tool_calls m = None" "cm_role m \<noteq> ''tool''"
      and IH: "results_follow (translate_messages parse cache [] ms)"
      by (auto simp: is_tool_msg_def split: if_splits)
    then show ?thesis
      by (auto simp: flush_results_def tool_uses_assistant calls_of_def translate_user_def)
  qed
qed (simp add: flush_results_def)


definition example_client :: client_config where
  "example_client = \<lparr>cl_provider = Anthropic, cl_base_url = ''http://h'', cl_model = ''m'', cl_api_key = [],
     cl_temperature = None, cl_max_completion_tokens = None, cl_extra_headers = [], cl_thinking = None,
     cl_disable_cache_control = False, cl_policy = default_llm_policy\<rparr>"


text \<open>
  Cleaning a history can leave a message that says nothing: when an assistant message has calls
  and no text and none of its calls was answered (the run was cancelled before its tools ran), the
  clean-up clears the calls and keeps the message, and the request has an assistant message
  without any content block.
\<close>

theorem cleaned_message_is_empty:
  "map an_content (ar_messages (build_anthropic_request parse example_client
     (strip_orphaned_tool_results [user_msg ''a'', assistant_msg None (Some [example_call]) None, user_msg ''b'']) [])) =
   [[AText ''a'' None], [], [AText ''b'' (Some ephemeral)]]"
  by (simp add: strip_orphaned_tool_results_def Let_def msg_defs keeps_result_def is_tool_msg_def calls_of_def
      prune_calls_def example_call_def build_anthropic_request_def flush_results_def translate_user_def
      translate_assistant_def message_text_def merge_adjacent_roles_def mark_last_block_def on_last_def
      example_client_def thinking_enabled_def)

subsection \<open>Both providers' streams give the same response\<close>

text \<open>
  A response as a model means it: pieces of text, and calls with an id, a name and pieces of
  arguments; and how either provider streams it.
\<close>

type_synonym spoken_call = "rstr \<times> rstr \<times> rstr list"

definition text_event :: "rstr \<Rightarrow> json" where
  "text_event t = JObj [(''delta'', JObj [(''text'', JStr t), (''type'', JStr ''text_delta'')]), (''index'', JInt 0),
     (''type'', JStr ''content_block_delta'')]"

definition start_event :: "nat \<Rightarrow> rstr \<Rightarrow> rstr \<Rightarrow> json" where
  "start_event k i n = JObj [(''content_block'', JObj [(''id'', JStr i), (''name'', JStr n), (''type'', JStr ''tool_use'')]),
     (''index'', JInt (int k)), (''type'', JStr ''content_block_start'')]"

definition argument_event :: "nat \<Rightarrow> rstr \<Rightarrow> json" where
  "argument_event k p = JObj [(''delta'', JObj [(''partial_json'', JStr p), (''type'', JStr ''input_json_delta'')]),
     (''index'', JInt (int k)), (''type'', JStr ''content_block_delta'')]"

fun anthropic_calls :: "nat \<Rightarrow> spoken_call list \<Rightarrow> json list" where
  "anthropic_calls k [] = []"
| "anthropic_calls k ((i, n, fs) # cs) = start_event k i n # map (argument_event k) fs @ anthropic_calls (Suc k) cs"

definition openai_chunk :: "rstr option \<Rightarrow> tool_call_chunk list option \<Rightarrow> completion_chunk" where
  "openai_chunk content tks =
     \<lparr>ck_choices = [\<lparr>ch_delta = \<lparr>dl_content = content, dl_tool_calls = tks, dl_thinking = None\<rparr>, ch_finish_reason = None\<rparr>],
      ck_usage = None\<rparr>"

definition argument_chunk :: "nat \<Rightarrow> rstr option \<Rightarrow> rstr option \<Rightarrow> rstr \<Rightarrow> completion_chunk" where
  "argument_chunk k i n p = openai_chunk None (Some [\<lparr>tk_index = word_of_nat k, tk_id = i,
     tk_function = Some \<lparr>fx_name = n, fx_arguments = Some p\<rparr>\<rparr>])"

fun openai_calls :: "nat \<Rightarrow> spoken_call list \<Rightarrow> completion_chunk list" where
  "openai_calls k [] = []"
| "openai_calls k ((i, n, fs) # cs) =
     argument_chunk k (Some i) (Some n) [] # map (argument_chunk k None None) fs @ openai_calls (Suc k) cs"

definition meant_call :: "spoken_call \<Rightarrow> tool_call" where
  "meant_call c = (case c of (i, n, fs) \<Rightarrow>
     \<lparr>tc_id = i, tc_type = ''function'', tc_function = \<lparr>fc_name = n, fc_arguments = concat fs\<rparr>\<rparr>)"

fun call_accs :: "nat \<Rightarrow> spoken_call list \<Rightarrow> (u32 \<times> tool_acc) list" where
  "call_accs k [] = []"
| "call_accs k ((i, n, fs) # cs) =
     (word_of_nat k, \<lparr>ac_id = i, ac_name = n, ac_arguments = concat fs\<rparr>) # call_accs (Suc k) cs"

lemma with_entry_fresh: "k \<notin> fst ` set xs \<Longrightarrow> with_entry k d f xs = xs @ [(k, f d)]"
  by (induction k d f xs rule: with_entry.induct) auto

lemma with_entry_last: "k \<notin> fst ` set xs \<Longrightarrow> with_entry k d f (xs @ [(k, v)]) = xs @ [(k, f v)]"
  by (induction k d f xs rule: with_entry.induct) auto

lemma on_entry_last: "k \<notin> fst ` set xs \<Longrightarrow> on_entry k f (xs @ [(k, v)]) = xs @ [(k, f v)]"
  by (auto simp: on_entry_def intro!: map_idI split: prod.splits) force

lemma u32_index_inj:
  assumes "j < 2 ^ 32" "k < 2 ^ 32" "(word_of_nat j :: u32) = word_of_nat k"
  shows "j = k"
  using assms by (simp add: word_of_nat_eq_iff take_bit_nat_eq_self)

lemma fresh_index:
  assumes "fst ` set xs \<subseteq> word_of_nat ` {..<k}" "k < 2 ^ 32"
  shows "(word_of_nat k :: u32) \<notin> fst ` set xs"
proof
  assume "(word_of_nat k :: u32) \<in> fst ` set xs"
  with assms(1) obtain j where "j < k" "word_of_nat j = (word_of_nat k :: u32)" by auto
  with u32_index_inj [of j k] assms(2) show False by simp
qed

text \<open>The anthropic side.\<close>

lemma u32_index: "k < 2 ^ 32 \<Longrightarrow> jget ''index'' v = Some (JInt (int k)) \<Longrightarrow> u32_field ''index'' v = word_of_nat k"
  by (simp add: u32_field_def get_u64_def)

lemma text_event_step:
  "anthropic_event session (text_event t) st = Continue (if t = [] then st
     else st\<lparr>as_text := as_text st @ t, as_events := as_events st @ [TextDelta session t]\<rparr>)"
  by (simp add: anthropic_event_def text_event_def str_field_def get_str_def on_block_delta_def)

lemma start_event_step:
  "k < 2 ^ 32 \<Longrightarrow> anthropic_event session (start_event k i n) st =
     Continue (st\<lparr>as_accs := with_entry (word_of_nat k) \<lparr>ac_id = i, ac_name = n, ac_arguments = []\<rparr>
       (\<lambda>_. \<lparr>ac_id = i, ac_name = n, ac_arguments = []\<rparr>) (as_accs st)\<rparr>)"
  by (simp add: anthropic_event_def start_event_def str_field_def get_str_def on_block_start_def u32_index Let_def)

lemma argument_event_step:
  "k < 2 ^ 32 \<Longrightarrow> anthropic_event session (argument_event k p) st =
     Continue (st\<lparr>as_accs := on_entry (word_of_nat k) (\<lambda>acc. acc\<lparr>ac_arguments := ac_arguments acc @ p\<rparr>) (as_accs st)\<rparr>)"
  by (simp add: anthropic_event_def argument_event_def str_field_def get_str_def on_block_delta_def u32_index Let_def)

lemma run_arguments:
  assumes "k < 2 ^ 32" "word_of_nat k \<notin> fst ` set xs" "as_accs st = xs @ [(word_of_nat k, acc)]"
  shows "run_lines (anthropic_event session) st (map (argument_event k) fs @ rest) =
    run_lines (anthropic_event session)
      (st\<lparr>as_accs := xs @ [(word_of_nat k, acc\<lparr>ac_arguments := ac_arguments acc @ concat fs\<rparr>)]\<rparr>) rest"
  using assms(3)
proof (induction fs arbitrary: st acc)
  case Nil
  then have "st\<lparr>as_accs := xs @ [(word_of_nat k, acc)]\<rparr> = st" by simp
  then show ?case by simp
next
  case (Cons f fs)
  from Cons.prems assms(2) show ?case
    by (simp add: argument_event_step [OF assms(1)] on_entry_last Cons.IH)
qed

lemma run_anthropic_calls:
  assumes "k + length cs \<le> 2 ^ 32" "fst ` set (as_accs st) \<subseteq> word_of_nat ` {..<k}"
  shows "run_lines (anthropic_event session) st (anthropic_calls k cs) =
    (None, st\<lparr>as_accs := as_accs st @ call_accs k cs\<rparr>)"
  using assms
proof (induction cs arbitrary: k st)
  case (Cons c cs)
  obtain i n fs where c: "c = (i, n, fs)" by (cases c) auto
  have k: "k < 2 ^ 32" using Cons.prems(1) by simp
  note fresh = fresh_index [OF Cons.prems(2) k]
  let ?acc = "\<lparr>ac_id = i, ac_name = n, ac_arguments = concat fs\<rparr>"
  have "run_lines (anthropic_event session) st (anthropic_calls k (c # cs)) =
      run_lines (anthropic_event session) (st\<lparr>as_accs := as_accs st @ [(word_of_nat k, ?acc)]\<rparr>) (anthropic_calls (Suc k) cs)"
    by (simp add: c start_event_step [OF k] with_entry_fresh [OF fresh] run_arguments [OF k fresh])
  also have "\<dots> = (None, st\<lparr>as_accs := as_accs st @ call_accs k (c # cs)\<rparr>)"
    using Cons.IH [of "Suc k" "st\<lparr>as_accs := as_accs st @ [(word_of_nat k, ?acc)]\<rparr>"] Cons.prems
    by (auto simp: c less_Suc_eq lessThan_Suc)
  finally show ?case .
qed simp

lemma run_text_events:
  "run_lines (anthropic_event session) st (map text_event texts @ rest) =
     run_lines (anthropic_event session) (st\<lparr>as_text := as_text st @ concat texts,
       as_events := as_events st @ map (TextDelta session) (filter (\<lambda>t. t \<noteq> []) texts)\<rparr>) rest"
  by (induction texts arbitrary: st) (simp_all add: text_event_step)

text \<open>The OpenAI side.\<close>

lemma fragments_argument_chunk:
  "fragments (argument_chunk k i n p) = [\<lparr>tk_index = word_of_nat k, tk_id = i,
     tk_function = Some \<lparr>fx_name = n, fx_arguments = Some p\<rparr>\<rparr>]"
  by (simp add: fragments_def first_delta_def argument_chunk_def openai_chunk_def)

lemma add_arguments:
  assumes "word_of_nat k \<notin> fst ` set xs"
  shows "fold add_tool_call (concat (map fragments (map (argument_chunk k None None) fs))) (xs @ [(word_of_nat k, acc)]) =
    xs @ [(word_of_nat k, acc\<lparr>ac_arguments := ac_arguments acc @ concat fs\<rparr>)]"
proof (induction fs arbitrary: acc)
  case (Cons f fs)
  then show ?case
    using assms by (simp add: fragments_argument_chunk add_tool_call_def with_entry_last add_fragment_def unless_empty_def)
qed simp

lemma add_openai_calls:
  assumes "k + length cs \<le> 2 ^ 32" "fst ` set xs \<subseteq> word_of_nat ` {..<k}" "\<forall>(i, n, fs) \<in> set cs. i \<noteq> [] \<and> n \<noteq> []"
  shows "fold add_tool_call (concat (map fragments (openai_calls k cs))) xs = xs @ call_accs k cs"
  using assms
proof (induction cs arbitrary: k xs)
  case (Cons c cs)
  obtain i n fs where c: "c = (i, n, fs)" by (cases c) auto
  have k: "k < 2 ^ 32" using Cons.prems(1) by simp
  note fresh = fresh_index [OF Cons.prems(2) k]
  let ?acc = "\<lparr>ac_id = i, ac_name = n, ac_arguments = concat fs\<rparr>"
  have "fold add_tool_call (concat (map fragments (openai_calls k (c # cs)))) xs =
      fold add_tool_call (concat (map fragments (openai_calls (Suc k) cs))) (xs @ [(word_of_nat k, ?acc)])"
    using Cons.prems(3) add_arguments [OF fresh]
    by (simp add: c fragments_argument_chunk add_tool_call_def with_entry_fresh [OF fresh] add_fragment_def
        unless_empty_def empty_acc_def)
  also have "\<dots> = xs @ call_accs k (c # cs)"
    using Cons.IH [of "Suc k" "xs @ [(word_of_nat k, ?acc)]"] Cons.prems by (auto simp: c lessThan_Suc)
  finally show ?case .
qed simp

lemma call_accs_keys: "map fst (call_accs k cs) = map word_of_nat [k..<k + length cs]"
  by (induction k cs rule: call_accs.induct) (simp_all add: upt_rec)

lemma call_accs_finished:
  "\<forall>(i, n, fs) \<in> set cs. i \<noteq> [] \<and> n \<noteq> [] \<Longrightarrow>
     List.map_filter (\<lambda>(_, acc). finished_call acc) (call_accs k cs) = map meant_call cs"
  by (induction k cs rule: call_accs.induct) (auto simp: List.map_filter_simps finished_call_def meant_call_def)

lemma call_accs_response:
  assumes "k + length cs \<le> 2 ^ 32" "\<forall>(i, n, fs) \<in> set cs. i \<noteq> [] \<and> n \<noteq> []"
  shows "lr_tool_calls (build_response t th (call_accs k cs) us fin) = map meant_call cs"
proof -
  have "sorted (map (word_of_nat :: nat \<Rightarrow> u32) [k..<k + length cs])"
    using assms(1) by (auto simp: sorted_iff_nth_mono word_le_nat_alt unat_of_nat simp del: of_nat_add)
  then have "sort_key fst (call_accs k cs) = call_accs k cs"
    by (intro sort_key_id_if_sorted) (simp add: call_accs_keys)
  with call_accs_finished [OF assms(2)] show ?thesis by (simp add: build_response_def)
qed

lemma concat_nils [simp]: "concat (map (\<lambda>_. []) xs) = []"
  by (induction xs) simp_all

lemma concat_map_if: "concat (map (\<lambda>t. if t = [] then [] else [f t]) ts) = map f (filter (\<lambda>t. t \<noteq> []) ts)"
  by (induction ts) simp_all

lemma openai_text_chunks:
  "concat (map (delta_text dl_content) (openai_calls k cs)) = []"
  "concat (map (delta_events session) (openai_calls k cs)) = []"
  "delta_text dl_content (openai_chunk (Some t) None) = t"
  "delta_events session (openai_chunk (Some t) None) = (if t = [] then [] else [TextDelta session t])"
  "fragments (openai_chunk (Some t) None) = []"
  by (induction k cs rule: openai_calls.induct)
    (auto simp: delta_text_def delta_events_def first_delta_def openai_chunk_def argument_chunk_def fragments_def)



end
