(* ===== verification/LlmClient.thy ===== *)
theory LlmClient
  imports AnthropicApi AgentLoop
begin

section \<open>The HTTP client (\<open>llm/client.rs\<close>)\<close>

text \<open>
  \<open>LlmClient::chat_completion\<close> for both providers: the history is cleaned, the request built and sent,
  an error status reported with its body, a success stream handed to the provider's parser. The
  transport is a parameter: for a request it says whether the headers came later than the header
  timeout and what was answered. Which names and values are legal headers is \<open>reqwest\<close>'s to say,
  a parameter too; so is JSON parsing.
\<close>

record openai_request =
  or_model :: rstr
  or_messages :: "chat_message list"
  or_stream :: bool
  or_include_usage :: bool
  or_tools :: "tool_definition list option"
  or_tool_choice :: "rstr option"
  or_parallel_tool_calls :: "bool option"
  or_max_completion_tokens :: "u32 option"
  or_temperature :: "(nat \<times> nat) option"
  or_thinking :: "json option"
  or_prompt_cache_key :: "rstr option"

datatype request_body = OpenAiBody openai_request | AnthropicBody anthropic_request

record http_request =
  hr_url :: rstr
  hr_headers :: "(rstr \<times> rstr) list"
  hr_body :: request_body

datatype http_answer = SendFailed rstr | ErrorStatus nat rstr | Success "stream_item list"

record client_host =
  ho_http :: "http_request \<Rightarrow> bool \<times> http_answer"
  ho_valid_header :: "rstr \<Rightarrow> rstr \<Rightarrow> bool"
  ho_parse_json :: "rstr \<Rightarrow> rstr + json"
  ho_parse_chunk :: "rstr \<Rightarrow> completion_chunk option"

text \<open>Header names are case-insensitive (\<open>HeaderName\<close> keeps them in lower case); an insertion replaces.\<close>

definition put_header :: "rstr \<Rightarrow> rstr \<Rightarrow> (rstr \<times> rstr) list \<Rightarrow> (rstr \<times> rstr) list" where
  "put_header k v hs = with_entry k v (\<lambda>_. v) hs"

definition apply_extra_headers ::
  "client_host \<Rightarrow> (rstr \<times> rstr) list \<Rightarrow> (rstr \<times> rstr) list \<Rightarrow> (rstr \<times> rstr) list" where
  "apply_extra_headers host extra hs =
     fold (\<lambda>(k, v) hs. if ho_valid_header host k v then put_header (to_ascii_lowercase k) v hs else hs) extra hs"

definition auth_header :: "client_host \<Rightarrow> client_config \<Rightarrow> rstr \<Rightarrow> rstr \<Rightarrow> (rstr \<times> rstr) list \<Rightarrow> (rstr \<times> rstr) list" where
  "auth_header host config name value hs =
     (if cl_api_key config \<noteq> [] \<and> ho_valid_header host name value then put_header name value hs else hs)"

definition drop_block_cache :: "chat_message \<Rightarrow> chat_message" where
  "drop_block_cache msg =
     (case cm_content msg of
        Some (MBlocks bs) \<Rightarrow> msg\<lparr>cm_content := Some (MBlocks
          (map (\<lambda>b. case b of TextBlock t _ \<Rightarrow> TextBlock t None | _ \<Rightarrow> b) bs))\<rparr>
      | _ \<Rightarrow> msg)"

definition openai_body ::
  "client_config \<Rightarrow> rstr \<Rightarrow> chat_message list \<Rightarrow> tool_definition list \<Rightarrow> openai_request" where
  "openai_body config session messages tools =
     \<lparr>or_model = cl_model config,
      or_messages = map drop_block_cache (sanitize_orphaned_tool_results messages),
      or_stream = True, or_include_usage = True,
      or_tools = (if tools = [] then None else Some tools),
      or_tool_choice = (if tools = [] then None else Some ''auto''),
      or_parallel_tool_calls = (if tools = [] then None else Some True),
      or_max_completion_tokens = cl_max_completion_tokens config,
      or_temperature = cl_temperature config, or_thinking = cl_thinking config,
      or_prompt_cache_key = (if cl_disable_cache_control config then None else Some session)\<rparr>"

definition json_header :: "(rstr \<times> rstr) list" where
  "json_header = [(''content-type'', ''application/json'')]"

definition openai_http ::
  "client_host \<Rightarrow> client_config \<Rightarrow> rstr \<Rightarrow> chat_message list \<Rightarrow> tool_definition list \<Rightarrow> http_request" where
  "openai_http host config session messages tools =
     \<lparr>hr_url = trim_end_matches (CHR ''/'') (cl_base_url config) @ ''/chat/completions'',
      hr_headers = apply_extra_headers host (cl_extra_headers config)
        (auth_header host config ''authorization'' (''Bearer '' @ cl_api_key config) json_header),
      hr_body = OpenAiBody (openai_body config session messages tools)\<rparr>"

definition anthropic_version :: rstr where "anthropic_version = ''2023-06-01''"

definition anthropic_http ::
  "client_host \<Rightarrow> client_config \<Rightarrow> chat_message list \<Rightarrow> tool_definition list \<Rightarrow> http_request" where
  "anthropic_http host config messages tools =
     \<lparr>hr_url = trim_end_matches (CHR ''/'') (cl_base_url config) @ ''/v1/messages'',
      hr_headers = apply_extra_headers host (cl_extra_headers config)
        (put_header ''anthropic-version'' anthropic_version
          (auth_header host config ''x-api-key'' (cl_api_key config) json_header)),
      hr_body = AnthropicBody (build_anthropic_request (ho_parse_json host) config
        (sanitize_orphaned_tool_results messages) tools)\<rparr>"

definition send_with_header_timeout ::
  "client_host \<Rightarrow> nat option \<Rightarrow> http_request \<Rightarrow> agent_error + http_answer" where
  "send_with_header_timeout host timeout request =
     (case ho_http host request of
        (late, answer) \<Rightarrow>
          (case timeout of
             Some ms \<Rightarrow> if late then Inl (HeaderTimeout ms)
               else (case answer of SendFailed e \<Rightarrow> Inl (HttpError e) | _ \<Rightarrow> Inr answer)
           | None \<Rightarrow> (case answer of SendFailed e \<Rightarrow> Inl (HttpError e) | _ \<Rightarrow> Inr answer)))"

text \<open>
  After the headers: the log line of an error status slices its body at 500 bytes, which panics
  (\<open>None\<close>) inside a character.
\<close>

definition receive ::
  "(stream_item list \<Rightarrow> (agent_error + llm_response) \<times> agent_event list) \<Rightarrow> agent_error + http_answer \<Rightarrow>
   ((agent_error + llm_response) \<times> agent_event list) option" where
  "receive parser sent =
     (case sent of
        Inl e \<Rightarrow> Some (Inl e, [])
      | Inr (ErrorStatus status body) \<Rightarrow>
          (case str_slice body 0 (min (length body) 500) of
             None \<Rightarrow> None
           | Some _ \<Rightarrow> Some (Inl (LlmApiError status body), []))
      | Inr (Success items) \<Rightarrow> Some (parser items)
      | Inr (SendFailed e) \<Rightarrow> Some (Inl (HttpError e), []))"

definition chat_completion_openai where
  "chat_completion_openai host config session messages tools =
     receive (parse_sse_stream (ho_parse_chunk host) session)
       (send_with_header_timeout host (lp_header_timeout_ms (cl_policy config)) (openai_http host config session messages tools))"

definition chat_completion_anthropic where
  "chat_completion_anthropic host config session messages tools =
     receive (parse_anthropic_sse_stream (ho_parse_json host) session)
       (send_with_header_timeout host (lp_header_timeout_ms (cl_policy config)) (anthropic_http host config messages tools))"

definition client_chat_completion ::
  "client_host \<Rightarrow> client_config \<Rightarrow> rstr \<Rightarrow> chat_message list \<Rightarrow> tool_definition list \<Rightarrow>
   ((agent_error + llm_response) \<times> agent_event list) option" where
  "client_chat_completion host config session messages tools =
     (case cl_provider config of
        OpenAI \<Rightarrow> chat_completion_openai host config session messages tools
      | Anthropic \<Rightarrow> chat_completion_anthropic host config session messages tools)"

subsection \<open>Properties\<close>

lemma sanitize_closed: "closed_history ms \<Longrightarrow> sanitize_orphaned_tool_results ms = ms"
  by (auto simp: sanitize_orphaned_tool_results_def closed_history_def
      intro!: filter_eq_if_all intro: keeps_result_closed)

lemma receive_status:
  assumes "\<forall>c \<in> set body. \<not> is_continuation c"
  shows "receive parser (Inr (ErrorStatus status body)) = Some (Inl (LlmApiError status body), [])"
proof -
  have "is_char_boundary body (min (length body) 500)"
    using assms by (auto simp: is_char_boundary_def min_def)
  then show ?thesis by (simp add: receive_def str_slice_def)
qed

text \<open>
  An error page can crash the agent: when byte 500 of the body of an error answer lies inside a
  character, the log line's slice panics, so the error is neither reported nor retried.
\<close>

theorem error_body_crashes_client:
  "receive parser (Inr (ErrorStatus 503 (replicate 499 (CHR ''a'') @ [CHR 0xC3, CHR 0xA9]))) = None"
  by (simp add: receive_def str_slice_def is_char_boundary_def nth_append is_continuation_def byte_val_def)

end
