(* ===== verification/AutoRun.thy ===== *)
theory AutoRun
  imports ChatTypes Util
begin

section \<open>The executor of Auto mode (\<open>auto/executor.rs\<close>)\<close>

text \<open>
  \<open>executor::run\<close> drives a task from plan to result: ask the orchestrator for a plan, have the first
  plan approved, run its workers one after another, and on a hard failure replan while the budget
  lasts or stop and wait for the user's decision. The plan generator, the worker runner, the approver
  and the cancellation token are trait objects: functions of an environment over a world \<open>'w\<close> they may
  change. A call that does not come back (it panics or never ends) is \<open>None\<close>, and so is then the
  run. Everything the executor does outside itself is recorded in order: events, snapshots handed
  to the state listener, requests to the orchestrator, approvals and worker runs.
\<close>

record orchestrator_request =
  oq_task :: rstr
  oq_worker_pool :: "pool_entry list"
  oq_prior_results :: "worker_result list"
  oq_replan_reason :: "rstr option"
  oq_plan_version :: u32

datatype orchestrator_error =
    EmptyWorkerPool
  | ParseFailed u32 rstr
  | OrchHttp rstr
  | OrchCancelled
  | NoToolUse rstr

fun orchestrator_error_text :: "orchestrator_error \<Rightarrow> rstr" where
  "orchestrator_error_text EmptyWorkerPool =
     ''worker pool is empty '' @ em_dash @ '' orchestrator cannot pick from zero models''"
| "orchestrator_error_text (ParseFailed attempts m) =
     ''orchestrator returned an unparseable plan after '' @ nat_str (unat attempts) @
     '' attempt(s); last error: '' @ m"
| "orchestrator_error_text (OrchHttp m) = ''orchestrator HTTP error: '' @ m"
| "orchestrator_error_text OrchCancelled = ''orchestrator call cancelled''"
| "orchestrator_error_text (NoToolUse m) = ''provider returned no submit_plan tool_use: '' @ m"

text \<open>The approver's answer, or that cancellation came first.\<close>

datatype approval = Answered bool | CancelWon

record 'w auto_env =
  ae_cancelled :: "'w \<Rightarrow> bool \<times> 'w"
  ae_generate :: "orchestrator_request \<Rightarrow> 'w \<Rightarrow> ((orchestrator_error + plan) \<times> 'w) option"
  ae_approve :: "plan \<Rightarrow> 'w \<Rightarrow> (approval \<times> 'w) option"
  ae_run_worker :: "worker_spec \<Rightarrow> worker_result list \<Rightarrow> 'w \<Rightarrow>
     (agent_event list \<times> worker_result \<times> 'w) option"

record executor_config =
  ec_task :: rstr
  ec_run_id :: rstr
  ec_session_id :: rstr
  ec_worker_pool :: "pool_entry list"
  ec_replan_budget :: u32
  ec_resume_from :: "auto_run option"
  ec_start_at_worker_id :: "rstr option"
  ec_initial_replan_reason :: "rstr option"

datatype auto_action =
    Emitted agent_event
  | Notified auto_run
  | Asked orchestrator_request "orchestrator_error + plan"
  | SoughtApproval plan approval
  | RanWorker worker_spec "worker_result list" worker_result

record 'w auto_state =
  as_run :: auto_run
  as_trace :: "auto_action list"
  as_world :: 'w

record auto_vars =
  av_prior :: "worker_result list"
  av_version :: u32
  av_resume_plan :: "plan option"
  av_replan_reason :: "rstr option"
  av_start_at :: "rstr option"

definition act :: "auto_action \<Rightarrow> 'w auto_state \<Rightarrow> 'w auto_state" where
  "act a st = st\<lparr>as_trace := as_trace st @ [a]\<rparr>"

definition notify :: "'w auto_state \<Rightarrow> 'w auto_state" where
  "notify st = act (Notified (as_run st)) st"

definition set_status :: "auto_status \<Rightarrow> 'w auto_state \<Rightarrow> 'w auto_state" where
  "set_status s st = st\<lparr>as_run := (as_run st)\<lparr>ar_status := s\<rparr>\<rparr>"

subsection \<open>Finalizers\<close>

definition finalize_done ::
  "executor_config \<Rightarrow> rstr option \<Rightarrow> 'w auto_state \<Rightarrow> auto_result \<times> 'w auto_state" where
  "finalize_done cfg summary_hint st =
     (let st1 = notify (set_status StDone st);
          summary = (case summary_hint of Some s \<Rightarrow> s | None \<Rightarrow> ''Auto task complete.'')
      in (ResDone summary (as_run st1),
          act (Emitted (AutoDone (ec_session_id cfg) (ec_run_id cfg) summary (ar_cost_cents (as_run st1)))) st1))"

definition finalize_failed ::
  "executor_config \<Rightarrow> rstr \<Rightarrow> rstr option \<Rightarrow> 'w auto_state \<Rightarrow> auto_result \<times> 'w auto_state" where
  "finalize_failed cfg reason last_worker_output st =
     (let st1 = notify (set_status StFailed st)
      in (ResFailed reason (as_run st1),
          act (Emitted (AutoFailed (ec_session_id cfg) (ec_run_id cfg) reason last_worker_output)) st1))"

definition finalize_cancelled :: "rstr \<Rightarrow> 'w auto_state \<Rightarrow> auto_result \<times> 'w auto_state" where
  "finalize_cancelled phase st =
     (let st1 = notify (set_status StCancelled st) in (ResCancelled (as_run st1) phase, st1))"

definition finalize_awaiting_failure_decision ::
  "executor_config \<Rightarrow> failure_context \<Rightarrow> 'w auto_state \<Rightarrow> auto_result \<times> 'w auto_state" where
  "finalize_awaiting_failure_decision cfg failure st =
     (let st0 = set_status StAwaitingFailureDecision st;
          st1 = notify (st0\<lparr>as_run := (as_run st0)\<lparr>ar_pending_failure := Some failure\<rparr>\<rparr>)
      in (ResFailed (fx_error_message failure) (as_run st1),
          act (Emitted (AutoAwaitingFailureDecision (ec_session_id cfg) (ec_run_id cfg) failure)) st1))"

subsection \<open>Labels\<close>

fun status_label :: "worker_status \<Rightarrow> rstr" where
  "status_label WOk = ''ok''"
| "status_label WMaxIterations = ''max_iterations''"
| "status_label (WToolError m) = ''tool_error''"
| "status_label (WLlmError m) = ''llm_error''"
| "status_label WCancelled = ''cancelled''"

fun take_chars :: "nat \<Rightarrow> rstr \<Rightarrow> rstr" where
  "take_chars n [] = []"
| "take_chars n (c # cs) =
     (if is_continuation c then c # take_chars n cs
      else (case n of 0 \<Rightarrow> [] | Suc m \<Rightarrow> c # take_chars m cs))"

definition char_count :: "rstr \<Rightarrow> nat" where
  "char_count s = length (filter (\<lambda>c. \<not> is_continuation c) s)"

definition ellipsis :: rstr where
  "ellipsis = [CHR 0xE2, CHR 0x80, CHR 0xA6]"

definition truncate_chars :: "rstr \<Rightarrow> nat \<Rightarrow> rstr" where
  "truncate_chars s n = (if char_count s \<le> n then s else take_chars n s @ ellipsis)"

definition planning_phase_label :: "auto_run \<Rightarrow> rstr" where
  "planning_phase_label run =
     (let version = length (ar_plan_versions run) + 1
      in (if ar_plan_versions run = [] then ''Planning v'' else ''Replanning v'') @ nat_str version)"

definition worker_phase :: "worker_spec \<Rightarrow> rstr" where
  "worker_phase spec = ''Worker '' @ ws_id spec @ '' ('' @ ws_model spec @ '')''"

definition failure_of :: "worker_spec \<Rightarrow> worker_result \<Rightarrow> failure_context" where
  "failure_of spec result =
     \<lparr>fx_worker_id = ws_id spec, fx_worker_model = ws_model spec, fx_worker_prompt = ws_prompt spec,
      fx_error_message = ''worker '' @ ws_id spec @ '' ('' @ ws_model spec @ '') failed ['' @
        status_label (wr_status result) @ '']: '' @ truncate_chars (wr_summary result) 240\<rparr>"

subsection \<open>The phases of one iteration\<close>

definition plan_event :: "executor_config \<Rightarrow> plan \<Rightarrow> auto_action" where
  "plan_event cfg p = Emitted (AutoPlan (ec_session_id cfg) (ec_run_id cfg) (pl_version p) (pl_reasoning p) (pl_workers p))"

definition push_plan :: "plan \<Rightarrow> 'w auto_state \<Rightarrow> 'w auto_state" where
  "push_plan p st = st\<lparr>as_run := (as_run st)\<lparr>ar_plan_versions := ar_plan_versions (as_run st) @ [p]\<rparr>\<rparr>"

definition orchestrator_request_of :: "executor_config \<Rightarrow> auto_vars \<Rightarrow> orchestrator_request" where
  "orchestrator_request_of cfg v =
     \<lparr>oq_task = ec_task cfg, oq_worker_pool = ec_worker_pool cfg, oq_prior_results = av_prior v,
      oq_replan_reason = av_replan_reason v, oq_plan_version = av_version v\<rparr>"

definition plan_phase ::
  "'w auto_env \<Rightarrow> executor_config \<Rightarrow> auto_vars \<Rightarrow> 'w auto_state \<Rightarrow> ((auto_result + plan) \<times> 'w auto_state) option" where
  "plan_phase env cfg v st =
     (case av_resume_plan v of
        Some p \<Rightarrow> Some (Inr p, act (plan_event cfg p) st)
      | None \<Rightarrow>
          let st1 = notify (set_status StPlanning
                (act (Emitted (AutoPlanning (ec_session_id cfg) (ec_run_id cfg))) st));
              phase = planning_phase_label (as_run st1)
          in case ae_cancelled env (as_world st1) of
               (True, w) \<Rightarrow> (case finalize_cancelled phase (st1\<lparr>as_world := w\<rparr>) of (r, st2) \<Rightarrow> Some (Inl r, st2))
             | (False, w) \<Rightarrow>
                 (case ae_generate env (orchestrator_request_of cfg v) w of
                    None \<Rightarrow> None
                  | Some (answer, w1) \<Rightarrow>
                      let st2 = act (Asked (orchestrator_request_of cfg v) answer) (st1\<lparr>as_world := w1\<rparr>)
                      in case answer of
                           Inr p \<Rightarrow> Some (Inr p, act (plan_event cfg p) (notify (push_plan p st2)))
                         | Inl e \<Rightarrow>
                             if e = OrchCancelled
                             then (case finalize_cancelled phase st2 of (r, st3) \<Rightarrow> Some (Inl r, st3))
                             else (case finalize_failed cfg (''orchestrator error: '' @ orchestrator_error_text e) None st2 of
                                     (r, st3) \<Rightarrow> Some (Inl r, st3))))"

definition approval_phase ::
  "'w auto_env \<Rightarrow> executor_config \<Rightarrow> u32 \<Rightarrow> plan \<Rightarrow> 'w auto_state \<Rightarrow> (auto_result option \<times> 'w auto_state) option" where
  "approval_phase env cfg current_version p st =
     (if current_version = 1 then
        let st1 = act (Emitted (AutoAwaitingApproval (ec_session_id cfg) (ec_run_id cfg)))
              (notify (set_status StAwaitingApproval st))
        in case ae_approve env p (as_world st1) of
             None \<Rightarrow> None
           | Some (answer, w) \<Rightarrow>
               let st2 = act (SoughtApproval p answer) (st1\<lparr>as_world := w\<rparr>)
               in case answer of
                    CancelWon \<Rightarrow>
                      (case finalize_cancelled (''Approval for plan v'' @ nat_str (unat (pl_version p))) st2 of
                         (r, st3) \<Rightarrow> Some (Some r, st3))
                  | Answered False \<Rightarrow>
                      (case finalize_failed cfg ''plan rejected by user'' None st2 of (r, st3) \<Rightarrow> Some (Some r, st3))
                  | Answered True \<Rightarrow> Some (None, st2)
      else Some (None, st))"

text \<open>\<open>iter().position(..)\<close>\<close>

fun position :: "('a \<Rightarrow> bool) \<Rightarrow> 'a list \<Rightarrow> nat option" where
  "position P [] = None"
| "position P (x # xs) = (if P x then Some 0 else map_option Suc (position P xs))"

definition start_index :: "rstr option \<Rightarrow> plan \<Rightarrow> rstr + nat" where
  "start_index target p =
     (case target of
        None \<Rightarrow> Inr 0
      | Some target_id \<Rightarrow>
          (case position (\<lambda>w. ws_id w = target_id) (pl_workers p) of
             Some idx \<Rightarrow> Inr idx
           | None \<Rightarrow> Inl (''Retry target worker id `'' @ target_id @ ''` not found in saved plan (plan has: '' @
               join '', '' (map ws_id (pl_workers p)) @ '')'')))"

definition worker_started :: "worker_spec \<Rightarrow> 'w auto_state \<Rightarrow> 'w auto_state" where
  "worker_started spec st = notify (st\<lparr>as_run := (as_run st)\<lparr>ar_current_worker := Some spec\<rparr>\<rparr>)"

definition worker_returned :: "worker_result \<Rightarrow> 'w auto_state \<Rightarrow> 'w auto_state" where
  "worker_returned result st =
     st\<lparr>as_run := (as_run st)\<lparr>ar_cost_cents := saturating_add (ar_cost_cents (as_run st)) (wr_cost_cents result),
        ar_current_worker := None\<rparr>\<rparr>"

text \<open>\<open>worker_runner.run(..)\<close> came back: its events and its call are on the record.\<close>

definition worker_ran ::
  "worker_spec \<Rightarrow> worker_result list \<Rightarrow> agent_event list \<Rightarrow> worker_result \<Rightarrow> 'w \<Rightarrow> 'w auto_state \<Rightarrow> 'w auto_state" where
  "worker_ran spec prior evs result w1 st =
     worker_returned result
       (st\<lparr>as_world := w1, as_trace := as_trace st @ map Emitted evs @ [RanWorker spec prior result]\<rparr>)"

definition push_worker_result :: "worker_result \<Rightarrow> 'w auto_state \<Rightarrow> 'w auto_state" where
  "push_worker_result result st =
     st\<lparr>as_run := (as_run st)\<lparr>ar_worker_results := ar_worker_results (as_run st) @ [result]\<rparr>\<rparr>"

text \<open>What the workers of a plan leave behind: all done with the last summary, or a hard failure.\<close>

datatype workers_end = AllRan "worker_result list" "rstr option" | HardFailure "worker_result list" failure_context

fun worker_loop ::
  "'w auto_env \<Rightarrow> worker_spec list \<Rightarrow> worker_result list \<Rightarrow> rstr option \<Rightarrow> 'w auto_state \<Rightarrow>
   ((auto_result + workers_end) \<times> 'w auto_state) option" where
  "worker_loop env [] prior last_summary st = Some (Inr (AllRan prior last_summary), st)"
| "worker_loop env (spec # specs) prior last_summary st =
     (case ae_cancelled env (as_world st) of
        (True, w) \<Rightarrow>
          (case finalize_cancelled (worker_phase spec) (st\<lparr>as_world := w\<rparr>) of (r, st1) \<Rightarrow> Some (Inl r, st1))
      | (False, w) \<Rightarrow>
          (case ae_run_worker env spec prior w of
             None \<Rightarrow> None
           | Some (evs, result, w1) \<Rightarrow>
               let st2 = worker_ran spec prior evs result w1 (worker_started spec (st\<lparr>as_world := w\<rparr>))
               in if wr_status result = WCancelled then
                    (case finalize_cancelled (worker_phase spec) (push_worker_result result st2) of
                       (r, st3) \<Rightarrow> Some (Inl r, st3))
                  else if is_hard_failure (wr_status result) then
                    Some (Inr (HardFailure prior (failure_of spec result)), st2)
                  else worker_loop env specs (prior @ [result]) (Some (wr_summary result))
                         (notify (push_worker_result result st2))))"

definition count_replan :: "'w auto_state \<Rightarrow> 'w auto_state" where
  "count_replan st = st\<lparr>as_run := (as_run st)\<lparr>ar_replans_used := ar_replans_used (as_run st) + 1\<rparr>\<rparr>"

text \<open>The end of an iteration: a terminal result, or the variables of the next one.\<close>

definition after_workers ::
  "executor_config \<Rightarrow> auto_vars \<Rightarrow> workers_end \<Rightarrow> 'w auto_state \<Rightarrow> (auto_result + auto_vars) \<times> 'w auto_state" where
  "after_workers cfg v ended st =
     (case ended of
        AllRan prior last_summary \<Rightarrow> map_prod Inl id (finalize_done cfg last_summary st)
      | HardFailure prior ctx \<Rightarrow>
          if ar_replans_used (as_run st) \<ge> ec_replan_budget cfg then
            map_prod Inl id (finalize_awaiting_failure_decision cfg ctx st)
          else
            (Inr \<lparr>av_prior = prior, av_version = av_version v + 1, av_resume_plan = None,
                  av_replan_reason = Some (fx_error_message ctx), av_start_at = None\<rparr>,
             act (Emitted (AutoReplan (ec_session_id cfg) (ec_run_id cfg) (fx_error_message ctx)))
               (notify (count_replan st))))"

definition run_workers ::
  "'w auto_env \<Rightarrow> executor_config \<Rightarrow> auto_vars \<Rightarrow> plan \<Rightarrow> 'w auto_state \<Rightarrow>
   ((auto_result + auto_vars) \<times> 'w auto_state) option" where
  "run_workers env cfg v p st =
     (let st1 = notify (set_status StRunning st)
      in case start_index (av_start_at v) p of
           Inl reason \<Rightarrow> Some (map_prod Inl id (finalize_failed cfg reason None st1))
         | Inr start_idx \<Rightarrow>
             (case worker_loop env (drop start_idx (pl_workers p)) (av_prior v) None st1 of
                None \<Rightarrow> None
              | Some (Inl r, st2) \<Rightarrow> Some (Inl r, st2)
              | Some (Inr ended, st2) \<Rightarrow> Some (after_workers cfg v ended st2)))"

definition auto_round ::
  "'w auto_env \<Rightarrow> executor_config \<Rightarrow> auto_vars \<Rightarrow> 'w auto_state \<Rightarrow>
   ((auto_result + auto_vars) \<times> 'w auto_state) option" where
  "auto_round env cfg v st =
     (case plan_phase env cfg v st of
        None \<Rightarrow> None
      | Some (Inl r, st1) \<Rightarrow> Some (Inl r, st1)
      | Some (Inr p, st1) \<Rightarrow>
          (case approval_phase env cfg (av_version v) p st1 of
             None \<Rightarrow> None
           | Some (Some r, st2) \<Rightarrow> Some (Inl r, st2)
           | Some (None, st2) \<Rightarrow> run_workers env cfg v p st2))"

subsection \<open>The whole run\<close>

lemmas auto_prims = act_def notify_def set_status_def push_plan_def push_worker_result_def
  worker_started_def worker_ran_def worker_returned_def count_replan_def
lemmas auto_finals = finalize_done_def finalize_failed_def finalize_cancelled_def
  finalize_awaiting_failure_decision_def

abbreviation replans_used :: "'w auto_state \<Rightarrow> u32" where
  "replans_used st \<equiv> ar_replans_used (as_run st)"

lemma plan_phase_replans:
  "plan_phase env cfg v st = Some (x, st') \<Longrightarrow> replans_used st' = replans_used st"
  by (auto simp: plan_phase_def auto_prims auto_finals Let_def split: option.splits prod.splits bool.splits sum.splits if_splits)

lemma approval_phase_replans:
  "approval_phase env cfg n p st = Some (x, st') \<Longrightarrow> replans_used st' = replans_used st"
  by (auto simp: approval_phase_def auto_prims auto_finals Let_def split: option.splits prod.splits bool.splits approval.splits if_splits)

lemma worker_loop_Cons:
  assumes "worker_loop env (spec # specs) prior s st = Some (x, st')"
  obtains (polled) w where "ae_cancelled env (as_world st) = (True, w)"
      "map_prod Inl id (finalize_cancelled (worker_phase spec) (st\<lparr>as_world := w\<rparr>)) = (x, st')"
  | (cancelled) w evs result w1 where "ae_cancelled env (as_world st) = (False, w)"
      "ae_run_worker env spec prior w = Some (evs, result, w1)" "wr_status result = WCancelled"
      "map_prod Inl id (finalize_cancelled (worker_phase spec) (push_worker_result result
         (worker_ran spec prior evs result w1 (worker_started spec (st\<lparr>as_world := w\<rparr>))))) = (x, st')"
  | (failed) w evs result w1 where "ae_cancelled env (as_world st) = (False, w)"
      "ae_run_worker env spec prior w = Some (evs, result, w1)" "is_hard_failure (wr_status result)"
      "x = Inr (HardFailure prior (failure_of spec result))"
      "st' = worker_ran spec prior evs result w1 (worker_started spec (st\<lparr>as_world := w\<rparr>))"
  | (succeeded) w evs result w1 where "ae_cancelled env (as_world st) = (False, w)"
      "ae_run_worker env spec prior w = Some (evs, result, w1)" "wr_status result = WOk"
      "worker_loop env specs (prior @ [result]) (Some (wr_summary result))
         (notify (push_worker_result result
           (worker_ran spec prior evs result w1 (worker_started spec (st\<lparr>as_world := w\<rparr>))))) = Some (x, st')"
proof (cases "ae_cancelled env (as_world st)")
  case (Pair c w)
  show thesis
  proof (cases c)
    case True
    then show thesis using assms Pair by (intro polled) (auto split: prod.splits)
  next
    case False
    then obtain evs result w1 where r: "ae_run_worker env spec prior w = Some (evs, result, w1)"
      using assms Pair by (auto split: option.splits)
    consider "wr_status result = WCancelled" | "is_hard_failure (wr_status result)" | "wr_status result = WOk"
      using hard_or_ok by blast
    then show thesis
    proof cases
      case 1
      then show thesis using assms Pair False r by (intro cancelled) (auto simp: Let_def split: prod.splits)
    next
      case 2
      then show thesis using assms Pair False r by (intro failed) (auto simp: Let_def split: if_splits)
    next
      case 3
      then show thesis using assms Pair False r by (intro succeeded) (auto simp: Let_def)
    qed
  qed
qed

lemma worker_loop_replans:
  "worker_loop env specs prior s st = Some (x, st') \<Longrightarrow> replans_used st' = replans_used st"
proof (induction specs arbitrary: prior s st)
  case (Cons spec specs)
  from Cons.prems show ?case
  proof (cases rule: worker_loop_Cons)
    case (succeeded w evs result w1)
    from Cons.IH [OF succeeded(4)] show ?thesis by (simp add: auto_prims)
  qed (auto simp: auto_prims auto_finals Let_def)
qed simp

lemma auto_round_continues:
  assumes "auto_round env cfg v st = Some (Inr v', st')"
  shows "replans_used st < ec_replan_budget cfg" and "replans_used st' = replans_used st + 1"
proof -
  from assms obtain p st1 st2 st3 i ended where
    1: "plan_phase env cfg v st = Some (Inr p, st1)" and
    2: "approval_phase env cfg (av_version v) p st1 = Some (None, st2)" and
    3: "worker_loop env (drop i (pl_workers p)) (av_prior v) None (notify (set_status StRunning st2)) = Some (Inr ended, st3)" and
    4: "after_workers cfg v ended st3 = (Inr v', st')"
    by (auto simp: auto_round_def run_workers_def Let_def map_prod_def split: option.splits sum.splits prod.splits)
  have "replans_used st3 = replans_used st"
    using worker_loop_replans [OF 3] approval_phase_replans [OF 2] plan_phase_replans [OF 1]
    by (simp add: auto_prims)
  with 4 show "replans_used st < ec_replan_budget cfg" "replans_used st' = replans_used st + 1"
    by (auto simp: after_workers_def auto_prims map_prod_def split: workers_end.splits if_splits prod.splits)
qed

lemma replans_step:
  assumes "(n :: u32) < b"
  shows "unat (n + 1) = Suc (unat n)"
proof -
  have "unat n < unat b" "unat b < 2 ^ 32" using assms unsigned_less [of b] by (simp_all add: word_less_nat_alt)
  then show ?thesis by (simp add: unat_word_ariths)
qed

function auto_loop ::
  "'w auto_env \<Rightarrow> executor_config \<Rightarrow> auto_vars \<Rightarrow> 'w auto_state \<Rightarrow> (auto_result \<times> 'w auto_state) option" where
  "auto_loop env cfg v st =
     (case auto_round env cfg v st of
        None \<Rightarrow> None
      | Some (Inl r, st1) \<Rightarrow> Some (r, st1)
      | Some (Inr v1, st1) \<Rightarrow> auto_loop env cfg v1 st1)"
  by pat_completeness auto

termination
proof (relation "measure (\<lambda>(env, cfg, v, st). unat (ec_replan_budget cfg) - unat (replans_used st))")
  fix env :: "'w auto_env" and cfg v st x p r v1 st1
  assume "auto_round env cfg v st = Some p" "(r, st1) = p" "r = Inr v1"
  then have "auto_round env cfg v st = Some (Inr v1, st1)" by simp
  from auto_round_continues [OF this]
  show "((env, cfg, v1, st1), env, cfg, v, st) \<in> measure (\<lambda>(env, cfg, v, st). unat (ec_replan_budget cfg) - unat (replans_used st))"
    by (auto simp: replans_step word_less_nat_alt)
qed simp

declare auto_loop.simps [simp del]

definition fresh_run :: "executor_config \<Rightarrow> auto_run" where
  "fresh_run cfg =
     \<lparr>ar_id = ec_run_id cfg, ar_session_id = ec_session_id cfg, ar_status = StPlanning, ar_plan_versions = [],
      ar_worker_results = [], ar_cost_cents = 0, ar_replans_used = 0, ar_current_worker = None,
      ar_pending_failure = None\<rparr>"

definition last_plan :: "auto_run \<Rightarrow> plan option" where
  "last_plan run = (if ar_plan_versions run = [] then None else Some (last (ar_plan_versions run)))"

text \<open>The snapshot to continue, the saved plan to reuse, and the version of the plan about to run.\<close>

definition start_of :: "executor_config \<Rightarrow> auto_run \<times> plan option \<times> u32" where
  "start_of cfg =
     (case ec_resume_from cfg of
        Some snap \<Rightarrow>
          let v_existing = (case last_plan snap of Some p \<Rightarrow> pl_version p | None \<Rightarrow> 1)
          in if ec_initial_replan_reason cfg \<noteq> None then (snap, None, v_existing + 1)
             else (snap, last_plan snap, v_existing)
      | None \<Rightarrow> (fresh_run cfg, None, 1))"

definition start_vars_of :: "executor_config \<Rightarrow> auto_vars" where
  "start_vars_of cfg =
     (case start_of cfg of
        (run, resume_plan, version) \<Rightarrow>
          \<lparr>av_prior = ar_worker_results run, av_version = version, av_resume_plan = resume_plan,
           av_replan_reason = ec_initial_replan_reason cfg, av_start_at = ec_start_at_worker_id cfg\<rparr>)"

definition start_state :: "executor_config \<Rightarrow> 'w \<Rightarrow> 'w auto_state" where
  "start_state cfg w = \<lparr>as_run = (fst (start_of cfg))\<lparr>ar_pending_failure := None\<rparr>, as_trace = [], as_world = w\<rparr>"

definition executor_run :: "'w auto_env \<Rightarrow> executor_config \<Rightarrow> 'w \<Rightarrow> (auto_result \<times> 'w auto_state) option" where
  "executor_run env cfg w = auto_loop env cfg (start_vars_of cfg) (start_state cfg w)"

definition auto_approve :: "plan \<Rightarrow> 'w \<Rightarrow> (approval \<times> 'w) option" where
  "auto_approve p w = Some (Answered True, w)"

end
