(* ===== verification/AutoMachine.thy ===== *)
theory AutoMachine
  imports AutoRun
begin

section \<open>Auto mode as a state machine\<close>

text \<open>
  What the executor promises, without its snapshots, events and labels: a machine whose steps are
  the calls to the orchestrator, the approver and the workers. Every run of the executor is a path
  of the machine, so the machine's invariants, proved by rule induction, hold of the executor.
\<close>

subsection \<open>The machine\<close>

datatype auto_stage =
    Planning "plan option"
  | Approving plan
  | Ready plan
  | Working plan "worker_spec list"
  | Ended auto_status

record auto_abs =
  ab_stage :: auto_stage
  ab_version :: u32
  ab_target :: "rstr option"
  ab_plans :: "plan list"
  ab_ledger :: "worker_result list"
  ab_replans :: u32
  ab_log :: "auto_action list"

definition logged :: "auto_action \<Rightarrow> auto_stage \<Rightarrow> auto_abs \<Rightarrow> auto_abs" where
  "logged x s a = a\<lparr>ab_stage := s, ab_log := ab_log a @ [x]\<rparr>"

definition enters :: "auto_stage \<Rightarrow> auto_abs \<Rightarrow> auto_abs" where
  "enters s a = a\<lparr>ab_stage := s\<rparr>"

definition planned_stage :: "u32 \<Rightarrow> plan \<Rightarrow> auto_stage" where
  "planned_stage version p = (if version = 1 then Approving p else Ready p)"

inductive auto_step :: "u32 \<Rightarrow> auto_abs \<Rightarrow> auto_abs \<Rightarrow> bool" for budget where
  reuse: "ab_stage a = Planning (Some p) \<Longrightarrow> auto_step budget a (enters (planned_stage (ab_version a) p) a)"
| planned: "ab_stage a = Planning None \<Longrightarrow> oq_prior_results req = ab_ledger a \<Longrightarrow> oq_plan_version req = ab_version a \<Longrightarrow>
    auto_step budget a (logged (Asked req (Inr p)) (planned_stage (ab_version a) p) (a\<lparr>ab_plans := ab_plans a @ [p]\<rparr>))"
| unplanned: "ab_stage a = Planning None \<Longrightarrow> oq_prior_results req = ab_ledger a \<Longrightarrow>
    auto_step budget a (logged (Asked req (Inl e)) (Ended (if e = OrchCancelled then StCancelled else StFailed)) a)"
| approved: "ab_stage a = Approving p \<Longrightarrow>
    auto_step budget a (logged (SoughtApproval p (Answered True)) (Ready p) a)"
| refused: "ab_stage a = Approving p \<Longrightarrow> answer \<noteq> Answered True \<Longrightarrow>
    auto_step budget a (logged (SoughtApproval p answer) (Ended (if answer = CancelWon then StCancelled else StFailed)) a)"
| started: "ab_stage a = Ready p \<Longrightarrow> start_index (ab_target a) p = Inr i \<Longrightarrow>
    auto_step budget a (enters (Working p (drop i (pl_workers p))) (a\<lparr>ab_target := None\<rparr>))"
| lost_target: "ab_stage a = Ready p \<Longrightarrow> start_index (ab_target a) p = Inl m \<Longrightarrow>
    auto_step budget a (enters (Ended StFailed) a)"
| worked: "ab_stage a = Working p (spec # specs) \<Longrightarrow> wr_status r = WOk \<Longrightarrow>
    auto_step budget a (logged (RanWorker spec (ab_ledger a) r) (Working p specs) (a\<lparr>ab_ledger := ab_ledger a @ [r]\<rparr>))"
| replans: "ab_stage a = Working p (spec # specs) \<Longrightarrow> is_hard_failure (wr_status r) \<Longrightarrow> ab_replans a < budget \<Longrightarrow>
    auto_step budget a (logged (RanWorker spec (ab_ledger a) r) (Planning None)
      (a\<lparr>ab_replans := ab_replans a + 1, ab_version := ab_version a + 1, ab_target := None\<rparr>))"
| gives_up: "ab_stage a = Working p (spec # specs) \<Longrightarrow> is_hard_failure (wr_status r) \<Longrightarrow> ab_replans a \<ge> budget \<Longrightarrow>
    auto_step budget a (logged (RanWorker spec (ab_ledger a) r) (Ended StAwaitingFailureDecision) a)"
| worker_cancelled: "ab_stage a = Working p (spec # specs) \<Longrightarrow> wr_status r = WCancelled \<Longrightarrow>
    auto_step budget a (logged (RanWorker spec (ab_ledger a) r) (Ended StCancelled) (a\<lparr>ab_ledger := ab_ledger a @ [r]\<rparr>))"
| cancelled: "ab_stage a = Planning None \<or> (\<exists>p spec specs. ab_stage a = Working p (spec # specs)) \<Longrightarrow>
    auto_step budget a (enters (Ended StCancelled) a)"
| finished: "ab_stage a = Working p [] \<Longrightarrow> auto_step budget a (enters (Ended StDone) a)"

inductive_cases auto_step_E: "auto_step budget a b"

abbreviation auto_path :: "u32 \<Rightarrow> auto_abs \<Rightarrow> auto_abs \<Rightarrow> bool" where
  "auto_path budget \<equiv> (auto_step budget)\<^sup>*\<^sup>*"

lemma ended_is_final: "\<not> auto_step budget a b" if "ab_stage a = Ended s"
  using that by (auto elim: auto_step_E)

subsection \<open>The executor follows the machine\<close>

fun is_call :: "auto_action \<Rightarrow> bool" where
  "is_call (Emitted ev) = False"
| "is_call (Notified run) = False"
| "is_call _ = True"

definition calls :: "auto_action list \<Rightarrow> auto_action list" where
  "calls = filter is_call"

lemma calls_simps [simp]:
  "calls [] = []" "calls (xs @ ys) = calls xs @ calls ys" "calls (map Emitted evs) = []"
  "calls (Emitted ev # xs) = calls xs" "calls (Notified run # xs) = calls xs"
  "calls (Asked req answer # xs) = Asked req answer # calls xs"
  "calls (SoughtApproval p a # xs) = SoughtApproval p a # calls xs"
  "calls (RanWorker spec prior r # xs) = RanWorker spec prior r # calls xs"
  by (simp_all add: calls_def)

definition abs_of :: "auto_stage \<Rightarrow> u32 \<Rightarrow> rstr option \<Rightarrow> 'w auto_state \<Rightarrow> auto_abs" where
  "abs_of s version target st =
     \<lparr>ab_stage = s, ab_version = version, ab_target = target, ab_plans = ar_plan_versions (as_run st),
      ab_ledger = ar_worker_results (as_run st),
      ab_replans = replans_used st, ab_log = calls (as_trace st)\<rparr>"

abbreviation head_of :: "auto_vars \<Rightarrow> 'w auto_state \<Rightarrow> auto_abs" where
  "head_of v st \<equiv> abs_of (Planning (av_resume_plan v)) (av_version v) (av_start_at v) st"

text \<open>
  A result agrees with the state it is returned in; a run that stops for the user's decision names
  the worker that failed, and that was the last call.
\<close>

definition agrees :: "auto_result \<Rightarrow> 'w auto_state \<Rightarrow> bool" where
  "agrees r st \<longleftrightarrow> result_run r = as_run st \<and>
     (case r of
        ResDone summary run \<Rightarrow> ar_status run = StDone
      | ResCancelled run phase \<Rightarrow> ar_status run = StCancelled
      | ResFailed reason run \<Rightarrow> ar_status run = StFailed \<or>
          ar_status run = StAwaitingFailureDecision \<and>
          (\<exists>log spec prior res. calls (as_trace st) = log @ [RanWorker spec prior res] \<and>
             ar_pending_failure run = Some (failure_of spec res) \<and> reason = fx_error_message (failure_of spec res)))"

text \<open>A result, once returned, is where the machine ends.\<close>

definition concludes :: "u32 \<Rightarrow> auto_abs \<Rightarrow> auto_result \<Rightarrow> 'w auto_state \<Rightarrow> bool" where
  "concludes budget a r st \<longleftrightarrow> agrees r st \<and>
     (\<exists>version target. auto_path budget a (abs_of (Ended (ar_status (as_run st))) version target st))"

lemma concludes_after: "auto_path budget a b \<Longrightarrow> concludes budget b r st \<Longrightarrow> concludes budget a r st"
  by (auto simp: concludes_def intro: rtranclp_trans)

lemmas machine_defs = abs_of_def logged_def enters_def orchestrator_request_of_def plan_event_def agrees_def

lemma concludes_step:
  assumes "auto_step budget a b" "agrees r st"
    "b = abs_of (Ended (ar_status (as_run st))) version target st"
  shows "concludes budget a r st"
  using assms by (auto simp: concludes_def)

lemma plan_phase_path:
  assumes "plan_phase env cfg v st = Some (x, st')" "av_prior v = ar_worker_results (as_run st)"
  shows "case x of
      Inl r \<Rightarrow> concludes budget (head_of v st) r st'
    | Inr p \<Rightarrow> auto_step budget (head_of v st) (abs_of (planned_stage (av_version v) p) (av_version v) (av_start_at v) st') \<and>
        ar_worker_results (as_run st') = ar_worker_results (as_run st)"
proof (cases "av_resume_plan v")
  case (Some p)
  have "auto_step budget (head_of v st) (enters (planned_stage (av_version v) p) (head_of v st))"
    using reuse [of "head_of v st" p budget] Some by (simp add: abs_of_def)
  moreover have "x = Inr p" "st' = act (plan_event cfg p) st" using assms(1) Some by (simp_all add: plan_phase_def)
  ultimately show ?thesis by (simp add: machine_defs act_def)
next
  case None
  let ?a = "head_of v st" and ?req = "orchestrator_request_of cfg v"
  obtain c w where poll: "ae_cancelled env (as_world st) = (c, w)" by fastforce
  have st: "ab_stage ?a = Planning None" "ab_ledger ?a = ar_worker_results (as_run st)" "ab_version ?a = av_version v"
    using None by (simp_all add: abs_of_def)
  have req: "oq_prior_results ?req = ab_ledger ?a" "oq_plan_version ?req = ab_version ?a"
    using assms(2) by (simp_all add: orchestrator_request_of_def abs_of_def)
  show ?thesis
  proof (cases c)
    case True
    have "auto_step budget ?a (enters (Ended StCancelled) ?a)" by (rule cancelled) (simp add: st)
    then show ?thesis using assms(1) None poll True
      by (auto simp: plan_phase_def auto_prims auto_finals Let_def machine_defs
          intro!: concludes_step [where version = "av_version v" and target = "av_start_at v"])
  next
    case False
    then obtain answer w1 where gen: "ae_generate env ?req w = Some (answer, w1)"
      using assms(1) None poll by (auto simp: plan_phase_def auto_prims Let_def split: option.splits)
    show ?thesis
    proof (cases answer)
      case (Inl e)
      have "auto_step budget ?a (logged (Asked ?req (Inl e)) (Ended (if e = OrchCancelled then StCancelled else StFailed)) ?a)"
        by (rule unplanned) (simp_all add: st req)
      then show ?thesis using assms(1) None poll False gen Inl
        by (auto simp: plan_phase_def auto_prims auto_finals Let_def machine_defs split: if_splits
            intro!: concludes_step [where version = "av_version v" and target = "av_start_at v"])
    next
      case (Inr p)
      have "auto_step budget ?a (logged (Asked ?req (Inr p)) (planned_stage (ab_version ?a) p) (?a\<lparr>ab_plans := ab_plans ?a @ [p]\<rparr>))"
        by (rule planned) (simp_all add: st req)
      then show ?thesis using assms(1) None poll False gen Inr
        by (auto simp: plan_phase_def auto_prims Let_def machine_defs)
    qed
  qed
qed

lemma approval_phase_path:
  assumes "approval_phase env cfg version p st = Some (x, st')"
  shows "case x of
      Some r \<Rightarrow> concludes budget (abs_of (planned_stage version p) version target st) r st'
    | None \<Rightarrow> auto_path budget (abs_of (planned_stage version p) version target st) (abs_of (Ready p) version target st') \<and>
        ar_worker_results (as_run st') = ar_worker_results (as_run st)"
proof (cases "version = 1")
  case False
  then show ?thesis using assms by (auto simp: approval_phase_def planned_stage_def)
next
  case True
  let ?a = "abs_of (Approving p) version target st"
  have st: "ab_stage ?a = Approving p" by (simp add: abs_of_def)
  from assms True obtain answer w where ask: "ae_approve env p (as_world st) = Some (answer, w)"
    by (auto simp: approval_phase_def auto_prims Let_def split: option.splits)
  show ?thesis
  proof (cases "answer = Answered True")
    case yes: True
    have "auto_step budget ?a (logged (SoughtApproval p (Answered True)) (Ready p) ?a)"
      by (rule approved) (rule st)
    then show ?thesis using assms True ask yes
      by (auto simp: approval_phase_def planned_stage_def auto_prims Let_def machine_defs)
  next
    case no: False
    have "auto_step budget ?a (logged (SoughtApproval p answer) (Ended (if answer = CancelWon then StCancelled else StFailed)) ?a)"
      by (rule refused) (use st no in simp_all)
    then show ?thesis using assms True ask no
      by (cases answer) (auto simp: approval_phase_def planned_stage_def auto_prims auto_finals Let_def machine_defs
          split: bool.splits intro!: concludes_step [where version = version and target = target])
  qed
qed

text \<open>The workers stop at a hard failure: the machine is about to take the step that logs it.\<close>

definition fails_at ::
  "u32 \<Rightarrow> auto_abs \<Rightarrow> plan \<Rightarrow> u32 \<Rightarrow> failure_context \<Rightarrow> 'w auto_state \<Rightarrow> bool" where
  "fails_at budget a p version ctx st \<longleftrightarrow> (\<exists>spec rest r b.
     auto_path budget a b \<and> ab_stage b = Working p (spec # rest) \<and> is_hard_failure (wr_status r) \<and>
     ctx = failure_of spec r \<and>
     b\<lparr>ab_log := ab_log b @ [RanWorker spec (ab_ledger b) r]\<rparr> = abs_of (Working p (spec # rest)) version None st)"

lemma fails_after: "auto_path budget a b \<Longrightarrow> fails_at budget b p version ctx st \<Longrightarrow> fails_at budget a p version ctx st"
proof -
  assume path: "auto_path budget a b" and "fails_at budget b p version ctx st"
  then obtain spec rest r c where "auto_path budget b c" "ab_stage c = Working p (spec # rest)"
    "is_hard_failure (wr_status r)" "ctx = failure_of spec r"
    "c\<lparr>ab_log := ab_log c @ [RanWorker spec (ab_ledger c) r]\<rparr> = abs_of (Working p (spec # rest)) version None st"
    unfolding fails_at_def by blast
  moreover from path this(1) have "auto_path budget a c" by (rule rtranclp_trans)
  ultimately show ?thesis unfolding fails_at_def by blast
qed

lemma worker_loop_path:
  assumes "worker_loop env specs prior s st = Some (x, st')" "prior = ar_worker_results (as_run st)"
  shows "case x of
      Inl r \<Rightarrow> concludes budget (abs_of (Working p specs) version None st) r st'
    | Inr (AllRan prior' s') \<Rightarrow>
        auto_path budget (abs_of (Working p specs) version None st) (abs_of (Working p []) version None st') \<and>
        prior' = ar_worker_results (as_run st')
    | Inr (HardFailure prior' ctx) \<Rightarrow> 
        fails_at budget (abs_of (Working p specs) version None st) p version ctx st' \<and>
        prior' = ar_worker_results (as_run st')"
  using assms
proof (induction specs arbitrary: prior s st)
  case Nil
  then show ?case by auto
next
  case (Cons spec specs)
  let ?a = "abs_of (Working p (spec # specs)) version None st"
  have st: "ab_stage ?a = Working p (spec # specs)" "ab_ledger ?a = prior"
    using Cons.prems(2) by (simp_all add: abs_of_def)
  from Cons.prems(1) show ?case
  proof (cases rule: worker_loop_Cons)
    case (polled w)
    have "auto_step budget ?a (enters (Ended StCancelled) ?a)" by (rule cancelled) (simp add: st)
    then show ?thesis using polled
      by (auto simp: auto_prims auto_finals Let_def machine_defs
          intro!: concludes_step [where version = version and target = None])
  next
    case (cancelled w evs result w1)
    have "auto_step budget ?a (logged (RanWorker spec (ab_ledger ?a) result) (Ended StCancelled) (?a\<lparr>ab_ledger := ab_ledger ?a @ [result]\<rparr>))"
      by (rule worker_cancelled) (rule st, rule cancelled)
    then show ?thesis using cancelled Cons.prems(2)
      by (auto simp: auto_prims auto_finals Let_def machine_defs
          intro!: concludes_step [where version = version and target = None])
  next
    case (failed w evs result w1)
    show ?thesis
      unfolding failed(4) sum.case workers_end.case fails_at_def
      by (intro conjI exI [of _ spec] exI [of _ specs] exI [of _ result] exI [of _ ?a])
         (use failed Cons.prems(2) in \<open>auto simp: auto_prims machine_defs\<close>)
  next
    case (succeeded w evs result w1)
    let ?st1 = "notify (push_worker_result result (worker_ran spec prior evs result w1 (worker_started spec (st\<lparr>as_world := w\<rparr>))))"
    have "auto_step budget ?a (logged (RanWorker spec (ab_ledger ?a) result) (Working p specs) (?a\<lparr>ab_ledger := ab_ledger ?a @ [result]\<rparr>))"
      by (rule worked) (rule st, rule succeeded)
    also have "logged (RanWorker spec (ab_ledger ?a) result) (Working p specs) (?a\<lparr>ab_ledger := ab_ledger ?a @ [result]\<rparr>) =
        abs_of (Working p specs) version None ?st1"
      using Cons.prems(2) by (simp add: auto_prims machine_defs)
    finally have step: "auto_step budget ?a (abs_of (Working p specs) version None ?st1)" .
    have led: "prior @ [result] = ar_worker_results (as_run ?st1)"
      using Cons.prems(2) by (simp add: auto_prims)
    from Cons.IH [OF succeeded(4) led] step show ?thesis
      by (auto split: sum.splits workers_end.splits intro: concludes_after fails_after converse_rtranclp_into_rtranclp)
  qed
qed


lemma after_done_path:
  fixes st2 :: "'w auto_state"
  assumes "auto_path b a (abs_of (Working p []) version None st2)"
  shows "concludes b a (fst (finalize_done cfg s st2)) (snd (finalize_done cfg s st2))"
proof -
  let ?e = "abs_of (Working p []) version None st2"
  have "auto_step b ?e (enters (Ended StDone) ?e)" by (rule finished) (simp add: abs_of_def)
  then have "concludes b ?e (fst (finalize_done cfg s st2)) (snd (finalize_done cfg s st2))"
    by (auto simp: auto_prims auto_finals Let_def machine_defs
        intro!: concludes_step [where version = version and target = None])
  with assms show ?thesis by (rule concludes_after)
qed

lemma after_failure_path:
  assumes "fails_at b a p (av_version v) ctx st2" "b = ec_replan_budget cfg"
    and "after_workers cfg v (HardFailure (ar_worker_results (as_run st2)) ctx) st2 = (x, st')"
  shows "case x of
      Inl r \<Rightarrow> concludes b a r st'
    | Inr v' \<Rightarrow> auto_path b a (head_of v' st') \<and> av_prior v' = ar_worker_results (as_run st')"
proof -
  from assms(1) obtain spec rest r c where c: "auto_path b a c" "ab_stage c = Working p (spec # rest)"
      "is_hard_failure (wr_status r)" "ctx = failure_of spec r"
      "c\<lparr>ab_log := ab_log c @ [RanWorker spec (ab_ledger c) r]\<rparr> = abs_of (Working p (spec # rest)) (av_version v) None st2"
    unfolding fails_at_def by blast
  from c(5) have c': "ab_replans c = replans_used st2" "ab_version c = av_version v" "ab_ledger c = ar_worker_results (as_run st2)"
      "ab_plans c = ar_plan_versions (as_run st2)"
      "calls (as_trace st2) = ab_log c @ [RanWorker spec (ab_ledger c) r]" "ab_target c = None"
    by (auto simp: abs_of_def dest: arg_cong [of _ _ ab_replans] arg_cong [of _ _ ab_version] arg_cong [of _ _ ab_plans]
        arg_cong [of _ _ ab_ledger] arg_cong [of _ _ ab_log] arg_cong [of _ _ ab_target])
  show ?thesis
  proof (cases "replans_used st2 \<ge> b")
    case True
    let ?f = "finalize_awaiting_failure_decision cfg ctx st2"
    have "auto_step b c (logged (RanWorker spec (ab_ledger c) r) (Ended StAwaitingFailureDecision) c)"
      by (rule gives_up) (use c c' True in auto)
    then have "concludes b c (fst ?f) (snd ?f)"
      by (rule concludes_step [where version = "av_version v" and target = None])
         (use c' c(4) [symmetric] in \<open>auto simp: auto_prims auto_finals Let_def machine_defs\<close>)
    from concludes_after [OF c(1) this] show ?thesis using assms(2,3) True
      by (auto simp: after_workers_def map_prod_def split: prod.splits)
  next
    case False
    let ?c = "logged (RanWorker spec (ab_ledger c) r) (Planning None)
        (c\<lparr>ab_replans := ab_replans c + 1, ab_version := ab_version c + 1, ab_target := None\<rparr>)"
    have "auto_step b c ?c" by (rule replans) (use c c' False in auto)
    with c(1) have "auto_path b a ?c" by (rule rtranclp.rtrancl_into_rtrancl)
    moreover from assms(2,3) False obtain v' where v': "x = Inr v'"
        "v' = \<lparr>av_prior = ar_worker_results (as_run st2), av_version = av_version v + 1, av_resume_plan = None,
            av_replan_reason = Some (fx_error_message ctx), av_start_at = None\<rparr>"
        "st' = act (Emitted (AutoReplan (ec_session_id cfg) (ec_run_id cfg) (fx_error_message ctx))) (notify (count_replan st2))"
      by (auto simp: after_workers_def)
    moreover have "?c = head_of v' st'" unfolding v'(2,3) using c'
      by (simp add: auto_prims machine_defs)
    ultimately show ?thesis by (simp add: auto_prims)
  qed
qed

lemma run_workers_path:
  assumes "run_workers env cfg v p st = Some (x, st')" "av_prior v = ar_worker_results (as_run st)"
  shows "case x of
      Inl r \<Rightarrow> concludes (ec_replan_budget cfg) (abs_of (Ready p) (av_version v) (av_start_at v) st) r st'
    | Inr v' \<Rightarrow> auto_path (ec_replan_budget cfg) (abs_of (Ready p) (av_version v) (av_start_at v) st) (head_of v' st') \<and>
        av_prior v' = ar_worker_results (as_run st')"
proof -
  let ?b = "ec_replan_budget cfg" and ?a = "abs_of (Ready p) (av_version v) (av_start_at v) st"
    and ?st1 = "notify (set_status StRunning st)"
  have st: "ab_stage ?a = Ready p" "ab_target ?a = av_start_at v" by (simp_all add: abs_of_def)
  show ?thesis
  proof (cases "start_index (av_start_at v) p")
    case (Inl m)
    have "auto_step ?b ?a (enters (Ended StFailed) ?a)"
      by (rule lost_target) (rule st, simp add: st Inl)
    then show ?thesis using assms(1) Inl
      by (auto simp: run_workers_def auto_prims auto_finals Let_def machine_defs
          intro!: concludes_step [where version = "av_version v" and target = "av_start_at v"])
  next
    case (Inr i)
    let ?specs = "drop i (pl_workers p)"
    let ?w = "abs_of (Working p ?specs) (av_version v) None ?st1"
    have "auto_step ?b ?a (enters (Working p ?specs) (?a\<lparr>ab_target := None\<rparr>))"
      by (rule started) (rule st, simp add: st Inr)
    also have "enters (Working p ?specs) (?a\<lparr>ab_target := None\<rparr>) = ?w"
      by (simp add: auto_prims machine_defs)
    finally have start: "auto_path ?b ?a ?w" by blast
    from assms(1) Inr obtain y st2 where wl: "worker_loop env ?specs (av_prior v) None ?st1 = Some (y, st2)"
      by (auto simp: run_workers_def Let_def split: option.splits)
    have prior: "av_prior v = ar_worker_results (as_run ?st1)" using assms(2) by (simp add: auto_prims)
    note path = worker_loop_path [OF wl prior, of ?b p "av_version v"]
    show ?thesis
    proof (cases y)
      case (Inl r)
      with path assms(1) \<open>start_index _ _ = _\<close> wl start show ?thesis
        by (auto simp: run_workers_def intro: concludes_after)
    next
      case ended: (Inr e)
      have x: "(x, st') = after_workers cfg v e st2" using assms(1) \<open>start_index _ _ = _\<close> wl ended by (simp add: run_workers_def)
      show ?thesis
      proof (cases e)
        case (AllRan prior' s')
        from path ended AllRan start have "auto_path ?b ?a (abs_of (Working p []) (av_version v) None st2)"
          by (auto intro: rtranclp_trans)
        from after_done_path [OF this, of cfg s'] show ?thesis using x AllRan
          by (simp add: after_workers_def map_prod_def split: prod.splits)
      next
        case (HardFailure prior' ctx)
        from path ended HardFailure start
        have "fails_at ?b ?a p (av_version v) ctx st2" and prior': "prior' = ar_worker_results (as_run st2)"
          by (auto intro: fails_after)
        moreover have "after_workers cfg v (HardFailure (ar_worker_results (as_run st2)) ctx) st2 = (x, st')"
          using x HardFailure prior' by simp
        ultimately show ?thesis by (intro after_failure_path [OF _ refl])
      qed
    qed
  qed
qed

lemma auto_round_path:
  assumes "auto_round env cfg v st = Some (x, st')" "av_prior v = ar_worker_results (as_run st)"
  shows "case x of
      Inl r \<Rightarrow> concludes (ec_replan_budget cfg) (head_of v st) r st'
    | Inr v' \<Rightarrow> auto_path (ec_replan_budget cfg) (head_of v st) (head_of v' st') \<and>
        av_prior v' = ar_worker_results (as_run st')"
proof -
  let ?b = "ec_replan_budget cfg"
  from assms(1) obtain y st1 where p1: "plan_phase env cfg v st = Some (y, st1)"
    by (auto simp: auto_round_def split: option.splits)
  note plan = plan_phase_path [OF p1 assms(2), of ?b]
  show ?thesis
  proof (cases y)
    case (Inl r)
    with plan p1 assms(1) show ?thesis by (auto simp: auto_round_def)
  next
    case (Inr p)
    with p1 assms(1) obtain z st2 where p2: "approval_phase env cfg (av_version v) p st1 = Some (z, st2)"
      by (auto simp: auto_round_def split: option.splits)
    note ask = approval_phase_path [OF p2, of ?b "av_start_at v"]
    show ?thesis
    proof (cases z)
      case (Some r)
      with plan ask Inr p1 p2 assms(1) show ?thesis
        by (auto simp: auto_round_def intro: concludes_after [OF r_into_rtranclp])
    next
      case None
      with Inr p1 p2 assms(1) have p3: "run_workers env cfg v p st2 = Some (x, st')" by (simp add: auto_round_def)
      from plan ask Inr None assms(2) have prior: "av_prior v = ar_worker_results (as_run st2)"
        and to: "auto_path ?b (head_of v st) (abs_of (Ready p) (av_version v) (av_start_at v) st2)"
        by (auto intro: converse_rtranclp_into_rtranclp)
      from run_workers_path [OF p3 prior] to show ?thesis
        by (auto split: sum.splits intro: concludes_after rtranclp_trans)
    qed
  qed
qed

lemma auto_loop_path:
  "auto_loop env cfg v st = Some (r, st') \<Longrightarrow> av_prior v = ar_worker_results (as_run st) \<Longrightarrow>
   concludes (ec_replan_budget cfg) (head_of v st) r st'"
proof (induction env cfg v st rule: auto_loop.induct)
  case (1 env cfg v st)
  from "1.prems"(1) obtain x st1 where round: "auto_round env cfg v st = Some (x, st1)"
    by (subst (asm) auto_loop.simps) (auto split: option.splits)
  note path = auto_round_path [OF round "1.prems"(2)]
  show ?case
  proof (cases x)
    case (Inl res)
    with "1.prems"(1) round path show ?thesis by (subst (asm) auto_loop.simps) simp
  next
    case (Inr v1)
    with "1.prems"(1) round have "auto_loop env cfg v1 st1 = Some (r, st')" by (subst (asm) auto_loop.simps) simp
    with "1.IH" [OF round refl Inr] path Inr show ?thesis by (auto intro: concludes_after)
  qed
qed

definition auto_start :: "executor_config \<Rightarrow> auto_abs" where
  "auto_start cfg =
     (case start_of cfg of
        (run, resume_plan, version) \<Rightarrow>
          \<lparr>ab_stage = Planning resume_plan, ab_version = version, ab_target = ec_start_at_worker_id cfg,
           ab_plans = ar_plan_versions run, ab_ledger = ar_worker_results run, ab_replans = ar_replans_used run, ab_log = []\<rparr>)"

lemma executor_path:
  assumes "executor_run env cfg w = Some (r, st)"
  shows "agrees r st \<and>
    (\<exists>a. auto_path (ec_replan_budget cfg) (auto_start cfg) a \<and> ab_stage a = Ended (ar_status (result_run r)) \<and>
       ab_plans a = ar_plan_versions (result_run r) \<and> ab_ledger a = ar_worker_results (result_run r) \<and>
       ab_replans a = ar_replans_used (result_run r) \<and>
       ab_log a = calls (as_trace st))"
proof -
  let ?v = "start_vars_of cfg" and ?st = "start_state cfg w"
  have start: "head_of ?v ?st = auto_start cfg"
    by (simp add: abs_of_def start_vars_of_def start_state_def auto_start_def split: prod.splits)
  have "av_prior ?v = ar_worker_results (as_run ?st)"
    by (simp add: start_vars_of_def start_state_def split: prod.splits)
  from auto_loop_path [OF assms [unfolded executor_run_def] this]
  have "concludes (ec_replan_budget cfg) (auto_start cfg) r st" unfolding start .
  then show ?thesis unfolding concludes_def by (auto simp: abs_of_def agrees_def)
qed

end
