(* ===== verification/AutoRuns.thy ===== *)
theory AutoRuns
  imports AutoMachine
begin

section \<open>What holds of every Auto run\<close>

text \<open>
  Invariants of the machine, carried over to the executor: nothing works before the first plan is
  approved, the ledger holds exactly the results of the workers that went well, the orchestrator is
  asked at most once more than the budget of replans, a run reported done did all the work of its last
  plan, and a retry takes up the saved plan at the failed worker.
\<close>

subsection \<open>Invariants of the machine\<close>

locale auto_invariant =
  fixes budget :: u32 and I :: "auto_abs \<Rightarrow> bool"
  assumes preserved: "I a \<Longrightarrow> auto_step budget a b \<Longrightarrow> I b"
begin

lemma path: "auto_path budget a b \<Longrightarrow> I a \<Longrightarrow> I b"
  by (induction rule: rtranclp_induct) (auto intro: preserved)

lemma run:
  assumes "executor_run env cfg w = Some (r, st)" "ec_replan_budget cfg = budget" "I (auto_start cfg)"
  obtains a where "I a" "ab_stage a = Ended (ar_status (result_run r))"
    "ab_plans a = ar_plan_versions (result_run r)" "ab_ledger a = ar_worker_results (result_run r)"
    "ab_replans a = ar_replans_used (result_run r)" "ab_log a = calls (as_trace st)"
proof -
  from executor_path [OF assms(1)] assms(2) obtain a where a: "auto_path budget (auto_start cfg) a"
    "ab_stage a = Ended (ar_status (result_run r))"
    "ab_plans a = ar_plan_versions (result_run r)" "ab_ledger a = ar_worker_results (result_run r)"
    "ab_replans a = ar_replans_used (result_run r)" "ab_log a = calls (as_trace st)" by blast
  from path [OF a(1) assms(3)] a show thesis by (intro that)
qed

end

text \<open>The results that reach the ledger, and the calls that failed hard.\<close>

fun kept_result :: "auto_action \<Rightarrow> worker_result option" where
  "kept_result (RanWorker spec prior r) = (if is_hard_failure (wr_status r) then None else Some r)"
| "kept_result _ = None"

definition kept_results :: "auto_action list \<Rightarrow> worker_result list" where
  "kept_results log = List.map_filter kept_result log"

fun failed_call :: "auto_action \<Rightarrow> bool" where
  "failed_call (RanWorker spec prior r) = is_hard_failure (wr_status r)"
| "failed_call _ = False"

fun asked :: "auto_action \<Rightarrow> bool" where
  "asked (Asked req answer) = True"
| "asked _ = False"

lemma kept_results_simps [simp]:
  "kept_results [] = []" "kept_results (xs @ ys) = kept_results xs @ kept_results ys"
  "kept_results [x] = (case kept_result x of None \<Rightarrow> [] | Some r \<Rightarrow> [r])"
  by (auto simp: kept_results_def map_filter_def split: option.splits)

text \<open>A fact about every call and what came before it.\<close>

definition each_call :: "(auto_action list \<Rightarrow> auto_action \<Rightarrow> bool) \<Rightarrow> auto_action list \<Rightarrow> bool" where
  "each_call P log \<longleftrightarrow> (\<forall>i < length log. P (take i log) (log ! i))"

lemma each_call_Nil [simp]: "each_call P []"
  by (simp add: each_call_def)

lemma each_call_snoc [simp]: "each_call P (log @ [x]) \<longleftrightarrow> each_call P log \<and> P log x"
  by (auto simp: each_call_def nth_append less_Suc_eq)

lemma each_call_split: "each_call P log \<Longrightarrow> log = pre @ x # post \<Longrightarrow> P pre x"
  by (auto simp: each_call_def dest!: spec [of _ "length pre"])

subsection \<open>Nothing works unapproved\<close>

definition approved_plan :: "auto_action list \<Rightarrow> plan \<Rightarrow> bool" where
  "approved_plan log p \<longleftrightarrow> SoughtApproval p (Answered True) \<in> set log"

text \<open>A worker runs from the approved plan, or after a worker of the approved plan failed.\<close>

definition may_work :: "auto_action list \<Rightarrow> worker_spec \<Rightarrow> bool" where
  "may_work log spec \<longleftrightarrow> (\<exists>p. approved_plan log p \<and> (spec \<in> set (pl_workers p) \<or> list_ex failed_call log))"

definition approved_inv :: "auto_abs \<Rightarrow> bool" where
  "approved_inv a \<longleftrightarrow>
     each_call (\<lambda>pre x. \<forall>spec prior r. x = RanWorker spec prior r \<longrightarrow> may_work pre spec) (ab_log a) \<and>
     (case ab_stage a of
        Planning saved \<Rightarrow> ab_version a = 1 \<or> (\<exists>p. approved_plan (ab_log a) p \<and> list_ex failed_call (ab_log a))
      | Ready p \<Rightarrow> \<forall>spec \<in> set (pl_workers p). may_work (ab_log a) spec
      | Working p specs \<Rightarrow> \<forall>spec \<in> set specs. may_work (ab_log a) spec
      | _ \<Rightarrow> True)"

lemma may_work_more: "may_work log spec \<Longrightarrow> may_work (log @ [x]) spec"
  by (auto simp: may_work_def approved_plan_def)

interpretation approvals: auto_invariant budget approved_inv for budget
proof
  fix a b
  assume "approved_inv a" "auto_step budget a b"
  from this(2,1) show "approved_inv b"
    by cases (auto simp: approved_inv_def logged_def enters_def planned_stage_def may_work_def approved_plan_def
        dest: in_set_dropD)
qed

lemma fresh_start:
  "ec_resume_from cfg = None \<Longrightarrow> auto_start cfg =
     \<lparr>ab_stage = Planning None, ab_version = 1, ab_target = ec_start_at_worker_id cfg, ab_plans = [],
      ab_ledger = [], ab_replans = 0, ab_log = []\<rparr>"
  by (simp add: auto_start_def start_of_def fresh_run_def)

subsection \<open>The ledger\<close>

definition ledger_inv :: "worker_result list \<Rightarrow> auto_abs \<Rightarrow> bool" where
  "ledger_inv before a \<longleftrightarrow> ab_ledger a = before @ kept_results (ab_log a) \<and>
     each_call (\<lambda>pre x. case x of
         RanWorker spec prior r \<Rightarrow> prior = before @ kept_results pre
       | Asked req answer \<Rightarrow> oq_prior_results req = before @ kept_results pre
       | _ \<Rightarrow> True) (ab_log a)"

lemma kept_of_status [simp]:
  "wr_status r = WOk \<Longrightarrow> kept_result (RanWorker spec prior r) = Some r"
  "wr_status r = WCancelled \<Longrightarrow> kept_result (RanWorker spec prior r) = Some r"
  by simp_all

interpretation ledger: auto_invariant budget "ledger_inv before" for budget before
proof
  fix a b
  assume "ledger_inv before a" "auto_step budget a b"
  from this(2,1) show "ledger_inv before b"
    by cases (auto simp: ledger_inv_def logged_def enters_def)
qed

subsection \<open>The budget\<close>

definition budget_inv :: "u32 \<Rightarrow> u32 \<Rightarrow> auto_abs \<Rightarrow> bool" where
  "budget_inv budget before a \<longleftrightarrow>
     unat before \<le> unat (ab_replans a) \<and> unat (ab_replans a) \<le> max (unat before) (unat budget) \<and>
     length (filter asked (ab_log a)) + (if ab_stage a = Planning None then 1 else 0) \<le>
       Suc (unat (ab_replans a) - unat before)"

interpretation budget: auto_invariant budget "budget_inv budget before" for budget before
proof
  fix a b
  assume "budget_inv budget before a" "auto_step budget a b"
  from this(2,1) show "budget_inv budget before b"
    by cases (auto simp: budget_inv_def logged_def enters_def planned_stage_def replans_step word_less_nat_alt
        dest: replans_step)
qed

subsection \<open>The work of a plan\<close>

definition current_plan :: "auto_abs \<Rightarrow> plan \<Rightarrow> bool" where
  "current_plan a p \<longleftrightarrow> ab_plans a \<noteq> [] \<and> last (ab_plans a) = p"

fun call_of :: "worker_spec \<times> worker_result list \<times> worker_result \<Rightarrow> auto_action" where
  "call_of (spec, prior, r) = RanWorker spec prior r"

text \<open>The log ends with the plan's workers run from the start index on, all well, \<open>specs\<close> being left.\<close>

definition worked_to :: "rstr option \<Rightarrow> plan \<Rightarrow> worker_spec list \<Rightarrow> auto_action list \<Rightarrow> bool" where
  "worked_to target p specs log \<longleftrightarrow> (\<exists>i log0 runs. start_index target p = Inr i \<and>
     log = log0 @ map call_of runs \<and> (\<forall>(spec, prior, r) \<in> set runs. wr_status r = WOk) \<and>
     map fst runs @ specs = drop i (pl_workers p))"

lemma worked_to_start: "start_index target p = Inr i \<Longrightarrow> worked_to target p (drop i (pl_workers p)) log"
  unfolding worked_to_def by (intro exI [of _ i] exI [of _ log] exI [of _ "[]"]) simp

lemma worked_to_more:
  assumes "worked_to target p (spec # specs) log" "wr_status r = WOk"
  shows "worked_to target p specs (log @ [RanWorker spec prior r])"
proof -
  from assms(1) obtain i log0 runs where "start_index target p = Inr i" "log = log0 @ map call_of runs"
    "\<forall>(spec, prior, r) \<in> set runs. wr_status r = WOk" "map fst runs @ spec # specs = drop i (pl_workers p)"
    unfolding worked_to_def by blast
  with assms(2) show ?thesis unfolding worked_to_def
    by (intro exI [of _ i] exI [of _ log0] exI [of _ "runs @ [(spec, prior, r)]"]) auto
qed

text \<open>The target of a retry is used up by the first plan that starts.\<close>

definition work_inv :: "rstr option \<Rightarrow> auto_abs \<Rightarrow> bool" where
  "work_inv target0 a \<longleftrightarrow> (ab_target a = None \<or> ab_target a = target0) \<and>
     (case ab_stage a of
        Planning saved \<Rightarrow> \<forall>p. saved = Some p \<longrightarrow> current_plan a p
      | Approving p \<Rightarrow> current_plan a p
      | Ready p \<Rightarrow> current_plan a p
      | Working p specs \<Rightarrow> current_plan a p \<and> (\<exists>target \<in> {None, target0}. worked_to target p specs (ab_log a))
      | Ended s \<Rightarrow>
          (s = StDone \<longrightarrow> (\<exists>p. current_plan a p \<and> (\<exists>target \<in> {None, target0}. worked_to target p [] (ab_log a)))) \<and>
          (s = StAwaitingFailureDecision \<longrightarrow> (\<exists>p log spec specs r. current_plan a p \<and>
             ab_log a = log @ [RanWorker spec (ab_ledger a) r] \<and> is_hard_failure (wr_status r) \<and>
             (\<exists>target \<in> {None, target0}. worked_to target p (spec # specs) log))))"

lemma work_inv_working:
  "ab_stage a = Working p specs \<Longrightarrow> work_inv target0 a \<Longrightarrow>
     current_plan a p \<and> (\<exists>target \<in> {None, target0}. worked_to target p specs (ab_log a))"
  by (simp add: work_inv_def)

interpretation work: auto_invariant budget "work_inv target0" for budget target0
proof
  fix a b
  assume "work_inv target0 a" "auto_step budget a b"
  from this(2,1) show "work_inv target0 b"
  proof cases
    case (worked p spec specs r)
    with \<open>work_inv target0 a\<close> show ?thesis
      by (auto simp: work_inv_def logged_def current_plan_def intro: worked_to_more)
  next
    case (started p i)
    with \<open>work_inv target0 a\<close> show ?thesis
      by (auto simp: work_inv_def enters_def current_plan_def dest: worked_to_start)
  next
    case (gives_up p spec specs r)
    with \<open>work_inv target0 a\<close> show ?thesis
      by (auto simp: work_inv_def logged_def current_plan_def)
  qed (auto simp: work_inv_def logged_def enters_def planned_stage_def current_plan_def)
qed

subsection \<open>A retry\<close>

fun ran_spec :: "auto_action \<Rightarrow> worker_spec option" where
  "ran_spec (RanWorker spec prior r) = Some spec"
| "ran_spec _ = None"

definition ran_specs :: "auto_action list \<Rightarrow> worker_spec list" where
  "ran_specs log = List.map_filter ran_spec log"

lemma ran_specs_simps [simp]:
  "ran_specs [] = []" "ran_specs (xs @ ys) = ran_specs xs @ ran_specs ys"
  "ran_specs (x # xs) = (case ran_spec x of None \<Rightarrow> [] | Some s \<Rightarrow> [s]) @ ran_specs xs"
  by (auto simp: ran_specs_def map_filter_def split: option.splits)

definition retry_inv :: "u32 \<Rightarrow> plan \<Rightarrow> rstr \<Rightarrow> worker_spec list \<Rightarrow> auto_abs \<Rightarrow> bool" where
  "retry_inv budget p target left a \<longleftrightarrow> budget \<le> ab_replans a \<and> \<not> list_ex asked (ab_log a) \<and>
     (case ab_stage a of
        Planning saved \<Rightarrow> saved = Some p \<and> ab_target a = Some target \<and> ran_specs (ab_log a) = []
      | Approving q \<Rightarrow> q = p \<and> ab_target a = Some target \<and> ran_specs (ab_log a) = []
      | Ready q \<Rightarrow> q = p \<and> ab_target a = Some target \<and> ran_specs (ab_log a) = []
      | Working q specs \<Rightarrow> q = p \<and> ran_specs (ab_log a) @ specs = left
      | Ended s \<Rightarrow> prefix (ran_specs (ab_log a)) left \<and> (s = StDone \<longrightarrow> ran_specs (ab_log a) = left))"

lemma prefix_left: "xs @ ys = zs \<Longrightarrow> prefix xs zs" and prefix_left_snoc: "xs @ y # ys = zs \<Longrightarrow> prefix (xs @ [y]) zs"
  by (auto simp: prefix_def)

lemma retry_preserved:
  assumes "start_index (Some target) p = Inr i"
  shows "auto_invariant budget (retry_inv budget p target (drop i (pl_workers p)))"
proof
  fix a b
  assume "retry_inv budget p target (drop i (pl_workers p)) a" "auto_step budget a b"
  from this(2,1) assms show "retry_inv budget p target (drop i (pl_workers p)) b"
    by cases (auto simp: retry_inv_def logged_def enters_def planned_stage_def intro: prefix_left prefix_left_snoc)
qed

lemma position_distinct:
  "distinct (map f (pre @ x # post)) \<Longrightarrow> position (\<lambda>y. f y = f x) (pre @ x # post) = Some (length pre)"
  by (induction pre) auto

lemma worked_to_target:
  assumes "worked_to target p (spec # rest) log" "distinct (map ws_id (pl_workers p))"
  shows "\<exists>k. start_index (Some (ws_id spec)) p = Inr k \<and> drop k (pl_workers p) = spec # rest"
proof -
  from assms(1) obtain i and runs :: "(worker_spec \<times> worker_result list \<times> worker_result) list"
    where i: "map fst runs @ spec # rest = drop i (pl_workers p)" by (auto simp: worked_to_def)
  let ?pre = "take i (pl_workers p) @ map fst runs"
  have ws: "pl_workers p = ?pre @ spec # rest" using i append_take_drop_id [of i "pl_workers p"] by simp
  with assms(2) have "position (\<lambda>y. ws_id y = ws_id spec) (pl_workers p) = Some (length ?pre)"
    using position_distinct [of ws_id ?pre spec rest] by metis
  moreover have "drop (length ?pre) (pl_workers p) = spec # rest" by (subst ws) simp
  ultimately show ?thesis by (auto simp: start_index_def)
qed

lemma resumed_start:
  assumes "ec_resume_from cfg = Some snap" "ec_initial_replan_reason cfg = None" "ar_plan_versions snap \<noteq> []"
  shows "auto_start cfg =
     \<lparr>ab_stage = Planning (Some (last (ar_plan_versions snap))), ab_version = pl_version (last (ar_plan_versions snap)),
      ab_target = ec_start_at_worker_id cfg, ab_plans = ar_plan_versions snap,
      ab_ledger = ar_worker_results snap, ab_replans = ar_replans_used snap, ab_log = []\<rparr>"
  using assms by (simp add: auto_start_def start_of_def last_plan_def)

lemma agrees_decision:
  assumes "executor_run env cfg w = Some (ResFailed m snap, st)" "ar_status snap = StAwaitingFailureDecision"
  shows "ar_pending_failure snap \<noteq> None"
    and "ar_pending_failure snap = Some fx \<Longrightarrow> calls (as_trace st) = log @ [RanWorker spec prior r] \<Longrightarrow>
      fx = failure_of spec r"
  using executor_path [OF assms(1)] assms(2) by (auto simp: agrees_def)

lemma work_start:
  "work_inv (ec_start_at_worker_id cfg) (auto_start cfg)"
  by (auto simp: work_inv_def auto_start_def start_of_def last_plan_def current_plan_def Let_def split: option.splits)

lemma failure_of_id [simp]: "fx_worker_id (failure_of spec r) = ws_id spec"
  by (simp add: failure_of_def)

subsection \<open>Runs return\<close>

definition env_returns :: "'w auto_env \<Rightarrow> bool" where
  "env_returns env \<longleftrightarrow> (\<forall>req w. ae_generate env req w \<noteq> None) \<and> (\<forall>p w. ae_approve env p w \<noteq> None) \<and>
     (\<forall>spec prior w. ae_run_worker env spec prior w \<noteq> None)"

lemma env_returns_simps:
  assumes "env_returns env"
  shows "ae_generate env req w = None \<longleftrightarrow> False" "ae_approve env p w = None \<longleftrightarrow> False"
    "ae_run_worker env spec prior w = None \<longleftrightarrow> False"
  using assms by (auto simp: env_returns_def)

lemma worker_loop_returns: "env_returns env \<Longrightarrow> worker_loop env specs prior s st = None \<longleftrightarrow> False"
  by (induction specs arbitrary: prior s st)
     (auto simp: env_returns_simps finalize_cancelled_def Let_def split: option.splits prod.splits bool.splits)

lemma auto_round_returns:
  assumes "env_returns env"
  shows "auto_round env cfg v st \<noteq> None"
proof -
  have plan: "plan_phase env cfg v st = None \<longleftrightarrow> False" for v and st :: "'a auto_state"
    using assms by (auto simp: plan_phase_def env_returns_simps Let_def split: option.splits prod.splits bool.splits sum.splits)
  have ask: "approval_phase env cfg n p st = None \<longleftrightarrow> False" for n p and st :: "'a auto_state"
    using assms by (auto simp: approval_phase_def env_returns_simps Let_def split: option.splits prod.splits approval.splits bool.splits)
  have work: "run_workers env cfg v p st = None \<longleftrightarrow> False" for p v and st :: "'a auto_state"
    by (auto simp: run_workers_def worker_loop_returns [OF assms] Let_def split: option.splits sum.splits)
  show ?thesis by (auto simp: auto_round_def plan ask work simp del: not_None_eq split: option.splits sum.splits)
qed

lemma auto_loop_returns: "env_returns env \<Longrightarrow> auto_loop env cfg v st \<noteq> None"
proof (induction env cfg v st rule: auto_loop.induct)
  case (1 env cfg v st)
  with auto_round_returns [OF "1.prems", of cfg v st] show ?case
    by (subst auto_loop.simps) (auto split: option.splits sum.splits)
qed

subsection \<open>Examples\<close>

text \<open>Two workers; the worker call number \<open>fail\<close> runs into its limit of steps, the others go well.\<close>

definition auto_example_worker :: "rstr \<Rightarrow> worker_spec" where
  "auto_example_worker i = \<lparr>ws_id = i, ws_model = ''m'', ws_prompt = ''p'', ws_see_prior = default_see_prior\<rparr>"

definition auto_example_plan :: plan where
  "auto_example_plan = \<lparr>pl_version = 1, pl_reasoning = ''two steps'', pl_workers = [auto_example_worker ''w1'', auto_example_worker ''w2'']\<rparr>"

definition auto_example_result :: "rstr \<Rightarrow> worker_status \<Rightarrow> worker_result" where
  "auto_example_result i s = \<lparr>wr_id = i, wr_model = ''m'', wr_prompt = ''p'', wr_summary = ''s'', wr_tool_count = 0,
     wr_cost_cents = 0, wr_status = s\<rparr>"

definition auto_example_env :: "nat \<Rightarrow> nat auto_env" where
  "auto_example_env fail =
     \<lparr>ae_cancelled = (\<lambda>n. (False, n)), ae_generate = (\<lambda>req n. Some (Inr auto_example_plan, n)),
      ae_approve = (\<lambda>p n. Some (Answered True, n)),
      ae_run_worker = (\<lambda>spec prior n. Some ([], auto_example_result (ws_id spec) (if n = fail then WMaxIterations else WOk), Suc n))\<rparr>"

definition auto_example_cfg :: executor_config where
  "auto_example_cfg = \<lparr>ec_task = ''t'', ec_run_id = ''r'', ec_session_id = ''s'', ec_worker_pool = [], ec_replan_budget = 0,
     ec_resume_from = None, ec_start_at_worker_id = None, ec_initial_replan_reason = None\<rparr>"

lemmas auto_example_defs = auto_example_worker_def auto_example_plan_def auto_example_result_def auto_example_env_def auto_example_cfg_def
lemmas executor_defs = executor_run_def start_vars_of_def start_state_def start_of_def fresh_run_def last_plan_def
  auto_round_def plan_phase_def approval_phase_def run_workers_def start_index_def after_workers_def
  orchestrator_request_of_def plan_event_def auto_prims auto_finals

lemma auto_example_returns: "env_returns (auto_example_env fail)"
  by (simp add: env_returns_def auto_example_env_def)


text \<open>How the run ended, and whom it called: \<open>None\<close> for the orchestrator and the approver.\<close>

definition outline :: "(auto_result \<times> 'w auto_state) option \<Rightarrow> (auto_status \<times> worker_spec option list) option" where
  "outline x = map_option (\<lambda>(r, st). (ar_status (result_run r), map ran_spec (calls (as_trace st)))) x"

lemma auto_example_done:
  "outline (executor_run (auto_example_env 2) auto_example_cfg 0) =
     Some (StDone, [None, None, Some (auto_example_worker ''w1''), Some (auto_example_worker ''w2'')])"
  unfolding executor_run_def
  by (subst auto_loop.simps) (simp add: executor_defs auto_example_defs outline_def Let_def)

lemma auto_example_failed:
  "outline (executor_run (auto_example_env 1) auto_example_cfg 0) =
     Some (StAwaitingFailureDecision, [None, None, Some (auto_example_worker ''w1''), Some (auto_example_worker ''w2'')])"
  unfolding executor_run_def
  by (subst auto_loop.simps) (simp add: executor_defs auto_example_defs outline_def Let_def failure_of_def)

lemma outline_Some:
  "outline x = Some (s, specs) \<Longrightarrow> \<exists>r st. x = Some (r, st) \<and> ar_status (result_run r) = s \<and> map ran_spec (calls (as_trace st)) = specs"
  by (auto simp: outline_def)

lemma auto_example_fresh: "ec_resume_from auto_example_cfg = None"
  by (simp add: auto_example_cfg_def)

subsection \<open>Properties\<close>

text \<open>
  C14: The executor implements the machine. Whatever the orchestrator, the approver, the workers and
  the cancellation token do, a run that returns is a path of the machine from its start to the stage
  of the returned status, with the same ledger, the same count of replans and the same calls to the
  outside in the same order; and the run returned is the state the executor ended in.
\<close>

theorem executor_refines_machine:
  assumes "executor_run env cfg w = Some (r, st)"
  shows "agrees r st \<and>
    (\<exists>a. auto_path (ec_replan_budget cfg) (auto_start cfg) a \<and> ab_stage a = Ended (ar_status (result_run r)) \<and>
       ab_plans a = ar_plan_versions (result_run r) \<and> ab_ledger a = ar_worker_results (result_run r) \<and>
       ab_replans a = ar_replans_used (result_run r) \<and>
       ab_log a = calls (as_trace st))"
  using assms by (rule executor_path)

theorem executor_refines_machine_witness:
  "\<exists>a. auto_path 0 (auto_start auto_example_cfg) a \<and> ab_stage a = Ended StDone"
proof -
  from outline_Some [OF auto_example_done] obtain r and st :: "nat auto_state" where
    run: "executor_run (auto_example_env 2) auto_example_cfg 0 = Some (r, st)" and "ar_status (result_run r) = StDone" by blast
  moreover from executor_refines_machine [OF run] obtain a where "auto_path (ec_replan_budget auto_example_cfg) (auto_start auto_example_cfg) a"
    "ab_stage a = Ended (ar_status (result_run r))" by blast
  ultimately show ?thesis by (auto simp: auto_example_cfg_def)
qed


text \<open>
  C18: An Auto run always returns when the calls it makes do, after at most one request to the
  orchestrator more than the replans its budget still allows; the count of replans never exceeds
  the budget it was given (or the count it was resumed with), so it never wraps.
\<close>

theorem auto_run_is_bounded:
  assumes "env_returns env"
  shows "\<exists>r st. executor_run env cfg w = Some (r, st) \<and>
    length (filter asked (calls (as_trace st))) \<le>
      Suc (unat (ec_replan_budget cfg) - unat (ar_replans_used (fst (start_of cfg)))) \<and>
    unat (ar_replans_used (result_run r)) \<le>
      max (unat (ar_replans_used (fst (start_of cfg)))) (unat (ec_replan_budget cfg))"
proof -
  let ?n = "ar_replans_used (fst (start_of cfg))"
  from auto_loop_returns [OF assms] obtain r st where run: "executor_run env cfg w = Some (r, st)"
    unfolding executor_run_def by fastforce
  have "budget_inv (ec_replan_budget cfg) ?n (auto_start cfg)"
    by (auto simp: budget_inv_def auto_start_def split: prod.splits)
  from budget.run [OF run refl this] obtain a where "budget_inv (ec_replan_budget cfg) ?n a"
    "ab_stage a = Ended (ar_status (result_run r))" "ab_replans a = ar_replans_used (result_run r)"
    "ab_log a = calls (as_trace st)" by metis
  with run show ?thesis by (auto simp: budget_inv_def)
qed

theorem auto_run_is_bounded_witness:
  "\<exists>r st. executor_run (auto_example_env 0) auto_example_cfg 0 = Some (r, st) \<and>
     length (filter asked (calls (as_trace st))) \<le> 1 \<and> ar_replans_used (result_run r) = 0"
  using auto_run_is_bounded [OF auto_example_returns, of 0 auto_example_cfg 0]
  by (auto simp: start_of_def auto_example_cfg_def fresh_run_def unat_eq_0)


lemma list_ex_failed:
  "list_ex failed_call log \<longleftrightarrow>
     (\<exists>spec prior res. RanWorker spec prior res \<in> set log \<and> is_hard_failure (wr_status res))"
  unfolding list_ex_iff by (metis failed_call.elims(2) failed_call.simps(1))

text \<open>
  C15: Nothing works unapproved: in a fresh run every worker starts after the user approved a plan,
  and it is a worker of that plan unless a worker has failed and the task was replanned.
\<close>

theorem no_work_without_approval:
  assumes "executor_run env cfg w = Some (r, st)" "ec_resume_from cfg = None"
    and "calls (as_trace st) = before @ RanWorker spec prior res # after"
  shows "\<exists>p. SoughtApproval p (Answered True) \<in> set before \<and>
    (spec \<in> set (pl_workers p) \<or> (\<exists>spec' prior' res'. RanWorker spec' prior' res' \<in> set before \<and> is_hard_failure (wr_status res')))"
proof -
  have "approved_inv (auto_start cfg)" using assms(2) by (simp add: fresh_start approved_inv_def)
  from approvals.run [OF assms(1) refl this] obtain a where a: "approved_inv a" "ab_log a = calls (as_trace st)" by metis
  then have "each_call (\<lambda>pre x. \<forall>spec prior r. x = RanWorker spec prior r \<longrightarrow> may_work pre spec) (calls (as_trace st))"
    by (simp add: approved_inv_def)
  from each_call_split [OF this assms(3)] obtain p where p: "approved_plan before p"
    "spec \<in> set (pl_workers p) \<or> list_ex failed_call before" by (auto simp: may_work_def)
  then show ?thesis unfolding approved_plan_def list_ex_failed by blast
qed

theorem no_work_without_approval_witness:
  "\<exists>r st before prior res. executor_run (auto_example_env 2) auto_example_cfg 0 = Some (r, st) \<and>
     calls (as_trace st) = before @ [RanWorker (auto_example_worker ''w2'') prior res] \<and>
     (\<exists>p. SoughtApproval p (Answered True) \<in> set before)"
proof -
  from outline_Some [OF auto_example_done] obtain r and st :: "nat auto_state" where
    run: "executor_run (auto_example_env 2) auto_example_cfg 0 = Some (r, st)" and
    "map ran_spec (calls (as_trace st)) = [None, None, Some (auto_example_worker ''w1''), Some (auto_example_worker ''w2'')]"
    by (elim exE conjE) (rule that)
  then obtain before x where x: "calls (as_trace st) = before @ [x]" "ran_spec x = Some (auto_example_worker ''w2'')"
    by (cases "calls (as_trace st)" rule: rev_cases) auto
  then obtain prior res where "x = RanWorker (auto_example_worker ''w2'') prior res" by (cases x) auto
  with x run no_work_without_approval [OF run auto_example_fresh, of before "auto_example_worker ''w2''" prior res "[]"]
  show ?thesis by blast
qed


text \<open>
  C19: The ledger is exact: the results persisted with a run are those it started with, followed by
  the results of all its workers that did not fail hard, in the order they ran; and every worker and
  every request to the orchestrator saw the ledger as it stood then.
\<close>

theorem ledger_is_exact:
  assumes "executor_run env cfg w = Some (r, st)"
  shows "ar_worker_results (result_run r) =
      ar_worker_results (fst (start_of cfg)) @ kept_results (calls (as_trace st)) \<and>
    (\<forall>log x after. calls (as_trace st) = log @ x # after \<longrightarrow>
      (case x of
         RanWorker spec prior res \<Rightarrow> prior = ar_worker_results (fst (start_of cfg)) @ kept_results log
       | Asked req answer \<Rightarrow> oq_prior_results req = ar_worker_results (fst (start_of cfg)) @ kept_results log
       | _ \<Rightarrow> True))"
proof -
  let ?before = "ar_worker_results (fst (start_of cfg))"
  have "ledger_inv ?before (auto_start cfg)" by (auto simp: ledger_inv_def auto_start_def split: prod.splits)
  from ledger.run [OF assms refl this] obtain a where "ledger_inv ?before a"
    "ab_ledger a = ar_worker_results (result_run r)" "ab_log a = calls (as_trace st)" by metis
  then show ?thesis unfolding ledger_inv_def by (auto dest: each_call_split)
qed

theorem ledger_is_exact_witness:
  "\<exists>r st. executor_run (auto_example_env 1) auto_example_cfg 0 = Some (r, st) \<and>
     ar_worker_results (result_run r) = kept_results (calls (as_trace st))"
proof -
  from outline_Some [OF auto_example_failed] obtain r and st :: "nat auto_state" where
    run: "executor_run (auto_example_env 1) auto_example_cfg 0 = Some (r, st)" by blast
  with ledger_is_exact [OF run] show ?thesis
    by (auto simp: start_of_def auto_example_fresh fresh_run_def)
qed


text \<open>
  Done means done: a run reported done has run every worker of its last plan, from the first one
  (from the retried one, if the plan is the saved plan of a retry), in order, each of them well.
\<close>

theorem done_means_all_worked:
  assumes "executor_run env cfg w = Some (ResDone summary run, st)"
  shows "\<exists>i log runs. ar_plan_versions run \<noteq> [] \<and>
    (start_index None (last (ar_plan_versions run)) = Inr i \<or>
     start_index (ec_start_at_worker_id cfg) (last (ar_plan_versions run)) = Inr i) \<and>
    calls (as_trace st) = log @ map call_of runs \<and> (\<forall>(spec, prior, r) \<in> set runs. wr_status r = WOk) \<and>
    map fst runs = drop i (pl_workers (last (ar_plan_versions run)))"
proof -
  from executor_path [OF assms] have "agrees (ResDone summary run) st" by blast
  then have is_done: "ar_status run = StDone" by (auto simp: agrees_def)
  from work.run [OF assms refl work_start] obtain a where "work_inv (ec_start_at_worker_id cfg) a"
    "ab_stage a = Ended (ar_status run)" "ab_plans a = ar_plan_versions run" "ab_log a = calls (as_trace st)"
    by (metis result_run.simps(1))
  with is_done show ?thesis by (fastforce simp: work_inv_def current_plan_def worked_to_def)
qed

theorem done_means_all_worked_witness:
  "\<exists>summary run st. executor_run (auto_example_env 2) auto_example_cfg 0 = Some (ResDone summary run, st) \<and> ar_plan_versions run \<noteq> []"
proof -
  from outline_Some [OF auto_example_done] obtain r and st :: "nat auto_state" where
    run: "executor_run (auto_example_env 2) auto_example_cfg 0 = Some (r, st)" and "ar_status (result_run r) = StDone" by blast
  with executor_path [OF run] obtain summary run where r: "r = ResDone summary run"
    by (cases r) (auto simp: agrees_def)
  with run done_means_all_worked [OF run [unfolded r]] show ?thesis by blast
qed


text \<open>
  A retry takes up the plan at the failed worker. After a run that stopped for the user's decision, a retry asks no
  orchestrator, runs workers of the saved plan only, from the failed one on and in order, all of them when it is
  done, and adds their results to the ledger of the first run.
\<close>

lemma retry_takes_up:
  assumes first: "executor_run env cfg w = Some (ResFailed m snap, st)"
      "ar_status snap = StAwaitingFailureDecision" "ar_pending_failure snap = Some fx"
    and second: "executor_run env' cfg' w' = Some (r, st')" "ec_resume_from cfg' = Some snap"
      "ec_start_at_worker_id cfg' = Some (fx_worker_id fx)" "ec_initial_replan_reason cfg' = None"
      "ec_replan_budget cfg' \<le> ar_replans_used snap"
    and "distinct (map ws_id (pl_workers (last (ar_plan_versions snap))))"
  shows "\<exists>log spec prior res i left. calls (as_trace st) = log @ [RanWorker spec prior res] \<and> fx = failure_of spec res \<and>
    drop i (pl_workers (last (ar_plan_versions snap))) = left \<and> left \<noteq> [] \<and> hd left = spec \<and>
    \<not> list_ex asked (calls (as_trace st')) \<and> prefix (ran_specs (calls (as_trace st'))) left \<and>
    (ar_status (result_run r) = StDone \<longrightarrow> ran_specs (calls (as_trace st')) = left) \<and>
    ar_worker_results (result_run r) = ar_worker_results snap @ kept_results (calls (as_trace st'))"
proof -
  let ?p = "last (ar_plan_versions snap)"
  from work.run [OF first(1) refl work_start] first(2) obtain a where a: "work_inv (ec_start_at_worker_id cfg) a"
    "ab_stage a = Ended StAwaitingFailureDecision" "ab_plans a = ar_plan_versions snap" "ab_log a = calls (as_trace st)"
    by (metis result_run.simps(2))
  then obtain log spec specs res target where plan: "ar_plan_versions snap \<noteq> []" and
      log: "calls (as_trace st) = log @ [RanWorker spec (ab_ledger a) res]" and
      to: "worked_to target ?p (spec # specs) log"
    by (auto simp: work_inv_def current_plan_def)
  have fx: "fx = failure_of spec res" by (rule agrees_decision(2) [OF first(1,2,3) log])
  from worked_to_target [OF to assms(9)] obtain k where
      k: "start_index (Some (ws_id spec)) ?p = Inr k" "drop k (pl_workers ?p) = spec # specs" by blast
  have start: "auto_start cfg' = \<lparr>ab_stage = Planning (Some ?p), ab_version = pl_version ?p,
      ab_target = Some (ws_id spec), ab_plans = ar_plan_versions snap, ab_ledger = ar_worker_results snap,
      ab_replans = ar_replans_used snap, ab_log = []\<rparr>"
    using resumed_start [OF second(2,4) plan] second(3) fx by simp
  then have "retry_inv (ec_replan_budget cfg') ?p (ws_id spec) (spec # specs) (auto_start cfg')"
    using second(5) by (simp add: retry_inv_def)
  from auto_invariant.run [OF retry_preserved [OF k(1), unfolded k(2)] second(1) refl this] obtain b where
      b: "retry_inv (ec_replan_budget cfg') ?p (ws_id spec) (spec # specs) b"
        "ab_stage b = Ended (ar_status (result_run r))" "ab_log b = calls (as_trace st')" by metis
  have "ledger_inv (ar_worker_results snap) (auto_start cfg')" by (simp add: start ledger_inv_def)
  from ledger.run [OF second(1) refl this] have
    "ar_worker_results (result_run r) = ar_worker_results snap @ kept_results (calls (as_trace st'))"
    by (metis ledger_inv_def)
  note led = this
  show ?thesis
    by (intro exI [of _ log] exI [of _ spec] exI [of _ "ab_ledger a"] exI [of _ res] exI [of _ k] exI [of _ "spec # specs"] conjI)
       (use b k(2) log fx led in \<open>simp_all add: retry_inv_def\<close>)
qed

definition auto_example_snap :: auto_run where
  "auto_example_snap =
     \<lparr>ar_id = ''r'', ar_session_id = ''s'', ar_status = StAwaitingFailureDecision, ar_plan_versions = [auto_example_plan],
      ar_worker_results = [auto_example_result ''w1'' WOk], ar_cost_cents = saturating_add (saturating_add 0 0) 0,
      ar_replans_used = 0, ar_current_worker = None,
      ar_pending_failure = Some (failure_of (auto_example_worker ''w2'') (auto_example_result ''w2'' WMaxIterations))\<rparr>"

end
