(* ===== verification/AutoTrace.thy ===== *)
theory AutoTrace
  imports AutoRuns
begin

section \<open>The record of an Auto run\<close>

text \<open>
  What stands on the record around each worker run, and the contract of a worker runner from which
  it follows what the user is shown of a worker.
\<close>

lemma each_call_Cons: "each_call P (x # xs) \<longleftrightarrow> P [] x \<and> each_call (\<lambda>pre. P (x # pre)) xs"
proof
  assume "each_call P (x # xs)"
  then have "\<forall>i < Suc (length xs). P (take i (x # xs)) ((x # xs) ! i)" by (simp add: each_call_def)
  then show "P [] x \<and> each_call (\<lambda>pre. P (x # pre)) xs" by (auto simp: each_call_def dest: spec [of _ 0] spec [of _ "Suc _"])
qed (auto simp: each_call_def less_Suc_eq_0_disj)

lemma each_call_append: "each_call P (xs @ ys) \<longleftrightarrow> each_call P xs \<and> each_call (\<lambda>pre. P (xs @ pre)) ys"
  by (induction xs arbitrary: P) (simp_all add: each_call_Cons)

lemma each_call_emitted: "(\<And>pre ev. P pre (Emitted ev)) \<Longrightarrow> each_call P (map Emitted evs)"
  by (induction evs arbitrary: P) (simp_all add: each_call_Cons)

text \<open>
  A worker's run on the record comes right after its events, and these after a snapshot that shows
  it running; events and result are what the runner returned, and a plan is what the generator did.
\<close>

definition shown :: "'w auto_env \<Rightarrow> auto_action list \<Rightarrow> auto_action \<Rightarrow> bool" where
  "shown env pre x \<longleftrightarrow> (\<forall>spec prior r. x = RanWorker spec prior r \<longrightarrow>
     (\<exists>before run evs w w'. pre = before @ Notified run # map Emitted evs \<and> ar_status run = StRunning \<and>
        ar_current_worker run = Some spec \<and> ar_worker_results run = prior \<and>
        ae_run_worker env spec prior w = Some (evs, r, w'))) \<and>
     (\<forall>req answer. x = Asked req answer \<longrightarrow> (\<exists>w w'. ae_generate env req w = Some (answer, w')))"

lemma shown_simps [simp]:
  "shown env pre (Emitted ev)" "shown env pre (Notified run)"
  "shown env pre (Asked req answer) \<longleftrightarrow> (\<exists>w w'. ae_generate env req w = Some (answer, w'))"
  "shown env pre (SoughtApproval p a)"
  by (simp_all add: shown_def)

lemma shown_RanWorker:
  assumes "ar_status run = StRunning \<and> ar_current_worker run = Some spec" "ar_worker_results run = prior"
    "ae_run_worker env spec prior w = Some (evs, r, w')"
  shows "shown env (before @ Notified run # map Emitted evs) (RanWorker spec prior r)"
  using assms unfolding shown_def by blast

abbreviation all_shown :: "'w auto_env \<Rightarrow> 'w auto_state \<Rightarrow> bool" where
  "all_shown env st \<equiv> each_call (shown env) (as_trace st)"

lemma act_shown: "shown env (as_trace st) a \<Longrightarrow> all_shown env (act a st) \<longleftrightarrow> all_shown env st"
  by (simp add: act_def)

lemma worker_loop_shown:
  "worker_loop env specs prior s st = Some (x, st') \<Longrightarrow> all_shown env st \<Longrightarrow> ar_status (as_run st) = StRunning \<Longrightarrow>
   prior = ar_worker_results (as_run st) \<Longrightarrow> all_shown env st'"
proof (induction specs arbitrary: prior s st)
  case (Cons spec specs)
  have ran: "all_shown env (worker_ran spec prior evs result w1 (worker_started spec (st\<lparr>as_world := w\<rparr>)))"
    if "ae_run_worker env spec prior w = Some (evs, result, w1)" for w evs result w1
  proof -
    let ?run = "(as_run st)\<lparr>ar_current_worker := Some spec\<rparr>"
    have "shown env (as_trace st @ Notified ?run # map Emitted evs) (RanWorker spec prior result)"
      using shown_RanWorker [OF _ _ that, of ?run] Cons.prems(3,4) by simp
    with Cons.prems(2) show ?thesis
      by (auto simp: auto_prims each_call_append each_call_Cons intro!: each_call_emitted)
  qed
  from Cons.prems(1) show ?case
  proof (cases rule: worker_loop_Cons)
    case (polled w)
    then show ?thesis using Cons.prems(2) by (auto simp: auto_finals Let_def notify_def act_shown set_status_def)
  next
    case (cancelled w evs result w1)
    then show ?thesis using ran [OF cancelled(2)]
      by (auto simp: auto_finals Let_def notify_def act_shown set_status_def push_worker_result_def)
  next
    case (failed w evs result w1)
    then show ?thesis using ran [OF failed(2)] by simp
  next
    case (succeeded w evs result w1)
    have "all_shown env (notify (push_worker_result result (worker_ran spec prior evs result w1 (worker_started spec (st\<lparr>as_world := w\<rparr>)))))"
      using ran [OF succeeded(2)] by (simp add: notify_def act_shown push_worker_result_def)
    from Cons.IH [OF succeeded(4) this] Cons.prems(3,4) show ?thesis
      by (simp add: auto_prims)
  qed
qed simp

lemma final_shown [simp]:
  "all_shown env (snd (finalize_done cfg h st)) \<longleftrightarrow> all_shown env st"
  "all_shown env (snd (finalize_failed cfg reason out st)) \<longleftrightarrow> all_shown env st"
  "all_shown env (snd (finalize_cancelled phase st)) \<longleftrightarrow> all_shown env st"
  "all_shown env (snd (finalize_awaiting_failure_decision cfg ctx st)) \<longleftrightarrow> all_shown env st"
  by (simp_all add: auto_finals Let_def notify_def act_shown set_status_def)

lemma plan_phase_shown:
  "plan_phase env cfg v st = Some (x, st') \<Longrightarrow> all_shown env st \<Longrightarrow> all_shown env st'"
  by (auto simp: plan_phase_def auto_prims auto_finals Let_def plan_event_def each_call_append each_call_Cons
      split: option.splits prod.splits bool.splits sum.splits if_splits intro!: exI)

lemma approval_phase_shown:
  "approval_phase env cfg n p st = Some (x, st') \<Longrightarrow> all_shown env st \<Longrightarrow> all_shown env st'"
  by (auto simp: approval_phase_def auto_prims auto_finals Let_def each_call_append each_call_Cons
      split: option.splits prod.splits bool.splits approval.splits if_splits)

lemma after_workers_shown:
  "after_workers cfg v ended st = (x, st') \<Longrightarrow> all_shown env st \<Longrightarrow> all_shown env st'"
  by (auto simp: after_workers_def map_prod_def auto_prims auto_finals Let_def each_call_append each_call_Cons
      split: workers_end.splits if_splits prod.splits)

lemma run_workers_shown:
  assumes "run_workers env cfg v p st = Some (x, st')" "all_shown env st" "av_prior v = ar_worker_results (as_run st)"
  shows "all_shown env st'"
proof -
  let ?st = "notify (set_status StRunning st)"
  have st: "all_shown env ?st" "ar_status (as_run ?st) = StRunning" "av_prior v = ar_worker_results (as_run ?st)"
    using assms(2,3) by (simp_all add: notify_def act_shown set_status_def act_def each_call_append each_call_Cons)
  show ?thesis
  proof (cases "start_index (av_start_at v) p")
    case (Inl m)
    with assms(1) have "st' = snd (finalize_failed cfg m None ?st)" by (auto simp: run_workers_def map_prod_def split: prod.splits)
    with st(1) show ?thesis by simp
  next
    case (Inr i)
    with assms(1) obtain y st2 where wl: "worker_loop env (drop i (pl_workers p)) (av_prior v) None ?st = Some (y, st2)"
      by (auto simp: run_workers_def Let_def split: option.splits)
    from worker_loop_shown [OF wl st] have "all_shown env st2" .
    with assms(1) Inr wl show ?thesis
      by (auto simp: run_workers_def Let_def split: sum.splits intro: after_workers_shown)
  qed
qed

lemma auto_round_shown:
  assumes "auto_round env cfg v st = Some (x, st')" "all_shown env st" "av_prior v = ar_worker_results (as_run st)"
  shows "all_shown env st'"
proof -
  from assms(1) obtain y st1 where p1: "plan_phase env cfg v st = Some (y, st1)"
    by (auto simp: auto_round_def split: option.splits)
  note s1 = plan_phase_shown [OF p1 assms(2)] and l1 = plan_phase_path [OF p1 assms(3), of 0]
  show ?thesis
  proof (cases y)
    case (Inl r)
    with p1 assms(1) s1 show ?thesis by (simp add: auto_round_def)
  next
    case (Inr p)
    with p1 assms(1) obtain z st2 where p2: "approval_phase env cfg (av_version v) p st1 = Some (z, st2)"
      by (auto simp: auto_round_def split: option.splits)
    note s2 = approval_phase_shown [OF p2 s1] and l2 = approval_phase_path [OF p2, of 0 None]
    show ?thesis
    proof (cases z)
      case (Some r)
      with Inr p1 p2 assms(1) s2 show ?thesis by (simp add: auto_round_def)
    next
      case None
      with Inr p1 p2 assms(1) have "run_workers env cfg v p st2 = Some (x, st')" by (simp add: auto_round_def)
      from run_workers_shown [OF this s2] l1 l2 Inr None assms(3) show ?thesis by simp
    qed
  qed
qed

lemma auto_loop_shown:
  "auto_loop env cfg v st = Some (r, st') \<Longrightarrow> all_shown env st \<Longrightarrow> av_prior v = ar_worker_results (as_run st) \<Longrightarrow>
   all_shown env st'"
proof (induction env cfg v st rule: auto_loop.induct)
  case (1 env cfg v st)
  from "1.prems"(1) obtain x st1 where round: "auto_round env cfg v st = Some (x, st1)"
    by (subst (asm) auto_loop.simps) (auto split: option.splits)
  note shown1 = auto_round_shown [OF round "1.prems"(2,3)] and path = auto_round_path [OF round "1.prems"(3)]
  show ?case
  proof (cases x)
    case (Inl res)
    with "1.prems"(1) round shown1 show ?thesis by (subst (asm) auto_loop.simps) simp
  next
    case (Inr v1)
    with "1.prems"(1) round have "auto_loop env cfg v1 st1 = Some (r, st')" by (subst (asm) auto_loop.simps) simp
    with "1.IH" [OF round refl Inr] path Inr shown1 show ?thesis by auto
  qed
qed

lemma executor_shown:
  assumes "executor_run env cfg w = Some (r, st)"
  shows "all_shown env st"
  using assms unfolding executor_run_def
  by (rule auto_loop_shown) (simp_all add: start_state_def start_vars_of_def split: prod.splits)

text \<open>
  The contract of a worker runner: it reports under the worker's name, and what it sends the user is
  bracketed, from the worker's start to its end.
\<close>

locale worker_runner =
  fixes run :: "worker_spec \<Rightarrow> worker_result list \<Rightarrow> 'w \<Rightarrow> (agent_event list \<times> worker_result \<times> 'w) option"
    and bracketed :: "worker_spec \<Rightarrow> worker_result \<Rightarrow> agent_event list \<Rightarrow> bool"
  assumes names: "run spec prior w = Some (evs, r, w') \<Longrightarrow> wr_id r = ws_id spec \<and> wr_model r = ws_model spec \<and> wr_prompt r = ws_prompt spec"
    and brackets: "run spec prior w = Some (evs, r, w') \<Longrightarrow> bracketed spec r evs"
begin

lemma worker_shown:
  assumes "executor_run env cfg w = Some (res, st)" "ae_run_worker env = run"
    and "as_trace st = pre @ RanWorker spec prior r # post"
  shows "wr_id r = ws_id spec \<and> wr_model r = ws_model spec \<and> (\<exists>before snap evs. pre = before @ Notified snap # map Emitted evs \<and>
    ar_status snap = StRunning \<and> ar_current_worker snap = Some spec \<and> ar_worker_results snap = prior \<and> bracketed spec r evs)"
proof -
  from each_call_split [OF executor_shown [OF assms(1)] assms(3)] assms(2) obtain before snap evs w w' where
    "pre = before @ Notified snap # map Emitted evs" "ar_status snap = StRunning" "ar_current_worker snap = Some spec"
    "ar_worker_results snap = prior" "run spec prior w = Some (evs, r, w')" unfolding shown_def by blast
  with names [OF this(5)] brackets [OF this(5)] show ?thesis by blast
qed

end

text \<open>
  The contract of a plan generator: a plan has the version that was asked for and at least one
  worker. From it follows how the versions of a run's plans are numbered.
\<close>

definition answers_ok :: "auto_action list \<Rightarrow> bool" where
  "answers_ok log \<longleftrightarrow>
     list_all (\<lambda>x. case x of Asked req (Inr p) \<Rightarrow> pl_version p = oq_plan_version req \<and> pl_workers p \<noteq> [] | _ \<Rightarrow> True) log"

definition numbered :: "plan list \<Rightarrow> bool" where
  "numbered ps \<longleftrightarrow> map pl_version ps = map word_of_nat [1..<Suc (length ps)] \<and> (\<forall>p \<in> set ps. pl_workers p \<noteq> [])"

definition version_inv :: "auto_abs \<Rightarrow> bool" where
  "version_inv a \<longleftrightarrow> (answers_ok (ab_log a) \<longrightarrow> numbered (ab_plans a) \<and>
     (case ab_stage a of
        Planning saved \<Rightarrow> saved = None \<and> ab_version a = word_of_nat (Suc (length (ab_plans a)))
      | Ended s \<Rightarrow> True
      | _ \<Rightarrow> ab_version a = word_of_nat (length (ab_plans a))))"

lemma numbered_snoc:
  "numbered ps \<Longrightarrow> pl_version p = 1 + word_of_nat (length ps) \<Longrightarrow> pl_workers p \<noteq> [] \<Longrightarrow> numbered (ps @ [p])"
  by (simp add: numbered_def)

interpretation versions: auto_invariant budget version_inv for budget
proof
  fix a b
  assume "version_inv a" "auto_step budget a b"
  from this(2,1) show "version_inv b"
    by cases (auto simp: version_inv_def logged_def enters_def planned_stage_def answers_ok_def intro: numbered_snoc)
qed

locale plan_generator =
  fixes generate :: "orchestrator_request \<Rightarrow> 'w \<Rightarrow> ((orchestrator_error + plan) \<times> 'w) option"
  assumes version: "generate req w = Some (Inr p, w') \<Longrightarrow> pl_version p = oq_plan_version req"
    and workers: "generate req w = Some (Inr p, w') \<Longrightarrow> pl_workers p \<noteq> []"
begin

lemma plans_numbered:
  assumes "executor_run env cfg w = Some (r, st)" "ec_resume_from cfg = None" "ae_generate env = generate"
  shows "numbered (ar_plan_versions (result_run r))"
proof -
  have "answers_ok (calls (as_trace st))"
    unfolding answers_ok_def list_all_iff
  proof
    fix x
    assume "x \<in> set (calls (as_trace st))"
    then obtain pre post where tr: "as_trace st = pre @ x # post"
      by (auto simp: calls_def dest: split_list)
    from each_call_split [OF executor_shown [OF assms(1)] tr] have "shown env pre x" .
    then show "case x of Asked req (Inr p) \<Rightarrow> pl_version p = oq_plan_version req \<and> pl_workers p \<noteq> [] | _ \<Rightarrow> True"
      using assms(3) by (auto simp: version workers split: auto_action.splits sum.splits)
  qed
  moreover have "version_inv (auto_start cfg)"
    using assms(2) by (simp add: fresh_start version_inv_def numbered_def)
  ultimately show ?thesis using versions.run [OF assms(1) refl] by (metis version_inv_def)
qed

end

end
