(* ===== verification/AutoWorker.thy ===== *)
theory AutoWorker
  imports LoopRuns AutoTrace LlmClient
begin

section \<open>The workers of Auto mode (\<open>auto/worker.rs\<close>)\<close>

text \<open>
  \<open>run_worker\<close> runs a fresh agent loop for one worker of a plan: the outputs of earlier workers it may
  see and its task are the user's message, the loop's tool events are passed on under the worker's
  name, and the loop's outcome becomes the worker's status. The surroundings of the n-th worker
  (its provider for a model, the token, the schedule, its session id) come from the context.
\<close>

record worker_world =
  ww_world :: cworld
  ww_runs :: nat

record worker_context =
  wc_session_id :: rstr
  wc_run_id :: rstr
  wc_llm_configs :: "(rstr \<times> client_config) list"
  wc_retry :: retry_config
  wc_compaction :: compaction_config
  wc_max_iterations :: u32
  wc_has_engine :: bool
  wc_persists :: bool
  wc_catalogue :: "rstr \<Rightarrow> tool"
  wc_host :: "nat \<Rightarrow> tool_host"
  wc_env :: "nat \<Rightarrow> client_config \<Rightarrow> loop_env"

definition max_iter_summary_prefix :: rstr where
  "max_iter_summary_prefix = ''Reached maximum of''"

definition admitted :: "see_prior \<Rightarrow> worker_result list \<Rightarrow> worker_result list" where
  "admitted see prior =
     (case see of
        Keyword SeeNone \<Rightarrow> []
      | Keyword SeeAll \<Rightarrow> prior
      | Specific ids \<Rightarrow> filter (\<lambda>r. wr_id r \<in> set ids) prior)"

definition prior_section :: "worker_result \<Rightarrow> rstr" where
  "prior_section r =
     ''<prior_worker id='' @ [CHR 0x22] @ wr_id r @ [CHR 0x22] @ ''>'' @ [nl] @ wr_summary r @ [nl] @
     ''</prior_worker>'' @ [nl, nl]"

definition build_worker_user_message :: "worker_spec \<Rightarrow> worker_result list \<Rightarrow> rstr" where
  "build_worker_user_message spec prior =
     (let included = admitted (ws_see_prior spec) prior
      in if included = [] then ws_prompt spec
         else concat (map prior_section included) @ ''<task>'' @ [nl] @ ws_prompt spec @ [nl] @ ''</task>'')"

definition classify_outcome :: "agent_error + agent_result \<Rightarrow> rstr \<times> worker_status" where
  "classify_outcome outcome =
     (case outcome of
        Inr (Done summary) \<Rightarrow>
          (summary, if starts_with summary max_iter_summary_prefix then WMaxIterations else WOk)
      | Inr (AskUser question options) \<Rightarrow>
          (''worker yielded AskUser unexpectedly: '' @ question,
           WToolError (''unexpected AskUser yield from a worker '' @ em_dash @ '' Auto mode does not pass questions through''))
      | Inr (PlanReady plan path) \<Rightarrow>
          (''worker yielded PlanReady unexpectedly'',
           WToolError (''unexpected PlanReady yield from a worker '' @ em_dash @ '' Auto mode does not surface plans''))
      | Inl e \<Rightarrow>
          if e = Cancelled then (''cancelled'', WCancelled)
          else (''worker failed: '' @ error_text e, WLlmError (error_text e)))"

text \<open>What the drain task passes on to the parent's channel.\<close>

definition relay :: "worker_context \<Rightarrow> rstr \<Rightarrow> agent_event \<Rightarrow> agent_event option" where
  "relay ctx worker_id ev =
     (case ev of
        ToolStart session call_id name args \<Rightarrow>
          Some (AutoWorkerToolStart (wc_session_id ctx) (wc_run_id ctx) worker_id call_id name args)
      | ToolEnd session call_id success summary files \<Rightarrow>
          Some (AutoWorkerToolEnd (wc_session_id ctx) (wc_run_id ctx) worker_id call_id success summary)
      | _ \<Rightarrow> None)"

fun is_tool_end :: "agent_event \<Rightarrow> bool" where
  "is_tool_end (ToolEnd session call_id success summary files) = True"
| "is_tool_end _ = False"

definition worker_start_event :: "worker_context \<Rightarrow> worker_spec \<Rightarrow> agent_event" where
  "worker_start_event ctx spec =
     AutoWorkerStart (wc_session_id ctx) (wc_run_id ctx) (ws_id spec) (ws_model spec) (ws_prompt spec)"

definition worker_end_event :: "worker_context \<Rightarrow> worker_result \<Rightarrow> agent_event" where
  "worker_end_event ctx r =
     AutoWorkerEnd (wc_session_id ctx) (wc_run_id ctx) (wr_id r) (wr_summary r) (wr_cost_cents r) (wr_tool_count r) (wr_status r)"

definition worker_result_of :: "worker_spec \<Rightarrow> rstr \<Rightarrow> u32 \<Rightarrow> worker_status \<Rightarrow> worker_result" where
  "worker_result_of spec summary tool_count status =
     \<lparr>wr_id = ws_id spec, wr_model = ws_model spec, wr_prompt = ws_prompt spec, wr_summary = summary,
      wr_tool_count = tool_count, wr_cost_cents = 0, wr_status = status\<rparr>"

definition unknown_model :: "rstr \<Rightarrow> rstr" where
  "unknown_model model =
     ''model `'' @ model @ ''` is not in the configured worker pool '' @ em_dash @ '' orchestrator picked an unknown model''"

definition child_config :: "worker_context \<Rightarrow> nat \<Rightarrow> loop_config" where
  "child_config ctx n =
     \<lparr>lc_max_iterations = wc_max_iterations ctx, lc_retry = wc_retry ctx, lc_system_prompt = None,
      lc_parent_session = None,
      lc_host = (wc_host ctx n)\<lparr>th_registry := for_mode (wc_catalogue ctx) CodingMode (wc_has_engine ctx) False,
        th_policy := default_policy\<rparr>\<rparr>"

definition child_start :: "worker_context \<Rightarrow> nat \<Rightarrow> cworld \<Rightarrow> loop_state" where
  "child_start ctx n w =
     (let st = with_provider (child_config ctx n) (wc_compaction ctx) w
      in if wc_persists ctx then with_persister st else st)"

text \<open>\<open>None\<close> when the loop crashes or never ends.\<close>

definition run_worker ::
  "worker_context \<Rightarrow> worker_spec \<Rightarrow> worker_result list \<Rightarrow> worker_world \<Rightarrow>
   (agent_event list \<times> worker_result \<times> worker_world) option" where
  "run_worker ctx spec prior w =
     (case map_of (wc_llm_configs ctx) (ws_model spec) of
        None \<Rightarrow>
          let result = worker_result_of spec (unknown_model (ws_model spec)) 0 (WLlmError (unknown_model (ws_model spec)))
          in Some ([worker_start_event ctx spec, worker_end_event ctx result], result, w)
      | Some llm \<Rightarrow>
          (case run_agent (wc_env ctx (ww_runs w) llm) (child_config ctx (ww_runs w))
                  (user_msg (build_worker_user_message spec prior)) (child_start ctx (ww_runs w) (ww_world w)) of
             Some (Returned outcome, st) \<Rightarrow>
               let (summary, status) = classify_outcome outcome;
                   count = word_of_nat (length (filter is_tool_end (ls_events st)));
                   result = worker_result_of spec summary count status
               in Some (worker_start_event ctx spec # List.map_filter (relay ctx (ws_id spec)) (ls_events st) @
                          [worker_end_event ctx result],
                        result, \<lparr>ww_world = ls_world st, ww_runs = Suc (ww_runs w)\<rparr>)
           | _ \<Rightarrow> None))"

subsection \<open>The runner's contract\<close>

definition tool_event_of :: "worker_context \<Rightarrow> rstr \<Rightarrow> agent_event \<Rightarrow> bool" where
  "tool_event_of ctx worker_id ev \<longleftrightarrow>
     (\<exists>call_id name args. ev = AutoWorkerToolStart (wc_session_id ctx) (wc_run_id ctx) worker_id call_id name args) \<or>
     (\<exists>call_id success summary. ev = AutoWorkerToolEnd (wc_session_id ctx) (wc_run_id ctx) worker_id call_id success summary)"

definition bracketed :: "worker_context \<Rightarrow> worker_spec \<Rightarrow> worker_result \<Rightarrow> agent_event list \<Rightarrow> bool" where
  "bracketed ctx spec r evs \<longleftrightarrow> (\<exists>mid. evs = worker_start_event ctx spec # mid @ [worker_end_event ctx r] \<and>
     list_all (tool_event_of ctx (ws_id spec)) mid)"

lemma relay_tool: "relay ctx i ev = Some ev' \<Longrightarrow> tool_event_of ctx i ev'"
  by (cases ev) (auto simp: relay_def tool_event_of_def)

lemma relayed: "list_all (tool_event_of ctx i) (List.map_filter (relay ctx i) evs)"
  by (auto simp: list_all_iff mem_map_filter intro: relay_tool)

lemma worker_result_of_fields [simp]:
  "wr_id (worker_result_of spec s n t) = ws_id spec" "wr_model (worker_result_of spec s n t) = ws_model spec"
  "wr_prompt (worker_result_of spec s n t) = ws_prompt spec"
  by (simp_all add: worker_result_of_def)

lemma run_worker_cases:
  assumes "run_worker ctx spec prior w = Some (evs, r, w')"
  obtains (unknown) "evs = [worker_start_event ctx spec, worker_end_event ctx r]"
      "r = worker_result_of spec (unknown_model (ws_model spec)) 0 (WLlmError (unknown_model (ws_model spec)))"
  | (ran) llm outcome st summary status count where "map_of (wc_llm_configs ctx) (ws_model spec) = Some llm"
      "run_agent (wc_env ctx (ww_runs w) llm) (child_config ctx (ww_runs w))
         (user_msg (build_worker_user_message spec prior)) (child_start ctx (ww_runs w) (ww_world w)) = Some (Returned outcome, st)"
      "classify_outcome outcome = (summary, status)" "r = worker_result_of spec summary count status"
      "evs = worker_start_event ctx spec # List.map_filter (relay ctx (ws_id spec)) (ls_events st) @ [worker_end_event ctx r]"
proof (cases "map_of (wc_llm_configs ctx) (ws_model spec)")
  case None
  with assms show thesis by (intro unknown) (auto simp: run_worker_def Let_def)
next
  case (Some llm)
  with assms obtain outcome st where agent: "run_agent (wc_env ctx (ww_runs w) llm) (child_config ctx (ww_runs w))
      (user_msg (build_worker_user_message spec prior)) (child_start ctx (ww_runs w) (ww_world w)) = Some (Returned outcome, st)"
    by (auto simp: run_worker_def Let_def split: option.splits prod.splits run_end.splits)
  obtain summary status where "classify_outcome outcome = (summary, status)" by fastforce
  with Some assms agent show thesis by (intro ran [OF Some agent]) (auto simp: run_worker_def Let_def)
qed

interpretation live: worker_runner "run_worker ctx" "bracketed ctx" for ctx
proof
  fix spec prior w evs r w'
  assume run: "run_worker ctx spec prior w = Some (evs, r, w')"
  then show "wr_id r = ws_id spec \<and> wr_model r = ws_model spec \<and> wr_prompt r = ws_prompt spec"
    by (cases rule: run_worker_cases) auto
  from run show "bracketed ctx spec r evs"
  proof (cases rule: run_worker_cases)
    case unknown
    then show ?thesis unfolding bracketed_def by (intro exI [of _ "[]"]) simp
  next
    case (ran llm outcome st summary status count)
    then show ?thesis unfolding bracketed_def using relayed by blast
  qed
qed

subsection \<open>Properties\<close>

text \<open>
  The user sees every worker: before a worker's run stands a snapshot that names it as the one
  in flight, with the results the worker may see, and then its own events, bracketed by its start
  and its end, with nothing but its tool calls between them; the result carries its name.
\<close>

theorem every_worker_is_shown:
  assumes "executor_run env cfg w = Some (res, st)" "ae_run_worker env = run_worker ctx"
    and "as_trace st = pre @ RanWorker spec prior r # post"
  shows "wr_id r = ws_id spec \<and> wr_model r = ws_model spec \<and>
    (\<exists>before snap mid. pre = before @ Notified snap # map Emitted (worker_start_event ctx spec # mid @ [worker_end_event ctx r]) \<and>
       ar_status snap = StRunning \<and> ar_current_worker snap = Some spec \<and> ar_worker_results snap = prior \<and>
       list_all (tool_event_of ctx (ws_id spec)) mid)"
  using live.worker_shown [OF assms] unfolding bracketed_def by blast

definition live_example :: worker_context where
  "live_example = \<lparr>wc_session_id = ''s'', wc_run_id = ''r'', wc_llm_configs = [], wc_retry = auto_worker_retry_config,
     wc_compaction = default_compaction_config, wc_max_iterations = 50, wc_has_engine = False, wc_persists = False,
     wc_catalogue = stub_tool, wc_host = (\<lambda>n. lc_host example_cfg), wc_env = (\<lambda>n llm. example_env)\<rparr>"

definition live_env :: "worker_world auto_env" where
  "live_env =
     \<lparr>ae_cancelled = (\<lambda>w. (False, w)), ae_generate = (\<lambda>req w. Some (Inr auto_example_plan, w)),
      ae_approve = auto_approve, ae_run_worker = run_worker live_example\<rparr>"

definition live_world :: worker_world where
  "live_world = \<lparr>ww_world = ls_world example_start, ww_runs = 0\<rparr>"

lemma live_outline:
  "outline (executor_run live_env auto_example_cfg live_world) =
     Some (StAwaitingFailureDecision, [None, None, Some (auto_example_worker ''w1'')])"
  unfolding executor_run_def
  by (subst auto_loop.simps)
     (simp add: executor_defs auto_example_defs outline_def Let_def failure_of_def live_env_def live_example_def
       run_worker_def worker_result_of_def auto_approve_def worker_start_event_def worker_end_event_def)

lemma call_on_trace:
  assumes "map ran_spec (calls tr) = xs" "Some spec \<in> set xs"
  obtains pre prior r post where "tr = pre @ RanWorker spec prior r # post"
proof -
  from assms obtain x where x: "x \<in> set (calls tr)" "ran_spec x = Some spec" by auto
  from x(2) obtain prior r where "x = RanWorker spec prior r" by (cases x) simp_all
  with x have "RanWorker spec prior r \<in> set tr" by (simp add: calls_def)
  from split_list [OF this] that show thesis by blast
qed

theorem every_worker_is_shown_witness:
  "\<exists>res st pre prior r post before snap mid. executor_run live_env auto_example_cfg live_world = Some (res, st) \<and>
     as_trace st = pre @ RanWorker (auto_example_worker ''w1'') prior r # post \<and> wr_id r = ''w1'' \<and>
     pre = before @ Notified snap # map Emitted (worker_start_event live_example (auto_example_worker ''w1'') # mid @
       [worker_end_event live_example r]) \<and> ar_status snap = StRunning"
proof -
  from outline_Some [OF live_outline] obtain res and st :: "worker_world auto_state" where
    run: "executor_run live_env auto_example_cfg live_world = Some (res, st)" and
    calls: "map ran_spec (calls (as_trace st)) = [None, None, Some (auto_example_worker ''w1'')]"
    by (elim exE conjE) (rule that)
  have "Some (auto_example_worker ''w1'') \<in> set [None, None, Some (auto_example_worker ''w1'')]" by simp
  from call_on_trace [OF calls this] obtain pre prior r post where
    tr: "as_trace st = pre @ RanWorker (auto_example_worker ''w1'') prior r # post" .
  have "ae_run_worker live_env = run_worker live_example" by (simp add: live_env_def)
  note shown = every_worker_is_shown [OF run this tr]
  have "ws_id (auto_example_worker ''w1'') = ''w1''" by (simp add: auto_example_worker_def)
  with shown run tr show ?thesis by metis
qed

text \<open>
  A child that used up its rounds is a hard failure: the summary the loop ends with has the prefix
  \<open>classify_outcome\<close> looks for.
\<close>

lemma step_limit_is_hard_failure:
  "is_hard_failure (snd (classify_outcome (Inr (Done (limit_summary cfg)))))"
  by (simp add: classify_outcome_def limit_summary_def max_iter_summary_prefix_def starts_with_def)

text \<open>An honest answer with that prefix is taken for one, too.\<close>

lemma honest_answer_misclassified:
  "is_hard_failure (snd (classify_outcome (Inr (Done ''Reached maximum of the sequence: 7.''))))"
  by (simp add: classify_outcome_def max_iter_summary_prefix_def starts_with_def)

text \<open>
  A task with a character across its 100th byte takes the whole run down: the child loop's preview of
  the user's message panics.
\<close>

lemma worker_prompt_crashes:
  assumes "map_of (wc_llm_configs ctx) (ws_model spec) = Some llm"
    "user_text_preview (user_msg (build_worker_user_message spec prior)) = None"
  shows "run_worker ctx spec prior w = None"
  using assms by (simp add: run_worker_def run_agent_def run_inner_def)

end
