(* ===== verification/Orchestrator.thy ===== *)
theory Orchestrator
  imports AutoTrace LlmClient
begin

section \<open>The orchestrator (\<open>auto/orchestrator.rs\<close>, \<open>auto/schema.rs\<close>)\<close>

text \<open>
  \<open>generate_plan\<close>: the prompt from the pool, the task and the earlier results, one forced call of
  \<open>submit_plan\<close> per attempt, and the plan read back from its arguments. The transport, the reading and
  printing of JSON text and the decoding of a worker from JSON (\<open>serde\<close>'s derived code) are
  parameters; the text of the system prompt is the template argument.
\<close>

subsection \<open>The schema\<close>

definition submit_plan_tool_name :: rstr where "submit_plan_tool_name = ''submit_plan''"

definition submit_plan_description :: rstr where
  "submit_plan_description =
     ''Submit the worker plan for this task. The plan is an ordered list of workers; each worker has a model id, a natural-language prompt, and a see_prior field declaring which prior worker outputs it may consume.''"

definition see_prior_choices :: json where
  "see_prior_choices =
     JArr [JObj [(''enum'', JArr [JStr ''none'', JStr ''all'']), (''type'', JStr ''string'')],
           JObj [(''items'', JObj [(''type'', JStr ''string'')]), (''type'', JStr ''array'')]]"

definition reasoning_schema :: json where
  "reasoning_schema = JObj [(''description'', JStr ''Brief why-this-plan rationale (1-3 sentences).''), (''type'', JStr ''string'')]"

definition worker_fields :: json where
  "worker_fields = JArr [JStr ''id'', JStr ''model'', JStr ''prompt'', JStr ''see_prior'']"

definition submit_plan_input_schema :: json where
  "submit_plan_input_schema =
     JObj [(''additionalProperties'', JBool False),
       (''properties'', JObj [
          (''plan'', JObj [
             (''items'', JObj [
                (''additionalProperties'', JBool False),
                (''properties'', JObj [
                   (''id'', JObj [(''pattern'', JStr ''^w[0-9]+$''), (''type'', JStr ''string'')]),
                   (''model'', JObj [(''type'', JStr ''string'')]),
                   (''prompt'', JObj [(''minLength'', JInt 1), (''type'', JStr ''string'')]),
                   (''see_prior'', JObj [(''oneOf'', see_prior_choices)])]),
                (''required'', worker_fields),
                (''type'', JStr ''object'')]),
             (''minItems'', JInt 1),
             (''type'', JStr ''array'')]),
          (''reasoning'', reasoning_schema)]),
       (''required'', JArr [JStr ''reasoning'', JStr ''plan'']),
       (''type'', JStr ''object'')]"

definition submit_plan_input_schema_strict :: json where
  "submit_plan_input_schema_strict =
     JObj [(''additionalProperties'', JBool False),
       (''properties'', JObj [
          (''plan'', JObj [
             (''items'', JObj [
                (''additionalProperties'', JBool False),
                (''properties'', JObj [
                   (''id'', JObj [
                      (''description'', JStr (''Stable id like '' @ quoted ''w1'' @ '', '' @ quoted ''w2'' @ '', sequential starting at w1.'')),
                      (''type'', JStr ''string'')]),
                   (''model'', JObj [(''type'', JStr ''string'')]),
                   (''prompt'', JObj [(''type'', JStr ''string'')]),
                   (''see_prior'', JObj [(''anyOf'', see_prior_choices)])]),
                (''required'', worker_fields),
                (''type'', JStr ''object'')]),
             (''type'', JStr ''array'')]),
          (''reasoning'', reasoning_schema)]),
       (''required'', JArr [JStr ''reasoning'', JStr ''plan'']),
       (''type'', JStr ''object'')]"

definition submit_plan_tool :: tool_definition where
  "submit_plan_tool =
     \<lparr>td_type = ''function'',
      td_function = \<lparr>fd_name = submit_plan_tool_name, fd_description = Some submit_plan_description,
        fd_parameters = Some submit_plan_input_schema, fd_strict = None\<rparr>,
      td_cache_control = None\<rparr>"

definition submit_plan_tool_strict :: tool_definition where
  "submit_plan_tool_strict =
     \<lparr>td_type = ''function'',
      td_function = \<lparr>fd_name = submit_plan_tool_name, fd_description = Some submit_plan_description,
        fd_parameters = Some submit_plan_input_schema_strict, fd_strict = Some True\<rparr>,
      td_cache_control = None\<rparr>"

subsection \<open>The prompt\<close>

definition pool_line :: "pool_entry \<Rightarrow> rstr" where
  "pool_line e = ''- `'' @ pe_model e @ ''` ('' @ pe_provider_id e @ '') '' @ em_dash @ '' '' @ pe_description e"

definition format_system_prompt :: "rstr \<Rightarrow> pool_entry list \<Rightarrow> rstr" where
  "format_system_prompt template pool =
     str_replace template ''{{worker_pool_listing}}''
       (if pool = [] then ''(empty '' @ em_dash @ '' caller must reject before this point)''
        else join [nl] (map pool_line pool))"

definition prior_output :: "worker_result \<Rightarrow> rstr" where
  "prior_output r =
     ''## `'' @ wr_id r @ ''` (model: `'' @ wr_model r @ ''`) '' @ em_dash @ '' status: '' @
     status_label (wr_status r) @ [nl, nl] @ wr_summary r @ [nl, nl]"

definition replan_instructions :: rstr where
  "replan_instructions =
     [nl, nl] @ ''Revise the REMAINING plan. Workers already completed (status ok) will not re-execute. Add new workers (`w<next>+`) or reissue the failed worker with a corrected prompt. Reuse a failed worker'' @
     [CHR 0x27] @ ''s id if you want it to replace the failed attempt.'' @ [nl]"

definition format_user_message :: "orchestrator_request \<Rightarrow> rstr" where
  "format_user_message req =
     (if oq_prior_results req = [] \<and> oq_replan_reason req = None
      then ''# Task'' @ [nl, nl] @ oq_task req @ [nl]
      else ''# Task'' @ [nl, nl] @ oq_task req @ [nl, nl] @
        (if oq_prior_results req = [] then []
         else ''# Prior worker outputs'' @ [nl, nl] @ concat (map prior_output (oq_prior_results req))) @
        (case oq_replan_reason req of
           None \<Rightarrow> []
         | Some reason \<Rightarrow> ''# Replan reason'' @ [nl, nl] @ reason @ replan_instructions))"

definition build_orchestrator_messages :: "rstr \<Rightarrow> orchestrator_request \<Rightarrow> rstr \<times> rstr" where
  "build_orchestrator_messages template req =
     (format_system_prompt template (oq_worker_pool req), format_user_message req)"

subsection \<open>Reading the plan\<close>

record plan_host =
  ph_client_error :: "rstr option"
  ph_parse_json :: "rstr \<Rightarrow> rstr + json"
  ph_decode_worker :: "json \<Rightarrow> rstr + worker_spec"
  ph_status_text :: "nat \<Rightarrow> rstr"

text \<open>The collected \<open>Result\<close> of the workers: the first that does not decode is the error.\<close>

fun decode_workers :: "plan_host \<Rightarrow> nat \<Rightarrow> json list \<Rightarrow> rstr + worker_spec list" where
  "decode_workers host i [] = Inr []"
| "decode_workers host i (w # ws) =
     (case ph_decode_worker host w of
        Inl e \<Rightarrow> Inl (''worker['' @ nat_str i @ ''] shape invalid: '' @ e)
      | Inr spec \<Rightarrow>
          (case decode_workers host (Suc i) ws of
             Inl e \<Rightarrow> Inl e
           | Inr specs \<Rightarrow> Inr (spec # specs)))"

text \<open>The plan's array: as it should be, or wrapped in a string.\<close>

definition plan_array :: "plan_host \<Rightarrow> json \<Rightarrow> rstr + json list" where
  "plan_array host v =
     (case v of
        JArr arr \<Rightarrow> Inr arr
      | JStr s \<Rightarrow>
          (case ph_parse_json host s of
             Inl e \<Rightarrow> Inl (''`plan` field was a string that failed to re-parse as JSON: '' @ e)
           | Inr owned \<Rightarrow>
               (case as_array owned of
                  Some arr \<Rightarrow> Inr arr
                | None \<Rightarrow> Inl (''`plan` was a string but didn'' @ [CHR 0x27] @ ''t contain a JSON array'')))
      | other \<Rightarrow> Inl (''`plan` field must be an array (or stringified array); got '' @ json_type_name other))"

definition parse_plan_from_tool_input :: "plan_host \<Rightarrow> json \<Rightarrow> u32 \<Rightarrow> rstr + plan" where
  "parse_plan_from_tool_input host input version =
     (case get_str ''reasoning'' input of
        None \<Rightarrow> Inl ''missing `reasoning` field (must be string)''
      | Some reasoning \<Rightarrow>
          (case jget ''plan'' input of
             None \<Rightarrow> Inl ''missing `plan` field''
           | Some plan_value \<Rightarrow>
               (case plan_array host plan_value of
                  Inl e \<Rightarrow> Inl e
                | Inr [] \<Rightarrow> Inl ''`plan` array is empty; orchestrator must return at least one worker''
                | Inr arr \<Rightarrow>
                    (case decode_workers host 0 arr of
                       Inl e \<Rightarrow> Inl e
                     | Inr workers \<Rightarrow>
                         Inr \<lparr>pl_version = version, pl_reasoning = reasoning, pl_workers = workers\<rparr>))))"

subsection \<open>The call\<close>

record plan_http =
  pq_url :: rstr
  pq_headers :: "(rstr \<times> rstr) list"
  pq_body :: json

text \<open>What the transport answers: a failure, cancellation first, or a status with a body or the error of reading it.\<close>

datatype http_reply = SendError rstr | CancelledFirst | Reply nat "rstr + rstr"

definition plan_max_tokens :: u32 where "plan_max_tokens = 4096"
definition parse_retry_budget :: nat where "parse_retry_budget = 2"

definition opt_json :: "('a \<Rightarrow> json) \<Rightarrow> 'a option \<Rightarrow> json" where
  "opt_json f x = (case x of None \<Rightarrow> JNull | Some v \<Rightarrow> f v)"

definition chat_turn :: "rstr \<Rightarrow> rstr \<Rightarrow> json" where
  "chat_turn role content = JObj [(''content'', JStr content), (''role'', JStr role)]"

definition anthropic_plan_http :: "client_config \<Rightarrow> rstr \<Rightarrow> rstr \<Rightarrow> plan_http" where
  "anthropic_plan_http llm system user =
     (let f = td_function submit_plan_tool
      in \<lparr>pq_url = trim_end_matches (CHR ''/'') (cl_base_url llm) @ ''/v1/messages'',
          pq_headers = [(''content-type'', ''application/json''), (''anthropic-version'', anthropic_version)] @
            (if cl_api_key llm = [] then [] else [(''x-api-key'', cl_api_key llm)]) @ cl_extra_headers llm,
          pq_body = JObj [
            (''max_tokens'', JInt (uint (case cl_max_completion_tokens llm of Some n \<Rightarrow> n | None \<Rightarrow> plan_max_tokens))),
            (''messages'', JArr [chat_turn ''user'' user]),
            (''model'', JStr (cl_model llm)),
            (''stream'', JBool False),
            (''system'', JStr system),
            (''tool_choice'', JObj [(''name'', JStr submit_plan_tool_name), (''type'', JStr ''tool'')]),
            (''tools'', JArr [JObj [(''description'', opt_json JStr (fd_description f)),
               (''input_schema'', opt_json id (fd_parameters f)), (''name'', JStr (fd_name f))]])]\<rparr>)"

text \<open>The serialised tool definition: absent fields are skipped.\<close>

definition tool_json :: "tool_definition \<Rightarrow> json" where
  "tool_json t =
     (let f = td_function t
      in JObj [(''function'', JObj (
             (case fd_description f of None \<Rightarrow> [] | Some d \<Rightarrow> [(''description'', JStr d)]) @
             [(''name'', JStr (fd_name f))] @
             (case fd_parameters f of None \<Rightarrow> [] | Some p \<Rightarrow> [(''parameters'', p)]) @
             (case fd_strict f of None \<Rightarrow> [] | Some b \<Rightarrow> [(''strict'', JBool b)]))),
           (''type'', JStr (td_type t))])"

definition openai_plan_http :: "client_config \<Rightarrow> rstr \<Rightarrow> rstr \<Rightarrow> plan_http" where
  "openai_plan_http llm system user =
     \<lparr>pq_url = trim_end_matches (CHR ''/'') (cl_base_url llm) @ ''/chat/completions'',
      pq_headers = [(''content-type'', ''application/json'')] @
        (if cl_api_key llm = [] then [] else [(''authorization'', ''Bearer '' @ cl_api_key llm)]) @ cl_extra_headers llm,
      pq_body = JObj [
        (''messages'', JArr [chat_turn ''system'' system, chat_turn ''user'' user]),
        (''model'', JStr (cl_model llm)),
        (''stream'', JBool False),
        (''tool_choice'', JObj [(''function'', JObj [(''name'', JStr submit_plan_tool_name)]), (''type'', JStr ''function'')]),
        (''tools'', JArr [tool_json submit_plan_tool_strict])]\<rparr>"

text \<open>The body of an error status is cut at 500 bytes for the message: a panic inside a character.\<close>

definition parse_http_response ::
  "plan_host \<Rightarrow> nat \<Rightarrow> rstr + rstr \<Rightarrow> (orchestrator_error + json) option" where
  "parse_http_response host status body =
     (case body of
        Inl e \<Rightarrow> Some (Inl (OrchHttp (''read response body: '' @ e)))
      | Inr txt \<Rightarrow>
          if \<not> (200 \<le> status \<and> status < 300) then
            (case str_slice txt 0 (min (length txt) 500) of
               None \<Rightarrow> None
             | Some part \<Rightarrow> Some (Inl (OrchHttp (''HTTP '' @ ph_status_text host status @ '': '' @ part))))
          else
            (case ph_parse_json host txt of
               Inl e \<Rightarrow> Some (Inl (OrchHttp (''parse response JSON: '' @ e)))
             | Inr v \<Rightarrow> Some (Inr v)))"

fun find_submit_block :: "json list \<Rightarrow> orchestrator_error + json" where
  "find_submit_block [] =
     Inl (NoToolUse ''no submit_plan tool_use in response (model may have refused / replied as text)'')"
| "find_submit_block (block # blocks) =
     (if get_str ''type'' block = Some ''tool_use'' \<and> get_str ''name'' block = Some submit_plan_tool_name then
        (case jget ''input'' block of
           Some input \<Rightarrow> Inr input
         | None \<Rightarrow> Inl (NoToolUse ''tool_use block has no `input`''))
      else find_submit_block blocks)"

definition extract_anthropic_tool_input :: "json \<Rightarrow> orchestrator_error + json" where
  "extract_anthropic_tool_input resp =
     (case get_array ''content'' resp of
        None \<Rightarrow> Inl (NoToolUse ''response missing `content` array'')
      | Some content \<Rightarrow> find_submit_block content)"

text \<open>\<open>Value::pointer\<close> over its tokens.\<close>

fun json_pointer :: "rstr list \<Rightarrow> json \<Rightarrow> json option" where
  "json_pointer [] v = Some v"
| "json_pointer (t # ts) v =
     (case v of
        JObj kvs \<Rightarrow> Option.bind (map_of kvs t) (json_pointer ts)
      | JArr xs \<Rightarrow>
          if t \<noteq> [] \<and> (hd t = CHR ''+'' \<or> hd t = CHR ''0'' \<and> tl t \<noteq> []) then None
          else (case parse_unsigned 64 t of
                  Some i \<Rightarrow> if i < length xs then json_pointer ts (xs ! i) else None
                | None \<Rightarrow> None)
      | _ \<Rightarrow> None)"

fun find_submit_call :: "plan_host \<Rightarrow> json list \<Rightarrow> orchestrator_error + json" where
  "find_submit_call host [] = Inl (NoToolUse ''no submit_plan in tool_calls (model may have refused)'')"
| "find_submit_call host (call # tool_calls) =
     (if Option.bind (json_pointer [''function'', ''name''] call) as_str = Some submit_plan_tool_name then
        (case Option.bind (json_pointer [''function'', ''arguments''] call) as_str of
           None \<Rightarrow> Inl (NoToolUse ''submit_plan tool_call has no string `function.arguments`'')
         | Some args \<Rightarrow>
             (case ph_parse_json host args of
                Inl e \<Rightarrow> Inl (NoToolUse (''submit_plan arguments are not valid JSON: '' @ e))
              | Inr v \<Rightarrow> Inr v))
      else find_submit_call host tool_calls)"

definition extract_openai_tool_input :: "plan_host \<Rightarrow> json \<Rightarrow> orchestrator_error + json" where
  "extract_openai_tool_input host resp =
     (case Option.bind (json_pointer [''choices'', ''0'', ''message'', ''tool_calls''] resp) as_array of
        None \<Rightarrow> Inl (NoToolUse ''response missing /choices/0/message/tool_calls'')
      | Some tool_calls \<Rightarrow> find_submit_call host tool_calls)"

definition received ::
  "plan_host \<Rightarrow> (json \<Rightarrow> orchestrator_error + json) \<Rightarrow> http_reply \<Rightarrow> (orchestrator_error + json) option" where
  "received host extract reply =
     (case reply of
        SendError e \<Rightarrow> Some (Inl (OrchHttp e))
      | CancelledFirst \<Rightarrow> Some (Inl OrchCancelled)
      | Reply status body \<Rightarrow>
          (case parse_http_response host status body of
             None \<Rightarrow> None
           | Some (Inl e) \<Rightarrow> Some (Inl e)
           | Some (Inr v) \<Rightarrow> Some (extract v)))"

definition call_provider ::
  "plan_host \<Rightarrow> (plan_http \<Rightarrow> 'w \<Rightarrow> http_reply \<times> 'w) \<Rightarrow> client_config \<Rightarrow> rstr \<Rightarrow> rstr \<Rightarrow> 'w \<Rightarrow>
   (orchestrator_error + json) option \<times> 'w" where
  "call_provider host send llm system user w =
     (case cl_provider llm of
        Anthropic \<Rightarrow>
          (case send (anthropic_plan_http llm system user) w of
             (reply, w1) \<Rightarrow> (received host extract_anthropic_tool_input reply, w1))
      | OpenAI \<Rightarrow>
          (case send (openai_plan_http llm system user) w of
             (reply, w1) \<Rightarrow> (received host (extract_openai_tool_input host) reply, w1)))"

text \<open>The attempts: only an answer that does not read as a plan is asked for again.\<close>

fun plan_attempts ::
  "plan_host \<Rightarrow> (plan_http \<Rightarrow> 'w \<Rightarrow> http_reply \<times> 'w) \<Rightarrow> client_config \<Rightarrow> rstr \<Rightarrow> rstr \<Rightarrow> u32 \<Rightarrow> nat \<Rightarrow> rstr \<Rightarrow> 'w \<Rightarrow>
   ((orchestrator_error + plan) \<times> 'w) option" where
  "plan_attempts host send llm system user version 0 last_error w =
     Some (Inl (ParseFailed (word_of_nat (parse_retry_budget + 1)) last_error), w)"
| "plan_attempts host send llm system user version (Suc n) last_error w =
     (case call_provider host send llm system user w of
        (None, w1) \<Rightarrow> None
      | (Some (Inl e), w1) \<Rightarrow> Some (Inl e, w1)
      | (Some (Inr input), w1) \<Rightarrow>
          (case parse_plan_from_tool_input host input version of
             Inr p \<Rightarrow> Some (Inr p, w1)
           | Inl e \<Rightarrow> plan_attempts host send llm system user version n e w1))"

definition generate_plan ::
  "plan_host \<Rightarrow> (plan_http \<Rightarrow> 'w \<Rightarrow> http_reply \<times> 'w) \<Rightarrow> rstr \<Rightarrow> client_config \<Rightarrow> orchestrator_request \<Rightarrow> 'w \<Rightarrow>
   ((orchestrator_error + plan) \<times> 'w) option" where
  "generate_plan host send template llm req w =
     (if oq_worker_pool req = [] then Some (Inl EmptyWorkerPool, w)
      else (case build_orchestrator_messages template req of
              (system, user) \<Rightarrow>
                (case ph_client_error host of
                   Some e \<Rightarrow> Some (Inl (OrchHttp (''build http client: '' @ e)), w)
                 | None \<Rightarrow>
                     plan_attempts host send llm system user (oq_plan_version req) (parse_retry_budget + 1)
                       ''unknown parse error'' w)))"

subsection \<open>The generator's contract\<close>

lemma decode_workers_length: "decode_workers host i ws = Inr specs \<Longrightarrow> length specs = length ws"
  by (induction ws arbitrary: i specs) (auto split: sum.splits)

lemma parsed_plan:
  assumes "parse_plan_from_tool_input host input version = Inr p"
  shows "pl_version p = version \<and> pl_workers p \<noteq> []"
  using assms by (auto simp: parse_plan_from_tool_input_def split: option.splits sum.splits list.splits prod.splits)

lemma plan_attempts_contract:
  "plan_attempts host send llm system user version n e w = Some (Inr p, w') \<Longrightarrow>
   pl_version p = version \<and> pl_workers p \<noteq> []"
proof (induction n arbitrary: e w)
  case (Suc n)
  then show ?case by (auto split: prod.splits option.splits sum.splits dest: parsed_plan)
qed simp

interpretation planner: plan_generator "generate_plan host send template llm" for host send template llm
proof
  fix req w p w'
  assume "generate_plan host send template llm req w = Some (Inr p, w')"
  then have "pl_version p = oq_plan_version req \<and> pl_workers p \<noteq> []"
    by (auto simp: generate_plan_def simp del: plan_attempts.simps split: if_splits prod.splits option.splits
        dest: plan_attempts_contract)
  then show "pl_version p = oq_plan_version req" "pl_workers p \<noteq> []" by simp_all
qed

subsection \<open>Properties\<close>

text \<open>
  The plans of a fresh run are numbered from 1 without gaps (modulo the 32-bit counter), however
  often the task is replanned and whatever the provider answers, and none of them is empty.
\<close>

theorem plan_versions_count_up:
  assumes "executor_run env cfg w = Some (r, st)" "ec_resume_from cfg = None"
    and "ae_generate env = generate_plan host send template llm"
  shows "map pl_version (ar_plan_versions (result_run r)) = map word_of_nat [1..<Suc (length (ar_plan_versions (result_run r)))] \<and>
    (\<forall>p \<in> set (ar_plan_versions (result_run r)). pl_workers p \<noteq> [])"
  using planner.plans_numbered [OF assms] unfolding numbered_def .

definition plan_host_example :: "rstr \<Rightarrow> json \<Rightarrow> rstr \<Rightarrow> json \<Rightarrow> plan_host" where
  "plan_host_example body envelope txt v =
     \<lparr>ph_client_error = None,
      ph_parse_json = (\<lambda>s. if s = body then Inr envelope else if s = txt then Inr v else Inl ''not JSON''),
      ph_decode_worker = (\<lambda>j. case get_str ''id'' j of Some i \<Rightarrow> Inr (auto_example_worker i) | None \<Rightarrow> Inl ''no id''),
      ph_status_text = (\<lambda>n. nat_str n)\<rparr>"

definition planned_env :: "rstr \<Rightarrow> nat auto_env" where
  "planned_env body = (auto_example_env 5)\<lparr>ae_generate :=
     generate_plan (plan_host_example body JNull [] JNull) (\<lambda>http n. (Reply 200 (Inr body), Suc n)) [] example_client\<rparr>"

theorem plan_versions_count_up_witness:
  "\<exists>r st. executor_run (planned_env ''x'') auto_example_cfg 0 = Some (r, st) \<and>
     (\<forall>p \<in> set (ar_plan_versions (result_run r)). pl_workers p \<noteq> [])"
proof -
  have gen: "ae_generate (planned_env ''x'') req n \<noteq> None" for req n
    by (auto simp: planned_env_def generate_plan_def build_orchestrator_messages_def plan_host_example_def
        parse_retry_budget_def numeral_2_eq_2 call_provider_def received_def parse_http_response_def
        extract_anthropic_tool_input_def extract_openai_tool_input_def get_array_def
        split: provider.splits)
  then have "env_returns (planned_env ''x'')"
    by (auto simp: env_returns_def planned_env_def auto_example_env_def)
  from auto_loop_returns [OF this] obtain r and st :: "nat auto_state" where
    run: "executor_run (planned_env ''x'') auto_example_cfg 0 = Some (r, st)" unfolding executor_run_def by fastforce
  have "ae_generate (planned_env ''x'') = generate_plan (plan_host_example ''x'' JNull [] JNull) (\<lambda>http n. (Reply 200 (Inr ''x''), Suc n)) [] example_client"
    by (simp add: planned_env_def)
  from plan_versions_count_up [OF run auto_example_fresh this] run show ?thesis by blast
qed

text \<open>What carries the submitted input in each provider's answer.\<close>

definition plan_envelope :: "provider \<Rightarrow> rstr \<Rightarrow> json \<Rightarrow> json" where
  "plan_envelope prov args input =
     (case prov of
        Anthropic \<Rightarrow> JObj [(''content'', JArr [JObj [(''input'', input), (''name'', JStr ''submit_plan''), (''type'', JStr ''tool_use'')]])]
      | OpenAI \<Rightarrow> JObj [(''choices'', JArr [JObj [(''message'', JObj [(''tool_calls'',
          JArr [JObj [(''function'', JObj [(''arguments'', JStr args), (''name'', JStr ''submit_plan'')])]])])]])])"

lemma decode_encoded:
  "list_all (\<lambda>s. ph_decode_worker host (enc s) = Inr s) specs \<Longrightarrow> decode_workers host i (map enc specs) = Inr specs"
  by (induction specs arbitrary: i) auto

lemma extract_anthropic_envelope: "extract_anthropic_tool_input (plan_envelope Anthropic args input) = Inr input"
  by (simp add: extract_anthropic_tool_input_def plan_envelope_def get_array_def get_str_def submit_plan_tool_name_def)

lemma parse_zero: "parse_unsigned 64 ''0'' = Some 0"
  by (simp add: parse_unsigned_def is_digit_def byte_val_def)

lemma extract_openai_envelope:
  assumes "ph_parse_json host args = Inr input"
  shows "extract_openai_tool_input host (plan_envelope OpenAI args input) = Inr input"
  using assms by (simp add: extract_openai_tool_input_def plan_envelope_def parse_zero submit_plan_tool_name_def)

text \<open>
  C39: A submitted plan is read back exactly: over either provider, with the workers given as an array
  or (as models do) as an array printed into a string, the first answer already yields the plan's
  reasoning and its workers in order, under the version the executor asked for.
\<close>

theorem submitted_plan_read_back:
  assumes "ph_client_error host = None" "oq_worker_pool req \<noteq> []" "specs \<noteq> []"
    and "list_all (\<lambda>s. ph_decode_worker host (enc s) = Inr s) specs"
    and "plan_value = JArr (map enc specs) \<or>
      (\<exists>txt. plan_value = JStr txt \<and> ph_parse_json host txt = Inr (JArr (map enc specs)))"
    and "input = JObj [(''plan'', plan_value), (''reasoning'', JStr reasoning)]"
    and "ph_parse_json host args = Inr input"
    and "ph_parse_json host body = Inr (plan_envelope (cl_provider llm) args input)"
    and "\<forall>http. send http w = (Reply 200 (Inr body), w1)"
  shows "generate_plan host send template llm req w =
    Some (Inr \<lparr>pl_version = oq_plan_version req, pl_reasoning = reasoning, pl_workers = specs\<rparr>, w1)"
proof -
  have arr: "plan_array host plan_value = Inr (map enc specs)"
    using assms(5) by (auto simp: plan_array_def)
  have parsed: "parse_plan_from_tool_input host input (oq_plan_version req) =
      Inr \<lparr>pl_version = oq_plan_version req, pl_reasoning = reasoning, pl_workers = specs\<rparr>"
    using assms(3) arr decode_encoded [OF assms(4)]
    by (cases specs) (auto simp: parse_plan_from_tool_input_def assms(6) get_str_def)
  have "call_provider host send llm system user w = (Some (Inr input), w1)" for system user
    using assms(7,8,9) extract_anthropic_envelope [of args input] extract_openai_envelope [OF assms(7)]
    by (cases "cl_provider llm") (simp_all add: call_provider_def received_def parse_http_response_def)
  then show ?thesis
    using assms(1,2) parsed by (simp add: generate_plan_def build_orchestrator_messages_def)
qed

theorem submitted_plan_read_back_witness:
  "generate_plan
     (plan_host_example ''body'' (plan_envelope Anthropic ''args''
        (JObj [(''plan'', JArr [JObj [(''id'', JStr ''w1'')]]), (''reasoning'', JStr ''why'')])) ''args''
        (JObj [(''plan'', JArr [JObj [(''id'', JStr ''w1'')]]), (''reasoning'', JStr ''why'')]))
     (\<lambda>http w. (Reply 200 (Inr ''body''), w)) [] (example_client\<lparr>cl_provider := Anthropic\<rparr>)
     \<lparr>oq_task = ''t'', oq_worker_pool = [\<lparr>pe_provider_id = ''p'', pe_model = ''m'', pe_description = ''d''\<rparr>],
      oq_prior_results = [], oq_replan_reason = None, oq_plan_version = 1\<rparr> (0 :: nat) =
   Some (Inr \<lparr>pl_version = 1, pl_reasoning = ''why'', pl_workers = [auto_example_worker ''w1'']\<rparr>, 0)"
  by (subst submitted_plan_read_back [where specs = "[auto_example_worker ''w1'']" and reasoning = "''why''"
        and enc = "\<lambda>s. JObj [(''id'', JStr (ws_id s))]" and args = "''args''" and body = "''body''" and ?w1.0 = 0
        and plan_value = "JArr [JObj [(''id'', JStr ''w1'')]]"
        and input = "JObj [(''plan'', JArr [JObj [(''id'', JStr ''w1'')]]), (''reasoning'', JStr ''why'')]"])
     (simp_all add: plan_host_example_def get_str_def auto_example_worker_def)

text \<open>The schemas, without what one of them may not say and with its one renamed keyword.\<close>

fun stripped :: "json \<Rightarrow> json" and stripped_members :: "(rstr \<times> json) list \<Rightarrow> (rstr \<times> json) list" where
  "stripped (JObj kvs) = JObj (stripped_members kvs)"
| "stripped v = v"
| "stripped_members [] = []"
| "stripped_members ((k, v) # kvs) =
     (if k \<in> {''pattern'', ''minLength'', ''minItems'', ''description''} then stripped_members kvs
      else ((if k = ''oneOf'' then ''anyOf'' else k), stripped v) # stripped_members kvs)"

text \<open>
  The strict schema sent to OpenAI is the rich one without the keywords strict mode does not know
  (and without the descriptions): the two providers are asked for the same shape.
\<close>

theorem strict_schema_is_stripped:
  "stripped submit_plan_input_schema_strict = stripped submit_plan_input_schema"
  by (simp add: submit_plan_input_schema_def submit_plan_input_schema_strict_def reasoning_schema_def see_prior_choices_def)

end
