(* ===== verification/IgnoreFilter.thy ===== *)
theory IgnoreFilter
  imports RustPath
begin

section \<open>Which files are synced (\<open>context-sync/ignore_filter.rs\<close>)\<close>

text \<open>
  The filter of the index client: blocked directories, secret file names, blocked extensions, the
  repository's \<open>.gitignore\<close> (matched by the \<open>ignore\<close> library, a parameter) and a size limit. What the
  operating system says of a path is a \<open>file_view\<close>.
\<close>

record file_view =
  fv_is_file :: "rstr \<Rightarrow> bool"
  fv_is_dir :: "rstr \<Rightarrow> bool"
  fv_len :: "rstr \<Rightarrow> nat option"

record ignore_filter =
  if_gitignore :: "(rstr \<Rightarrow> bool \<Rightarrow> bool) option"
  if_repo_root :: rstr

definition blocked_dirs :: "rstr list" where
  "blocked_dirs =
     [''.git'', ''node_modules'', ''target'', ''dist'', ''build'', ''__pycache__'', ''.next'', ''vendor'',
      ''.agent-worktrees'', ''.ssh'', ''.aws'', ''.gnupg'']"

definition blocked_extensions :: "rstr list" where
  "blocked_extensions =
     [''lock'', ''png'', ''jpg'', ''jpeg'', ''gif'', ''svg'', ''ico'', ''webp'', ''woff'', ''woff2'', ''ttf'', ''eot'',
      ''mp3'', ''mp4'', ''avi'', ''mov'', ''zip'', ''tar'', ''gz'', ''bz2'', ''7z'', ''rar'', ''jar'', ''war'', ''exe'',
      ''dll'', ''so'', ''dylib'', ''o'', ''a'', ''pyc'', ''class'', ''wasm'', ''map'',
      ''pem'', ''key'', ''cer'', ''crt'', ''p12'', ''pfx'', ''jks'', ''keystore'', ''asc'', ''gpg'']"

definition blocked_compound_extensions :: "rstr list" where
  "blocked_compound_extensions = [''min.js'', ''min.css'']"

definition blocked_filenames :: "rstr list" where
  "blocked_filenames =
     [''.env'', ''.env.local'', ''.env.development'', ''.env.production'', ''.env.staging'', ''.env.test'',
      ''credentials'', ''credentials.json'', ''secrets.yaml'', ''secrets.yml'', ''secrets.json'',
      ''id_rsa'', ''id_dsa'', ''id_ecdsa'', ''id_ed25519'', ''.netrc'', ''.pgpass'', ''.npmrc'', ''.pypirc'']"

definition blocked_filename_prefixes :: "rstr list" where
  "blocked_filename_prefixes = [''.env.'']"

definition max_file_size :: nat where "max_file_size = 1048576"

definition new_filter :: "bool \<Rightarrow> (rstr \<Rightarrow> bool \<Rightarrow> bool) option \<Rightarrow> rstr \<Rightarrow> ignore_filter" where
  "new_filter gitignore_exists built repo_root =
     \<lparr>if_gitignore = (if gitignore_exists then built else None), if_repo_root = repo_root\<rparr>"

subsection \<open>Parts of a path\<close>

text \<open>A component, a file name or an extension is only looked at when it is UTF-8.\<close>

definition to_str :: "byte_vec \<Rightarrow> rstr option" where
  "to_str s = (if utf8_valid s then Some s else None)"

fun normal_name :: "component \<Rightarrow> rstr option" where
  "normal_name (Normal n) = Some n"
| "normal_name _ = None"

definition file_name :: "rstr \<Rightarrow> rstr option" where
  "file_name path = (if components path = [] then None else normal_name (last (components path)))"

text \<open>\<open>Path::extension\<close>: what follows the last dot of the file name, unless nothing precedes it.\<close>

definition extension :: "rstr \<Rightarrow> rstr option" where
  "extension path =
     (case file_name path of
        None \<Rightarrow> None
      | Some name \<Rightarrow>
          (let ext = rev (takeWhile (\<lambda>c. c \<noteq> CHR ''.'') (rev name));
               before = rev (tl (dropWhile (\<lambda>c. c \<noteq> CHR ''.'') (rev name)))
           in if CHR ''.'' \<in> set name \<and> before \<noteq> [] then Some ext else None))"

subsection \<open>The checks\<close>

definition is_blocked_dir :: "rstr \<Rightarrow> bool" where
  "is_blocked_dir path \<longleftrightarrow>
     list_ex (\<lambda>c. case Option.bind (normal_name c) to_str of Some n \<Rightarrow> n \<in> set blocked_dirs | None \<Rightarrow> False)
       (components path)"

definition is_blocked_filename :: "rstr \<Rightarrow> bool" where
  "is_blocked_filename path \<longleftrightarrow>
     (case Option.bind (file_name path) to_str of
        None \<Rightarrow> False
      | Some name \<Rightarrow>
          to_ascii_lowercase name \<in> set blocked_filenames \<or>
          list_ex (starts_with (to_ascii_lowercase name)) blocked_filename_prefixes)"

definition has_blocked_extension :: "rstr \<Rightarrow> bool" where
  "has_blocked_extension path \<longleftrightarrow>
     (case Option.bind (file_name path) to_str of
        None \<Rightarrow> False
      | Some name \<Rightarrow>
          list_ex (\<lambda>ext. ends_with name (''.'' @ ext)) blocked_compound_extensions \<or>
          (case Option.bind (extension path) to_str of
             Some ext \<Rightarrow> ext \<in> set blocked_extensions
           | None \<Rightarrow> False))"

definition should_walk_dir :: "rstr \<Rightarrow> bool" where
  "should_walk_dir dir \<longleftrightarrow> \<not> is_blocked_dir dir"

definition gitignored :: "file_view \<Rightarrow> ignore_filter \<Rightarrow> rstr \<Rightarrow> bool" where
  "gitignored fv f path \<longleftrightarrow>
     (case if_gitignore f of
        None \<Rightarrow> False
      | Some gi \<Rightarrow>
          gi (case path_strip_prefix path (if_repo_root f) of Some rel \<Rightarrow> rel | None \<Rightarrow> path) (fv_is_dir fv path))"

definition oversized :: "file_view \<Rightarrow> rstr \<Rightarrow> bool" where
  "oversized fv path \<longleftrightarrow> fv_is_file fv path \<and> (case fv_len fv path of Some n \<Rightarrow> max_file_size < n | None \<Rightarrow> False)"

definition should_include :: "file_view \<Rightarrow> ignore_filter \<Rightarrow> rstr \<Rightarrow> bool" where
  "should_include fv f path \<longleftrightarrow>
     \<not> is_blocked_dir path \<and> \<not> is_blocked_filename path \<and> \<not> has_blocked_extension path \<and>
     \<not> gitignored fv f path \<and> \<not> oversized fv path"

end
