(* ===== verification/Streamer.thy ===== *)
theory Streamer
  imports IgnoreFilter JsonValue "HOL-Library.Char_ord" "HOL-Library.List_Lexorder"
begin

section \<open>The index client (\<open>context-sync/streamer.rs\<close>)\<close>

text \<open>
  A sync walks the repository, posts the hashes it found (\<open>/index/diff\<close>), uploads what the server asks for
  in batches (\<open>/index/stream\<close>, at most ten at a time), and polls \<open>/index/sync-complete\<close>. The network, the
  clock, the cancellation token, hashing, compression and JSON text are a \<open>sync_host\<close> over a world of its
  own. Durations and instants are nanoseconds. The upload tasks run interleaved: \<open>stream_step\<close> performs the
  one step a schedule picks, so a run of the whole sync is a function of its schedule.
\<close>

subsection \<open>Data\<close>

definition ns_per_ms :: nat where "ns_per_ms = 1000000"
definition ns_per_s :: nat where "ns_per_s = 1000000000"

definition max_batch_bytes :: nat where "max_batch_bytes = 2 * 1024 * 1024"
definition max_batch_files :: nat where "max_batch_files = 100"
definition stream_concurrency :: nat where "stream_concurrency = 10"
definition sync_deadline :: nat where "sync_deadline = 300 * ns_per_s"
definition poll_interval :: nat where "poll_interval = 2 * ns_per_s"
definition max_retry_attempts :: nat where "max_retry_attempts = 3"
definition max_file_size_bytes :: nat where "max_file_size_bytes = 1048576"
definition max_repo_bytes :: nat where "max_repo_bytes = 100 * 1024 * 1024"
definition max_repo_files :: nat where "max_repo_files = 20000"
definition max_diff_body_gz_bytes :: nat where "max_diff_body_gz_bytes = 5 * 1024 * 1024"
definition max_diff_retry :: nat where "max_diff_retry = 3"

record streamer_config =
  sc_context_engine_url :: rstr
  sc_user_id :: rstr
  sc_workspace_id :: nat
  sc_machine_id :: rstr
  sc_repo_path :: rstr
  sc_auth_token :: rstr

record streamer =
  st_config :: streamer_config
  st_sync_deadline :: nat
  st_poll_interval :: nat

definition new_streamer :: "streamer_config \<Rightarrow> streamer" where
  "new_streamer config =
     \<lparr>st_config = config, st_sync_deadline = sync_deadline, st_poll_interval = poll_interval\<rparr>"

record sync_stats =
  sy_files_hashed :: nat
  sy_files_uploaded :: "64 word"
  sy_files_deleted :: "64 word"
  sy_bytes_uploaded :: "64 word"
  sy_duplicate_batches :: nat
  sy_duration :: nat

definition no_stats :: sync_stats where
  "no_stats = \<lparr>sy_files_hashed = 0, sy_files_uploaded = 0, sy_files_deleted = 0, sy_bytes_uploaded = 0,
     sy_duplicate_batches = 0, sy_duration = 0\<rparr>"

text \<open>An I/O error as the client looks at it: not found, permission denied, or another with its number.\<close>

datatype read_error = NoSuchFile | AccessDenied | OsError int rstr

datatype http_failure = TimeoutOrConnect rstr | OtherHttp rstr

datatype sync_error =
    RepoTooLarge nat nat
  | TooManyFiles nat nat
  | SyncCancelled
  | DeadlineExceeded
  | SyncExpired rstr
  | BadRequest rstr rstr
  | RequestTooLarge nat nat
  | AuthRequired nat
  | SyncHttp http_failure
  | SyncIo read_error
  | SyncOther rstr

record file_entry =
  fe_path :: rstr
  fe_hash :: rstr
  fe_content :: byte_vec

record batch =
  ba_files :: "file_entry list"
  ba_deletes :: "rstr list"

record batch_stats =
  bs_files_uploaded :: "64 word"
  bs_files_deleted :: "64 word"
  bs_bytes_uploaded :: "64 word"
  bs_duplicate_batches :: nat

record batch_outcome =
  bo_files_uploaded :: "64 word"
  bo_files_deleted :: "64 word"
  bo_bytes_uploaded :: "64 word"
  bo_duplicate :: bool

record diff_response =
  dr_sync_id :: rstr
  dr_need :: "rstr list"
  dr_delete :: "rstr list"

record queued_counts =
  qc_files :: "64 word"
  qc_deletes :: "64 word"
  qc_bytes :: "64 word"

record sync_request =
  rq_url :: rstr
  rq_headers :: "(rstr \<times> rstr) list"
  rq_body :: byte_vec

text \<open>A reply is its status code and its body, unless reading the body fails.\<close>

record sync_reply =
  rp_status :: nat
  rp_body :: "http_failure + rstr"

text \<open>
  \<open>serde_json\<close> reads and prints JSON: the typed reads of the two responses, the untyped read of an error
  body, and the text of a value whose members are in the order given.
\<close>

record codec =
  co_sha256_hex :: "byte_vec \<Rightarrow> rstr"
  co_gzip :: "byte_vec \<Rightarrow> read_error + byte_vec"
  co_base64 :: "byte_vec \<Rightarrow> rstr"
  co_print_json :: "json \<Rightarrow> rstr"
  co_read_json :: "rstr \<Rightarrow> json option"
  co_read_diff :: "rstr \<Rightarrow> http_failure + diff_response"
  co_read_queued :: "rstr \<Rightarrow> http_failure + queued_counts option"
  co_status_text :: "nat \<Rightarrow> rstr"

record 'w sync_host =
  sh_codec :: codec
  sh_post :: "sync_request \<Rightarrow> 'w \<Rightarrow> (http_failure + sync_reply) \<times> 'w"
  sh_cancelled :: "'w \<Rightarrow> bool"
  sh_now :: "'w \<Rightarrow> nat"
  sh_sleep :: "nat \<Rightarrow> 'w \<Rightarrow> 'w"
  sh_sleep_or_cancel :: "nat \<Rightarrow> 'w \<Rightarrow> bool \<times> 'w"

subsection \<open>Phase 0: walk and hash\<close>

text \<open>
  One element of the walk: whether the token is cancelled when it arrives, the path or the walker's
  error, and what the file system says of it then.
\<close>

record walk_item =
  wi_cancelled :: bool
  wi_entry :: "rstr + rstr"
  wi_view :: file_view
  wi_metadata_len :: "nat option"
  wi_read :: "read_error + byte_vec"

definition skippable :: "read_error \<Rightarrow> bool" where
  "skippable e \<longleftrightarrow>
     (case e of NoSuchFile \<Rightarrow> True | AccessDenied \<Rightarrow> True | OsError n _ \<Rightarrow> n = 21 \<or> n = 26 \<or> n = 32)"

definition relative_path :: "rstr \<Rightarrow> rstr \<Rightarrow> rstr" where
  "relative_path repo_root path =
     from_utf8_lossy (case path_strip_prefix path repo_root of Some p \<Rightarrow> p | None \<Rightarrow> path)"

definition file_entry_of :: "codec \<Rightarrow> rstr \<Rightarrow> rstr \<Rightarrow> byte_vec \<Rightarrow> file_entry" where
  "file_entry_of co repo_root path content =
     \<lparr>fe_path = relative_path repo_root path, fe_hash = co_sha256_hex co content, fe_content = content\<rparr>"

text \<open>What one element contributes: an error, nothing, or the content of a file to be listed.\<close>

definition walk_content :: "ignore_filter \<Rightarrow> nat \<Rightarrow> walk_item \<Rightarrow> sync_error + (rstr \<times> byte_vec) option" where
  "walk_content f max_file_bytes item =
     (case wi_entry item of
        Inl _ \<Rightarrow> Inr None
      | Inr path \<Rightarrow>
          if \<not> fv_is_file (wi_view item) path \<or> \<not> should_include (wi_view item) f path then Inr None
          else
            (case wi_metadata_len item of
               None \<Rightarrow> Inr None
             | Some len \<Rightarrow>
                 if max_file_bytes < len then Inr None
                 else
                   (case wi_read item of
                      Inl e \<Rightarrow> if skippable e then Inr None else Inl (SyncIo e)
                    | Inr content \<Rightarrow> if utf8_valid content then Inr (Some (path, content)) else Inr None)))"

fun walk_from ::
  "codec \<Rightarrow> rstr \<Rightarrow> ignore_filter \<Rightarrow> nat \<Rightarrow> nat \<Rightarrow> nat \<Rightarrow> file_entry list \<Rightarrow> nat \<Rightarrow> walk_item list \<Rightarrow>
   sync_error + file_entry list" where
  "walk_from co root f max_file max_bytes max_files entries so_far [] = Inr entries"
| "walk_from co root f max_file max_bytes max_files entries so_far (item # items) =
     (if wi_cancelled item then Inl SyncCancelled
      else
        (case walk_content f max_file item of
           Inl e \<Rightarrow> Inl e
         | Inr None \<Rightarrow> walk_from co root f max_file max_bytes max_files entries so_far items
         | Inr (Some (path, content)) \<Rightarrow>
             let so_far' = so_far + length content in
             if max_bytes < so_far' then Inl (RepoTooLarge so_far' max_bytes)
             else if max_files \<le> length entries then Inl (TooManyFiles (length entries + 1) max_files)
             else walk_from co root f max_file max_bytes max_files
                    (entries @ [file_entry_of co root path content]) so_far' items))"

definition walk_and_hash ::
  "codec \<Rightarrow> rstr \<Rightarrow> ignore_filter \<Rightarrow> nat \<Rightarrow> nat \<Rightarrow> nat \<Rightarrow> walk_item list \<Rightarrow> sync_error + file_entry list" where
  "walk_and_hash co root f max_file max_bytes max_files items =
     walk_from co root f max_file max_bytes max_files [] 0 items"

subsection \<open>Phase 1: the diff\<close>

definition identity_headers :: "streamer_config \<Rightarrow> (rstr \<times> rstr) list" where
  "identity_headers c =
     [(''X-USER-ID'', sc_user_id c), (''X-Workspace-ID'', nat_str (sc_workspace_id c)),
      (''X-Auth-Token'', sc_auth_token c)]"

definition diff_file_hash :: "file_entry \<Rightarrow> json" where
  "diff_file_hash e = JObj [(''path'', JStr (fe_path e)), (''sha256'', JStr (fe_hash e))]"

text \<open>The optional organisation is never set; \<open>incremental\<close> and \<open>deletes\<close> are left out when false and empty.\<close>

definition diff_request :: "streamer_config \<Rightarrow> file_entry list \<Rightarrow> bool \<Rightarrow> rstr list \<Rightarrow> json" where
  "diff_request c entries incremental deletes =
     JObj ([(''user_id'', JStr (sc_user_id c)), (''workspace_id'', JInt (int (sc_workspace_id c))),
            (''machine_id'', JStr (sc_machine_id c)), (''repo_path'', JStr (sc_repo_path c)),
            (''files'', JArr (map diff_file_hash entries))] @
           (if incremental then [(''incremental'', JBool True)] else []) @
           (if deletes = [] then [] else [(''deletes'', JArr (map JStr deletes))]))"

definition diff_http :: "streamer_config \<Rightarrow> byte_vec \<Rightarrow> sync_request" where
  "diff_http c body =
     \<lparr>rq_url = sc_context_engine_url c @ ''/index/diff'',
      rq_headers = identity_headers c @ [(''content-type'', ''application/json''), (''content-encoding'', ''gzip'')],
      rq_body = body\<rparr>"

definition body_text :: "sync_reply \<Rightarrow> rstr" where
  "body_text r = (case rp_body r of Inl _ \<Rightarrow> [] | Inr t \<Rightarrow> t)"

definition read_body :: "(rstr \<Rightarrow> http_failure + 'a) \<Rightarrow> sync_reply \<Rightarrow> http_failure + 'a" where
  "read_body p r = (case rp_body r of Inl e \<Rightarrow> Inl e | Inr t \<Rightarrow> p t)"

text \<open>\<open>left\<close> counts the retries still allowed after a 429: \<open>MAX_DIFF_RETRY - attempt\<close>.\<close>

fun diff_loop ::
  "'w sync_host \<Rightarrow> sync_request \<Rightarrow> nat \<Rightarrow> 'w \<Rightarrow> (sync_error + diff_response) \<times> 'w" where
  "diff_loop host req left w =
     (if sh_cancelled host w then (Inl SyncCancelled, w)
      else
        (case sh_post host req w of
           (Inl e, w1) \<Rightarrow> (Inl (SyncHttp e), w1)
         | (Inr r, w1) \<Rightarrow>
             if rp_status r = 200 then
               ((case read_body (co_read_diff (sh_codec host)) r of Inl e \<Rightarrow> Inl (SyncHttp e) | Inr d \<Rightarrow> Inr d), w1)
             else if rp_status r = 429 then
               (case left of
                  0 \<Rightarrow> (Inl (SyncOther ''concurrent sync in progress''), w1)
                | Suc left' \<Rightarrow>
                    (case sh_sleep_or_cancel host (2 ^ (max_diff_retry - left') * ns_per_s) w1 of
                       (True, w2) \<Rightarrow> (Inl SyncCancelled, w2)
                     | (False, w2) \<Rightarrow> diff_loop host req left' w2))
             else if rp_status r = 401 \<or> rp_status r = 403 then (Inl (AuthRequired (rp_status r)), w1)
             else (Inl (SyncOther (''unexpected /diff response '' @ co_status_text (sh_codec host) (rp_status r) @
                     '': '' @ body_text r)), w1)))"

declare diff_loop.simps [simp del]

definition call_diff ::
  "'w sync_host \<Rightarrow> streamer_config \<Rightarrow> file_entry list \<Rightarrow> bool \<Rightarrow> rstr list \<Rightarrow> 'w \<Rightarrow>
   (sync_error + diff_response) \<times> 'w" where
  "call_diff host c entries incremental deletes w =
     (if sh_cancelled host w then (Inl SyncCancelled, w)
      else
        (case co_gzip (sh_codec host) (co_print_json (sh_codec host) (diff_request c entries incremental deletes)) of
           Inl e \<Rightarrow> (Inl (SyncIo e), w)
         | Inr body \<Rightarrow>
             if max_diff_body_gz_bytes < length body
             then (Inl (RequestTooLarge (length body) max_diff_body_gz_bytes), w)
             else diff_loop host (diff_http c body) max_diff_retry w))"

subsection \<open>Batches\<close>

fun chunk_from :: "file_entry list \<Rightarrow> nat \<Rightarrow> file_entry list \<Rightarrow> file_entry list list" where
  "chunk_from current current_bytes [] = (if current = [] then [] else [current])"
| "chunk_from current current_bytes (entry # needed) =
     (let entry_size = length (fe_content entry) in
      if current \<noteq> [] \<and> (max_batch_files \<le> length current \<or> max_batch_bytes < current_bytes + entry_size)
      then current # chunk_from [entry] entry_size needed
      else chunk_from (current @ [entry]) (current_bytes + entry_size) needed)"

definition chunk_into_batches :: "file_entry list \<Rightarrow> rstr list \<Rightarrow> batch list" where
  "chunk_into_batches needed deletes =
     (case chunk_from [] 0 needed of
        [] \<Rightarrow> if deletes = [] then [] else [\<lparr>ba_files = [], ba_deletes = deletes\<rparr>]
      | first # rest \<Rightarrow>
          \<lparr>ba_files = first, ba_deletes = deletes\<rparr> # map (\<lambda>fs. \<lparr>ba_files = fs, ba_deletes = []\<rparr>) rest)"

definition batch_lines :: "batch \<Rightarrow> rstr list" where
  "batch_lines b =
     map (\<lambda>f. ''file|'' @ fe_path f @ ''|'' @ fe_hash f) (ba_files b) @
     map (\<lambda>d. ''delete|'' @ d @ ''|'') (ba_deletes b)"

definition deterministic_batch_id :: "codec \<Rightarrow> batch \<Rightarrow> rstr" where
  "deterministic_batch_id co b = co_sha256_hex co (join [nl] (sort (batch_lines b)))"

text \<open>\<open>json!\<close> objects hold their members in key order.\<close>

definition file_line :: "codec \<Rightarrow> file_entry \<Rightarrow> json" where
  "file_line co f =
     JObj [(''content'', JStr (co_base64 co (fe_content f))), (''op'', JStr ''file''),
           (''path'', JStr (fe_path f)), (''sha256'', JStr (fe_hash f))]"

definition delete_line :: "rstr \<Rightarrow> json" where
  "delete_line d = JObj [(''op'', JStr ''delete''), (''path'', JStr d)]"

definition build_batch_ndjson :: "codec \<Rightarrow> batch \<Rightarrow> byte_vec" where
  "build_batch_ndjson co b =
     concat (map (\<lambda>line. co_print_json co line @ [nl])
       (map (file_line co) (ba_files b) @ map delete_line (ba_deletes b)))"

definition entries_filtered_by_need :: "file_entry list \<Rightarrow> rstr list \<Rightarrow> file_entry list" where
  "entries_filtered_by_need entries need = filter (\<lambda>e. fe_path e \<in> set need) entries"

subsection \<open>Phase 2: uploading one batch\<close>

definition stream_http :: "codec \<Rightarrow> streamer_config \<Rightarrow> rstr \<Rightarrow> batch \<Rightarrow> byte_vec \<Rightarrow> sync_request" where
  "stream_http co c sync_id b body =
     \<lparr>rq_url = sc_context_engine_url c @ ''/index/stream'',
      rq_headers = identity_headers c @
        [(''X-Sync-Id'', sync_id), (''X-Batch-Id'', deterministic_batch_id co b), (''X-Batch-Seq'', ''0''),
         (''content-type'', ''application/x-ndjson''), (''content-encoding'', ''gzip'')],
      rq_body = body\<rparr>"

text \<open>What one round of the retry loop ends with: the task's result, or a pause before the next attempt.\<close>

datatype round = Finished "sync_error + batch_outcome" | Pause nat

definition retry_or :: "nat \<Rightarrow> sync_error \<Rightarrow> round" where
  "retry_or attempt e =
     (if attempt < max_retry_attempts then Pause (attempt + 1) else Finished (Inl e))"

definition backoff :: "nat \<Rightarrow> nat" where
  "backoff attempt = 100 * 2 ^ attempt * ns_per_ms"

definition queued_outcome :: "queued_counts option \<Rightarrow> batch_outcome" where
  "queued_outcome q =
     (case q of
        None \<Rightarrow> \<lparr>bo_files_uploaded = 0, bo_files_deleted = 0, bo_bytes_uploaded = 0, bo_duplicate = False\<rparr>
      | Some c \<Rightarrow> \<lparr>bo_files_uploaded = qc_files c, bo_files_deleted = qc_deletes c,
          bo_bytes_uploaded = qc_bytes c, bo_duplicate = False\<rparr>)"

definition duplicate_outcome :: batch_outcome where
  "duplicate_outcome = \<lparr>bo_files_uploaded = 0, bo_files_deleted = 0, bo_bytes_uploaded = 0, bo_duplicate = True\<rparr>"

definition bad_request :: "codec \<Rightarrow> sync_reply \<Rightarrow> sync_error" where
  "bad_request co r =
     (let body = (case rp_body r of Inl _ \<Rightarrow> JNull
                  | Inr t \<Rightarrow> (case co_read_json co t of None \<Rightarrow> JNull | Some v \<Rightarrow> v));
          text = (\<lambda>key default. case get_str key body of Some s \<Rightarrow> s | None \<Rightarrow> default)
      in BadRequest (text ''error'' ''unknown'') (text ''details'' []))"

definition judge_reply :: "codec \<Rightarrow> nat \<Rightarrow> http_failure + sync_reply \<Rightarrow> round" where
  "judge_reply co attempt response =
     (case response of
        Inr r \<Rightarrow>
          if rp_status r = 202 then
            Finished (case read_body (co_read_queued co) r of
                        Inl e \<Rightarrow> Inl (SyncHttp e)
                      | Inr q \<Rightarrow> Inr (queued_outcome q))
          else if rp_status r = 200 then Finished (Inr duplicate_outcome)
          else if rp_status r = 410 then Finished (Inl (SyncExpired (body_text r)))
          else if rp_status r = 400 then Finished (Inl (bad_request co r))
          else if rp_status r \<in> {401, 403, 404} then Finished (Inl (AuthRequired (rp_status r)))
          else retry_or attempt (SyncOther (''HTTP '' @ co_status_text co (rp_status r)))
      | Inl e \<Rightarrow>
          (case e of
             TimeoutOrConnect _ \<Rightarrow> retry_or attempt (SyncHttp e)
           | OtherHttp _ \<Rightarrow> Finished (Inl (SyncHttp e))))"

subsection \<open>Phase 2: all batches\<close>

text \<open>
  A task is at the top of its loop (\<open>Ready\<close>), sleeping before the next attempt (\<open>Sleeping\<close>) or done. The
  driver is at the top of its spawning loop, waiting there for one of the ten permits, collecting results,
  or has returned. \<open>sm_log\<close> records every upload that was posted with its reply.
\<close>

datatype task_state = Ready nat | Sleeping nat | TaskDone "sync_error + batch_outcome"

datatype driver = Spawning | AwaitPermit | Joining | Returned "sync_error + batch_stats"

record 'w stream_state =
  sm_pending :: "batch list"
  sm_tasks :: "(batch \<times> task_state) list"
  sm_stats :: batch_stats
  sm_driver :: driver
  sm_log :: "(batch \<times> (http_failure + sync_reply)) list"
  sm_world :: 'w

datatype stream_choice = Drive | Advance nat | Reap nat

fun is_running :: "task_state \<Rightarrow> bool" where
  "is_running (TaskDone _) = False"
| "is_running _ = True"

definition running :: "'w stream_state \<Rightarrow> nat" where
  "running st = length (filter (\<lambda>(_, t). is_running t) (sm_tasks st))"

text \<open>\<open>abort_and_drain\<close>: no task of the set survives.\<close>

definition abort_and_drain :: "'w stream_state \<Rightarrow> 'w stream_state" where
  "abort_and_drain st = st\<lparr>sm_tasks := []\<rparr>"

definition give_up :: "sync_error \<Rightarrow> 'w stream_state \<Rightarrow> 'w stream_state" where
  "give_up e st = (abort_and_drain st)\<lparr>sm_driver := Returned (Inl e)\<rparr>"

definition drive_step :: "'w sync_host \<Rightarrow> 'w stream_state \<Rightarrow> 'w stream_state option" where
  "drive_step host st =
     (case sm_driver st of
        Spawning \<Rightarrow>
          if sm_pending st = [] then Some (st\<lparr>sm_driver := Joining\<rparr>)
          else if sh_cancelled host (sm_world st) then Some (give_up SyncCancelled st)
          else Some (st\<lparr>sm_driver := AwaitPermit\<rparr>)
      | AwaitPermit \<Rightarrow>
          (case sm_pending st of
             [] \<Rightarrow> None
           | b # bs \<Rightarrow>
               if running st < stream_concurrency
               then Some (st\<lparr>sm_pending := bs, sm_tasks := sm_tasks st @ [(b, Ready 0)], sm_driver := Spawning\<rparr>)
               else None)
      | Joining \<Rightarrow> if sm_tasks st = [] then Some (st\<lparr>sm_driver := Returned (Inr (sm_stats st))\<rparr>) else None
      | Returned _ \<Rightarrow> None)"

text \<open>
  One step of a task: a round of its loop, or the end of its pause. Compressing the body fails before
  the first round only, as the body never changes.
\<close>

definition after_round :: "round \<Rightarrow> task_state" where
  "after_round r = (case r of Finished res \<Rightarrow> TaskDone res | Pause attempt \<Rightarrow> Sleeping attempt)"

definition advance ::
  "'w sync_host \<Rightarrow> streamer_config \<Rightarrow> rstr \<Rightarrow> nat \<Rightarrow> 'w stream_state \<Rightarrow> 'w stream_state option" where
  "advance host c sync_id i st =
     (if i < length (sm_tasks st) then
        (case sm_tasks st ! i of
           (b, Ready attempt) \<Rightarrow>
             let co = sh_codec host; w = sm_world st;
                 set_task = (\<lambda>t st. st\<lparr>sm_tasks := (sm_tasks st)[i := (b, t)]\<rparr>) in
             (case co_gzip co (build_batch_ndjson co b) of
                Inl e \<Rightarrow> Some (set_task (TaskDone (Inl (SyncIo e))) st)
              | Inr body \<Rightarrow>
                  if sh_cancelled host w then Some (set_task (TaskDone (Inl SyncCancelled)) st)
                  else
                    (case sh_post host (stream_http co c sync_id b body) w of
                       (response, w1) \<Rightarrow>
                         Some (set_task (after_round (judge_reply co attempt response))
                                 (st\<lparr>sm_log := sm_log st @ [(b, response)], sm_world := w1\<rparr>))))
         | (b, Sleeping attempt) \<Rightarrow>
             Some (st\<lparr>sm_tasks := (sm_tasks st)[i := (b, Ready attempt)],
                      sm_world := sh_sleep host (backoff attempt) (sm_world st)\<rparr>)
         | (b, TaskDone _) \<Rightarrow> None)
      else None)"

definition add_outcome :: "batch_outcome \<Rightarrow> batch_stats \<Rightarrow> batch_stats" where
  "add_outcome out s =
     \<lparr>bs_files_uploaded = bs_files_uploaded s + bo_files_uploaded out,
      bs_files_deleted = bs_files_deleted s + bo_files_deleted out,
      bs_bytes_uploaded = bs_bytes_uploaded s + bo_bytes_uploaded out,
      bs_duplicate_batches = bs_duplicate_batches s + (if bo_duplicate out then 1 else 0)\<rparr>"

text \<open>
  \<open>join_next\<close> hands out the results in whatever order the tasks end, once everything is spawned. The
  branch for a task that panicked is never taken: nothing in a task panics.
\<close>

definition reap :: "nat \<Rightarrow> 'w stream_state \<Rightarrow> 'w stream_state option" where
  "reap i st =
     (if sm_driver st = Joining \<and> i < length (sm_tasks st) then
        (case snd (sm_tasks st ! i) of
           TaskDone (Inr out) \<Rightarrow>
             Some (st\<lparr>sm_tasks := take i (sm_tasks st) @ drop (Suc i) (sm_tasks st),
                      sm_stats := add_outcome out (sm_stats st)\<rparr>)
         | TaskDone (Inl e) \<Rightarrow> Some (give_up e st)
         | _ \<Rightarrow> None)
      else None)"

fun stream_step ::
  "'w sync_host \<Rightarrow> streamer_config \<Rightarrow> rstr \<Rightarrow> stream_choice \<Rightarrow> 'w stream_state \<Rightarrow> 'w stream_state option" where
  "stream_step host c sync_id Drive st = drive_step host st"
| "stream_step host c sync_id (Advance i) st = advance host c sync_id i st"
| "stream_step host c sync_id (Reap i) st = reap i st"

fun stream_run ::
  "'w sync_host \<Rightarrow> streamer_config \<Rightarrow> rstr \<Rightarrow> stream_choice list \<Rightarrow> 'w stream_state \<Rightarrow> 'w stream_state option" where
  "stream_run host c sync_id [] st = Some st"
| "stream_run host c sync_id (ch # chs) st =
     (case stream_step host c sync_id ch st of None \<Rightarrow> None | Some st' \<Rightarrow> stream_run host c sync_id chs st')"

definition stream_start :: "batch list \<Rightarrow> 'w \<Rightarrow> 'w stream_state" where
  "stream_start batches w =
     \<lparr>sm_pending = batches, sm_tasks = [],
      sm_stats = \<lparr>bs_files_uploaded = 0, bs_files_deleted = 0, bs_bytes_uploaded = 0, bs_duplicate_batches = 0\<rparr>,
      sm_driver = Spawning, sm_log = [], sm_world = w\<rparr>"

text \<open>The upload under a schedule; \<open>None\<close> when the schedule is not one of a complete run.\<close>

definition stream_batches ::
  "'w sync_host \<Rightarrow> streamer_config \<Rightarrow> stream_choice list \<Rightarrow> rstr \<Rightarrow> file_entry list \<Rightarrow> rstr list \<Rightarrow> 'w \<Rightarrow>
   ((sync_error + batch_stats) \<times> 'w) option" where
  "stream_batches host c schedule sync_id needed deletes w =
     (case stream_run host c sync_id schedule (stream_start (chunk_into_batches needed deletes) w) of
        None \<Rightarrow> None
      | Some st \<Rightarrow> (case sm_driver st of Returned r \<Rightarrow> Some (r, sm_world st) | _ \<Rightarrow> None))"

subsection \<open>Phase 3: waiting for the server\<close>

definition complete_http :: "codec \<Rightarrow> streamer_config \<Rightarrow> rstr \<Rightarrow> sync_request" where
  "complete_http co c sync_id =
     \<lparr>rq_url = sc_context_engine_url c @ ''/index/sync-complete'',
      rq_headers = identity_headers c @ [(''content-type'', ''application/json'')],
      rq_body = co_print_json co (JObj [(''sync_id'', JStr sync_id)])\<rparr>"

datatype poll_verdict = PollDone "sync_error + unit" | PollAgain

definition judge_poll :: "codec \<Rightarrow> sync_reply \<Rightarrow> poll_verdict" where
  "judge_poll co r =
     (if rp_status r = 200 then PollDone (Inr ())
      else if rp_status r = 202 \<or> rp_status r = 409 then PollAgain
      else if rp_status r = 410 then PollDone (Inr ())
      else PollDone (Inl (SyncOther (''unexpected /sync-complete response '' @ co_status_text co (rp_status r) @
             '': '' @ body_text r))))"

partial_function (option) poll_loop ::
  "'w sync_host \<Rightarrow> streamer \<Rightarrow> rstr \<Rightarrow> nat \<Rightarrow> 'w \<Rightarrow> ((sync_error + unit) \<times> 'w) option" where
  "poll_loop host s sync_id deadline w =
     (if sh_cancelled host w then Some (Inl SyncCancelled, w)
      else if deadline \<le> sh_now host w then Some (Inr (), w)
      else
        (case sh_post host (complete_http (sh_codec host) (st_config s) sync_id) w of
           (Inl e, w1) \<Rightarrow> Some (Inl (SyncHttp e), w1)
         | (Inr r, w1) \<Rightarrow>
             (case judge_poll (sh_codec host) r of
                PollDone res \<Rightarrow> Some (res, w1)
              | PollAgain \<Rightarrow>
                  (case sh_sleep_or_cancel host (st_poll_interval s) w1 of
                     (cancelled, w2) \<Rightarrow>
                       if cancelled then Some (Inl SyncCancelled, w2)
                       else poll_loop host s sync_id deadline w2))))"

definition poll_sync_complete ::
  "'w sync_host \<Rightarrow> streamer \<Rightarrow> rstr \<Rightarrow> 'w \<Rightarrow> ((sync_error + unit) \<times> 'w) option" where
  "poll_sync_complete host s sync_id w =
     poll_loop host s sync_id (sh_now host w + st_sync_deadline s) w"

subsection \<open>A whole sync\<close>

text \<open>What both kinds of sync do once the entries are known; \<open>None\<close> when polling never ends or the schedule does not fit.\<close>

definition sync_entries ::
  "'w sync_host \<Rightarrow> streamer \<Rightarrow> stream_choice list \<Rightarrow> nat \<Rightarrow> file_entry list \<Rightarrow> bool \<Rightarrow> rstr list \<Rightarrow> 'w \<Rightarrow>
   ((sync_error + sync_stats) \<times> 'w) option" where
  "sync_entries host s schedule started entries incremental deletes w =
     (let stats = no_stats\<lparr>sy_files_hashed := length entries\<rparr> in
      case call_diff host (st_config s) entries incremental deletes w of
        (Inl e, w1) \<Rightarrow> Some (Inl e, w1)
      | (Inr d, w1) \<Rightarrow>
          if dr_need d = [] \<and> dr_delete d = []
          then Some (Inr (stats\<lparr>sy_duration := sh_now host w1 - started\<rparr>), w1)
          else
            (case stream_batches host (st_config s) schedule (dr_sync_id d)
                    (entries_filtered_by_need entries (dr_need d)) (dr_delete d) w1 of
               None \<Rightarrow> None
             | Some (Inl e, w2) \<Rightarrow> Some (Inl e, w2)
             | Some (Inr b, w2) \<Rightarrow>
                 (case poll_sync_complete host s (dr_sync_id d) w2 of
                    None \<Rightarrow> None
                  | Some (Inl e, w3) \<Rightarrow> Some (Inl e, w3)
                  | Some (Inr _, w3) \<Rightarrow>
                      Some (Inr (stats\<lparr>sy_files_uploaded := bs_files_uploaded b,
                        sy_files_deleted := bs_files_deleted b, sy_bytes_uploaded := bs_bytes_uploaded b,
                        sy_duplicate_batches := bs_duplicate_batches b,
                        sy_duration := sh_now host w3 - started\<rparr>), w3))))"

definition full_sync ::
  "'w sync_host \<Rightarrow> streamer \<Rightarrow> stream_choice list \<Rightarrow> rstr \<Rightarrow> ignore_filter \<Rightarrow> ('w \<Rightarrow> walk_item list \<times> 'w) \<Rightarrow> 'w \<Rightarrow>
   ((sync_error + sync_stats) \<times> 'w) option" where
  "full_sync host s schedule repo_root f walker w =
     (case walker w of
        (items, w1) \<Rightarrow>
          (case walk_and_hash (sh_codec host) repo_root f max_file_size_bytes max_repo_bytes max_repo_files items of
             Inl e \<Rightarrow> Some (Inl e, w1)
           | Inr entries \<Rightarrow> sync_entries host s schedule (sh_now host w) entries False [] w1))"

text \<open>An element of the watcher's list of changed paths, with what reading it gives.\<close>

record changed_item =
  ci_cancelled :: bool
  ci_path :: rstr
  ci_is_file :: bool
  ci_read :: "read_error + byte_vec"

fun read_changed :: "codec \<Rightarrow> rstr \<Rightarrow> changed_item list \<Rightarrow> sync_error + file_entry list" where
  "read_changed co root [] = Inr []"
| "read_changed co root (item # items) =
     (if ci_cancelled item then Inl SyncCancelled
      else if \<not> ci_is_file item then read_changed co root items
      else
        (case ci_read item of
           Inl e \<Rightarrow> if skippable e then read_changed co root items else Inl (SyncIo e)
         | Inr content \<Rightarrow>
             if max_file_size_bytes < length content \<or> \<not> utf8_valid content then read_changed co root items
             else
               (case read_changed co root items of
                  Inl e \<Rightarrow> Inl e
                | Inr entries \<Rightarrow> Inr (file_entry_of co root (ci_path item) content # entries))))"

definition incremental_sync ::
  "'w sync_host \<Rightarrow> streamer \<Rightarrow> stream_choice list \<Rightarrow> ('w \<Rightarrow> changed_item list \<times> 'w) \<Rightarrow> rstr list \<Rightarrow> rstr \<Rightarrow> 'w \<Rightarrow>
   ((sync_error + sync_stats) \<times> 'w) option" where
  "incremental_sync host s schedule changed deleted repo_root w =
     (case changed w of
        (items, w1) \<Rightarrow>
          (case read_changed (sh_codec host) repo_root items of
             Inl e \<Rightarrow> Some (Inl e, w1)
           | Inr entries \<Rightarrow>
               sync_entries host s schedule (sh_now host w) entries True (map (relative_path repo_root) deleted) w1))"

end
