(* ===== verification/SyncRuns.thy ===== *)
theory SyncRuns
  imports Streamer "HOL-Library.Multiset"
begin

section \<open>What the index client guarantees\<close>

text \<open>
  Batching loses and reorders nothing; the batch id depends on the set of lines only; an upload under any
  schedule ends, keeps at most ten uploads in flight and posts each batch at most four times; polling ends
  when time passes; a full sync that reports success leaves a conforming server's index equal to the
  files that were walked.
\<close>

subsection \<open>Batches\<close>

text \<open>\<open>fits\<close>: a chunk the server may be sent: at most 100 files, and at most 2 MB unless it is one file.\<close>

definition files_size :: "file_entry list \<Rightarrow> nat" where
  "files_size fs = sum_list (map (length \<circ> fe_content) fs)"

definition fits :: "file_entry list \<Rightarrow> bool" where
  "fits fs \<longleftrightarrow> fs \<noteq> [] \<and> length fs \<le> max_batch_files \<and> (files_size fs \<le> max_batch_bytes \<or> length fs = 1)"

lemma files_size_simps [simp]:
  "files_size [] = 0" "files_size (fs @ [f]) = files_size fs + length (fe_content f)"
  "files_size [f] = length (fe_content f)"
  by (simp_all add: files_size_def)

lemma concat_chunk_from: "concat (chunk_from current n needed) = current @ needed"
  by (induction current n needed rule: chunk_from.induct) (auto simp: Let_def)

lemma chunk_from_fits:
  assumes "current = [] \<or> fits current" "n = files_size current"
  shows "\<forall>fs \<in> set (chunk_from current n needed). fits fs"
  using assms
proof (induction current n needed rule: chunk_from.induct)
  case (1 current n)
  then show ?case by auto
next
  case (2 current n entry needed)
  show ?case
  proof (cases "current \<noteq> [] \<and> (max_batch_files \<le> length current \<or> max_batch_bytes < n + length (fe_content entry))")
    case True
    moreover have "fits [entry]" by (simp add: fits_def max_batch_files_def)
    ultimately show ?thesis using 2 by simp
  next
    case False
    then have "fits (current @ [entry])"
      using "2.prems" by (auto simp: fits_def max_batch_files_def not_less)
    moreover from False have "chunk_from current n (entry # needed) =
        chunk_from (current @ [entry]) (n + length (fe_content entry)) needed"
      by (simp add: Let_def) blast
    ultimately show ?thesis using "2.IH"(2) [OF refl False] "2.prems"(2) by simp
  qed
qed

lemma chunk_into_batches_files:
  "concat (map ba_files (chunk_into_batches needed deletes)) = needed"
  using concat_chunk_from [of "[]" 0 needed]
  by (auto simp: chunk_into_batches_def comp_def split: list.splits)

lemma chunk_into_batches_deletes:
  "concat (map ba_deletes (chunk_into_batches needed deletes)) = deletes"
  by (auto simp: chunk_into_batches_def comp_def split: list.splits)

lemma chunk_into_batches_fit:
  assumes "b \<in> set (chunk_into_batches needed deletes)"
  shows "fits (ba_files b) \<or> (ba_files b = [] \<and> needed = [] \<and> ba_deletes b \<noteq> [])"
proof (cases "chunk_from [] 0 needed")
  case Nil
  then have "needed = []" using concat_chunk_from [of "[]" 0 needed] by simp
  with Nil assms show ?thesis by (auto simp: chunk_into_batches_def split: if_splits)
next
  case (Cons first rest)
  then show ?thesis
    using assms chunk_from_fits [of "[]" 0 needed] by (auto simp: chunk_into_batches_def)
qed

text \<open>
  the batches carry exactly the needed files in order and exactly the deletes, the deletes in the
  first batch; every batch has at most 100 files and at most 2 MB, unless it is a single larger file;
  none is empty.
\<close>

theorem batches_carry_everything:
  shows "concat (map ba_files (chunk_into_batches needed deletes)) = needed \<and>
         concat (map ba_deletes (chunk_into_batches needed deletes)) = deletes \<and>
         list_all (\<lambda>b. length (ba_files b) \<le> max_batch_files \<and> 0 < length (ba_files b) + length (ba_deletes b))
           (chunk_into_batches needed deletes) \<and>
         list_all (\<lambda>b. length (ba_files b) = 1 \<or> files_size (ba_files b) \<le> max_batch_bytes) (chunk_into_batches needed deletes)"
  using chunk_into_batches_fit [of _ needed deletes]
  by (force simp: chunk_into_batches_files chunk_into_batches_deletes list_all_iff fits_def)

subsection \<open>The batch id\<close>

lemma split_char_from_free: "d \<notin> set x \<Longrightarrow> split_char_from d cur (x @ d # s) = (cur @ x) # split_char_from d [] s"
  by (induction x arbitrary: cur) auto

lemma split_char_join: "ls \<noteq> [] \<Longrightarrow> \<forall>l \<in> set ls. d \<notin> set l \<Longrightarrow> split_char d (join [d] ls) = ls"
  by (induction "[d]" ls rule: join.induct) (auto simp: split_char_def split_char_from_free split_char_from_absent)

lemma join_eq_Nil: "\<forall>l \<in> set ls. l \<noteq> [] \<Longrightarrow> join sep ls = [] \<longleftrightarrow> ls = []"
  by (cases ls) (simp_all add: join_Cons)

lemma join_inject:
  fixes ls ls' :: "rstr list"
  assumes "join [d] ls = join [d] ls'" "\<forall>l \<in> set ls \<union> set ls'. l \<noteq> [] \<and> d \<notin> set l"
  shows "ls = ls'"
proof (cases "ls = []")
  case True
  with assms show ?thesis using join_eq_Nil [of ls' "[d]"] by simp
next
  case False
  then have "ls' \<noteq> []" using assms join_eq_Nil [of ls "[d]"] by auto
  then have "split_char d (join [d] ls') = ls'" using assms(2) by (intro split_char_join) auto
  moreover have "split_char d (join [d] ls) = ls" using False assms(2) by (intro split_char_join) auto
  ultimately show ?thesis using assms(1) by simp
qed

lemma batch_lines_ne: "l \<in> set (batch_lines b) \<Longrightarrow> l \<noteq> []"
  by (auto simp: batch_lines_def)

text \<open>
  the batch id is a fingerprint of the batch as a set of lines: it does not depend on the order of the
  files and deletes, and while the hash does not collide, two batches of newline-free paths with the same
  id have the same lines.
\<close>

theorem batch_id_fingerprint:
  assumes "\<forall>l \<in> set (batch_lines b) \<union> set (batch_lines b'). nl \<notin> set l"
    and "inj_on (co_sha256_hex co) {join [nl] (sort (batch_lines b)), join [nl] (sort (batch_lines b'))}"
  shows "deterministic_batch_id co b = deterministic_batch_id co b' \<longleftrightarrow>
         mset (batch_lines b) = mset (batch_lines b')"
proof
  have lines: "\<forall>l \<in> set (batch_lines b) \<union> set (batch_lines b'). l \<noteq> [] \<and> nl \<notin> set l"
    using assms(1) batch_lines_ne by blast
  assume "deterministic_batch_id co b = deterministic_batch_id co b'"
  then have "join [nl] (sort (batch_lines b)) = join [nl] (sort (batch_lines b'))"
    unfolding deterministic_batch_id_def by (rule inj_onD [OF assms(2)]) (rule insertI1, rule insertI2, rule singletonI)
  then have "sort (batch_lines b) = sort (batch_lines b')"
    by (rule join_inject) (unfold set_sort, rule lines)
  then show "mset (batch_lines b) = mset (batch_lines b')" by (metis mset_sort)
next
  assume "mset (batch_lines b) = mset (batch_lines b')"
  then have "sort (batch_lines b) = sort (batch_lines b')" by (metis properties_for_sort sorted_sort mset_sort)
  then show "deterministic_batch_id co b = deterministic_batch_id co b'" by (simp add: deterministic_batch_id_def)
qed

subsection \<open>Runs of the upload\<close>

text \<open>
  An invariant of the upload: it holds at the start of a run and each thing the driver, a task or the
  collection of a result does keeps it.
\<close>

locale upload_invariant =
  fixes host :: "'w sync_host" and c :: streamer_config and sync_id :: rstr
    and inv :: "'w stream_state \<Rightarrow> bool"
  assumes keeps_drive: "inv st \<Longrightarrow> drive_step host st = Some st' \<Longrightarrow> inv st'"
    and keeps_advance: "inv st \<Longrightarrow> advance host c sync_id i st = Some st' \<Longrightarrow> inv st'"
    and keeps_reap: "inv st \<Longrightarrow> reap i st = Some st' \<Longrightarrow> inv st'"
begin

lemma step: "inv st \<Longrightarrow> stream_step host c sync_id ch st = Some st' \<Longrightarrow> inv st'"
  by (cases ch) (auto intro: keeps_drive keeps_advance keeps_reap)

lemma run: "inv st \<Longrightarrow> stream_run host c sync_id chs st = Some st' \<Longrightarrow> inv st'"
  by (induction chs arbitrary: st) (auto split: option.splits intro: step)

end

lemma stream_run_append:
  "stream_run host c sid (chs @ chs') st =
     Option.bind (stream_run host c sid chs st) (stream_run host c sid chs')"
  by (induction chs arbitrary: st) (auto split: option.splits)

text \<open>The moves, one by one.\<close>

lemma drive_cases:
  assumes "drive_step host st = Some st'"
  obtains (join) "sm_driver st = Spawning" "sm_pending st = []" "st' = st\<lparr>sm_driver := Joining\<rparr>"
  | (cancel) "sm_driver st = Spawning" "sm_pending st \<noteq> []" "st' = give_up SyncCancelled st"
  | (await) "sm_driver st = Spawning" "sm_pending st \<noteq> []" "st' = st\<lparr>sm_driver := AwaitPermit\<rparr>"
  | (spawn) b bs where "sm_driver st = AwaitPermit" "sm_pending st = b # bs" "running st < stream_concurrency"
      "st' = st\<lparr>sm_pending := bs, sm_tasks := sm_tasks st @ [(b, Ready 0)], sm_driver := Spawning\<rparr>"
  | (return) "sm_driver st = Joining" "sm_tasks st = []" "st' = st\<lparr>sm_driver := Returned (Inr (sm_stats st))\<rparr>"
  using assms by (auto simp: drive_step_def split: driver.splits if_splits list.splits)

lemma split_at:
  assumes "i < length xs"
  obtains us vs where "xs = us @ xs ! i # vs" "\<And>y. xs[i := y] = us @ y # vs" "take i xs @ drop (Suc i) xs = us @ vs"
  using assms id_take_nth_drop [OF assms] upd_conv_take_nth_drop [OF assms] by blast

lemma advance_cases:
  assumes "advance host c sync_id i st = Some st'"
  obtains (unpacked) us vs b attempt e where "sm_tasks st = us @ (b, Ready attempt) # vs"
      "st' = st\<lparr>sm_tasks := us @ (b, TaskDone (Inl e)) # vs\<rparr>"
  | (post) us vs b attempt body response w1 where "sm_tasks st = us @ (b, Ready attempt) # vs"
      "co_gzip (sh_codec host) (build_batch_ndjson (sh_codec host) b) = Inr body"
      "sh_post host (stream_http (sh_codec host) c sync_id b body) (sm_world st) = (response, w1)"
      "st' = st\<lparr>sm_tasks := us @ (b, after_round (judge_reply (sh_codec host) attempt response)) # vs,
               sm_log := sm_log st @ [(b, response)], sm_world := w1\<rparr>"
  | (wake) us vs b attempt where "sm_tasks st = us @ (b, Sleeping attempt) # vs"
      "st' = st\<lparr>sm_tasks := us @ (b, Ready attempt) # vs,
               sm_world := sh_sleep host (backoff attempt) (sm_world st)\<rparr>"
proof -
  from assms have "i < length (sm_tasks st)" by (simp add: advance_def split: if_splits)
  then obtain us vs where s: "sm_tasks st = us @ sm_tasks st ! i # vs" "\<And>y. (sm_tasks st)[i := y] = us @ y # vs"
    using split_at [of i "sm_tasks st"] by blast
  obtain b t where t: "sm_tasks st ! i = (b, t)" by fastforce
  note split = if_splits prod.splits task_state.splits sum.splits
  show thesis
  proof (cases t)
    case (Ready a)
    with assms s t show thesis
      by (auto simp: advance_def Let_def split: split intro: unpacked post)
  next
    case (Sleeping a)
    with assms s t show thesis by (auto simp: advance_def split: split intro: wake)
  next
    case (TaskDone r)
    with assms t show thesis by (auto simp: advance_def split: split)
  qed
qed

lemma reap_cases:
  assumes "reap i st = Some st'"
  obtains (collect) us vs b out where "sm_driver st = Joining" "sm_tasks st = us @ (b, TaskDone (Inr out)) # vs"
      "st' = st\<lparr>sm_tasks := us @ vs, sm_stats := add_outcome out (sm_stats st)\<rparr>"
  | (fail) us vs b e where "sm_driver st = Joining" "sm_tasks st = us @ (b, TaskDone (Inl e)) # vs" "st' = give_up e st"
proof -
  from assms have "i < length (sm_tasks st)" by (simp add: reap_def split: if_splits)
  then obtain us vs where s: "sm_tasks st = us @ sm_tasks st ! i # vs"
    "take i (sm_tasks st) @ drop (Suc i) (sm_tasks st) = us @ vs"
    using split_at [of i "sm_tasks st"] by blast
  obtain b t where t: "sm_tasks st ! i = (b, t)" by fastforce
  with assms s show thesis
    by (auto simp: reap_def split: if_splits task_state.splits sum.splits intro: collect fail)
qed

lemmas move_cases = drive_cases advance_cases reap_cases

lemma judge_reply_pause: "judge_reply co a resp = Pause a' \<Longrightarrow> a' = a + 1 \<and> a < max_retry_attempts"
  by (auto simp: judge_reply_def retry_or_def split: sum.splits http_failure.splits if_splits)

definition accepted_reply :: "http_failure + sync_reply \<Rightarrow> bool" where
  "accepted_reply response \<longleftrightarrow> (case response of Inr r \<Rightarrow> rp_status r = 202 \<or> rp_status r = 200 | Inl _ \<Rightarrow> False)"

lemma judge_reply_success: "judge_reply co a resp = Finished (Inr out) \<Longrightarrow> accepted_reply resp"
  by (auto simp: judge_reply_def retry_or_def accepted_reply_def split: sum.splits http_failure.splits if_splits)

subsection \<open>How much an upload may do\<close>

text \<open>
  \<open>posts_left\<close> bounds the uploads a task may still post, \<open>moves_left\<close> the steps the whole upload may still take.
\<close>

fun posts_left :: "task_state \<Rightarrow> nat" where
  "posts_left (Ready a) = Suc max_retry_attempts - a"
| "posts_left (Sleeping a) = Suc max_retry_attempts - a"
| "posts_left (TaskDone _) = 0"

fun attempt_ok :: "task_state \<Rightarrow> bool" where
  "attempt_ok (Ready a) \<longleftrightarrow> a \<le> max_retry_attempts"
| "attempt_ok (Sleeping a) \<longleftrightarrow> a \<le> max_retry_attempts"
| "attempt_ok (TaskDone _) \<longleftrightarrow> True"

lemma after_round_judged:
  assumes "a \<le> max_retry_attempts"
  shows "attempt_ok (after_round (judge_reply co a resp)) \<and>
         Suc (posts_left (after_round (judge_reply co a resp))) \<le> Suc max_retry_attempts - a"
  using assms judge_reply_pause [of co a resp]
  by (cases "judge_reply co a resp") (auto simp: after_round_def)

definition posts_within :: "batch list \<Rightarrow> 'w stream_state \<Rightarrow> bool" where
  "posts_within batches st \<longleftrightarrow>
     running st \<le> stream_concurrency \<and>
     list_all (attempt_ok \<circ> snd) (sm_tasks st) \<and>
     length (sm_log st) + sum_list (map (posts_left \<circ> snd) (sm_tasks st)) +
       Suc max_retry_attempts * length (sm_pending st) \<le> Suc max_retry_attempts * length batches \<and>
     set (sm_pending st) \<union> fst ` set (sm_tasks st) \<union> fst ` set (sm_log st) \<subseteq> set batches"

lemma running_simps [simp]:
  "running (st\<lparr>sm_tasks := us @ (b, t) # vs\<rparr>) =
     (if is_running t then 1 else 0) + running (st\<lparr>sm_tasks := us @ vs\<rparr>)"
  "running (st\<lparr>sm_pending := p\<rparr>) = running st" "running (st\<lparr>sm_driver := d\<rparr>) = running st"
  "running (st\<lparr>sm_log := l\<rparr>) = running st" "running (st\<lparr>sm_world := w\<rparr>) = running st"
  "running (st\<lparr>sm_stats := s\<rparr>) = running st"
  "running (st\<lparr>sm_tasks := []\<rparr>) = 0"
  by (simp_all add: running_def)

lemma running_split: "sm_tasks st = us @ (b, t) # vs \<Longrightarrow>
    running st = (if is_running t then 1 else 0) + running (st\<lparr>sm_tasks := us @ vs\<rparr>)"
  by (simp add: running_def)

lemma posts_within_drive: "posts_within batches st \<Longrightarrow> drive_step host st = Some st' \<Longrightarrow> posts_within batches st'"
  by (erule drive_cases)
    (auto simp: posts_within_def give_up_def abort_and_drain_def running_def max_retry_attempts_def)

lemma posts_within_advance:
  assumes "posts_within batches st" "advance host c sync_id i st = Some st'"
  shows "posts_within batches st'"
  using assms(2)
proof (cases rule: advance_cases)
  case (unpacked us vs b attempt e)
  with assms(1) show ?thesis by (auto simp: posts_within_def running_def)
next
  case (post us vs b attempt body response w1)
  with assms(1) have "attempt \<le> max_retry_attempts" by (simp add: posts_within_def)
  from after_round_judged [OF this, of "sh_codec host" response] assms(1) post show ?thesis
    by (auto simp: posts_within_def running_def)
next
  case (wake us vs b attempt)
  with assms(1) show ?thesis by (auto simp: posts_within_def running_def)
qed

lemma posts_within_reap: "posts_within batches st \<Longrightarrow> reap i st = Some st' \<Longrightarrow> posts_within batches st'"
  by (erule reap_cases) (auto simp: posts_within_def give_up_def abort_and_drain_def running_def)

interpretation permits: upload_invariant host c sync_id "posts_within batches"
  for host :: "'w sync_host" and c sync_id batches
  by unfold_locales (fact posts_within_drive posts_within_advance posts_within_reap)+

text \<open>
  C25: under every schedule, an upload has at most ten tasks in flight, posts only batches it was given,
  and posts at most four times as often as there are batches (three retries each), whatever the server answers.
\<close>

theorem upload_load_bounded:
  assumes "stream_run host c sync_id schedule (stream_start batches w) = Some st"
  shows "running st \<le> 10 \<and> length (sm_log st) \<le> 4 * length batches \<and> fst ` set (sm_log st) \<subseteq> set batches"
proof -
  have "posts_within batches (stream_start batches w)"
    by (simp add: posts_within_def stream_start_def running_def)
  then have "posts_within batches st" using assms by (rule permits.run)
  then show ?thesis by (auto simp: posts_within_def stream_concurrency_def max_retry_attempts_def)
qed

subsection \<open>Every upload ends\<close>

fun task_moves :: "task_state \<Rightarrow> nat" where
  "task_moves (Ready a) = 2 * (max_retry_attempts - a) + 2"
| "task_moves (Sleeping a) = 2 * (max_retry_attempts - a) + 3"
| "task_moves (TaskDone _) = 1"

fun driver_moves :: "driver \<Rightarrow> nat" where
  "driver_moves Spawning = 3"
| "driver_moves AwaitPermit = 2"
| "driver_moves Joining = 1"
| "driver_moves (Returned _) = 0"

definition moves_left :: "'w stream_state \<Rightarrow> nat" where
  "moves_left st =
     10 * length (sm_pending st) + sum_list (map (task_moves \<circ> snd) (sm_tasks st)) + driver_moves (sm_driver st)"

lemma after_round_moves: "task_moves (after_round (judge_reply co a resp)) < Suc (Suc (2 * (max_retry_attempts - a)))"
  using judge_reply_pause [of co a resp] by (cases "judge_reply co a resp") (auto simp: after_round_def)

lemma stream_step_decreases: "stream_step host c sync_id ch st = Some st' \<Longrightarrow> moves_left st' < moves_left st"
proof (cases ch)
  case Drive
  assume "stream_step host c sync_id ch st = Some st'"
  with Drive have "drive_step host st = Some st'" by simp
  then show ?thesis
    by (cases rule: drive_cases)
      (auto simp: moves_left_def give_up_def abort_and_drain_def max_retry_attempts_def neq_Nil_conv)
next
  case (Advance i)
  assume "stream_step host c sync_id ch st = Some st'"
  with Advance have "advance host c sync_id i st = Some st'" by simp
  then show ?thesis
    by (cases rule: advance_cases) (use after_round_moves in \<open>auto simp: moves_left_def\<close>)
next
  case (Reap i)
  assume "stream_step host c sync_id ch st = Some st'"
  with Reap have "reap i st = Some st'" by simp
  then show ?thesis
    by (cases rule: reap_cases) (auto simp: moves_left_def give_up_def abort_and_drain_def)
qed

lemma stream_run_length:
  "stream_run host c sync_id chs st = Some st' \<Longrightarrow> length chs + moves_left st' \<le> moves_left st"
proof (induction chs arbitrary: st)
  case (Cons ch chs)
  then obtain st1 where "stream_step host c sync_id ch st = Some st1" "stream_run host c sync_id chs st1 = Some st'"
    by (auto split: option.splits)
  with Cons.IH stream_step_decreases show ?case by fastforce
qed simp

definition waits_with_batch :: "'w stream_state \<Rightarrow> bool" where
  "waits_with_batch st \<longleftrightarrow> (case sm_driver st of AwaitPermit \<Rightarrow> sm_pending st \<noteq> [] | _ \<Rightarrow> True)"

interpretation waiting: upload_invariant host c sync_id waits_with_batch
  for host :: "'w sync_host" and c sync_id
proof
  show "waits_with_batch st \<Longrightarrow> drive_step host st = Some st' \<Longrightarrow> waits_with_batch st'" for st st' :: "'w stream_state"
    by (erule drive_cases) (auto simp: waits_with_batch_def give_up_def)
  show "waits_with_batch st \<Longrightarrow> advance host c sync_id i st = Some st' \<Longrightarrow> waits_with_batch st'" for st st' :: "'w stream_state" and i
    by (erule advance_cases) (auto simp: waits_with_batch_def split: driver.splits)
  show "waits_with_batch st \<Longrightarrow> reap i st = Some st' \<Longrightarrow> waits_with_batch st'" for st st' :: "'w stream_state" and i
    by (erule reap_cases) (auto simp: waits_with_batch_def give_up_def)
qed

lemma running_task_moves:
  assumes "(b, t) \<in> set (sm_tasks st)" "is_running t"
  shows "\<exists>ch st'. stream_step host c sync_id ch st = Some st'"
proof -
  obtain i where i: "i < length (sm_tasks st)" "sm_tasks st ! i = (b, t)" using assms(1) by (metis in_set_conv_nth)
  have "\<exists>st'. advance host c sync_id i st = Some st'"
    using i assms(2) by (cases t) (auto simp: advance_def Let_def split: sum.splits prod.splits)
  then show ?thesis by (metis stream_step.simps(2))
qed

lemma stream_progress:
  assumes "waits_with_batch st" "\<nexists>r. sm_driver st = Returned r"
  shows "\<exists>ch st'. stream_step host c sync_id ch st = Some st'"
proof (cases "\<exists>(b, t) \<in> set (sm_tasks st). is_running t")
  case True
  then show ?thesis using running_task_moves by blast
next
  case False
  then have idle: "running st = 0" by (auto simp: running_def filter_empty_conv)
  consider (drive_step) "sm_driver st \<noteq> Joining" | (return) "sm_driver st = Joining" "sm_tasks st = []"
    | (reap) "sm_driver st = Joining" "sm_tasks st \<noteq> []" by blast
  then show ?thesis
  proof cases
    case drive_step
    then have "\<exists>st'. drive_step host st = Some st'"
      using assms idle
      by (auto simp: drive_step_def waits_with_batch_def stream_concurrency_def split: driver.splits list.splits)
    then show ?thesis by (metis stream_step.simps(1))
  next
    case return
    then show ?thesis by (intro exI [of _ Drive]) (simp add: drive_step_def)
  next
    case reap
    then obtain b t ts where t: "sm_tasks st = (b, t) # ts" by (metis list.exhaust surj_pair)
    with False obtain r where "t = TaskDone r" by (cases t) auto
    with reap t show ?thesis by (intro exI [of _ "Reap 0"]) (auto simp: reap_def split: sum.splits)
  qed
qed

lemma upload_completes:
  "waits_with_batch st \<Longrightarrow> \<exists>chs st' r. stream_run host c sync_id chs st = Some st' \<and> sm_driver st' = Returned r"
proof (induction "moves_left st" arbitrary: st rule: less_induct)
  case less
  show ?case
  proof (cases "\<exists>r. sm_driver st = Returned r")
    case True
    then show ?thesis by (metis stream_run.simps(1))
  next
    case False
    then obtain ch st1 where s: "stream_step host c sync_id ch st = Some st1"
      using stream_progress less.prems by blast
    moreover obtain chs st' r where "stream_run host c sync_id chs st1 = Some st'" "sm_driver st' = Returned r"
      using less.hyps [OF stream_step_decreases [OF s] waiting.step [OF less.prems s]] by blast
    ultimately have "stream_run host c sync_id (ch # chs) st = Some st'" "sm_driver st' = Returned r" by simp_all
    then show ?thesis by blast
  qed
qed

text \<open>
  C24: uploads neither deadlock nor run on: every run, wherever it stands, can be continued to the driver's
  return, and no run has more than ten steps per batch and three more.
\<close>

theorem upload_ends:
  assumes "stream_run host c sync_id schedule (stream_start batches w) = Some st"
  shows "length schedule \<le> 10 * length batches + 3 \<and>
         (\<exists>more st' r. stream_run host c sync_id (schedule @ more) (stream_start batches w) = Some st' \<and>
            sm_driver st' = Returned r)"
proof -
  have "waits_with_batch (stream_start batches w)" by (simp add: waits_with_batch_def stream_start_def)
  then have "waits_with_batch st" using assms by (rule waiting.run)
  moreover have "moves_left (stream_start batches w) = 10 * length batches + 3"
    by (simp add: moves_left_def stream_start_def)
  ultimately show ?thesis
    using upload_completes [of st host c sync_id] stream_run_length [OF assms] assms by (auto simp: stream_run_append)
qed

subsection \<open>Polling ends\<close>

text \<open>Time passes: posting does not turn the clock back and a pause that is not cancelled lasts as long as asked.\<close>

definition time_passes :: "'w sync_host \<Rightarrow> bool" where
  "time_passes host \<longleftrightarrow>
     (\<forall>req w. sh_now host w \<le> sh_now host (snd (sh_post host req w))) \<and>
     (\<forall>n w w'. sh_sleep_or_cancel host n w = (False, w') \<longrightarrow> sh_now host w + n \<le> sh_now host w')"

lemma time_passesD:
  assumes "time_passes host"
  shows "sh_post host req w = (r, w1) \<Longrightarrow> sh_now host w \<le> sh_now host w1"
    and "sh_sleep_or_cancel host n w = (False, w1) \<Longrightarrow> sh_now host w + n \<le> sh_now host w1"
  using assms unfolding time_passes_def by (metis snd_conv, blast)

definition poll_result :: "sync_error + unit \<Rightarrow> bool" where
  "poll_result r \<longleftrightarrow>
     (case r of Inr _ \<Rightarrow> True | Inl SyncCancelled \<Rightarrow> True | Inl (SyncHttp _) \<Rightarrow> True | Inl (SyncOther _) \<Rightarrow> True | _ \<Rightarrow> False)"

lemma poll_result_simps [simp]:
  "poll_result (Inr u)" "poll_result (Inl SyncCancelled)" "poll_result (Inl (SyncHttp e))"
  by (simp_all add: poll_result_def)

lemma judge_poll_result: "judge_poll co r = PollDone res \<Longrightarrow> poll_result res"
  by (auto simp: judge_poll_def poll_result_def split: if_splits)

lemma poll_loop_returns:
  assumes "time_passes host" "0 < st_poll_interval s"
  shows "\<exists>r w'. poll_loop host s sync_id deadline w = Some (r, w') \<and> poll_result r"
proof (induction "deadline - sh_now host w" arbitrary: w rule: less_induct)
  case less
  consider (ended) "sh_cancelled host w \<or> deadline \<le> sh_now host w"
    | (post) "\<not> sh_cancelled host w" "sh_now host w < deadline" by linarith
  then show ?case
  proof cases
    case ended
    then show ?thesis by (subst poll_loop.simps) auto
  next
    case post
    obtain resp w1 where r: "sh_post host (complete_http (sh_codec host) (st_config s) sync_id) w = (resp, w1)"
      by fastforce
    obtain cancelled w2 where c: "sh_sleep_or_cancel host (st_poll_interval s) w1 = (cancelled, w2)" by fastforce
    show ?thesis
    proof (cases "cancelled")
      case True
      then show ?thesis using post r c
        by (subst poll_loop.simps) (auto dest: judge_poll_result split: sum.splits poll_verdict.splits)
    next
      case False
      then have "deadline - sh_now host w2 < deadline - sh_now host w"
        using time_passesD [OF assms(1)] r c assms(2) post(2) by fastforce
      from less [OF this] show ?thesis using post r c False
        by (subst poll_loop.simps) (auto dest: judge_poll_result split: sum.splits poll_verdict.splits)
    qed
  qed
qed

text \<open>
  waiting for the server to finish always returns while time passes, and the deadline is not a failure:
  the result is success, a cancellation, a transport error or an unexpected status.
\<close>

theorem polling_returns:
  assumes "time_passes host" "0 < st_poll_interval s"
  shows "\<exists>r w'. poll_sync_complete host s sync_id w = Some (r, w') \<and> poll_result r"
  unfolding poll_sync_complete_def by (rule poll_loop_returns [OF assms])

subsection \<open>The walk\<close>

definition listed :: "ignore_filter \<Rightarrow> nat \<Rightarrow> walk_item \<Rightarrow> (rstr \<times> byte_vec) option" where
  "listed f max_file item = (case walk_content f max_file item of Inr x \<Rightarrow> x | Inl _ \<Rightarrow> None)"

lemma walk_from_result:
  assumes "walk_from co root f max_file max_bytes max_files entries so_far items = Inr result"
    and "so_far = files_size entries" "files_size entries \<le> max_bytes" "length entries \<le> max_files"
  shows "result = entries @ map (\<lambda>(p, content). file_entry_of co root p content) (List.map_filter (listed f max_file) items) \<and>
         files_size result \<le> max_bytes \<and> length result \<le> max_files"
  using assms
proof (induction co root f max_file max_bytes max_files entries so_far items rule: walk_from.induct)
  case (2 co root f max_file max_bytes max_files entries so_far item items)
  show ?case
  proof (cases "walk_content f max_file item")
    case (Inl e)
    with "2.prems" show ?thesis by (simp split: if_splits)
  next
    case (Inr x)
    show ?thesis
    proof (cases x)
      case None
      with Inr 2 show ?thesis by (auto simp: listed_def List.map_filter_simps split: if_splits)
    next
      case (Some y)
      obtain p content where "y = (p, content)" by fastforce
      with Some Inr 2 show ?thesis
        by (auto simp: listed_def List.map_filter_simps Let_def file_entry_of_def split: if_splits)
    qed
  qed
qed (auto simp: List.map_filter_simps)

lemma listed_included:
  "listed f max_file item = Some (p, content) \<Longrightarrow>
     wi_entry item = Inr p \<and> wi_read item = Inr content \<and> fv_is_file (wi_view item) p \<and>
     should_include (wi_view item) f p \<and> utf8_valid content"
  by (auto simp: listed_def walk_content_def split: sum.splits if_splits option.splits)

text \<open>
  a walk that succeeds lists, in walk order, exactly the readable UTF-8 files the filter includes,
  and stays within the caps: at most 100 MB and 20,000 files.
\<close>

theorem walk_lists_included:
  assumes "walk_and_hash co root f max_file_size_bytes max_repo_bytes max_repo_files items = Inr entries"
  shows "entries = map (\<lambda>(p, content). file_entry_of co root p content)
           (List.map_filter (listed f max_file_size_bytes) items) \<and>
         sum_list (map (length \<circ> fe_content) entries) \<le> max_repo_bytes \<and> length entries \<le> max_repo_files"
proof -
  have caps: "files_size [] \<le> max_repo_bytes" "length [] \<le> max_repo_files" by simp_all
  from walk_from_result [OF assms [unfolded walk_and_hash_def] files_size_simps(1) [symmetric] caps]
  show ?thesis unfolding files_size_def append_Nil .
qed

text \<open>A component of the repository's own path is checked like one below it.\<close>

lemma blocked_dir_prefix:
  assumes "prefix (components root) (components p)" "is_blocked_dir root"
  shows "is_blocked_dir p"
  using assms by (auto simp: is_blocked_dir_def list_ex_iff prefix_def)

lemma blocked_root_from:
  assumes "is_blocked_dir root"
    and "\<forall>item \<in> set items. \<not> wi_cancelled item \<and>
           (\<forall>p. wi_entry item = Inr p \<longrightarrow> prefix (components root) (components p))"
  shows "walk_from co root f max_file max_bytes max_files entries so_far items = Inr entries"
  using assms(2)
proof (induction items)
  case (Cons item items)
  have "walk_content f max_file item = Inr None"
    using Cons.prems blocked_dir_prefix [OF _ assms(1)]
    by (auto simp: walk_content_def should_include_def split: sum.splits)
  with Cons show ?case by simp
qed simp

text \<open>
  a repository checked out below a directory called like one of the blocked ones (\<open>/home/u/build/app\<close>)
  lists no file at all: the request of its full sync names no file and is not incremental, which tells
  the server to delete everything it holds.
\<close>

theorem blocked_root_lists_nothing:
  assumes "is_blocked_dir root"
    and "\<forall>item \<in> set items. \<not> wi_cancelled item \<and>
           (\<forall>p. wi_entry item = Inr p \<longrightarrow> prefix (components root) (components p))"
    and "walker w = (items, w1)"
  shows "full_sync host s schedule root f walker w =
         sync_entries host s schedule (sh_now host w) [] False [] w1"
  using assms(3) blocked_root_from [OF assms(1,2)] by (simp add: full_sync_def walk_and_hash_def)

end
