(* ===== verification/SyncMirror.thy ===== *)
theory SyncMirror
  imports SyncRuns
begin

section \<open>A successful full sync mirrors the repository\<close>

text \<open>
  The contract between the two sides: what an index that follows a batch holds, what the server answers to a
  diff, and that an accepted batch has been applied (one that timed out may have been). Under it every full
  sync that reports success, under any schedule, with any retries, leaves the index equal to the files walked.
\<close>

type_synonym index = "rstr \<Rightarrow> byte_vec option"

definition apply_batch :: "batch \<Rightarrow> index \<Rightarrow> index" where
  "apply_batch b m =
     fold (\<lambda>d m. m(d := None)) (ba_deletes b) (fold (\<lambda>f m. m(fe_path f \<mapsto> fe_content f)) (ba_files b) m)"

definition local_index :: "file_entry list \<Rightarrow> index" where
  "local_index entries = map_of (map (\<lambda>e. (fe_path e, fe_content e)) entries)"

definition touched :: "batch \<Rightarrow> rstr set" where
  "touched b = fe_path ` set (ba_files b) \<union> set (ba_deletes b)"

definition batch_agrees :: "index \<Rightarrow> batch \<Rightarrow> bool" where
  "batch_agrees m b \<longleftrightarrow> (\<forall>f \<in> set (ba_files b). m (fe_path f) = Some (fe_content f)) \<and> (\<forall>d \<in> set (ba_deletes b). m d = None)"

lemma fold_files:
  "\<forall>f \<in> set fs. m (fe_path f) = Some (fe_content f) \<Longrightarrow>
     fold (\<lambda>f m. m(fe_path f \<mapsto> fe_content f)) fs idx p = (if p \<in> fe_path ` set fs then m p else idx p)"
  by (induction fs arbitrary: idx) auto

lemma fold_deletes: "fold (\<lambda>d m. m(d := None)) ds idx p = (if p \<in> set ds then None else idx p)"
  by (induction ds arbitrary: idx) auto

lemma apply_batch_at: "batch_agrees m b \<Longrightarrow> apply_batch b idx p = (if p \<in> touched b then m p else idx p)"
  by (auto simp: apply_batch_def batch_agrees_def touched_def fold_deletes fold_files)

text \<open>The order of the batches and repetitions among them do not matter.\<close>

lemma apply_batches_at:
  "\<forall>b \<in> set bs. batch_agrees m b \<Longrightarrow>
     fold apply_batch bs idx p = (if \<exists>b \<in> set bs. p \<in> touched b then m p else idx p)"
  by (induction bs arbitrary: idx) (auto simp: apply_batch_at)

subsection \<open>The server's side of the contract\<close>

definition takes_batches :: "'w sync_host \<Rightarrow> streamer_config \<Rightarrow> ('w \<Rightarrow> index) \<Rightarrow> bool" where
  "takes_batches host c idx \<longleftrightarrow>
     (\<forall>n w. idx (sh_sleep host n w) = idx w) \<and>
     (\<forall>sid b body w resp w1.
        co_gzip (sh_codec host) (build_batch_ndjson (sh_codec host) b) = Inr body \<longrightarrow>
        sh_post host (stream_http (sh_codec host) c sid b body) w = (resp, w1) \<longrightarrow>
        idx w1 = apply_batch b (idx w) \<or> (\<not> accepted_reply resp \<and> idx w1 = idx w))"

definition names_difference :: "index \<Rightarrow> file_entry list \<Rightarrow> diff_response \<Rightarrow> bool" where
  "names_difference m entries d \<longleftrightarrow>
     set (dr_need d) = {p. \<exists>e \<in> set entries. fe_path e = p \<and> m p \<noteq> Some (fe_content e)} \<and>
     set (dr_delete d) = dom m - fe_path ` set entries"

definition answers_diff :: "'w sync_host \<Rightarrow> streamer_config \<Rightarrow> file_entry list \<Rightarrow> ('w \<Rightarrow> index) \<Rightarrow> bool" where
  "answers_diff host c entries idx \<longleftrightarrow>
     (\<forall>n w. idx (snd (sh_sleep_or_cancel host n w)) = idx w) \<and>
     (\<forall>sid w. idx (snd (sh_post host (complete_http (sh_codec host) c sid) w)) = idx w) \<and>
     (\<forall>body w resp w1.
        co_gzip (sh_codec host) (co_print_json (sh_codec host) (diff_request c entries False [])) = Inr body \<longrightarrow>
        sh_post host (diff_http c body) w = (resp, w1) \<longrightarrow>
        idx w1 = idx w \<and>
        (\<forall>r d. resp = Inr r \<longrightarrow> read_body (co_read_diff (sh_codec host)) r = Inr d \<longrightarrow> names_difference (idx w) entries d))"

subsection \<open>The upload\<close>

definition covers :: "batch list \<Rightarrow> 'w stream_state \<Rightarrow> batch list \<Rightarrow> bool" where
  "covers batches st applied \<longleftrightarrow>
     set applied \<union> set (sm_pending st) \<union> fst ` set (sm_tasks st) \<subseteq> set batches \<and>
     (\<forall>b out. (b, TaskDone (Inr out)) \<in> set (sm_tasks st) \<longrightarrow> b \<in> set applied) \<and>
     (\<forall>r. sm_driver st = Returned (Inr r) \<longrightarrow> sm_tasks st = []) \<and>
     (case sm_driver st of
        Returned (Inl _) \<Rightarrow> True
      | d \<Rightarrow> set batches \<subseteq> set (sm_pending st) \<union> fst ` set (sm_tasks st) \<union> set applied \<and>
          (d \<noteq> Spawning \<and> d \<noteq> AwaitPermit \<longrightarrow> sm_pending st = []))"

definition tracks ::
  "'w sync_host \<Rightarrow> streamer_config \<Rightarrow> ('w \<Rightarrow> index) \<Rightarrow> index \<Rightarrow> batch list \<Rightarrow> 'w stream_state \<Rightarrow> bool" where
  "tracks host c idx m batches st \<longleftrightarrow>
     takes_batches host c idx \<and>
     (\<exists>applied. idx (sm_world st) = fold apply_batch applied m \<and> covers batches st applied)"

lemma tracksI:
  "takes_batches host c idx \<Longrightarrow> idx (sm_world st) = fold apply_batch applied m \<Longrightarrow> covers batches st applied \<Longrightarrow>
     tracks host c idx m batches st"
  unfolding tracks_def by blast

lemma tracks_drive:
  assumes "tracks host c idx m batches st" "drive_step host st = Some st'"
  shows "tracks host c idx m batches st'"
proof -
  obtain applied where a: "idx (sm_world st) = fold apply_batch applied m" "covers batches st applied"
    using assms(1) by (auto simp: tracks_def)
  from assms(2) have "sm_world st' = sm_world st \<and> covers batches st' applied"
    using a(2) by (cases rule: drive_cases) (auto simp: covers_def give_up_def abort_and_drain_def)
  with a assms(1) show ?thesis by (auto simp: tracks_def)
qed

lemma tracks_reap:
  assumes "tracks host c idx m batches st" "reap i st = Some st'"
  shows "tracks host c idx m batches st'"
proof -
  obtain applied where a: "idx (sm_world st) = fold apply_batch applied m" "covers batches st applied"
    using assms(1) by (auto simp: tracks_def)
  from assms(2) have "sm_world st' = sm_world st \<and> covers batches st' applied"
    using a(2) by (cases rule: reap_cases) (auto simp: covers_def give_up_def abort_and_drain_def)
  with a assms(1) show ?thesis by (auto simp: tracks_def)
qed

text \<open>Replacing a task's state keeps the coverage, if a task that ends well has its batch applied.\<close>

lemma covers_task:
  assumes "covers batches st applied" "sm_tasks st = us @ (b, t) # vs" "\<forall>out. t \<noteq> TaskDone (Inr out)"
    and "set applied \<subseteq> set applied'" "set applied' \<subseteq> insert b (set applied)"
    and "\<forall>out. t' = TaskDone (Inr out) \<longrightarrow> b \<in> set applied'"
    and "sm_tasks st' = us @ (b, t') # vs" "sm_pending st' = sm_pending st" "sm_driver st' = sm_driver st"
  shows "covers batches st' applied'"
  using assms by (auto simp: covers_def split: driver.splits sum.splits)

lemma tracks_advance:
  assumes "tracks host c idx m batches st" "advance host c sync_id i st = Some st'"
  shows "tracks host c idx m batches st'"
proof -
  have serves: "takes_batches host c idx" using assms(1) by (simp add: tracks_def)
  obtain applied where a: "idx (sm_world st) = fold apply_batch applied m" "covers batches st applied"
    using assms(1) by (auto simp: tracks_def)
  from assms(2) show ?thesis
  proof (cases rule: advance_cases)
    case (unpacked us vs b attempt e)
    have "covers batches st' applied" by (rule covers_task [OF a(2) unpacked(1)]) (use unpacked in auto)
    moreover have "sm_world st' = sm_world st" using unpacked by simp
    ultimately show ?thesis using serves a by (auto simp: tracks_def)
  next
    case (wake us vs b attempt)
    have "covers batches st' applied" by (rule covers_task [OF a(2) wake(1)]) (use wake in auto)
    moreover have "idx (sm_world st') = idx (sm_world st)" using wake serves by (simp add: takes_batches_def)
    ultimately show ?thesis using serves a by (auto simp: tracks_def)
  next
    case (post us vs b attempt body response w1)
    have good: "\<forall>out. after_round (judge_reply (sh_codec host) attempt response) = TaskDone (Inr out) \<longrightarrow> accepted_reply response"
      using judge_reply_success [of "sh_codec host" attempt response] by (auto simp: after_round_def split: round.splits)
    consider (applied) "idx w1 = apply_batch b (idx (sm_world st))"
      | (dropped) "\<not> accepted_reply response" "idx w1 = idx (sm_world st)"
      using serves post(2,3) unfolding takes_batches_def by blast
    then show ?thesis
    proof cases
      case applied
      have "covers batches st' (applied @ [b])" by (rule covers_task [OF a(2) post(1)]) (use post in auto)
      moreover have "idx (sm_world st') = fold apply_batch (applied @ [b]) m" using post applied a by simp
      ultimately show ?thesis using serves by (intro tracksI)
    next
      case dropped
      have "covers batches st' applied" by (rule covers_task [OF a(2) post(1)]) (use post dropped good in auto)
      moreover have "idx (sm_world st') = fold apply_batch applied m" using post dropped a by simp
      ultimately show ?thesis using serves by (auto simp: tracks_def)
    qed
  qed
qed

interpretation tracking: upload_invariant host c sync_id "tracks host c idx m batches"
  for host :: "'w sync_host" and c sync_id idx m batches
  by unfold_locales (fact tracks_drive tracks_advance tracks_reap)+

lemma stream_batches_applied:
  assumes "takes_batches host c idx"
    and "stream_batches host c schedule sid needed deletes w = Some (Inr stats, w')"
  shows "\<exists>applied. idx w' = fold apply_batch applied (idx w) \<and> set applied = set (chunk_into_batches needed deletes)"
proof -
  let ?batches = "chunk_into_batches needed deletes"
  obtain st where st: "stream_run host c sid schedule (stream_start ?batches w) = Some st"
    "sm_driver st = Returned (Inr stats)" "sm_world st = w'"
    using assms(2) by (auto simp: stream_batches_def split: option.splits driver.splits)
  have "covers ?batches (stream_start ?batches w) []" by (simp add: covers_def stream_start_def)
  then have "tracks host c idx (idx w) ?batches (stream_start ?batches w)"
    using assms(1) by (auto simp: tracks_def stream_start_def intro!: exI [of _ "[]"])
  then have "tracks host c idx (idx w) ?batches st" using st(1) by (rule tracking.run)
  with st show ?thesis by (auto simp: tracks_def covers_def)
qed

subsection \<open>The whole sync\<close>

lemma diff_loop_answer:
  assumes "answers_diff host c entries idx"
    and "co_gzip (sh_codec host) (co_print_json (sh_codec host) (diff_request c entries False [])) = Inr body"
    and "diff_loop host (diff_http c body) left w = (Inr d, w1)"
  shows "idx w1 = idx w \<and> names_difference (idx w) entries d"
  using assms(3)
proof (induction left arbitrary: w rule: less_induct)
  case (less left)
  obtain resp w2 where p: "sh_post host (diff_http c body) w = (resp, w2)" by fastforce
  have kept: "idx w2 = idx w"
    "\<And>r d. resp = Inr r \<Longrightarrow> read_body (co_read_diff (sh_codec host)) r = Inr d \<Longrightarrow> names_difference (idx w) entries d"
    using assms(1,2) p unfolding answers_diff_def by blast+
  have slept: "sh_sleep_or_cancel host n w2 = (x, w3) \<Longrightarrow> idx w3 = idx w" for n x w3
    using assms(1) kept(1) unfolding answers_diff_def by (metis snd_conv)
  from less.prems p obtain r where r: "resp = Inr r"
    by (subst (asm) diff_loop.simps) (auto split: if_splits sum.splits)
  show ?case
  proof (cases "rp_status r = 200")
    case True
    with less.prems p r kept show ?thesis
      by (subst (asm) diff_loop.simps) (auto split: if_splits sum.splits)
  next
    case False
    with less.prems p r obtain left' n w3 where "left = Suc left'"
      "sh_sleep_or_cancel host n w2 = (False, w3)" "diff_loop host (diff_http c body) left' w3 = (Inr d, w1)"
      by (subst (asm) diff_loop.simps) (auto split: if_splits nat.splits prod.splits bool.splits)
    with less.IH [of left' w3] slept show ?thesis by auto
  qed
qed

lemma poll_round_keeps:
  assumes "answers_diff host (st_config s) entries idx"
    and "sh_post host (complete_http (sh_codec host) (st_config s) sid) w = (resp, w1)"
  shows "idx w1 = idx w" "sh_sleep_or_cancel host n w1 = (x, w2) \<Longrightarrow> idx w2 = idx w"
  using assms unfolding answers_diff_def by (metis snd_conv)+

lemma poll_loop_keeps:
  fixes host :: "'w sync_host"
  assumes "answers_diff host (st_config s) entries idx" "poll_loop host s sid deadline w = Some rw"
  shows "idx (snd rw) = idx w"
proof -
  have "answers_diff host (st_config s) entries idx \<longrightarrow> idx (snd rw) = idx w"
    using assms(2)
    by (rule poll_loop.raw_induct [where P = "\<lambda>host s _ _ w rw. answers_diff host (st_config s) entries idx \<longrightarrow> idx (snd rw) = idx w", rotated])
      (auto split: if_splits sum.splits prod.splits poll_verdict.splits dest: poll_round_keeps)
  with assms(1) show ?thesis by blast
qed

text \<open>What is left of the index where neither side has anything to do.\<close>

lemma local_index_Some:
  "distinct (map fe_path entries) \<Longrightarrow> e \<in> set entries \<Longrightarrow> local_index entries (fe_path e) = Some (fe_content e)"
  unfolding local_index_def by (rule map_of_is_SomeI) (auto simp: comp_def)

lemma local_index_None: "p \<notin> fe_path ` set entries \<Longrightarrow> local_index entries p = None"
  by (auto simp: local_index_def map_of_eq_None_iff image_image)

lemma untouched:
  assumes "distinct (map fe_path entries)" "names_difference m entries d" "p \<notin> set (dr_need d) \<union> set (dr_delete d)"
  shows "m p = local_index entries p"
proof (cases "p \<in> fe_path ` set entries")
  case True
  then obtain e where "e \<in> set entries" "p = fe_path e" by blast
  with assms show ?thesis by (auto simp: names_difference_def local_index_Some)
next
  case False
  with assms(2,3) show ?thesis by (auto simp: names_difference_def local_index_None)
qed

lemma chunks_touch:
  fixes entries need deletes
  defines "bs \<equiv> chunk_into_batches (entries_filtered_by_need entries need) deletes"
  shows "(\<Union>b \<in> set bs. touched b) = {fe_path e | e. e \<in> set entries \<and> fe_path e \<in> set need} \<union> set deletes"
proof -
  have "(\<Union>b \<in> set bs. touched b) =
      fe_path ` set (concat (map ba_files bs)) \<union> set (concat (map ba_deletes bs))"
    by (auto simp: touched_def)
  then show ?thesis
    by (auto simp: bs_def chunk_into_batches_files chunk_into_batches_deletes entries_filtered_by_need_def)
qed

lemma chunks_agree:
  assumes "distinct (map fe_path entries)" "set deletes \<inter> fe_path ` set entries = {}"
    and "b \<in> set (chunk_into_batches (entries_filtered_by_need entries need) deletes)"
  shows "batch_agrees (local_index entries) b"
proof -
  let ?bs = "chunk_into_batches (entries_filtered_by_need entries need) deletes"
  have "set (ba_files b) \<subseteq> set (concat (map ba_files ?bs))" "set (ba_deletes b) \<subseteq> set (concat (map ba_deletes ?bs))"
    using assms(3) by auto
  then have "set (ba_files b) \<subseteq> set entries" "set (ba_deletes b) \<subseteq> set deletes"
    by (auto simp: chunk_into_batches_files chunk_into_batches_deletes entries_filtered_by_need_def)
  with assms(1,2) show ?thesis by (auto simp: batch_agrees_def local_index_Some intro!: local_index_None)
qed

lemma upload_mirrors:
  assumes "distinct (map fe_path entries)" "names_difference m entries d"
    and "set applied = set (chunk_into_batches (entries_filtered_by_need entries (dr_need d)) (dr_delete d))"
  shows "fold apply_batch applied m = local_index entries"
proof
  fix p
  have disjoint: "set (dr_delete d) \<inter> fe_path ` set entries = {}" using assms(2) by (auto simp: names_difference_def)
  have "fold apply_batch applied m p =
      (if \<exists>b \<in> set applied. p \<in> touched b then local_index entries p else m p)"
    by (rule apply_batches_at) (use chunks_agree [OF assms(1) disjoint] assms(3) in blast)
  moreover have "m p = local_index entries p" if "\<not> (\<exists>b \<in> set applied. p \<in> touched b)"
  proof (rule untouched [OF assms(1,2)])
    from that have "p \<notin> (\<Union>b \<in> set applied. touched b)" by blast
    then show "p \<notin> set (dr_need d) \<union> set (dr_delete d)"
      using assms(2) unfolding assms(3) chunks_touch by (auto simp: names_difference_def)
  qed
  ultimately show "fold apply_batch applied m p = local_index entries p" by presburger
qed


subsection \<open>A concrete sync\<close>

text \<open>A server whose index is empty or holds the one file of the repository, and the sync that fills it.\<close>

definition sync_example_entry :: file_entry where
  "sync_example_entry = \<lparr>fe_path = ''a'', fe_hash = ''h'', fe_content = ''x''\<rparr>"

definition sync_example_config :: streamer_config where
  "sync_example_config = \<lparr>sc_context_engine_url = ''u'', sc_user_id = ''1'', sc_workspace_id = 2,
     sc_machine_id = ''m'', sc_repo_path = ''/r'', sc_auth_token = []\<rparr>"

definition sync_example_print :: "json \<Rightarrow> rstr" where
  "sync_example_print v =
     (if v = diff_request sync_example_config [sync_example_entry] False [] then ''D''
      else if v = JObj [(''content'', JStr ''x''), (''op'', JStr ''file''), (''path'', JStr ''a''), (''sha256'', JStr ''h'')]
      then ''F'' else ''X'')"

definition sync_example_codec :: codec where
  "sync_example_codec =
     \<lparr>co_sha256_hex = \<lambda>_. ''h'',
      co_gzip = \<lambda>t. if t = ''D'' \<or> t = ''F'' @ [nl] then Inr t else Inl NoSuchFile,
      co_base64 = \<lambda>t. t, co_print_json = sync_example_print, co_read_json = \<lambda>_. None,
      co_read_diff = \<lambda>t. Inr \<lparr>dr_sync_id = ''s'', dr_need = (if t = ''missing'' then [''a''] else []), dr_delete = []\<rparr>,
      co_read_queued = \<lambda>_. Inr (Some \<lparr>qc_files = 1, qc_deletes = 0, qc_bytes = 1\<rparr>), co_status_text = nat_str\<rparr>"

definition sync_example_post :: "sync_request \<Rightarrow> bool \<Rightarrow> (http_failure + sync_reply) \<times> bool" where
  "sync_example_post req full =
     (if rq_url req = ''u/index/diff'' then (Inr \<lparr>rp_status = 200, rp_body = Inr (if full then ''same'' else ''missing'')\<rparr>, full)
      else if rq_url req = ''u/index/stream'' then (Inr \<lparr>rp_status = 202, rp_body = Inr []\<rparr>, True)
      else (Inr \<lparr>rp_status = 200, rp_body = Inr []\<rparr>, full))"

definition sync_example_host :: "bool sync_host" where
  "sync_example_host =
     \<lparr>sh_codec = sync_example_codec, sh_post = sync_example_post, sh_cancelled = \<lambda>_. False, sh_now = \<lambda>_. 0,
      sh_sleep = \<lambda>_ w. w, sh_sleep_or_cancel = \<lambda>_ w. (True, w)\<rparr>"

definition sync_example_index :: "bool \<Rightarrow> index" where
  "sync_example_index full = (if full then [''a'' \<mapsto> ''x''] else (\<lambda>_. None))"

definition sync_example_walk :: "bool \<Rightarrow> walk_item list \<times> bool" where
  "sync_example_walk w =
     ([\<lparr>wi_cancelled = False, wi_entry = Inr ''/r/a'',
        wi_view = \<lparr>fv_is_file = \<lambda>_. True, fv_is_dir = \<lambda>_. False, fv_len = \<lambda>_. Some 1\<rparr>,
        wi_metadata_len = Some 1, wi_read = Inr ''x''\<rparr>], w)"

definition sync_example_filter :: ignore_filter where
  "sync_example_filter = \<lparr>if_gitignore = None, if_repo_root = ''/r''\<rparr>"

definition sync_example_schedule :: "stream_choice list" where
  "sync_example_schedule = [Drive, Drive, Drive, Advance 0, Reap 0, Drive]"

lemmas sync_example_defs =
  sync_example_entry_def sync_example_config_def sync_example_print_def sync_example_codec_def
  sync_example_post_def sync_example_host_def sync_example_index_def sync_example_walk_def
  sync_example_filter_def sync_example_schedule_def

lemma sync_example_only_batch:
  assumes "co_gzip sync_example_codec (build_batch_ndjson sync_example_codec b) = Inr body"
  shows "b = \<lparr>ba_files = [sync_example_entry], ba_deletes = []\<rparr>"
proof -
  have gz: "build_batch_ndjson sync_example_codec b = ''D'' \<or> build_batch_ndjson sync_example_codec b = ''F'' @ [nl]"
    using assms by (auto simp: sync_example_codec_def split: if_splits)
  obtain js where js: "js = map (file_line sync_example_codec) (ba_files b) @ map delete_line (ba_deletes b)" by blast
  have "js \<noteq> []" using gz js by (auto simp: build_batch_ndjson_def)
  then obtain j js' where j: "js = j # js'" by (cases js) auto
  have one: "\<exists>ch. sync_example_print v = [ch]" for v by (simp add: sync_example_print_def)
  then obtain ch where ch: "sync_example_print j = [ch]" by blast
  have ndjson: "build_batch_ndjson sync_example_codec b = ch # nl # concat (map (\<lambda>l. sync_example_print l @ [nl]) js')"
  proof -
    have "co_print_json sync_example_codec = sync_example_print" by (simp add: sync_example_codec_def)
    then have "build_batch_ndjson sync_example_codec b = concat (map (\<lambda>l. sync_example_print l @ [nl]) js)"
      unfolding build_batch_ndjson_def js by simp
    with j ch show ?thesis by simp
  qed
  have "js' = []"
  proof (cases js')
    case (Cons k ks)
    then show ?thesis using ndjson gz one [of k] by auto
  qed simp
  moreover have "ch = CHR ''F''" using ndjson gz by auto
  ultimately have "js = [JObj [(''content'', JStr ''x''), (''op'', JStr ''file''), (''path'', JStr ''a''), (''sha256'', JStr ''h'')]]"
    using ch j by (auto simp: sync_example_print_def split: if_splits)
  then have "map (file_line sync_example_codec) (ba_files b) @ map delete_line (ba_deletes b) =
      [JObj [(''content'', JStr ''x''), (''op'', JStr ''file''), (''path'', JStr ''a''), (''sha256'', JStr ''h'')]]"
    using js by simp
  then show ?thesis
    by (cases b; cases "ba_files b"; cases "ba_deletes b")
      (auto simp: append_eq_Cons_conv file_line_def delete_line_def sync_example_codec_def sync_example_entry_def)
qed

lemma sync_example_takes: "takes_batches sync_example_host (sync_example_config) sync_example_index"
proof -
  have one: "apply_batch \<lparr>ba_files = [sync_example_entry], ba_deletes = []\<rparr> (sync_example_index w) = sync_example_index True" for w
    by (auto simp: apply_batch_def sync_example_entry_def sync_example_index_def)
  have codec: "sh_codec sync_example_host = sync_example_codec" by (simp add: sync_example_host_def)
  have stream: "sh_post sync_example_host (stream_http co sync_example_config sid b body) w =
      (Inr \<lparr>rp_status = 202, rp_body = Inr []\<rparr>, True)" for co sid b body w
    by (simp add: sync_example_host_def sync_example_post_def stream_http_def sync_example_config_def)
  show ?thesis
    unfolding takes_batches_def codec stream
    using one sync_example_only_batch by (auto simp: sync_example_host_def)
qed

lemma sync_example_answers: "answers_diff sync_example_host sync_example_config [sync_example_entry] sync_example_index"
proof -
  have codec: "sh_codec sync_example_host = sync_example_codec" by (simp add: sync_example_host_def)
  have diff: "sh_post sync_example_host (diff_http sync_example_config body) w =
      (Inr \<lparr>rp_status = 200, rp_body = Inr (if w then ''same'' else ''missing'')\<rparr>, w)" for body w
    by (simp add: sync_example_host_def sync_example_post_def diff_http_def sync_example_config_def)
  have complete: "sh_post sync_example_host (complete_http co sync_example_config sid) w =
      (Inr \<lparr>rp_status = 200, rp_body = Inr []\<rparr>, w)" for co sid w
    by (simp add: sync_example_host_def sync_example_post_def complete_http_def sync_example_config_def)
  have names: "names_difference (sync_example_index w) [sync_example_entry] d"
    if "read_body (co_read_diff sync_example_codec) \<lparr>rp_status = 200, rp_body = Inr (if w then ''same'' else ''missing'')\<rparr> = Inr d" for w d
    using that by (auto simp: read_body_def sync_example_codec_def names_difference_def sync_example_index_def
      sync_example_entry_def split: if_splits)
  show ?thesis
    unfolding answers_diff_def codec diff complete using names by (auto simp: sync_example_host_def)
qed

lemma sync_example_path:
  "components ''/r/a'' = [RootDir, Normal ''r'', Normal ''a'']" "path_strip_prefix ''/r/a'' ''/r'' = Some ''a''"
  "is_blocked_dir ''/r/a'' = False" "is_blocked_filename ''/r/a'' = False" "has_blocked_extension ''/r/a'' = False"
  "utf8_valid ''x''" "from_utf8_lossy ''a'' = ''a''"
  by code_simp+

lemma sync_example_walk_result:
  "walk_and_hash sync_example_codec ''/r'' sync_example_filter max_file_size_bytes max_repo_bytes max_repo_files
     (fst (sync_example_walk w)) = Inr [sync_example_entry]"
  by (simp add: sync_example_walk_def walk_and_hash_def walk_content_def should_include_def sync_example_path
    gitignored_def sync_example_filter_def oversized_def max_file_size_def max_file_size_bytes_def max_repo_bytes_def
    max_repo_files_def file_entry_of_def relative_path_def sync_example_codec_def sync_example_entry_def)

lemma sync_example_codec_at:
  "co_print_json sync_example_codec = sync_example_print" "co_gzip sync_example_codec ''D'' = Inr ''D''"
  "co_gzip sync_example_codec [CHR ''F'', nl] = Inr [CHR ''F'', nl]"
  "co_read_queued sync_example_codec t = Inr (Some \<lparr>qc_files = 1, qc_deletes = 0, qc_bytes = 1\<rparr>)"
  "co_read_diff sync_example_codec ''missing'' = Inr \<lparr>dr_sync_id = ''s'', dr_need = [''a''], dr_delete = []\<rparr>"
  by (simp_all add: sync_example_codec_def)

lemma sync_example_host_at:
  "sh_codec sync_example_host = sync_example_codec" "sh_post sync_example_host = sync_example_post"
  "sh_cancelled sync_example_host w = False" "sh_now sync_example_host w = 0"
  by (simp_all add: sync_example_host_def)

lemma sync_example_diff:
  "call_diff sync_example_host sync_example_config [sync_example_entry] False [] False =
     (Inr \<lparr>dr_sync_id = ''s'', dr_need = [''a''], dr_delete = []\<rparr>, False)"
  by (simp add: call_diff_def sync_example_host_at sync_example_codec_at sync_example_print_def max_diff_body_gz_bytes_def
    diff_loop.simps diff_http_def sync_example_post_def sync_example_config_def read_body_def)

lemma sync_example_upload:
  "stream_batches sync_example_host sync_example_config sync_example_schedule ''s'' [sync_example_entry] [] False =
     Some (Inr \<lparr>bs_files_uploaded = 1, bs_files_deleted = 0, bs_bytes_uploaded = 1, bs_duplicate_batches = 0\<rparr>, True)"
proof -
  have chunk: "chunk_into_batches [sync_example_entry] [] = [\<lparr>ba_files = [sync_example_entry], ba_deletes = []\<rparr>]"
    by (simp add: chunk_into_batches_def)
  have line: "build_batch_ndjson sync_example_codec \<lparr>ba_files = [sync_example_entry], ba_deletes = []\<rparr> = [CHR ''F'', nl]"
    by (simp add: build_batch_ndjson_def sync_example_codec_at file_line_def sync_example_print_def diff_request_def)
      (simp add: sync_example_codec_def sync_example_entry_def)
  show ?thesis
    by (simp add: stream_batches_def chunk sync_example_schedule_def stream_start_def drive_step_def running_def
      stream_concurrency_def advance_def sync_example_host_at line sync_example_codec_at sync_example_post_def
      stream_http_def sync_example_config_def judge_reply_def read_body_def after_round_def queued_outcome_def
      reap_def add_outcome_def)
qed

lemma sync_example_poll:
  "poll_sync_complete sync_example_host (new_streamer sync_example_config) ''s'' True = Some (Inr (), True)"
  by (simp add: poll_sync_complete_def new_streamer_def sync_deadline_def ns_per_s_def poll_loop.simps
    sync_example_host_at sync_example_post_def complete_http_def sync_example_config_def judge_poll_def)

lemma sync_example_run:
  "full_sync sync_example_host (new_streamer sync_example_config) sync_example_schedule ''/r'' sync_example_filter
     sync_example_walk False =
   Some (Inr \<lparr>sy_files_hashed = 1, sy_files_uploaded = 1, sy_files_deleted = 0, sy_bytes_uploaded = 1,
     sy_duplicate_batches = 0, sy_duration = 0\<rparr>, True)"
proof -
  have c: "st_config (new_streamer sync_example_config) = sync_example_config" by (simp add: new_streamer_def)
  obtain items where w: "sync_example_walk False = (items, False)" by (simp add: sync_example_walk_def)
  then have walk: "walk_and_hash sync_example_codec ''/r'' sync_example_filter max_file_size_bytes max_repo_bytes
      max_repo_files items = Inr [sync_example_entry]"
    using sync_example_walk_result [of False] by simp
  have need: "entries_filtered_by_need [sync_example_entry] [''a''] = [sync_example_entry]"
    by (simp add: entries_filtered_by_need_def sync_example_entry_def)
  show ?thesis
    by (simp add: full_sync_def w walk sync_example_host_at sync_entries_def Let_def c sync_example_diff need
      sync_example_upload sync_example_poll no_stats_def)
qed


lemma sync_example_upload_run:
  obtains st where "stream_run sync_example_host sync_example_config ''s'' sync_example_schedule
    (stream_start (chunk_into_batches [sync_example_entry] []) False) = Some st"
  using sync_example_upload by (auto simp: stream_batches_def split: option.splits)

theorem upload_load_bounded_witness:
  "\<exists>st. stream_run sync_example_host sync_example_config ''s'' sync_example_schedule
      (stream_start (chunk_into_batches [sync_example_entry] []) False) = Some st \<and>
    length (sm_log st) \<le> 4 * length (chunk_into_batches [sync_example_entry] [])"
proof -
  obtain st where run: "stream_run sync_example_host sync_example_config ''s'' sync_example_schedule
      (stream_start (chunk_into_batches [sync_example_entry] []) False) = Some st"
    by (rule sync_example_upload_run)
  from upload_load_bounded [OF run] run show ?thesis by (intro exI [of _ st]) (elim conjE, intro conjI)
qed

theorem upload_ends_witness:
  "length sync_example_schedule \<le> 10 * length (chunk_into_batches [sync_example_entry] []) + 3"
proof -
  obtain st where run: "stream_run sync_example_host sync_example_config ''s'' sync_example_schedule
      (stream_start (chunk_into_batches [sync_example_entry] []) False) = Some st"
    by (rule sync_example_upload_run)
  from upload_ends [OF run] show ?thesis by (rule conjunct1)
qed

theorem batch_id_fingerprint_witness:
  "deterministic_batch_id (sync_example_codec\<lparr>co_sha256_hex := \<lambda>t. t\<rparr>) \<lparr>ba_files = [], ba_deletes = [''a'', ''b'']\<rparr> =
   deterministic_batch_id (sync_example_codec\<lparr>co_sha256_hex := \<lambda>t. t\<rparr>) \<lparr>ba_files = [], ba_deletes = [''b'', ''a'']\<rparr>"
  by (subst batch_id_fingerprint) (auto simp: batch_lines_def inj_on_def)

theorem polling_returns_witness:
  "\<exists>r w'. poll_sync_complete sync_example_host (new_streamer sync_example_config) ''s'' True = Some (r, w') \<and> poll_result r"
  by (rule polling_returns)
    (auto simp: time_passes_def sync_example_host_def new_streamer_def poll_interval_def ns_per_s_def)

theorem walk_lists_included_witness:
  "sum_list (map (length \<circ> fe_content) [sync_example_entry]) \<le> max_repo_bytes"
  using walk_lists_included [OF sync_example_walk_result] by blast

theorem blocked_root_lists_nothing_witness:
  "full_sync sync_example_host (new_streamer sync_example_config) [] ''/h/build/x'' sync_example_filter
     (\<lambda>w. ([\<lparr>wi_cancelled = False, wi_entry = Inr ''/h/build/x/a'',
        wi_view = \<lparr>fv_is_file = \<lambda>_. True, fv_is_dir = \<lambda>_. False, fv_len = \<lambda>_. Some 1\<rparr>,
        wi_metadata_len = Some 1, wi_read = Inr ''x''\<rparr>], w)) True =
   sync_entries sync_example_host (new_streamer sync_example_config) [] 0 [] False [] True"
proof -
  have b: "is_blocked_dir ''/h/build/x''" and p: "prefix (components ''/h/build/x'') (components ''/h/build/x/a'')"
    by code_simp+
  show ?thesis
    by (subst blocked_root_lists_nothing [OF b _ refl]) (use p in \<open>auto simp: sync_example_host_at\<close>)
qed

end
