(* ===== verification/Permissions.thy ===== *)
theory Permissions
  imports RustPath JsonValue
begin

section \<open>Tool permissions (\<open>agent_bridge/permissions.rs\<close>)\<close>

text \<open>
  What a user allows the agent to do, per project: a level and per-tool overrides, kept in an SQLite table.
  The table is its rows by key; a connection may also fail, which reading takes for a missing row. The JSON
  text of the overrides is written and read by \<open>serde_json\<close>, a parameter.
\<close>

datatype permission_level = AutoApproveAll | ApproveDestructive | ApproveEverything

record tool_overrides =
  to_auto_approve :: "rstr list"
  to_always_ask :: "rstr list"

record permission_config =
  pc_project_path :: "rstr option"
  pc_level :: permission_level
  pc_tool_overrides :: "tool_overrides option"

definition destructive_tools :: "rstr list" where
  "destructive_tools = [''write'', ''edit'', ''bash'', ''git'', ''create_pr'', ''apply_patch'']"

definition system_tools :: "rstr list" where
  "system_tools = [''todo_write'', ''ask_user'', ''save_plan'', ''edit_plan'']"

fun level_to_str :: "permission_level \<Rightarrow> rstr" where
  "level_to_str AutoApproveAll = ''auto_approve_all''"
| "level_to_str ApproveDestructive = ''approve_destructive''"
| "level_to_str ApproveEverything = ''approve_everything''"

definition str_to_level :: "rstr \<Rightarrow> permission_level" where
  "str_to_level s =
     (if s = ''auto_approve_all'' then AutoApproveAll
      else if s = ''approve_everything'' then ApproveEverything
      else ApproveDestructive)"

definition is_destructive :: "rstr \<Rightarrow> bool" where
  "is_destructive tool_name \<longleftrightarrow> tool_name \<in> set destructive_tools"

definition needs_approval :: "permission_config \<Rightarrow> rstr \<Rightarrow> bool" where
  "needs_approval config tool_name =
     (let by_level =
        (if tool_name \<in> set system_tools then False
         else case pc_level config of
           AutoApproveAll \<Rightarrow> False
         | ApproveEverything \<Rightarrow> True
         | ApproveDestructive \<Rightarrow> is_destructive tool_name)
      in case pc_tool_overrides config of
           None \<Rightarrow> by_level
         | Some overrides \<Rightarrow>
             if tool_name \<in> set (to_auto_approve overrides) then False
             else if tool_name \<in> set (to_always_ask overrides) then True
             else by_level)"

subsection \<open>The table\<close>

type_synonym permission_row = "rstr \<times> rstr option"

record permission_db =
  db_rows :: "rstr \<Rightarrow> permission_row option"
  db_broken :: "rstr option"

definition global_key :: rstr where "global_key = ''__global__''"

definition select_row :: "permission_db \<Rightarrow> rstr \<Rightarrow> permission_row option" where
  "select_row db key = (if db_broken db = None then db_rows db key else None)"

definition config_of :: "(rstr \<Rightarrow> tool_overrides option) \<Rightarrow> rstr option \<Rightarrow> permission_row \<Rightarrow> permission_config" where
  "config_of read_overrides project_path row =
     \<lparr>pc_project_path = project_path, pc_level = str_to_level (fst row),
      pc_tool_overrides = Option.bind (snd row) read_overrides\<rparr>"

text \<open>The walk up the parent directories; it stops before an empty path.\<close>

function find_ancestor :: "permission_db \<Rightarrow> rstr \<Rightarrow> permission_row option" where
  "find_ancestor db search_path =
     (case parent_text search_path of
        None \<Rightarrow> None
      | Some parent \<Rightarrow>
          if parent = [] then None
          else
            (case select_row db parent of
               Some row \<Rightarrow> Some row
             | None \<Rightarrow> find_ancestor db parent))"
  by pat_completeness auto
termination
  by (relation "measure (\<lambda>(_, p). length p)") (auto simp: parent_text_shorter)

declare find_ancestor.simps [simp del]

definition default_permission :: permission_config where
  "default_permission =
     \<lparr>pc_project_path = None, pc_level = ApproveDestructive, pc_tool_overrides = None\<rparr>"

definition get_global :: "(rstr \<Rightarrow> tool_overrides option) \<Rightarrow> permission_db \<Rightarrow> permission_config" where
  "get_global read_overrides db =
     (case select_row db global_key of
        Some row \<Rightarrow> config_of read_overrides None row
      | None \<Rightarrow> default_permission)"

definition get_permission ::
  "(rstr \<Rightarrow> tool_overrides option) \<Rightarrow> permission_db \<Rightarrow> rstr option \<Rightarrow> permission_config" where
  "get_permission read_overrides db project_path =
     (case project_path of
        None \<Rightarrow> get_global read_overrides db
      | Some path \<Rightarrow>
          (case select_row db path of
             Some row \<Rightarrow> config_of read_overrides project_path row
           | None \<Rightarrow>
               (case find_ancestor db path of
                  Some row \<Rightarrow> config_of read_overrides project_path row
                | None \<Rightarrow> (get_global read_overrides db)\<lparr>pc_project_path := project_path\<rparr>)))"

definition set_permission ::
  "(tool_overrides \<Rightarrow> rstr + rstr) \<Rightarrow> permission_db \<Rightarrow> permission_config \<Rightarrow> (rstr + unit) \<times> permission_db" where
  "set_permission write_overrides db config =
     (let key = (case pc_project_path config of Some p \<Rightarrow> p | None \<Rightarrow> global_key);
          level = level_to_str (pc_level config);
          overrides = (case pc_tool_overrides config of
                         None \<Rightarrow> Inr None
                       | Some o1 \<Rightarrow> map_sum id Some (write_overrides o1))
      in case overrides of
           Inl e \<Rightarrow> (Inl e, db)
         | Inr text \<Rightarrow>
             (case db_broken db of
                Some e \<Rightarrow> (Inl e, db)
              | None \<Rightarrow> (Inr (), db\<lparr>db_rows := (db_rows db)(key \<mapsto> (level, text))\<rparr>)))"

subsection \<open>Reading what was saved\<close>

lemma str_to_level_to_str [simp]: "str_to_level (level_to_str l) = l"
  by (cases l) (simp_all add: str_to_level_def)

text \<open>The directories a path lies in, nearest first.\<close>

function ancestors :: "rstr \<Rightarrow> rstr list" where
  "ancestors p =
     (case parent_text p of None \<Rightarrow> [] | Some q \<Rightarrow> if q = [] then [] else q # ancestors q)"
  by pat_completeness auto
termination
  by (relation "measure length") (auto simp: parent_text_shorter)

declare ancestors.simps [simp del]

definition first_row :: "permission_db \<Rightarrow> rstr list \<Rightarrow> permission_row option" where
  "first_row db ps = Option.bind (find (\<lambda>p. select_row db p \<noteq> None) ps) (select_row db)"

lemma first_row_simps [simp]:
  "first_row db [] = None"
  "first_row db (p # ps) = (case select_row db p of Some row \<Rightarrow> Some row | None \<Rightarrow> first_row db ps)"
  by (auto simp: first_row_def split: option.splits)

lemma first_row_append:
  "first_row db (ps @ qs) = (case first_row db ps of Some row \<Rightarrow> Some row | None \<Rightarrow> first_row db qs)"
  by (induction ps) (auto split: option.splits)

lemma find_ancestor_first_row: "find_ancestor db p = first_row db (ancestors p)"
proof (induction db p rule: find_ancestor.induct)
  case (1 db p)
  show ?case
    by (subst find_ancestor.simps, subst ancestors.simps)
      (use 1 in \<open>auto split: option.splits\<close>)
qed

text \<open>
  a project's permissions are those saved for the nearest directory it lies in, itself included
  (which is how a worktree below a project gets the project's), else the global ones, else the default.
\<close>

theorem permissions_of_nearest_directory:
  "get_permission rd db (Some path) =
     (case first_row db (path # ancestors path @ [global_key]) of
        Some row \<Rightarrow> config_of rd (Some path) row
      | None \<Rightarrow> default_permission\<lparr>pc_project_path := Some path\<rparr>)"
  by (auto simp: get_permission_def get_global_def config_of_def default_permission_def find_ancestor_first_row
    first_row_append split: option.splits)

text \<open>A saved configuration is read back, if its overrides survive the trip through JSON.\<close>

lemma set_then_get:
  assumes "set_permission wr db config = (Inr (), db')"
    and "\<And>o1 t. wr o1 = Inr t \<Longrightarrow> rd t = Some o1"
  shows "get_permission rd db' (pc_project_path config) = config"
proof -
  have "select_row db' (case pc_project_path config of Some p \<Rightarrow> p | None \<Rightarrow> global_key) =
      Some (level_to_str (pc_level config), case pc_tool_overrides config of None \<Rightarrow> None
        | Some o1 \<Rightarrow> (case wr o1 of Inr t \<Rightarrow> Some t | Inl _ \<Rightarrow> None))"
    using assms(1) by (auto simp: set_permission_def select_row_def Let_def split: option.splits sum.splits)
  moreover have "\<exists>t. wr o1 = Inr t" if "pc_tool_overrides config = Some o1" for o1
    using assms(1) that by (cases "wr o1") (auto simp: set_permission_def Let_def)
  ultimately show ?thesis
    using assms(2)
    by (cases config) (force simp: get_permission_def get_global_def config_of_def split: option.splits sum.splits)
qed

end
