(* ===== verification/PlanTools.thy ===== *)
theory PlanTools
  imports ToolRegistry AgentDir
begin

section \<open>Read, todo, plan and question tools (\<open>tool/read.rs\<close>, \<open>todo_write.rs\<close>, \<open>save_plan.rs\<close>, \<open>edit_plan.rs\<close>, \<open>ask_user.rs\<close>)\<close>

text \<open>
  The entries of a directory come from the operating system: a \<open>dir_reader\<close> gives them for a path, an error of
  a single entry included. Which characters beyond ASCII are alphanumeric is Unicode's to say, a parameter.
\<close>

datatype dir_item = DirEntry rstr bool | DirError rstr

type_synonym dir_reader = "rstr \<Rightarrow> rstr + dir_item list"

subsection \<open>read\<close>

definition read_default_limit :: nat where "read_default_limit = 2000"
definition max_line_length :: nat where "max_line_length = 2000"
definition read_max_bytes :: nat where "read_max_bytes = 50 * 1024"

fun dir_names :: "dir_item list \<Rightarrow> rstr + rstr list" where
  "dir_names [] = Inr []"
| "dir_names (DirError e # items) = Inl e"
| "dir_names (DirEntry name is_dir # items) =
     map_sum id (\<lambda>ns. (from_utf8_lossy name @ (if is_dir then ''/'' else [])) # ns) (dir_names items)"

definition read_directory :: "dir_reader \<Rightarrow> rstr \<Rightarrow> nat \<Rightarrow> nat \<Rightarrow> tool_outcome" where
  "read_directory read_dir path offset limit =
     (case read_dir path of
        Inl e \<Rightarrow> Failed (''Failed to read directory: '' @ e)
      | Inr items \<Rightarrow>
          (case dir_names items of
             Inl e \<Rightarrow> Failed (''Error reading entry: '' @ e)
           | Inr entries \<Rightarrow>
               let listing = join [nl] (take limit (drop (offset - 1) (sort entries)))
               in Finished (result_success (''Directory: '' @ path @ [nl, nl] @ listing))))"

text \<open>One line as it is shown: its number, a tab, at most 2000 bytes of it, a line end.\<close>

definition read_line :: "nat \<Rightarrow> rstr \<Rightarrow> rstr" where
  "read_line line_num line =
     nat_str line_num @ [CHR 0x09] @
     (if max_line_length < length line then truncated line max_line_length else line) @ [nl]"

fun read_lines :: "nat \<Rightarrow> nat \<Rightarrow> nat \<Rightarrow> nat \<Rightarrow> rstr list \<Rightarrow> rstr" where
  "read_lines start selected i so_far [] = []"
| "read_lines start selected i so_far (line # ls) =
     (let formatted = read_line (start + i + 1) line in
      if read_max_bytes < so_far + length formatted
      then [nl] @ ''... truncated (file too large, showing '' @ nat_str i @ '' of '' @ nat_str selected @
           '' selected lines)''
      else formatted @ read_lines start selected (i + 1) (so_far + length formatted) ls)"

text \<open>\<open>start + limit\<close> is a \<open>usize\<close> sum; a slice whose end lies before its start panics.\<close>

definition read_content :: "rstr list \<Rightarrow> nat \<Rightarrow> nat \<Rightarrow> rstr option" where
  "read_content lines offset limit =
     (let total = length lines;
          start = (if offset > 0 then min (offset - 1) total else 0);
          last_line = min ((start + limit) mod 2 ^ 64) total
      in if last_line < start then None
         else
           let selected = take (last_line - start) (drop start lines)
           in Some (read_lines start (length selected) 0 0 selected @
                (if start > 0 \<or> last_line < total
                 then [nl] @ ''(showing lines '' @ nat_str (start + 1) @ ''-'' @ nat_str last_line @ '' of '' @
                      nat_str total @ '' total)''
                 else [])))"

definition read_file :: "io_env \<Rightarrow> rstr \<Rightarrow> nat \<Rightarrow> nat \<Rightarrow> cworld \<Rightarrow> tool_outcome \<times> cworld" where
  "read_file env path offset limit w =
     (case fs_read env path w of
        (Inl e, w1) \<Rightarrow> (Failed (''Failed to read file: '' @ io_text e), w1)
      | (Inr raw_bytes, w1) \<Rightarrow>
          if CHR 0x00 \<in> set (take 4096 raw_bytes)
          then (Finished (result_error (''Error: '' @ path @ '' appears to be a binary file'')), w1)
          else
            (case read_content (str_lines (from_utf8_lossy raw_bytes)) offset limit of
               None \<Rightarrow> (Panicked, w1)
             | Some output \<Rightarrow> (Finished (result_success output), w1)))"

definition read_execute ::
  "dir_reader \<Rightarrow> io_env \<Rightarrow> tool_context \<Rightarrow> json \<Rightarrow> cworld \<Rightarrow> tool_outcome \<times> cworld" where
  "read_execute read_dir env ctx args w =
     (case get_str ''filePath'' args of
        None \<Rightarrow> (Failed (missing_parameter ''filePath''), w)
      | Some file_path \<Rightarrow>
          let offset = (case get_u64 ''offset'' args of Some n \<Rightarrow> n | None \<Rightarrow> 0);
              limit = (case get_u64 ''limit'' args of Some n \<Rightarrow> n | None \<Rightarrow> read_default_limit);
              path = resolve_path (tx_working_dir ctx) file_path
          in if \<not> path_exists env path w
             then (Finished (result_error (''Error: Path does not exist: '' @ path)), w)
             else if env_dir env (env_loc env path) then (read_directory read_dir path offset limit, w)
             else read_file env path offset limit w)"

subsection \<open>todo_write\<close>

definition todo_field :: "rstr \<Rightarrow> rstr \<Rightarrow> json \<Rightarrow> rstr" where
  "todo_field key dflt item = (case get_str key item of Some s \<Rightarrow> s | None \<Rightarrow> dflt)"

fun read_todos :: "nat \<Rightarrow> json list \<Rightarrow> rstr + todo_item list" where
  "read_todos i [] = Inr []"
| "read_todos i (item # items) =
     (let td = \<lparr>todo_id = todo_field ''id'' [] item, todo_content = todo_field ''content'' [] item,
                todo_status = todo_field ''status'' ''pending'' item\<rparr>
      in if todo_id td = [] \<or> todo_content td = []
         then Inl (''Todo item at index '' @ nat_str i @ '' must have non-empty '' @ quoted ''id'' @ '' and '' @
                quoted ''content'' @ ''.'')
         else if todo_status td \<notin> {''pending'', ''in_progress'', ''completed''}
         then Inl (''Todo item '' @ quoted (todo_id td) @ '' has invalid status '' @ quoted (todo_status td) @
                ''. Must be: pending, in_progress, or completed.'')
         else map_sum id (\<lambda>tds. td # tds) (read_todos (i + 1) items))"

definition todo_line :: "todo_item \<Rightarrow> rstr" where
  "todo_line td =
     ''- '' @ (if todo_status td = ''completed'' then ''[x]''
              else if todo_status td = ''in_progress'' then ''[-]'' else ''[ ]'') @
     '' '' @ todo_content td @ [nl]"

definition todo_markdown :: "todo_item list \<Rightarrow> rstr" where
  "todo_markdown todos = ''# Agent Todos'' @ [nl, nl] @ concat (map todo_line todos)"

definition todo_write_execute ::
  "io_env \<Rightarrow> rstr option \<Rightarrow> tool_context \<Rightarrow> json \<Rightarrow> cworld \<Rightarrow> agent_event list \<times> tool_outcome \<times> cworld" where
  "todo_write_execute env git_dir ctx args w =
     (case get_array ''todos'' args of
        None \<Rightarrow> ([], Finished (result_error (quoted ''todos'' @ '' must be a non-empty array.'')), w)
      | Some arr \<Rightarrow>
          (case read_todos 0 arr of
             Inl e \<Rightarrow> ([], Finished (result_error e), w)
           | Inr todos \<Rightarrow>
               let w1 = snd (fs_write env (path_join (agent_dir (tx_working_dir ctx)) ''todos.md'') (todo_markdown todos)
                          (ensure_agent_dir env git_dir w))
               in ([TodoUpdated (tx_session_id ctx) todos], Finished (result_success (todo_markdown todos)), w1)))"

subsection \<open>save_plan and ask_user\<close>

definition plan_char_ok :: "(rstr \<Rightarrow> bool) \<Rightarrow> rstr \<Rightarrow> bool" where
  "plan_char_ok alphanumeric c \<longleftrightarrow>
     (case c of [b] \<Rightarrow> is_ascii_alphanumeric b \<or> b \<in> {CHR ''-'', CHR ''_'', CHR ''.''} | _ \<Rightarrow> alphanumeric c)"

definition safe_plan_name :: "(rstr \<Rightarrow> bool) \<Rightarrow> rstr \<Rightarrow> rstr" where
  "safe_plan_name alphanumeric filename =
     (let safe = concat (map (\<lambda>c. if plan_char_ok alphanumeric c then c else ''-'') (str_chars filename))
      in if ends_with safe ''.md'' then safe else safe @ ''.md'')"

definition save_plan_execute ::
  "(rstr \<Rightarrow> bool) \<Rightarrow> io_env \<Rightarrow> rstr option \<Rightarrow> tool_context \<Rightarrow> json \<Rightarrow> cworld \<Rightarrow> tool_outcome \<times> cworld" where
  "save_plan_execute alphanumeric env git_dir ctx args w =
     (let plan = (case get_str ''plan'' args of Some p \<Rightarrow> p | None \<Rightarrow> []);
          filename = (case get_str ''filename'' args of Some f \<Rightarrow> if f = [] then ''plan.md'' else f | None \<Rightarrow> ''plan.md'')
      in if plan = [] then (Finished (result_error ''Plan must not be empty.''), w)
         else
           let plan_path = path_join (agent_dir (tx_working_dir ctx)) (safe_plan_name alphanumeric filename)
           in (case fs_write env plan_path plan (ensure_agent_dir env git_dir w) of
                 (Inl e, w1) \<Rightarrow> (Finished (result_error (''Failed to write plan file: '' @ io_text e)), w1)
               | (Inr _, w1) \<Rightarrow>
                   (Finished \<lparr>tr_output = ''Plan saved to '' @ plan_path, tr_is_error = False,
                      tr_yield_data = Some (JObj [(''plan'', JStr plan), (''plan_path'', JStr plan_path),
                        (''yield_type'', JStr ''save_plan'')]),
                      tr_modified_files = []\<rparr>, w1)))"

definition ask_user_execute :: "json \<Rightarrow> tool_outcome" where
  "ask_user_execute args =
     (let question = (case get_str ''question'' args of Some q \<Rightarrow> q | None \<Rightarrow> []);
          options = (case get_array ''options'' args of
                       None \<Rightarrow> JNull | Some arr \<Rightarrow> JArr (map JStr (List.map_filter as_str arr)))
      in if question = [] then Finished (result_error ''Question must not be empty.'')
         else Finished \<lparr>tr_output = ''Question asked: '' @ question, tr_is_error = False,
                tr_yield_data = Some (JObj [(''options'', options), (''question'', JStr question),
                  (''yield_type'', JStr ''ask_user'')]),
                tr_modified_files = []\<rparr>)"

subsection \<open>edit_plan\<close>

text \<open>The names up to the first entry that cannot be read.\<close>

fun plan_names :: "dir_item list \<Rightarrow> rstr list" where
  "plan_names [] = []"
| "plan_names (DirError e # items) = []"
| "plan_names (DirEntry name is_dir # items) =
     (if starts_with (from_utf8_lossy name) ''plan'' \<and> ends_with (from_utf8_lossy name) ''.md''
      then name # plan_names items else plan_names items)"

definition discover_plan_file :: "dir_reader \<Rightarrow> io_env \<Rightarrow> rstr \<Rightarrow> cworld \<Rightarrow> rstr + rstr" where
  "discover_plan_file read_dir env working_dir w =
     (let dir = agent_dir working_dir in
      if \<not> path_exists env dir w then Inl ''No .agent/ directory found. No plan files to edit.''
      else
        (case read_dir dir of
           Inl e \<Rightarrow> Inl (''Failed to read .agent/ directory: '' @ e)
         | Inr items \<Rightarrow>
             (case plan_names items of
                [] \<Rightarrow> Inl ''No plan files found in .agent/. Use save_plan to create one first.''
              | [name] \<Rightarrow> Inr (path_join dir name)
              | names \<Rightarrow> Inl (''Multiple plan files found: '' @ join '', '' (map from_utf8_lossy names) @
                    ''. Specify file_path to choose one.''))))"

definition edit_plan_execute ::
  "edit_crates \<Rightarrow> dir_reader \<Rightarrow> io_env \<Rightarrow> tool_context \<Rightarrow> json \<Rightarrow> cworld \<Rightarrow> tool_outcome \<times> cworld" where
  "edit_plan_execute crates read_dir env ctx args w =
     (let failed = (\<lambda>e w. (Finished (result_error e), w)); wd = tx_working_dir ctx in
      case get_str ''old_text'' args of
        None \<Rightarrow> failed (quoted ''old_text'' @ '' is required and must be non-empty.'') w
      | Some old_text \<Rightarrow>
          if old_text = [] then failed (quoted ''old_text'' @ '' is required and must be non-empty.'') w
          else
     (case get_str ''new_text'' args of
        None \<Rightarrow> failed (quoted ''new_text'' @ '' is required.'') w
      | Some new_text \<Rightarrow>
          if old_text = new_text then failed ''old_text and new_text are identical.'' w
          else
     (case (case get_str ''file_path'' args of
              Some fp \<Rightarrow> if fp = [] then discover_plan_file read_dir env wd w else Inr (path_join wd fp)
            | None \<Rightarrow> discover_plan_file read_dir env wd w) of
        Inl msg \<Rightarrow> failed msg w
      | Inr plan_path \<Rightarrow>
     (case fs_read_to_string env plan_path w of
        (Inl e, w1) \<Rightarrow> failed (''Failed to read plan file '' @ plan_path @ '': '' @ io_text e) w1
      | (Inr content, w1) \<Rightarrow>
     (case replace (fst crates) (snd crates) content old_text new_text False of
        None \<Rightarrow> (Panicked, w1)
      | Some (Inl err) \<Rightarrow> failed (''Edit failed in '' @ plan_path @ '': '' @ err) w1
      | Some (Inr updated) \<Rightarrow>
     (case fs_write env plan_path updated w1 of
        (Inl e, w2) \<Rightarrow> failed (''Failed to write plan file '' @ plan_path @ '': '' @ io_text e) w2
      | (Inr _, w2) \<Rightarrow>
          (Finished \<lparr>tr_output = ''Plan updated: '' @
               (case path_strip_prefix plan_path wd of Some rel \<Rightarrow> rel | None \<Rightarrow> plan_path) @ [nl, nl] @ updated,
             tr_is_error = False, tr_yield_data = None, tr_modified_files = [plan_path]\<rparr>, w2)))))))"

subsection \<open>What is read\<close>

lemma read_lines_all:
  "so_far + sum_list (map (\<lambda>(k, l). length (read_line (start + k + 1) l)) (zip [i..<i + length ls] ls)) \<le> read_max_bytes \<Longrightarrow>
     read_lines start selected i so_far ls =
       concat (map (\<lambda>(k, l). read_line (start + k + 1) l) (zip [i..<i + length ls] ls))"
proof (induction ls arbitrary: i so_far)
  case (Cons l ls)
  have "[i..<i + length (l # ls)] = i # [Suc i..<Suc i + length ls]" by (simp add: upt_rec)
  with Cons show ?case by (auto simp: Let_def)
qed simp

text \<open>
  reading a window of a file shows exactly the lines of the window, each with its line number in the
  file, and says which part of the file it is unless it is all of it; as long as the lines fit in 50 KB
  and the window's end is a machine number.
\<close>

theorem read_shows_window:
  fixes lines :: "rstr list" and offset limit :: nat
  defines "start \<equiv> min (offset - 1) (length lines)"
  defines "window \<equiv> take limit (drop start lines)"
  assumes "start + limit < 2 ^ 64"
    and "sum_list (map (\<lambda>(k, l). length (read_line (start + k + 1) l)) (zip [0..<length window] window)) \<le> read_max_bytes"
  shows "read_content lines offset limit =
    Some (concat (map (\<lambda>(k, l). read_line (start + k + 1) l) (zip [0..<length window] window)) @
      (if start > 0 \<or> start + limit < length lines
       then [nl] @ ''(showing lines '' @ nat_str (start + 1) @ ''-'' @ nat_str (min (start + limit) (length lines)) @
            '' of '' @ nat_str (length lines) @ '' total)'' else []))"
proof -
  have start: "(if offset > 0 then min (offset - 1) (length lines) else 0) = start" by (simp add: start_def)
  have last: "min ((start + limit) mod 2 ^ 64) (length lines) = min (start + limit) (length lines)"
    using assms(3) by simp
  have le: "\<not> min (start + limit) (length lines) < start" by (simp add: start_def)
  have sel: "take (min (start + limit) (length lines) - start) (drop start lines) = window"
    by (auto simp: window_def min_def start_def)
  show ?thesis
    unfolding read_content_def Let_def start last sel
    using le read_lines_all [where so_far = 0 and start = start and i = 0 and ls = window and selected = "length window"] assms(4) by (simp add: min_def)
qed

theorem read_shows_window_witness:
  "read_content [''a'', ''b'', ''c''] 2 1 =
     Some (''2'' @ [CHR 0x09] @ ''b'' @ [nl] @ [nl] @ ''(showing lines 2-2 of 3 total)'')"
proof -
  have n: "nat_str 2 = ''2''" "nat_str 3 = ''3''" by code_simp+
  show ?thesis
    by (subst read_shows_window) (simp_all add: read_line_def max_line_length_def read_max_bytes_def n numeral_2_eq_2 [symmetric]
      numeral_3_eq_3 [symmetric])
qed

text \<open>
  With the largest limit the schema allows and any offset past the first line, the window's end wraps
  around to before its start, and the slice panics.
\<close>

lemma read_huge_limit_panics:
  assumes "lines \<noteq> []"
  shows "read_content lines 2 (2 ^ 64 - 1) = None"
proof -
  have "min (2 - 1) (length lines) = (1 :: nat)" using assms by (cases lines) auto
  then show ?thesis using assms by (simp add: read_content_def Let_def)
qed

subsection \<open>Where plans go\<close>

lemma split_char_from_append: "split_char_from d cur (s @ d # t) = split_char_from d cur s @ split_char_from d [] t"
  by (induction d cur s rule: split_char_from.induct) auto

lemma split_char_append: "split_char d (s @ d # t) = split_char d s @ split_char d t"
  by (simp add: split_char_def split_char_from_append)

lemma split_char_ne [simp]: "split_char d s \<noteq> []"
  by (simp add: split_char_def)

lemma split_char_absent: "d \<notin> set s \<Longrightarrow> split_char d s = [s]"
  by (simp add: split_char_def split_char_from_absent)

text \<open>Joining one plain name to a path adds one component to it.\<close>

lemma components_path_join:
  assumes "CHR ''/'' \<notin> set name" "name \<notin> {[], ''.'', ''..''}"
  shows "components (path_join base name) = components base @ [Normal name]"
proof -
  have rel: "\<not> is_absolute name" using assms by (cases name) (auto simp: is_absolute_def starts_with_def)
  have name: "to_component name = Normal name" using assms(2) by (simp add: to_component_def)
  consider "base = []" | b where "base = b @ ''/''" | "base \<noteq> []" "last base \<noteq> CHR ''/''"
    by (metis append_butlast_last_id)
  then show ?thesis
  proof cases
    case 1
    then show ?thesis using assms rel name
      by (simp add: path_join_def components_def split_char_absent is_absolute_def starts_with_def)
  next
    case 2
    have "path_join base name = b @ CHR ''/'' # name" using 2 rel by (simp add: path_join_def)
    moreover have "is_absolute (b @ CHR ''/'' # name) = is_absolute base"
      using 2 by (cases b) (simp_all add: is_absolute_def starts_with_def)
    ultimately show ?thesis using 2 assms name split_char_append [of "CHR ''/''" b name] split_char_append [of "CHR ''/''" b "[]"]
      by (simp add: components_def Let_def split_char_absent)
  next
    case 3
    have "path_join base name = base @ CHR ''/'' # name" using 3 rel by (simp add: path_join_def)
    moreover have "is_absolute (base @ CHR ''/'' # name) = is_absolute base"
      using 3 by (cases base) (simp_all add: is_absolute_def starts_with_def)
    ultimately show ?thesis using assms name split_char_append [of "CHR ''/''" base name]
      by (simp add: components_def Let_def split_char_absent)
  qed
qed

lemma byte_inD: "byte_in lo hi s i \<Longrightarrow> lo \<le> byte_val (s ! i)"
  by (simp add: byte_in_def)

lemma multibyte_char_no_ascii:
  assumes "2 \<le> utf8_seq_len s" "i < utf8_seq_len s"
  shows "128 \<le> byte_val (s ! i)"
proof -
  have "i = 0 \<or> i = 1 \<or> i = 2 \<or> i = 3" using assms(2) by (auto simp: utf8_seq_len_def Let_def split: if_splits)
  then show ?thesis
    using assms by (elim disjE) (auto simp: utf8_seq_len_def Let_def split: if_splits dest!: byte_inD)
qed

lemma slash_not_ok: "\<not> plan_char_ok alnum ''/''"
  by (simp add: plan_char_ok_def is_ascii_alphanumeric_def is_digit_def byte_val_def)

lemma plan_chars_no_slash:
  assumes "CHR ''/'' \<in> set (if plan_char_ok alnum c then c else ''-'')" "c \<in> set (str_chars s)"
  shows False
  using assms(2,1)
proof (induction s rule: str_chars.induct)
  case (1 s)
  show ?case
  proof (cases "s = []")
    case True
    with 1 show ?thesis by (subst (asm) str_chars.simps) simp
  next
    case False
    with 1 consider (head) "c = take (max 1 (utf8_seq_len s)) s" | (tail) "c \<in> set (str_chars (drop (max 1 (utf8_seq_len s)) s))"
      by (subst (asm) str_chars.simps) auto
    then show ?thesis
    proof cases
      case tail
      then show ?thesis using 1 False by blast
    next
      case head
      show ?thesis
      proof (cases "2 \<le> utf8_seq_len s")
        case True
        have "CHR ''/'' \<notin> set c"
        proof
          assume "CHR ''/'' \<in> set c"
          then obtain i where "i < utf8_seq_len s" "s ! i = CHR ''/''"
            using head True by (auto simp: in_set_conv_nth)
          with multibyte_char_no_ascii [OF True this(1)] show False by (simp add: byte_val_def)
        qed
        with 1 show ?thesis by (auto split: if_splits)
      next
        case False
        then have "max 1 (utf8_seq_len s) = 1" by simp
        then have "c = [hd s]" using head \<open>s \<noteq> []\<close> by (cases s) simp_all
        with "1.prems"(2) have "c = ''/''" "plan_char_ok alnum c" by (auto split: if_splits)
        with slash_not_ok show ?thesis by simp
      qed
    qed
  qed
qed

lemma safe_plan_name_ok:
  "CHR ''/'' \<notin> set (safe_plan_name alnum f)" "safe_plan_name alnum f \<notin> {[], ''.'', ''..''}"
proof -
  let ?safe = "concat (map (\<lambda>c. if plan_char_ok alnum c then c else ''-'') (str_chars f))"
  have "CHR ''/'' \<notin> set ?safe"
  proof
    assume "CHR ''/'' \<in> set ?safe"
    then obtain c where "CHR ''/'' \<in> set (if plan_char_ok alnum c then c else ''-'')" "c \<in> set (str_chars f)"
      unfolding set_concat set_map by blast
    then show False by (rule plan_chars_no_slash)
  qed
  then show "CHR ''/'' \<notin> set (safe_plan_name alnum f)" by (simp add: safe_plan_name_def Let_def)
  have "ends_with (safe_plan_name alnum f) ''.md''"
    by (simp add: safe_plan_name_def Let_def ends_with_def suffix_def)
  then show "safe_plan_name alnum f \<notin> {[], ''.'', ''..''}" by (auto simp: ends_with_def suffix_def)
qed

text \<open>
  a plan is saved in the \<open>.agent\<close> directory itself and nowhere else, whatever file name the model
  gives: the file saved to is one plain component below that directory.
\<close>

theorem plan_saved_in_agent_dir:
  assumes "save_plan_execute alnum env git_dir ctx args w = (Finished r, w')" "\<not> tr_is_error r"
  shows "\<exists>name plan. components (path_join (agent_dir (tx_working_dir ctx)) name) =
      components (agent_dir (tx_working_dir ctx)) @ [Normal name] \<and> get_str ''plan'' args = Some plan \<and>
    tr_output r = ''Plan saved to '' @ path_join (agent_dir (tx_working_dir ctx)) name \<and>
    w_files w' (env_loc env (path_join (agent_dir (tx_working_dir ctx)) name)) = Some plan"
proof -
  obtain f plan where p: "get_str ''plan'' args = Some plan" and
    r: "fs_write env (path_join (agent_dir (tx_working_dir ctx)) (safe_plan_name alnum f)) plan (ensure_agent_dir env git_dir w) = (Inr (), w')"
      "tr_output r = ''Plan saved to '' @ path_join (agent_dir (tx_working_dir ctx)) (safe_plan_name alnum f)"
    using assms by (auto simp: save_plan_execute_def Let_def result_error_def split: option.splits if_splits prod.splits sum.splits)
  show ?thesis
    by (intro exI [of _ "safe_plan_name alnum f"] exI [of _ plan])
      (use r p components_path_join [OF safe_plan_name_ok] in \<open>auto simp: fs_write_def split: option.splits\<close>)
qed

text \<open>A plan with a file name that tries to leave the directory.\<close>

definition plan_example_context :: tool_context where
  "plan_example_context =
     \<lparr>tx_working_dir = ''/p'', tx_session_id = ''s'', tx_tool_call_id = ''t'', tx_checkpoint_dir = None,
      tx_checkpoint_turn = 1, tx_policy = default_policy\<rparr>"

definition plan_example_world :: cworld where
  "plan_example_world = \<lparr>w_files = [[''x''] \<mapsto> ''ab''], w_tick = 0, c_store = (\<lambda>_. None)\<rparr>"

theorem plan_saved_in_agent_dir_witness:
  "\<exists>r w' name plan. save_plan_execute (\<lambda>_. False) tree_env None plan_example_context
      (JObj [(''filename'', JStr ''../../x''), (''plan'', JStr ''P'')]) plan_example_world = (Finished r, w') \<and>
    components (path_join (agent_dir ''/p'') name) = components (agent_dir ''/p'') @ [Normal name] \<and>
    w_files w' (env_loc tree_env (path_join (agent_dir ''/p'') name)) = Some plan"
proof -
  let ?args = "JObj [(''filename'', JStr ''../../x''), (''plan'', JStr ''P'')]"
  obtain r w' where run: "save_plan_execute (\<lambda>_. False) tree_env None plan_example_context ?args plan_example_world = (Finished r, w')"
      "\<not> tr_is_error r"
    by (simp add: save_plan_execute_def get_str_def Let_def ensure_agent_dir_def ensure_git_exclude_def fs_other_def
      fs_write_def fault_now_def tree_env_def plan_example_world_def)
  from plan_saved_in_agent_dir [OF run] run(1) show ?thesis by (auto simp: plan_example_context_def)
qed

end
