(* ===== verification/Approvals.thy ===== *)
theory Approvals
  imports Permissions ToolCall PlanTools
begin

section \<open>Approval handlers (\<open>agent_bridge/events.rs\<close>, \<open>agent_bridge/commands.rs\<close>)\<close>

text \<open>
  Between the gate of a tool call and the user stand two handlers: one lets pass what the project's
  permissions do not ask for, the other shows the request and waits for the answer. A subagent's requests
  get the subagent's name in front first. A request is the tool, the call id, the arguments and the summary.
\<close>

type_synonym approval_handler = "rstr \<Rightarrow> rstr \<Rightarrow> json \<Rightarrow> rstr \<Rightarrow> approval_decision"

subsection \<open>Asking the user\<close>

text \<open>
  \<open>TauriApprovalHandler\<close>: open requests wait under their call id; \<open>resolve\<close> answers one. A second request
  under the same id drops the first one's sender, which counts as a cancelled session, and so does dropping
  the handler. Requests are numbered; an answer, once there, is what \<open>rx.await\<close> returns.
\<close>

record approval_desk =
  ad_pending :: "rstr \<Rightarrow> nat option"
  ad_answers :: "nat \<Rightarrow> approval_decision option"
  ad_next :: nat

datatype desk_event = Request rstr | Resolve rstr bool | DropHandler

definition empty_desk :: approval_desk where
  "empty_desk = \<lparr>ad_pending = \<lambda>_. None, ad_answers = \<lambda>_. None, ad_next = 0\<rparr>"

definition session_cancelled :: approval_decision where
  "session_cancelled = Denied (Some ''Session cancelled'')"

definition user_decision :: "bool \<Rightarrow> approval_decision" where
  "user_decision approved = (if approved then Approved else Denied (Some ''User denied''))"

definition answer :: "nat \<Rightarrow> approval_decision \<Rightarrow> approval_desk \<Rightarrow> approval_desk" where
  "answer n d desk = desk\<lparr>ad_answers := (ad_answers desk)(n \<mapsto> d)\<rparr>"

definition request :: "rstr \<Rightarrow> approval_desk \<Rightarrow> approval_desk" where
  "request tool_call_id desk =
     (let desk1 = (case ad_pending desk tool_call_id of
                     Some old \<Rightarrow> answer old session_cancelled desk | None \<Rightarrow> desk)
      in desk1\<lparr>ad_pending := (ad_pending desk1)(tool_call_id \<mapsto> ad_next desk), ad_next := Suc (ad_next desk)\<rparr>)"

definition resolve :: "rstr \<Rightarrow> bool \<Rightarrow> approval_desk \<Rightarrow> approval_desk" where
  "resolve tool_call_id approved desk =
     (case ad_pending desk tool_call_id of
        None \<Rightarrow> desk
      | Some n \<Rightarrow> (answer n (user_decision approved) desk)\<lparr>ad_pending := (ad_pending desk)(tool_call_id := None)\<rparr>)"

definition drop_handler :: "approval_desk \<Rightarrow> approval_desk" where
  "drop_handler desk =
     desk\<lparr>ad_answers := (\<lambda>n. if n \<in> ran (ad_pending desk) then Some session_cancelled else ad_answers desk n),
          ad_pending := (\<lambda>_. None)\<rparr>"

fun desk_step :: "desk_event \<Rightarrow> approval_desk \<Rightarrow> approval_desk" where
  "desk_step (Request i) desk = request i desk"
| "desk_step (Resolve i b) desk = resolve i b desk"
| "desk_step DropHandler desk = drop_handler desk"

definition desk_run :: "desk_event list \<Rightarrow> approval_desk" where
  "desk_run evs = fold desk_step evs empty_desk"

subsection \<open>The handlers\<close>

definition permission_aware :: "permission_config \<Rightarrow> approval_handler \<Rightarrow> approval_handler" where
  "permission_aware config inner tool_name tool_call_id args args_summary =
     (if \<not> starts_with args_summary ''[SECURITY]'' \<and> \<not> needs_approval config tool_name then Approved
      else inner tool_name tool_call_id args args_summary)"

definition for_subagent :: "rstr \<Rightarrow> approval_handler \<Rightarrow> approval_handler" where
  "for_subagent subagent_name inner tool_name tool_call_id args args_summary =
     inner tool_name tool_call_id args (''(subagent:'' @ subagent_name @ '') '' @ args_summary)"

definition create_approval_handler :: "permission_config \<Rightarrow> approval_handler \<Rightarrow> approval_handler" where
  "create_approval_handler config user = permission_aware config user"

subsection \<open>What the desk promises\<close>

definition desk_ok :: "approval_desk \<Rightarrow> bool" where
  "desk_ok desk \<longleftrightarrow>
     inj_on (ad_pending desk) (dom (ad_pending desk)) \<and>
     (\<forall>i n. ad_pending desk i = Some n \<longrightarrow> n < ad_next desk \<and> ad_answers desk n = None) \<and>
     (\<forall>n. ad_answers desk n \<noteq> None \<longrightarrow> n < ad_next desk)"

lemma desk_ok_step: "desk_ok desk \<Longrightarrow> desk_ok (desk_step ev desk)"
proof (cases ev)
  case (Request i)
  assume ok: "desk_ok desk"
  show ?thesis
  proof (cases "ad_pending desk i")
    case None
    with ok Request show ?thesis
      by (fastforce simp: desk_ok_def request_def inj_on_def dom_def Let_def)
  next
    case (Some old)
    with ok Request show ?thesis
      by (fastforce simp: desk_ok_def request_def answer_def inj_on_def dom_def Let_def)
  qed
next
  case (Resolve i b)
  assume "desk_ok desk"
  with Resolve show ?thesis
    by (fastforce simp: desk_ok_def resolve_def answer_def inj_on_def dom_def split: option.splits)
next
  case DropHandler
  assume "desk_ok desk"
  with DropHandler show ?thesis
    by (fastforce simp: desk_ok_def drop_handler_def inj_on_def ran_def)
qed

lemma answers_stay: "desk_ok desk \<Longrightarrow> ad_answers desk n = Some d \<Longrightarrow> ad_answers (desk_step ev desk) n = Some d"
  by (cases ev) (auto simp: desk_ok_def request_def resolve_def drop_handler_def answer_def Let_def ran_def split: option.splits)

fun is_request :: "desk_event \<Rightarrow> bool" where
  "is_request (Request _) = True"
| "is_request _ = False"

text \<open>\<open>quiet i evs\<close>: nothing among the events concerns the request open under the id.\<close>

fun concerns :: "rstr \<Rightarrow> desk_event \<Rightarrow> bool" where
  "concerns i (Request j) \<longleftrightarrow> i = j"
| "concerns i (Resolve j _) \<longleftrightarrow> i = j"
| "concerns i DropHandler \<longleftrightarrow> True"

definition open_since :: "desk_event list \<Rightarrow> rstr \<Rightarrow> nat \<Rightarrow> bool" where
  "open_since evs i n \<longleftrightarrow>
     (\<exists>pre mid. evs = pre @ Request i # mid \<and> length (filter is_request pre) = n \<and> (\<forall>ev \<in> set mid. \<not> concerns i ev))"

definition approved_in :: "desk_event list \<Rightarrow> nat \<Rightarrow> bool" where
  "approved_in evs n \<longleftrightarrow> (\<exists>before i post. evs = before @ Resolve i True # post \<and> open_since before i n)"

lemma desk_run_snoc: "desk_run (evs @ [ev]) = desk_step ev (desk_run evs)"
  by (simp add: desk_run_def)

lemma desk_ok_run: "desk_ok (desk_run evs)"
proof (induction evs rule: rev_induct)
  case Nil
  show ?case by (simp add: desk_run_def desk_ok_def empty_desk_def)
qed (simp add: desk_run_snoc desk_ok_step)

lemma open_since_snoc: "open_since evs i n \<Longrightarrow> \<not> concerns i ev \<Longrightarrow> open_since (evs @ [ev]) i n"
proof -
  assume "open_since evs i n" "\<not> concerns i ev"
  then obtain pre mid where "evs = pre @ Request i # mid" "length (filter is_request pre) = n"
    "\<forall>e \<in> set (mid @ [ev]). \<not> concerns i e"
    by (auto simp: open_since_def)
  then show ?thesis unfolding open_since_def by (intro exI [of _ pre] exI [of _ "mid @ [ev]"]) simp
qed

lemma approved_in_snoc: "approved_in evs n \<Longrightarrow> approved_in (evs @ [ev]) n"
  unfolding approved_in_def by (metis append.assoc append_Cons)

lemma desk_next: "ad_next (desk_run evs) = length (filter is_request evs)"
proof (induction evs rule: rev_induct)
  case (snoc ev evs)
  then show ?case
    by (cases ev) (simp_all add: desk_run_snoc request_def resolve_def drop_handler_def answer_def Let_def split: option.splits)
qed (simp add: desk_run_def empty_desk_def)

lemma desk_traced:
  "(\<forall>i n. ad_pending (desk_run evs) i = Some n \<longrightarrow> open_since evs i n) \<and>
   (\<forall>n. ad_answers (desk_run evs) n = Some Approved \<longrightarrow> approved_in evs n)"
proof (induction evs rule: rev_induct)
  case Nil
  show ?case by (simp add: desk_run_def empty_desk_def)
next
  case (snoc ev evs)
  let ?d = "desk_run evs"
  have IH: "ad_pending ?d i = Some n \<Longrightarrow> open_since evs i n" "ad_answers ?d n = Some Approved \<Longrightarrow> approved_in evs n" for i n
    using snoc by auto
  have old: "ad_answers ?d n = Some Approved \<Longrightarrow> approved_in (evs @ [ev]) n" for n
    by (intro approved_in_snoc IH)
  show ?case
  proof (cases ev)
    case (Request j)
    have "open_since (evs @ [Request j]) j (ad_next ?d)"
      unfolding open_since_def desk_next by (intro exI [of _ evs] exI [of _ "[]"]) simp
    moreover have "ad_pending ?d i = Some n \<Longrightarrow> i \<noteq> j \<Longrightarrow> open_since (evs @ [Request j]) i n" for i n
      by (intro open_since_snoc IH) simp_all
    ultimately show ?thesis using Request old
      by (auto simp: desk_run_snoc request_def answer_def session_cancelled_def Let_def split: option.splits if_splits)
  next
    case (Resolve j b)
    have "ad_pending ?d i = Some n \<Longrightarrow> i \<noteq> j \<Longrightarrow> open_since (evs @ [Resolve j b]) i n" for i n
      by (intro open_since_snoc IH) simp_all
    moreover from this have "ad_pending ?d j = None \<Longrightarrow> ad_pending ?d i = Some n \<Longrightarrow> open_since (evs @ [Resolve j b]) i n" for i n
      by (cases "i = j") auto
    moreover have "approved_in (evs @ [Resolve j True]) n" if "ad_pending ?d j = Some n" for n
      using IH(1) [OF that] unfolding approved_in_def by blast
    ultimately show ?thesis using Resolve old IH(1)
      by (auto simp: desk_run_snoc resolve_def answer_def user_decision_def split: option.splits if_splits)
  next
    case DropHandler
    then show ?thesis using old
      by (auto simp: desk_run_snoc drop_handler_def session_cancelled_def split: if_splits)
  qed
qed

text \<open>
  C27: a tool call waiting for the user is approved by that user's answer to that very request and by
  nothing else: not by a later request under the same call id, not by an earlier answer, not by the
  session's end. And an answer, once given, stays.
\<close>

theorem only_the_user_approves:
  "(ad_answers (desk_run evs) n = Some Approved \<longrightarrow> approved_in evs n) \<and>
   (\<forall>d. ad_answers (desk_run evs) n = Some d \<longrightarrow> ad_answers (desk_run (evs @ evs')) n = Some d)"
proof -
  have "ad_answers (desk_run (evs @ evs')) n = Some d" if "ad_answers (desk_run evs) n = Some d" for d
  proof (induction evs' rule: rev_induct)
    case (snoc ev evs')
    then show ?case
      using answers_stay [OF desk_ok_run] desk_run_snoc [of "evs @ evs'" ev] by simp
  qed (simp add: that)
  with desk_traced show ?thesis by blast
qed

theorem only_the_user_approves_witness:
  "approved_in [Request ''c'', Request ''d'', Resolve ''c'' True] 0 \<and>
   ad_answers (desk_run ([Request ''c'', Request ''d'', Resolve ''c'' True] @ [DropHandler])) 0 = Some Approved"
proof -
  have "ad_answers (desk_run [Request ''c'', Request ''d'', Resolve ''c'' True]) 0 = Some Approved"
    by (simp add: desk_run_def empty_desk_def request_def resolve_def answer_def user_decision_def)
  with only_the_user_approves [of "[Request ''c'', Request ''d'', Resolve ''c'' True]" 0 "[DropHandler]"]
  show ?thesis by blast
qed

subsection \<open>Writing outside the project\<close>

lemma security_tagged: "starts_with (security_summary host p) ''[SECURITY]''"
  by (simp add: security_summary_def starts_with_def)

lemma changed_only_past_gate:
  assumes "execute_tool_call_impl host turn tc w = (evs, res, w')" "w' \<noteq> w"
    and "th_parse host (fc_arguments (tc_function tc)) = Inr args"
  shows "path_gate host (fc_name (tc_function tc)) (tc_id tc) args = None"
proof (cases "gate host (fc_name (tc_function tc)) (tc_id tc) args
    (build_args_summary (th_render host) (fc_name (tc_function tc)) args (th_working_dir host))")
  case (Inl err)
  with assms show ?thesis by (simp add: execute_tool_call_impl_def Let_def)
qed (rule gate_InrD)


lemma outside_write_runs:
  assumes "\<And>s. h ''write'' ''t1'' (write_args ''/x'') s = Approved"
  shows "\<exists>evs r w'. execute_tool_call_impl (example_host (write_args ''/x'') (Some h)) 1 write_call one_file_world = (evs, Some r, w') \<and>
    \<not> tr_is_error r \<and> w_files w' [''x''] = Some ''hi''"
proof -
  let ?host = "example_host (write_args ''/x'') (Some h)"
  have "gate ?host ''write'' ''t1'' (write_args ''/x'') s = Inr write_tool" for s
    using assms
    by (simp add: gate_def registry_get_def example_host_def write_tool_def validate_args_def ask_def path_gate_def
      modified_file_path_def within_project_def example_guard write_args_def)
  moreover have "length (str_lines (''Wrote 2 bytes to '' @ resolve_path ''/p'' ''/x'')) \<le> 2000"
    "length (''Wrote 2 bytes to '' @ resolve_path ''/p'' ''/x'') \<le> 51200"
    by (simp_all add: resolve_path_def is_absolute_def starts_with_def str_lines_def)
  moreover have "env_loc tree_env (resolve_path ''/p'' ''/x'') = [''x'']"
    by (simp add: tree_env_ok(2) example_guard)
  ultimately show ?thesis
    using example_write_run [of ?host "''...''" "write_args ''/x''" write_call "''/x''" 1 one_file_world]
    by (auto simp: example_host_def write_call_def get_str_def example_guard write_args_def)
qed

definition trusting_config :: permission_config where
  "trusting_config = \<lparr>pc_project_path = Some ''/p'', pc_level = AutoApproveAll, pc_tool_overrides = None\<rparr>"


text \<open>
  the security question does not survive delegation. A subagent's requests reach the same handler with
  the subagent's name in front of the summary, so the tag is no longer at its start: where the permissions
  do not ask for writes, a subagent writes outside the project although the user denies every request,
  while the same write by the main agent is refused.
\<close>

theorem subagent_outside_write_unasked:
  "(\<exists>evs r w'. execute_tool_call_impl
      (example_host (write_args ''/x'')
        (Some (for_subagent name (create_approval_handler trusting_config (\<lambda>_ _ _ _. Denied None)))))
      1 write_call one_file_world = (evs, Some r, w') \<and> \<not> tr_is_error r \<and> w_files w' [''x''] = Some ''hi'') \<and>
   (\<exists>evs r. execute_tool_call_impl
      (example_host (write_args ''/x'') (Some (create_approval_handler trusting_config (\<lambda>_ _ _ _. Denied None))))
      1 write_call one_file_world = (evs, Some r, one_file_world) \<and> tr_is_error r)"
proof
  show "\<exists>evs r w'. execute_tool_call_impl
      (example_host (write_args ''/x'')
        (Some (for_subagent name (create_approval_handler trusting_config (\<lambda>_ _ _ _. Denied None)))))
      1 write_call one_file_world = (evs, Some r, w') \<and> \<not> tr_is_error r \<and> w_files w' [''x''] = Some ''hi''"
    by (rule outside_write_runs)
      (simp add: for_subagent_def create_approval_handler_def permission_aware_def needs_approval_def
        trusting_config_def starts_with_def)
  show "\<exists>evs r. execute_tool_call_impl
      (example_host (write_args ''/x'') (Some (create_approval_handler trusting_config (\<lambda>_ _ _ _. Denied None))))
      1 write_call one_file_world = (evs, Some r, one_file_world) \<and> tr_is_error r"
    by (simp add: execute_tool_call_impl_def Let_def gate_def registry_get_def example_host_def write_tool_def
      validate_args_def ask_def path_gate_def modified_file_path_def within_project_def example_guard write_call_def
      write_args_def result_error_def create_approval_handler_def permission_aware_def needs_approval_def
      trusting_config_def security_tagged [unfolded example_host_def write_tool_def] split: approval_decision.splits)
qed

subsection \<open>edit_plan is no plan tool\<close>

text \<open>
  the tool for plan files edits any text file. Its path is not confined to the \<open>.agent\<close> directory nor to
  the project, the path guard looks at write and edit only, and it counts as a system tool: no permission
  level asks before it, not even the one that asks before everything. Here plan mode's tool set, which has
  no write and no edit, changes a file outside the project.
\<close>

theorem edit_plan_edits_any_file:
  "\<not> needs_approval \<lparr>pc_project_path = project, pc_level = level, pc_tool_overrides = None\<rparr> ''edit_plan'' \<and>
   path_gate host ''edit_plan'' tool_call_id args = None \<and>
   ''edit_plan'' \<in> set (mode_tools PlanMode) \<and> ''edit'' \<notin> set (mode_tools PlanMode) \<and>
   (\<exists>r w'. edit_plan_execute (\<lambda>_ _. False, \<lambda>_ _. None) read_dir tree_env plan_example_context
      (JObj [(''file_path'', JStr ''/x''), (''new_text'', JStr ''c''), (''old_text'', JStr ''b'')]) plan_example_world = (Finished r, w') \<and>
    \<not> tr_is_error r \<and> w_files plan_example_world [''x''] = Some ''ab'' \<and> w_files w' [''x''] = Some ''ac'')"
proof (intro conjI)
  show "\<not> needs_approval \<lparr>pc_project_path = project, pc_level = level, pc_tool_overrides = None\<rparr> ''edit_plan''"
    by (simp add: needs_approval_def system_tools_def)
  show "path_gate host ''edit_plan'' tool_call_id args = None"
    by (simp add: path_gate_def modified_file_path_def)
  show "''edit_plan'' \<in> set (mode_tools PlanMode)" "''edit'' \<notin> set (mode_tools PlanMode)"
    by (simp_all add: mode_tools_def)
  have "path_join ''/p'' ''/x'' = ''/x''" "land [] (components ''/x'') = [''x'']" "utf8_valid ''ab''"
    "replace (\<lambda>_ _. False) (\<lambda>_ _. None) ''ab'' ''b'' ''c'' False = Some (Inr ''ac'')"
    by code_simp+
  then show "\<exists>r w'. edit_plan_execute (\<lambda>_ _. False, \<lambda>_ _. None) read_dir tree_env plan_example_context
      (JObj [(''file_path'', JStr ''/x''), (''new_text'', JStr ''c''), (''old_text'', JStr ''b'')]) plan_example_world = (Finished r, w') \<and>
    \<not> tr_is_error r \<and> w_files plan_example_world [''x''] = Some ''ab'' \<and> w_files w' [''x''] = Some ''ac''"
    by (simp add: edit_plan_execute_def get_str_def Let_def plan_example_context_def plan_example_world_def
      fs_read_to_string_def fs_read_def fs_write_def fault_now_def file_at_def tree_env_def)
qed

end
