(* ===== verification/Relay.thy ===== *)
theory Relay
  imports ChatTypes
begin

section \<open>The event relay (\<open>agent_bridge/events.rs\<close>)\<close>

text \<open>
  The relay turns the events of a session into what the frontend receives: named channels with JSON payloads,
  finished assistant messages put together from the text deltas and tool steps between them, the persisted
  token usage and the tasks that compute a turn's diff. An event comes with the moment it is handled at: the
  clock in seconds, a fresh message id and a timestamp. The derived JSON encodings of Auto mode's types are
  parameters; a failing emitter or database only logs.
\<close>

record relay_moment =
  rm_now :: nat
  rm_uuid :: rstr
  rm_created_at :: rstr

record relay_context =
  rc_session_id :: rstr
  rc_project_path :: rstr
  rc_has_db :: bool
  rc_has_checkpoint_dir :: bool
  rc_enc_plan :: "worker_spec list \<Rightarrow> json"
  rc_enc_status :: "worker_status \<Rightarrow> json"
  rc_enc_failure :: "failure_context \<Rightarrow> json"

datatype relay_effect =
    Emit rstr json
  | UpsertUsage rstr rstr u32 u32 u32
  | SpawnDiff u32 "rstr list"

subsection \<open>Putting a message together\<close>

record accumulator =
  ma_steps :: "rstr list"
  ma_start :: "nat option"
  ma_text :: rstr

definition new_accumulator :: accumulator where
  "new_accumulator = \<lparr>ma_steps = [], ma_start = None, ma_text = []\<rparr>"

definition on_text_delta :: "rstr \<Rightarrow> accumulator \<Rightarrow> accumulator" where
  "on_text_delta delta acc = acc\<lparr>ma_text := ma_text acc @ delta\<rparr>"

definition thinking_block :: "nat \<Rightarrow> rstr list \<Rightarrow> rstr" where
  "thinking_block duration steps =
     (if steps = [] then []
      else ''<!-- thinking duration='' @ nat_str duration @ '' -->'' @ [nl] @
           concat (map (\<lambda>step. step @ [nl]) steps) @ ''<!-- /thinking -->'' @ [nl, nl])"

definition build_content :: "nat \<Rightarrow> accumulator \<Rightarrow> rstr \<times> accumulator" where
  "build_content now acc =
     (thinking_block (case ma_start acc of Some s \<Rightarrow> now - s | None \<Rightarrow> 0) (ma_steps acc) @ ma_text acc, new_accumulator)"

definition has_content :: "accumulator \<Rightarrow> bool" where
  "has_content acc \<longleftrightarrow> ma_text acc \<noteq> [] \<or> ma_steps acc \<noteq> []"

definition on_tool_start :: "nat \<Rightarrow> rstr \<Rightarrow> accumulator \<Rightarrow> rstr option \<times> accumulator" where
  "on_tool_start now args_summary acc =
     (let (flushed, acc1) = (if ma_text acc \<noteq> [] then map_prod Some id (build_content now acc) else (None, acc));
          start = (case ma_start acc1 of Some s \<Rightarrow> Some s | None \<Rightarrow> Some now)
      in (flushed, acc1\<lparr>ma_start := start, ma_steps := ma_steps acc1 @ [args_summary]\<rparr>))"

text \<open>\<open>json!\<close> objects hold their members in key order.\<close>

definition message_complete :: "relay_context \<Rightarrow> relay_moment \<Rightarrow> rstr \<Rightarrow> relay_effect" where
  "message_complete ctx m content =
     Emit ''agent:message_complete''
       (JObj [(''message'', JObj [(''content'', JStr content), (''created_at'', JStr (rm_created_at m)),
                (''id'', JStr (rm_uuid m)), (''role'', JStr ''assistant'')]),
              (''thread_id'', JStr (rc_session_id ctx))])"

definition flush_option :: "relay_context \<Rightarrow> relay_moment \<Rightarrow> rstr option \<Rightarrow> relay_effect list" where
  "flush_option ctx m content = (case content of Some c \<Rightarrow> [message_complete ctx m c] | None \<Rightarrow> [])"

subsection \<open>One event\<close>

definition jopt :: "('a \<Rightarrow> json) \<Rightarrow> 'a option \<Rightarrow> json" where
  "jopt f x = (case x of None \<Rightarrow> JNull | Some v \<Rightarrow> f v)"

definition ju32 :: "u32 \<Rightarrow> json" where "ju32 n = JInt (uint n)"

definition jstrs :: "rstr list \<Rightarrow> json" where "jstrs xs = JArr (map JStr xs)"

definition todo_json :: "todo_item \<Rightarrow> json" where
  "todo_json t = JObj [(''content'', JStr (todo_content t)), (''id'', JStr (todo_id t)), (''status'', JStr (todo_status t))]"

text \<open>Events that are only forwarded: their channel and payload.\<close>

fun forward_stream :: "rstr \<Rightarrow> agent_event \<Rightarrow> (rstr \<times> json) option" where
  "forward_stream tid (TextDelta s delta) =
     Some (''agent:text_delta'', JObj [(''delta'', JStr delta), (''thread_id'', JStr tid)])"
| "forward_stream tid (ToolStart s tool_call_id tool_name args_summary) =
     Some (''agent:tool_start'', JObj [(''args_summary'', JStr args_summary), (''thread_id'', JStr tid),
       (''tool_call_id'', JStr tool_call_id), (''tool_name'', JStr tool_name)])"
| "forward_stream tid (ToolEnd s tool_call_id success summary modified_files) =
     Some (''agent:tool_end'', JObj [(''modified_files'', jopt jstrs modified_files), (''success'', JBool success),
       (''summary'', JStr summary), (''thread_id'', JStr tid), (''tool_call_id'', JStr tool_call_id)])"
| "forward_stream tid (ErrorEvent s message retrying) =
     Some (''agent:error'', JObj [(''message'', JStr message), (''retrying'', JBool retrying), (''thread_id'', JStr tid)])"
| "forward_stream tid (CompactionEvent s) = Some (''agent:compaction'', JObj [(''thread_id'', JStr tid)])"
| "forward_stream tid (TokenUsage s tokens context_limit cache_read cache_creation) =
     Some (''agent:token_usage'', JObj [(''cache_creation_tokens'', jopt ju32 cache_creation),
       (''cache_read_tokens'', jopt ju32 cache_read), (''context_limit'', jopt ju32 context_limit),
       (''thread_id'', JStr tid), (''total_tokens'', ju32 tokens)])"
| "forward_stream tid _ = None"

fun forward_agent :: "rstr \<Rightarrow> agent_event \<Rightarrow> (rstr \<times> json) option" where
  "forward_agent tid (DoneEvent s summary) =
     Some (''agent:done'', JObj [(''summary'', jopt JStr summary), (''thread_id'', JStr tid)])"
| "forward_agent tid (UserQuestionAsked session_id question options) =
     Some (''agent:question_asked'', JObj [(''options'', jopt jstrs options), (''question'', JStr question),
       (''session_id'', JStr session_id), (''thread_id'', JStr tid)])"
| "forward_agent tid (PlanReadyEvent session_id plan plan_path project_path) =
     Some (''agent:plan_ready'', JObj [(''plan'', JStr plan), (''plan_path'', JStr plan_path),
       (''project_path'', JStr project_path), (''session_id'', JStr session_id), (''thread_id'', JStr tid)])"
| "forward_agent tid (TodoUpdated s todos) =
     Some (''agent:todo_updated'', JObj [(''thread_id'', JStr tid), (''todos'', JArr (map todo_json todos))])"
| "forward_agent tid (SkillLoaded s skill_name) =
     Some (''agent:skill_loaded'', JObj [(''skill_name'', JStr skill_name), (''thread_id'', JStr tid)])"
| "forward_agent tid (SubagentStart s parent_tool_call_id child_session_id subagent_name prompt_preview) =
     Some (''agent:subagent_start'', JObj [(''child_session_id'', JStr child_session_id),
       (''parent_tool_call_id'', JStr parent_tool_call_id), (''prompt_preview'', JStr prompt_preview),
       (''subagent_name'', JStr subagent_name), (''thread_id'', JStr tid)])"
| "forward_agent tid (SubagentEnd s parent_tool_call_id child_session_id success summary) =
     Some (''agent:subagent_end'', JObj [(''child_session_id'', JStr child_session_id),
       (''parent_tool_call_id'', JStr parent_tool_call_id), (''success'', JBool success), (''summary'', JStr summary),
       (''thread_id'', JStr tid)])"
| "forward_agent tid _ = None"

fun forward_auto :: "relay_context \<Rightarrow> rstr \<Rightarrow> agent_event \<Rightarrow> (rstr \<times> json) option" where
  "forward_auto ctx tid (AutoPlanning s run_id) =
     Some (''agent:auto_planning'', JObj [(''run_id'', JStr run_id), (''thread_id'', JStr tid)])"
| "forward_auto ctx tid (AutoPlan s run_id version reasoning plan) =
     Some (''agent:auto_plan'', JObj [(''plan'', rc_enc_plan ctx plan), (''reasoning'', JStr reasoning),
       (''run_id'', JStr run_id), (''thread_id'', JStr tid), (''version'', ju32 version)])"
| "forward_auto ctx tid (AutoAwaitingApproval s run_id) =
     Some (''agent:auto_awaiting_approval'', JObj [(''run_id'', JStr run_id), (''thread_id'', JStr tid)])"
| "forward_auto ctx tid (AutoWorkerStart s run_id worker_id model prompt) =
     Some (''agent:auto_worker_start'', JObj [(''model'', JStr model), (''prompt'', JStr prompt),
       (''run_id'', JStr run_id), (''thread_id'', JStr tid), (''worker_id'', JStr worker_id)])"
| "forward_auto ctx tid (AutoWorkerEnd s run_id worker_id summary cost_cents tool_count status) =
     Some (''agent:auto_worker_end'', JObj [(''cost_cents'', ju32 cost_cents), (''run_id'', JStr run_id),
       (''status'', rc_enc_status ctx status), (''summary'', JStr summary), (''thread_id'', JStr tid),
       (''tool_count'', ju32 tool_count), (''worker_id'', JStr worker_id)])"
| "forward_auto ctx tid (AutoWorkerToolStart s run_id worker_id tool_call_id tool_name args_summary) =
     Some (''agent:auto_worker_tool_start'', JObj [(''args_summary'', JStr args_summary), (''run_id'', JStr run_id),
       (''thread_id'', JStr tid), (''tool_call_id'', JStr tool_call_id), (''tool_name'', JStr tool_name),
       (''worker_id'', JStr worker_id)])"
| "forward_auto ctx tid (AutoWorkerToolEnd s run_id worker_id tool_call_id success summary) =
     Some (''agent:auto_worker_tool_end'', JObj [(''run_id'', JStr run_id), (''success'', JBool success),
       (''summary'', JStr summary), (''thread_id'', JStr tid), (''tool_call_id'', JStr tool_call_id),
       (''worker_id'', JStr worker_id)])"
| "forward_auto ctx tid _ = None"

fun forward_auto_end :: "relay_context \<Rightarrow> rstr \<Rightarrow> agent_event \<Rightarrow> (rstr \<times> json) option" where
  "forward_auto_end ctx tid (AutoReplan s run_id reason) =
     Some (''agent:auto_replan'', JObj [(''reason'', JStr reason), (''run_id'', JStr run_id), (''thread_id'', JStr tid)])"
| "forward_auto_end ctx tid (AutoFailed s run_id reason last_worker_output) =
     Some (''agent:auto_failed'', JObj [(''last_worker_output'', jopt JStr last_worker_output), (''reason'', JStr reason),
       (''run_id'', JStr run_id), (''thread_id'', JStr tid)])"
| "forward_auto_end ctx tid (AutoAwaitingFailureDecision s run_id failure) =
     Some (''agent:auto_awaiting_failure_decision'', JObj [(''failure'', rc_enc_failure ctx failure),
       (''run_id'', JStr run_id), (''thread_id'', JStr tid)])"
| "forward_auto_end ctx tid (AutoDone s run_id summary total_cost_cents) =
     Some (''agent:auto_done'', JObj [(''run_id'', JStr run_id), (''summary'', JStr summary), (''thread_id'', JStr tid),
       (''total_cost_cents'', ju32 total_cost_cents)])"
| "forward_auto_end ctx tid _ = None"

definition orelse :: "'a option \<Rightarrow> 'a option \<Rightarrow> 'a option" where
  "orelse x y = (case x of Some v \<Rightarrow> Some v | None \<Rightarrow> y)"

definition forward :: "relay_context \<Rightarrow> agent_event \<Rightarrow> relay_effect list" where
  "forward ctx ev =
     (let tid = rc_session_id ctx in
      case orelse (forward_stream tid ev) (orelse (forward_agent tid ev)
             (orelse (forward_auto ctx tid ev) (forward_auto_end ctx tid ev))) of
        Some (channel, payload) \<Rightarrow> [Emit channel payload]
      | None \<Rightarrow> [])"

text \<open>The events after which the relay counts the session as over.\<close>

fun terminal :: "agent_event \<Rightarrow> bool" where
  "terminal (DoneEvent s summary) = True"
| "terminal (AutoFailed s run_id reason last_output) = True"
| "terminal (AutoAwaitingFailureDecision s run_id failure) = True"
| "terminal (AutoDone s run_id summary cost) = True"
| "terminal _ = False"

record relay_state =
  rs_acc :: accumulator
  rs_subagent_calls :: "rstr set"
  rs_saw_done :: bool

definition step_started :: "relay_context \<Rightarrow> relay_moment \<Rightarrow> rstr \<Rightarrow> relay_state \<Rightarrow> relay_effect list \<times> relay_state" where
  "step_started ctx m label st =
     (let (content, acc) = on_tool_start (rm_now m) label (rs_acc st)
      in (flush_option ctx m content, st\<lparr>rs_acc := acc\<rparr>))"

definition flush_rest :: "relay_context \<Rightarrow> relay_moment \<Rightarrow> relay_state \<Rightarrow> relay_effect list \<times> relay_state" where
  "flush_rest ctx m st =
     (if has_content (rs_acc st)
      then let (content, acc) = build_content (rm_now m) (rs_acc st)
           in ([message_complete ctx m content], st\<lparr>rs_acc := acc\<rparr>)
      else ([], st))"

fun relay_event :: "relay_context \<Rightarrow> relay_moment \<Rightarrow> agent_event \<Rightarrow> relay_state \<Rightarrow> relay_effect list \<times> relay_state" where
  "relay_event ctx m (TextDelta s delta) st =
     (forward ctx (TextDelta s delta), st\<lparr>rs_acc := on_text_delta delta (rs_acc st)\<rparr>)"
| "relay_event ctx m (ToolStart s tool_call_id tool_name args_summary) st =
     (if tool_name = ''spawn_subagent''
      then ([], st\<lparr>rs_subagent_calls := insert tool_call_id (rs_subagent_calls st)\<rparr>)
      else let (effs, st1) = step_started ctx m args_summary st
           in (effs @ forward ctx (ToolStart s tool_call_id tool_name args_summary), st1))"
| "relay_event ctx m (ToolEnd s tool_call_id success summary modified_files) st =
     (if tool_call_id \<in> rs_subagent_calls st
      then ([], st\<lparr>rs_subagent_calls := rs_subagent_calls st - {tool_call_id}\<rparr>)
      else (forward ctx (ToolEnd s tool_call_id success summary modified_files), st))"
| "relay_event ctx m (TokenUsage s tokens context_limit cache_read cache_creation) st =
     (forward ctx (TokenUsage s tokens context_limit cache_read cache_creation) @
        (if rc_has_db ctx
         then [UpsertUsage (rc_session_id ctx) (rc_project_path ctx) tokens
                 (case context_limit of Some n \<Rightarrow> n | None \<Rightarrow> 0) 0]
         else []), st)"
| "relay_event ctx m (DoneEvent s summary) st =
     (let (effs, st1) = flush_rest ctx m st
      in (effs @ forward ctx (DoneEvent s summary), st1))"
| "relay_event ctx m (TurnCompleted s turn_count modified_files) st =
     (if rc_has_checkpoint_dir ctx then [SpawnDiff turn_count modified_files] else [], st)"
| "relay_event ctx m (SubagentStart s parent child subagent_name prompt_preview) st =
     (let (effs, st1) = step_started ctx m (''Subagent: '' @ subagent_name) st
      in (effs @ forward ctx (SubagentStart s parent child subagent_name prompt_preview), st1))"
| "relay_event ctx m ev st = (forward ctx ev, st)"

subsection \<open>The whole session\<close>

fun relay_all :: "relay_context \<Rightarrow> (relay_moment \<times> agent_event) list \<Rightarrow> relay_state \<Rightarrow> relay_effect list \<times> relay_state" where
  "relay_all ctx [] st = ([], st)"
| "relay_all ctx ((m, ev) # evs) st =
     (let (effs, st1) = relay_event ctx m ev st;
          (rest, st2) = relay_all ctx evs (st1\<lparr>rs_saw_done := rs_saw_done st1 \<or> terminal ev\<rparr>)
      in (effs @ rest, st2))"

definition relay_start :: relay_state where
  "relay_start = \<lparr>rs_acc = new_accumulator, rs_subagent_calls = {}, rs_saw_done = False\<rparr>"

text \<open>Trailing content is flushed when the channel closes without a terminal event.\<close>

definition spawn_event_relay ::
  "relay_context \<Rightarrow> (relay_moment \<times> agent_event) list \<Rightarrow> relay_moment \<Rightarrow> relay_effect list" where
  "spawn_event_relay ctx evs at_close =
     (case relay_all ctx evs relay_start of
        (effs, st) \<Rightarrow>
          effs @
          (if \<not> rs_saw_done st \<and> has_content (rs_acc st)
           then [message_complete ctx at_close (fst (build_content (rm_now at_close) (rs_acc st))),
                 Emit ''agent:done'' (JObj [(''summary'', JNull), (''thread_id'', JStr (rc_session_id ctx))])]
           else []))"

definition sample_moment :: relay_moment where
  "sample_moment = \<lparr>rm_now = 1, rm_uuid = ''u'', rm_created_at = ''today''\<rparr>"

text \<open>What a diff task emits, from the result of \<open>checkpoint::diff_turn\<close>.\<close>

record turn_diff =
  td_insertions :: nat
  td_deletions :: nat
  td_diff :: rstr
  td_stat :: rstr

definition diff_task_emits :: "relay_context \<Rightarrow> u32 \<Rightarrow> rstr list \<Rightarrow> rstr + turn_diff \<Rightarrow> relay_effect" where
  "diff_task_emits ctx turn_count files result =
     (let payload = (\<lambda>additions deletions diff stat status.
        JObj [(''additions'', JInt additions), (''deletions'', JInt deletions), (''diff'', JStr diff),
              (''files'', jstrs files), (''stat'', JStr stat), (''status'', JStr status),
              (''thread_id'', JStr (rc_session_id ctx)), (''turn_count'', ju32 turn_count)])
      in Emit ''agent:turn_diff_completed''
           (case result of
              Inr d \<Rightarrow> payload (int (td_insertions d)) (int (td_deletions d)) (td_diff d) (td_stat d) ''ready''
            | Inl _ \<Rightarrow> payload 0 0 [] [] ''partial''))"

subsection \<open>Nothing the agent said is lost\<close>

definition content_of :: "relay_effect \<Rightarrow> rstr option" where
  "content_of eff =
     (case eff of
        Emit channel payload \<Rightarrow>
          if channel = ''agent:message_complete'' then Option.bind (jget ''message'' payload) (get_str ''content'') else None
      | _ \<Rightarrow> None)"

definition messages :: "relay_effect list \<Rightarrow> rstr list" where
  "messages effs = List.map_filter content_of effs"

fun delta_of :: "agent_event \<Rightarrow> rstr" where
  "delta_of (TextDelta s delta) = delta"
| "delta_of _ = []"

fun step_of :: "agent_event \<Rightarrow> rstr list" where
  "step_of (ToolStart s tool_call_id tool_name args_summary) = (if tool_name = ''spawn_subagent'' then [] else [args_summary])"
| "step_of (SubagentStart s parent child subagent_name prompt_preview) = [''Subagent: '' @ subagent_name]"
| "step_of _ = []"

fun said :: "(relay_moment \<times> agent_event) list \<Rightarrow> rstr" where
  "said [] = []"
| "said ((m, ev) # evs) = delta_of ev @ said evs"

fun steps_taken :: "(relay_moment \<times> agent_event) list \<Rightarrow> rstr list" where
  "steps_taken [] = []"
| "steps_taken ((m, ev) # evs) = step_of ev @ steps_taken evs"

definition tells :: "rstr list \<Rightarrow> rstr list \<Rightarrow> rstr \<Rightarrow> bool" where
  "tells msgs steps txt \<longleftrightarrow>
     (\<exists>parts. msgs = map (\<lambda>(d, ss, t). thinking_block d ss @ t) parts \<and>
        concat (map (\<lambda>(d, ss, t). ss) parts) = steps \<and> concat (map (\<lambda>(d, ss, t). t) parts) = txt)"

lemma tells_Nil [simp]: "tells [] [] []"
  by (simp add: tells_def)

lemma tells_one: "tells [thinking_block d ss @ t] ss t"
  unfolding tells_def by (intro exI [of _ "[(d, ss, t)]"]) simp

lemma tells_append: "tells ms ss t \<Longrightarrow> tells ms' ss' t' \<Longrightarrow> tells (ms @ ms') (ss @ ss') (t @ t')"
  unfolding tells_def
proof (elim exE conjE)
  fix ps ps'
  assume "ms = map (\<lambda>(d, ss, t). thinking_block d ss @ t) ps" "ms' = map (\<lambda>(d, ss, t). thinking_block d ss @ t) ps'"
    "concat (map (\<lambda>(d, ss, t). ss) ps) = ss" "concat (map (\<lambda>(d, ss, t). ss) ps') = ss'"
    "concat (map (\<lambda>(d, ss, t). t) ps) = t" "concat (map (\<lambda>(d, ss, t). t) ps') = t'"
  then show "\<exists>parts. ms @ ms' = map (\<lambda>(d, ss, t). thinking_block d ss @ t) parts \<and>
      concat (map (\<lambda>(d, ss, t). ss) parts) = ss @ ss' \<and> concat (map (\<lambda>(d, ss, t). t) parts) = t @ t'"
    by (intro exI [of _ "ps @ ps'"]) simp
qed

lemma messages_append [simp]: "messages (xs @ ys) = messages xs @ messages ys"
  by (induction xs) (simp_all add: messages_def List.map_filter_simps split: option.splits)

lemma messages_Nil [simp]: "messages [] = []"
  by (simp add: messages_def List.map_filter_simps)

lemma messages_complete [simp]: "messages (message_complete ctx m c # effs) = c # messages effs"
  by (simp add: messages_def List.map_filter_simps content_of_def message_complete_def get_str_def)

lemma messages_other [simp]:
  "channel \<noteq> ''agent:message_complete'' \<Longrightarrow> messages (Emit channel payload # effs) = messages effs"
  "messages (UpsertUsage a b n k z # effs) = messages effs" "messages (SpawnDiff n fs # effs) = messages effs"
  by (simp_all add: messages_def List.map_filter_simps content_of_def)

lemma messages_forward [simp]: "messages (forward ctx ev) = []"
  by (cases ev) (simp_all add: forward_def orelse_def)

text \<open>What one event adds to the messages and to the pending text and steps.\<close>

lemma relay_event_keeps:
  assumes "relay_event ctx m ev st = (effs, st')"
  shows "\<exists>ss t. tells (messages effs) ss t \<and> ss @ ma_steps (rs_acc st') = ma_steps (rs_acc st) @ step_of ev \<and>
     t @ ma_text (rs_acc st') = ma_text (rs_acc st) @ delta_of ev \<and> rs_saw_done st' = rs_saw_done st"
proof -
  have step: "\<exists>ss t. tells (messages es) ss t \<and> ss @ ma_steps (rs_acc st1) = ma_steps (rs_acc st) @ [label] \<and>
      t @ ma_text (rs_acc st1) = ma_text (rs_acc st) \<and> rs_saw_done st1 = rs_saw_done st"
    if "step_started ctx m label st = (es, st1)" for label es st1
    using that
  proof (cases "ma_text (rs_acc st) = []")
    case True
    with that show ?thesis
      by (intro exI [of _ "[]"]) (auto simp: step_started_def on_tool_start_def flush_option_def)
  next
    case False
    with that show ?thesis
      by (intro exI [of _ "ma_steps (rs_acc st)"] exI [of _ "ma_text (rs_acc st)"])
        (auto simp: step_started_def on_tool_start_def flush_option_def build_content_def new_accumulator_def tells_one)
  qed
  have rest: "\<exists>ss t. tells (messages es) ss t \<and> ss @ ma_steps (rs_acc st1) = ma_steps (rs_acc st) \<and>
      t @ ma_text (rs_acc st1) = ma_text (rs_acc st) \<and> rs_saw_done st1 = rs_saw_done st"
    if "flush_rest ctx m st = (es, st1)" for es st1
  proof (cases "has_content (rs_acc st)")
    case True
    with that show ?thesis
      by (intro exI [of _ "ma_steps (rs_acc st)"] exI [of _ "ma_text (rs_acc st)"])
        (auto simp: flush_rest_def build_content_def new_accumulator_def tells_one)
  qed (use that in \<open>auto simp: flush_rest_def intro!: exI [of _ "[]"]\<close>)
  show ?thesis
  proof (cases "\<exists>s i n a. ev = ToolStart s i n a \<and> n \<noteq> ''spawn_subagent''")
    case True
    then obtain s i n a where ev: "ev = ToolStart s i n a" "n \<noteq> ''spawn_subagent''" by blast
    obtain es where es: "step_started ctx m a st = (es, st')" "effs = es @ forward ctx ev"
      using assms ev by (auto split: prod.splits)
    from step [OF es(1)] obtain ss t where "tells (messages es) ss t" "ss @ ma_steps (rs_acc st') = ma_steps (rs_acc st) @ [a]"
      "t @ ma_text (rs_acc st') = ma_text (rs_acc st)" "rs_saw_done st' = rs_saw_done st" by blast
    with es ev show ?thesis by (intro exI [of _ ss] exI [of _ t]) simp
  next
    case no_tool: False
    show ?thesis
    proof (cases "\<exists>s p c n q. ev = SubagentStart s p c n q")
      case True
      then obtain s p c n q where ev: "ev = SubagentStart s p c n q" by blast
      obtain es where es: "step_started ctx m (''Subagent: '' @ n) st = (es, st')" "effs = es @ forward ctx ev"
        using assms ev by (auto split: prod.splits)
      from step [OF es(1)] obtain ss t where "tells (messages es) ss t"
        "ss @ ma_steps (rs_acc st') = ma_steps (rs_acc st) @ [''Subagent: '' @ n]"
        "t @ ma_text (rs_acc st') = ma_text (rs_acc st)" "rs_saw_done st' = rs_saw_done st" by blast
      with es ev show ?thesis by (intro exI [of _ ss] exI [of _ t]) simp
    next
      case no_child: False
      show ?thesis
      proof (cases "\<exists>s x. ev = DoneEvent s x")
        case True
        then obtain s x where ev: "ev = DoneEvent s x" by blast
        obtain es where es: "flush_rest ctx m st = (es, st')" "effs = es @ forward ctx ev"
          using assms ev by (auto split: prod.splits)
        from rest [OF es(1)] es ev show ?thesis by simp
      next
        case False
        with no_tool no_child assms show ?thesis
          by (intro exI [of _ "[]"], cases ev) (auto simp: on_text_delta_def split: if_splits)
      qed
    qed
  qed
qed

lemma relay_all_keeps:
  assumes "relay_all ctx evs st = (effs, st')"
  shows "\<exists>ss t. tells (messages effs) ss t \<and>
     ss @ ma_steps (rs_acc st') = ma_steps (rs_acc st) @ steps_taken evs \<and>
     t @ ma_text (rs_acc st') = ma_text (rs_acc st) @ said evs \<and>
     (rs_saw_done st' \<longleftrightarrow> rs_saw_done st \<or> (\<exists>ev \<in> set evs. terminal (snd ev)))"
  using assms
proof (induction evs arbitrary: st effs)
  case Nil
  then show ?case by (intro exI [of _ "[]"]) auto
next
  case (Cons e evs)
  obtain m ev where e: "e = (m, ev)" by fastforce
  obtain es st1 where r1: "relay_event ctx m ev st = (es, st1)" by fastforce
  obtain es' where r2: "relay_all ctx evs (st1\<lparr>rs_saw_done := rs_saw_done st1 \<or> terminal ev\<rparr>) = (es', st')" "effs = es @ es'"
    using Cons.prems e r1 by (auto split: prod.splits)
  obtain ss t where k1: "tells (messages es) ss t" "ss @ ma_steps (rs_acc st1) = ma_steps (rs_acc st) @ step_of ev"
    "t @ ma_text (rs_acc st1) = ma_text (rs_acc st) @ delta_of ev" "rs_saw_done st1 = rs_saw_done st"
    using relay_event_keeps [OF r1] by blast
  obtain ss' t' where k2: "tells (messages es') ss' t'"
    "ss' @ ma_steps (rs_acc st') = ma_steps (rs_acc st1) @ steps_taken evs"
    "t' @ ma_text (rs_acc st') = ma_text (rs_acc st1) @ said evs"
    "rs_saw_done st' \<longleftrightarrow> (rs_saw_done st1 \<or> terminal ev) \<or> (\<exists>ev \<in> set evs. terminal (snd ev))"
    using Cons.IH [OF r2(1)] by auto
  have "tells (messages effs) (ss @ ss') (t @ t')" using tells_append [OF k1(1) k2(1)] r2(2) by simp
  moreover have "(ss @ ss') @ ma_steps (rs_acc st') = ma_steps (rs_acc st) @ steps_taken (e # evs)"
    using k1(2) k2(2) unfolding e steps_taken.simps by (metis append.assoc)
  moreover have "(t @ t') @ ma_text (rs_acc st') = ma_text (rs_acc st) @ said (e # evs)"
    using k1(3) k2(3) unfolding e said.simps by (metis append.assoc)
  moreover have "rs_saw_done st' \<longleftrightarrow> rs_saw_done st \<or> (\<exists>ev \<in> set (e # evs). terminal (snd ev))"
    using k1(4) k2(4) e by auto
  ultimately show ?case by blast
qed

lemma said_append: "said (evs @ evs') = said evs @ said evs'"
  by (induction evs rule: said.induct) simp_all

lemma steps_append: "steps_taken (evs @ evs') = steps_taken evs @ steps_taken evs'"
  by (induction evs rule: steps_taken.induct) simp_all

lemma relay_all_snoc:
  "rs_acc (snd (relay_all ctx (evs @ [(m, ev)]) st)) =
     rs_acc (snd (relay_event ctx m ev (snd (relay_all ctx evs st))))"
  by (induction ctx evs st rule: relay_all.induct) (auto split: prod.splits)

lemma relay_done_empties: "rs_acc (snd (relay_event ctx m (DoneEvent s summary) st)) = new_accumulator \<or>
    \<not> has_content (rs_acc (snd (relay_event ctx m (DoneEvent s summary) st)))"
  by (auto simp: flush_rest_def build_content_def split: prod.splits)

text \<open>
  C28: the finished messages of a session hold all the agent's text and all its steps, in order, whatever
  tools and subagents ran in between, if no event that ends a session came before the channel closed, except
  a last \<open>Done\<close>.
\<close>

theorem relay_loses_nothing:
  assumes "\<forall>ev \<in> set evs. \<not> terminal (snd ev)" "ending = [] \<or> ending = [(m, DoneEvent s summary)]"
  shows "tells (messages (spawn_event_relay ctx (evs @ ending) at_close)) (steps_taken evs) (said evs)"
proof -
  obtain effs st where r: "relay_all ctx (evs @ ending) relay_start = (effs, st)" by fastforce
  obtain ss t where k: "tells (messages effs) ss t" "ss @ ma_steps (rs_acc st) = steps_taken (evs @ ending)"
    "t @ ma_text (rs_acc st) = said (evs @ ending)" "rs_saw_done st \<longleftrightarrow> (\<exists>ev \<in> set (evs @ ending). terminal (snd ev))"
    using relay_all_keeps [OF r] by (auto simp: relay_start_def new_accumulator_def)
  have same: "steps_taken (evs @ ending) = steps_taken evs" "said (evs @ ending) = said evs"
    using assms(2) by (auto simp: said_append steps_append)
  show ?thesis
  proof (cases "ending = []")
    case True
    then have open_end: "\<not> rs_saw_done st" using k(4) assms(1) by auto
    show ?thesis
    proof (cases "has_content (rs_acc st)")
      case True
      have "tells (messages effs @ [thinking_block d (ma_steps (rs_acc st)) @ ma_text (rs_acc st)])
          (ss @ ma_steps (rs_acc st)) (t @ ma_text (rs_acc st))" for d
        by (rule tells_append [OF k(1) tells_one])
      then show ?thesis using True open_end r k(2,3) same by (simp add: spawn_event_relay_def build_content_def)
    next
      case False
      then show ?thesis using open_end r k same by (simp add: spawn_event_relay_def has_content_def)
    qed
  next
    case False
    then have "ending = [(m, DoneEvent s summary)]" using assms(2) by simp
    then have "\<not> has_content (rs_acc st)"
      using relay_done_empties [of ctx m s summary "snd (relay_all ctx evs relay_start)"] r
        relay_all_snoc [of ctx evs m "DoneEvent s summary" relay_start]
      by (auto simp: has_content_def new_accumulator_def)
    then show ?thesis using r k same by (simp add: spawn_event_relay_def has_content_def)
  qed
qed

theorem relay_loses_nothing_witness:
  "tells (messages (spawn_event_relay
       \<lparr>rc_session_id = ''t'', rc_project_path = ''/p'', rc_has_db = False, rc_has_checkpoint_dir = False,
        rc_enc_plan = \<lambda>_. JNull, rc_enc_status = \<lambda>_. JNull, rc_enc_failure = \<lambda>_. JNull\<rparr>
       ([(sample_moment, TextDelta ''s'' ''Hel''), (sample_moment, TextDelta ''s'' ''lo''), (sample_moment, ToolStart ''s'' ''1'' ''read'' ''Reading a''),
         (sample_moment, TextDelta ''s'' ''ok'')] @ [(sample_moment, DoneEvent ''s'' None)]) sample_moment))
     [''Reading a''] ''Hellook''"
  using relay_loses_nothing [of "[(sample_moment, TextDelta ''s'' ''Hel''), (sample_moment, TextDelta ''s'' ''lo''),
    (sample_moment, ToolStart ''s'' ''1'' ''read'' ''Reading a''), (sample_moment, TextDelta ''s'' ''ok'')]" "[(sample_moment, DoneEvent ''s'' None)]" sample_moment "''s''" None]
  by simp

end
