(* ===== verification/Sessions.thy ===== *)
theory Sessions
  imports AgentLoop
begin

section \<open>Sessions (\<open>session.rs\<close>)\<close>

text \<open>
  The session manager: a map from session ids to handles, and for each start a task that runs an
  agent loop and a watcher that waits for it, announces a failure on the session's channel and
  writes the final status into the map. Tasks and watchers run beside the manager's own
  operations; the model keeps them in a list of runs, each with the phase it is in, and lets any
  interleaving of steps happen. A cancellation token is named by the number of its run.
\<close>

subsection \<open>Data\<close>

datatype session_status = SessionActive | SessionCompleted | SessionError rstr

record session_summary =
  sy_id :: rstr
  sy_status :: session_status
  sy_mode :: tool_mode
  sy_project_path :: "rstr option"
  sy_branch :: "rstr option"

record session_handle =
  sh_token :: nat
  sh_status :: session_status
  sh_mode :: tool_mode
  sh_project_path :: "rstr option"
  sh_branch :: "rstr option"

text \<open>
  The parts of \<open>AgentConfig\<close> the manager looks at: the mode, the context engine (present or not) with
  the path its index was built from, whether there are skills, and the subagents (how many there are)
  with the \<open>spawn_subagent\<close> tool built over the inheritance bundle, when there is one.
\<close>

record session_config =
  sc_loop :: loop_config
  sc_compaction :: compaction_config
  sc_mode :: tool_mode
  sc_engine :: bool
  sc_engine_repo_path :: "rstr option"
  sc_skills :: bool
  sc_subagents :: "nat option"
  sc_inheritance :: "tool option"

type_synonym handler = "rstr \<Rightarrow> rstr \<Rightarrow> json \<Rightarrow> rstr \<Rightarrow> approval_decision"

text \<open>The arguments of \<open>start_session_inner\<close>; a persister is known by a name.\<close>

record session_request =
  sq_id :: rstr
  sq_config :: session_config
  sq_message :: chat_message
  sq_mode :: tool_mode
  sq_project_path :: "rstr option"
  sq_branch :: "rstr option"
  sq_context :: "chat_message list option"
  sq_persist_id :: "rstr option"
  sq_tokens :: "nat option"
  sq_approval :: "handler option"
  sq_turn_offset :: "u32 option"
  sq_is_resume :: bool
  sq_persister :: "rstr option"

definition start_ask_session ::
  "rstr \<Rightarrow> session_config \<Rightarrow> chat_message \<Rightarrow> chat_message list option \<Rightarrow> nat option \<Rightarrow> handler option \<Rightarrow>
   rstr option \<Rightarrow> session_request" where
  "start_ask_session session_id config message initial_context initial_token_count approval_handler persister_override =
     \<lparr>sq_id = session_id, sq_config = config, sq_message = message, sq_mode = sc_mode config,
      sq_project_path = None, sq_branch = None, sq_context = initial_context, sq_persist_id = None,
      sq_tokens = initial_token_count, sq_approval = approval_handler, sq_turn_offset = None,
      sq_is_resume = True, sq_persister = persister_override\<rparr>"

definition start_coding_session ::
  "rstr \<Rightarrow> session_config \<Rightarrow> chat_message \<Rightarrow> rstr option \<Rightarrow> chat_message list option \<Rightarrow> rstr option \<Rightarrow>
   nat option \<Rightarrow> handler option \<Rightarrow> u32 option \<Rightarrow> bool \<Rightarrow> rstr option \<Rightarrow> session_request" where
  "start_coding_session session_id config message branch initial_context persist_session_id initial_token_count
     approval_handler turn_offset is_resume persister_override =
     \<lparr>sq_id = session_id, sq_config = config, sq_message = message, sq_mode = CodingMode,
      sq_project_path = Some (th_working_dir (lc_host (sc_loop config))), sq_branch = branch,
      sq_context = initial_context, sq_persist_id = persist_session_id, sq_tokens = initial_token_count,
      sq_approval = approval_handler, sq_turn_offset = turn_offset, sq_is_resume = is_resume,
      sq_persister = persister_override\<rparr>"

subsection \<open>The loop of a session\<close>

text \<open>The tools come from a catalogue, which for the context engine depends on the path of its index.\<close>

definition engine_repo :: "session_config \<Rightarrow> rstr option" where
  "engine_repo config =
     (if sc_engine config then
        Some (case sc_engine_repo_path config of Some p \<Rightarrow> p | None \<Rightarrow> th_working_dir (lc_host (sc_loop config)))
      else None)"

definition register_spawn_subagent :: "nat \<Rightarrow> tool \<Rightarrow> registry \<Rightarrow> registry" where
  "register_spawn_subagent count spawn r = (if count = 0 then r else register spawn r)"

definition session_registry ::
  "(rstr option \<Rightarrow> rstr \<Rightarrow> tool) \<Rightarrow> session_config \<Rightarrow> tool_mode \<Rightarrow> registry" where
  "session_registry catalogue config mode =
     (let repo = engine_repo config;
          r = for_mode (catalogue repo) mode (repo \<noteq> None) (sc_skills config)
      in case (sc_subagents config, sc_inheritance config) of
           (Some count, Some spawn) \<Rightarrow> register_spawn_subagent count spawn r
         | _ \<Rightarrow> r)"

definition session_loop_config ::
  "(rstr option \<Rightarrow> rstr \<Rightarrow> tool) \<Rightarrow> session_request \<Rightarrow> loop_config" where
  "session_loop_config catalogue req =
     (let cfg = sc_loop (sq_config req);
          cfg1 = cfg\<lparr>lc_parent_session := None,
                     lc_host := (lc_host cfg)\<lparr>th_registry := session_registry catalogue (sq_config req) (sq_mode req),
                                              th_session_id := sq_id req, th_approval := None\<rparr>\<rparr>
      in case sq_approval req of Some h \<Rightarrow> with_approval_handler h cfg1 | None \<Rightarrow> cfg1)"

definition seed_context :: "loop_config \<Rightarrow> session_request \<Rightarrow> loop_state \<Rightarrow> loop_state" where
  "seed_context cfg req st =
     (case sq_context req of
        None \<Rightarrow> st
      | Some msgs \<Rightarrow> if sq_is_resume req then with_resumed_context msgs st else with_initial_context cfg msgs st)"

definition session_loop ::
  "loop_config \<Rightarrow> session_request \<Rightarrow> cworld \<Rightarrow> loop_state" where
  "session_loop cfg req w =
     (let st = seed_context cfg req (with_persister (with_provider cfg (sc_compaction (sq_config req)) w));
          st1 = (case sq_tokens req of Some toks \<Rightarrow> with_initial_token_count toks st | None \<Rightarrow> st)
      in case sq_turn_offset req of
           Some offset \<Rightarrow> if offset > 0 then with_turn_offset offset st1 else st1
         | None \<Rightarrow> st1)"

subsection \<open>Runs and the manager\<close>

datatype task_end = TaskReturned outcome | TaskPanicked rstr

datatype run_phase =
    Running
  | TaskOver task_end
  | Announced session_status
  | Settled session_status

text \<open>
  A run: its session, the key and the persister its messages go to, its loop, what its channel has
  carried, its phase, and whether its token was cancelled.
\<close>

record session_run =
  sn_id :: rstr
  sn_persist_id :: rstr
  sn_persister :: rstr
  sn_config :: loop_config
  sn_message :: chat_message
  sn_loop :: loop_state
  sn_events :: "agent_event list"
  sn_phase :: run_phase
  sn_cancelled :: bool

record session_manager =
  sm_sessions :: "(rstr \<times> session_handle) list"
  sm_runs :: "session_run list"
  sm_persister :: rstr

definition new_manager :: "rstr \<Rightarrow> session_manager" where
  "new_manager persister = \<lparr>sm_sessions = [], sm_runs = [], sm_persister = persister\<rparr>"

definition start_session_inner ::
  "(rstr option \<Rightarrow> rstr \<Rightarrow> tool) \<Rightarrow> session_request \<Rightarrow> cworld \<Rightarrow> session_manager \<Rightarrow> session_manager" where
  "start_session_inner catalogue req w m =
     (let cfg = session_loop_config catalogue req;
          run = \<lparr>sn_id = sq_id req,
                 sn_persist_id = (case sq_persist_id req of Some p \<Rightarrow> p | None \<Rightarrow> sq_id req),
                 sn_persister = (case sq_persister req of Some p \<Rightarrow> p | None \<Rightarrow> sm_persister m),
                 sn_config = cfg, sn_message = sq_message req, sn_loop = session_loop cfg req w,
                 sn_events = [], sn_phase = Running, sn_cancelled = False\<rparr>;
          h = \<lparr>sh_token = length (sm_runs m), sh_status = SessionActive, sh_mode = sq_mode req,
               sh_project_path = sq_project_path req, sh_branch = sq_branch req\<rparr>
      in m\<lparr>sm_runs := sm_runs m @ [run], sm_sessions := upsert (sq_id req) h (\<lambda>_. h) (sm_sessions m)\<rparr>)"

definition cancel_token :: "nat \<Rightarrow> session_run list \<Rightarrow> session_run list" where
  "cancel_token k runs = (if k < length runs then runs[k := (runs ! k)\<lparr>sn_cancelled := True\<rparr>] else runs)"

definition cancel_session :: "rstr \<Rightarrow> session_manager \<Rightarrow> session_manager" where
  "cancel_session session_id m =
     (case map_of (sm_sessions m) session_id of
        Some h \<Rightarrow> m\<lparr>sm_runs := cancel_token (sh_token h) (sm_runs m)\<rparr>
      | None \<Rightarrow> m)"

definition session_status_of :: "rstr \<Rightarrow> session_manager \<Rightarrow> session_status option" where
  "session_status_of session_id m = map_option sh_status (map_of (sm_sessions m) session_id)"

text \<open>The order of the listing is the hash map's in the code, that of the list here.\<close>

definition list_sessions :: "session_manager \<Rightarrow> session_summary list" where
  "list_sessions m =
     map (\<lambda>(i, h). \<lparr>sy_id = i, sy_status = sh_status h, sy_mode = sh_mode h,
                    sy_project_path = sh_project_path h, sy_branch = sh_branch h\<rparr>) (sm_sessions m)"

definition remove_session :: "rstr \<Rightarrow> session_manager \<Rightarrow> session_manager" where
  "remove_session session_id m =
     (cancel_session session_id m)\<lparr>sm_sessions := filter (\<lambda>kv. fst kv \<noteq> session_id) (sm_sessions m)\<rparr>"

subsection \<open>Tasks and watchers\<close>

definition on_run :: "nat \<Rightarrow> (session_run \<Rightarrow> session_run) \<Rightarrow> session_manager \<Rightarrow> session_manager" where
  "on_run k f m = m\<lparr>sm_runs := (sm_runs m)[k := f (sm_runs m ! k)]\<rparr>"

text \<open>The task of a run ends: the loop's events are on the channel, its end is the watcher's to read.\<close>

definition end_task :: "task_end \<Rightarrow> agent_event list \<Rightarrow> session_run \<Rightarrow> session_run" where
  "end_task e evs run = run\<lparr>sn_events := sn_events run @ evs, sn_phase := TaskOver e\<rparr>"

text \<open>What the watcher makes of the end of its task: a status, and what it tells the listener first.\<close>

definition announcement :: "rstr \<Rightarrow> task_end \<Rightarrow> agent_event list \<times> session_status" where
  "announcement i e =
     (case e of
        TaskReturned (Inr r) \<Rightarrow> ([], SessionCompleted)
      | TaskReturned (Inl err) \<Rightarrow>
          if err = Cancelled then ([], SessionError ''Cancelled'')
          else ([ErrorEvent i (error_text err) False, DoneEvent i None], SessionError (error_text err))
      | TaskPanicked msg \<Rightarrow>
          ([ErrorEvent i (''Agent task panicked: '' @ msg) False, DoneEvent i None],
           SessionError (''Task panicked: '' @ msg)))"

definition watcher_announces :: "session_run \<Rightarrow> session_run" where
  "watcher_announces run =
     (case sn_phase run of
        TaskOver e \<Rightarrow>
          (case announcement (sn_id run) e of
             (evs, status) \<Rightarrow> run\<lparr>sn_events := sn_events run @ evs, sn_phase := Announced status\<rparr>)
      | _ \<Rightarrow> run)"

definition set_session_status :: "rstr \<Rightarrow> session_status \<Rightarrow> (rstr \<times> session_handle) list \<Rightarrow> (rstr \<times> session_handle) list" where
  "set_session_status i s = map (\<lambda>(j, h). (j, if j = i then h\<lparr>sh_status := s\<rparr> else h))"

definition watcher_settles :: "nat \<Rightarrow> session_manager \<Rightarrow> session_manager" where
  "watcher_settles k m =
     (case sn_phase (sm_runs m ! k) of
        Announced status \<Rightarrow>
          (on_run k (\<lambda>run. run\<lparr>sn_phase := Settled status\<rparr>) m)
            \<lparr>sm_sessions := set_session_status (sn_id (sm_runs m ! k)) status (sm_sessions m)\<rparr>
      | _ \<Rightarrow> m)"

text \<open>
  What can happen to a manager. A task ends with what its loop makes of some surroundings, in which
  a cancellation is seen only if the token was cancelled; a crash of the loop is a panic with some text.
\<close>

datatype session_action =
    StartSession session_request cworld
  | CancelSession rstr
  | RemoveSession rstr
  | EndTask nat loop_env rstr
  | Announce nat
  | Settle nat

definition sees_cancel :: "loop_env \<Rightarrow> bool" where
  "sees_cancel env \<longleftrightarrow>
     (\<exists>n. le_cancelled env n) \<or> (\<exists>n msgs defs. snd (le_llm env n msgs defs) = Inl Cancelled)"

definition task_outcome :: "loop_env \<Rightarrow> rstr \<Rightarrow> session_run \<Rightarrow> (task_end \<times> agent_event list) option" where
  "task_outcome env panic_text run =
     (case run_agent env (sn_config run) (sn_message run) (sn_loop run) of
        None \<Rightarrow> None
      | Some (Returned r, st) \<Rightarrow> Some (TaskReturned r, ls_events st)
      | Some (Crashed, st) \<Rightarrow> Some (TaskPanicked panic_text, ls_events st))"

definition perform ::
  "(rstr option \<Rightarrow> rstr \<Rightarrow> tool) \<Rightarrow> session_action \<Rightarrow> session_manager \<Rightarrow> session_manager" where
  "perform catalogue a m =
     (case a of
        StartSession req w \<Rightarrow> start_session_inner catalogue req w m
      | CancelSession i \<Rightarrow> cancel_session i m
      | RemoveSession i \<Rightarrow> remove_session i m
      | EndTask k env panic_text \<Rightarrow>
          (case task_outcome env panic_text (sm_runs m ! k) of
             None \<Rightarrow> m
           | Some (e, evs) \<Rightarrow> on_run k (end_task e evs) m)
      | Announce k \<Rightarrow> on_run k watcher_announces m
      | Settle k \<Rightarrow> watcher_settles k m)"

fun possible :: "session_action \<Rightarrow> session_manager \<Rightarrow> bool" where
  "possible (EndTask k env panic_text) m \<longleftrightarrow>
     k < length (sm_runs m) \<and> sn_phase (sm_runs m ! k) = Running \<and>
     (sees_cancel env \<longrightarrow> sn_cancelled (sm_runs m ! k))"
| "possible (Announce k) m \<longleftrightarrow> k < length (sm_runs m)"
| "possible (Settle k) m \<longleftrightarrow> k < length (sm_runs m)"
| "possible _ m \<longleftrightarrow> True"

text \<open>A start is orderly when no run of that session is still on its way.\<close>

definition settled :: "session_run \<Rightarrow> bool" where
  "settled run \<longleftrightarrow> (case sn_phase run of Settled s \<Rightarrow> True | _ \<Rightarrow> False)"

fun orderly :: "session_action \<Rightarrow> session_manager \<Rightarrow> bool" where
  "orderly (StartSession req w) m \<longleftrightarrow> list_all (\<lambda>run. sn_id run = sq_id req \<longrightarrow> settled run) (sm_runs m)"
| "orderly a m \<longleftrightarrow> possible a m"

inductive managed ::
  "(session_action \<Rightarrow> session_manager \<Rightarrow> bool) \<Rightarrow> (rstr option \<Rightarrow> rstr \<Rightarrow> tool) \<Rightarrow> rstr \<Rightarrow> session_manager \<Rightarrow> bool"
  for allowed catalogue persister where
  fresh: "managed allowed catalogue persister (new_manager persister)"
| step: "managed allowed catalogue persister m \<Longrightarrow> allowed a m \<Longrightarrow>
    managed allowed catalogue persister (perform catalogue a m)"

subsection \<open>How a loop ends\<close>

fun closing :: "agent_event \<Rightarrow> bool" where
  "closing (DoneEvent s summary) = True"
| "closing (PlanReadyEvent s plan path dir) = True"
| "closing (UserQuestionAsked s question options) = True"
| "closing _ = False"

definition concluded :: "agent_event list \<Rightarrow> bool" where
  "concluded evs \<longleftrightarrow> evs \<noteq> [] \<and> closing (last evs)"

definition ends_properly :: "loop_env \<Rightarrow> outcome \<Rightarrow> loop_state \<Rightarrow> bool" where
  "ends_properly env r st \<longleftrightarrow>
     (case r of Inr res \<Rightarrow> concluded (ls_events st) | Inl e \<Rightarrow> e = Cancelled \<longrightarrow> sees_cancel env)"

lemma concluded_simps [simp]:
  "concluded (evs @ [e]) = closing e" "ls_events (emit e st) = ls_events st @ [e]"
  by (simp_all add: concluded_def emit_def)

lemma retry_loop_cancelled:
  "retry_loop env cfg defs n attempt delay last_error st = (Inl Cancelled, st') \<Longrightarrow> sees_cancel env"
proof (induction env cfg defs n attempt delay last_error st arbitrary: st' rule: retry_loop.induct)
  case (1 env cfg defs n attempt delay last_error st)
  obtain d st0 where b: "before_attempt cfg attempt delay last_error st = (d, st0)" by fastforce
  obtain r st1 where c: "chat_completion (le_llm env) False (ls_messages st0) defs st0 = (r, st1)" by fastforce
  show ?case
  proof (cases r)
    case (Inl e)
    have "snd (le_llm env (length (ls_sent st0)) (ls_messages st0) defs) = Inl e"
      using c Inl by (auto simp: chat_completion_def split: prod.splits)
    then have "e = Cancelled \<Longrightarrow> sees_cancel env" unfolding sees_cancel_def by blast
    moreover have "n = Suc n' \<Longrightarrow> e \<noteq> Cancelled \<Longrightarrow> \<not> permanent e \<Longrightarrow>
        retry_loop env cfg defs n' (Suc attempt) d (Some e) st1 = (Inl Cancelled, st') \<Longrightarrow> sees_cancel env" for n'
      using 1(1) [OF b [symmetric] c [symmetric] Inl] by blast
    ultimately show ?thesis
      using 1(2) b c Inl by (simp add: retry_loop.simps [of env cfg defs n] split: if_splits nat.splits)
  qed (use 1(2) b c in \<open>simp add: retry_loop.simps [of env cfg defs n]\<close>)
qed

lemma close_round_ends: "close_round env cfg tv st = (Inl r, st') \<Longrightarrow> ends_properly env r st'"
  by (cases "le_cancelled env (ls_polls st)")
    (auto simp: close_round_def poll_def ends_properly_def sees_cancel_def split: prod.splits if_splits)

lemma handle_yield_ends: "handle_yield cfg y st = (Some res, st') \<Longrightarrow> concluded (ls_events st')"
  by (auto simp: handle_yield_def Let_def split: option.splits if_splits)

lemma tool_round_ends:
  assumes "tool_round env cfg tv tcs st = (Inl r, st')"
  shows "ends_properly env r st'"
proof (cases "le_cancelled env (ls_polls st)")
  case True
  with assms show ?thesis by (auto simp: tool_round_def poll_def ends_properly_def sees_cancel_def)
next
  case False
  with assms show ?thesis
    by (auto simp: tool_round_def poll_def Let_def split: prod.splits option.splits dest!: close_round_ends handle_yield_ends)
      (simp add: ends_properly_def)
qed

lemma answer_round_ends:
  assumes "answer_round env cfg tv st = (Inl r, st')"
  shows "ends_properly env r st'"
proof -
  obtain tv1 st1 where c: "compact_before_call env cfg tv st = (tv1, st1)" by fastforce
  obtain x st2 where l: "call_llm_with_retry env cfg (tool_definitions (th_registry (lc_host cfg))) (strip_state st1) = (x, st2)"
    by fastforce
  show ?thesis
  proof (cases x)
    case (Inl e)
    with assms c l show ?thesis
      by (auto simp: answer_round_def ends_properly_def call_llm_with_retry_def dest: retry_loop_cancelled)
  next
    case (Inr response)
    obtain tv3 st3 where u: "record_usage cfg response tv1 st2 = (tv3, st3)" by fastforce
    show ?thesis
    proof (cases "lr_tool_calls response = []")
      case True
      with assms c l Inr u show ?thesis
        by (auto simp: answer_round_def Let_def finish_answer_def ends_properly_def split: if_splits)
    next
      case False
      with assms c l Inr u tool_round_ends show ?thesis by (simp add: answer_round_def Let_def)
    qed
  qed
qed

lemma loop_round_ends:
  assumes "loop_round env cfg tv st = (Inl r, st')"
  shows "ends_properly env r st'"
proof (cases "le_cancelled env (ls_polls st)")
  case True
  with assms show ?thesis by (auto simp: loop_round_def poll_def ends_properly_def sees_cancel_def)
next
  case False
  with assms show ?thesis
    by (auto simp: loop_round_def poll_def Let_def split: if_splits dest: answer_round_ends)
      (simp add: ends_properly_def)
qed

lemma run_loop_ends:
  assumes "run_loop env cfg tv st = Some x"
  shows "ends_properly env (fst x) (snd x)"
proof (rule run_loop.raw_induct [OF _ assms, where P = "\<lambda>env cfg tv st x. ends_properly env (fst x) (snd x)"])
  fix run env cfg tv st x
  assume IH: "\<And>env cfg tv st x. run env cfg tv st = Some x \<Longrightarrow> ends_properly env (fst x) (snd x)"
    and r: "(case loop_round env cfg tv st of (Inl r, st1) \<Rightarrow> Some (r, st1) | (Inr tv1, st1) \<Rightarrow> run env cfg tv1 st1) = Some x"
  from r show "ends_properly env (fst x) (snd x)"
    by (auto split: prod.splits sum.splits dest: loop_round_ends IH)
qed

lemma run_agent_ends:
  assumes "run_agent env cfg msg st = Some (Returned r, st')"
  shows "ends_properly env r st'"
proof -
  obtain st1 where i: "run_inner env cfg msg st = Some (Returned r, st1)" "st' = st1\<lparr>ls_persists := False\<rparr>"
    using assms by (auto simp: run_agent_def split: option.splits run_end.splits)
  then have "ends_properly env r st1"
    by (auto simp: run_inner_def Let_def split: option.splits dest!: run_loop_ends)
  with i(2) show ?thesis by (simp add: ends_properly_def split: sum.splits)
qed

subsection \<open>Every run is concluded\<close>

definition run_ok :: "session_run \<Rightarrow> bool" where
  "run_ok run \<longleftrightarrow>
     (case sn_phase run of
        Running \<Rightarrow> True
      | TaskOver e \<Rightarrow>
          (case e of
             TaskReturned r \<Rightarrow> (case r of Inr res \<Rightarrow> concluded (sn_events run) | Inl err \<Rightarrow> err = Cancelled \<longrightarrow> sn_cancelled run)
           | TaskPanicked msg \<Rightarrow> True)
      | Announced s \<Rightarrow> concluded (sn_events run) \<or> s = SessionError ''Cancelled'' \<and> sn_cancelled run
      | Settled s \<Rightarrow> concluded (sn_events run) \<or> s = SessionError ''Cancelled'' \<and> sn_cancelled run)"

lemma concluded_append: "concluded evs \<Longrightarrow> concluded (evs' @ evs)"
  by (simp add: concluded_def)

lemma announcement_concludes:
  assumes "announcement i e = (evs, s)" "sn_phase run = TaskOver e" "run_ok run"
  shows "concluded (sn_events run @ evs) \<or> s = SessionError ''Cancelled'' \<and> sn_cancelled run"
  using assms
  by (auto simp: announcement_def run_ok_def concluded_def split: task_end.splits sum.splits if_splits)

lemma run_ok_announces: "run_ok run \<Longrightarrow> run_ok (watcher_announces run)"
  using announcement_concludes [of "sn_id run"]
  by (auto simp: watcher_announces_def run_ok_def split: run_phase.splits prod.splits)

lemma run_ok_ends:
  assumes "task_outcome env pt run = Some (e, evs)" "sees_cancel env \<longrightarrow> sn_cancelled run"
  shows "run_ok (end_task e evs run)"
  using assms
  by (auto simp: task_outcome_def run_ok_def end_task_def ends_properly_def concluded_append
      split: option.splits run_end.splits sum.splits dest!: run_agent_ends)

lemma run_ok_fields:
  "run_ok run \<Longrightarrow> run_ok (run\<lparr>sn_cancelled := True\<rparr>)"
  "run_ok run \<Longrightarrow> sn_phase run = Announced s \<Longrightarrow> run_ok (run\<lparr>sn_phase := Settled s\<rparr>)"
  by (auto simp: run_ok_def split: run_phase.splits task_end.splits sum.splits)

lemma runs_on_run [simp]: "sm_runs (on_run k f m) = (sm_runs m)[k := f (sm_runs m ! k)]"
  by (simp add: on_run_def)

lemma runs_ok_cancel: "list_all run_ok (sm_runs m) \<Longrightarrow> list_all run_ok (sm_runs (cancel_session i m))"
  by (auto simp: cancel_session_def cancel_token_def run_ok_fields split: option.splits intro!: list_all_update)

lemma runs_ok_perform:
  assumes "list_all run_ok (sm_runs m)" "possible a m"
  shows "list_all run_ok (sm_runs (perform catalogue a m))"
proof (cases a)
  case (StartSession req w)
  with assms show ?thesis by (simp add: perform_def start_session_inner_def Let_def run_ok_def)
next
  case (EndTask k env pt)
  with assms show ?thesis
    by (auto simp: perform_def split: option.splits intro!: list_all_update run_ok_ends)
next
  case (Settle k)
  with assms show ?thesis
    by (auto simp: perform_def watcher_settles_def run_ok_fields split: run_phase.splits intro!: list_all_update)
qed (use assms in \<open>simp_all add: perform_def remove_session_def runs_ok_cancel list_all_update run_ok_announces\<close>)

lemma managed_mono:
  "managed P catalogue p m \<Longrightarrow> (\<And>a m. P a m \<Longrightarrow> Q a m) \<Longrightarrow> managed Q catalogue p m"
  by (induction rule: managed.induct) (auto intro: managed.intros)

subsection \<open>The status tells the run\<close>

text \<open>The status a run in a phase has in the map.\<close>

definition status_in :: "run_phase \<Rightarrow> session_status" where
  "status_in ph = (case ph of Settled s \<Rightarrow> s | _ \<Rightarrow> SessionActive)"

definition handle_ok :: "session_run list \<Rightarrow> rstr \<Rightarrow> session_handle \<Rightarrow> bool" where
  "handle_ok runs i h \<longleftrightarrow>
     sh_token h < length runs \<and> sn_id (runs ! sh_token h) = i \<and>
     sh_status h = status_in (sn_phase (runs ! sh_token h)) \<and>
     (\<forall>k < length runs. k \<noteq> sh_token h \<longrightarrow> sn_id (runs ! k) = i \<longrightarrow> settled (runs ! k))"

definition handles_ok :: "session_manager \<Rightarrow> bool" where
  "handles_ok m \<longleftrightarrow> (\<forall>(i, h) \<in> set (sm_sessions m). handle_ok (sm_runs m) i h)"

text \<open>A change of one run that keeps its session and the status it shows.\<close>

lemma handle_ok_update:
  assumes "handle_ok runs i h" "sn_id run = sn_id (runs ! k)"
    "status_in (sn_phase run) = status_in (sn_phase (runs ! k))" "settled (runs ! k) \<longrightarrow> settled run"
  shows "handle_ok (runs[k := run]) i h"
proof (cases "k < length runs")
  case True
  with assms show ?thesis unfolding handle_ok_def by (simp add: nth_list_update)
next
  case False
  with assms(1) show ?thesis by (simp add: not_less list_update_beyond)
qed

lemma handles_ok_update:
  assumes "handles_ok m" "sn_id run = sn_id (sm_runs m ! k)"
    "status_in (sn_phase run) = status_in (sn_phase (sm_runs m ! k))" "settled (sm_runs m ! k) \<longrightarrow> settled run"
  shows "handles_ok (m\<lparr>sm_runs := (sm_runs m)[k := run]\<rparr>)"
  using assms handle_ok_update by (fastforce simp: handles_ok_def)

lemma handles_ok_cancel:
  assumes "handles_ok m"
  shows "handles_ok (cancel_session i m)"
proof (cases "map_of (sm_sessions m) i")
  case (Some h)
  have "handles_ok (m\<lparr>sm_runs := (sm_runs m)[k := (sm_runs m ! k)\<lparr>sn_cancelled := True\<rparr>]\<rparr>)" for k
    by (rule handles_ok_update [OF assms]) (simp_all add: settled_def)
  with Some assms show ?thesis by (simp add: cancel_session_def cancel_token_def)
qed (use assms in \<open>simp add: cancel_session_def\<close>)

lemma handle_ok_snoc:
  "handle_ok runs i h \<Longrightarrow> sn_id run \<noteq> i \<Longrightarrow> handle_ok (runs @ [run]) i h"
  unfolding handle_ok_def by (simp add: nth_append less_Suc_eq)

lemma handles_ok_start:
  assumes "handles_ok m" "list_all (\<lambda>run. sn_id run = sq_id req \<longrightarrow> settled run) (sm_runs m)"
    "distinct (map fst (sm_sessions m))"
  shows "handles_ok (start_session_inner catalogue req w m)"
proof -
  let ?m = "start_session_inner catalogue req w m"
  have "handle_ok (sm_runs ?m) i h'" if "(i, h') \<in> set (sm_sessions ?m)" for i h'
  proof (cases "i = sq_id req")
    case True
    have "map_of (sm_sessions ?m) i = Some h'"
      using that assms(3) by (simp add: start_session_inner_def Let_def fst_upsert)
    with True have "sh_token h' = length (sm_runs m) \<and> sh_status h' = SessionActive"
      by (auto simp: start_session_inner_def Let_def map_of_upsert split: option.splits)
    with True assms(2) show ?thesis
      by (auto simp: start_session_inner_def Let_def handle_ok_def status_in_def nth_append list_all_length less_Suc_eq)
  next
    case False
    with that assms(1) have "handle_ok (sm_runs m) i h'"
      using set_upsert_subset [of "sq_id req" _ "\<lambda>_. _" "sm_sessions m"]
      by (fastforce simp: start_session_inner_def Let_def handles_ok_def)
    from handle_ok_snoc [OF this] False show ?thesis by (simp add: start_session_inner_def Let_def)
  qed
  then show ?thesis by (auto simp: handles_ok_def)
qed

lemma handle_ok_settle:
  assumes "handle_ok runs i h" "k < length runs" "sn_phase (runs ! k) = Announced s"
  shows "handle_ok (runs[k := (runs ! k)\<lparr>sn_phase := Settled s\<rparr>]) i
    (if sn_id (runs ! k) = i then h\<lparr>sh_status := s\<rparr> else h)"
proof -
  have "sn_id (runs ! k) = i \<Longrightarrow> sh_token h = k"
    using assms unfolding handle_ok_def settled_def by fastforce
  then show ?thesis
    using assms unfolding handle_ok_def
    by (cases "sn_id (runs ! k) = i") (auto simp: nth_list_update status_in_def settled_def)
qed

lemma handles_ok_settle:
  assumes "handles_ok m" "k < length (sm_runs m)"
  shows "handles_ok (watcher_settles k m)"
proof (cases "\<exists>s. sn_phase (sm_runs m ! k) = Announced s")
  case True
  then obtain s where s: "sn_phase (sm_runs m ! k) = Announced s" by blast
  have "handle_ok ((sm_runs m)[k := (sm_runs m ! k)\<lparr>sn_phase := Settled s\<rparr>]) i
      (if sn_id (sm_runs m ! k) = i then h\<lparr>sh_status := s\<rparr> else h)"
    if "(i, h) \<in> set (sm_sessions m)" for i h
    using that assms handle_ok_settle [OF _ assms(2) s] by (fastforce simp: handles_ok_def)
  with s show ?thesis
    by (fastforce simp: handles_ok_def watcher_settles_def set_session_status_def)
next
  case False
  then have "watcher_settles k m = m" by (auto simp: watcher_settles_def split: run_phase.splits)
  with assms show ?thesis by simp
qed

lemma sessions_cancel [simp]: "sm_sessions (cancel_session i m) = sm_sessions m"
  by (simp add: cancel_session_def split: option.splits)

lemma handles_ok_on_run:
  assumes "handles_ok m" "sn_id (f (sm_runs m ! k)) = sn_id (sm_runs m ! k)"
    "status_in (sn_phase (f (sm_runs m ! k))) = status_in (sn_phase (sm_runs m ! k))"
    "settled (sm_runs m ! k) \<longrightarrow> settled (f (sm_runs m ! k))"
  shows "handles_ok (on_run k f m)"
  using handles_ok_update [OF assms] by (simp add: on_run_def)

lemma keys_set_session_status [simp]: "map fst (set_session_status i s kvs) = map fst kvs"
  by (induction kvs) (auto simp: set_session_status_def)

lemma distinct_keys_perform:
  "distinct (map fst (sm_sessions m)) \<Longrightarrow> distinct (map fst (sm_sessions (perform catalogue a m)))"
  by (cases a)
    (auto simp: perform_def start_session_inner_def Let_def fst_upsert cancel_session_def remove_session_def
      watcher_settles_def on_run_def distinct_map_filter split: option.splits run_phase.splits prod.splits)

lemma handles_ok_perform:
  assumes "handles_ok m" "orderly a m" "distinct (map fst (sm_sessions m))"
  shows "handles_ok (perform catalogue a m)"
proof (cases a)
  case (RemoveSession i)
  have "handles_ok (n\<lparr>sm_sessions := filter p (sm_sessions n)\<rparr>)" if "handles_ok n" for n p
    using that by (auto simp: handles_ok_def)
  from this [OF handles_ok_cancel [OF assms(1)]] RemoveSession show ?thesis
    by (simp add: perform_def remove_session_def)
next
  case (EndTask k env pt)
  with assms show ?thesis
    by (auto simp: perform_def end_task_def status_in_def settled_def split: option.splits prod.splits
        intro!: handles_ok_on_run)
next
  case (Announce k)
  with assms show ?thesis
    by (auto simp: perform_def watcher_announces_def status_in_def settled_def
        split: run_phase.splits prod.splits intro!: handles_ok_on_run)
qed (use assms in \<open>simp_all add: perform_def handles_ok_start handles_ok_cancel handles_ok_settle\<close>)

lemma managed_orderly:
  assumes "managed orderly catalogue persister m"
  shows "handles_ok m" "distinct (map fst (sm_sessions m))"
  using assms
  by (induction rule: managed.induct)
    (simp_all add: new_manager_def handles_ok_def [of "\<lparr>sm_sessions = [], sm_runs = r, sm_persister = p\<rparr>" for r p]
      distinct_keys_perform handles_ok_perform)

lemma managed_runs:
  assumes "managed possible catalogue persister m"
  shows "list_all run_ok (sm_runs m)"
  using assms by (induction rule: managed.induct) (simp_all add: new_manager_def runs_ok_perform)

lemma orderly_possible: "orderly a m \<Longrightarrow> possible a m"
  by (cases a) simp_all

subsection \<open>An example: a message whose preview panics\<close>

definition crash_message :: chat_message where
  "crash_message = user_msg (replicate 99 (CHR ''a'') @ [CHR 0xC3, CHR 0xA9])"

definition example_session :: "rstr \<Rightarrow> session_request" where
  "example_session i =
     start_ask_session i
       \<lparr>sc_loop = \<lparr>lc_max_iterations = 50, lc_retry = default_retry_config, lc_system_prompt = None,
          lc_parent_session = None, lc_host = example_host (JObj []) None\<rparr>,
        sc_compaction = default_compaction_config, sc_mode = AskMode, sc_engine = False,
        sc_engine_repo_path = None, sc_skills = False, sc_subagents = None, sc_inheritance = None\<rparr>
       crash_message None None None None"

definition start_example :: session_action where
  "start_example = StartSession (example_session ''a'') one_file_world"

definition still_env :: loop_env where
  "still_env = \<lparr>le_llm = (\<lambda>_ _ _. ([], Inl (LlmParseError []))), le_compaction_llm = None,
     le_cancelled = (\<lambda>_. False), le_order = (\<lambda>_ n. [0..<n])\<rparr>"

lemma still_env_sees_nothing: "\<not> sees_cancel still_env"
  by (simp add: sees_cancel_def still_env_def)

definition performs :: "session_action list \<Rightarrow> session_manager" where
  "performs actions = fold (perform (\<lambda>_. stub_tool)) actions (new_manager ''db'')"

lemma managed_fold:
  assumes "managed allowed catalogue persister m"
    "\<And>i. i < length actions \<Longrightarrow> allowed (actions ! i) (fold (perform catalogue) (take i actions) m)"
  shows "managed allowed catalogue persister (fold (perform catalogue) actions m)"
  using assms(2)
proof (induction actions rule: rev_induct)
  case (snoc a as)
  have "managed allowed catalogue persister (fold (perform catalogue) as m)"
  proof (rule snoc.IH)
    fix i assume "i < length as"
    then show "allowed (as ! i) (fold (perform catalogue) (take i as) m)"
      using snoc.prems [of i] by (simp add: nth_append)
  qed
  moreover have "allowed a (fold (perform catalogue) as m)"
    using snoc.prems [of "length as"] by simp
  ultimately show ?case by (simp add: managed.step)
qed (simp add: assms(1))

lemma crash_outcome:
  assumes "sn_message run = crash_message"
  shows "task_outcome env pt run = Some (TaskPanicked pt, ls_events (sn_loop run))"
proof -
  have "user_text_preview crash_message = None"
    by (simp add: crash_message_def user_text_preview_def user_msg_def str_slice_def is_char_boundary_def
        nth_append is_continuation_def byte_val_def)
  with assms show ?thesis by (simp add: task_outcome_def run_agent_def run_inner_def)
qed

lemma start_example_run:
  "sm_runs (perform (\<lambda>_. stub_tool) start_example m) = sm_runs m @
     [\<lparr>sn_id = ''a'', sn_persist_id = ''a'', sn_persister = sm_persister m,
       sn_config = session_loop_config (\<lambda>_. stub_tool) (example_session ''a''), sn_message = crash_message,
       sn_loop = session_loop (session_loop_config (\<lambda>_. stub_tool) (example_session ''a'')) (example_session ''a'') one_file_world,
       sn_events = [], sn_phase = Running, sn_cancelled = False\<rparr>]"
  "sm_sessions (perform (\<lambda>_. stub_tool) start_example m) =
     upsert ''a'' \<lparr>sh_token = length (sm_runs m), sh_status = SessionActive, sh_mode = AskMode,
         sh_project_path = None, sh_branch = None\<rparr>
       (\<lambda>_. \<lparr>sh_token = length (sm_runs m), sh_status = SessionActive, sh_mode = AskMode,
         sh_project_path = None, sh_branch = None\<rparr>) (sm_sessions m)"
  "sm_persister (perform (\<lambda>_. stub_tool) start_example m) = sm_persister m"
  by (simp_all add: perform_def start_example_def start_session_inner_def Let_def example_session_def start_ask_session_def)

lemma example_loop_events:
  "ls_events (session_loop (session_loop_config (\<lambda>_. stub_tool) (example_session ''a'')) (example_session ''a'') one_file_world) = []"
  by (simp add: session_loop_def example_session_def start_ask_session_def seed_context_def with_persister_def with_provider_def)

lemma perform_simps:
  "perform catalogue (EndTask k env pt) m =
     (case task_outcome env pt (sm_runs m ! k) of None \<Rightarrow> m | Some (e, evs) \<Rightarrow> on_run k (end_task e evs) m)"
  "perform catalogue (Announce k) m = on_run k watcher_announces m"
  "perform catalogue (Settle k) m = watcher_settles k m"
  "perform catalogue (CancelSession i) m = cancel_session i m"
  by (simp_all add: perform_def)

lemma start_example_allowed [simp]:
  "possible start_example m"
  "orderly start_example m \<longleftrightarrow> list_all (\<lambda>run. sn_id run = ''a'' \<longrightarrow> settled run) (sm_runs m)"
  by (simp_all add: start_example_def example_session_def start_ask_session_def)

lemmas performs_simps = performs_def perform_simps crash_outcome start_example_run on_run_def end_task_def watcher_announces_def
  watcher_settles_def set_session_status_def announcement_def new_manager_def example_loop_events

text \<open>
  C31: no run leaves its listener waiting: once its watcher has spoken, the last event on its channel says the run
  is over, or the run was cancelled and its session is marked so, whatever was started, cancelled or removed
  meanwhile.
\<close>

theorem every_run_is_concluded:
  assumes "managed possible catalogue persister m" "run \<in> set (sm_runs m)"
    "sn_phase run = Announced s \<or> sn_phase run = Settled s"
  shows "concluded (sn_events run) \<or> s = SessionError ''Cancelled'' \<and> sn_cancelled run"
  using managed_runs [OF assms(1)] assms(2,3) by (auto simp: list_all_iff run_ok_def)

theorem every_run_is_concluded_witness:
  "concluded (sn_events (sm_runs (performs [start_example, EndTask 0 still_env ''boom'', Announce 0]) ! 0))"
proof -
  let ?acts = "[start_example, EndTask 0 still_env ''boom'', Announce 0]"
  have "managed possible (\<lambda>_. stub_tool) ''db'' (performs ?acts)"
    unfolding performs_def
    by (rule managed_fold [OF managed.fresh])
      (auto simp: less_Suc_eq performs_simps still_env_sees_nothing)
  moreover have "sn_phase (sm_runs (performs ?acts) ! 0) = Announced (SessionError ''Task panicked: boom'')"
    "sm_runs (performs ?acts) ! 0 \<in> set (sm_runs (performs ?acts))"
    by (simp_all add: performs_simps)
  ultimately show ?thesis
    using every_run_is_concluded [of "\<lambda>_. stub_tool" "''db''" "performs ?acts" "sm_runs (performs ?acts) ! 0"
      "SessionError ''Task panicked: boom''"] by simp
qed


text \<open>
  C32: when a session is only started again after its last run has settled, what the manager says of it is
  true: its handle holds the token of a run of that session, every other run of it is over, and its status
  is active exactly as long as that run has not settled and is the run's status after that.
\<close>

theorem status_tells_the_run:
  assumes "managed orderly catalogue persister m" "map_of (sm_sessions m) i = Some h"
  shows "sh_token h < length (sm_runs m) \<and> sn_id (sm_runs m ! sh_token h) = i \<and>
    session_status_of i m = Some (status_in (sn_phase (sm_runs m ! sh_token h))) \<and>
    (\<forall>k < length (sm_runs m). k \<noteq> sh_token h \<longrightarrow> sn_id (sm_runs m ! k) = i \<longrightarrow> settled (sm_runs m ! k))"
proof -
  have "handle_ok (sm_runs m) i h"
    using managed_orderly(1) [OF assms(1)] map_of_SomeD [OF assms(2)] by (auto simp: handles_ok_def)
  with assms(2) show ?thesis by (simp add: handle_ok_def session_status_of_def)
qed

definition crashed_session :: session_manager where
  "crashed_session = performs [start_example, EndTask 0 still_env ''boom'', Announce 0, Settle 0, start_example]"

theorem status_tells_the_run_witness:
  "session_status_of ''a'' crashed_session = Some (status_in (sn_phase (sm_runs crashed_session ! 1)))"
proof -
  have "managed orderly (\<lambda>_. stub_tool) ''db'' crashed_session"
    unfolding performs_def crashed_session_def
    by (rule managed_fold [OF managed.fresh])
      (auto simp: less_Suc_eq performs_simps still_env_sees_nothing settled_def)
  moreover have "map_of (sm_sessions crashed_session) ''a'' = Some
    \<lparr>sh_token = 1, sh_status = SessionActive, sh_mode = AskMode, sh_project_path = None, sh_branch = None\<rparr>"
    by (simp add: crashed_session_def performs_simps)
  ultimately show ?thesis
    using status_tells_the_run [of "\<lambda>_. stub_tool" "''db''" crashed_session "''a''"] by simp
qed

text \<open>
  Without that order the statement fails: the watcher of a first run that ends late writes its status over
  that of the second, which is still running, and cancelling the session no longer reaches the first.
\<close>

theorem restart_is_overwritten:
  "session_status_of ''a'' (performs [start_example, start_example, EndTask 0 still_env ''boom'', Announce 0, Settle 0]) =
     Some (SessionError ''Task panicked: boom'') \<and>
   sn_phase (sm_runs (performs [start_example, start_example, EndTask 0 still_env ''boom'', Announce 0, Settle 0]) ! 1) = Running \<and>
   \<not> sn_cancelled (sm_runs (performs [start_example, start_example, CancelSession ''a'']) ! 0)"
  by (simp add: performs_simps cancel_session_def cancel_token_def session_status_of_def)

end
