(* ===== verification/FileWatcher.thy ===== *)
theory FileWatcher
  imports IgnoreFilter
begin

section \<open>Debouncing file events (\<open>context_watcher/file_watcher.rs\<close>)\<close>

text \<open>
  The loop between the operating system's notifications and the sync worker. Every 10 ms it drains
  the raw events, keeps the paths that changed and those that were deleted, and sends them as one
  batch: half a second after the first of them, or, when the last batch is younger than a minute,
  once that minute is over. A tick of the loop is given by the events it drains and by the moments
  at which it reads the clock, in milliseconds. The channel to the worker is taken to accept what is
  sent; the order inside a batch is a hash set's, so a batch is two sets.
\<close>

definition debounce_ms :: nat where "debounce_ms = 500"
definition cooldown_ms :: nat where "cooldown_ms = 60 * 1000"

datatype event_kind = CreateKind | ModifyKind | RemoveKind | OtherKind

text \<open>An event with what the disk shows of its paths while it is processed.\<close>

record fs_event =
  fe_kind :: event_kind
  fe_paths :: "rstr list"
  fe_view :: file_view

record change_batch =
  cb_created_or_modified :: "rstr set"
  cb_deleted :: "rstr set"

record debouncer =
  db_changes :: "rstr set"
  db_deletes :: "rstr set"
  db_last_trigger :: "nat option"
  db_debounce :: "nat option"
  db_deferred :: "nat option"

definition new_debouncer :: debouncer where
  "new_debouncer = \<lparr>db_changes = {}, db_deletes = {}, db_last_trigger = None, db_debounce = None, db_deferred = None\<rparr>"

definition process_path :: "ignore_filter \<Rightarrow> fs_event \<Rightarrow> rstr \<Rightarrow> debouncer \<Rightarrow> debouncer" where
  "process_path f ev path st =
     (if \<not> should_include (fe_view ev) f path then st
      else case fe_kind ev of
        OtherKind \<Rightarrow> st
      | RemoveKind \<Rightarrow> st\<lparr>db_changes := db_changes st - {path}, db_deletes := insert path (db_deletes st)\<rparr>
      | _ \<Rightarrow>
          if \<not> fv_is_file (fe_view ev) path then st
          else st\<lparr>db_deletes := db_deletes st - {path}, db_changes := insert path (db_changes st)\<rparr>)"

definition process_event :: "ignore_filter \<Rightarrow> fs_event \<Rightarrow> debouncer \<Rightarrow> debouncer" where
  "process_event f ev st = fold (process_path f ev) (fe_paths ev) st"

definition has_pending :: "debouncer \<Rightarrow> bool" where
  "has_pending st \<longleftrightarrow> db_changes st \<noteq> {} \<or> db_deletes st \<noteq> {}"

text \<open>What is sent, with the moment that becomes the last trigger.\<close>

definition emit_batch :: "nat \<Rightarrow> debouncer \<Rightarrow> (nat \<times> change_batch) \<times> debouncer" where
  "emit_batch t st =
     ((t, \<lparr>cb_created_or_modified = db_changes st, cb_deleted = db_deletes st\<rparr>),
      st\<lparr>db_changes := {}, db_deletes := {}, db_last_trigger := Some t\<rparr>)"

text \<open>
  A tick: what \<open>try_recv\<close> yields until the channel is empty (an error is dropped), then the moments at
  which the deadline is set, the deadlines are checked, and a batch is sent by either check.
\<close>

record watch_tick =
  tk_events :: "(rstr + fs_event) list"
  tk_armed :: nat
  tk_now :: nat
  tk_fired :: nat
  tk_refired :: nat

definition drain_events :: "ignore_filter \<Rightarrow> watch_tick \<Rightarrow> debouncer \<Rightarrow> debouncer" where
  "drain_events f tk st =
     fold (\<lambda>r st. case r of Inl e \<Rightarrow> st | Inr ev \<Rightarrow> process_event f ev st) (tk_events tk) st"

definition arm :: "watch_tick \<Rightarrow> bool \<Rightarrow> debouncer \<Rightarrow> debouncer" where
  "arm tk was_empty st =
     (if was_empty \<and> has_pending st then st\<lparr>db_debounce := Some (tk_armed tk + debounce_ms)\<rparr> else st)"

definition check_debounce :: "watch_tick \<Rightarrow> debouncer \<Rightarrow> (nat \<times> change_batch) list \<times> debouncer" where
  "check_debounce tk st =
     (case db_debounce st of
        None \<Rightarrow> ([], st)
      | Some dd \<Rightarrow>
          if tk_now tk < dd then ([], st)
          else
            let st1 = st\<lparr>db_debounce := None\<rparr>;
                cooldown_ok = (case db_last_trigger st1 of Some lt \<Rightarrow> tk_now tk - lt \<ge> cooldown_ms | None \<Rightarrow> True)
            in if \<not> has_pending st1 then ([], st1)
               else if cooldown_ok then (case emit_batch (tk_fired tk) st1 of (b, st2) \<Rightarrow> ([b], st2))
               else ([], case db_last_trigger st1 of
                      Some lt \<Rightarrow> st1\<lparr>db_deferred := Some (lt + cooldown_ms)\<rparr> | None \<Rightarrow> st1))"

definition check_deferred :: "watch_tick \<Rightarrow> debouncer \<Rightarrow> (nat \<times> change_batch) list \<times> debouncer" where
  "check_deferred tk st =
     (case db_deferred st of
        None \<Rightarrow> ([], st)
      | Some dd \<Rightarrow>
          if tk_now tk < dd then ([], st)
          else
            let st1 = st\<lparr>db_deferred := None\<rparr>
            in if has_pending st1 then (case emit_batch (tk_refired tk) st1 of (b, st2) \<Rightarrow> ([b], st2))
               else ([], st1))"

definition debounce_tick :: "ignore_filter \<Rightarrow> watch_tick \<Rightarrow> debouncer \<Rightarrow> (nat \<times> change_batch) list \<times> debouncer" where
  "debounce_tick f tk st =
     (let st1 = arm tk (\<not> has_pending st) (drain_events f tk st);
          (out1, st2) = check_debounce tk st1;
          (out2, st3) = check_deferred tk st2
      in (out1 @ out2, st3))"

text \<open>The loop, from the ticks it makes before it is cancelled.\<close>

fun debounce_loop :: "ignore_filter \<Rightarrow> watch_tick list \<Rightarrow> debouncer \<Rightarrow> (nat \<times> change_batch) list \<times> debouncer" where
  "debounce_loop f [] st = ([], st)"
| "debounce_loop f (tk # tks) st =
     (let (out, st1) = debounce_tick f tk st; (outs, st2) = debounce_loop f tks st1 in (out @ outs, st2))"

subsection \<open>What the events say and what the batches say\<close>

text \<open>\<open>True\<close>: there is new content; \<open>False\<close>: the file is gone.\<close>

definition event_says :: "ignore_filter \<Rightarrow> fs_event \<Rightarrow> rstr \<Rightarrow> bool option" where
  "event_says f ev path =
     (if \<not> should_include (fe_view ev) f path then None
      else case fe_kind ev of
        OtherKind \<Rightarrow> None
      | RemoveKind \<Rightarrow> Some False
      | _ \<Rightarrow> if fv_is_file (fe_view ev) path then Some True else None)"

definition event_view :: "ignore_filter \<Rightarrow> fs_event \<Rightarrow> rstr \<rightharpoonup> bool" where
  "event_view f ev = (\<lambda>path. if path \<in> set (fe_paths ev) then event_says f ev path else None)"

fun events_view :: "ignore_filter \<Rightarrow> (rstr + fs_event) list \<Rightarrow> rstr \<rightharpoonup> bool" where
  "events_view f [] = Map.empty"
| "events_view f (Inl e # evs) = events_view f evs"
| "events_view f (Inr ev # evs) = event_view f ev ++ events_view f evs"

definition batch_view :: "change_batch \<Rightarrow> rstr \<rightharpoonup> bool" where
  "batch_view b = (\<lambda>path. if path \<in> cb_created_or_modified b then Some True
     else if path \<in> cb_deleted b then Some False else None)"

definition batches_view :: "(nat \<times> change_batch) list \<Rightarrow> rstr \<rightharpoonup> bool" where
  "batches_view out = foldl (++) Map.empty (map (batch_view \<circ> snd) out)"

definition pending_view :: "debouncer \<Rightarrow> rstr \<rightharpoonup> bool" where
  "pending_view st = batch_view \<lparr>cb_created_or_modified = db_changes st, cb_deleted = db_deletes st\<rparr>"

subsection \<open>Nothing is lost on the way\<close>

lemma pending_view_empty: "pending_view st = Map.empty \<longleftrightarrow> \<not> has_pending st"
  by (auto simp: pending_view_def batch_view_def has_pending_def fun_eq_iff split: if_splits)

lemma process_path_view:
  "pending_view (process_path f ev p st) = pending_view st ++ (\<lambda>q. if q = p then event_says f ev p else None)"
  by (rule ext)
    (auto simp: pending_view_def batch_view_def process_path_def event_says_def map_add_def split: event_kind.splits)

lemma process_paths_view:
  "pending_view (fold (process_path f ev) ps st) =
     pending_view st ++ (\<lambda>p. if p \<in> set ps then event_says f ev p else None)"
proof (induction ps arbitrary: st)
  case (Cons p ps)
  show ?case
    by (rule ext) (simp add: Cons.IH process_path_view map_add_def split: option.splits)
qed (simp add: fun_eq_iff map_add_def)

lemma process_event_view: "pending_view (process_event f ev st) = pending_view st ++ event_view f ev"
  by (simp add: process_event_def process_paths_view event_view_def)

lemma drain_view: "pending_view (drain_events f tk st) = pending_view st ++ events_view f (tk_events tk)"
proof -
  have "pending_view (fold (\<lambda>r st. case r of Inl e \<Rightarrow> st | Inr ev \<Rightarrow> process_event f ev st) evs st) =
      pending_view st ++ events_view f evs" for evs
    by (induction f evs arbitrary: st rule: events_view.induct) (simp_all add: process_event_view)
  then show ?thesis by (simp add: drain_events_def)
qed

lemma process_event_fields:
  "db_last_trigger (process_event f ev st) = db_last_trigger st \<and> db_debounce (process_event f ev st) = db_debounce st \<and>
   db_deferred (process_event f ev st) = db_deferred st"
proof -
  have "db_last_trigger (fold (process_path f ev) ps st) = db_last_trigger st \<and>
    db_debounce (fold (process_path f ev) ps st) = db_debounce st \<and>
    db_deferred (fold (process_path f ev) ps st) = db_deferred st" for ps
  proof (induction ps arbitrary: st)
    case (Cons p ps)
    then show ?case by (simp add: process_path_def split: event_kind.splits)
  qed simp
  then show ?thesis by (simp add: process_event_def)
qed

lemma drain_fields [simp]:
  "db_last_trigger (drain_events f tk st) = db_last_trigger st"
  "db_debounce (drain_events f tk st) = db_debounce st"
  "db_deferred (drain_events f tk st) = db_deferred st"
proof -
  have "db_last_trigger (fold (\<lambda>r st. case r of Inl e \<Rightarrow> st | Inr ev \<Rightarrow> process_event f ev st) evs st) = db_last_trigger st \<and>
    db_debounce (fold (\<lambda>r st. case r of Inl e \<Rightarrow> st | Inr ev \<Rightarrow> process_event f ev st) evs st) = db_debounce st \<and>
    db_deferred (fold (\<lambda>r st. case r of Inl e \<Rightarrow> st | Inr ev \<Rightarrow> process_event f ev st) evs st) = db_deferred st"
    for evs :: "(rstr + fs_event) list"
    by (induction f evs arbitrary: st rule: events_view.induct) (simp_all add: process_event_fields)
  then show "db_last_trigger (drain_events f tk st) = db_last_trigger st"
    "db_debounce (drain_events f tk st) = db_debounce st" "db_deferred (drain_events f tk st) = db_deferred st"
    by (simp_all add: drain_events_def)
qed

lemma drain_pending: "has_pending st \<Longrightarrow> has_pending (drain_events f tk st)"
  using drain_view [of f tk st] pending_view_empty [of st] pending_view_empty [of "drain_events f tk st"]
  by (metis map_add_None fun_eq_iff)

lemma drain_quiet: "events_view f (tk_events tk) = Map.empty \<Longrightarrow> has_pending (drain_events f tk st) = has_pending st"
  using drain_view [of f tk st] pending_view_empty by (metis map_add_empty)

subsection \<open>Deadlines\<close>

text \<open>
  Between two ticks: with nothing pending no deadline is set, otherwise exactly one is, the first
  or the deferred one.
\<close>

definition armed_ok :: "debouncer \<Rightarrow> bool" where
  "armed_ok st \<longleftrightarrow>
     (if has_pending st then
        (db_debounce st \<noteq> None \<and> db_deferred st = None) \<or>
        (db_debounce st = None \<and> (\<exists>lt. db_last_trigger st = Some lt \<and> db_deferred st = Some (lt + cooldown_ms)))
      else db_debounce st = None \<and> db_deferred st = None)"

definition emptied :: "nat \<Rightarrow> debouncer" where
  "emptied t = \<lparr>db_changes = {}, db_deletes = {}, db_last_trigger = Some t, db_debounce = None, db_deferred = None\<rparr>"

lemma emptied_simps [simp]:
  "db_debounce (emptied t) = None" "db_deferred (emptied t) = None" "\<not> has_pending (emptied t)" "armed_ok (emptied t)" "db_last_trigger (emptied t) = Some t" "pending_view (emptied t) = Map.empty"
  by (simp_all add: emptied_def has_pending_def armed_ok_def pending_view_def batch_view_def)

lemma emit_emptied:
  "db_debounce st = None \<Longrightarrow> db_deferred st = None \<Longrightarrow>
   emit_batch t st = ((t, \<lparr>cb_created_or_modified = db_changes st, cb_deleted = db_deletes st\<rparr>), emptied t)"
  by (cases st) (simp add: emit_batch_def emptied_def)

lemma has_pending_update [simp]:
  "has_pending (st\<lparr>db_debounce := d\<rparr>) = has_pending st" "has_pending (st\<lparr>db_deferred := d\<rparr>) = has_pending st"
  "pending_view (st\<lparr>db_debounce := d\<rparr>) = pending_view st" "pending_view (st\<lparr>db_deferred := d\<rparr>) = pending_view st"
  by (simp_all add: has_pending_def pending_view_def)

text \<open>A tick either sends everything, not before the cooldown is over, or keeps everything.\<close>

lemma debounce_tick_cases:
  assumes "armed_ok st" "debounce_tick f tk st = (out, st')"
  obtains (kept) "out = []" "armed_ok st'" "db_last_trigger st' = db_last_trigger st"
      "pending_view st' = pending_view (drain_events f tk st)"
      "has_pending st' \<Longrightarrow> \<forall>d. db_debounce st' = Some d \<longrightarrow> tk_now tk < d"
      "has_pending st' \<Longrightarrow> \<forall>d. db_deferred st' = Some d \<longrightarrow> tk_now tk < d"
      "db_debounce st' = db_debounce st \<or> db_debounce st' = None \<or>
        \<not> has_pending st \<and> db_debounce st' = Some (tk_armed tk + debounce_ms)"
  | (sent) t b where "out = [(t, b)]" "st' = emptied t" "t = tk_fired tk \<or> t = tk_refired tk"
      "batch_view b = pending_view (drain_events f tk st)"
      "\<forall>lt. db_last_trigger st = Some lt \<longrightarrow> lt + cooldown_ms \<le> tk_now tk"
proof -
  let ?d = "drain_events f tk st"
  show ?thesis
  proof (cases "has_pending ?d")
    case False
    then have none: "\<not> has_pending st" using drain_pending by blast
    with assms(1) have "db_debounce st = None" "db_deferred st = None" by (simp_all add: armed_ok_def)
    with False assms(2) show ?thesis
      by (intro kept) (auto simp: debounce_tick_def arm_def check_debounce_def check_deferred_def armed_ok_def)
  next
    case pending: True
    define a where "a = arm tk (\<not> has_pending st) ?d"
    have a: "has_pending a" "db_changes a = db_changes ?d" "db_deletes a = db_deletes ?d"
      "db_last_trigger a = db_last_trigger st"
      "db_debounce a = (if has_pending st then db_debounce st else Some (tk_armed tk + debounce_ms))"
      "db_deferred a = db_deferred st"
      using pending by (auto simp: a_def arm_def has_pending_def)
    have view: "pending_view a = pending_view ?d" by (simp add: pending_view_def a)
    have out: "(out, st') = (case check_debounce tk a of (out1, st2) \<Rightarrow> case check_deferred tk st2 of (out2, st3) \<Rightarrow> (out1 @ out2, st3))"
      using assms(2) by (simp add: debounce_tick_def a_def)
    have sent_view: "batch_view \<lparr>cb_created_or_modified = db_changes a, cb_deleted = db_deletes a\<rparr> = pending_view ?d"
      using view by (simp add: pending_view_def)
    show ?thesis
    proof (cases "db_debounce a")
      case None
      with a assms(1) obtain lt where lt: "has_pending st" "db_last_trigger st = Some lt" "db_deferred st = Some (lt + cooldown_ms)"
        by (auto simp: armed_ok_def split: if_splits)
      show ?thesis
      proof (cases "lt + cooldown_ms \<le> tk_now tk")
        case True
        with None a(1,4,6) lt have "(out, st') = ([(tk_refired tk, \<lparr>cb_created_or_modified = db_changes a, cb_deleted = db_deletes a\<rparr>)], emptied (tk_refired tk))"
          unfolding out by (simp add: check_debounce_def check_deferred_def emit_emptied)
        with sent_view lt True show ?thesis by (intro sent) auto
      next
        case False
        with None a(1,4,6) lt have "out = [] \<and> st' = a"
          using out by (simp add: check_debounce_def check_deferred_def)
        with False None a lt view show ?thesis by (intro kept) (auto simp: armed_ok_def)
      qed
    next
      case (Some d)
      have no_def: "db_deferred a = None" using Some a assms(1) by (auto simp: armed_ok_def split: if_splits)
      show ?thesis
      proof (cases "tk_now tk < d")
        case True
        with Some no_def have "out = [] \<and> st' = a" using out by (simp add: check_debounce_def check_deferred_def)
        with True Some a no_def view show ?thesis by (intro kept) (auto simp: armed_ok_def split: if_splits)
      next
        case False
        show ?thesis
        proof (cases "\<exists>lt. db_last_trigger st = Some lt \<and> tk_now tk < lt + cooldown_ms")
          case True
          then obtain lt where lt: "db_last_trigger st = Some lt" "tk_now tk < lt + cooldown_ms" by blast
          then have late: "\<not> cooldown_ms \<le> tk_now tk - lt" unfolding cooldown_ms_def by linarith
          from lt late False Some a(1,4) have "out = [] \<and> st' = a\<lparr>db_debounce := None, db_deferred := Some (lt + cooldown_ms)\<rparr>"
            using out by (simp add: check_debounce_def check_deferred_def)
          with lt a view show ?thesis by (intro kept) (auto simp: armed_ok_def)
        next
          case over: False
          then have "case db_last_trigger st of Some lt \<Rightarrow> tk_now tk - lt \<ge> cooldown_ms | None \<Rightarrow> True"
            by (auto split: option.splits)
          with False Some a(1,4) no_def have "(out, st') = ([(tk_fired tk, \<lparr>cb_created_or_modified = db_changes a, cb_deleted = db_deletes a\<rparr>)], emptied (tk_fired tk))"
            unfolding out by (simp add: check_debounce_def check_deferred_def emit_emptied) 
          with sent_view over show ?thesis by (intro sent) (auto simp: not_less)
        qed
      qed
    qed
  qed
qed

subsection \<open>Whole runs\<close>

definition tick_times :: "watch_tick \<Rightarrow> nat list" where
  "tick_times tk = [tk_armed tk, tk_now tk, tk_fired tk, tk_refired tk]"

text \<open>The clock does not run backwards.\<close>

definition timed :: "watch_tick list \<Rightarrow> bool" where
  "timed tks \<longleftrightarrow> sorted (concat (map tick_times tks))"

lemma batches_view_append: "batches_view (out @ out') = batches_view out ++ batches_view out'"
proof -
  have "foldl (++) m ms = m ++ foldl (++) Map.empty ms" for m :: "rstr \<rightharpoonup> bool" and ms
    by (induction ms rule: rev_induct) simp_all
  then show ?thesis by (metis batches_view_def foldl_append map_append)
qed

lemma batches_view_simps [simp]:
  "batches_view [] = Map.empty" "batches_view [(t, b)] = batch_view b"
  by (simp_all add: batches_view_def)

lemma debounce_loop_snoc:
  "debounce_loop f (tks @ [tk]) st =
     (case debounce_loop f tks st of (out, st1) \<Rightarrow> case debounce_tick f tk st1 of (out', st2) \<Rightarrow> (out @ out', st2))"
  by (induction tks arbitrary: st) (auto split: prod.splits)

text \<open>
  What holds after every run of ticks: deadlines are in order, the last trigger is the moment of the
  last batch and batches are a cooldown apart; and for any bound on the moments at which
  ticks with events armed the deadline, the pending changes leave within a debounce and a cooldown of it.
\<close>

definition debounce_inv :: "watch_tick list \<Rightarrow> (nat \<times> change_batch) list \<Rightarrow> debouncer \<Rightarrow> bool" where
  "debounce_inv tks out st \<longleftrightarrow>
     armed_ok st \<and>
     (\<forall>lt. db_last_trigger st = Some lt \<longrightarrow> lt \<in> set (concat (map tick_times tks))) \<and>
     (\<forall>(t, b) \<in> set out. \<exists>lt. db_last_trigger st = Some lt \<and> t \<le> lt) \<and>
     sorted_wrt (\<lambda>(t, b) (t', b'). t + cooldown_ms \<le> t') out"

definition due_by :: "nat \<Rightarrow> debouncer \<Rightarrow> bool" where
  "due_by T st \<longleftrightarrow> (has_pending st \<longrightarrow>
     (\<forall>d. db_debounce st = Some d \<longrightarrow> d \<le> T + debounce_ms \<and> (\<forall>lt. db_last_trigger st = Some lt \<longrightarrow> lt \<le> T)) \<and>
     (\<forall>d. db_deferred st = Some d \<longrightarrow> d \<le> T + cooldown_ms))"

lemma tick_view:
  assumes "armed_ok st" "debounce_tick f tk st = (out, st')"
  shows "batches_view out ++ pending_view st' = pending_view st ++ events_view f (tk_events tk)"
  using assms by (cases rule: debounce_tick_cases) (simp_all add: drain_view)

lemma timed_snoc:
  assumes "timed (tks @ [tk])"
  shows "timed tks" "lt \<in> set (concat (map tick_times tks)) \<Longrightarrow> lt \<le> tk_armed tk"
    "tk_armed tk \<le> tk_now tk" "tk_now tk \<le> tk_fired tk" "tk_now tk \<le> tk_refired tk"
  using assms by (auto simp: timed_def tick_times_def sorted_append)

lemma debounce_inv_step:
  assumes "debounce_inv tks out st" "timed (tks @ [tk])" "debounce_tick f tk st = (out', st')"
  shows "debounce_inv (tks @ [tk]) (out @ out') st'"
proof -
  from assms(1) have ok: "armed_ok st" by (simp add: debounce_inv_def)
  from ok assms(3) show ?thesis
  proof (cases rule: debounce_tick_cases)
    case kept
    with assms(1) show ?thesis by (auto simp: debounce_inv_def)
  next
    case (sent t b)
    have t: "tk_now tk \<le> t" using sent(3) timed_snoc(4,5) [OF assms(2)] by auto
    have "s + cooldown_ms \<le> t" if "(s, c) \<in> set out" for s c
      using that assms(1) sent(5) t unfolding debounce_inv_def by fastforce
    moreover have "t \<in> set (tick_times tk)" using sent(3) by (auto simp: tick_times_def)
    ultimately show ?thesis using assms(1) sent unfolding debounce_inv_def
      by (fastforce simp: sorted_wrt_append)
  qed
qed

lemma debounce_inv_loop:
  assumes "timed tks" "debounce_loop f tks new_debouncer = (out, st)"
  shows "debounce_inv tks out st \<and>
    batches_view out ++ pending_view st = events_view f (concat (map tk_events tks))"
  using assms
proof (induction tks arbitrary: out st rule: rev_induct)
  case Nil
  then show ?case
    by (auto simp: debounce_inv_def new_debouncer_def armed_ok_def has_pending_def pending_view_def batch_view_def)
next
  case (snoc tk tks)
  obtain o1 s1 where l: "debounce_loop f tks new_debouncer = (o1, s1)" by fastforce
  obtain o2 s2 where t: "debounce_tick f tk s1 = (o2, s2)" by fastforce
  have os: "out = o1 @ o2" "st = s2" using snoc.prems(2) l t by (simp_all add: debounce_loop_snoc)
  have IH: "debounce_inv tks o1 s1" "batches_view o1 ++ pending_view s1 = events_view f (concat (map tk_events tks))"
    using snoc.IH [OF timed_snoc(1) [OF snoc.prems(1)] l] by blast+
  have ev: "events_view f (as @ bs) = events_view f as ++ events_view f bs" for as bs
    by (induction f as rule: events_view.induct) simp_all
  have "batches_view o2 ++ pending_view s2 = pending_view s1 ++ events_view f (tk_events tk)"
    using IH(1) t by (intro tick_view) (simp_all add: debounce_inv_def)
  with IH(2) debounce_inv_step [OF IH(1) snoc.prems(1) t] os show ?case
    by (simp add: batches_view_append ev) (metis map_add_assoc)
qed

lemma due_by_step:
  assumes "debounce_inv tks out st" "timed (tks @ [tk])" "debounce_tick f tk st = (out', st')" "due_by T st"
    "tk_events tk \<noteq> [] \<longrightarrow> tk_armed tk \<le> T"
  shows "due_by T st'" "T + debounce_ms + cooldown_ms \<le> tk_now tk \<Longrightarrow> \<not> has_pending st'"
proof -
  from assms(1) have ok: "armed_ok st" by (simp add: debounce_inv_def)
  have trig: "lt \<le> tk_armed tk" if "db_last_trigger st = Some lt" for lt
    using that assms(1) timed_snoc(2) [OF assms(2)] by (auto simp: debounce_inv_def)
  have "due_by T st' \<and> (T + debounce_ms + cooldown_ms \<le> tk_now tk \<longrightarrow> \<not> has_pending st')"
    using ok assms(3)
  proof (cases rule: debounce_tick_cases)
    case kept
    have arrived: "tk_armed tk \<le> T" if "has_pending st'" "\<not> has_pending st"
    proof -
      from that kept(4) have "tk_events tk \<noteq> []"
        using pending_view_empty drain_quiet [of f tk st] by (metis events_view.simps(1))
      with assms(5) show ?thesis by blast
    qed
    have last: "lt \<le> T" if "has_pending st'" "db_last_trigger st = Some lt" for lt
    proof (cases "has_pending st")
      case True
      with ok assms(4) that(2) show ?thesis by (auto simp: armed_ok_def due_by_def)
    next
      case False
      with arrived [OF that(1)] trig [OF that(2)] show ?thesis by linarith
    qed
    have first: "d \<le> T + debounce_ms" if "has_pending st'" "db_debounce st' = Some d" for d
    proof (cases "has_pending st")
      case True
      with kept(7) that(2) assms(4) show ?thesis by (auto simp: due_by_def)
    next
      case False
      with ok have "db_debounce st = None" by (simp add: armed_ok_def)
      with False kept(7) that arrived show ?thesis by auto
    qed
    have later: "\<exists>lt. db_last_trigger st = Some lt \<and> d = lt + cooldown_ms" if "has_pending st'" "db_deferred st' = Some d" for d
      using kept(2,3) that by (auto simp: armed_ok_def)
    have "due_by T st'"
      using first last later kept(3) by (fastforce simp: due_by_def)
    moreover have "\<not> has_pending st'" if "T + debounce_ms + cooldown_ms \<le> tk_now tk"
    proof
      assume p: "has_pending st'"
      with kept(2) consider d where "db_debounce st' = Some d" | d where "db_deferred st' = Some d"
        by (auto simp: armed_ok_def)
      then show False
      proof cases
        case 1
        with first [OF p 1] kept(5) p that show False by auto
      next
        case 2
        with later [OF p 2] last [OF p] kept(6) p that show False by fastforce
      qed
    qed
    ultimately show ?thesis by blast
  next
    case (sent t b)
    then show ?thesis by (simp add: due_by_def)
  qed
  then show "due_by T st'" "T + debounce_ms + cooldown_ms \<le> tk_now tk \<Longrightarrow> \<not> has_pending st'" by blast+
qed

subsection \<open>Properties\<close>

lemma due_by_loop:
  assumes "timed tks" "debounce_loop f tks new_debouncer = (out, st)"
    "\<forall>tk \<in> set tks. tk_events tk \<noteq> [] \<longrightarrow> tk_armed tk \<le> T"
  shows "due_by T st"
  using assms
proof (induction tks arbitrary: out st rule: rev_induct)
  case (snoc tk tks)
  obtain o1 s1 where l: "debounce_loop f tks new_debouncer = (o1, s1)" by fastforce
  obtain o2 s2 where t: "debounce_tick f tk s1 = (o2, s2)" by fastforce
  note before = timed_snoc(1) [OF snoc.prems(1)]
  have "due_by T s1" using snoc.IH [OF before l] snoc.prems(3) by simp
  from due_by_step(1) [OF conjunct1 [OF debounce_inv_loop [OF before l]] snoc.prems(1) t this] snoc.prems(2,3) l t
  show ?case by (simp add: debounce_loop_snoc)
qed (simp add: new_debouncer_def due_by_def has_pending_def)

text \<open>
  batches to the sync worker are at least a minute apart, however events arrive, and every path they
  name passed the filter when its event came.
\<close>

theorem batches_are_a_minute_apart:
  assumes "timed tks" "debounce_loop f tks new_debouncer = (out, st)"
  shows "sorted_wrt (\<lambda>(t, b) (t', b'). t + 60000 \<le> t') out"
  using debounce_inv_loop [OF assms] by (simp add: debounce_inv_def cooldown_ms_def)

text \<open>
  C33: no change is lost between the notifications and the sync worker: once the last event is a debounce and a
  cooldown old, nothing is pending, and the batches together say of every path what its last relevant event said.
\<close>

theorem every_change_is_delivered:
  assumes "timed (tks @ [tk])" "debounce_loop f (tks @ [tk]) new_debouncer = (out, st)"
    "\<forall>t \<in> set (tks @ [tk]). tk_events t \<noteq> [] \<longrightarrow> tk_armed t + 60500 \<le> tk_now tk"
  shows "\<not> has_pending st \<and> batches_view out = events_view f (concat (map tk_events (tks @ [tk])))"
proof -
  obtain o1 s1 where l: "debounce_loop f tks new_debouncer = (o1, s1)" by fastforce
  obtain o2 s2 where t: "debounce_tick f tk s1 = (o2, s2)" by fastforce
  note before = timed_snoc(1) [OF assms(1)]
  have st: "st = s2" using assms(2) l t by (simp add: debounce_loop_snoc)
  have "\<not> has_pending st"
  proof (cases "\<exists>t \<in> set (tks @ [tk]). tk_events t \<noteq> []")
    case True
    then have late: "60500 \<le> tk_now tk" using assms(3) by (meson add_leE)
    have due: "due_by (tk_now tk - 60500) s1"
      using assms(3) by (intro due_by_loop [OF before l]) (fastforce simp: le_diff_conv2)
    have "\<not> has_pending s2"
      using assms(3) late debounce_inv_loop [OF before l]
      by (intro due_by_step(2) [OF _ assms(1) t due]) (auto simp: debounce_ms_def cooldown_ms_def)
    with st show ?thesis by simp
  next
    case False
    then have "concat (map tk_events (tks @ [tk])) = []" by simp
    with debounce_inv_loop [OF assms(1,2)] have "batches_view out ++ pending_view st = Map.empty"
      by (metis events_view.simps(1))
    then have "pending_view st = Map.empty" by (metis ext map_add_None)
    then show ?thesis by (simp add: pending_view_empty)
  qed
  moreover from this have "pending_view st = Map.empty" by (simp add: pending_view_empty)
  ultimately show ?thesis using debounce_inv_loop [OF assms(1,2)] by simp
qed

subsection \<open>An example\<close>

definition plain_view :: file_view where
  "plain_view = \<lparr>fv_is_file = (\<lambda>p. p = ''/r/a''), fv_is_dir = (\<lambda>_. False), fv_len = (\<lambda>_. Some 1)\<rparr>"

definition plain_filter :: ignore_filter where
  "plain_filter = \<lparr>if_gitignore = None, if_repo_root = ''/r''\<rparr>"

definition event_at :: "nat \<Rightarrow> (event_kind \<times> rstr) list \<Rightarrow> watch_tick" where
  "event_at t evs = \<lparr>tk_events = map (\<lambda>(k, p). Inr \<lparr>fe_kind = k, fe_paths = [p], fe_view = plain_view\<rparr>) evs,
     tk_armed = t, tk_now = t, tk_fired = t, tk_refired = t\<rparr>"

definition early_ticks :: "watch_tick list" where
  "early_ticks = [event_at 0 [(ModifyKind, ''/r/a''), (RemoveKind, ''/r/b'')], event_at 500 [],
     event_at 600 [(RemoveKind, ''/r/a'')], event_at 1100 []]"

definition example_ticks :: "watch_tick list" where
  "example_ticks = early_ticks @ [event_at 61100 []]"

lemma plain_included: "should_include plain_view plain_filter ''/r/a''" "should_include plain_view plain_filter ''/r/b''"
proof -
  have "\<not> is_blocked_dir ''/r/a''" "\<not> is_blocked_filename ''/r/a''" "\<not> has_blocked_extension ''/r/a''"
    "\<not> is_blocked_dir ''/r/b''" "\<not> is_blocked_filename ''/r/b''" "\<not> has_blocked_extension ''/r/b''"
    by code_simp+
  then show "should_include plain_view plain_filter ''/r/a''" "should_include plain_view plain_filter ''/r/b''"
    by (simp_all add: should_include_def gitignored_def oversized_def plain_filter_def plain_view_def max_file_size_def)
qed

lemma example_timed: "timed example_ticks"
  by (simp add: example_ticks_def early_ticks_def timed_def tick_times_def event_at_def)

lemma example_batches:
  "debounce_loop plain_filter example_ticks new_debouncer =
     ([(500, \<lparr>cb_created_or_modified = {''/r/a''}, cb_deleted = {''/r/b''}\<rparr>),
       (61100, \<lparr>cb_created_or_modified = {}, cb_deleted = {''/r/a''}\<rparr>)], emptied 61100)"
  using plain_included
  by (simp add: example_ticks_def early_ticks_def event_at_def debounce_tick_def drain_events_def process_event_def process_path_def
      new_debouncer_def arm_def has_pending_def check_debounce_def check_deferred_def emit_batch_def debounce_ms_def
      cooldown_ms_def emptied_def plain_view_def)

theorem batches_are_a_minute_apart_witness: "(500 :: nat) + 60000 \<le> 61100"
  using batches_are_a_minute_apart [OF example_timed example_batches] by simp

theorem every_change_is_delivered_witness:
  "batches_view [(500, \<lparr>cb_created_or_modified = {''/r/a''}, cb_deleted = {''/r/b''}\<rparr>),
       (61100, \<lparr>cb_created_or_modified = {}, cb_deleted = {''/r/a''}\<rparr>)] =
     events_view plain_filter (concat (map tk_events example_ticks))"
proof -
  have late: "\<forall>t \<in> set (early_ticks @ [event_at 61100 []]). tk_events t \<noteq> [] \<longrightarrow>
      tk_armed t + 60500 \<le> tk_now (event_at 61100 [])"
    by (simp add: early_ticks_def event_at_def)
  from every_change_is_delivered [OF example_timed [unfolded example_ticks_def] example_batches [unfolded example_ticks_def] late]
  show ?thesis unfolding example_ticks_def by simp
qed

text \<open>A file that is moved out of the repository is reported as a modification of a path that is no file, and is dropped.\<close>

lemma moved_file_is_missed:
  assumes "fe_kind ev = ModifyKind" "\<not> fv_is_file (fe_view ev) path" "fe_paths ev = [path]"
  shows "debounce_tick f \<lparr>tk_events = [Inr ev], tk_armed = t, tk_now = t, tk_fired = t, tk_refired = t\<rparr> new_debouncer =
    ([], new_debouncer)"
  using assms
  by (simp add: debounce_tick_def drain_events_def process_event_def process_path_def arm_def has_pending_def
      new_debouncer_def check_debounce_def check_deferred_def)

end
