(* ===== verification/KeyedLocks.thy ===== *)
theory KeyedLocks
  imports Prelude
begin

section \<open>Locks by key\<close>

text \<open>
  The interface two components share: a table that gives every key one lock, made when it is first asked for, and
  tasks that wait for the lock of a key and then hold it. What a task wants or holds is read off the task; the
  laws say that a task inside a key's critical section holds a lock it once got from the table. Both the index
  manager (a lock per repository) and the write lock of subagents (a lock per directory) are instances.
\<close>

text \<open>The lock of a key, and the table after asking for it; new locks have new numbers.\<close>

definition lock_for :: "'k \<Rightarrow> nat \<Rightarrow> ('k \<times> nat) list \<Rightarrow> nat \<times> ('k \<times> nat) list" where
  "lock_for k fresh locks = (case map_of locks k of Some l \<Rightarrow> (l, locks) | None \<Rightarrow> (fresh, (k, fresh) # locks))"

lemma lock_for_known: "lock_for k fresh locks = (l, locks') \<Longrightarrow> map_of locks' k = Some l"
  by (auto simp: lock_for_def split: option.splits)

lemma lock_for_keeps: "lock_for k fresh locks = (l, locks') \<Longrightarrow> map_of locks k' = Some l' \<Longrightarrow> map_of locks' k' = Some l'"
  by (auto simp: lock_for_def split: option.splits)

definition lock_inv ::
  "('t \<Rightarrow> ('k \<times> nat) option) \<Rightarrow> ('k \<Rightarrow> 't \<Rightarrow> bool) \<Rightarrow> ('k \<times> nat) list \<Rightarrow> 't list \<Rightarrow> bool" where
  "lock_inv wants inside locks tasks \<longleftrightarrow>
     (\<forall>t \<in> set tasks. \<forall>k l. wants t = Some (k, l) \<longrightarrow> map_of locks k = Some l) \<and>
     (\<forall>k i j. i < length tasks \<longrightarrow> j < length tasks \<longrightarrow> inside k (tasks ! i) \<longrightarrow> inside k (tasks ! j) \<longrightarrow> i = j)"

lemma lock_invI:
  assumes "\<And>t k l. t \<in> set tasks \<Longrightarrow> wants t = Some (k, l) \<Longrightarrow> map_of locks k = Some l"
    "\<And>k i j. i < length tasks \<Longrightarrow> j < length tasks \<Longrightarrow> inside k (tasks ! i) \<Longrightarrow> inside k (tasks ! j) \<Longrightarrow> i = j"
  shows "lock_inv wants inside locks tasks"
  using assms unfolding lock_inv_def by blast

lemma lock_invD:
  assumes "lock_inv wants inside locks tasks"
  shows "t \<in> set tasks \<Longrightarrow> wants t = Some (k, l) \<Longrightarrow> map_of locks k = Some l"
    "i < length tasks \<Longrightarrow> j < length tasks \<Longrightarrow> inside k (tasks ! i) \<Longrightarrow> inside k (tasks ! j) \<Longrightarrow> i = j"
  using assms unfolding lock_inv_def by blast+

lemma filter_at_most_one:
  assumes "\<And>i j. i < length xs \<Longrightarrow> j < length xs \<Longrightarrow> P (xs ! i) \<Longrightarrow> P (xs ! j) \<Longrightarrow> i = j"
  shows "length (filter P xs) \<le> 1"
  using assms
proof (induction xs)
  case (Cons x xs)
  have "length (filter P xs) \<le> 1" using Cons.prems by (intro Cons.IH) fastforce
  moreover have "filter P xs = []" if "P x"
    using Cons.prems that by (fastforce simp: filter_empty_conv in_set_conv_nth)
  ultimately show ?case by simp
qed simp

locale keyed_locks =
  fixes wants :: "'t \<Rightarrow> ('k \<times> nat) option"
    and inside :: "'k \<Rightarrow> 't \<Rightarrow> bool"
    and holds :: "nat \<Rightarrow> 't \<Rightarrow> bool"
  assumes inside_holds: "inside k t \<Longrightarrow> \<exists>l. wants t = Some (k, l) \<and> holds l t"
begin

abbreviation inv :: "('k \<times> nat) list \<Rightarrow> 't list \<Rightarrow> bool" where
  "inv \<equiv> lock_inv wants inside"

lemma empty: "inv locks []"
  by (simp add: lock_inv_def)

lemma one_inside:
  "inv locks tasks \<Longrightarrow> i < length tasks \<Longrightarrow> j < length tasks \<Longrightarrow> inside k (tasks ! i) \<Longrightarrow> inside k (tasks ! j) \<Longrightarrow> i = j"
  by (simp add: lock_inv_def)

lemma grow: "inv locks tasks \<Longrightarrow> lock_for k fresh locks = (l, locks') \<Longrightarrow> inv locks' tasks"
  using lock_for_keeps unfolding lock_inv_def by metis

lemma outside:
  assumes "inv locks tasks" "\<And>k. \<not> inside k t" "\<And>k l. wants t = Some (k, l) \<Longrightarrow> map_of locks k = Some l"
  shows "inv locks (tasks[i := t])" "inv locks (tasks @ [t])"
proof -
  show "inv locks (tasks[i := t])"
  proof (rule lock_invI)
    fix s k l assume "s \<in> set (tasks[i := t])" "wants s = Some (k, l)"
    then show "map_of locks k = Some l"
      using assms(3) lock_invD(1) [OF assms(1)] set_update_subset_insert [of tasks i t] by auto
  next
    fix k a b assume ab: "a < length (tasks[i := t])" "b < length (tasks[i := t])"
      "inside k (tasks[i := t] ! a)" "inside k (tasks[i := t] ! b)"
    then have "a \<noteq> i" "b \<noteq> i" using assms(2) by auto
    with ab lock_invD(2) [OF assms(1), of a b k] show "a = b" by simp
  qed
  show "inv locks (tasks @ [t])"
  proof (rule lock_invI)
    fix s k l assume "s \<in> set (tasks @ [t])" "wants s = Some (k, l)"
    then show "map_of locks k = Some l" using assms(3) lock_invD(1) [OF assms(1)] by auto
  next
    fix k a b assume "a < length (tasks @ [t])" "b < length (tasks @ [t])"
      "inside k ((tasks @ [t]) ! a)" "inside k ((tasks @ [t]) ! b)"
    with assms(2) lock_invD(2) [OF assms(1), of a b k] show "a = b" by (auto simp: nth_append split: if_splits)
  qed
qed

text \<open>A waiting task may enter when no task holds its lock.\<close>

lemma enter:
  assumes "inv locks tasks" "i < length tasks" "wants (tasks ! i) = Some (k, l)" "wants t = Some (k, l)"
    "\<not> list_ex (holds l) tasks" "\<And>k'. inside k' t \<Longrightarrow> k' = k"
  shows "inv locks (tasks[i := t])"
proof (rule lock_invI)
  have "tasks ! i \<in> set tasks" using assms(2) by simp
  then have l: "map_of locks k = Some l" using lock_invD(1) [OF assms(1) _ assms(3)] by blast
  show "map_of locks k' = Some l'" if "s \<in> set (tasks[i := t])" "wants s = Some (k', l')" for s k' l'
    using that l assms(4) lock_invD(1) [OF assms(1)] set_update_subset_insert [of tasks i t] by auto
  have none: "\<not> inside k (tasks ! j)" if "j < length tasks" for j
  proof
    assume "inside k (tasks ! j)"
    then obtain l' where l': "wants (tasks ! j) = Some (k, l')" "holds l' (tasks ! j)" using inside_holds by blast
    have "map_of locks k = Some l'" using lock_invD(1) [OF assms(1) _ l'(1)] that by simp
    with l have "l' = l" by simp
    with l' that assms(5) show False by (auto simp: list_ex_length)
  qed
  show "a = b" if "a < length (tasks[i := t])" "b < length (tasks[i := t])"
    "inside k' (tasks[i := t] ! a)" "inside k' (tasks[i := t] ! b)" for k' a b
  proof (cases "k' = k")
    case True
    with that none assms(2) show ?thesis by (auto simp: nth_list_update split: if_splits)
  next
    case False
    with that assms(6) have "a \<noteq> i" "b \<noteq> i" by auto
    with that lock_invD(2) [OF assms(1), of a b k'] show ?thesis by simp
  qed
qed

lemma at_most_one:
  assumes "inv locks tasks"
  shows "length (filter (inside k) tasks) \<le> 1"
proof -
  have "\<And>i j. i < length tasks \<Longrightarrow> j < length tasks \<Longrightarrow> inside k (tasks ! i) \<Longrightarrow> inside k (tasks ! j) \<Longrightarrow> i = j"
    using lock_invD(2) [OF assms] by blast
  then show ?thesis by (rule filter_at_most_one)
qed

end

end
