(* ===== verification/Watchers.thy ===== *)
theory Watchers
  imports FileWatcher Streamer KeyedLocks
begin

section \<open>Watched repositories (\<open>context_watcher/watcher_manager.rs\<close>)\<close>

text \<open>
  The manager behind the index of the open repositories: for each watched repository a cancellation
  token, a cached status and a worker that turns the batches of the file watcher into incremental
  syncs; a full sync whenever watching starts; and a lock per repository that is to keep its syncs
  apart. Calls and workers run beside each other, so the model is a list of tasks, each at one of
  the points where the code awaits something, and a state they share; any task may move next. What a
  sync returns, when batches come and what the settings say are given by the action.
\<close>

datatype index_status = NotIndexed | Indexing | Indexed "64 word option" | IndexError rstr rstr

record engine_settings =
  es_enabled :: bool
  es_base_url :: rstr

definition default_settings :: engine_settings where
  "default_settings = \<lparr>es_enabled = False, es_base_url = ''http://127.0.0.1:8106''\<rparr>"

text \<open>Both members are required; anything else is the default.\<close>

definition decode_settings :: "json \<Rightarrow> engine_settings option" where
  "decode_settings j =
     (case (jget ''enabled'' j, jget ''base_url'' j) of
        (Some (JBool e), Some (JStr u)) \<Rightarrow> Some \<lparr>es_enabled = e, es_base_url = u\<rparr>
      | _ \<Rightarrow> None)"

definition read_context_engine_db :: "(rstr \<Rightarrow> json option) \<Rightarrow> rstr option \<Rightarrow> engine_settings" where
  "read_context_engine_db parse stored =
     (case Option.bind (Option.bind stored parse) decode_settings of Some s \<Rightarrow> s | None \<Rightarrow> default_settings)"

definition normalize_base_url :: "rstr \<Rightarrow> rstr" where
  "normalize_base_url raw = trim_end_matches (CHR ''/'') (str_trim raw)"

text \<open>What the settings panel shows of a status.\<close>

definition watcher_status_parts :: "index_status \<Rightarrow> rstr option \<times> 64 word option" where
  "watcher_status_parts s =
     (case s of
        NotIndexed \<Rightarrow> (Some ''not_indexed'', None)
      | Indexing \<Rightarrow> (Some ''indexing'', None)
      | Indexed file_count \<Rightarrow> (Some ''indexed'', file_count)
      | IndexError reason details \<Rightarrow> (Some (''error:'' @ reason), None))"

definition build_streamer :: "engine_settings \<Rightarrow> rstr \<Rightarrow> rstr \<Rightarrow> streamer option" where
  "build_streamer settings machine_id repo_path =
     (let base = normalize_base_url (es_base_url settings)
      in if \<not> es_enabled settings then None
         else if base = [] then None
         else Some (new_streamer
           \<lparr>sc_context_engine_url = base @ ''/api/v1'', sc_user_id = ''local'', sc_workspace_id = 0,
            sc_machine_id = machine_id, sc_repo_path = repo_path, sc_auth_token = []\<rparr>))"

text \<open>The texts of an HTTP and of an I/O error are those of \<open>reqwest\<close> and of the operating system.\<close>

definition classify_sync_error ::
  "(http_failure \<Rightarrow> rstr) \<Rightarrow> (read_error \<Rightarrow> rstr) \<Rightarrow> sync_error \<Rightarrow> rstr \<times> rstr" where
  "classify_sync_error http_text io_text err =
     (case err of
        RepoTooLarge bytes mx \<Rightarrow> (''repo_too_large'', nat_str bytes @ '' bytes (max '' @ nat_str mx @ '')'')
      | TooManyFiles count mx \<Rightarrow> (''too_many_files'', nat_str count @ '' files (max '' @ nat_str mx @ '')'')
      | RequestTooLarge bytes mx \<Rightarrow> (''request_too_large'', nat_str bytes @ '' bytes gzipped (max '' @ nat_str mx @ '')'')
      | SyncCancelled \<Rightarrow> (''cancelled'', ''sync cancelled'')
      | DeadlineExceeded \<Rightarrow> (''deadline_exceeded'', ''sync deadline exceeded'')
      | SyncExpired reason \<Rightarrow> (''sync_expired'', reason)
      | BadRequest reason details \<Rightarrow> (''bad_request:'' @ reason, details)
      | AuthRequired status \<Rightarrow> (''auth_required'', ''HTTP '' @ nat_str status)
      | SyncHttp e \<Rightarrow> (''http_error'', http_text e)
      | SyncIo e \<Rightarrow> (''io_error'', io_text e)
      | SyncOther msg \<Rightarrow> (''other'', msg))"

subsection \<open>The table of watched repositories (\<open>context_watcher/db.rs\<close>)\<close>

text \<open>A row is a path and the moment of its last use, in milliseconds; there is one row per path.\<close>

type_synonym repo_table = "(rstr \<times> nat) list"

definition seven_days :: nat where "seven_days = 7 * 24 * 60 * 60 * 1000"

definition upsert_watched_repo :: "nat \<Rightarrow> rstr \<Rightarrow> repo_table \<Rightarrow> repo_table" where
  "upsert_watched_repo now path = upsert path now (\<lambda>_. now)"

definition get_active_watched_repos :: "nat \<Rightarrow> repo_table \<Rightarrow> rstr list" where
  "get_active_watched_repos now rows = map fst (filter (\<lambda>(p, t). now < t + seven_days) rows)"

definition cleanup_stale_repos :: "nat \<Rightarrow> repo_table \<Rightarrow> nat \<times> repo_table" where
  "cleanup_stale_repos now rows =
     (length (filter (\<lambda>(p, t). t + seven_days \<le> now) rows), filter (\<lambda>(p, t). \<not> t + seven_days \<le> now) rows)"

definition delete_watched_repo :: "rstr \<Rightarrow> repo_table \<Rightarrow> repo_table" where
  "delete_watched_repo path = filter (\<lambda>r. fst r \<noteq> path)"

text \<open>The repositories that are watched again when the application starts.\<close>

definition auto_start_repos :: "engine_settings \<Rightarrow> (rstr \<Rightarrow> bool) \<Rightarrow> nat \<Rightarrow> repo_table \<Rightarrow> rstr list \<times> repo_table" where
  "auto_start_repos settings is_dir now rows =
     (if \<not> es_enabled settings then ([], rows)
      else let rows1 = snd (cleanup_stale_repos now rows)
           in (filter is_dir (get_active_watched_repos now rows1), rows1))"

subsection \<open>Tasks\<close>

datatype sync_kind = Rewatch | InitialSync | Incremental "rstr set" "rstr set"

text \<open>
  A task is inside \<open>start_watching\<close>, about to look for a watcher; about to build the streamer; waiting
  for the lock; holding it in a sync; behind it with the status to store; a worker waiting for
  batches; waiting in \<open>stop_watching\<close> or \<open>stop_all\<close> for workers to end; or over.
\<close>

datatype wm_task =
    StartCalled rstr
  | Chosen sync_kind rstr nat
  | WantLock sync_kind rstr nat nat
  | Syncing sync_kind rstr nat nat
  | Synced sync_kind rstr nat index_status
  | WorkerIdle rstr nat
  | Stopping rstr "nat option"
  | StoppingAll "nat list"
  | Gone

record repo_watcher =
  rw_token :: nat
  rw_status :: index_status

record watcher_manager =
  wm_watchers :: "(rstr \<times> repo_watcher) list"
  wm_locks :: "(rstr \<times> nat) list"
  wm_next :: nat
  wm_cancelled :: "nat list"
  wm_tasks :: "wm_task list"
  wm_emitted :: "(rstr \<times> index_status) list"
  wm_table :: repo_table

definition new_watchers :: "repo_table \<Rightarrow> watcher_manager" where
  "new_watchers rows = \<lparr>wm_watchers = [], wm_locks = [], wm_next = 0, wm_cancelled = [], wm_tasks = [],
     wm_emitted = [], wm_table = rows\<rparr>"

definition become :: "nat \<Rightarrow> wm_task \<Rightarrow> watcher_manager \<Rightarrow> watcher_manager" where
  "become i t m = m\<lparr>wm_tasks := (wm_tasks m)[i := t]\<rparr>"

definition spawn :: "wm_task \<Rightarrow> watcher_manager \<Rightarrow> watcher_manager" where
  "spawn t m = m\<lparr>wm_tasks := wm_tasks m @ [t]\<rparr>"

definition emit_status :: "rstr \<Rightarrow> index_status \<Rightarrow> watcher_manager \<Rightarrow> watcher_manager" where
  "emit_status repo s m = m\<lparr>wm_emitted := wm_emitted m @ [(repo, s)]\<rparr>"

definition update_cached_status :: "rstr \<Rightarrow> index_status \<Rightarrow> watcher_manager \<Rightarrow> watcher_manager" where
  "update_cached_status repo s m =
     m\<lparr>wm_watchers := map (\<lambda>(r, w). (r, if r = repo then w\<lparr>rw_status := s\<rparr> else w)) (wm_watchers m)\<rparr>"

definition get_status :: "rstr \<Rightarrow> watcher_manager \<Rightarrow> index_status option" where
  "get_status repo m = map_option rw_status (map_of (wm_watchers m) repo)"

text \<open>The lock of a repository is made when it is first asked for.\<close>

definition get_sync_lock :: "rstr \<Rightarrow> watcher_manager \<Rightarrow> nat \<times> watcher_manager" where
  "get_sync_lock repo m =
     (case map_of (wm_locks m) repo of
        Some l \<Rightarrow> (l, m)
      | None \<Rightarrow> (wm_next m, m\<lparr>wm_locks := (repo, wm_next m) # wm_locks m, wm_next := Suc (wm_next m)\<rparr>))"

fun holds :: "nat \<Rightarrow> wm_task \<Rightarrow> bool" where
  "holds l (Syncing kind repo token l') = (l = l')"
| "holds l _ = False"

subsection \<open>Steps\<close>

text \<open>
  \<open>start_watching\<close> looks for a watcher: an existing one lends its token to a fresh full sync, otherwise there
  is a new token.
\<close>

definition look_up :: "nat \<Rightarrow> rstr \<Rightarrow> nat \<Rightarrow> watcher_manager \<Rightarrow> watcher_manager" where
  "look_up i repo now m =
     (case map_of (wm_watchers m) repo of
        Some w \<Rightarrow> become i (Chosen Rewatch repo (rw_token w)) (m\<lparr>wm_table := upsert_watched_repo now repo (wm_table m)\<rparr>)
      | None \<Rightarrow> become i (Chosen InitialSync repo (wm_next m)) (m\<lparr>wm_next := Suc (wm_next m)\<rparr>))"

text \<open>Without a streamer nothing is emitted; an incremental sync has an error of its own.\<close>

definition no_streamer :: "sync_kind \<Rightarrow> index_status" where
  "no_streamer kind =
     (case kind of
        Incremental c d \<Rightarrow> IndexError ''unavailable'' ''streamer not configured''
      | _ \<Rightarrow> IndexError ''sync_failed'' ''streamer not available (context engine disabled)'')"

definition prepare :: "nat \<Rightarrow> sync_kind \<Rightarrow> rstr \<Rightarrow> nat \<Rightarrow> streamer option \<Rightarrow> watcher_manager \<Rightarrow> watcher_manager" where
  "prepare i kind repo token s m =
     (case s of
        None \<Rightarrow> become i (Synced kind repo token (no_streamer kind)) m
      | Some st \<Rightarrow> (case get_sync_lock repo m of (l, m1) \<Rightarrow> become i (WantLock kind repo token l) m1))"

text \<open>The status a sync ends with: what is emitted, and what the caller stores.\<close>

definition final_status ::
  "(sync_error \<Rightarrow> rstr \<times> rstr) \<Rightarrow> sync_kind \<Rightarrow> sync_error + sync_stats \<Rightarrow> index_status \<times> index_status" where
  "final_status classify kind r =
     (case r of
        Inr stats \<Rightarrow>
          let s = Indexed (case kind of Incremental c d \<Rightarrow> None | _ \<Rightarrow> Some (word_of_nat (sy_files_hashed stats))) in (s, s)
      | Inl e \<Rightarrow>
          if e = SyncCancelled then
            let s = (case kind of Incremental c d \<Rightarrow> Indexed None | _ \<Rightarrow> NotIndexed) in (s, s)
          else
            let (reason, details) = classify e; s = IndexError reason details
            in (s, case kind of Incremental c d \<Rightarrow> s
                   | _ \<Rightarrow> IndexError ''sync_failed'' (reason @ '': '' @ details)))"

text \<open>
  What follows a sync. A first sync starts the file watcher (which can fail), spawns the worker and
  registers the watcher, replacing one that came to be meanwhile.
\<close>

definition conclude :: "nat \<Rightarrow> sync_kind \<Rightarrow> rstr \<Rightarrow> nat \<Rightarrow> index_status \<Rightarrow> bool \<Rightarrow> nat \<Rightarrow> watcher_manager \<Rightarrow> watcher_manager" where
  "conclude i kind repo token s watch_ok now m =
     (case kind of
        Rewatch \<Rightarrow> become i Gone (update_cached_status repo s m)
      | Incremental c d \<Rightarrow> become i (WorkerIdle repo token) (update_cached_status repo s m)
      | InitialSync \<Rightarrow>
          if \<not> watch_ok then become i Gone m
          else spawn (WorkerIdle repo token) (become i Gone
            (m\<lparr>wm_watchers := upsert repo \<lparr>rw_token = token, rw_status = s\<rparr> (\<lambda>_. \<lparr>rw_token = token, rw_status = s\<rparr>) (wm_watchers m),
              wm_table := upsert_watched_repo now repo (wm_table m)\<rparr>)))"

definition batch_arrives :: "nat \<Rightarrow> rstr \<Rightarrow> nat \<Rightarrow> change_batch \<Rightarrow> watcher_manager \<Rightarrow> watcher_manager" where
  "batch_arrives i repo token b m =
     (if cb_created_or_modified b = {} \<and> cb_deleted b = {} then m
      else become i (Chosen (Incremental (cb_created_or_modified b) (cb_deleted b)) repo token)
        (update_cached_status repo Indexing m))"

definition stop_watching :: "rstr \<Rightarrow> watcher_manager \<Rightarrow> watcher_manager" where
  "stop_watching repo m =
     (case map_of (wm_watchers m) repo of
        Some w \<Rightarrow> spawn (Stopping repo (Some (rw_token w)))
          (m\<lparr>wm_watchers := filter (\<lambda>kv. fst kv \<noteq> repo) (wm_watchers m), wm_cancelled := rw_token w # wm_cancelled m\<rparr>)
      | None \<Rightarrow> spawn (Stopping repo None) m)"

definition stop_all :: "watcher_manager \<Rightarrow> watcher_manager" where
  "stop_all m =
     (let tokens = map (rw_token \<circ> snd) (wm_watchers m)
      in if tokens = [] then m
         else spawn (StoppingAll tokens) (m\<lparr>wm_watchers := [], wm_cancelled := tokens @ wm_cancelled m\<rparr>))"

text \<open>After the workers have ended, or their grace is over, the locks are forgotten.\<close>

definition stop_ends :: "nat \<Rightarrow> watcher_manager \<Rightarrow> watcher_manager" where
  "stop_ends i m =
     (case wm_tasks m ! i of
        Stopping repo token \<Rightarrow> become i Gone (m\<lparr>wm_locks := filter (\<lambda>kv. fst kv \<noteq> repo) (wm_locks m)\<rparr>)
      | StoppingAll tokens \<Rightarrow> become i Gone (m\<lparr>wm_locks := []\<rparr>)
      | _ \<Rightarrow> m)"

fun worker_of :: "nat \<Rightarrow> wm_task \<Rightarrow> bool" where
  "worker_of t (WorkerIdle repo token) = (token = t)"
| "worker_of t (Chosen (Incremental c d) repo token) = (token = t)"
| "worker_of t (WantLock (Incremental c d) repo token l) = (token = t)"
| "worker_of t (Syncing (Incremental c d) repo token l) = (token = t)"
| "worker_of t (Synced (Incremental c d) repo token s) = (token = t)"
| "worker_of t _ = False"

definition stopping :: "nat \<Rightarrow> watcher_manager \<Rightarrow> bool" where
  "stopping token m \<longleftrightarrow> list_ex (\<lambda>t. case t of Stopping repo tk \<Rightarrow> tk = Some token
     | StoppingAll tks \<Rightarrow> token \<in> set tks | _ \<Rightarrow> False) (wm_tasks m)"

datatype wm_action =
    CallStart bool bool rstr
  | LookUp nat nat
  | Prepare nat "streamer option"
  | TakeLock nat
  | SyncEnds nat "sync_error + sync_stats"
  | Conclude nat bool nat
  | Batch nat change_batch
  | WorkerQuits nat
  | WorkerAborted nat
  | CallStop rstr
  | CallStopAll
  | StopEnds nat

text \<open>Each action moves the task it names, if that task is where the action applies.\<close>

definition wm_step :: "(sync_error \<Rightarrow> rstr \<times> rstr) \<Rightarrow> wm_action \<Rightarrow> watcher_manager \<Rightarrow> watcher_manager" where
  "wm_step classify a m =
     (case a of
        CallStart enabled is_dir repo \<Rightarrow> if enabled \<and> is_dir then spawn (StartCalled repo) m else m
      | LookUp i now \<Rightarrow> (case wm_tasks m ! i of StartCalled repo \<Rightarrow> look_up i repo now m | _ \<Rightarrow> m)
      | Prepare i s \<Rightarrow> (case wm_tasks m ! i of Chosen kind repo token \<Rightarrow> prepare i kind repo token s m | _ \<Rightarrow> m)
      | TakeLock i \<Rightarrow>
          (case wm_tasks m ! i of
             WantLock kind repo token l \<Rightarrow>
               if list_ex (holds l) (wm_tasks m) then m
               else emit_status repo Indexing (become i (Syncing kind repo token l) m)
           | _ \<Rightarrow> m)
      | SyncEnds i r \<Rightarrow>
          (case wm_tasks m ! i of
             Syncing kind repo token l \<Rightarrow>
               (case final_status classify kind r of
                  (shown, stored) \<Rightarrow> emit_status repo shown (become i (Synced kind repo token stored) m))
           | _ \<Rightarrow> m)
      | Conclude i watch_ok now \<Rightarrow>
          (case wm_tasks m ! i of Synced kind repo token s \<Rightarrow> conclude i kind repo token s watch_ok now m | _ \<Rightarrow> m)
      | Batch i b \<Rightarrow> (case wm_tasks m ! i of WorkerIdle repo token \<Rightarrow> batch_arrives i repo token b m | _ \<Rightarrow> m)
      | WorkerQuits i \<Rightarrow>
          (case wm_tasks m ! i of
             WorkerIdle repo token \<Rightarrow> if token \<in> set (wm_cancelled m) then become i Gone m else m
           | _ \<Rightarrow> m)
      | WorkerAborted i \<Rightarrow>
          if \<exists>token \<in> set (wm_cancelled m). worker_of token (wm_tasks m ! i) \<and> stopping token m then become i Gone m else m
      | CallStop repo \<Rightarrow> stop_watching repo m
      | CallStopAll \<Rightarrow> stop_all m
      | StopEnds i \<Rightarrow> stop_ends i m)"

fun task_exists :: "wm_action \<Rightarrow> watcher_manager \<Rightarrow> bool" where
  "task_exists (LookUp i now) m = (i < length (wm_tasks m))"
| "task_exists (Prepare i s) m = (i < length (wm_tasks m))"
| "task_exists (TakeLock i) m = (i < length (wm_tasks m))"
| "task_exists (SyncEnds i r) m = (i < length (wm_tasks m))"
| "task_exists (Conclude i w now) m = (i < length (wm_tasks m))"
| "task_exists (Batch i b) m = (i < length (wm_tasks m))"
| "task_exists (WorkerQuits i) m = (i < length (wm_tasks m))"
| "task_exists (WorkerAborted i) m = (i < length (wm_tasks m))"
| "task_exists (StopEnds i) m = (i < length (wm_tasks m))"
| "task_exists a m = True"

fun stops :: "wm_action \<Rightarrow> bool" where
  "stops (CallStop repo) = True"
| "stops CallStopAll = True"
| "stops (WorkerAborted i) = True"
| "stops (StopEnds i) = True"
| "stops a = False"

inductive watched :: "(wm_action \<Rightarrow> bool) \<Rightarrow> (sync_error \<Rightarrow> rstr \<times> rstr) \<Rightarrow> watcher_manager \<Rightarrow> bool"
  for allowed classify where
  none: "watched allowed classify (new_watchers rows)"
| step: "watched allowed classify m \<Longrightarrow> allowed a \<Longrightarrow> task_exists a m \<Longrightarrow> watched allowed classify (wm_step classify a m)"

text \<open>The last status the interface was told about a repository.\<close>

definition told :: "rstr \<Rightarrow> watcher_manager \<Rightarrow> index_status option" where
  "told repo m = map_of (rev (wm_emitted m)) repo"

fun syncs :: "rstr \<Rightarrow> wm_task \<Rightarrow> bool" where
  "syncs repo (Syncing kind repo' token l) = (repo' = repo)"
| "syncs repo _ = False"

subsection \<open>One sync of a repository at a time\<close>

fun wm_wants :: "wm_task \<Rightarrow> (rstr \<times> nat) option" where
  "wm_wants (WantLock kind repo token l) = Some (repo, l)"
| "wm_wants (Syncing kind repo token l) = Some (repo, l)"
| "wm_wants _ = None"

lemma syncs_wants: "syncs repo t \<Longrightarrow> \<exists>l. wm_wants t = Some (repo, l) \<and> holds l t"
  by (cases t) auto

interpretation repo_locks: keyed_locks wm_wants syncs holds
  by unfold_locales (rule syncs_wants)

definition sync_inv :: "watcher_manager \<Rightarrow> bool" where
  "sync_inv m \<longleftrightarrow>
     lock_inv wm_wants syncs (wm_locks m) (wm_tasks m) \<and>
     (\<forall>repo. told repo m = Some Indexing \<longleftrightarrow> list_ex (syncs repo) (wm_tasks m))"

lemma sync_inv_update [simp]:
  "sync_inv (m\<lparr>wm_watchers := ws\<rparr>) = sync_inv m" "sync_inv (m\<lparr>wm_table := rows\<rparr>) = sync_inv m"
  "sync_inv (m\<lparr>wm_next := n\<rparr>) = sync_inv m" "sync_inv (m\<lparr>wm_cancelled := c\<rparr>) = sync_inv m"
  by (simp_all add: sync_inv_def told_def)

lemma told_emit: "told r (emit_status repo s m) = (if r = repo then Some s else told r m)"
  by (simp add: told_def emit_status_def)

lemma told_become [simp]: "told r (become i t m) = told r m"
  by (simp add: told_def become_def)

lemma sync_inv_become:
  assumes "sync_inv m" "i < length (wm_tasks m)" "\<And>r. \<not> syncs r (wm_tasks m ! i)" "\<And>r. \<not> syncs r t"
    "\<And>r l. wm_wants t = Some (r, l) \<Longrightarrow> map_of (wm_locks m) r = Some l"
  shows "sync_inv (become i t m)"
  using assms repo_locks.outside(1) [of "wm_locks m" "wm_tasks m" t i]
  by (simp add: sync_inv_def) (simp add: become_def list_ex_calm)

lemma sync_inv_spawn:
  assumes "sync_inv m" "\<And>r. \<not> syncs r t" "wm_wants t = None"
  shows "sync_inv (spawn t m)"
  using assms repo_locks.outside(2) [of "wm_locks m" "wm_tasks m" t]
  by (auto simp: sync_inv_def spawn_def told_def)

lemma sync_inv_take:
  assumes "sync_inv m" "i < length (wm_tasks m)" "wm_tasks m ! i = WantLock kind repo token l"
    "\<not> list_ex (holds l) (wm_tasks m)"
  shows "sync_inv (emit_status repo Indexing (become i (Syncing kind repo token l) m))"
proof -
  let ?t = "Syncing kind repo token l"
  have "list_ex (syncs r) ((wm_tasks m)[i := ?t]) \<longleftrightarrow> r = repo \<or> list_ex (syncs r) (wm_tasks m)" for r
  proof (cases "r = repo")
    case True
    with assms(2) show ?thesis by (simp add: list_ex_update)
  next
    case False
    with assms(2,3) show ?thesis by (simp add: list_ex_calm)
  qed
  moreover have "lock_inv wm_wants syncs (wm_locks m) ((wm_tasks m)[i := ?t])"
    using assms by (intro repo_locks.enter [where k = repo and l = l]) (simp_all add: sync_inv_def)
  ultimately show ?thesis
    using assms(1) by (simp add: sync_inv_def told_emit) (auto simp: emit_status_def become_def)
qed

lemma final_status_final: "final_status classify kind r = (shown, stored) \<Longrightarrow> shown \<noteq> Indexing"
  by (auto simp: final_status_def Let_def split: sum.splits if_splits sync_kind.splits prod.splits)

lemma sync_inv_end:
  assumes "sync_inv m" "i < length (wm_tasks m)" "wm_tasks m ! i = Syncing kind repo token l" "shown \<noteq> Indexing"
  shows "sync_inv (emit_status repo shown (become i (Synced kind repo token stored) m))"
proof -
  let ?t = "Synced kind repo token stored"
  have "j = i" if "j < length (wm_tasks m)" "syncs repo (wm_tasks m ! j)" for j
    using repo_locks.one_inside [of "wm_locks m" "wm_tasks m" j i repo] assms that by (simp add: sync_inv_def)
  then have none: "\<not> list_ex (syncs repo) ((wm_tasks m)[i := ?t])"
    using assms(2) by (auto simp: list_ex_update)
  have "list_ex (syncs r) ((wm_tasks m)[i := ?t]) \<longleftrightarrow> r \<noteq> repo \<and> list_ex (syncs r) (wm_tasks m)" for r
    using assms(2,3) none by (cases "r = repo") (simp_all add: list_ex_calm)
  moreover have "lock_inv wm_wants syncs (wm_locks m) ((wm_tasks m)[i := ?t])"
    using assms(1) by (intro repo_locks.outside) (simp_all add: sync_inv_def)
  ultimately show ?thesis
    using assms(1,4) by (simp add: sync_inv_def told_emit) (auto simp: emit_status_def become_def)
qed

lemma get_sync_lock_inv:
  assumes "sync_inv m" "get_sync_lock repo m = (l, m1)"
  shows "sync_inv m1" "map_of (wm_locks m1) repo = Some l" "wm_tasks m1 = wm_tasks m"
proof -
  have lock: "lock_for repo (wm_next m) (wm_locks m) = (l, wm_locks m1)" "wm_tasks m1 = wm_tasks m"
    "wm_emitted m1 = wm_emitted m"
    using assms(2) by (auto simp: get_sync_lock_def lock_for_def split: option.splits)
  with assms(1) repo_locks.grow [OF _ lock(1), of "wm_tasks m"] show "sync_inv m1" by (simp add: sync_inv_def told_def)
  show "map_of (wm_locks m1) repo = Some l" "wm_tasks m1 = wm_tasks m" using lock_for_known [OF lock(1)] lock(2) .
qed

lemma sync_inv_step:
  assumes "sync_inv m" "\<not> stops a" "task_exists a m"
  shows "sync_inv (wm_step classify a m)"
proof (cases a)
  case (CallStart enabled is_dir repo)
  with assms show ?thesis by (simp add: wm_step_def sync_inv_spawn)
next
  case (LookUp i now)
  with assms show ?thesis
    by (auto simp: wm_step_def look_up_def split: wm_task.splits option.splits intro!: sync_inv_become)
next
  case (Prepare i s)
  have "sync_inv (prepare i kind repo token s m)" if t: "wm_tasks m ! i = Chosen kind repo token" for kind repo token
  proof (cases s)
    case None
    with assms t Prepare show ?thesis by (auto simp: prepare_def intro!: sync_inv_become)
  next
    case (Some st)
    obtain l m1 where l: "get_sync_lock repo m = (l, m1)" by fastforce
    from get_sync_lock_inv [OF assms(1) l] Some l t assms(3) Prepare show ?thesis
      by (auto simp: prepare_def intro!: sync_inv_become)
  qed
  with assms Prepare show ?thesis by (simp add: wm_step_def split: wm_task.splits)
next
  case (TakeLock i)
  with assms show ?thesis by (auto simp: wm_step_def sync_inv_take split: wm_task.splits)
next
  case (SyncEnds i r)
  with assms show ?thesis
    by (auto simp: wm_step_def dest: final_status_final split: wm_task.splits prod.splits intro!: sync_inv_end)
next
  case (Conclude i ok now)
  have "sync_inv (conclude i kind repo token s ok now m)" if t: "wm_tasks m ! i = Synced kind repo token s" for kind repo token s
    using assms t Conclude
    by (cases kind) (auto simp: conclude_def update_cached_status_def intro!: sync_inv_become sync_inv_spawn)
  with assms Conclude show ?thesis by (simp add: wm_step_def split: wm_task.splits)
next
  case (Batch i b)
  with assms show ?thesis
    by (auto simp: wm_step_def batch_arrives_def update_cached_status_def split: wm_task.splits intro!: sync_inv_become)
next
  case (WorkerQuits i)
  with assms show ?thesis by (auto simp: wm_step_def split: wm_task.splits intro!: sync_inv_become)
qed (use assms in simp_all)

lemma sync_inv_watched: "watched (\<lambda>a. \<not> stops a) classify m \<Longrightarrow> sync_inv m"
  by (induction rule: watched.induct) (simp_all add: sync_inv_step, simp add: sync_inv_def new_watchers_def told_def repo_locks.empty)

text \<open>
  C34: as long as no watching is stopped, there is at most one sync of a repository at a time, however calls,
  workers and batches interleave, and the interface was last told that a repository is being indexed exactly
  when a sync of it is running.
\<close>

theorem one_sync_at_a_time:
  assumes "watched (\<lambda>a. \<not> stops a) classify m"
  shows "length (filter (syncs repo) (wm_tasks m)) \<le> 1 \<and>
    (told repo m = Some Indexing \<longleftrightarrow> length (filter (syncs repo) (wm_tasks m)) = 1)"
proof -
  have inv: "sync_inv m" by (rule sync_inv_watched [OF assms])
  then have "length (filter (syncs repo) (wm_tasks m)) \<le> 1"
    unfolding sync_inv_def by (intro repo_locks.at_most_one) blast
  moreover have "list_ex (syncs repo) (wm_tasks m) \<longleftrightarrow> filter (syncs repo) (wm_tasks m) \<noteq> []"
    by (auto simp: list_ex_iff filter_empty_conv)
  ultimately show ?thesis using inv by (cases "filter (syncs repo) (wm_tasks m)") (auto simp: sync_inv_def)
qed

subsection \<open>Examples\<close>

definition example_streamer :: streamer where
  "example_streamer = new_streamer \<lparr>sc_context_engine_url = ''http://e/api/v1'', sc_user_id = ''local'', sc_workspace_id = 0,
     sc_machine_id = ''m'', sc_repo_path = ''/r'', sc_auth_token = []\<rparr>"

lemma example_streamer_built:
  "build_streamer \<lparr>es_enabled = True, es_base_url = ''http://e/''\<rparr> ''m'' ''/r'' = Some example_streamer"
proof -
  have "normalize_base_url ''http://e/'' = ''http://e''" by code_simp
  then show ?thesis by (simp add: build_streamer_def example_streamer_def)
qed

definition start_sync :: "nat \<Rightarrow> wm_action list" where
  "start_sync i = [CallStart True True ''/r'', LookUp i 0, Prepare i (Some example_streamer), TakeLock i]"

definition wm_run :: "wm_action list \<Rightarrow> watcher_manager" where
  "wm_run as = fold (wm_step (classify_sync_error (\<lambda>_. []) (\<lambda>_. []))) as (new_watchers [])"

lemmas wm_run_simps = wm_run_def wm_step_def spawn_def new_watchers_def look_up_def become_def prepare_def get_sync_lock_def
  emit_status_def told_def

lemma wm_run_snoc: "wm_run (as @ [a]) = wm_step (classify_sync_error (\<lambda>_. []) (\<lambda>_. [])) a (wm_run as)"
  by (simp add: wm_run_def)

lemma example_sync_watched:
  "watched (\<lambda>a. \<not> stops a) (classify_sync_error (\<lambda>_. []) (\<lambda>_. [])) (wm_run (start_sync 0))"
proof -
  have run: "wm_run (start_sync 0) = wm_run ((([CallStart True True ''/r''] @ [LookUp 0 0]) @ [Prepare 0 (Some example_streamer)]) @ [TakeLock 0])"
    by (simp add: start_sync_def)
  have "watched (\<lambda>a. \<not> stops a) (classify_sync_error (\<lambda>_. []) (\<lambda>_. [])) (wm_run [CallStart True True ''/r''])"
    using watched.step [OF watched.none, where a = "CallStart True True ''/r''"] by (simp add: wm_run_def)
  then show ?thesis unfolding run wm_run_snoc
    by (intro watched.step) (simp_all add: wm_run_simps)
qed

theorem one_sync_at_a_time_witness:
  "length (filter (syncs ''/r'') (wm_tasks (wm_run (start_sync 0)))) = 1"
proof -
  have "told ''/r'' (wm_run (start_sync 0)) = Some Indexing"
    by (simp add: start_sync_def wm_run_simps)
  with one_sync_at_a_time [OF example_sync_watched, of "''/r''"] show ?thesis by simp
qed

text \<open>
  Stopping forgets the lock of a repository although a first sync may hold it, and does not reach that sync:
  after a stop and a new start two syncs of the repository run at once, and the one that was to be stopped
  goes on to register its watcher.
\<close>

theorem stop_breaks_the_lock:
  "length (filter (syncs ''/r'') (wm_tasks (wm_run (start_sync 0 @ [CallStop ''/r'', StopEnds 1] @ start_sync 2)))) = 2 \<and>
   get_status ''/r'' (wm_run (start_sync 0 @ [CallStop ''/r'', StopEnds 1, SyncEnds 0 (Inl DeadlineExceeded), Conclude 0 True 0])) =
     Some (IndexError ''sync_failed'' ''deadline_exceeded: sync deadline exceeded'')"
  by (simp add: start_sync_def wm_run_simps stop_watching_def stop_ends_def final_status_def classify_sync_error_def
      conclude_def get_status_def update_cached_status_def)

end
