(* ===== verification/AgentFiles.thy ===== *)
theory AgentFiles
  imports ToolCall
begin

section \<open>Skill and subagent files (\<open>frontmatter.rs\<close>, \<open>skills/\<close>, \<open>subagents/parse.rs\<close>, \<open>subagents/registry.rs\<close>)\<close>

text \<open>
  Markdown files with a YAML head define skills and subagents. The head is split off here and read by
  \<open>serde_yml\<close>, a parameter from the text of the head to its typed members. Files come in three tiers,
  built in, of the user and of the project, and a later tier overrides an earlier one.
\<close>

subsection \<open>The head of a file\<close>

fun trim_boms :: "rstr \<Rightarrow> rstr" where
  "trim_boms s =
     (case s of
        a # b # c # rest \<Rightarrow> if [a, b, c] = [CHR 0xEF, CHR 0xBB, CHR 0xBF] then trim_boms rest else s
      | _ \<Rightarrow> s)"

declare trim_boms.simps [simp del]

definition trim_newlines :: "rstr \<Rightarrow> rstr" where
  "trim_newlines = dropWhile (\<lambda>c. c = cr \<or> c = nl)"

definition close_delims :: "rstr list" where
  "close_delims =
     [[nl] @ ''---'' @ [nl], [cr, nl] @ ''---'' @ [cr, nl], [nl] @ ''---'' @ [cr, nl], [cr, nl] @ ''---'' @ [nl]]"

definition split_on_close_delim :: "rstr \<Rightarrow> (rstr \<times> rstr) option" where
  "split_on_close_delim s =
     (case first_some (\<lambda>pat. map_option (\<lambda>i. (take i s, drop (i + length pat) s)) (str_find s pat)) close_delims of
        Some r \<Rightarrow> Some r
      | None \<Rightarrow>
          (case strip_suffix s ([cr, nl] @ ''---'') of
             Some stripped \<Rightarrow> Some (stripped, [])
           | None \<Rightarrow> map_option (\<lambda>stripped. (stripped, [])) (strip_suffix s ([nl] @ ''---''))))"

text \<open>The YAML text and the body; \<open>None\<close> is the missing delimiter.\<close>

definition split_frontmatter :: "rstr \<Rightarrow> (rstr \<times> rstr) option" where
  "split_frontmatter raw =
     (let trimmed = trim_newlines (trim_boms raw)
      in Option.bind (case strip_prefix trimmed (''---'' @ [nl]) of
             Some s \<Rightarrow> Some s | None \<Rightarrow> strip_prefix trimmed (''---'' @ [cr, nl]))
           split_on_close_delim)"

subsection \<open>Parsing\<close>

definition name_max :: nat where "name_max = 64"
definition skill_desc_max :: nat where "skill_desc_max = 1024"
definition subagent_desc_max :: nat where "subagent_desc_max = 2048"

definition name_char :: "char \<Rightarrow> bool" where
  "name_char c \<longleftrightarrow> (97 \<le> byte_val c \<and> byte_val c \<le> 122) \<or> is_digit c \<or> c = CHR ''-''"

text \<open>The regular expression \<open>^[a-z0-9-]{1,64}$\<close>\<close>

definition name_regex :: "rstr \<Rightarrow> bool" where
  "name_regex s \<longleftrightarrow> 1 \<le> length s \<and> length s \<le> 64 \<and> list_all name_char s"

datatype definition_error =
    MissingFrontmatter
  | InvalidYaml rstr
  | InvalidName rstr
  | InvalidDescription
  | InvalidAllowedTools
  | InvalidModel

text \<open>The members of the YAML head; a skill has the first two.\<close>

record front_skill =
  fs_name :: rstr
  fs_description :: rstr

record front_subagent = front_skill +
  fs_allowed_tools :: "rstr list option"
  fs_model :: "rstr option"

record parsed_skill =
  ps_name :: rstr
  ps_description :: rstr
  ps_body :: rstr

record parsed_subagent = parsed_skill +
  ps_allowed_tools :: "rstr list option"
  ps_model :: "rstr option"

definition bad_name :: "rstr \<Rightarrow> bool" where
  "bad_name name \<longleftrightarrow> name = [] \<or> length name > name_max \<or> \<not> name_regex name"

definition bad_description :: "nat \<Rightarrow> rstr \<Rightarrow> bool" where
  "bad_description desc_max d \<longleftrightarrow> d = [] \<or> length d > desc_max"

definition parse_skill_md :: "(rstr \<Rightarrow> rstr + front_skill) \<Rightarrow> rstr \<Rightarrow> definition_error + parsed_skill" where
  "parse_skill_md yaml raw =
     (case split_frontmatter raw of
        None \<Rightarrow> Inl MissingFrontmatter
      | Some (head, body) \<Rightarrow>
          (case yaml head of
             Inl e \<Rightarrow> Inl (InvalidYaml e)
           | Inr fm \<Rightarrow>
               if bad_name (fs_name fm) then Inl (InvalidName (fs_name fm))
               else if bad_description skill_desc_max (fs_description fm) then Inl InvalidDescription
               else Inr \<lparr>ps_name = fs_name fm, ps_description = fs_description fm, ps_body = trim_newlines body\<rparr>))"

definition parse_subagent_md :: "(rstr \<Rightarrow> rstr + front_subagent) \<Rightarrow> rstr \<Rightarrow> definition_error + parsed_subagent" where
  "parse_subagent_md yaml raw =
     (case split_frontmatter raw of
        None \<Rightarrow> Inl MissingFrontmatter
      | Some (head, body) \<Rightarrow>
          (case yaml head of
             Inl e \<Rightarrow> Inl (InvalidYaml e)
           | Inr fm \<Rightarrow>
               if bad_name (fs_name fm) then Inl (InvalidName (fs_name fm))
               else if bad_description subagent_desc_max (fs_description fm) then Inl InvalidDescription
               else if (case fs_allowed_tools fm of Some tools \<Rightarrow> list_ex (\<lambda>t. t = []) tools | None \<Rightarrow> False)
               then Inl InvalidAllowedTools
               else if fs_model fm = Some [] then Inl InvalidModel
               else Inr \<lparr>ps_name = fs_name fm, ps_description = fs_description fm, ps_body = trim_newlines body,
                         ps_allowed_tools = fs_allowed_tools fm, ps_model = fs_model fm\<rparr>))"

subsection \<open>Registries\<close>

datatype origin = DefaultTier | GlobalTier | ProjectTier

record raw_input =
  ri_raw :: rstr
  ri_path :: rstr

definition max_body_tokens :: nat where "max_body_tokens = 20000"

record skill = parsed_skill +
  sk_origin :: origin
  sk_path :: rstr

record subagent = parsed_subagent +
  sa_origin :: origin
  sa_path :: rstr

text \<open>\<open>load_one\<close> of either kind; the message of a failure only goes to the log.\<close>

definition load_skill :: "(rstr \<Rightarrow> rstr + front_skill) \<Rightarrow> origin \<Rightarrow> raw_input \<Rightarrow> skill option" where
  "load_skill yaml origin input =
     (case parse_skill_md yaml (ri_raw input) of
        Inl e \<Rightarrow> None
      | Inr p \<Rightarrow>
          if length (ps_body p) div 4 > max_body_tokens then None
          else Some \<lparr>ps_name = ps_name p, ps_description = ps_description p, ps_body = ps_body p,
                     sk_origin = origin, sk_path = ri_path input\<rparr>)"

definition load_subagent :: "(rstr \<Rightarrow> rstr + front_subagent) \<Rightarrow> origin \<Rightarrow> raw_input \<Rightarrow> subagent option" where
  "load_subagent yaml origin input =
     (case parse_subagent_md yaml (ri_raw input) of
        Inl e \<Rightarrow> None
      | Inr p \<Rightarrow>
          if length (ps_body p) div 4 > max_body_tokens then None
          else Some \<lparr>ps_name = ps_name p, ps_description = ps_description p, ps_body = ps_body p,
                     ps_allowed_tools = ps_allowed_tools p, ps_model = ps_model p,
                     sa_origin = origin, sa_path = ri_path input\<rparr>)"

text \<open>Both registries are built the same way; the map is kept as a list of pairs with distinct names.\<close>

definition insert_all :: "(origin \<Rightarrow> raw_input \<Rightarrow> 'a option) \<Rightarrow> ('a \<Rightarrow> rstr) \<Rightarrow> origin \<Rightarrow> raw_input list \<Rightarrow>
   (rstr \<times> 'a) list \<Rightarrow> (rstr \<times> 'a) list" where
  "insert_all load name_of origin inputs entries =
     fold (\<lambda>input es. case load origin input of Some a \<Rightarrow> upsert (name_of a) a (\<lambda>_. a) es | None \<Rightarrow> es) inputs entries"

definition tiered ::
  "(origin \<Rightarrow> raw_input \<Rightarrow> 'a option) \<Rightarrow> ('a \<Rightarrow> rstr) \<Rightarrow> raw_input list \<Rightarrow> raw_input list \<Rightarrow> raw_input list \<Rightarrow>
   rstr list \<Rightarrow> (rstr \<times> 'a) list" where
  "tiered load name_of default_inputs global_inputs project_inputs disabled =
     filter (\<lambda>e. fst e \<notin> set disabled)
       (insert_all load name_of ProjectTier project_inputs
         (insert_all load name_of GlobalTier global_inputs
           (insert_all load name_of DefaultTier default_inputs [])))"

type_synonym skill_registry = "(rstr \<times> skill) list"
type_synonym subagent_registry = "(rstr \<times> subagent) list"

definition new_skill_registry ::
  "(rstr \<Rightarrow> rstr + front_skill) \<Rightarrow> raw_input list \<Rightarrow> raw_input list \<Rightarrow> raw_input list \<Rightarrow> rstr list \<Rightarrow> skill_registry" where
  "new_skill_registry yaml = tiered (load_skill yaml) ps_name"

definition new_subagent_registry ::
  "(rstr \<Rightarrow> rstr + front_subagent) \<Rightarrow> raw_input list \<Rightarrow> raw_input list \<Rightarrow> raw_input list \<Rightarrow> rstr list \<Rightarrow> subagent_registry" where
  "new_subagent_registry yaml = tiered (load_subagent yaml) ps_name"

definition registered_names :: "(rstr \<times> 'a) list \<Rightarrow> rstr list" where
  "registered_names r = sort (map fst r)"

definition list_for_prompt :: "(rstr \<times> 'a parsed_skill_scheme) list \<Rightarrow> (rstr \<times> rstr) list" where
  "list_for_prompt r = sort_key fst (map (\<lambda>e. (ps_name (snd e), ps_description (snd e))) r)"

definition all_registered :: "(rstr \<times> 'a parsed_skill_scheme) list \<Rightarrow> 'a parsed_skill_scheme list" where
  "all_registered r = sort_key ps_name (map snd r)"

subsection \<open>Finding the files of a tier\<close>

text \<open>
  What the file system shows: the entries of the directory (none if it cannot be read), each with whether
  it is a symbolic link; whether a path is one (none if it does not exist); and the text of a file.
\<close>

record tier_view =
  tv_entries :: "rstr \<Rightarrow> (rstr \<times> bool) list option"
  tv_is_link :: "rstr \<Rightarrow> bool option"
  tv_read :: "rstr \<Rightarrow> rstr option"
  tv_dir_name :: "rstr \<Rightarrow> rstr option"

text \<open>The file a child directory is looked up for, and the path that is kept with its text.\<close>

definition read_child :: "tier_view \<Rightarrow> rstr \<Rightarrow> rstr \<Rightarrow> raw_input option" where
  "read_child v file kept =
     (case tv_is_link v file of
        Some False \<Rightarrow> map_option (\<lambda>raw. \<lparr>ri_raw = raw, ri_path = kept\<rparr>) (tv_read v file)
      | _ \<Rightarrow> None)"

definition read_skill_tier :: "tier_view \<Rightarrow> rstr \<Rightarrow> raw_input list" where
  "read_skill_tier v root =
     (case tv_entries v root of
        None \<Rightarrow> []
      | Some entries \<Rightarrow>
          List.map_filter (\<lambda>(path, is_link). if is_link then None
            else read_child v (path_join path ''SKILL.md'') path) entries)"

definition read_subagent_tier :: "tier_view \<Rightarrow> rstr \<Rightarrow> raw_input list" where
  "read_subagent_tier v root =
     (case tv_entries v root of
        None \<Rightarrow> []
      | Some entries \<Rightarrow>
          List.map_filter (\<lambda>(path, is_link). if is_link then None
            else (case tv_dir_name v path of
                    None \<Rightarrow> None
                  | Some n \<Rightarrow> let file = path_join path (n @ ''.md'') in read_child v file file)) entries)"

subsection \<open>The skill tool\<close>

definition close_tag :: rstr where "close_tag = ''</skill_content>''"
definition escaped_tag :: rstr where "escaped_tag = [CHR ''<'', CHR 0x5C] @ ''/skill_content>''"

definition skill_output :: "skill \<Rightarrow> rstr" where
  "skill_output s =
     ''<skill_content name='' @ [CHR 0x22] @ ps_name s @ [CHR 0x22] @ ''>'' @ [nl] @
     str_replace (ps_body s) close_tag escaped_tag @ [nl] @ close_tag"

definition skill_execute :: "skill_registry \<Rightarrow> tool_context \<Rightarrow> json \<Rightarrow> agent_event list \<times> tool_outcome" where
  "skill_execute r ctx args =
     (case get_str ''name'' args of
        None \<Rightarrow> ([], Failed ''Missing required parameter: name'')
      | Some name \<Rightarrow>
          (case map_of r name of
             None \<Rightarrow> ([], Finished (result_error
               (''Unknown skill `'' @ name @ ''`. Available skills: ['' @ join '', '' (registered_names r) @ '']'')))
           | Some s \<Rightarrow> ([SkillLoaded (tx_session_id ctx) (ps_name s)], Finished (result_success (skill_output s)))))"

subsection \<open>What the registry offers\<close>

text \<open>The inputs in the order in which they are inserted, with their tiers.\<close>

definition all_inputs :: "raw_input list \<Rightarrow> raw_input list \<Rightarrow> raw_input list \<Rightarrow> (origin \<times> raw_input) list" where
  "all_inputs d g p = map (Pair DefaultTier) d @ map (Pair GlobalTier) g @ map (Pair ProjectTier) p"

definition load_at :: "(origin \<Rightarrow> raw_input \<Rightarrow> 'a option) \<Rightarrow> ('a \<Rightarrow> rstr) \<Rightarrow> rstr \<Rightarrow> origin \<times> raw_input \<Rightarrow> 'a option" where
  "load_at load name_of n oi =
     (case load (fst oi) (snd oi) of Some a \<Rightarrow> if name_of a = n then Some a else None | None \<Rightarrow> None)"

lemma first_some_append: "first_some f (xs @ ys) = (case first_some f xs of Some y \<Rightarrow> Some y | None \<Rightarrow> first_some f ys)"
  by (induction xs) (auto split: option.splits)

lemma insert_all_lookup:
  "map_of (insert_all load name_of origin inputs es) n =
     (case first_some (load_at load name_of n) (rev (map (Pair origin) inputs)) of Some a \<Rightarrow> Some a | None \<Rightarrow> map_of es n)"
proof (induction inputs arbitrary: es)
  case (Cons i ins)
  have "insert_all load name_of origin (i # ins) es =
      insert_all load name_of origin ins (case load origin i of Some a \<Rightarrow> upsert (name_of a) a (\<lambda>_. a) es | None \<Rightarrow> es)"
    by (simp add: insert_all_def)
  then show ?case
    by (auto simp: Cons.IH first_some_append load_at_def map_of_upsert split: option.splits)
qed (simp add: insert_all_def)

lemma insert_all_distinct: "distinct (map fst es) \<Longrightarrow> distinct (map fst (insert_all load name_of origin inputs es))"
proof (induction inputs arbitrary: es)
  case (Cons i ins)
  have "insert_all load name_of origin (i # ins) es =
      insert_all load name_of origin ins (case load origin i of Some a \<Rightarrow> upsert (name_of a) a (\<lambda>_. a) es | None \<Rightarrow> es)"
    by (simp add: insert_all_def)
  with Cons show ?case by (auto simp: fst_upsert split: option.splits)
qed (simp add: insert_all_def)

lemma map_of_filter_keys: "map_of (filter (\<lambda>e. P (fst e)) es) n = (if P n then map_of es n else None)"
  by (induction es) auto

lemma tiered_lookup:
  "map_of (tiered load name_of d g p disabled) n =
     (if n \<in> set disabled then None else first_some (load_at load name_of n) (rev (all_inputs d g p)))"
  unfolding tiered_def map_of_filter_keys [where P = "\<lambda>k. k \<notin> set disabled"]
  by (simp add: insert_all_lookup all_inputs_def first_some_append split: option.splits)

lemma first_some_SomeD: "first_some f xs = Some y \<Longrightarrow> \<exists>x \<in> set xs. f x = Some y"
  by (induction xs) (auto split: option.splits)

lemma load_skill_fields:
  "load_skill yaml og i = Some s \<Longrightarrow> sk_origin s = og \<and> sk_path s = ri_path i \<and> name_regex (ps_name s) \<and>
     length (ps_body s) div 4 \<le> max_body_tokens"
  by (auto simp: load_skill_def parse_skill_md_def bad_name_def split: option.splits sum.splits if_splits)

lemma load_subagent_fields:
  "load_subagent yaml og i = Some s \<Longrightarrow> sa_origin s = og \<and> sa_path s = ri_path i \<and> name_regex (ps_name s) \<and>
     length (ps_body s) div 4 \<le> max_body_tokens"
  by (auto simp: load_subagent_def parse_subagent_md_def bad_name_def split: option.splits sum.splits if_splits)

subsection \<open>The head is read back\<close>

lemma str_find_first:
  assumes "\<And>j. j < length pre \<Longrightarrow> \<not> prefix p (drop j (pre @ p @ post))"
  shows "str_find (pre @ p @ post) p = Some (length pre)"
  using assms
proof (induction pre)
  case Nil
  have "prefix p (p @ post)" by simp
  then show ?case by (cases "p @ post") (simp_all del: prefix_def)
next
  case (Cons c cs)
  have "\<not> prefix p (drop j (cs @ p @ post))" if "j < length cs" for j
    using Cons.prems [of "Suc j"] that by simp
  moreover have "\<not> prefix p (c # cs @ p @ post)" using Cons.prems [of 0] by simp
  ultimately show ?case using Cons.IH by simp
qed

text \<open>A text holds no line that looks like the end of a head.\<close>

definition no_close :: "rstr \<Rightarrow> bool" where
  "no_close s \<longleftrightarrow> \<not> str_contains s ([nl] @ ''---'')"

lemma no_close_suffix: "no_close (a @ b) \<Longrightarrow> no_close b"
  unfolding no_close_def str_contains_iff by (metis append.assoc)

lemma contains_drop: "str_contains (drop j s) p \<Longrightarrow> str_contains s p"
  unfolding str_contains_iff by (metis append.assoc append_take_drop_id)

lemma prefix_contains: "prefix p s \<Longrightarrow> str_contains s p"
  unfolding str_contains_iff prefix_def by (metis append_Nil)

text \<open>A pattern whose first character does not come again cannot begin before one and reach into it.\<close>

lemma no_overlap:
  assumes "c \<notin> set q" "ys \<noteq> []" "prefix (c # q) (ys @ c # rest)"
  shows "prefix (c # q) ys"
proof (cases "length (c # q) \<le> length ys")
  case True
  then have "take (length (c # q)) (ys @ c # rest) = take (length (c # q)) ys" by simp
  with assms(3) show ?thesis by (metis prefix_iff_take)
next
  case False
  obtain zs where zs: "ys @ c # rest = c # q @ zs" using assms(3) by (auto simp: prefix_def)
  have "(ys @ c # rest) ! length ys = c" by simp
  moreover have "(c # q @ zs) ! length ys \<in> set q"
    using False assms(2) by (cases ys) (auto simp: nth_append)
  ultimately show ?thesis using assms(1) unfolding zs by auto
qed

lemma str_find_close:
  assumes "c \<notin> set q" "\<not> str_contains pre (c # q)"
  shows "str_find (pre @ (c # q @ q') @ post) (c # q @ q') = Some (length pre)"
proof (rule str_find_first)
  fix j assume j: "j < length pre"
  show "\<not> prefix (c # q @ q') (drop j (pre @ (c # q @ q') @ post))"
  proof
    assume "prefix (c # q @ q') (drop j (pre @ (c # q @ q') @ post))"
    then have "prefix (c # q) (drop j pre @ c # (q @ q' @ post))"
      using j by (metis append_Cons append_assoc drop_append diff_is_0_eq' drop0 less_imp_le_nat prefix_order.trans prefixI)
    from no_overlap [OF assms(1) _ this] j have "prefix (c # q) (drop j pre)" by simp
    with assms(2) show False using contains_drop prefix_contains by blast
  qed
qed

text \<open>How a file is printed: a head and a body between lines of dashes, with either line end.\<close>

definition print_file :: "rstr \<Rightarrow> rstr \<Rightarrow> rstr \<Rightarrow> rstr" where
  "print_file eol head body = ''---'' @ eol @ head @ eol @ ''---'' @ eol @ body"

lemma close_delims_simps: "close_delims =
   [nl # ''---'' @ [nl], [cr, nl] @ ''---'' @ [cr, nl], nl # ''---'' @ [cr, nl], [cr, nl] @ ''---'' @ [nl]]"
  by (simp add: close_delims_def)

lemma not_contains_longer: "\<not> str_contains s p \<Longrightarrow> \<not> str_contains s (p @ q)"
  unfolding str_contains_iff by (metis append.assoc)

lemma no_close_crlf: "\<not> str_contains s (nl # p) \<Longrightarrow> \<not> str_contains s (cr # nl # p)"
  unfolding str_contains_iff by (metis append_Cons append_Nil append_assoc)

lemma split_close_lf:
  assumes "no_close head"
  shows "split_on_close_delim (head @ [nl] @ ''---'' @ [nl] @ body) = Some (head, body)"
proof -
  have "str_find (head @ (nl # ''---'' @ [nl]) @ body) (nl # ''---'' @ [nl]) = Some (length head)"
    using assms by (intro str_find_close) (simp_all add: no_close_def)
  then show ?thesis by (simp add: split_on_close_delim_def close_delims_simps)
qed

lemma prefix_before: "d \<notin> set p \<Longrightarrow> prefix p (a @ d # b) \<longleftrightarrow> prefix p a"
proof (induction p arbitrary: a)
  case (Cons x p)
  then show ?case by (cases a) auto
qed simp

lemma contains_around:
  "d \<notin> set p \<Longrightarrow> p \<noteq> [] \<Longrightarrow> str_contains (a @ d # b) p \<longleftrightarrow> str_contains a p \<or> str_contains b p"
proof (induction a)
  case Nil
  then show ?case using prefix_before [of d p "[]" b] by (auto simp: str_contains_def)
next
  case (Cons x a)
  then show ?case using prefix_before [of d p "x # a" b] by (auto simp: str_contains_def)
qed

lemma split_close_crlf:
  assumes "no_close head" "\<not> str_contains (nl # body) ([nl] @ ''---'' @ [nl])"
  shows "split_on_close_delim (head @ [cr, nl] @ ''---'' @ [cr, nl] @ body) = Some (head, body)"
proof -
  let ?s = "head @ [cr, nl] @ ''---'' @ [cr, nl] @ body"
  have "str_find (head @ (cr # (nl # ''---'') @ [cr, nl]) @ body) (cr # (nl # ''---'') @ [cr, nl]) = Some (length head)"
    using assms(1) by (intro str_find_close) (simp_all add: no_close_def no_close_crlf)
  then have found: "str_find ?s ([cr, nl] @ ''---'' @ [cr, nl]) = Some (length head)" by simp
  have "\<not> str_contains (head @ cr # (nl # ''---'') @ cr # nl # body) (nl # ''---'' @ [nl])"
    using assms not_contains_longer [of head "nl # ''---''" "[nl]"]
    by (simp add: contains_around no_close_def) (simp add: str_contains_def)
  then have "str_find ?s (nl # ''---'' @ [nl]) = None" by (simp add: str_contains_def)
  with found show ?thesis by (simp add: split_on_close_delim_def close_delims_simps)
qed

lemma trim_boms_dashes [simp]: "trim_boms (CHR ''-'' # s) = CHR ''-'' # s"
  by (subst trim_boms.simps) (simp split: list.splits)

lemma trim_boms_bom [simp]: "trim_boms (CHR 0xEF # CHR 0xBB # CHR 0xBF # s) = trim_boms s"
  by (subst trim_boms.simps) simp

text \<open>
  a definition file is read back: with Unix or Windows line ends, with or without a byte order mark, the
  head and the body come out as they were written, if no line of the head begins with the dashes that end it
  (and, with Windows line ends, the body has no Unix-style line of dashes).
\<close>

theorem frontmatter_read_back:
  assumes "no_close head" "bom = [] \<or> bom = [CHR 0xEF, CHR 0xBB, CHR 0xBF]"
    "eol = [nl] \<or> eol = [cr, nl] \<and> \<not> str_contains (nl # body) ([nl] @ ''---'' @ [nl])"
  shows "split_frontmatter (bom @ print_file eol head body) = Some (head, body)"
proof -
  have trimmed: "trim_newlines (trim_boms (bom @ print_file eol head body)) = print_file eol head body"
    using assms(2) by (auto simp: print_file_def trim_newlines_def)
  have "split_on_close_delim (head @ eol @ ''---'' @ eol @ body) = Some (head, body)"
    using assms(3) split_close_lf [OF assms(1), of body] split_close_crlf [OF assms(1), of body] by auto
  then show ?thesis
    using assms(3) unfolding split_frontmatter_def trimmed
    by (auto simp: print_file_def strip_prefix_def)
qed

theorem frontmatter_read_back_witness:
  "split_frontmatter ([CHR 0xEF, CHR 0xBB, CHR 0xBF] @ print_file [cr, nl] ''name: a'' ''Do.'') = Some (''name: a'', ''Do.'')"
  by (rule frontmatter_read_back) (simp_all add: no_close_def str_contains_def)

text \<open>
  A Windows file whose body holds a Unix-style rule is split at the rule: the end of the head is searched for
  in the Unix spelling first, anywhere in the file.
\<close>

theorem mixed_line_ends_missplit:
  "split_frontmatter (print_file [cr, nl] ''name: a'' (''Do.'' @ [nl] @ ''---'' @ [nl] @ ''Rest'')) =
     Some (''name: a'' @ [cr, nl] @ ''---'' @ [cr, nl] @ ''Do.'', ''Rest'')"
  by (simp add: split_frontmatter_def print_file_def trim_newlines_def strip_prefix_def split_on_close_delim_def
      close_delims_simps)

text \<open>
  a name that is not disabled is defined by the last file, in the order built in, user, project, that
  parses to it, and by none if there is no such file; what is defined has a legal name and a bounded body.
\<close>

theorem nearest_definition_wins:
  "map_of (new_subagent_registry yaml d g p disabled) n =
     (if n \<in> set disabled then None
      else first_some (load_at (load_subagent yaml) ps_name n) (rev (all_inputs d g p))) \<and>
   (\<forall>a. map_of (new_subagent_registry yaml d g p disabled) n = Some a \<longrightarrow>
      ps_name a = n \<and> name_regex n \<and> length (ps_body a) < 80004 \<and>
      (\<exists>input. (sa_origin a, input) \<in> set (all_inputs d g p) \<and> sa_path a = ri_path input))"
proof -
  have lookup: "map_of (new_subagent_registry yaml d g p disabled) n =
     (if n \<in> set disabled then None
      else first_some (load_at (load_subagent yaml) ps_name n) (rev (all_inputs d g p)))"
    by (simp add: new_subagent_registry_def tiered_lookup)
  moreover have "ps_name a = n \<and> name_regex n \<and> length (ps_body a) < 80004 \<and>
      (\<exists>input. (sa_origin a, input) \<in> set (all_inputs d g p) \<and> sa_path a = ri_path input)"
    if a: "first_some (load_at (load_subagent yaml) ps_name n) (rev (all_inputs d g p)) = Some a" for a
  proof -
    from first_some_SomeD [OF a] obtain og input where i: "(og, input) \<in> set (all_inputs d g p)"
      "load_subagent yaml og input = Some a" "ps_name a = n"
      by (auto simp: load_at_def split: option.splits if_splits)
    from load_subagent_fields [OF i(2)] i show ?thesis by (auto simp: max_body_tokens_def)
  qed
  ultimately show ?thesis by auto
qed

subsection \<open>The wrapper of a skill is closed once\<close>

lemma prefix_of_replaced:
  assumes "c \<notin> set w" "prefix w (str_replace s p (c # r))"
  shows "prefix w s"
  using assms
proof (induction w arbitrary: s)
  case (Cons x w)
  show ?case
  proof (cases s)
    case s: (Cons d ds)
    with Cons show ?thesis by (auto split: if_splits)
  qed (use Cons in simp)
qed simp

lemma escaped_body_open: "\<not> str_contains (str_replace s close_tag escaped_tag) close_tag"
proof -
  have tag: "close_tag = CHR ''<'' # ''/skill_content>''" "escaped_tag = CHR ''<'' # CHR 0x5C # ''/skill_content>''"
    by (simp_all add: close_tag_def escaped_tag_def)
  show ?thesis
  proof (induction s close_tag escaped_tag rule: str_replace.induct)
    case (2 c cs)
    show ?case
    proof (cases "prefix close_tag (c # cs)")
      case True
      let ?rest = "str_replace (drop (length close_tag) (c # cs)) close_tag escaped_tag"
      have r: "str_replace (c # cs) close_tag escaped_tag = escaped_tag @ ?rest"
        using True by (simp add: tag)
      have "\<not> str_contains ?rest close_tag" using 2(1) True by (simp add: tag)
      then show ?thesis unfolding r by (simp add: str_contains_def tag)
    next
      case False
      have "\<not> prefix close_tag (c # str_replace cs close_tag escaped_tag)"
        using False prefix_of_replaced [of "CHR ''<''" "''/skill_content>''" cs close_tag]
        by (auto simp: tag)
      with 2(2) False show ?thesis by (simp add: str_contains_def)
    qed
  qed (simp add: str_contains_def tag)
qed

lemma name_chars_plain: "name_regex n \<Longrightarrow> CHR ''<'' \<notin> set n"
  by (auto simp: name_regex_def list_all_iff name_char_def is_digit_def byte_val_def)

lemma contains_skip: "c \<notin> set a \<Longrightarrow> str_contains (a @ s) (c # p) = str_contains s (c # p)"
  by (induction a) (auto simp: str_contains_def)

lemma contains_end: "d \<notin> set p \<Longrightarrow> p \<noteq> [] \<Longrightarrow> str_contains (a @ [d]) p = str_contains a p"
  using contains_around [of d p a "[]"] by (auto simp: str_contains_def)

text \<open>
  what the model reads of a skill is closed by its wrapper and by nothing before: whatever the body says, the
  first closing tag of the output is the one at its end.
\<close>

theorem skill_body_cannot_close:
  assumes "map_of (new_skill_registry yaml d g p disabled) n = Some s"
  shows "str_find (skill_output s) close_tag = Some (length (skill_output s) - length close_tag)"
proof -
  from assms obtain og input where "load_skill yaml og input = Some s"
    using first_some_SomeD [of "load_at (load_skill yaml) ps_name n" "rev (all_inputs d g p)" s]
    by (auto simp: new_skill_registry_def tiered_lookup load_at_def split: option.splits if_splits)
  then have name: "CHR ''<'' \<notin> set (ps_name s)" using load_skill_fields name_chars_plain by blast
  define body where "body = str_replace (ps_body s) close_tag escaped_tag"
  define pre where "pre = ''<skill_content name='' @ [CHR 0x22] @ ps_name s @ [CHR 0x22] @ ''>'' @ [nl] @ body @ [nl]"
  have tag: "close_tag = CHR ''<'' # ''/skill_content>''" by (simp add: close_tag_def)
  have "\<not> str_contains (body @ [nl]) close_tag"
    using escaped_body_open [of "ps_body s"] by (simp add: body_def contains_end tag)
  then have "\<not> str_contains ((ps_name s @ [CHR 0x22, CHR ''>'', nl]) @ body @ [nl]) close_tag"
    using name unfolding tag by (subst contains_skip) auto
  then have "\<not> str_contains pre close_tag" unfolding pre_def tag by (simp add: str_contains_def)
  then have "str_find (pre @ (CHR ''<'' # ''/skill_content>'' @ []) @ []) (CHR ''<'' # ''/skill_content>'' @ []) = Some (length pre)"
    by (intro str_find_close) (simp_all add: tag)
  moreover have "skill_output s = pre @ close_tag" by (simp add: skill_output_def pre_def body_def)
  ultimately show ?thesis by (simp add: tag)
qed

definition sample_yaml :: "rstr \<Rightarrow> rstr + front_skill" where
  "sample_yaml t = Inr \<lparr>fs_name = ''a'', fs_description = ''d''\<rparr>"

definition sample_skill_file :: raw_input where
  "sample_skill_file = \<lparr>ri_raw = print_file [nl] ''x'' (''End with </skill_content>''), ri_path = ''defaults://a''\<rparr>"

theorem skill_body_cannot_close_witness:
  "\<exists>s. map_of (new_skill_registry sample_yaml [sample_skill_file] [] [] []) ''a'' = Some s \<and>
     str_find (skill_output s) close_tag = Some (length (skill_output s) - length close_tag)"
proof -
  have "split_frontmatter (ri_raw sample_skill_file) = Some (''x'', ''End with </skill_content>'')"
    by (simp add: sample_skill_file_def split_frontmatter_def print_file_def trim_newlines_def strip_prefix_def
        split_on_close_delim_def close_delims_simps)
  then have "load_skill sample_yaml DefaultTier sample_skill_file = Some
      \<lparr>ps_name = ''a'', ps_description = ''d'', ps_body = ''End with </skill_content>'', sk_origin = DefaultTier,
       sk_path = ''defaults://a''\<rparr>"
    by (simp add: load_skill_def parse_skill_md_def sample_yaml_def bad_name_def name_max_def name_regex_def name_char_def
        byte_val_def bad_description_def skill_desc_max_def trim_newlines_def max_body_tokens_def)
      (simp add: sample_skill_file_def)
  then have "map_of (new_skill_registry sample_yaml [sample_skill_file] [] [] []) ''a'' = Some
      \<lparr>ps_name = ''a'', ps_description = ''d'', ps_body = ''End with </skill_content>'', sk_origin = DefaultTier,
       sk_path = ''defaults://a''\<rparr>"
    by (simp add: new_skill_registry_def tiered_def insert_all_def)
  with skill_body_cannot_close [of sample_yaml "[sample_skill_file]" "[]" "[]" "[]" "''a''"] show ?thesis by blast
qed

definition sample_subagent_yaml :: "rstr \<Rightarrow> rstr + front_subagent" where
  "sample_subagent_yaml t = Inr \<lparr>fs_name = ''a'', fs_description = t, fs_allowed_tools = Some [''read''], fs_model = None\<rparr>"

definition sample_subagent_file :: "rstr \<Rightarrow> raw_input" where
  "sample_subagent_file t = \<lparr>ri_raw = print_file [nl] t ''Go.'', ri_path = ''/a.md''\<rparr>"

lemma sample_subagent_loads:
  "load_subagent sample_subagent_yaml og (sample_subagent_file ''new'') = Some
     \<lparr>ps_name = ''a'', ps_description = ''new'', ps_body = ''Go.'', ps_allowed_tools = Some [''read''], ps_model = None,
      sa_origin = og, sa_path = ''/a.md''\<rparr>"
proof -
  have "split_frontmatter (ri_raw (sample_subagent_file ''new'')) = Some (''new'', ''Go.'')"
    by (simp add: sample_subagent_file_def split_frontmatter_def print_file_def trim_newlines_def strip_prefix_def
        split_on_close_delim_def close_delims_simps)
  then show ?thesis
    by (simp add: load_subagent_def parse_subagent_md_def sample_subagent_yaml_def bad_name_def name_max_def name_regex_def
        name_char_def byte_val_def bad_description_def subagent_desc_max_def trim_newlines_def max_body_tokens_def)
      (simp add: sample_subagent_file_def)
qed

theorem nearest_definition_wins_witness:
  "\<exists>a. map_of (new_subagent_registry sample_subagent_yaml [sample_subagent_file ''old''] []
      [sample_subagent_file ''new''] []) ''a'' = Some a \<and> ps_description a = ''new'' \<and> name_regex ''a''"
  using nearest_definition_wins [of sample_subagent_yaml "[sample_subagent_file ''old'']" "[]" "[sample_subagent_file ''new'']"
    "[]" "''a''"]
  by (simp add: all_inputs_def load_at_def sample_subagent_loads)

end
