(* ===== verification/Subagents.thy ===== *)
theory Subagents
  imports AgentFiles AgentLoop KeyedLocks
begin

section \<open>Subagents (\<open>subagents/tool.rs\<close>, \<open>subagents/write_lock.rs\<close>)\<close>

text \<open>
  The tool \<open>spawn_subagent\<close> runs a child agent loop with the tools its definition allows and returns the child's
  last words. The child's provider and surroundings are a \<open>loop_env\<close> for the model's name; what the child's loop
  needs of the host comes from the parent's. Children that can write take turns on a lock per working directory,
  modelled below as tasks that move in any order.
\<close>

subsection \<open>The child\<close>

record inheritance =
  ih_model :: rstr
  ih_retry :: retry_config
  ih_compaction :: compaction_config
  ih_max_iterations :: u32
  ih_engine :: bool
  ih_engine_repo_path :: "rstr option"
  ih_persists :: bool
  ih_approval_factory :: "(rstr \<Rightarrow> rstr \<Rightarrow> rstr \<Rightarrow> json \<Rightarrow> rstr \<Rightarrow> approval_decision) option"
  ih_parent_session_id :: "rstr option"
  ih_checkpoint_dir :: "rstr option"

definition write_capable_tools :: "rstr list" where
  "write_capable_tools = [''write'', ''edit'', ''bash'', ''apply_patch'', ''git'', ''create_pr'']"

definition is_write_capable :: "rstr list \<Rightarrow> bool" where
  "is_write_capable effective_tools \<longleftrightarrow> list_ex (\<lambda>t. t \<in> set write_capable_tools) effective_tools"

definition build_description :: "subagent_registry \<Rightarrow> rstr" where
  "build_description r =
     ''Dispatch a specialized subagent. The child runs as a nested AgentLoop, '' @
     ''sees only your `prompt` (no parent history), and returns a final '' @
     ''summary as this tool'' @ [CHR 0x27] @ ''s result. Child shares the parent'' @ [CHR 0x27] @ ''s working '' @
     ''directory. Multiple calls in one assistant turn run concurrently '' @
     ''unless the subagent is write-capable (write-capable children serialize '' @
     ''per working dir).'' @ [nl, nl] @ ''Available subagents:'' @ [nl] @
     concat (map (\<lambda>(name, description). ''- '' @ name @ '': '' @ description @ [nl]) (list_for_prompt r))"

definition truncate_prompt_preview :: "rstr \<Rightarrow> nat \<Rightarrow> rstr" where
  "truncate_prompt_preview prompt max_chars =
     (let collapsed = join '' '' (split_whitespace prompt)
      in if length (str_chars collapsed) \<le> max_chars then collapsed
         else concat (take max_chars (str_chars collapsed)) @ [CHR 0xE2, CHR 0x80, CHR 0xA6])"

text \<open>The child's tools: those of a coding session, without skills and without spawning, filtered by the definition.\<close>

definition child_registry :: "(rstr \<Rightarrow> tool) \<Rightarrow> inheritance \<Rightarrow> subagent \<Rightarrow> registry" where
  "child_registry catalogue inherit a =
     (let r = for_mode catalogue CodingMode (ih_engine inherit \<and> ih_engine_repo_path inherit \<noteq> None) False
      in case ps_allowed_tools a of
           Some allowed \<Rightarrow> retain (\<lambda>n. n \<in> set allowed) r
         | None \<Rightarrow> r)"

definition child_prompt :: "rstr \<Rightarrow> rstr \<Rightarrow> subagent \<Rightarrow> (rstr \<times> cache_control option) list" where
  "child_prompt working_dir date a =
     [(ps_body a, Some ephemeral),
      (''# Environment'' @ [nl] @ ''- Working directory: '' @ working_dir @ [nl] @
       ''- Depth: 1 (spawned by parent)'' @ [nl] @ ''- Date: '' @ date @ [nl], None)]"

definition child_loop_config ::
  "(rstr \<Rightarrow> tool) \<Rightarrow> inheritance \<Rightarrow> tool_host \<Rightarrow> tool_context \<Rightarrow> rstr \<Rightarrow> rstr \<Rightarrow> rstr \<Rightarrow> subagent \<Rightarrow> loop_config" where
  "child_loop_config catalogue inherit host ctx child_session_id date name a =
     \<lparr>lc_max_iterations = ih_max_iterations inherit, lc_retry = ih_retry inherit,
      lc_system_prompt = Some (child_prompt (tx_working_dir ctx) date a),
      lc_parent_session = (if ih_persists inherit then ih_parent_session_id inherit else None),
      lc_host = host\<lparr>th_registry := child_registry catalogue inherit a, th_working_dir := tx_working_dir ctx,
                     th_session_id := child_session_id,
                     th_approval := map_option (\<lambda>f. f name) (ih_approval_factory inherit),
                     th_checkpoint_dir := ih_checkpoint_dir inherit, th_policy := default_policy\<rparr>\<rparr>"

definition child_loop_start :: "inheritance \<Rightarrow> loop_config \<Rightarrow> cworld \<Rightarrow> loop_state" where
  "child_loop_start inherit cfg w =
     (let st = with_provider cfg (ih_compaction inherit) w in if ih_persists inherit then with_persister st else st)"

text \<open>The printed form of an unexpected result is Rust's debug form, a parameter.\<close>

definition child_verdict :: "(agent_result \<Rightarrow> rstr) \<Rightarrow> outcome \<Rightarrow> bool \<times> rstr" where
  "child_verdict debug r =
     (case r of
        Inr res \<Rightarrow>
          (case res of Done summary \<Rightarrow> (True, summary)
           | _ \<Rightarrow> (False, ''subagent yielded unexpectedly: '' @ debug res))
      | Inl e \<Rightarrow>
          if e = Cancelled then (False, ''subagent cancelled'')
          else (False, ''subagent failed: '' @ error_text e))"

definition turn_files_of :: "agent_event \<Rightarrow> rstr list" where
  "turn_files_of ev = (case ev of TurnCompleted s t fs \<Rightarrow> fs | _ \<Rightarrow> [])"

definition child_modified_files :: "agent_event list \<Rightarrow> rstr list" where
  "child_modified_files evs = sort (remdups (concat (map turn_files_of evs)))"

text \<open>
  The whole call: the child's id and the date are given, and whether the wait for the write lock was cut short by a
  cancellation. \<open>None\<close> when the child's loop never ends; a crash of the loop is a crash of the tool.
\<close>

record spawn_setting =
  sp_env :: "rstr \<Rightarrow> loop_env"
  sp_host :: tool_host
  sp_catalogue :: "rstr \<Rightarrow> tool"
  sp_child_id :: rstr
  sp_date :: rstr
  sp_wait_cancelled :: bool
  sp_debug :: "agent_result \<Rightarrow> rstr"

definition run_child ::
  "spawn_setting \<Rightarrow> inheritance \<Rightarrow> tool_context \<Rightarrow> rstr \<Rightarrow> subagent \<Rightarrow> rstr \<Rightarrow> cworld \<Rightarrow> (run_end \<times> loop_state) option" where
  "run_child sp inherit ctx name a prompt w =
     (let cfg = child_loop_config (sp_catalogue sp) inherit (sp_host sp) ctx (sp_child_id sp) (sp_date sp) name a;
          model = (case ps_model a of Some m \<Rightarrow> m | None \<Rightarrow> ih_model inherit)
      in run_agent (sp_env sp model) cfg (user_msg prompt) (child_loop_start inherit cfg w))"

definition spawn_subagent_execute ::
  "spawn_setting \<Rightarrow> inheritance \<Rightarrow> subagent_registry \<Rightarrow> tool_context \<Rightarrow> json \<Rightarrow> cworld \<Rightarrow>
   (agent_event list \<times> tool_outcome \<times> cworld) option" where
  "spawn_subagent_execute sp inherit r ctx args w =
     (case (get_str ''name'' args, get_str ''prompt'' args) of
        (None, _) \<Rightarrow> Some ([], Failed ''spawn_subagent: missing `name`'', w)
      | (_, None) \<Rightarrow> Some ([], Failed ''spawn_subagent: missing `prompt`'', w)
      | (Some name, Some prompt) \<Rightarrow>
          (case map_of r name of
             None \<Rightarrow> Some ([], Finished (result_error (''unknown subagent `'' @ name @ ''`. available: '' @
                       join '', '' (registered_names r))), w)
           | Some a \<Rightarrow>
               let started = SubagentStart (tx_session_id ctx) (tx_tool_call_id ctx) (sp_child_id sp) name
                     (truncate_prompt_preview prompt 120);
                   ended = SubagentEnd (tx_session_id ctx) (tx_tool_call_id ctx) (sp_child_id sp);
                   writes = is_write_capable (registry_names (child_registry (sp_catalogue sp) inherit a))
               in if writes \<and> sp_wait_cancelled sp then
                    Some ([started, ended False ''subagent cancelled''], Finished (result_error ''subagent cancelled''), w)
                  else
                    (case run_child sp inherit ctx name a prompt w of
                       None \<Rightarrow> None
                     | Some (Crashed, st) \<Rightarrow> Some ([started], Panicked, ls_world st)
                     | Some (Returned o', st) \<Rightarrow>
                         (case child_verdict (sp_debug sp) o' of
                            (success, summary) \<Rightarrow>
                              Some ([started, ended success summary],
                                Finished \<lparr>tr_output = summary, tr_is_error = \<not> success, tr_yield_data = None,
                                          tr_modified_files = child_modified_files (ls_events st)\<rparr>, ls_world st)))))"

subsection \<open>The write lock\<close>

text \<open>
  A call of \<open>spawn_subagent\<close> that may write asks the registry for the lock of the working directory, waits for
  it and holds it while the child runs; one that only reads goes past it.
\<close>

datatype child_task =
    Queued "component list" nat
  | Writing "component list" nat
  | Reading "component list"
  | ChildOver

record write_locks =
  wl_locks :: "(component list \<times> nat) list"
  wl_children :: "child_task list"

definition no_children :: write_locks where
  "no_children = \<lparr>wl_locks = [], wl_children = []\<rparr>"

definition get_or_create :: "component list \<Rightarrow> write_locks \<Rightarrow> nat \<times> write_locks" where
  "get_or_create dir s =
     (case lock_for dir (length (wl_locks s)) (wl_locks s) of (l, locks) \<Rightarrow> (l, s\<lparr>wl_locks := locks\<rparr>))"

datatype child_action =
    Spawn "component list" bool
  | Acquire nat
  | GiveUp nat
  | EndChild nat

definition child_step :: "child_action \<Rightarrow> write_locks \<Rightarrow> write_locks" where
  "child_step a s =
     (case a of
        Spawn dir writes \<Rightarrow>
          if writes then (case get_or_create dir s of (l, s1) \<Rightarrow> s1\<lparr>wl_children := wl_children s1 @ [Queued dir l]\<rparr>)
          else s\<lparr>wl_children := wl_children s @ [Reading dir]\<rparr>
      | Acquire i \<Rightarrow>
          (case wl_children s ! i of
             Queued dir l \<Rightarrow>
               if list_ex (\<lambda>t. case t of Writing d l' \<Rightarrow> l' = l | _ \<Rightarrow> False) (wl_children s) then s
               else s\<lparr>wl_children := (wl_children s)[i := Writing dir l]\<rparr>
           | _ \<Rightarrow> s)
      | GiveUp i \<Rightarrow>
          (case wl_children s ! i of Queued dir l \<Rightarrow> s\<lparr>wl_children := (wl_children s)[i := ChildOver]\<rparr> | _ \<Rightarrow> s)
      | EndChild i \<Rightarrow>
          (case wl_children s ! i of
             Writing dir l \<Rightarrow> s\<lparr>wl_children := (wl_children s)[i := ChildOver]\<rparr>
           | Reading dir \<Rightarrow> s\<lparr>wl_children := (wl_children s)[i := ChildOver]\<rparr>
           | _ \<Rightarrow> s))"

inductive spawned :: "write_locks \<Rightarrow> bool" where
  none: "spawned no_children"
| step: "spawned s \<Longrightarrow> (\<forall>i. a \<in> {Acquire i, GiveUp i, EndChild i} \<longrightarrow> i < length (wl_children s)) \<Longrightarrow> spawned (child_step a s)"

subsection \<open>Properties\<close>

lemma child_registry_lookup:
  assumes "\<And>n. tl_name (cat n) = n"
  shows "registry_get (child_registry cat inherit a) n =
    (if (n \<in> set (mode_tools CodingMode) \<or> ih_engine inherit \<and> ih_engine_repo_path inherit \<noteq> None \<and>
          n \<in> {''codebase_search'', ''codebase_graph''}) \<and>
        (case ps_allowed_tools a of Some allowed \<Rightarrow> n \<in> set allowed | None \<Rightarrow> True)
     then Some (cat n) else None)"
proof -
  have all: "registry_get (for_mode cat CodingMode e False) n =
      (if n \<in> set (mode_tools CodingMode) \<or> e \<and> n \<in> {''codebase_search'', ''codebase_graph''} then Some (cat n) else None)" for e
  proof -
    let ?extra = "(if e then [''codebase_search'', ''codebase_graph''] else []) @ (if False then [''skill''] else [])"
    have "distinct (mode_tools CodingMode @ ?extra)" by (simp add: mode_tools_def)
    from for_mode_lookup [OF assms this, where n = n] show ?thesis by (simp add: for_mode_def)
  qed
  show ?thesis
    by (cases "ps_allowed_tools a") (simp_all add: child_registry_def Let_def registry_get_retain all)
qed

text \<open>
  a subagent has only the tools of a coding session that its definition allows, never a tool to spawn
  another one; and when it counts as a reader, it has no tool to write files, run commands or use git.
\<close>

theorem children_keep_to_their_tools:
  assumes "\<And>n. tl_name (cat n) = n" "registry_get (child_registry cat inherit a) n = Some t"
  shows "t = cat n \<and> n \<noteq> ''spawn_subagent'' \<and> n \<noteq> ''skill'' \<and>
    (\<forall>allowed. ps_allowed_tools a = Some allowed \<longrightarrow> n \<in> set allowed) \<and>
    (\<not> is_write_capable (registry_names (child_registry cat inherit a)) \<longrightarrow>
      n \<notin> {''write'', ''edit'', ''bash'', ''apply_patch'', ''git'', ''create_pr''})"
proof -
  have "n \<in> set (registry_names (child_registry cat inherit a))"
    using assms(2) by (force simp: registry_get_def registry_names_def dest: map_of_SomeD)
  then have "\<not> is_write_capable (registry_names (child_registry cat inherit a)) \<Longrightarrow> n \<notin> set write_capable_tools"
    by (auto simp: is_write_capable_def list_ex_iff)
  with assms(2) show ?thesis
    unfolding child_registry_lookup [OF assms(1)]
    by (auto simp: mode_tools_def write_capable_tools_def split: if_splits option.splits)
qed

definition sample_inheritance :: inheritance where
  "sample_inheritance = \<lparr>ih_model = ''m'', ih_retry = default_retry_config, ih_compaction = default_compaction_config,
     ih_max_iterations = 50, ih_engine = False, ih_engine_repo_path = None, ih_persists = True, ih_approval_factory = None,
     ih_parent_session_id = Some ''p'', ih_checkpoint_dir = None\<rparr>"

definition sample_subagent :: subagent where
  "sample_subagent = \<lparr>ps_name = ''a'', ps_description = ''d'', ps_body = ''Go.'', ps_allowed_tools = Some [''read'', ''spawn_subagent''],
     ps_model = None, sa_origin = DefaultTier, sa_path = ''defaults://a''\<rparr>"

theorem children_keep_to_their_tools_witness:
  "stub_tool ''read'' = stub_tool ''read'' \<and> ''read'' \<noteq> ''spawn_subagent''"
proof -
  have n: "tl_name (stub_tool n) = n" for n by (simp add: stub_tool_def)
  have "registry_get (child_registry stub_tool sample_inheritance sample_subagent) ''read'' = Some (stub_tool ''read'')"
    unfolding child_registry_lookup [OF n] by (simp add: mode_tools_def sample_subagent_def)
  from children_keep_to_their_tools [OF n this] show ?thesis by simp
qed

fun queue_lock :: "child_task \<Rightarrow> (component list \<times> nat) option" where
  "queue_lock (Queued dir l) = Some (dir, l)"
| "queue_lock (Writing dir l) = Some (dir, l)"
| "queue_lock _ = None"

fun writes_in :: "component list \<Rightarrow> child_task \<Rightarrow> bool" where
  "writes_in dir (Writing d l) = (d = dir)"
| "writes_in dir _ = False"

definition has_guard :: "nat \<Rightarrow> child_task \<Rightarrow> bool" where
  "has_guard l t = (case t of Writing d l' \<Rightarrow> l' = l | _ \<Rightarrow> False)"

lemma writes_in_guard: "writes_in dir t \<Longrightarrow> \<exists>l. queue_lock t = Some (dir, l) \<and> has_guard l t"
  by (cases t) (auto simp: has_guard_def)

interpretation write_guards: keyed_locks queue_lock writes_in has_guard
  by unfold_locales (rule writes_in_guard)

lemma spawned_inv: "spawned s \<Longrightarrow> lock_inv queue_lock writes_in (wl_locks s) (wl_children s)"
proof (induction rule: spawned.induct)
  case none
  show ?case by (simp add: no_children_def write_guards.empty)
next
  case (step s a)
  show ?case
  proof (cases a)
    case (Spawn dir writes)
    show ?thesis
    proof (cases writes)
      case True
      obtain l locks where l: "lock_for dir (length (wl_locks s)) (wl_locks s) = (l, locks)" by fastforce
      have "lock_inv queue_lock writes_in locks (wl_children s @ [Queued dir l])"
        using write_guards.grow [OF step.IH l] lock_for_known [OF l] by (intro write_guards.outside) auto
      with Spawn True l show ?thesis by (simp add: child_step_def get_or_create_def)
    next
      case False
      with Spawn write_guards.outside(2) [OF step.IH, of "Reading dir"] show ?thesis by (simp add: child_step_def)
    qed
  next
    case (Acquire i)
    then have i: "i < length (wl_children s)" using step.hyps by auto
    have "lock_inv queue_lock writes_in (wl_locks s) ((wl_children s)[i := Writing dir l])"
      if "wl_children s ! i = Queued dir l" "\<not> list_ex (has_guard l) (wl_children s)" for dir l
      using that i by (intro write_guards.enter [OF step.IH, where k = dir and l = l]) auto
    with Acquire step.IH show ?thesis
      by (auto simp: child_step_def has_guard_def [abs_def] split: child_task.splits)
  next
    case (GiveUp i)
    with write_guards.outside(1) [OF step.IH, of ChildOver i] step.IH show ?thesis
      by (auto simp: child_step_def split: child_task.splits)
  next
    case (EndChild i)
    with write_guards.outside(1) [OF step.IH, of ChildOver i] step.IH show ?thesis
      by (auto simp: child_step_def split: child_task.splits)
  qed
qed

text \<open>
  C29: whatever is spawned, waits, is cancelled or ends, and in whatever order, two children that may write never run
  in one directory at the same time.
\<close>

theorem one_writer_per_directory:
  assumes "spawned s"
  shows "length (filter (writes_in dir) (wl_children s)) \<le> 1"
  by (rule write_guards.at_most_one [OF spawned_inv [OF assms]])

theorem one_writer_per_directory_witness:
  "length (filter (writes_in [RootDir]) (wl_children (child_step (Acquire 1) (child_step (Acquire 0)
     (child_step (Spawn [RootDir] True) (child_step (Spawn [RootDir] True) no_children)))))) \<le> 1"
proof (rule one_writer_per_directory)
  have l: "length (wl_children (child_step (Acquire i) s)) = length (wl_children s)" for i s
    by (simp add: child_step_def split: child_task.splits)
  have two: "length (wl_children (child_step (Spawn [RootDir] True) (child_step (Spawn [RootDir] True) no_children))) = 2"
    by (simp add: child_step_def no_children_def get_or_create_def lock_for_def)
  show "spawned (child_step (Acquire 1) (child_step (Acquire 0)
     (child_step (Spawn [RootDir] True) (child_step (Spawn [RootDir] True) no_children))))"
    by (intro spawned.intros) (simp_all add: l two)
qed

text \<open>
  a child that is started is announced once and ended once, and what its end reports is what the parent's
  model reads as the result of the call, an error unless the child finished by itself.
\<close>

theorem spawned_child_is_reported:
  assumes "spawn_subagent_execute sp inherit r ctx args w = Some (evs, Finished res, w')"
    "get_str ''name'' args = Some name" "map_of r name = Some a"
  shows "\<exists>preview. evs =
      [SubagentStart (tx_session_id ctx) (tx_tool_call_id ctx) (sp_child_id sp) name preview,
       SubagentEnd (tx_session_id ctx) (tx_tool_call_id ctx) (sp_child_id sp) (\<not> tr_is_error res) (tr_output res)] \<and>
    tr_yield_data res = None"
  using assms
  by (cases "get_str ''prompt'' args")
    (auto simp: spawn_subagent_execute_def Let_def result_error_def
      split: option.splits run_end.splits prod.splits if_splits)

theorem spawned_child_is_reported_witness:
  "\<exists>preview. [SubagentStart ''s'' ''c'' ''k'' ''w'' (truncate_prompt_preview ''go'' 120),
       SubagentEnd ''s'' ''c'' ''k'' False ''subagent cancelled''] =
     [SubagentStart ''s'' ''c'' ''k'' ''w'' preview, SubagentEnd ''s'' ''c'' ''k'' False ''subagent cancelled'']"
proof -
  let ?sp = "\<lparr>sp_env = \<lambda>_. \<lparr>le_llm = \<lambda>_ _ _. ([], Inl Cancelled), le_compaction_llm = None, le_cancelled = \<lambda>_. True,
      le_order = \<lambda>_ n. [0..<n]\<rparr>, sp_host = example_host (JObj []) None, sp_catalogue = stub_tool, sp_child_id = ''k'', sp_date = ''d'',
    sp_wait_cancelled = True, sp_debug = \<lambda>_. []\<rparr>"
  let ?a = "sample_subagent\<lparr>ps_allowed_tools := None\<rparr>"
  let ?ctx = "\<lparr>tx_working_dir = ''/p'', tx_session_id = ''s'', tx_tool_call_id = ''c'', tx_checkpoint_dir = None,
    tx_checkpoint_turn = 1, tx_policy = default_policy\<rparr>"
  have n: "tl_name (stub_tool n) = n" for n by (simp add: stub_tool_def)
  have "registry_get (child_registry stub_tool sample_inheritance ?a) ''write'' = Some (stub_tool ''write'')"
    unfolding child_registry_lookup [OF n] by (simp add: mode_tools_def)
  then have "''write'' \<in> set (registry_names (child_registry stub_tool sample_inheritance ?a))"
    by (force simp: registry_get_def registry_names_def dest: map_of_SomeD)
  then have "is_write_capable (registry_names (child_registry stub_tool sample_inheritance ?a))"
    by (auto simp: is_write_capable_def list_ex_iff write_capable_tools_def intro!: bexI [of _ "''write''"])
  then have "spawn_subagent_execute ?sp sample_inheritance [(''w'', ?a)] ?ctx
      (JObj [(''name'', JStr ''w''), (''prompt'', JStr ''go'')]) one_file_world =
    Some ([SubagentStart ''s'' ''c'' ''k'' ''w'' (truncate_prompt_preview ''go'' 120),
       SubagentEnd ''s'' ''c'' ''k'' False ''subagent cancelled''], Finished (result_error ''subagent cancelled''), one_file_world)"
    by (simp add: spawn_subagent_execute_def get_str_def Let_def)
  from spawned_child_is_reported [OF this, where name = "''w''" and a = ?a] show ?thesis
    by (simp add: get_str_def result_error_def)
qed

end
