(* ===== verification/Prompts.thy ===== *)
theory Prompts
  imports AgentFiles AgentLoop AnthropicApi
begin

section \<open>Model profiles and the system prompt (\<open>agent/model_profile.rs\<close>, \<open>agent/prompt.rs\<close>)\<close>

text \<open>
  The registry of models with their context windows, and the blocks of the system prompt with their single cache
  breakpoint. The three prompt templates are text files, given as a function of the mode; the date and the
  platform come from the system.
\<close>

subsection \<open>Model profiles\<close>

record model_profile =
  mp_id :: rstr
  mp_display_name :: rstr
  mp_provider :: rstr
  mp_context_window :: nat
  mp_supports_images :: bool

record model_registry =
  mr_profiles :: "rstr \<rightharpoonup> model_profile"
  mr_order :: "rstr list"

definition empty_models :: model_registry where
  "empty_models = \<lparr>mr_profiles = Map.empty, mr_order = []\<rparr>"

definition merge_one :: "model_profile \<Rightarrow> model_registry \<Rightarrow> model_registry" where
  "merge_one m r =
     \<lparr>mr_profiles = (mr_profiles r)(mp_id m \<mapsto> m),
      mr_order = (if mr_profiles r (mp_id m) = None then mr_order r @ [mp_id m] else mr_order r)\<rparr>"

definition merge_models :: "model_profile list \<Rightarrow> model_registry \<Rightarrow> model_registry" where
  "merge_models models r = fold merge_one models r"

definition default_context_window :: nat where "default_context_window = 128000"

definition context_window_for :: "rstr \<Rightarrow> model_registry \<Rightarrow> nat" where
  "context_window_for model_id r =
     (case mr_profiles r model_id of Some p \<Rightarrow> mp_context_window p | None \<Rightarrow> default_context_window)"

definition list_models :: "model_registry \<Rightarrow> model_profile list" where
  "list_models r = List.map_filter (mr_profiles r) (mr_order r)"

definition profile :: "rstr \<Rightarrow> rstr \<Rightarrow> rstr \<Rightarrow> nat \<Rightarrow> bool \<Rightarrow> model_profile" where
  "profile i name provider ctx vision =
     \<lparr>mp_id = i, mp_display_name = name, mp_provider = provider, mp_context_window = ctx, mp_supports_images = vision\<rparr>"

definition default_profiles :: "model_profile list" where
  "default_profiles =
     [profile ''claude-opus-4-8'' ''Claude Opus 4.8'' ''anthropic'' 1000000 True,
      profile ''claude-opus-4-7'' ''Claude Opus 4.7'' ''anthropic'' 1000000 True,
      profile ''claude-opus-4-6'' ''Claude Opus 4.6'' ''anthropic'' 1000000 True,
      profile ''claude-sonnet-4-6'' ''Claude Sonnet 4.6'' ''anthropic'' 1000000 True,
      profile ''claude-haiku-4-5'' ''Claude Haiku 4.5'' ''anthropic'' 200000 True,
      profile ''gpt-5.5'' ''GPT-5.5'' ''openai'' 1000000 True,
      profile ''gpt-5.4'' ''GPT-5.4'' ''openai'' 1000000 True,
      profile ''gpt-5.4-mini'' ''GPT-5.4 Mini'' ''openai'' 400000 True,
      profile ''gpt-5.4-nano'' ''GPT-5.4 Nano'' ''openai'' 400000 True,
      profile ''gpt-5.2'' ''GPT-5.2'' ''openai'' 400000 True,
      profile ''gpt-5.1'' ''GPT-5.1'' ''openai'' 400000 True,
      profile ''gpt-5'' ''GPT-5'' ''openai'' 400000 True,
      profile ''gpt-5-mini'' ''GPT-5 Mini'' ''openai'' 400000 True,
      profile ''gpt-5-nano'' ''GPT-5 Nano'' ''openai'' 400000 True,
      profile ''gpt-4.1'' ''GPT-4.1'' ''openai'' 1000000 True,
      profile ''gpt-4.1-mini'' ''GPT-4.1 Mini'' ''openai'' 1000000 True,
      profile ''gpt-4o'' ''GPT-4o'' ''openai'' 128000 True,
      profile ''gpt-4o-mini'' ''GPT-4o Mini'' ''openai'' 128000 True]"

definition default_models :: model_registry where
  "default_models = merge_models default_profiles empty_models"

text \<open>\<open>AgentConfig::with_model_profile\<close>\<close>

definition with_model_profile :: "model_profile \<Rightarrow> compaction_config \<Rightarrow> compaction_config" where
  "with_model_profile p cc = cc\<lparr>context_limit := mp_context_window p\<rparr>"

subsection \<open>The system prompt\<close>

definition index_prompt_block :: rstr where
  "index_prompt_block =
     ''# Codebase Index (semantic search '' @ em_dash @ '' PREFER THIS for finding code)'' @ [nl, nl] @
     ''This project is indexed. Two extra tools are available and are faster and more accurate '' @
     ''than grep/glob for locating code:'' @ [nl, nl] @
     ''- `codebase_search` '' @ em_dash @ '' semantic, AI-ranked search across the whole codebase. Handles '' @
     ''conceptual queries (e.g. '' @ [CHR 0x22] @ ''color parsing'' @ [CHR 0x22] @ '', '' @ [CHR 0x22] @
     ''rate limiting logic'' @ [CHR 0x22] @ '') and finds relevant '' @
     ''code even when you don'' @ [CHR 0x27] @ ''t know the exact symbol or string.'' @ [nl] @
     ''- `codebase_graph` '' @ em_dash @ '' call/dependency graph: find a function'' @ [CHR 0x27] @ ''s callers, callees, '' @
     ''definitions, and references.'' @ [nl, nl] @
     ''Exploration workflow (this OVERRIDES the grep/glob guidance in the sections below): when '' @
     ''you need to find where something is implemented or understand how a feature works, call '' @
     ''`codebase_search` FIRST (and `codebase_graph` for relationships), then `read` the files it '' @
     ''points to. Use `grep`/`glob` only for exact-string matches, or if the index tool reports '' @
     ''it is unavailable.'' @ [nl]"

record platform =
  pf_date :: rstr
  pf_os :: rstr
  pf_arch :: rstr

definition env_section :: "platform \<Rightarrow> rstr \<Rightarrow> rstr option \<Rightarrow> rstr option \<Rightarrow> rstr" where
  "env_section pf working_dir branch project_note =
     ''# Environment'' @ [nl] @ ''- Working directory: '' @ working_dir @ [nl] @
     (case branch of Some b \<Rightarrow> ''- Git branch: '' @ b @ [nl] | None \<Rightarrow> []) @
     (case project_note of Some n \<Rightarrow> ''- '' @ n @ [nl] | None \<Rightarrow> []) @
     ''- Date: '' @ pf_date pf @ [nl] @ ''- OS: '' @ pf_os pf @ ''/'' @ pf_arch pf @ [nl]"

definition menu :: "(rstr \<times> rstr) list \<Rightarrow> rstr" where
  "menu entries = concat (map (\<lambda>(name, description). ''- '' @ name @ '': '' @ description @ [nl]) entries)"

definition skills_intro :: rstr where
  "skills_intro =
     ''# Available Skills'' @ [nl] @
     ''Skills are instruction packs loaded on demand via the `skill` tool. '' @
     ''The descriptions below are a MENU '' @ em_dash @ '' they do not contain the rules '' @
     ''themselves. Whenever a task matches a skill by name, topic, or '' @
     ''intent '' @ em_dash @ '' or the user explicitly mentions one '' @ em_dash @ '' CALL THE `skill` '' @
     ''TOOL FIRST and follow the body verbatim. Do not guess at the rules '' @
     ''from the description. Skip the tool only when no skill below is '' @
     ''clearly relevant.'' @ [nl, nl] @ ''Available:'' @ [nl]"

definition subagents_intro :: rstr where
  "subagents_intro =
     ''# Available Subagents'' @ [nl] @
     ''Subagents currently enabled for this turn (see '' @ [CHR 0x22] @ ''Default Subagents'' @ [CHR 0x22] @ '' '' @
     ''in the main prompt for routing guidance):'' @ [nl]"

definition combined_section :: "(rstr \<times> rstr) list \<Rightarrow> (rstr \<times> rstr) list \<Rightarrow> rstr" where
  "combined_section skills_entries subagents_entries =
     (let skills_part = (if skills_entries = [] then [] else skills_intro @ menu skills_entries)
      in skills_part @
         (if subagents_entries = [] then []
          else (if skills_part = [] then [] else [nl]) @ subagents_intro @ menu subagents_entries))"

type_synonym system_block = "rstr \<times> cache_control option"

definition build_system_prompt ::
  "(tool_mode \<Rightarrow> rstr) \<Rightarrow> platform \<Rightarrow> tool_mode \<Rightarrow> rstr \<Rightarrow> rstr option \<Rightarrow> rstr option \<Rightarrow>
   skill_registry option \<Rightarrow> subagent_registry option \<Rightarrow> bool \<Rightarrow> system_block list" where
  "build_system_prompt template pf mode working_dir branch project_note skills subagents context_engine_enabled =
     (let static_body = str_replace (template mode) ''{{working_dir}}'' working_dir;
          skills_entries = (case skills of Some r \<Rightarrow> list_for_prompt r | None \<Rightarrow> []);
          subagents_entries = (case subagents of Some r \<Rightarrow> list_for_prompt r | None \<Rightarrow> []);
          blocks = [(static_body, None)] @
            (if context_engine_enabled then [(index_prompt_block, None)] else []) @
            (if skills_entries \<noteq> [] \<or> subagents_entries \<noteq> []
             then [(combined_section skills_entries subagents_entries, None)] else [])
      in on_last (\<lambda>b. (fst b, Some ephemeral)) blocks @ [(env_section pf working_dir branch project_note, None)])"

subsection \<open>The models are listed once each, in the order in which they came\<close>

definition wf_models :: "model_registry \<Rightarrow> bool" where
  "wf_models r \<longleftrightarrow> distinct (mr_order r) \<and> (\<forall>i. i \<in> set (mr_order r) \<longleftrightarrow> mr_profiles r i \<noteq> None) \<and>
     (\<forall>i p. mr_profiles r i = Some p \<longrightarrow> mp_id p = i)"

lemma wf_merge_one: "wf_models r \<Longrightarrow> wf_models (merge_one m r)"
  by (auto simp: wf_models_def merge_one_def)

lemma wf_merge: "wf_models r \<Longrightarrow> wf_models (merge_models ms r)"
  unfolding merge_models_def by (induction ms arbitrary: r) (auto intro: wf_merge_one)

lemma wf_default_models: "wf_models default_models"
  unfolding default_models_def by (rule wf_merge) (simp add: wf_models_def empty_models_def)

lemma list_models_ids:
  assumes "wf_models r"
  shows "map mp_id (list_models r) = mr_order r"
proof -
  have "map mp_id (List.map_filter (mr_profiles r) ids) = ids"
    if "\<forall>i \<in> set ids. \<exists>p. mr_profiles r i = Some p \<and> mp_id p = i" for ids
    using that by (induction ids) (auto simp: map_filter_simps)
  moreover have "\<forall>i \<in> set (mr_order r). \<exists>p. mr_profiles r i = Some p \<and> mp_id p = i"
    using assms by (auto simp: wf_models_def)
  ultimately show ?thesis by (simp add: list_models_def)
qed

text \<open>A merge keeps the order of what was there and shows the newest profile of every model.\<close>

lemma merge_keeps_order: "prefix (mr_order r) (mr_order (merge_models ms r))"
proof (induction ms arbitrary: r)
  case (Cons m ms)
  have "prefix (mr_order r) (mr_order (merge_one m r))" by (simp add: merge_one_def)
  with Cons.IH [of "merge_one m r"] show ?case by (simp add: merge_models_def prefix_order.trans)
qed (simp add: merge_models_def)

lemma context_window_after_merge:
  "context_window_for i (merge_models (ms @ [m]) r) =
     (if i = mp_id m then mp_context_window m else context_window_for i (merge_models ms r))"
  by (simp add: merge_models_def merge_one_def context_window_for_def)

subsection \<open>Cache breakpoints\<close>

fun breakpoint :: "anthropic_block \<Rightarrow> bool" where
  "breakpoint (AText t cc) = (cc \<noteq> None)"
| "breakpoint (AToolResult i t cc) = (cc \<noteq> None)"
| "breakpoint _ = False"

definition system_breakpoints :: "anthropic_system option \<Rightarrow> nat" where
  "system_breakpoints s = (case s of Some (SystemBlocks segs) \<Rightarrow> length (filter (\<lambda>x. snd x \<noteq> None) segs) | _ \<Rightarrow> 0)"

definition breakpoints :: "anthropic_request \<Rightarrow> nat" where
  "breakpoints r =
     system_breakpoints (ar_system r) +
     (case ar_tools r of Some ts \<Rightarrow> length (filter (\<lambda>t. at_cache_control t \<noteq> None) ts) | None \<Rightarrow> 0) +
     length (filter breakpoint (contents (ar_messages r)))"

text \<open>A history no part of which asks for caching, as the loop builds it.\<close>

definition unmarked_message :: "chat_message \<Rightarrow> bool" where
  "unmarked_message m \<longleftrightarrow>
     (\<forall>bs t cc. cm_content m = Some (MBlocks bs) \<longrightarrow> TextBlock t cc \<in> set bs \<longrightarrow> cc = None)"

lemma on_last_simps: "on_last f [] = []" "on_last f (xs @ [x]) = xs @ [f x]"
  by (simp_all add: on_last_def)

lemma prompt_blocks:
  "\<exists>xs x env. build_system_prompt tmpl pf mode wd branch note sk sa ce = xs @ [(x, Some ephemeral), (env, None)] \<and>
     (\<forall>b \<in> set xs. snd b = None)"
proof -
  have breakpoint: "\<exists>xs x. on_last (\<lambda>b. (fst b, Some ephemeral)) bs = xs @ [(x, Some ephemeral)] \<and> (\<forall>b \<in> set xs. snd b = None)"
    if "bs \<noteq> []" "\<forall>b \<in> set bs. snd b = None" for bs :: "system_block list"
    using that by (cases bs rule: rev_cases) (auto simp: on_last_simps)
  have "\<exists>bs env. build_system_prompt tmpl pf mode wd branch note sk sa ce =
      on_last (\<lambda>b. (fst b, Some ephemeral)) bs @ [(env, None)] \<and> bs \<noteq> [] \<and> (\<forall>b \<in> set bs. snd b = None)"
    unfolding build_system_prompt_def Let_def by (intro exI conjI, rule refl) auto
  then obtain bs env where "build_system_prompt tmpl pf mode wd branch note sk sa ce =
      on_last (\<lambda>b. (fst b, Some ephemeral)) bs @ [(env, None)]" "bs \<noteq> []" "\<forall>b \<in> set bs. snd b = None" by blast
  with breakpoint [of bs] show ?thesis by auto
qed

lemma translate_block_unmarked:
  "translate_block cache b = Some a \<Longrightarrow> (\<And>t cc. b = TextBlock t cc \<Longrightarrow> cc = None) \<Longrightarrow> \<not> breakpoint a"
  by (cases b) (auto simp: translate_block_def keep_cache_def)

lemma user_unmarked:
  assumes "unmarked_message msg" "b \<in> set (an_content (translate_user cache msg))"
  shows "\<not> breakpoint b"
proof (cases "\<exists>bs. cm_content msg = Some (MBlocks bs)")
  case True
  then obtain bs where bs: "cm_content msg = Some (MBlocks bs)" by blast
  with assms(2) obtain a where "a \<in> set bs" "translate_block cache a = Some b"
    by (auto simp: translate_user_def mem_map_filter)
  with assms(1) bs show ?thesis by (intro translate_block_unmarked) (auto simp: unmarked_message_def)
next
  case False
  with assms(2) show ?thesis
    by (cases "cm_content msg"; cases "the (cm_content msg)") (auto simp: translate_user_def)
qed

lemma assistant_unmarked: "b \<in> set (an_content (translate_assistant parse msg)) \<Longrightarrow> \<not> breakpoint b"
  by (auto simp: translate_assistant_def translate_call_def split: option.splits if_splits)

lemma translated_unmarked:
  "list_all unmarked_message msgs \<Longrightarrow> \<forall>b \<in> set pending. \<not> breakpoint b \<Longrightarrow>
   \<forall>b \<in> set (contents (translate_messages parse cache pending msgs)). \<not> breakpoint b"
proof (induction msgs arbitrary: pending)
  case Nil
  then show ?case by (simp add: flush_results_def)
next
  case (Cons msg msgs)
  then have rest: "\<not> breakpoint b" if "b \<in> set (contents (translate_messages parse cache p msgs))" "\<forall>b \<in> set p. \<not> breakpoint b" for p b
    using that by simp
  show ?case
  proof
    fix b assume b: "b \<in> set (contents (translate_messages parse cache pending (msg # msgs)))"
    have results: "\<forall>b \<in> set (pending @ [translate_result msg]). \<not> breakpoint b"
      using Cons.prems(2) by (auto simp: translate_result_def)
    consider (system) "cm_role msg = ''system''" | (tool) "cm_role msg \<noteq> ''system''" "cm_role msg = ''tool''"
      | (other) "cm_role msg \<noteq> ''system''" "cm_role msg \<noteq> ''tool''" by blast
    then show "\<not> breakpoint b"
    proof cases
      case system
      with b rest [of b pending] Cons.prems(2) show ?thesis by simp
    next
      case tool
      with b rest [OF _ results] show ?thesis by simp
    next
      case other
      with b consider "b \<in> set pending" | "b \<in> set (an_content (translate_assistant parse msg))"
        | "b \<in> set (an_content (translate_user cache msg))" | "b \<in> set (contents (translate_messages parse cache [] msgs))"
        by (auto simp: flush_results_def split: if_splits)
      then show ?thesis
        using Cons.prems assistant_unmarked user_unmarked rest [of b "[]"] by cases auto
    qed
  qed
qed

lemma mark_last_breakpoints:
  assumes "\<forall>b \<in> set (contents msgs). \<not> breakpoint b"
  shows "length (filter breakpoint (contents (mark_last_block msgs))) \<le> 1"
proof -
  have none: "filter breakpoint (contents msgs) = []" using assms by (simp add: filter_empty_conv)
  have last: "length (filter breakpoint (on_last (set_block_cache_control cc) bs)) \<le> 1" if "\<forall>b \<in> set bs. \<not> breakpoint b" for cc bs
    using that by (cases bs rule: rev_cases) (simp_all add: on_last_simps filter_empty_conv)
  from mark_last_cases [of msgs] show ?thesis
  proof (elim disjE exE conjE)
    fix ms m assume m: "msgs = ms @ [m]"
      "mark_last_block msgs = ms @ [m\<lparr>an_content := on_last (set_block_cache_control (Some ephemeral)) (an_content m)\<rparr>]"
    with assms last [of "an_content m"] show ?thesis by (auto simp: filter_empty_conv)
  qed simp
qed

lemma unmarked_segments:
  assumes "list_all unmarked_message msgs"
  shows "\<forall>x \<in> set (system_segments cache msgs). snd x = None"
proof
  fix x assume "x \<in> set (system_segments cache msgs)"
  then obtain m where m: "m \<in> set msgs" "cm_role m = ''system''" "x \<in> set (case cm_content m of
      Some (MText s) \<Rightarrow> [(s, None)]
    | Some (MBlocks bs) \<Rightarrow> List.map_filter (\<lambda>b. case b of
        TextBlock t cc \<Rightarrow> Some (t, keep_cache cache cc) | ImageUrl _ _ \<Rightarrow> None) bs
    | None \<Rightarrow> [])"
    by (auto simp: system_segments_def split: if_splits)
  with assms have u: "unmarked_message m" by (simp add: list_all_iff)
  show "snd x = None"
  proof (cases "\<exists>bs. cm_content m = Some (MBlocks bs)")
    case True
    then obtain bs where bs: "cm_content m = Some (MBlocks bs)" by blast
    with m(3) obtain b where "b \<in> set bs" "(case b of TextBlock t cc \<Rightarrow> Some (t, keep_cache cache cc) | ImageUrl _ _ \<Rightarrow> None) = Some x"
      by (auto simp: mem_map_filter)
    with u bs show ?thesis by (cases b) (auto simp: unmarked_message_def keep_cache_def)
  next
    case False
    with m(3) show ?thesis by (cases "cm_content m"; cases "the (cm_content m)") auto
  qed
qed

text \<open>
  C30: whatever is configured and said, a request to Anthropic carries at most three of the four cache breakpoints it
  allows: one at the end of the cacheable part of the system prompt, one on the last tool, one on the last block.
\<close>

theorem request_within_cache_limit:
  assumes "list_all unmarked_message history"
  shows "breakpoints (build_anthropic_request parse config
      (system_messages (Some (build_system_prompt tmpl pf mode wd branch note sk sa ce)) @ history) tools) \<le> 3"
proof -
  obtain xs x env where p: "build_system_prompt tmpl pf mode wd branch note sk sa ce = xs @ [(x, Some ephemeral), (env, None)]"
    "\<forall>b \<in> set xs. snd b = None" using prompt_blocks by blast
  define msg where "msg = \<lparr>cm_role = ''system'', cm_content = Some (MBlocks (map (\<lambda>(t, cc). TextBlock t cc)
      (xs @ [(x, Some ephemeral), (env, None)]))), cm_tool_calls = None, cm_tool_call_id = None, cm_name = None,
      cm_thinking = None\<rparr>"
  have prompt: "system_messages (Some (build_system_prompt tmpl pf mode wd branch note sk sa ce)) = [msg]"
    unfolding p(1) msg_def system_messages_def by (cases xs; cases "tl xs") (auto split: list.splits option.splits)
  let ?cache = "\<not> cl_disable_cache_control config"
  let ?r = "build_anthropic_request parse config (msg # history) tools"
  let ?merged = "merge_adjacent_roles (translate_messages parse ?cache [] history)"
  have "\<forall>b \<in> set (contents ?merged). \<not> breakpoint b"
    using translated_unmarked [OF assms, of "[]"] by (simp add: merge_adjacent_right merge_right_contents)
  then have "length (filter breakpoint (contents (if ?cache then mark_last_block ?merged else ?merged))) \<le> 1"
    using mark_last_breakpoints by (auto simp: filter_empty_conv)
  moreover have "ar_messages ?r = (if ?cache then mark_last_block ?merged else ?merged)"
    by (simp add: build_anthropic_request_def Let_def msg_def split: prod.splits)
  moreover have "(case ar_tools ?r of Some ts \<Rightarrow> length (filter (\<lambda>t. at_cache_control t \<noteq> None) ts) | None \<Rightarrow> 0) \<le> 1"
    by (cases tools rule: rev_cases)
      (simp_all add: build_anthropic_request_def Let_def on_last_simps translate_tool_def filter_empty_conv o_def split: prod.splits)
  moreover have "system_breakpoints (ar_system ?r) \<le> 1"
  proof -
    have rest: "\<forall>x \<in> set (system_segments ?cache history). snd x = None"
      using unmarked_segments [OF assms] .
    have "system_segments ?cache (msg # history) =
        map (\<lambda>(t, cc). (t, keep_cache ?cache cc)) (xs @ [(x, Some ephemeral), (env, None)]) @ system_segments ?cache history"
      by (simp add: system_segments_def msg_def map_filter_def comp_def case_prod_beta)
    moreover have "filter (\<lambda>x. snd x \<noteq> None) (map (\<lambda>(t, cc). (t, keep_cache ?cache cc)) xs) = []"
      using p(2) by (auto simp: filter_empty_conv keep_cache_def)
    moreover have "filter (\<lambda>x. snd x \<noteq> None) (system_segments ?cache history) = []"
      using rest by (simp add: filter_empty_conv)
    ultimately have "length (filter (\<lambda>x. snd x \<noteq> None) (system_segments ?cache (msg # history))) \<le> 1"
      by (simp add: keep_cache_def)
    moreover have "ar_system ?r = extract_system ?cache (msg # history)"
      by (simp add: build_anthropic_request_def Let_def split: prod.splits)
    ultimately show ?thesis by (simp add: system_breakpoints_def extract_system_def Let_def)
  qed
  ultimately show ?thesis unfolding prompt breakpoints_def by simp
qed

theorem request_within_cache_limit_witness:
  "breakpoints (build_anthropic_request (\<lambda>_. Inl []) \<lparr>cl_provider = Anthropic, cl_base_url = [], cl_model = ''m'', cl_api_key = [],
       cl_temperature = None, cl_max_completion_tokens = None, cl_extra_headers = [], cl_thinking = None,
       cl_disable_cache_control = False, cl_policy = default_llm_policy\<rparr>
     (system_messages (Some (build_system_prompt (\<lambda>_. ''In {{working_dir}}'') \<lparr>pf_date = ''d'', pf_os = ''linux'', pf_arch = ''x''\<rparr>
        CodingMode ''/p'' None None None None True)) @ [user_msg ''hi'', system_msg ''hint'']) []) \<le> 3"
  by (rule request_within_cache_limit) (simp add: unmarked_message_def user_msg_def system_msg_def)

end
