(* ===== verification/ChatJson.thy ===== *)
theory ChatJson
  imports ChatTypes
begin

section \<open>The wire form of messages (\<open>llm/types.rs\<close>)\<close>

text \<open>
  What \<open>serde\<close> derives for \<open>ChatMessage\<close> from its attributes: absent options are left out, the content is a string
  or a list of blocks tagged by their type, and members come in key order. Reading ignores members it does not know
  and takes a missing member or \<open>null\<close> for an absent option. (\<open>serde\<close> also reads a struct from an array of its
  fields, a form that is never written; it is not read here.)
\<close>

definition opt_member :: "rstr \<Rightarrow> json option \<Rightarrow> (rstr \<times> json) list" where
  "opt_member k v = (case v of Some j \<Rightarrow> [(k, j)] | None \<Rightarrow> [])"

definition opt_field :: "rstr \<Rightarrow> (json \<Rightarrow> 'a option) \<Rightarrow> json \<Rightarrow> 'a option option" where
  "opt_field k dec j =
     (case jget k j of
        None \<Rightarrow> Some None
      | Some v \<Rightarrow> if v = JNull then Some None else map_option Some (dec v))"

definition cache_control_to_json :: "cache_control \<Rightarrow> json" where
  "cache_control_to_json c =
     JObj (opt_member ''ttl'' (map_option JStr (cc_ttl c)) @ [(''type'', JStr (cc_type c))])"

definition cache_control_of_json :: "json \<Rightarrow> cache_control option" where
  "cache_control_of_json j =
     (case (get_str ''type'' j, opt_field ''ttl'' as_str j) of
        (Some t, Some ttl) \<Rightarrow> Some \<lparr>cc_type = t, cc_ttl = ttl\<rparr>
      | _ \<Rightarrow> None)"

fun block_to_json :: "content_block \<Rightarrow> json" where
  "block_to_json (TextBlock t cc) =
     JObj (opt_member ''cache_control'' (map_option cache_control_to_json cc) @ [(''text'', JStr t), (''type'', JStr ''text'')])"
| "block_to_json (ImageUrl u d) =
     JObj [(''image_url'', JObj (opt_member ''detail'' (map_option JStr d) @ [(''url'', JStr u)])), (''type'', JStr ''image_url'')]"

definition image_url_of_json :: "json \<Rightarrow> (rstr \<times> rstr option) option" where
  "image_url_of_json j =
     (case (get_str ''url'' j, opt_field ''detail'' as_str j) of (Some u, Some d) \<Rightarrow> Some (u, d) | _ \<Rightarrow> None)"

definition block_of_json :: "json \<Rightarrow> content_block option" where
  "block_of_json j =
     (if get_str ''type'' j = Some ''text'' then
        (case (get_str ''text'' j, opt_field ''cache_control'' cache_control_of_json j) of
           (Some t, Some cc) \<Rightarrow> Some (TextBlock t cc)
         | _ \<Rightarrow> None)
      else if get_str ''type'' j = Some ''image_url'' then
        map_option (\<lambda>(u, d). ImageUrl u d) (Option.bind (jget ''image_url'' j) image_url_of_json)
      else None)"

fun content_to_json :: "message_content \<Rightarrow> json" where
  "content_to_json (MText s) = JStr s"
| "content_to_json (MBlocks bs) = JArr (map block_to_json bs)"

fun content_of_json :: "json \<Rightarrow> message_content option" where
  "content_of_json (JStr s) = Some (MText s)"
| "content_of_json (JArr js) = map_option MBlocks (those (map block_of_json js))"
| "content_of_json _ = None"

definition tool_call_to_json :: "tool_call \<Rightarrow> json" where
  "tool_call_to_json tc =
     JObj [(''function'', JObj [(''arguments'', JStr (fc_arguments (tc_function tc))), (''name'', JStr (fc_name (tc_function tc)))]),
           (''id'', JStr (tc_id tc)), (''type'', JStr (tc_type tc))]"

definition function_call_of_json :: "json \<Rightarrow> function_call option" where
  "function_call_of_json j =
     (case (get_str ''name'' j, get_str ''arguments'' j) of
        (Some n, Some a) \<Rightarrow> Some \<lparr>fc_name = n, fc_arguments = a\<rparr>
      | _ \<Rightarrow> None)"

definition tool_call_of_json :: "json \<Rightarrow> tool_call option" where
  "tool_call_of_json j =
     (case (get_str ''id'' j, get_str ''type'' j, Option.bind (jget ''function'' j) function_call_of_json) of
        (Some i, Some t, Some f) \<Rightarrow> Some \<lparr>tc_id = i, tc_type = t, tc_function = f\<rparr>
      | _ \<Rightarrow> None)"

definition tool_calls_of_json :: "json \<Rightarrow> tool_call list option" where
  "tool_calls_of_json j = Option.bind (as_array j) (\<lambda>js. those (map tool_call_of_json js))"

definition chat_to_json :: "chat_message \<Rightarrow> json" where
  "chat_to_json m =
     JObj (opt_member ''content'' (map_option content_to_json (cm_content m)) @
           opt_member ''name'' (map_option JStr (cm_name m)) @
           [(''role'', JStr (cm_role m))] @
           opt_member ''thinking'' (map_option JStr (cm_thinking m)) @
           opt_member ''tool_call_id'' (map_option JStr (cm_tool_call_id m)) @
           opt_member ''tool_calls'' (map_option (\<lambda>tcs. JArr (map tool_call_to_json tcs)) (cm_tool_calls m)))"

definition chat_of_json :: "json \<Rightarrow> chat_message option" where
  "chat_of_json j =
     (case (get_str ''role'' j, opt_field ''content'' content_of_json j, opt_field ''tool_calls'' tool_calls_of_json j,
            opt_field ''tool_call_id'' as_str j, opt_field ''name'' as_str j, opt_field ''thinking'' as_str j) of
        (Some role, Some content, Some calls, Some call_id, Some name, Some thinking) \<Rightarrow>
          Some \<lparr>cm_role = role, cm_content = content, cm_tool_calls = calls, cm_tool_call_id = call_id, cm_name = name,
                cm_thinking = thinking\<rparr>
      | _ \<Rightarrow> None)"

subsection \<open>Reading back\<close>

lemma those_map_inverse: "(\<And>x. dec (enc x) = Some x) \<Longrightarrow> those (map dec (map enc xs)) = Some xs"
  by (induction xs) simp_all

lemma cache_control_read_back [simp]: "cache_control_of_json (cache_control_to_json c) = Some c"
  by (cases "cc_ttl c") (simp_all add: cache_control_of_json_def cache_control_to_json_def get_str_def opt_field_def opt_member_def)

lemma to_json_not_null [simp]: "cache_control_to_json c \<noteq> JNull" "content_to_json ct \<noteq> JNull"
  by (simp_all add: cache_control_to_json_def) (cases ct; simp)

lemma block_read_back [simp]: "block_of_json (block_to_json b) = Some b"
proof (cases b)
  case (TextBlock t cc)
  then show ?thesis by (cases cc) (simp_all add: block_of_json_def get_str_def opt_field_def opt_member_def)
next
  case (ImageUrl u d)
  then show ?thesis
    by (cases d) (simp_all add: block_of_json_def image_url_of_json_def get_str_def opt_field_def opt_member_def)
qed

lemma content_read_back [simp]: "content_of_json (content_to_json ct) = Some ct"
  by (cases ct) (simp_all del: map_map add: those_map_inverse)

lemma tool_call_read_back [simp]: "tool_call_of_json (tool_call_to_json tc) = Some tc"
  by (simp add: tool_call_of_json_def tool_call_to_json_def function_call_of_json_def get_str_def)

lemma tool_calls_read_back [simp]: "tool_calls_of_json (JArr (map tool_call_to_json tcs)) = Some tcs"
  by (simp del: map_map add: tool_calls_of_json_def those_map_inverse)

lemma opt_field_mem:
  "opt_field k dec (JObj kvs) =
     (case map_of kvs k of None \<Rightarrow> Some None | Some v \<Rightarrow> if v = JNull then Some None else map_option Some (dec v))"
  by (simp add: opt_field_def)

lemma map_of_opt_member:
  "map_of (opt_member k v @ kvs) k' = (if k' = k \<and> v \<noteq> None then v else map_of kvs k')"
  "map_of (opt_member k v) k' = (if k' = k then v else None)"
  by (cases v; auto simp: opt_member_def)+

lemma chat_members:
  "get_str ''role'' (chat_to_json m) = Some (cm_role m)"
  "jget ''content'' (chat_to_json m) = map_option content_to_json (cm_content m)"
  "jget ''name'' (chat_to_json m) = map_option JStr (cm_name m)"
  "jget ''thinking'' (chat_to_json m) = map_option JStr (cm_thinking m)"
  "jget ''tool_call_id'' (chat_to_json m) = map_option JStr (cm_tool_call_id m)"
  "jget ''tool_calls'' (chat_to_json m) = map_option (\<lambda>tcs. JArr (map tool_call_to_json tcs)) (cm_tool_calls m)"
  by (simp_all del: map_of_append add: chat_to_json_def get_str_def map_of_opt_member)

lemma chat_read_back [simp]: "chat_of_json (chat_to_json m) = Some m"
  by (simp add: chat_of_json_def chat_members opt_field_def split: option.splits)

end
