(* ===== verification/MessageStore.thy ===== *)
theory MessageStore
  imports ChatJson IgnoreFilter AnthropicApi AgentLoop
begin

section \<open>The local database (\<open>agent_bridge/db.rs\<close>)\<close>

text \<open>
  Sessions, messages, preferences and Auto runs of the desktop app. A table is the list of its rows in the order in
  which they were inserted; message rows carry the ids SQLite hands out, which only grow. The JSON columns hold the
  values themselves, their text being \<open>serde_json\<close>'s; the clock is an argument. Statements of SQLite are taken to
  succeed, except the insertion of a session under an id that is taken.
\<close>

subsection \<open>Tables\<close>

record message_row =
  mr_id :: nat
  mr_session :: rstr
  mr_project :: rstr
  mr_role :: rstr
  mr_type :: rstr
  mr_llm :: json
  mr_metadata :: json
  mr_created :: rstr
  mr_rewound :: "rstr option"
  mr_turn :: "u32 option"

record session_row =
  sr_id :: rstr
  sr_folder :: rstr
  sr_mode :: rstr
  sr_title :: "rstr option"
  sr_parent :: "rstr option"
  sr_created :: rstr
  sr_updated :: rstr
  sr_status :: rstr
  sr_provider :: "rstr option"
  sr_model :: "rstr option"
  sr_deleted :: "rstr option"

record run_row =
  rr_run :: auto_run
  rr_created :: rstr
  rr_updated :: rstr

record agent_db =
  db_sessions :: "session_row list"
  db_messages :: "message_row list"
  db_next :: nat
  db_skill_prefs :: "(rstr \<times> bool) list"
  db_subagent_prefs :: "(rstr \<times> bool) list"
  db_runs :: "run_row list"

definition new_db :: agent_db where
  "new_db = \<lparr>db_sessions = [], db_messages = [], db_next = 1, db_skill_prefs = [], db_subagent_prefs = [], db_runs = []\<rparr>"

subsection \<open>Sessions\<close>

text \<open>\<open>UPDATE sessions SET \<dots>, updated_at = now WHERE id = ?\<close>\<close>

definition update_session :: "rstr \<Rightarrow> rstr \<Rightarrow> (session_row \<Rightarrow> session_row) \<Rightarrow> agent_db \<Rightarrow> agent_db" where
  "update_session now i f db =
     db\<lparr>db_sessions := map (\<lambda>r. if sr_id r = i then (f r)\<lparr>sr_updated := now\<rparr> else r) (db_sessions db)\<rparr>"

definition create_session ::
  "rstr \<Rightarrow> rstr \<Rightarrow> rstr \<Rightarrow> rstr \<Rightarrow> rstr option \<Rightarrow> rstr option \<Rightarrow> rstr option \<Rightarrow> rstr option \<Rightarrow> agent_db \<Rightarrow> agent_db option" where
  "create_session now i folder mode title parent provider_id model db =
     (if list_ex (\<lambda>r. sr_id r = i) (db_sessions db) then None
      else Some (db\<lparr>db_sessions := db_sessions db @
        [\<lparr>sr_id = i, sr_folder = folder, sr_mode = mode, sr_title = title, sr_parent = parent, sr_created = now,
          sr_updated = now, sr_status = ''idle'', sr_provider = provider_id, sr_model = model, sr_deleted = None\<rparr>]\<rparr>))"

definition get_session :: "rstr \<Rightarrow> agent_db \<Rightarrow> session_row option" where
  "get_session i db = find (\<lambda>r. sr_id r = i) (db_sessions db)"

text \<open>\<open>ORDER BY updated_at DESC\<close>; SQLite leaves the order of ties open, here the later row comes first.\<close>

definition list_session_rows :: "agent_db \<Rightarrow> session_row list" where
  "list_session_rows db = rev (sort_key sr_updated (filter (\<lambda>r. sr_deleted r = None) (db_sessions db)))"

definition db_set_session_status :: "rstr \<Rightarrow> rstr \<Rightarrow> rstr \<Rightarrow> agent_db \<Rightarrow> agent_db" where
  "db_set_session_status now i status = update_session now i (\<lambda>r. r\<lparr>sr_status := status\<rparr>)"

definition delete_session :: "rstr \<Rightarrow> rstr \<Rightarrow> agent_db \<Rightarrow> agent_db" where
  "delete_session now i = update_session now i (\<lambda>r. r\<lparr>sr_deleted := Some now\<rparr>)"

definition set_session_title :: "rstr \<Rightarrow> rstr \<Rightarrow> rstr \<Rightarrow> agent_db \<Rightarrow> agent_db" where
  "set_session_title now i title = update_session now i (\<lambda>r. r\<lparr>sr_title := Some title\<rparr>)"

definition set_session_model :: "rstr \<Rightarrow> rstr \<Rightarrow> rstr \<Rightarrow> rstr \<Rightarrow> agent_db \<Rightarrow> agent_db" where
  "set_session_model now i provider_id model =
     update_session now i (\<lambda>r. r\<lparr>sr_provider := Some provider_id, sr_model := Some model\<rparr>)"

definition set_session_mode :: "rstr \<Rightarrow> rstr \<Rightarrow> rstr \<Rightarrow> agent_db \<Rightarrow> agent_db" where
  "set_session_mode now i mode = update_session now i (\<lambda>r. r\<lparr>sr_mode := mode\<rparr>)"

definition touch_session :: "rstr \<Rightarrow> rstr \<Rightarrow> agent_db \<Rightarrow> agent_db" where
  "touch_session now i = update_session now i (\<lambda>r. r)"

definition active_session_for_folder :: "rstr \<Rightarrow> agent_db \<Rightarrow> rstr option" where
  "active_session_for_folder folder db =
     map_option sr_id (find (\<lambda>r. sr_folder r = folder \<and> sr_status r = ''active'') (list_session_rows db))"

subsection \<open>Preferences\<close>

definition disabled_names :: "(rstr \<times> bool) list \<Rightarrow> rstr list" where
  "disabled_names prefs = map fst (filter (\<lambda>p. \<not> snd p) prefs)"

definition load_disabled_skills :: "agent_db \<Rightarrow> rstr list" where
  "load_disabled_skills db = disabled_names (db_skill_prefs db)"

definition set_skill_enabled :: "rstr \<Rightarrow> bool \<Rightarrow> agent_db \<Rightarrow> agent_db" where
  "set_skill_enabled name enabled db = db\<lparr>db_skill_prefs := upsert name enabled (\<lambda>_. enabled) (db_skill_prefs db)\<rparr>"

definition load_disabled_subagents :: "agent_db \<Rightarrow> rstr list" where
  "load_disabled_subagents db = disabled_names (db_subagent_prefs db)"

definition set_subagent_enabled :: "rstr \<Rightarrow> bool \<Rightarrow> agent_db \<Rightarrow> agent_db" where
  "set_subagent_enabled name enabled db =
     db\<lparr>db_subagent_prefs := upsert name enabled (\<lambda>_. enabled) (db_subagent_prefs db)\<rparr>"

subsection \<open>Messages\<close>

definition insert_message ::
  "rstr \<Rightarrow> rstr \<Rightarrow> rstr \<Rightarrow> rstr \<Rightarrow> rstr \<Rightarrow> json \<Rightarrow> json \<Rightarrow> u32 option \<Rightarrow> agent_db \<Rightarrow> nat \<times> agent_db" where
  "insert_message now sess project role mtype llm metadata turn db =
     (db_next db, db\<lparr>db_next := Suc (db_next db), db_messages := db_messages db @
        [\<lparr>mr_id = db_next db, mr_session = sess, mr_project = project, mr_role = role, mr_type = mtype, mr_llm = llm,
          mr_metadata = metadata, mr_created = now, mr_rewound = None, mr_turn = turn\<rparr>]\<rparr>)"

definition active_rows :: "rstr \<Rightarrow> agent_db \<Rightarrow> message_row list" where
  "active_rows sess db = filter (\<lambda>r. mr_session r = sess \<and> mr_rewound r = None) (db_messages db)"

definition load_session_messages :: "rstr \<Rightarrow> agent_db \<Rightarrow> message_row list" where
  "load_session_messages sess db = active_rows sess db"

text \<open>\<open>ORDER BY id DESC LIMIT n\<close>, and then back in order\<close>

definition last_rows :: "nat \<Rightarrow> 'a list \<Rightarrow> 'a list" where
  "last_rows n rows = drop (length rows - n) rows"

text \<open>\<open>MAX(id)\<close>\<close>

definition max_id :: "message_row list \<Rightarrow> nat option" where
  "max_id rows = (if rows = [] then None else Some (mr_id (last rows)))"

definition reset_floor :: "rstr \<Rightarrow> agent_db \<Rightarrow> nat" where
  "reset_floor sess db =
     (case max_id (filter (\<lambda>r. mr_type r = ''context_reset'') (active_rows sess db)) of Some i \<Rightarrow> i | None \<Rightarrow> 0)"

definition last_compaction_id :: "rstr \<Rightarrow> agent_db \<Rightarrow> nat option" where
  "last_compaction_id sess db =
     max_id (filter (\<lambda>r. mr_type r = ''compaction'' \<and> mr_id r > reset_floor sess db) (active_rows sess db))"

text \<open>\<open>COALESCE(json_extract(metadata, '$.kept_before_count'), 0)\<close> read as an \<open>i64\<close>, 0 when it is none\<close>

definition sql_kept_before :: "json \<Rightarrow> int" where
  "sql_kept_before meta =
     (case jget ''kept_before_count'' meta of
        Some (JInt n) \<Rightarrow> if - (2 ^ 63) \<le> n \<and> n < 2 ^ 63 then n else 0
      | Some (JBool b) \<Rightarrow> (if b then 1 else 0)
      | _ \<Rightarrow> 0)"

definition kept_before_row :: "nat \<Rightarrow> agent_db \<Rightarrow> int" where
  "kept_before_row i db =
     (case find (\<lambda>r. mr_id r = i) (db_messages db) of Some r \<Rightarrow> sql_kept_before (mr_metadata r) | None \<Rightarrow> 0)"

definition context_start :: "rstr \<Rightarrow> nat \<Rightarrow> agent_db \<Rightarrow> nat" where
  "context_start sess c db =
     (let kept = kept_before_row c db
      in if kept > 0 then
           (case last_rows (nat kept) (filter (\<lambda>r. mr_id r < c \<and> mr_id r > reset_floor sess db \<and>
                   mr_type r \<notin> {''compaction'', ''context_usage'', ''context_reset''}) (active_rows sess db)) of
              [] \<Rightarrow> c
            | r # _ \<Rightarrow> mr_id r)
         else c)"

definition context_row :: "message_row \<Rightarrow> bool" where
  "context_row r \<longleftrightarrow> mr_type r \<notin> {''context_usage'', ''context_reset''}"

definition orphan_row :: "message_row \<Rightarrow> bool" where
  "orphan_row r \<longleftrightarrow> mr_role r = ''tool'' \<or> mr_role r = ''assistant'' \<and> mr_type r = ''tool_call''"

definition load_session_for_context :: "rstr \<Rightarrow> nat \<Rightarrow> agent_db \<Rightarrow> message_row list" where
  "load_session_for_context sess fallback_limit db =
     dropWhile orphan_row
       (case last_compaction_id sess db of
          Some c \<Rightarrow> filter (\<lambda>r. mr_id r \<ge> context_start sess c db \<and> context_row r) (active_rows sess db)
        | None \<Rightarrow> last_rows fallback_limit (filter (\<lambda>r. mr_id r > reset_floor sess db \<and> context_row r) (active_rows sess db)))"

definition get_session_init :: "rstr \<Rightarrow> agent_db \<Rightarrow> message_row option" where
  "get_session_init sess db =
     find (\<lambda>r. mr_session r = sess \<and> mr_type r = ''session_init'') (rev (db_messages db))"

definition get_message_by_id :: "nat \<Rightarrow> agent_db \<Rightarrow> message_row option" where
  "get_message_by_id i db = find (\<lambda>r. mr_id r = i) (db_messages db)"

definition update_messages :: "(message_row \<Rightarrow> bool) \<Rightarrow> (message_row \<Rightarrow> message_row) \<Rightarrow> agent_db \<Rightarrow> agent_db" where
  "update_messages sel f db = db\<lparr>db_messages := map (\<lambda>r. if sel r then f r else r) (db_messages db)\<rparr>"

definition rewind_messages :: "rstr \<Rightarrow> rstr \<Rightarrow> nat \<Rightarrow> agent_db \<Rightarrow> agent_db" where
  "rewind_messages now sess from_id =
     update_messages (\<lambda>r. mr_session r = sess \<and> mr_id r \<ge> from_id \<and> mr_rewound r = None) (\<lambda>r. r\<lparr>mr_rewound := Some now\<rparr>)"

definition update_message_llm_content :: "nat \<Rightarrow> json \<Rightarrow> agent_db \<Rightarrow> agent_db" where
  "update_message_llm_content row_id llm = update_messages (\<lambda>r. mr_id r = row_id) (\<lambda>r. r\<lparr>mr_llm := llm\<rparr>)"

text \<open>A row without a turn number is not touched: \<open>NULL >= n\<close> does not hold.\<close>

definition rewind_from_turn :: "rstr \<Rightarrow> rstr \<Rightarrow> u32 \<Rightarrow> agent_db \<Rightarrow> agent_db" where
  "rewind_from_turn now sess from_turn =
     update_messages (\<lambda>r. mr_session r = sess \<and> (case mr_turn r of Some t \<Rightarrow> t \<ge> from_turn | None \<Rightarrow> False) \<and>
         mr_rewound r = None)
       (\<lambda>r. r\<lparr>mr_rewound := Some now\<rparr>)"

subsection \<open>Context usage, resets and compactions\<close>

definition delete_messages :: "(message_row \<Rightarrow> bool) \<Rightarrow> agent_db \<Rightarrow> agent_db" where
  "delete_messages sel db = db\<lparr>db_messages := filter (\<lambda>r. \<not> sel r) (db_messages db)\<rparr>"

definition delete_context_usage :: "rstr \<Rightarrow> agent_db \<Rightarrow> agent_db" where
  "delete_context_usage sess = delete_messages (\<lambda>r. mr_session r = sess \<and> mr_type r = ''context_usage'')"

definition upsert_context_usage :: "rstr \<Rightarrow> rstr \<Rightarrow> rstr \<Rightarrow> u32 \<Rightarrow> u32 \<Rightarrow> u32 \<Rightarrow> agent_db \<Rightarrow> agent_db" where
  "upsert_context_usage now sess project total_used limit count db =
     snd (insert_message now sess project ''system'' ''context_usage'' (JObj [])
       (JObj [(''context_limit'', JInt (uint limit)), (''message_count'', JInt (uint count)), (''total_tokens'', JInt (uint total_used))])
       None (delete_context_usage sess db))"

definition u32_of :: "rstr \<Rightarrow> json \<Rightarrow> u32" where
  "u32_of k j = (case get_u64 k j of Some n \<Rightarrow> word_of_nat n | None \<Rightarrow> 0)"

definition get_context_usage :: "rstr \<Rightarrow> agent_db \<Rightarrow> (u32 \<times> u32 \<times> u32) option" where
  "get_context_usage sess db =
     map_option (\<lambda>r. (u32_of ''total_tokens'' (mr_metadata r), u32_of ''context_limit'' (mr_metadata r),
         u32_of ''message_count'' (mr_metadata r)))
       (find (\<lambda>r. mr_session r = sess \<and> mr_type r = ''context_usage'') (db_messages db))"

definition insert_context_reset :: "rstr \<Rightarrow> rstr \<Rightarrow> rstr \<Rightarrow> agent_db \<Rightarrow> agent_db" where
  "insert_context_reset now sess project db =
     delete_context_usage sess (snd (insert_message now sess project ''system'' ''context_reset'' (JObj []) (JObj []) None db))"

definition insert_compaction :: "rstr \<Rightarrow> rstr \<Rightarrow> rstr \<Rightarrow> rstr \<Rightarrow> u32 \<Rightarrow> agent_db \<Rightarrow> nat \<times> agent_db" where
  "insert_compaction now sess project summary kept_before_count db =
     insert_message now sess project ''system'' ''compaction''
       (JObj [(''content'', JStr summary), (''role'', JStr ''system'')])
       (JObj [(''kept_before_count'', JInt (uint kept_before_count)), (''version'', JInt 1)]) None db"

subsection \<open>Auto runs\<close>

definition insert_auto_run :: "rstr \<Rightarrow> auto_run \<Rightarrow> agent_db \<Rightarrow> agent_db option" where
  "insert_auto_run now run db =
     (if list_ex (\<lambda>r. ar_id (rr_run r) = ar_id run) (db_runs db) then None
      else Some (db\<lparr>db_runs := db_runs db @ [\<lparr>rr_run = run, rr_created = now, rr_updated = now\<rparr>]\<rparr>))"

text \<open>Everything but the session id is overwritten.\<close>

definition update_auto_run :: "rstr \<Rightarrow> auto_run \<Rightarrow> agent_db \<Rightarrow> agent_db" where
  "update_auto_run now run db =
     db\<lparr>db_runs := map (\<lambda>r. if ar_id (rr_run r) = ar_id run
         then r\<lparr>rr_run := run\<lparr>ar_session_id := ar_session_id (rr_run r)\<rparr>, rr_updated := now\<rparr> else r) (db_runs db)\<rparr>"

definition get_auto_run :: "rstr \<Rightarrow> agent_db \<Rightarrow> auto_run option" where
  "get_auto_run i db = map_option rr_run (find (\<lambda>r. ar_id (rr_run r) = i) (db_runs db))"

definition mark_zombie_auto_runs_failed :: "rstr \<Rightarrow> agent_db \<Rightarrow> agent_db" where
  "mark_zombie_auto_runs_failed now db =
     db\<lparr>db_runs := map (\<lambda>r. if ar_status (rr_run r) \<in> {StPlanning, StRunning}
         then r\<lparr>rr_run := (rr_run r)\<lparr>ar_status := StFailed\<rparr>, rr_updated := now\<rparr> else r) (db_runs db)\<rparr>"

definition has_run_id :: "rstr \<Rightarrow> message_row \<Rightarrow> bool" where
  "has_run_id i r \<longleftrightarrow> jget ''auto_run_id'' (mr_metadata r) = Some (JStr i) \<and> mr_rewound r = None"

definition find_auto_assistant_row_id :: "rstr \<Rightarrow> agent_db \<Rightarrow> nat option" where
  "find_auto_assistant_row_id i db =
     map_option mr_id (find (\<lambda>r. mr_role r = ''assistant'' \<and> has_run_id i r) (db_messages db))"

definition find_auto_user_prompt :: "rstr \<Rightarrow> agent_db \<Rightarrow> rstr option" where
  "find_auto_user_prompt i db =
     Option.bind (find (\<lambda>r. mr_role r = ''user'' \<and> has_run_id i r) (db_messages db)) (\<lambda>r. get_str ''content'' (mr_llm r))"

definition list_auto_runs_for_session :: "rstr \<Rightarrow> agent_db \<Rightarrow> auto_run list" where
  "list_auto_runs_for_session sess db =
     map rr_run (rev (sort_key rr_updated (filter (\<lambda>r. ar_session_id (rr_run r) = sess) (db_runs db))))"

subsection \<open>Names of roles and types\<close>

fun role_to_str :: "message_role \<Rightarrow> rstr" where
  "role_to_str RUser = ''user''"
| "role_to_str RAssistant = ''assistant''"
| "role_to_str RTool = ''tool''"
| "role_to_str RSystem = ''system''"

fun type_to_str :: "message_type \<Rightarrow> rstr" where
  "type_to_str TText = ''text''"
| "type_to_str TSessionInit = ''session_init''"
| "type_to_str TCompaction = ''compaction''"
| "type_to_str TToolCall = ''tool_call''"
| "type_to_str TToolResult = ''tool_result''"
| "type_to_str TCompletionSummary = ''completion_summary''"

lemma names_read_back [simp]: "str_to_role (role_to_str r) = r" "str_to_type (type_to_str t) = t"
  by (cases r; simp add: str_to_role_def) (cases t; simp add: str_to_type_def)

subsection \<open>Images on disk\<close>

text \<open>
  The bytes of inline images go to files of the session; a message keeps a reference. Base64 is a library's; file
  names are drawn from a stream of unique ids; a write may fail.
\<close>

record image_host =
  im_decode :: "rstr \<Rightarrow> rstr option"
  im_encode :: "rstr \<Rightarrow> rstr"
  im_uuid :: "nat \<Rightarrow> rstr"
  im_can_write :: "rstr \<Rightarrow> rstr \<Rightarrow> bool"

record image_store =
  is_files :: "rstr \<Rightarrow> rstr \<Rightarrow> rstr option"
  is_drawn :: nat

definition image_ref_prefix :: rstr where
  "image_ref_prefix = ''supercoder-image:''"

definition ext_for_media :: "rstr \<Rightarrow> rstr" where
  "ext_for_media media =
     (if media = ''image/png'' then ''png''
      else if media = ''image/jpeg'' \<or> media = ''image/jpg'' then ''jpg''
      else if media = ''image/gif'' then ''gif''
      else if media = ''image/webp'' then ''webp''
      else if media = ''image/svg+xml'' then ''svg''
      else if media = ''image/bmp'' then ''bmp''
      else ''img'')"

definition media_for_ext :: "rstr \<Rightarrow> rstr" where
  "media_for_ext ext =
     (if ext = ''png'' then ''image/png''
      else if ext = ''jpg'' \<or> ext = ''jpeg'' then ''image/jpeg''
      else if ext = ''gif'' then ''image/gif''
      else if ext = ''webp'' then ''image/webp''
      else if ext = ''svg'' then ''image/svg+xml''
      else if ext = ''bmp'' then ''image/bmp''
      else ''application/octet-stream'')"

text \<open>\<open>block["image_url"]["url"]\<close>, read and written\<close>

definition block_url :: "json \<Rightarrow> rstr option" where
  "block_url block = Option.bind (jget ''image_url'' block) (get_str ''url'')"

definition set_block_url :: "rstr \<Rightarrow> json \<Rightarrow> json" where
  "set_block_url u block =
     (case jget ''image_url'' block of
        Some img \<Rightarrow> json_insert ''image_url'' (json_insert ''url'' (JStr u) img) block
      | None \<Rightarrow> block)"

text \<open>\<open>parse_data_uri\<close> of this file is the function of the same name in the Anthropic adapter, word for word.\<close>

definition externalize_block :: "image_host \<Rightarrow> rstr \<Rightarrow> json \<Rightarrow> image_store \<Rightarrow> json \<times> image_store" where
  "externalize_block host sess block st =
     (case Option.bind (Option.bind (block_url block) (\<lambda>u. if starts_with u ''data:'' then Some u else None)) parse_data_uri of
        None \<Rightarrow> (block, st)
      | Some (media, data) \<Rightarrow>
          (case im_decode host data of
             None \<Rightarrow> (block, st)
           | Some bytes \<Rightarrow>
               let file = im_uuid host (is_drawn st) @ ''.'' @ ext_for_media media;
                   st1 = st\<lparr>is_drawn := Suc (is_drawn st)\<rparr>
               in if im_can_write host sess file then
                    (set_block_url (image_ref_prefix @ file) block,
                     st1\<lparr>is_files := (is_files st)(sess := (is_files st sess)(file := Some bytes))\<rparr>)
                  else (block, st1)))"

fun externalize_blocks :: "image_host \<Rightarrow> rstr \<Rightarrow> json list \<Rightarrow> image_store \<Rightarrow> json list \<times> image_store" where
  "externalize_blocks host sess [] st = ([], st)"
| "externalize_blocks host sess (b # bs) st =
     (case externalize_block host sess b st of
        (b', st1) \<Rightarrow> (case externalize_blocks host sess bs st1 of (bs', st2) \<Rightarrow> (b' # bs', st2)))"

definition externalize_images :: "image_host \<Rightarrow> rstr \<Rightarrow> json \<Rightarrow> image_store \<Rightarrow> json \<times> image_store" where
  "externalize_images host sess llm st =
     (case get_array ''content'' llm of
        None \<Rightarrow> (llm, st)
      | Some blocks \<Rightarrow>
          (case externalize_blocks host sess blocks st of
             (blocks', st') \<Rightarrow> (json_insert ''content'' (JArr blocks') llm, st')))"

definition inline_block :: "image_host \<Rightarrow> image_store \<Rightarrow> rstr \<Rightarrow> json \<Rightarrow> json" where
  "inline_block host st sess block =
     (case Option.bind (block_url block) (\<lambda>u. strip_prefix u image_ref_prefix) of
        None \<Rightarrow> block
      | Some file \<Rightarrow>
          (case is_files st sess file of
             None \<Rightarrow> block
           | Some bytes \<Rightarrow>
               set_block_url (''data:'' @ media_for_ext (case extension file of Some e \<Rightarrow> e | None \<Rightarrow> ''img'') @ '';base64,'' @
                 im_encode host bytes) block))"

definition inline_images :: "image_host \<Rightarrow> image_store \<Rightarrow> rstr \<Rightarrow> json \<Rightarrow> json" where
  "inline_images host st sess llm =
     (case get_array ''content'' llm of
        None \<Rightarrow> llm
      | Some blocks \<Rightarrow> json_insert ''content'' (JArr (map (inline_block host st sess) blocks)) llm)"

subsection \<open>The persister\<close>

definition persist_message ::
  "image_host \<Rightarrow> rstr \<Rightarrow> rstr \<Rightarrow> rstr \<Rightarrow> agent_message \<Rightarrow> image_store \<times> agent_db \<Rightarrow> image_store \<times> agent_db" where
  "persist_message host now project sess m s =
     (case externalize_images host sess (chat_to_json (am_llm_message m)) (fst s) of
        (llm, st) \<Rightarrow>
          (st, snd (insert_message now sess project (role_to_str (am_role m)) (type_to_str (am_type m)) llm
                 (am_metadata m) (am_turn m) (snd s))))"

record loaded_message =
  lm_content :: rstr
  lm_llm :: json
  lm_metadata :: json
  lm_role :: message_role
  lm_type :: message_type
  lm_sender :: sender
  lm_turn :: "u32 option"

definition stored_to_agent_message :: "image_host \<Rightarrow> image_store \<Rightarrow> message_row \<Rightarrow> loaded_message" where
  "stored_to_agent_message host st r =
     (let llm = inline_images host st (mr_session r) (mr_llm r)
      in \<lparr>lm_content = (case get_str ''content'' llm of Some s \<Rightarrow> s | None \<Rightarrow> []), lm_llm = llm, lm_metadata = mr_metadata r,
          lm_role = str_to_role (mr_role r), lm_type = str_to_type (mr_type r),
          lm_sender = (if mr_role r = ''user'' then HumanUser else AgentSender), lm_turn = mr_turn r\<rparr>)"

text \<open>\<open>iter().rposition(|m| m.type_ == "compaction")\<close>, and the walk back over the rows that are kept before it\<close>

fun last_position :: "('a \<Rightarrow> bool) \<Rightarrow> 'a list \<Rightarrow> nat option" where
  "last_position P [] = None"
| "last_position P (x # xs) =
     (case last_position P xs of Some i \<Rightarrow> Some (Suc i) | None \<Rightarrow> if P x then Some 0 else None)"

fun step_back :: "message_row list \<Rightarrow> nat \<Rightarrow> nat \<Rightarrow> nat" where
  "step_back rows 0 left = 0"
| "step_back rows (Suc s) left =
     (if left = 0 then Suc s
      else step_back rows s (if mr_type (rows ! s) \<noteq> ''compaction'' then left - 1 else left))"

definition reconstruct_context :: "image_host \<Rightarrow> image_store \<Rightarrow> message_row list \<Rightarrow> loaded_message list" where
  "reconstruct_context host st stored =
     (case last_position (\<lambda>m. mr_type m = ''compaction'') stored of
        Some pos \<Rightarrow>
          let kept = (case get_u64 ''kept_before_count'' (mr_metadata (stored ! pos)) of Some n \<Rightarrow> n | None \<Rightarrow> 0)
          in map (stored_to_agent_message host st) (drop (step_back stored pos kept) stored)
      | None \<Rightarrow> map (stored_to_agent_message host st) stored)"

definition load_context :: "image_host \<Rightarrow> rstr \<Rightarrow> image_store \<times> agent_db \<Rightarrow> loaded_message list" where
  "load_context host sess s = reconstruct_context host (fst s) (load_session_for_context sess 500 (snd s))"

end
