(* ===== verification/Settings.thy ===== *)
theory Settings
  imports Prompts Watchers MessageStore LlmClient
begin

section \<open>Settings, providers and model selections (\<open>agent_bridge/commands.rs\<close>, \<open>agent_bridge/auto.rs\<close>)\<close>

text \<open>
  The key-value table of the application's settings and what the bridge makes of it: the list of providers, the
  selected models, the model a session runs with, the configuration of a turn. A setting is kept as the value its
  text stands for; \<open>None\<close> is a missing row or a text that does not decode. Statements of SQLite succeed.
\<close>

subsection \<open>Data\<close>

record model_meta =
  mm_context_length :: "nat option"
  mm_supports_images :: bool

record provider_config =
  pv_id :: rstr
  pv_kind :: rstr
  pv_label :: rstr
  pv_base_url :: rstr
  pv_api_key :: rstr
  pv_models :: "rstr list"
  pv_model_meta :: "(rstr \<times> model_meta) list"
  pv_supports_images :: bool

definition pv_provider :: "provider_config \<Rightarrow> provider" where
  "pv_provider p = (if pv_kind p = ''anthropic'' then Anthropic else OpenAI)"

definition is_builtin :: "provider_config \<Rightarrow> bool" where
  "is_builtin p \<longleftrightarrow> pv_kind p = ''openai'' \<or> pv_kind p = ''anthropic''"

record model_ref =
  rf_provider_id :: rstr
  rf_model :: rstr

record model_selection =
  ms_active :: "model_ref option"
  ms_compaction :: "model_ref option"
  ms_title :: "model_ref option"

definition no_selection :: model_selection where
  "no_selection = \<lparr>ms_active = None, ms_compaction = None, ms_title = None\<rparr>"

text \<open>One field for each key of the table.\<close>

record settings_db =
  st_providers :: "provider_config list option"
  st_selection :: "model_selection option"
  st_engine :: "engine_settings option"
  st_machine_id :: "rstr option"
  st_orchestrator :: "model_ref option"
  st_worker_pool :: "pool_entry list option"
  st_auto_enabled :: "rstr option"

definition fresh_settings :: settings_db where
  "fresh_settings = \<lparr>st_providers = None, st_selection = None, st_engine = None, st_machine_id = None,
     st_orchestrator = None, st_worker_pool = None, st_auto_enabled = None\<rparr>"

subsection \<open>Providers\<close>

definition builtin_provider :: "rstr \<Rightarrow> rstr \<Rightarrow> provider_config" where
  "builtin_provider kind url =
     \<lparr>pv_id = kind, pv_kind = kind, pv_label = [], pv_base_url = url, pv_api_key = [], pv_models = [],
      pv_model_meta = [], pv_supports_images = False\<rparr>"

definition default_providers :: "provider_config list" where
  "default_providers =
     [builtin_provider ''openai'' ''https://api.openai.com/v1'', builtin_provider ''anthropic'' ''https://api.anthropic.com'']"

definition stored_providers :: "settings_db \<Rightarrow> provider_config list" where
  "stored_providers db = (case st_providers db of Some ps \<Rightarrow> ps | None \<Rightarrow> [])"

definition with_id :: "rstr \<Rightarrow> provider_config list \<Rightarrow> provider_config option" where
  "with_id i ps = find (\<lambda>p. pv_id p = i) ps"

definition keep_custom :: "provider_config \<Rightarrow> provider_config list \<Rightarrow> provider_config list" where
  "keep_custom p out = (if \<not> is_builtin p \<and> with_id (pv_id p) out = None then out @ [p] else out)"

definition builtin_rows :: "provider_config list \<Rightarrow> provider_config list" where
  "builtin_rows stored = map (\<lambda>b. case with_id (pv_id b) stored of Some p \<Rightarrow> p | None \<Rightarrow> b) default_providers"

definition heal :: "provider_config list \<Rightarrow> provider_config list" where
  "heal stored = fold keep_custom stored (builtin_rows stored)"

definition lacks_builtin :: "provider_config list \<Rightarrow> bool" where
  "lacks_builtin stored \<longleftrightarrow> list_ex (\<lambda>b. with_id (pv_id b) stored = None) default_providers"

definition write_providers :: "provider_config list \<Rightarrow> settings_db \<Rightarrow> settings_db" where
  "write_providers ps db = db\<lparr>st_providers := Some ps\<rparr>"

text \<open>\<open>read_providers\<close>: the list it returns, and the table after it.\<close>

definition read_providers :: "settings_db \<Rightarrow> provider_config list \<times> settings_db" where
  "read_providers db =
     (let ps = heal (stored_providers db)
      in (ps, if lacks_builtin (stored_providers db) then write_providers ps db else db))"

text \<open>Where only the list matters, the stored repair is left out: it changes nothing that is read later (below).\<close>

definition providers_of :: "settings_db \<Rightarrow> provider_config list" where
  "providers_of db = fst (read_providers db)"

definition provider_by_id :: "settings_db \<Rightarrow> rstr \<Rightarrow> provider_config option" where
  "provider_by_id db i = with_id i (providers_of db)"

definition read_selection :: "settings_db \<Rightarrow> model_selection" where
  "read_selection db = (case st_selection db of Some s \<Rightarrow> s | None \<Rightarrow> no_selection)"

definition write_selection :: "model_selection \<Rightarrow> settings_db \<Rightarrow> settings_db" where
  "write_selection s db = db\<lparr>st_selection := Some s\<rparr>"

text \<open>\<open>agent_add_provider\<close>; the new id is the next unique one.\<close>

definition add_provider :: "rstr \<Rightarrow> provider_config \<Rightarrow> settings_db \<Rightarrow> (rstr + provider_config) \<times> settings_db" where
  "add_provider uuid provider db =
     (case read_providers db of
        (ps, db1) \<Rightarrow>
          let p = (if str_trim (pv_id provider) = [] then provider\<lparr>pv_id := uuid\<rparr> else provider)
          in if is_builtin p then (Inl ''Built-in providers already exist; add an OpenAI-compatible one'', db1)
             else (Inr p, write_providers (ps @ [p]) db1))"

text \<open>\<open>iter_mut().find(..)\<close> and an assignment through it\<close>

fun replace_first :: "('a \<Rightarrow> bool) \<Rightarrow> 'a \<Rightarrow> 'a list \<Rightarrow> 'a list option" where
  "replace_first P y [] = None"
| "replace_first P y (x # xs) = (if P x then Some (y # xs) else map_option ((#) x) (replace_first P y xs))"

definition update_provider :: "provider_config \<Rightarrow> settings_db \<Rightarrow> (rstr + unit) \<times> settings_db" where
  "update_provider provider db =
     (case read_providers db of
        (ps, db1) \<Rightarrow>
          (case replace_first (\<lambda>p. pv_id p = pv_id provider) provider ps of
             None \<Rightarrow> (Inl (''Provider not found: '' @ pv_id provider), db1)
           | Some ps1 \<Rightarrow> (Inr (), write_providers ps1 db1)))"

definition clear_ref :: "rstr \<Rightarrow> model_ref option \<Rightarrow> model_ref option" where
  "clear_ref i r = (case r of Some x \<Rightarrow> if rf_provider_id x = i then None else r | None \<Rightarrow> None)"

definition delete_provider :: "rstr \<Rightarrow> settings_db \<Rightarrow> (rstr + unit) \<times> settings_db" where
  "delete_provider i db =
     (case read_providers db of
        (ps, db1) \<Rightarrow>
          if list_ex (\<lambda>p. pv_id p = i \<and> is_builtin p) ps then (Inl (''Built-in providers can'' @ [CHR 0x27] @ ''t be deleted''), db1)
          else
            let db2 = write_providers (filter (\<lambda>p. pv_id p \<noteq> i) ps) db1;
                sel = read_selection db2
            in (Inr (), write_selection \<lparr>ms_active = clear_ref i (ms_active sel),
                  ms_compaction = clear_ref i (ms_compaction sel), ms_title = clear_ref i (ms_title sel)\<rparr> db2))"

subsection \<open>Selections\<close>

definition is_auto_mode :: "rstr \<Rightarrow> rstr \<Rightarrow> bool" where
  "is_auto_mode provider_id model \<longleftrightarrow> provider_id = ''auto'' \<and> model = ''auto''"

definition set_model_selection :: "rstr \<Rightarrow> rstr \<Rightarrow> rstr \<Rightarrow> settings_db \<Rightarrow> (rstr + unit) \<times> settings_db" where
  "set_model_selection role provider_id model db =
     (let auto = is_auto_mode provider_id model;
          db1 = (if auto then db else snd (read_providers db))
      in if \<not> auto \<and> provider_by_id db provider_id = None then (Inl (''Provider not found: '' @ provider_id), db1)
         else if auto \<and> role \<noteq> ''active'' then (Inl (''Auto mode only applies to `active` role, not `'' @ role @ ''`''), db1)
         else
           let sel = read_selection db1; r = Some \<lparr>rf_provider_id = provider_id, rf_model = model\<rparr>
           in if role = ''active'' then (Inr (), write_selection (sel\<lparr>ms_active := r\<rparr>) db1)
              else if role = ''compaction'' then (Inr (), write_selection (sel\<lparr>ms_compaction := r\<rparr>) db1)
              else if role = ''title'' then (Inr (), write_selection (sel\<lparr>ms_title := r\<rparr>) db1)
              else (Inl (''Unknown selection role: '' @ role), db1))"

definition resolve_ref :: "settings_db \<Rightarrow> model_ref \<Rightarrow> (provider_config \<times> rstr) option" where
  "resolve_ref db r = map_option (\<lambda>p. (p, rf_model r)) (provider_by_id db (rf_provider_id r))"

definition first_model :: "provider_config list \<Rightarrow> model_ref option" where
  "first_model ps =
     map_option (\<lambda>p. \<lparr>rf_provider_id = pv_id p, rf_model = hd (pv_models p)\<rparr>) (find (\<lambda>p. pv_models p \<noteq> []) ps)"

definition default_session_model :: "settings_db \<Rightarrow> model_ref option" where
  "default_session_model db =
     (case ms_active (read_selection db) of
        Some a \<Rightarrow> if provider_by_id db (rf_provider_id a) \<noteq> None then Some a else first_model (providers_of db)
      | None \<Rightarrow> first_model (providers_of db))"

definition no_model_selected :: rstr where
  "no_model_selected = ''No model selected. Pick one in Settings / the model picker.''"

definition fallback_model :: "settings_db \<Rightarrow> rstr + provider_config \<times> rstr" where
  "fallback_model db =
     (case Option.bind (default_session_model db) (resolve_ref db) of Some pm \<Rightarrow> Inr pm | None \<Rightarrow> Inl no_model_selected)"

definition session_model :: "settings_db \<Rightarrow> session_row \<Rightarrow> rstr + provider_config \<times> rstr" where
  "session_model db session =
     (case (sr_provider session, sr_model session) of
        (Some pid, Some model) \<Rightarrow>
          (case provider_by_id db pid of Some p \<Rightarrow> Inr (p, model) | None \<Rightarrow> fallback_model db)
      | _ \<Rightarrow> fallback_model db)"

definition resolve_session_auto_mode :: "settings_db \<Rightarrow> session_row \<Rightarrow> bool" where
  "resolve_session_auto_mode db session \<longleftrightarrow>
     sr_mode session = ''coding'' \<and>
     (case (sr_provider session, sr_model session) of
        (Some pid, Some model) \<Rightarrow> is_auto_mode pid model
      | _ \<Rightarrow> (case ms_active (read_selection db) of Some r \<Rightarrow> is_auto_mode (rf_provider_id r) (rf_model r) | None \<Rightarrow> False))"

text \<open>\<open>agent_create_session\<close>: the model is recorded with the session.\<close>

definition create_session_command ::
  "rstr \<Rightarrow> rstr \<Rightarrow> rstr \<Rightarrow> rstr option \<Rightarrow> rstr option \<Rightarrow> rstr option \<Rightarrow> rstr option \<Rightarrow> settings_db \<Rightarrow> agent_db \<Rightarrow>
   (session_row \<times> agent_db) option" where
  "create_session_command now i folder title mode provider_id model st db =
     (let d = default_session_model st;
          m = (case mode of Some m \<Rightarrow> m | None \<Rightarrow> ''coding'');
          p = (case provider_id of Some p \<Rightarrow> Some p | None \<Rightarrow> map_option rf_provider_id d);
          md = (case model of Some x \<Rightarrow> Some x | None \<Rightarrow> map_option rf_model d)
      in Option.bind (create_session now i folder m title None p md db)
           (\<lambda>db1. map_option (\<lambda>r. (r, db1)) (get_session i db1)))"

subsection \<open>The configuration of a turn\<close>

definition provider_to_llm_config :: "provider_config \<Rightarrow> rstr \<Rightarrow> client_config" where
  "provider_to_llm_config p model =
     \<lparr>cl_provider = pv_provider p, cl_base_url = pv_base_url p, cl_model = model, cl_api_key = pv_api_key p,
      cl_temperature = None, cl_max_completion_tokens = None, cl_extra_headers = [], cl_thinking = None,
      cl_disable_cache_control = False, cl_policy = default_llm_policy\<rparr>"

record capability =
  ca_context_limit :: "nat option"
  ca_supports_images :: bool
  ca_source :: rstr

definition resolve_capability :: "model_registry \<Rightarrow> provider_config \<Rightarrow> rstr \<Rightarrow> capability" where
  "resolve_capability reg provider model =
     (case mr_profiles reg model of
        Some p \<Rightarrow> \<lparr>ca_context_limit = Some (mp_context_window p), ca_supports_images = mp_supports_images p, ca_source = ''known''\<rparr>
      | None \<Rightarrow>
          let meta = map_of (pv_model_meta provider) model;
              limit = Option.bind meta mm_context_length
          in \<lparr>ca_context_limit = limit,
              ca_supports_images = (case meta of Some m \<Rightarrow> mm_supports_images m | None \<Rightarrow> False) \<or> pv_supports_images provider,
              ca_source = (if limit \<noteq> None then ''discovered'' else ''unknown'')\<rparr>)"

text \<open>\<open>ContextEngineConfig\<close>, with its user id and workspace id, which are always \<open>local\<close> and 0, left out.\<close>

record engine_client =
  ce_base_url :: rstr
  ce_machine_id :: rstr
  ce_repo_path :: rstr

record agent_config =
  ag_llm :: client_config
  ag_working_dir :: rstr
  ag_mode :: tool_mode
  ag_max_iterations :: u32
  ag_retry :: retry_config
  ag_compaction :: compaction_config
  ag_compaction_llm :: "client_config option"
  ag_engine :: "engine_client option"
  ag_engine_repo_path :: "rstr option"
  ag_skills :: "skill_registry option"
  ag_subagents :: "subagent_registry option"
  ag_checkpoint_dir :: "rstr option"
  ag_system_prompt :: "system_block list option"

text \<open>\<open>AgentConfig::new\<close>\<close>

definition new_agent_config :: "client_config \<Rightarrow> rstr \<Rightarrow> agent_config" where
  "new_agent_config llm working_dir =
     \<lparr>ag_llm = llm, ag_working_dir = working_dir, ag_mode = CodingMode, ag_max_iterations = 100,
      ag_retry = default_retry_config, ag_compaction = default_compaction_config, ag_compaction_llm = None,
      ag_engine = None, ag_engine_repo_path = None, ag_skills = None, ag_subagents = None, ag_checkpoint_dir = None,
      ag_system_prompt = None\<rparr>"

definition engine_config :: "settings_db \<Rightarrow> rstr \<Rightarrow> rstr \<Rightarrow> engine_client option" where
  "engine_config st machine folder =
     (let ce = (case st_engine st of Some s \<Rightarrow> s | None \<Rightarrow> default_settings)
      in if es_enabled ce then Some
           \<lparr>ce_base_url = normalize_base_url (es_base_url ce), ce_machine_id = machine, ce_repo_path = folder\<rparr>
         else None)"

text \<open>The id of the machine, drawn and stored when it is first asked for.\<close>

definition machine_id :: "rstr \<Rightarrow> settings_db \<Rightarrow> rstr \<times> settings_db" where
  "machine_id uuid db =
     (case st_machine_id db of
        Some i \<Rightarrow> if i \<noteq> [] then (i, db) else (uuid, db\<lparr>st_machine_id := Some uuid\<rparr>)
      | None \<Rightarrow> (uuid, db\<lparr>st_machine_id := Some uuid\<rparr>))"

definition limit_compaction :: "nat option \<Rightarrow> compaction_config \<Rightarrow> compaction_config" where
  "limit_compaction limit cc =
     (case limit of Some n \<Rightarrow> cc\<lparr>context_limit := n, auto_compact := True\<rparr> | None \<Rightarrow> cc\<lparr>auto_compact := False\<rparr>)"

definition build_agent_config ::
  "(tool_mode \<Rightarrow> rstr) \<Rightarrow> platform \<Rightarrow> provider_config \<Rightarrow> rstr \<Rightarrow> (provider_config \<times> rstr) option \<Rightarrow> rstr \<Rightarrow> tool_mode \<Rightarrow>
   nat option \<Rightarrow> rstr option \<Rightarrow> rstr \<Rightarrow> skill_registry option \<Rightarrow> subagent_registry option \<Rightarrow> engine_client option \<Rightarrow>
   agent_config" where
  "build_agent_config template pf main_provider main_model compaction working_dir mode limit project_note
     checkpoint_dir skills subagents engine =
     (let c0 = new_agent_config (provider_to_llm_config main_provider main_model) working_dir;
          summarizer = (case compaction of
                          Some (p, m) \<Rightarrow> provider_to_llm_config p m
                        | None \<Rightarrow> provider_to_llm_config main_provider main_model)
      in c0\<lparr>ag_mode := mode, ag_compaction := limit_compaction limit (ag_compaction c0), ag_skills := skills,
            ag_subagents := subagents, ag_checkpoint_dir := Some checkpoint_dir, ag_engine := engine,
            ag_engine_repo_path := map_option ce_repo_path engine,
            ag_compaction_llm := Some (summarizer\<lparr>cl_disable_cache_control := True\<rparr>),
            ag_system_prompt := Some (build_system_prompt template pf mode working_dir None project_note skills subagents
              (engine \<noteq> None))\<rparr>)"

definition parse_mode :: "rstr \<Rightarrow> tool_mode" where
  "parse_mode m = (if m = ''plan'' then PlanMode else if m = ''coding'' then CodingMode else AskMode)"

definition compaction_model :: "settings_db \<Rightarrow> (provider_config \<times> rstr) option" where
  "compaction_model db = Option.bind (ms_compaction (read_selection db)) (resolve_ref db)"

definition title_model :: "settings_db \<Rightarrow> provider_config \<times> rstr \<Rightarrow> provider_config \<times> rstr" where
  "title_model db fallback =
     (case Option.bind (ms_title (read_selection db)) (resolve_ref db) of Some pm \<Rightarrow> pm | None \<Rightarrow> fallback)"

subsection \<open>Titles\<close>

text \<open>\<open>str::to_lowercase\<close> is Unicode's, a parameter.\<close>

definition strip_title_prefix :: "rstr \<Rightarrow> rstr \<Rightarrow> rstr" where
  "strip_title_prefix p t = (case strip_prefix t p of Some rest \<Rightarrow> str_trim rest | None \<Rightarrow> t)"

definition title_looks_bad :: "(rstr \<Rightarrow> rstr) \<Rightarrow> rstr \<Rightarrow> bool" where
  "title_looks_bad lowercase t \<longleftrightarrow>
     (let l = lowercase t
      in ends_with t ''?'' \<or> length (split_whitespace t) > 10 \<or>
         list_ex (starts_with l) [''i '', ''i'' @ [CHR 0x27] @ ''m'', ''i need'', ''sorry'', ''could you'', ''can you'', ''please''] \<or>
         str_contains l ''more context'' \<or> str_contains l ''provide more'')"

definition clean_title :: "(rstr \<Rightarrow> rstr) \<Rightarrow> rstr \<Rightarrow> rstr option" where
  "clean_title lowercase raw =
     (let quote = CHR 0x22;
          t0 = str_trim (trim_matches quote (str_trim raw));
          t1 = str_trim (case str_lines t0 of [] \<Rightarrow> [] | l # _ \<Rightarrow> l);
          t2 = fold strip_title_prefix [''Title:'', ''title:'', ''Title -'', ''Session:''] t1;
          t = str_trim (trim_matches quote t2)
      in if t = [] then None
         else if title_looks_bad lowercase t then None
         else Some (concat (take 60 (str_chars t))))"

subsection \<open>Reading the providers repairs the list\<close>

lemma with_id_SomeD: "with_id i ps = Some p \<Longrightarrow> p \<in> set ps \<and> pv_id p = i"
  by (auto simp: with_id_def find_Some_iff)

lemma with_id_None: "with_id i ps = None \<longleftrightarrow> i \<notin> pv_id ` set ps"
  by (auto simp: with_id_def find_None_iff)

lemma with_id_append: "with_id i (ps @ qs) = (case with_id i ps of Some p \<Rightarrow> Some p | None \<Rightarrow> with_id i qs)"
  by (induction ps) (auto simp: with_id_def)

lemma with_id_Cons: "with_id i (p # ps) = (if pv_id p = i then Some p else with_id i ps)"
  by (simp add: with_id_def)

lemma builtin_ids: "map pv_id default_providers = [''openai'', ''anthropic'']"
  by (simp add: default_providers_def builtin_provider_def)

lemma ids_builtin_rows: "map pv_id (builtin_rows stored) = [''openai'', ''anthropic'']"
proof -
  have "pv_id (case with_id (pv_id b) stored of Some p \<Rightarrow> p | None \<Rightarrow> b) = pv_id b" for b
    by (auto split: option.splits dest: with_id_SomeD)
  then have "map pv_id (builtin_rows stored) = map pv_id default_providers" by (simp add: builtin_rows_def comp_def)
  then show ?thesis by (simp only: builtin_ids)
qed

abbreviation builtin_id :: "rstr \<Rightarrow> bool" where
  "builtin_id i \<equiv> i = ''openai'' \<or> i = ''anthropic''"

lemma builtin_row_ids: "pv_id ` set (builtin_rows stored) = {''openai'', ''anthropic''}"
  using arg_cong [OF ids_builtin_rows, of set] by (simp only: list.set_map list.set)

lemma builtin_rows_lookup:
  "with_id i (builtin_rows stored) = None \<longleftrightarrow> \<not> builtin_id i"
  by (simp only: with_id_None builtin_row_ids) auto

text \<open>The fold keeps, after what is there, the custom rows whose id is new, the first of each id.\<close>

fun customs :: "provider_config list \<Rightarrow> rstr set \<Rightarrow> provider_config list" where
  "customs [] taken = []"
| "customs (p # ps) taken =
     (if \<not> is_builtin p \<and> pv_id p \<notin> taken then p # customs ps (insert (pv_id p) taken) else customs ps taken)"

lemma fold_keep_custom: "fold keep_custom ps out = out @ customs ps (pv_id ` set out)"
  by (induction ps arbitrary: out) (auto simp: keep_custom_def with_id_None)

lemma heal_customs: "heal stored = builtin_rows stored @ customs stored {''openai'', ''anthropic''}"
  by (simp only: heal_def fold_keep_custom builtin_row_ids)

lemma customs_new: "p \<in> set (customs ps taken) \<Longrightarrow> p \<in> set ps \<and> \<not> is_builtin p \<and> pv_id p \<notin> taken"
  by (induction ps taken rule: customs.induct) (auto split: if_splits)

lemma customs_distinct: "distinct (map pv_id (customs ps taken))"
  by (induction ps taken rule: customs.induct) (auto dest: customs_new)

lemma customs_ids: "pv_id ` set (customs ps taken) = pv_id ` {p \<in> set ps. \<not> is_builtin p} - taken"
proof (induction ps taken rule: customs.induct)
  case (2 p ps taken)
  have "{q \<in> set (p # ps). \<not> is_builtin q} = (if is_builtin p then {} else {p}) \<union> {q \<in> set ps. \<not> is_builtin q}" by auto
  with 2 show ?case by (cases "is_builtin p \<or> pv_id p \<in> taken") (simp_all add: insert_Diff_if, blast+)
qed simp

lemma customs_same: "distinct (map pv_id ps) \<Longrightarrow> (\<forall>p \<in> set ps. \<not> is_builtin p \<and> pv_id p \<notin> taken) \<Longrightarrow> customs ps taken = ps"
proof (induction ps taken rule: customs.induct)
  case (2 p ps taken)
  then have "\<forall>q \<in> set ps. \<not> is_builtin q \<and> pv_id q \<notin> insert (pv_id p) taken" by (auto simp: image_iff)
  with 2 show ?case by simp
qed simp

lemma customs_append: "customs (ps @ qs) taken = customs ps taken @ customs qs (taken \<union> pv_id ` set (customs ps taken))"
  by (induction ps taken rule: customs.induct) (auto simp: insert_commute)

lemma customs_taken: "pv_id ` set ps \<subseteq> taken \<Longrightarrow> customs ps taken = []"
  by (induction ps taken rule: customs.induct) auto

lemma customs_customs: "customs (customs ps taken) taken = customs ps taken"
  by (intro customs_same customs_distinct) (auto dest: customs_new)

lemma heal_distinct: "distinct (map pv_id (heal stored))"
  unfolding heal_customs map_append ids_builtin_rows
  using customs_distinct customs_new by fastforce

lemma with_id_heal_builtin:
  assumes "builtin_id i"
  shows "with_id i (heal stored) = with_id i (builtin_rows stored)"
proof -
  have "with_id i (builtin_rows stored) \<noteq> None" using assms by (simp add: builtin_rows_lookup)
  then show ?thesis by (auto simp: heal_customs with_id_append)
qed

lemma with_id_builtin_rows:
  assumes "builtin_id i"
  shows "with_id i (builtin_rows stored) = Some (case with_id i stored of Some p \<Rightarrow> p | None \<Rightarrow> the (with_id i default_providers))"
proof -
  have ids: "pv_id (case with_id j stored of Some p \<Rightarrow> p | None \<Rightarrow> builtin_provider j u) = j" for j u
    by (auto simp: builtin_provider_def split: option.splits dest: with_id_SomeD)
  have b: "builtin_rows stored =
      [case with_id ''openai'' stored of Some p \<Rightarrow> p | None \<Rightarrow> builtin_provider ''openai'' ''https://api.openai.com/v1'',
       case with_id ''anthropic'' stored of Some p \<Rightarrow> p | None \<Rightarrow> builtin_provider ''anthropic'' ''https://api.anthropic.com'']"
    by (simp add: builtin_rows_def default_providers_def) (simp add: builtin_provider_def)
  from assms show ?thesis
    unfolding b with_id_Cons ids
    by (auto simp: default_providers_def with_id_Cons builtin_provider_def split: option.splits)
qed

lemma heal_heal: "heal (heal stored) = heal stored"
proof -
  have w: "with_id (pv_id b) (heal stored) = Some (case with_id (pv_id b) stored of Some p \<Rightarrow> p | None \<Rightarrow> b)"
    if "b \<in> set default_providers" for b
  proof -
    have "builtin_id (pv_id b)" "with_id (pv_id b) default_providers = Some b"
      using that by (auto simp: default_providers_def builtin_provider_def with_id_Cons)
    then show ?thesis by (simp add: with_id_heal_builtin with_id_builtin_rows split: option.split)
  qed
  have rows: "builtin_rows (heal stored) = builtin_rows stored"
    unfolding builtin_rows_def
  proof (rule map_cong [OF refl])
    fix b assume "b \<in> set default_providers"
    then have "with_id (pv_id b) (heal stored) = Some (case with_id (pv_id b) stored of Some p \<Rightarrow> p | None \<Rightarrow> b)" by (rule w)
    then show "(case with_id (pv_id b) (heal stored) of Some p \<Rightarrow> p | None \<Rightarrow> b) =
        (case with_id (pv_id b) stored of Some p \<Rightarrow> p | None \<Rightarrow> b)" by (simp only: option.case)
  qed
  have taken: "pv_id ` set (builtin_rows stored) \<subseteq> {''openai'', ''anthropic''}" by (simp only: builtin_row_ids)
  have "customs (builtin_rows stored @ customs stored {''openai'', ''anthropic''}) {''openai'', ''anthropic''} =
      customs stored {''openai'', ''anthropic''}"
    using taken by (simp add: customs_append customs_taken customs_customs)
  then show ?thesis using rows by (simp only: heal_customs [of "heal stored"]) (simp add: heal_customs)
qed

lemma heal_complete: "\<not> lacks_builtin (heal stored)"
proof -
  have "with_id (pv_id b) (heal stored) \<noteq> None" if "b \<in> set default_providers" for b
  proof -
    have "builtin_id (pv_id b)" using that by (auto simp: default_providers_def builtin_provider_def)
    then show ?thesis by (simp only: with_id_heal_builtin builtin_rows_lookup) simp
  qed
  then show ?thesis by (auto simp: lacks_builtin_def list_ex_iff)
qed

lemma providers_of_heal: "providers_of db = heal (stored_providers db)"
  by (simp add: providers_of_def read_providers_def Let_def)

lemma stored_written [simp]: "stored_providers (write_providers ps db) = ps"
  by (simp add: stored_providers_def write_providers_def)

lemma providers_of_written [simp]: "providers_of (write_providers ps db) = heal ps"
  by (simp add: providers_of_heal)

lemma read_providers_prod: "read_providers db = (providers_of db, snd (read_providers db))"
  by (simp add: providers_of_def)

lemma providers_after_reading [simp]: "providers_of (snd (read_providers db)) = providers_of db"
  unfolding providers_of_heal by (simp add: read_providers_def Let_def heal_heal)

text \<open>whatever is stored, reading the providers gives the OpenAI and the Anthropic row first, every id once, and what
  reading stores makes no difference: read again, the table gives the same list and is not written any more, and no
  other setting has changed.\<close>

theorem reading_providers_repairs:
  "map pv_id (take 2 (providers_of db)) = [''openai'', ''anthropic''] \<and>
   distinct (map pv_id (providers_of db)) \<and>
   read_providers (snd (read_providers db)) = (providers_of db, snd (read_providers db)) \<and>
   (snd (read_providers db))\<lparr>st_providers := st_providers db\<rparr> = db"
proof (intro conjI)
  have "length (builtin_rows (stored_providers db)) = 2"
    by (metis ids_builtin_rows length_map length_Cons list.size(3) numeral_2_eq_2)
  then show "map pv_id (take 2 (providers_of db)) = [''openai'', ''anthropic'']"
    by (simp add: providers_of_heal heal_customs ids_builtin_rows)
  show "distinct (map pv_id (providers_of db))" by (simp only: providers_of_heal heal_distinct)
  show "read_providers (snd (read_providers db)) = (providers_of db, snd (read_providers db))"
  proof (cases "lacks_builtin (stored_providers db)")
    case True
    then have "snd (read_providers db) = write_providers (heal (stored_providers db)) db"
      by (simp add: read_providers_def Let_def)
    then show ?thesis
      by (simp add: read_providers_def [of "write_providers _ db"] Let_def heal_heal heal_complete providers_of_heal)
  next
    case False
    then show ?thesis by (simp add: read_providers_def Let_def providers_of_heal)
  qed
  show "(snd (read_providers db))\<lparr>st_providers := st_providers db\<rparr> = db"
    by (simp add: read_providers_def Let_def write_providers_def)
qed

subsection \<open>Auto mode's settings\<close>

definition set_auto_orchestrator_model :: "model_ref option \<Rightarrow> settings_db \<Rightarrow> settings_db" where
  "set_auto_orchestrator_model r db = db\<lparr>st_orchestrator := r\<rparr>"

definition set_auto_worker_pool :: "pool_entry list \<Rightarrow> settings_db \<Rightarrow> settings_db" where
  "set_auto_worker_pool pool db = db\<lparr>st_worker_pool := Some pool\<rparr>"

definition read_auto_worker_pool :: "settings_db \<Rightarrow> pool_entry list" where
  "read_auto_worker_pool db = (case st_worker_pool db of Some pool \<Rightarrow> pool | None \<Rightarrow> [])"

definition read_auto_enabled :: "settings_db \<Rightarrow> bool" where
  "read_auto_enabled db \<longleftrightarrow> st_auto_enabled db = Some ''true''"

definition uses_auto :: "session_row \<Rightarrow> bool" where
  "uses_auto s \<longleftrightarrow> (case (sr_provider s, sr_model s) of (Some p, Some m) \<Rightarrow> is_auto_mode p m | _ \<Rightarrow> False)"

definition list_sessions_using_auto :: "agent_db \<Rightarrow> session_row list" where
  "list_sessions_using_auto db = filter uses_auto (list_session_rows db)"

definition right_arrow :: rstr where
  "right_arrow = [CHR 0xE2, CHR 0x86, CHR 0x92]"

definition set_auto_enabled :: "bool \<Rightarrow> agent_db \<Rightarrow> settings_db \<Rightarrow> (rstr + unit) \<times> settings_db" where
  "set_auto_enabled enabled adb db =
     (let store = db\<lparr>st_auto_enabled := Some (if enabled then ''true'' else ''false'')\<rparr>
      in if enabled then
           if st_orchestrator db = None then
             (Inl (''Cannot enable Auto: pick an orchestrator model in Settings '' @ right_arrow @ '' Auto first.''), db)
           else if read_auto_worker_pool db = [] then
             (Inl ''Cannot enable Auto: add at least one model to the worker pool first.'', db)
           else (Inr (), store)
         else
           let blockers = list_sessions_using_auto adb
           in if blockers \<noteq> [] then
                (Inl (''Cannot disable Auto: '' @ nat_str (length blockers) @
                   '' session(s) still use it. Switch them to a regular model first.''), db)
              else (Inr (), store))"

text \<open>The configurations of the workers, a map by model; the pool is taken in its order.\<close>

fun worker_configs_from ::
  "settings_db \<Rightarrow> pool_entry list \<Rightarrow> (rstr \<times> client_config) list \<Rightarrow> rstr + (rstr \<times> client_config) list" where
  "worker_configs_from db [] configs = Inr configs"
| "worker_configs_from db (entry # pool) configs =
     (if map_of configs (pe_model entry) \<noteq> None then
        Inl (''Auto mode: worker pool has duplicate model name `'' @ pe_model entry @ ''` across providers '' @ em_dash @
          '' make pool entries'' @ [CHR 0x27] @ '' model names unique (the dispatcher looks up by model only)'')
      else (case provider_by_id db (pe_provider_id entry) of
              None \<Rightarrow> Inl (''Auto mode: worker pool entry `'' @ pe_model entry @ ''` references missing provider id=`'' @
                pe_provider_id entry @ ''`. Fix Settings '' @ right_arrow @ '' Auto (remove the worker or re-add the provider).'')
            | Some p \<Rightarrow> worker_configs_from db pool
                (configs @ [(pe_model entry, (provider_to_llm_config p (pe_model entry))\<lparr>cl_disable_cache_control := False\<rparr>)])))"

definition build_worker_llm_configs :: "settings_db \<Rightarrow> pool_entry list \<Rightarrow> rstr + (rstr \<times> client_config) list" where
  "build_worker_llm_configs db pool = worker_configs_from db pool []"

lemma worker_configs_from_models:
  "worker_configs_from db pool configs = Inr configs' \<Longrightarrow> distinct (map fst configs) \<Longrightarrow>
   map fst configs' = map fst configs @ map pe_model pool \<and> distinct (map fst configs')"
proof (induction db pool configs rule: worker_configs_from.induct)
  case (2 db entry pool configs)
  show ?case
  proof (cases "map_of configs (pe_model entry)")
    case None
    then obtain p where p: "provider_by_id db (pe_provider_id entry) = Some p"
      using "2.prems"(1) by (cases "provider_by_id db (pe_provider_id entry)") simp_all
    from None have "pe_model entry \<notin> fst ` set configs" by (simp add: map_of_eq_None_iff)
    let ?c = "(pe_model entry, (provider_to_llm_config p (pe_model entry))\<lparr>cl_disable_cache_control := False\<rparr>)"
    have "map fst configs' = map fst (configs @ [?c]) @ map pe_model pool \<and> distinct (map fst configs')"
      by (rule "2.IH" [OF _ p]) (use "2.prems" None p \<open>pe_model entry \<notin> _\<close> in simp_all)
    then show ?thesis by (elim conjE) simp
  next
    case (Some c)
    with "2.prems"(1) show ?thesis by simp
  qed
qed simp

lemma worker_configs_models:
  "build_worker_llm_configs db pool = Inr configs \<Longrightarrow> map fst configs = map pe_model pool \<and> distinct (map pe_model pool)"
  unfolding build_worker_llm_configs_def by (drule worker_configs_from_models) auto

text \<open>What switching the context engine on or off sets going.\<close>

datatype engine_effect = AutoStart | StopAll | StopEngine

definition set_context_engine :: "bool \<Rightarrow> engine_settings \<Rightarrow> settings_db \<Rightarrow> engine_effect list \<times> settings_db" where
  "set_context_engine app_mode s db =
     (if es_enabled s then (if app_mode then [] else [AutoStart])
      else StopAll # (if app_mode then [StopEngine] else []), db\<lparr>st_engine := Some s\<rparr>)"

subsection \<open>Selections never dangle\<close>

lemma providers_known: "pv_id ` set (providers_of db) =
    {''openai'', ''anthropic''} \<union> pv_id ` {p \<in> set (stored_providers db). \<not> is_builtin p}"
  by (simp add: providers_of_heal heal_customs image_Un builtin_row_ids customs_ids)

lemma known_iff: "provider_by_id db i \<noteq> None \<longleftrightarrow>
    builtin_id i \<or> (\<exists>p \<in> set (stored_providers db). \<not> is_builtin p \<and> pv_id p = i)"
proof -
  have "provider_by_id db i \<noteq> None \<longleftrightarrow> i \<in> pv_id ` set (providers_of db)"
    by (simp add: provider_by_id_def with_id_None)
  then show ?thesis by (auto simp: providers_known)
qed

lemma known_listed: "provider_by_id db i \<noteq> None \<longleftrightarrow>
    builtin_id i \<or> (\<exists>p \<in> set (providers_of db). \<not> is_builtin p \<and> pv_id p = i)"
  using known_iff [of "write_providers (providers_of db) db" i]
  by (simp add: provider_by_id_def providers_of_heal heal_heal)

lemma known_written: "provider_by_id (write_providers ps db) i \<noteq> None \<longleftrightarrow>
    builtin_id i \<or> (\<exists>p \<in> set ps. \<not> is_builtin p \<and> pv_id p = i)"
  using known_iff [of "write_providers ps db"] by simp

lemma provider_by_id_read [simp]: "provider_by_id (snd (read_providers db)) = provider_by_id db"
  by (simp add: fun_eq_iff provider_by_id_def)

lemma selection_read [simp]: "read_selection (snd (read_providers db)) = read_selection db"
  by (simp add: read_providers_def Let_def write_providers_def read_selection_def)

lemma selection_written [simp]:
  "read_selection (write_selection s db) = s" "read_selection (write_providers ps db) = read_selection db"
  by (simp_all add: read_selection_def write_selection_def write_providers_def)

lemma provider_by_id_selection [simp]: "provider_by_id (write_selection s db) = provider_by_id db"
  by (simp add: fun_eq_iff provider_by_id_def providers_of_heal stored_providers_def write_selection_def)

lemma add_provider_alt:
  "add_provider uuid p db =
     (let p1 = (if str_trim (pv_id p) = [] then p\<lparr>pv_id := uuid\<rparr> else p)
      in if is_builtin p1 then (Inl ''Built-in providers already exist; add an OpenAI-compatible one'', snd (read_providers db))
         else (Inr p1, write_providers (providers_of db @ [p1]) (snd (read_providers db))))"
  by (simp only: add_provider_def providers_of_def case_prod_unfold)

lemma update_provider_alt:
  "update_provider p db =
     (case replace_first (\<lambda>q. pv_id q = pv_id p) p (providers_of db) of
        None \<Rightarrow> (Inl (''Provider not found: '' @ pv_id p), snd (read_providers db))
      | Some ps \<Rightarrow> (Inr (), write_providers ps (snd (read_providers db))))"
  by (simp only: update_provider_def providers_of_def case_prod_unfold)

lemma delete_provider_alt:
  "delete_provider i db =
     (if list_ex (\<lambda>p. pv_id p = i \<and> is_builtin p) (providers_of db)
      then (Inl (''Built-in providers can'' @ [CHR 0x27] @ ''t be deleted''), snd (read_providers db))
      else
        let sel = read_selection db
        in (Inr (), write_selection \<lparr>ms_active = clear_ref i (ms_active sel),
              ms_compaction = clear_ref i (ms_compaction sel), ms_title = clear_ref i (ms_title sel)\<rparr>
              (write_providers (filter (\<lambda>p. pv_id p \<noteq> i) (providers_of db)) (snd (read_providers db)))))"
  by (simp add: delete_provider_def providers_of_def case_prod_unfold Let_def)

text \<open>
  Every way the settings come about, with one exception: a provider the user added is not updated to the kind of a
  built-in one.
\<close>

inductive configured :: "settings_db \<Rightarrow> bool" where
  fresh: "configured fresh_settings"
| reading: "configured db \<Longrightarrow> configured (snd (read_providers db))"
| adding: "configured db \<Longrightarrow> configured (snd (add_provider uuid p db))"
| updating: "configured db \<Longrightarrow> is_builtin p \<longrightarrow> builtin_id (pv_id p) \<Longrightarrow> configured (snd (update_provider p db))"
| deleting: "configured db \<Longrightarrow> configured (snd (delete_provider i db))"
| selecting: "configured db \<Longrightarrow> configured (snd (set_model_selection role i m db))"
| orchestrating: "configured db \<Longrightarrow> configured (set_auto_orchestrator_model r db)"
| pooling: "configured db \<Longrightarrow> configured (set_auto_worker_pool pool db)"
| enabling: "configured db \<Longrightarrow> configured (snd (set_auto_enabled b adb db))"
| connecting: "configured db \<Longrightarrow> configured (snd (set_context_engine app_mode s db))"
| identifying: "configured db \<Longrightarrow> configured (snd (machine_id uuid db))"

definition auto_ref :: "model_ref \<Rightarrow> bool" where
  "auto_ref r \<longleftrightarrow> is_auto_mode (rf_provider_id r) (rf_model r)"

definition refs_resolve :: "settings_db \<Rightarrow> bool" where
  "refs_resolve db \<longleftrightarrow>
     pred_option (\<lambda>r. auto_ref r \<or> resolve_ref db r \<noteq> None) (ms_active (read_selection db)) \<and>
     pred_option (\<lambda>r. resolve_ref db r \<noteq> None) (ms_compaction (read_selection db)) \<and>
     pred_option (\<lambda>r. resolve_ref db r \<noteq> None) (ms_title (read_selection db))"

lemma refs_resolve_mono:
  assumes "refs_resolve db" "read_selection db' = read_selection db"
    and "\<And>i. provider_by_id db i \<noteq> None \<Longrightarrow> provider_by_id db' i \<noteq> None"
  shows "refs_resolve db'"
  using assms by (auto simp: refs_resolve_def resolve_ref_def option.pred_set)

lemma refs_resolve_other:
  "refs_resolve db \<Longrightarrow> st_providers db' = st_providers db \<Longrightarrow> st_selection db' = st_selection db \<Longrightarrow> refs_resolve db'"
  by (erule refs_resolve_mono) (simp_all add: read_selection_def provider_by_id_def providers_of_heal stored_providers_def)

lemma replace_first_SomeD:
  "replace_first P y xs = Some ys \<Longrightarrow> \<exists>a x b. xs = a @ x # b \<and> P x \<and> ys = a @ y # b"
proof (induction xs arbitrary: ys)
  case (Cons x xs)
  show ?case
  proof (cases "P x")
    case True
    then show ?thesis using Cons.prems by (intro exI [of _ "[]"]) auto
  next
    case False
    then obtain zs where "replace_first P y xs = Some zs" "ys = x # zs" using Cons.prems by auto
    with Cons.IH obtain a z b where "xs = a @ z # b" "P z" "zs = a @ y # b" by blast
    then show ?thesis using \<open>ys = x # zs\<close> by (intro exI [of _ "x # a"]) auto
  qed
qed simp

lemma refs_resolve_configured: "configured db \<Longrightarrow> refs_resolve db"
proof (induction rule: configured.induct)
  case fresh
  show ?case by (simp add: refs_resolve_def read_selection_def fresh_settings_def no_selection_def)
next
  case (reading db)
  show ?case using reading(2) by (rule refs_resolve_mono) simp_all
next
  case (adding db uuid p)
  let ?p = "if str_trim (pv_id p) = [] then p\<lparr>pv_id := uuid\<rparr> else p"
  show ?case
  proof (cases "is_builtin ?p")
    case True
    then have "snd (add_provider uuid p db) = snd (read_providers db)"
      by (simp add: add_provider_alt Let_def)
    with adding(2) show ?thesis using refs_resolve_mono [of db "snd (read_providers db)"] by simp
  next
    case False
    then have db': "snd (add_provider uuid p db) = write_providers (providers_of db @ [?p]) (snd (read_providers db))"
      by (simp add: add_provider_alt Let_def)
    have "provider_by_id (snd (add_provider uuid p db)) i \<noteq> None" if "provider_by_id db i \<noteq> None" for i
      using that unfolding known_listed [of db] db' known_written by auto
    then show ?thesis by (intro refs_resolve_mono [OF adding(2)]) (simp_all add: db')
  qed
next
  case (updating db p)
  show ?case
  proof (cases "replace_first (\<lambda>q. pv_id q = pv_id p) p (providers_of db)")
    case None
    then have "snd (update_provider p db) = snd (read_providers db)"
      by (simp add: update_provider_alt)
    with updating(3) show ?thesis using refs_resolve_mono [of db "snd (read_providers db)"] by simp
  next
    case (Some ps)
    then obtain a x b where x: "providers_of db = a @ x # b" "pv_id x = pv_id p" "ps = a @ p # b"
      by (blast dest: replace_first_SomeD)
    have db': "snd (update_provider p db) = write_providers ps (snd (read_providers db))"
      using Some by (simp add: update_provider_alt)
    have "provider_by_id (snd (update_provider p db)) i \<noteq> None" if "provider_by_id db i \<noteq> None" for i
      using that updating(2) unfolding known_listed [of db] db' known_written x(1,3) using x(2) by auto
    then show ?thesis by (intro refs_resolve_mono [OF updating(3)]) (simp_all add: db')
  qed
next
  case (deleting db i)
  show ?case
  proof (cases "list_ex (\<lambda>p. pv_id p = i \<and> is_builtin p) (providers_of db)")
    case True
    then have "snd (delete_provider i db) = snd (read_providers db)"
      by (simp add: delete_provider_alt)
    with deleting(2) show ?thesis using refs_resolve_mono [of db "snd (read_providers db)"] by simp
  next
    case False
    let ?sel = "read_selection db"
    let ?db = "write_providers (filter (\<lambda>p. pv_id p \<noteq> i) (providers_of db)) (snd (read_providers db))"
    have db': "snd (delete_provider i db) = write_selection \<lparr>ms_active = clear_ref i (ms_active ?sel),
        ms_compaction = clear_ref i (ms_compaction ?sel), ms_title = clear_ref i (ms_title ?sel)\<rparr> ?db"
      using False by (simp add: delete_provider_alt Let_def)
    have k: "provider_by_id ?db j \<noteq> None" if "provider_by_id db j \<noteq> None" "j \<noteq> i" for j
      using that unfolding known_listed [of db] known_written by auto
    have clear: "pred_option P (clear_ref i r)" if "pred_option Q r" "\<And>x. Q x \<Longrightarrow> rf_provider_id x \<noteq> i \<Longrightarrow> P x" for P Q r
      using that by (auto simp: clear_ref_def split: option.split)
    have "P x" if "auto_ref x \<or> resolve_ref db x \<noteq> None" "rf_provider_id x \<noteq> i"
      "P = (\<lambda>r. auto_ref r \<or> resolve_ref ?db r \<noteq> None)" for P x using that k by (auto simp: resolve_ref_def)
    then show ?thesis
      using deleting(2) k unfolding db' refs_resolve_def
      by (auto simp: resolve_ref_def intro!: clear)
  qed
next
  case (selecting db role i m)
  have r: "refs_resolve (snd (read_providers db))" using selecting(2) by (rule refs_resolve_mono) simp_all
  show ?case
    using r selecting(2)
    by (auto simp: set_model_selection_def Let_def refs_resolve_def resolve_ref_def auto_ref_def)
next
  case (enabling db b adb)
  show ?case using enabling(2) by (rule refs_resolve_other) (simp_all add: set_auto_enabled_def Let_def)
next
  case (identifying db uuid)
  show ?case using identifying(2) by (rule refs_resolve_other) (simp_all add: machine_id_def split: option.split)
qed (auto simp: set_auto_orchestrator_model_def set_auto_worker_pool_def set_context_engine_def elim!: refs_resolve_other)


definition example_provider :: provider_config where
  "example_provider = \<lparr>pv_id = ''x'', pv_kind = ''openai_compatible'', pv_label = ''X'', pv_base_url = ''http://x'',
     pv_api_key = [], pv_models = [''m''], pv_model_meta = [], pv_supports_images = False\<rparr>"

definition example_settings :: settings_db where
  "example_settings = snd (add_provider ''u'' example_provider fresh_settings)"

lemma example_settings_sound: "configured example_settings"
  unfolding example_settings_def by (intro configured.intros)


text \<open>
  The exception: a provider of the user whose kind is changed to \<open>openai\<close> or \<open>anthropic\<close> is stored, and the update
  succeeds, but no reading shows it any more.
\<close>

theorem kind_change_hides_provider:
  assumes "update_provider p db = (Inr (), db')" "is_builtin p" "\<not> builtin_id (pv_id p)"
  shows "provider_by_id db' (pv_id p) = None"
proof -
  obtain ps where ps: "replace_first (\<lambda>q. pv_id q = pv_id p) p (providers_of db) = Some ps"
    "db' = write_providers ps (snd (read_providers db))"
    using assms(1) by (auto simp: update_provider_alt split: option.splits)
  then obtain a x b where x: "providers_of db = a @ x # b" "pv_id x = pv_id p" "ps = a @ p # b"
    by (blast dest: replace_first_SomeD)
  have "distinct (map pv_id (a @ x # b))" using heal_distinct [of "stored_providers db"] x(1) by (simp add: providers_of_heal)
  then have "\<not> (\<exists>q \<in> set ps. \<not> is_builtin q \<and> pv_id q = pv_id p)"
    using x(2,3) assms(2) by (auto simp: image_iff)
  with assms(3) show ?thesis using known_written [of ps _ "pv_id p"] ps(2) by blast
qed

lemma find_added: "\<not> list_ex P xs \<Longrightarrow> P x \<Longrightarrow> find P (xs @ [x]) = Some x"
  by (induction xs) auto

text \<open>a session that is created without naming a model while Auto is the active selection does not run in Auto mode when
  any provider lists a model: the default skips the Auto entry, which is no provider, takes that first model, and
  the session is pinned to it.\<close>

theorem new_session_misses_auto:
  assumes "ms_active (read_selection st) = Some r" "auto_ref r" "provider_by_id st ''auto'' = None"
    and "p \<in> set (providers_of st)" "pv_models p \<noteq> []"
    and "create_session_command now i folder title mode None None st db = Some (s, db')"
  shows "\<not> resolve_session_auto_mode st s \<and> (\<exists>q m. session_model st s = Inr (q, m) \<and> m \<in> set (pv_models q))"
proof -
  have none: "provider_by_id st (rf_provider_id r) = None"
    using assms(2,3) by (simp add: auto_ref_def is_auto_mode_def)
  obtain q where q: "find (\<lambda>p. pv_models p \<noteq> []) (providers_of st) = Some q"
    using assms(4,5) by (cases "find (\<lambda>p. pv_models p \<noteq> []) (providers_of st)") (auto simp: find_None_iff)
  then have q': "q \<in> set (providers_of st)" "pv_models q \<noteq> []" by (auto simp: find_Some_iff)
  have d: "default_session_model st = Some \<lparr>rf_provider_id = pv_id q, rf_model = hd (pv_models q)\<rparr>"
    using assms(1) none q by (simp add: default_session_model_def first_model_def)
  have s: "sr_provider s = Some (pv_id q) \<and> sr_model s = Some (hd (pv_models q))"
    using assms(6) d by (auto simp: create_session_command_def create_session_def get_session_def Let_def find_added
        split: if_splits)
  have found: "provider_by_id st (pv_id q) = Some q"
  proof -
    obtain k where k: "with_id (pv_id q) (providers_of st) = Some k"
      using q'(1) by (cases "with_id (pv_id q) (providers_of st)") (auto simp: with_id_None)
    then have "k \<in> set (providers_of st)" "pv_id k = pv_id q" by (auto dest: with_id_SomeD)
    then have "k = q" using q'(1) heal_distinct [of "stored_providers st"] unfolding providers_of_heal
      by (auto simp: distinct_map inj_on_def)
    with k show ?thesis by (simp add: provider_by_id_def)
  qed
  have "pv_id q \<noteq> ''auto''" using found assms(3) by auto
  then show ?thesis using s found q'(2)
    by (auto simp: resolve_session_auto_mode_def is_auto_mode_def session_model_def)
qed

theorem new_session_misses_auto_witness:
  "\<exists>s db'. create_session_command ''now'' ''s'' ''/p'' None None None None
       (snd (set_model_selection ''active'' ''auto'' ''auto'' example_settings)) new_db = Some (s, db') \<and>
     \<not> resolve_session_auto_mode (snd (set_model_selection ''active'' ''auto'' ''auto'' example_settings)) s"
proof -
  let ?st = "snd (set_model_selection ''active'' ''auto'' ''auto'' example_settings)"
  have active: "ms_active (read_selection ?st) = Some \<lparr>rf_provider_id = ''auto'', rf_model = ''auto''\<rparr>"
    by (simp add: set_model_selection_def is_auto_mode_def)
  have providers: "providers_of ?st = default_providers @ [example_provider]" by code_simp
  then have none: "provider_by_id ?st ''auto'' = None" by (simp add: provider_by_id_def) code_simp
  obtain s db' where s: "create_session_command ''now'' ''s'' ''/p'' None None None None ?st new_db = Some (s, db')"
    by (simp add: create_session_command_def create_session_def get_session_def new_db_def Let_def)
  have "\<not> resolve_session_auto_mode ?st s \<and> (\<exists>q m. session_model ?st s = Inr (q, m) \<and> m \<in> set (pv_models q))"
    by (rule new_session_misses_auto [OF active _ none _ _ s, of example_provider])
      (simp_all add: auto_ref_def is_auto_mode_def providers example_provider_def)
  with s show ?thesis by blast
qed

end
