(* ===== verification/Conversation.thy ===== *)
theory Conversation
  imports MessageStore LoopRuns Sessions
begin

section \<open>Taking up a conversation again (\<open>agent_bridge/commands.rs\<close>)\<close>

text \<open>
  From stored rows back to the history a loop starts with: the rows are rebuilt, decoded and the pairs of tool calls
  and results repaired, since a session can end between a call and its result. The theory also holds what the
  commands do to the stored conversation: clearing and compacting it, rewinding it, and showing it.
\<close>

subsection \<open>Repairing the pairs\<close>

definition unavailable_result :: rstr where
  "unavailable_result =
     ''[Tool result unavailable '' @ em_dash @ '' the call was denied or the session ended before completion.]''"

definition found_ids :: "rstr list \<Rightarrow> chat_message list \<Rightarrow> rstr list" where
  "found_ids expected results =
     filter (\<lambda>i. i \<in> set expected) (List.map_filter cm_tool_call_id results)"

definition missing_results :: "tool_call list \<Rightarrow> chat_message list \<Rightarrow> chat_message list" where
  "missing_results calls results =
     (let expected = map tc_id calls
      in map (\<lambda>i. tool_result_msg i unavailable_result)
           (filter (\<lambda>i. i \<notin> set (found_ids expected results)) expected))"

function sanitize_tool_pairs :: "chat_message list \<Rightarrow> chat_message list" where
  "sanitize_tool_pairs [] = []"
| "sanitize_tool_pairs (m # ms) =
     (if cm_role m = ''assistant'' then
        (case cm_tool_calls m of
           Some calls \<Rightarrow>
             m # takeWhile is_tool_msg ms @ missing_results calls (takeWhile is_tool_msg ms) @
             sanitize_tool_pairs (dropWhile is_tool_msg ms)
         | None \<Rightarrow> m # sanitize_tool_pairs ms)
      else if cm_role m = ''tool'' then sanitize_tool_pairs ms
      else m # sanitize_tool_pairs ms)"
  by pat_completeness auto
termination
  by (relation "measure length") (auto simp: le_imp_less_Suc length_dropWhile_le)

definition deserialize_context :: "image_host \<Rightarrow> image_store \<Rightarrow> message_row list \<Rightarrow> chat_message list" where
  "deserialize_context host st stored =
     sanitize_tool_pairs (List.map_filter (\<lambda>m. chat_of_json (lm_llm m)) (reconstruct_context host st stored))"

text \<open>What a turn resumes with (\<open>run_agent_turn\<close>); an empty context is passed as none.\<close>

definition prior_context :: "image_host \<Rightarrow> rstr \<Rightarrow> image_store \<times> agent_db \<Rightarrow> chat_message list option" where
  "prior_context host sess s =
     (let c = deserialize_context host (fst s) (load_session_for_context sess 500 (snd s))
      in if c = [] then None else Some c)"

subsection \<open>Repairing a history that was cut off\<close>

text \<open>Every batch of calls has distinct ids.\<close>

definition distinct_batches :: "chat_message list \<Rightarrow> bool" where
  "distinct_batches ms \<longleftrightarrow> (\<forall>m \<in> set ms. distinct (map tc_id (calls_of m)))"

lemma well_turned_suffix:
  "well_turned (xs @ m # ys) \<Longrightarrow> \<not> is_tool_msg m \<Longrightarrow> well_turned (m # ys)"
proof (induction xs arbitrary: m ys rule: measure_induct_rule [of length])
  case (less xs)
  show ?case
  proof (cases xs)
    case Nil
    with less.prems show ?thesis by simp
  next
    case (Cons x xs')
    with less.prems(1) have w: "well_turned (x # xs' @ m # ys)" by simp
    show ?thesis
    proof (cases "is_call_msg x")
      case True
      let ?n = "length (calls_of x)"
      from w True have a: "answers (calls_of x) (take ?n (xs' @ m # ys))" and rest: "well_turned (drop ?n (xs' @ m # ys))"
        by (auto split: if_splits)
      have "?n \<le> length xs'"
      proof (rule ccontr)
        assume "\<not> ?n \<le> length xs'"
        then have "m \<in> set (take ?n (xs' @ m # ys))" by (simp add: take_Cons')
        with answers_tool [OF a] less.prems(2) show False by blast
      qed
      with rest have "well_turned (drop ?n xs' @ m # ys)" by simp
      with less.IH [of "drop ?n xs'"] less.prems(2) Cons show ?thesis by simp
    next
      case False
      with w have "well_turned (xs' @ m # ys)" by (auto split: if_splits)
      with less.IH [of xs'] less.prems(2) Cons show ?thesis by simp
    qed
  qed
qed

lemma first_not_tool: "well_turned (m # ms) \<Longrightarrow> \<not> is_tool_msg m"
  by (simp split: if_splits)

lemma sanitize_leading_tools: "sanitize_tool_pairs (dropWhile is_tool_msg ms) = sanitize_tool_pairs ms"
  by (induction ms) (auto simp: is_tool_msg_def)

lemma answers_prefix:
  assumes "answers tcs (results @ rest)" "distinct (map tc_id tcs)"
  shows "answers tcs (results @ missing_results tcs results)"
proof -
  let ?k = "length results"
  have split: "tcs = take ?k tcs @ drop ?k tcs" by simp
  from assms(1) obtain us vs where "tcs = us @ vs" "length us = ?k" "answers us results"
    unfolding answers_def list_all2_append2 by blast
  then have a: "answers (take ?k tcs) results" by simp
  then have ids: "List.map_filter cm_tool_call_id results = map tc_id (take ?k tcs)"
    unfolding answers_def by (induction rule: list_all2_induct) (auto simp: List.map_filter_simps)
  have "found_ids (map tc_id tcs) results = map tc_id (take ?k tcs)"
    unfolding found_ids_def ids by (rule filter_eq_if_all) (auto dest: in_set_takeD)
  moreover have "filter (\<lambda>i. i \<notin> set (map tc_id (take ?k tcs))) (map tc_id tcs) = map tc_id (drop ?k tcs)"
  proof -
    have "map tc_id tcs = map tc_id (take ?k tcs) @ map tc_id (drop ?k tcs)"
      by (metis split map_append)
    with assms(2) have "set (map tc_id (take ?k tcs)) \<inter> set (map tc_id (drop ?k tcs)) = {}"
      by (metis distinct_append)
    then have "filter (\<lambda>i. i \<notin> set (map tc_id (take ?k tcs))) (map tc_id (drop ?k tcs)) = map tc_id (drop ?k tcs)"
      by (intro filter_eq_if_all) blast
    moreover have "filter (\<lambda>i. i \<notin> set (map tc_id (take ?k tcs))) (map tc_id (take ?k tcs)) = []"
      by (simp add: filter_empty_conv)
    ultimately show ?thesis
      using \<open>map tc_id tcs = map tc_id (take ?k tcs) @ map tc_id (drop ?k tcs)\<close> by (metis append_Nil filter_append)
  qed
  ultimately have "missing_results tcs results = map (\<lambda>tc. tool_result_msg (tc_id tc) unavailable_result) (drop ?k tcs)"
    by (simp add: missing_results_def Let_def comp_def)
  moreover have "answers ts (map (\<lambda>tc. tool_result_msg (tc_id tc) unavailable_result) ts)" for ts
    by (simp add: answers_def list_all2_conv_all_nth is_tool_msg_def tool_result_msg_def)
  ultimately have "answers (take ?k tcs @ drop ?k tcs) (results @ missing_results tcs results)"
    using a unfolding answers_def by (simp only: list_all2_appendI)
  then show ?thesis by (simp only: append_take_drop_id)
qed

text \<open>
  Whatever part of a history made of turns was stored, what comes out is made of turns again: results without their
  call are left out at the front, and the results that are missing at the end are filled in.
\<close>

lemma sanitize_cut_off:
  assumes "well_turned (ms @ rest)" "distinct_batches ms"
  shows "well_turned (sanitize_tool_pairs ms) \<and> (\<exists>fill. sanitize_tool_pairs ms = ms @ fill)"
  using assms
proof (induction ms rule: sanitize_tool_pairs.induct)
  case (2 m ms)
  show ?case
  proof (cases "is_call_msg m")
    case True
    then obtain calls where c: "cm_role m = ''assistant''" "cm_tool_calls m = Some calls" "calls_of m = calls"
      by (auto simp: is_call_msg_def calls_of_def)
    let ?results = "takeWhile is_tool_msg ms" and ?later = "dropWhile is_tool_msg ms"
    have a: "answers calls (take (length calls) (ms @ rest))" "calls \<noteq> []"
      and after: "well_turned (drop (length calls) (ms @ rest))"
      using "2.prems"(1) True c(3) by (auto split: if_splits)
    have d: "distinct (map tc_id calls)" and d': "distinct_batches ?later"
      using "2.prems"(2) c(3) by (auto simp: distinct_batches_def dest: set_dropWhileD)
    have IH: "well_turned (?later @ rest) \<Longrightarrow> well_turned (sanitize_tool_pairs ?later) \<and>
        (\<exists>fill. sanitize_tool_pairs ?later = ?later @ fill)"
      using "2.IH"(2) [OF c(1) c(2)] d' by blast
    have s: "sanitize_tool_pairs (m # ms) = m # ?results @ missing_results calls ?results @ sanitize_tool_pairs ?later"
      using c by simp
    have part: "well_turned (m # results) = answers calls results" if "length results = length calls" for results
      using that c a(2) by (simp add: is_tool_msg_def is_call_msg_def)
    show ?thesis
    proof (cases "?later = []")
      case True
      then have ms: "ms = ?results" by (metis append_Nil2 takeWhile_dropWhile_id)
      have "length ?results \<le> length calls"
      proof (rule ccontr)
        assume "\<not> length ?results \<le> length calls"
        with ms have "drop (length calls) (ms @ rest) = ms ! length calls # drop (Suc (length calls)) ms @ rest"
          by (simp add: Cons_nth_drop_Suc)
        with after have "\<not> is_tool_msg (ms ! length calls)" by (simp only: first_not_tool not_False_eq_True)
        with ms \<open>\<not> length ?results \<le> length calls\<close> show False by (metis nth_mem set_takeWhileD not_le_imp_less)
      qed
      with a(1) ms have "answers calls (?results @ take (length calls - length ?results) rest)" by simp
      from answers_prefix [OF this d] have "answers calls (?results @ missing_results calls ?results)" .
      with part [OF answers_length [OF this]] s True ms show ?thesis by simp
    next
      case False
      then obtain x xs where x: "?later = x # xs" "\<not> is_tool_msg x"
        by (metis hd_dropWhile list.exhaust list.sel(1))
      have ms: "ms = ?results @ x # xs" by (metis x(1) takeWhile_dropWhile_id)
      have n: "length ?results = length calls"
      proof (rule linorder_cases [of "length ?results" "length calls"])
        assume "length ?results < length calls"
        then have "x \<in> set (take (length calls) (ms @ rest))"
          by (subst ms) (simp add: take_Cons')
        with answers_tool [OF a(1)] x(2) show ?thesis by blast
      next
        assume g: "length calls < length ?results"
        then have "drop (length calls) (ms @ rest) = ?results ! length calls # drop (Suc (length calls)) ?results @ x # xs @ rest"
          by (subst ms) (simp add: Cons_nth_drop_Suc)
        with after have "\<not> is_tool_msg (?results ! length calls)" by (simp only: first_not_tool not_False_eq_True)
        with g show ?thesis by (metis nth_mem set_takeWhileD)
      qed simp
      have r: "take (length calls) (ms @ rest) = ?results" by (subst ms) (simp add: n)
      have "drop (length calls) (ms @ rest) = ?later @ rest" unfolding x(1) by (subst ms) (simp add: n)
      with after IH have later: "well_turned (sanitize_tool_pairs ?later)" "\<exists>fill. sanitize_tool_pairs ?later = ?later @ fill"
        by simp_all
      from a(1) r have full: "answers calls ?results" by simp
      have none: "missing_results calls ?results = []"
      proof -
        have "answers calls (?results @ missing_results calls ?results)" using answers_prefix [of calls ?results "[]"] full d by simp
        from answers_length [OF this] n show ?thesis by simp
      qed
      have "well_turned ((m # ?results) @ sanitize_tool_pairs ?later)"
        by (rule well_turned_append) (simp_all add: part n full later(1) del: well_turned.simps)
      moreover have "(m # ?results) @ ?later = m # ms" by simp
      ultimately show ?thesis using s none later(2) by (metis append.assoc append_Cons append_Nil)
    qed
  next
    case False
    with "2.prems" have m: "\<not> is_tool_msg m" "cm_tool_calls m = None" and ms: "well_turned (ms @ rest)" "distinct_batches ms"
      by (simp_all add: distinct_batches_def split: if_splits)
    then have plain: "plain_msg m" by (simp add: plain_msg_def)
    have "well_turned (sanitize_tool_pairs ms) \<and> (\<exists>fill. sanitize_tool_pairs ms = ms @ fill)"
      using "2.IH"(1) [OF _ m(2) ms] "2.IH"(4) [OF _ _ ms] m(1) by (cases "cm_role m = ''assistant''") (simp_all add: is_tool_msg_def)
    moreover have "sanitize_tool_pairs (m # ms) = m # sanitize_tool_pairs ms" using m by (simp add: is_tool_msg_def)
    ultimately show ?thesis using plain_msg_Cons [OF plain] by (metis append_Cons)
  qed
qed simp

lemma sanitize_piece:
  assumes "well_turned (before @ ms @ rest)" "distinct_batches ms"
  shows "well_turned (sanitize_tool_pairs ms)" "\<exists>fill. sanitize_tool_pairs ms = dropWhile is_tool_msg ms @ fill"
proof -
  let ?later = "dropWhile is_tool_msg ms"
  have "well_turned (sanitize_tool_pairs ?later) \<and> (\<exists>fill. sanitize_tool_pairs ?later = ?later @ fill)"
  proof (cases ?later)
    case (Cons x xs)
    then have x: "\<not> is_tool_msg x" by (metis hd_dropWhile list.sel(1) list.distinct(1))
    have "before @ ms @ rest = (before @ takeWhile is_tool_msg ms) @ x # xs @ rest"
      using Cons by (metis append.assoc append_Cons takeWhile_dropWhile_id)
    with assms(1) have "well_turned ((before @ takeWhile is_tool_msg ms) @ x # xs @ rest)" by simp
    from well_turned_suffix [OF this x] have "well_turned (?later @ rest)" by (simp only: Cons append_Cons)
    moreover have "distinct_batches ?later" using assms(2) by (auto simp: distinct_batches_def dest: set_dropWhileD)
    ultimately show ?thesis by (rule sanitize_cut_off)
  next
    case Nil
    show ?thesis unfolding Nil by simp
  qed
  then show "well_turned (sanitize_tool_pairs ms)" "\<exists>fill. sanitize_tool_pairs ms = ?later @ fill"
    by (simp_all add: sanitize_leading_tools)
qed

lemma missing_none: "answers calls results \<Longrightarrow> distinct (map tc_id calls) \<Longrightarrow> missing_results calls results = []"
  using answers_prefix [of calls results "[]"] answers_length [of calls results]
    answers_length [of calls "results @ missing_results calls results"] by simp

lemma well_turned_head: "well_turned ms \<Longrightarrow> takeWhile is_tool_msg ms = [] \<and> dropWhile is_tool_msg ms = ms"
  by (cases ms) (auto split: if_splits)

lemma sanitize_whole: "well_turned ms \<Longrightarrow> distinct_batches ms \<Longrightarrow> sanitize_tool_pairs ms = ms"
proof (induction ms rule: well_turned.induct)
  case (2 m ms)
  show ?case
  proof (cases "is_call_msg m")
    case True
    let ?n = "length (calls_of m)"
    obtain calls where c: "cm_role m = ''assistant''" "cm_tool_calls m = Some calls" "calls_of m = calls"
      using True by (auto simp: is_call_msg_def calls_of_def)
    from 2 True have a: "answers calls (take ?n ms)" "well_turned (drop ?n ms)" "\<not> is_tool_msg m"
      using c(3) by (auto split: if_splits)
    have tools: "\<forall>r \<in> set (take ?n ms). is_tool_msg r" using answers_tool [OF a(1)] by blast
    have split: "takeWhile is_tool_msg ms = take ?n ms" "dropWhile is_tool_msg ms = drop ?n ms"
      using takeWhile_append2 [of "take ?n ms" is_tool_msg "drop ?n ms"] dropWhile_append2 [of "take ?n ms" is_tool_msg "drop ?n ms"]
        tools well_turned_head [OF a(2)] by simp_all
    have d: "distinct (map tc_id calls)" "distinct_batches (drop ?n ms)"
      using "2.prems"(2) c(3) by (auto simp: distinct_batches_def dest: in_set_dropD)
    have "sanitize_tool_pairs (drop ?n ms) = drop ?n ms" by (rule "2.IH"(1)) (use True a d in simp_all)
    then show ?thesis using c missing_none [OF a(1) d(1)] by (simp add: split)
  next
    case False
    with "2.prems"(1) have m: "well_turned ms" "cm_tool_calls m = None" "\<not> is_tool_msg m" by (simp_all split: if_splits)
    have "sanitize_tool_pairs ms = ms"
      by (rule "2.IH"(2)) (use False m "2.prems"(2) in \<open>simp_all add: distinct_batches_def\<close>)
    with m show ?thesis by (simp add: is_tool_msg_def)
  qed
qed simp

subsection \<open>What is loaded is the end of what is stored\<close>

definition wf_db :: "agent_db \<Rightarrow> bool" where
  "wf_db db \<longleftrightarrow> 0 < db_next db \<and> sorted_wrt (\<lambda>a b. mr_id a < mr_id b) (db_messages db) \<and>
     (\<forall>r \<in> set (db_messages db). mr_id r < db_next db \<and> (context_row r \<or> mr_llm r = JObj []))"

definition turn_rows :: "rstr \<Rightarrow> agent_db \<Rightarrow> message_row list" where
  "turn_rows sess db = filter context_row (active_rows sess db)"

definition row_chats :: "image_host \<Rightarrow> image_store \<Rightarrow> message_row list \<Rightarrow> chat_message list" where
  "row_chats host st rows = List.map_filter (\<lambda>r. chat_of_json (inline_images host st (mr_session r) (mr_llm r))) rows"

lemma row_chats_append: "row_chats host st (xs @ ys) = row_chats host st xs @ row_chats host st ys"
  by (simp add: row_chats_def List.map_filter_def)

lemma row_chats_Cons:
  "row_chats host st (r # rows) =
     (case chat_of_json (inline_images host st (mr_session r) (mr_llm r)) of
        None \<Rightarrow> row_chats host st rows | Some m \<Rightarrow> m # row_chats host st rows)"
  by (simp add: row_chats_def List.map_filter_simps split: option.split)

lemma chats_of_loaded:
  "List.map_filter (\<lambda>m. chat_of_json (lm_llm m)) (map (stored_to_agent_message host st) rows) = row_chats host st rows"
proof -
  have "lm_llm (stored_to_agent_message host st r) = inline_images host st (mr_session r) (mr_llm r)" for r
    by (simp add: stored_to_agent_message_def Let_def)
  then show ?thesis by (simp add: row_chats_def List.map_filter_def filter_map comp_def)
qed

lemma marker_decodes: "chat_of_json (inline_images host st sess (JObj [])) = None"
  by (simp add: inline_images_def get_array_def chat_of_json_def get_str_def)

lemma row_chats_filter:
  "(\<forall>r \<in> set rows. context_row r \<or> mr_llm r = JObj []) \<Longrightarrow> row_chats host st (filter context_row rows) = row_chats host st rows"
  by (induction rows) (auto simp: row_chats_Cons marker_decodes row_chats_def split: option.splits)

lemma filter_from_suffix:
  "sorted_wrt (\<lambda>a b. f a < f b) xs \<Longrightarrow> suffix (filter (\<lambda>x. (k::nat) \<le> f x) xs) xs"
proof (induction xs)
  case (Cons x xs)
  show ?case
  proof (cases "k \<le> f x")
    case True
    with Cons.prems have "filter (\<lambda>x. k \<le> f x) (x # xs) = x # xs"
      by (intro filter_eq_if_all) (auto intro: order.trans less_imp_le)
    then show ?thesis by simp
  next
    case False
    with Cons show ?thesis by (auto simp: suffix_ConsI)
  qed
qed simp

lemma suffix_last_rows: "suffix (last_rows n xs) xs"
  by (simp add: last_rows_def suffix_drop)

lemma turn_rows_sorted: "wf_db db \<Longrightarrow> sorted_wrt (\<lambda>a b. mr_id a < mr_id b) (turn_rows sess db)"
  by (simp add: wf_db_def turn_rows_def active_rows_def sorted_wrt_filter)

lemma context_suffix:
  assumes "wf_db db"
  shows "suffix (load_session_for_context sess limit db) (turn_rows sess db)"
proof -
  have conj: "filter (\<lambda>r. P r \<and> context_row r) (active_rows sess db) = filter P (turn_rows sess db)" for P
    by (simp add: turn_rows_def conj_commute)
  note from_id = filter_from_suffix [OF turn_rows_sorted [OF assms]]
  show ?thesis
  proof (cases "last_compaction_id sess db")
    case None
    have "suffix (last_rows limit (filter (\<lambda>r. mr_id r > reset_floor sess db) (turn_rows sess db))) (turn_rows sess db)"
      using suffix_order.trans [OF suffix_last_rows from_id [of "Suc (reset_floor sess db)"]] by (simp add: Suc_le_eq)
    with None show ?thesis
      unfolding load_session_for_context_def by (simp add: conj suffix_order.trans [OF suffix_dropWhile])
  next
    case (Some c)
    then show ?thesis
      unfolding load_session_for_context_def
      using suffix_order.trans [OF suffix_dropWhile from_id [of "context_start sess c db"]] by (simp add: conj)
  qed
qed

text \<open>
  The interface between the store and whoever takes up a conversation: what is loaded is, markers aside, the end of
  what is stored. Both ways of loading keep to it.
\<close>

locale context_loader =
  fixes load :: "rstr \<Rightarrow> agent_db \<Rightarrow> message_row list"
  assumes load_suffix: "wf_db db \<Longrightarrow> suffix (filter context_row (load sess db)) (turn_rows sess db)"
    and load_rows: "set (load sess db) \<subseteq> set (db_messages db)"
begin

lemma reconstructed:
  assumes "wf_db db"
  shows "\<exists>xs. suffix xs (row_chats host st (turn_rows sess db)) \<and> deserialize_context host st (load sess db) = sanitize_tool_pairs xs"
proof -
  obtain k where k: "reconstruct_context host st (load sess db) = map (stored_to_agent_message host st) (drop k (load sess db))"
    by (cases "last_position (\<lambda>m. mr_type m = ''compaction'') (load sess db)")
      (auto simp: reconstruct_context_def Let_def intro: that [of 0])
  have "suffix (filter context_row (drop k (load sess db))) (filter context_row (load sess db))"
    by (metis append_take_drop_id filter_append suffixI)
  then have "suffix (filter context_row (drop k (load sess db))) (turn_rows sess db)"
    using load_suffix [OF assms] by (rule suffix_order.trans)
  then have "suffix (row_chats host st (filter context_row (drop k (load sess db)))) (row_chats host st (turn_rows sess db))"
    by (auto simp: suffix_def row_chats_append)
  moreover have "row_chats host st (filter context_row (drop k (load sess db))) = row_chats host st (drop k (load sess db))"
    using assms load_rows [of sess db] by (intro row_chats_filter) (auto simp: wf_db_def dest!: in_set_dropD)
  ultimately show ?thesis
    unfolding deserialize_context_def k chats_of_loaded by auto
qed

lemma taken_up_turned:
  assumes "wf_db db" "well_turned (row_chats host st (turn_rows sess db) @ rest)"
    "distinct_batches (row_chats host st (turn_rows sess db))"
  shows "well_turned (deserialize_context host st (load sess db))"
proof -
  obtain xs before where "row_chats host st (turn_rows sess db) = before @ xs"
    "deserialize_context host st (load sess db) = sanitize_tool_pairs xs"
    using reconstructed [OF assms(1), of host st sess] unfolding suffix_def by blast
  with sanitize_piece(1) [of before xs rest] assms(2,3) show ?thesis by (auto simp: distinct_batches_def)
qed

end

lemma context_rows_of: "set (load_session_for_context sess limit db) \<subseteq> set (turn_rows sess db)"
  by (auto simp: load_session_for_context_def last_rows_def turn_rows_def split: option.splits dest!: set_dropWhileD in_set_dropD)

interpretation resumed: context_loader "\<lambda>sess. load_session_for_context sess limit" for limit
proof
  fix db sess
  have "filter context_row (load_session_for_context sess limit db) = load_session_for_context sess limit db"
    using context_rows_of [of sess limit db] by (intro filter_eq_if_all) (auto simp: turn_rows_def)
  then show "wf_db db \<Longrightarrow> suffix (filter context_row (load_session_for_context sess limit db)) (turn_rows sess db)"
    by (simp add: context_suffix)
  show "set (load_session_for_context sess limit db) \<subseteq> set (db_messages db)"
    using context_rows_of [of sess limit db] by (auto simp: turn_rows_def active_rows_def)
qed

interpretation whole: context_loader load_session_messages
  by unfold_locales (auto simp: load_session_messages_def turn_rows_def active_rows_def)

subsection \<open>The next turn\<close>

lemma session_loop_start:
  "ls_messages (session_loop cfg req w) = system_messages (lc_system_prompt cfg) @ (case sq_context req of Some c \<Rightarrow> c | None \<Rightarrow> [])"
  "ls_sent (session_loop cfg req w) = []"
proof -
  have persisted: "ls_messages (fold (\<lambda>msg. persist_fire_and_forget cfg (f msg)) ms st) = ls_messages st"
    "ls_sent (fold (\<lambda>msg. persist_fire_and_forget cfg (f msg)) ms st) = ls_sent st" for f ms st
    by (induction ms arbitrary: st) (simp_all add: persist_fire_and_forget_def)
  show "ls_messages (session_loop cfg req w) = system_messages (lc_system_prompt cfg) @ (case sq_context req of Some c \<Rightarrow> c | None \<Rightarrow> [])"
    "ls_sent (session_loop cfg req w) = []"
    by (cases "sq_tokens req"; cases "sq_turn_offset req"; cases "sq_context req";
      simp add: session_loop_def seed_context_def with_persister_def with_provider_def with_resumed_context_def
        with_initial_context_def with_initial_token_count_def with_turn_offset_def Let_def persisted)+
qed


end
