(* ===== verification/Reload.thy ===== *)
theory Reload
  imports Conversation
begin

section \<open>Stored messages come back\<close>

text \<open>
  What \<open>persist_message\<close> stores, \<open>load_context\<close> gives back: images go through files and return as they were,
  as long as their media type is one the file extension can name.
\<close>

subsection \<open>Images\<close>

text \<open>
  What is relied on of the libraries: Base64 text that decodes is the encoding of what it decodes to (the standard
  engine rejects text that is not canonical), and unique ids are distinct file stems.
\<close>

definition sound_images :: "image_host \<Rightarrow> bool" where
  "sound_images host \<longleftrightarrow>
     (\<forall>s b. im_decode host s = Some b \<longrightarrow> im_encode host b = s) \<and> inj (im_uuid host) \<and>
     (\<forall>n. im_uuid host n \<noteq> [] \<and> CHR ''.'' \<notin> set (im_uuid host n) \<and> CHR ''/'' \<notin> set (im_uuid host n))"

definition known_media :: "rstr list" where
  "known_media = [''image/png'', ''image/jpeg'', ''image/gif'', ''image/webp'', ''image/svg+xml'', ''image/bmp'']"

definition plain_image :: "rstr \<Rightarrow> bool" where
  "plain_image u \<longleftrightarrow> \<not> prefix image_ref_prefix u \<and>
     (prefix ''data:'' u \<longrightarrow> (\<exists>media \<in> set known_media. \<exists>d. u = ''data:'' @ media @ '';base64,'' @ d))"

definition plain_images :: "chat_message \<Rightarrow> bool" where
  "plain_images m \<longleftrightarrow>
     (case cm_content m of Some (MBlocks bs) \<Rightarrow> (\<forall>b \<in> set bs. case b of ImageUrl u d \<Rightarrow> plain_image u | _ \<Rightarrow> True) | _ \<Rightarrow> True)"

lemma known_media_parse:
  "media \<in> set known_media \<Longrightarrow> parse_data_uri (''data:'' @ media @ '';base64,'' @ d) = Some (media, d)"
  by (auto simp: known_media_def parse_data_uri_def split_once_def strip_prefix_def strip_suffix_def suffix_def Let_def)

lemma media_round: "media \<in> set known_media \<Longrightarrow> media_for_ext (ext_for_media media) = media"
  by (auto simp: known_media_def media_for_ext_def ext_for_media_def)

lemma ext_plain: "CHR ''.'' \<notin> set (ext_for_media media)" "CHR ''/'' \<notin> set (ext_for_media media)" "ext_for_media media \<noteq> []"
  by (simp_all add: ext_for_media_def)

lemma file_extension:
  assumes "CHR ''/'' \<notin> set stem" "CHR ''/'' \<notin> set e" "CHR ''.'' \<notin> set e" "stem \<noteq> []" "CHR ''.'' \<notin> set stem" "e \<noteq> []"
  shows "extension (stem @ ''.'' @ e) = Some e"
proof -
  have "CHR ''/'' \<notin> set (stem @ ''.'' @ e)" using assms(1,2) by simp
  then have segs: "split_char (CHR ''/'') (stem @ ''.'' @ e) = [stem @ ''.'' @ e]"
    unfolding split_char_def by (simp add: split_char_from_absent)
  have "hd (stem @ ''.'' @ e) \<noteq> CHR ''/''" using assms(1,4) by (cases stem) auto
  then have rel: "\<not> is_absolute (stem @ ''.'' @ e)"
    using assms(4) by (cases stem) (auto simp: is_absolute_def starts_with_def)
  have "stem @ ''.'' @ e \<noteq> ''.''" "stem @ ''.'' @ e \<noteq> ''..''"
    using assms(4-6) by (cases stem; auto)+
  then have "file_name (stem @ ''.'' @ e) = Some (stem @ ''.'' @ e)"
    using assms(4) rel segs by (simp add: file_name_def components_def to_component_def trivial_segment_def)
  moreover have "takeWhile (\<lambda>c. c \<noteq> CHR ''.'') (rev e @ ''.'' @ rev stem) = rev e"
    "dropWhile (\<lambda>c. c \<noteq> CHR ''.'') (rev e @ ''.'' @ rev stem) = ''.'' @ rev stem"
    using assms(3) by (simp_all add: takeWhile_append dropWhile_append)
  ultimately show ?thesis using assms(4) by (simp add: extension_def Let_def)
qed

lemma block_url_simps [simp]:
  "block_url (block_to_json (TextBlock t cc)) = None"
  "block_url (block_to_json (ImageUrl u d)) = Some u"
  "set_block_url v (block_to_json (ImageUrl u d)) = block_to_json (ImageUrl v d)"
  by (cases cc; simp add: block_url_def opt_member_def)
    (cases d; simp add: block_url_def set_block_url_def opt_member_def get_str_def json_insert_def)+

declare block_to_json.simps [simp del]

text \<open>File names are only used once, so files written later leave the earlier ones alone.\<close>

definition image_inv :: "image_host \<Rightarrow> image_store \<Rightarrow> bool" where
  "image_inv host st \<longleftrightarrow>
     (\<forall>s f b. is_files st s f = Some b \<longrightarrow> (\<exists>n e. n < is_drawn st \<and> CHR ''.'' \<notin> set e \<and> f = im_uuid host n @ ''.'' @ e))"

definition grown :: "image_store \<Rightarrow> image_store \<Rightarrow> bool" where
  "grown st st' \<longleftrightarrow> is_drawn st \<le> is_drawn st' \<and> (\<forall>s f b. is_files st s f = Some b \<longrightarrow> is_files st' s f = Some b)"

lemma grown_refl: "grown st st" by (simp add: grown_def)

lemma grown_trans: "grown a b \<Longrightarrow> grown b c \<Longrightarrow> grown a c" by (fastforce simp: grown_def)

lemma image_invD:
  assumes "image_inv host st" "is_files st s f = Some b"
  obtains n e where "n < is_drawn st" "CHR ''.'' \<notin> set e" "f = im_uuid host n @ ''.'' @ e"
  using assms unfolding image_inv_def by blast

lemma image_inv_drawn: "image_inv host st \<Longrightarrow> image_inv host (st\<lparr>is_drawn := Suc (is_drawn st)\<rparr>)"
  unfolding image_inv_def by (metis (no_types, lifting) image_store.select_convs(1) image_store.surjective
    image_store.update_convs(2) image_store.select_convs(2) less_SucI)

lemma image_inv_new:
  assumes "image_inv host st" "CHR ''.'' \<notin> set e"
  shows "image_inv host (st\<lparr>is_drawn := Suc (is_drawn st),
    is_files := (is_files st)(sess := (is_files st sess)(im_uuid host (is_drawn st) @ ''.'' @ e := Some bytes))\<rparr>)"
  unfolding image_inv_def
proof (intro allI impI)
  fix s f b
  assume f: "is_files (st\<lparr>is_drawn := Suc (is_drawn st),
    is_files := (is_files st)(sess := (is_files st sess)(im_uuid host (is_drawn st) @ ''.'' @ e := Some bytes))\<rparr>) s f = Some b"
  show "\<exists>n e'. n < is_drawn (st\<lparr>is_drawn := Suc (is_drawn st),
    is_files := (is_files st)(sess := (is_files st sess)(im_uuid host (is_drawn st) @ ''.'' @ e := Some bytes))\<rparr>) \<and>
      CHR ''.'' \<notin> set e' \<and> f = im_uuid host n @ ''.'' @ e'"
  proof (cases "f = im_uuid host (is_drawn st) @ ''.'' @ e")
    case False
    with f have "is_files st s f = Some b" by (auto split: if_splits)
    from image_invD [OF assms(1) this] obtain n e' where "n < is_drawn st" "CHR ''.'' \<notin> set e'"
      "f = im_uuid host n @ ''.'' @ e'" .
    then show ?thesis by (intro exI [of _ n] exI [of _ e']) simp
  qed (use assms(2) in auto)
qed

text \<open>A stored block from which the original can be had, now and later\<close>

definition recovers :: "image_host \<Rightarrow> rstr \<Rightarrow> image_store \<Rightarrow> json \<Rightarrow> json \<Rightarrow> bool" where
  "recovers host sess st j orig \<longleftrightarrow> (\<forall>st'. grown st st' \<longrightarrow> inline_block host st' sess j = orig)"

lemma uuid_file_eq:
  assumes "sound_images host" "CHR ''.'' \<notin> set e" "CHR ''.'' \<notin> set e'" "im_uuid host n @ ''.'' @ e = im_uuid host m @ ''.'' @ e'"
  shows "n = m"
proof -
  have "takeWhile (\<lambda>c. c \<noteq> CHR ''.'') (im_uuid host k @ ''.'' @ x) = im_uuid host k" for k x
    using assms(1) by (simp add: sound_images_def takeWhile_append)
  with assms(4) have "im_uuid host n = im_uuid host m" by metis
  with assms(1) show ?thesis by (simp add: sound_images_def inj_eq)
qed

lemma externalize_block_recovers:
  assumes "sound_images host" "image_inv host st" "case b of ImageUrl u d \<Rightarrow> plain_image u | _ \<Rightarrow> True"
    "externalize_block host sess (block_to_json b) st = (j, st')"
  shows "image_inv host st' \<and> grown st st' \<and> recovers host sess st' j (block_to_json b)"
proof -
  have untouched: "recovers host sess st'' (block_to_json b) (block_to_json b)" for st''
    using assms(3) by (cases b) (auto simp: recovers_def inline_block_def plain_image_def strip_prefix_def)
  show ?thesis
  proof (cases "\<exists>u d media data bytes. b = ImageUrl u d \<and> starts_with u ''data:'' \<and> parse_data_uri u = Some (media, data) \<and>
      im_decode host data = Some bytes")
    case False
    then have "externalize_block host sess (block_to_json b) st = (block_to_json b, st)"
      by (cases b) (auto simp: externalize_block_def split: option.splits bind_splits)
    with assms(2,4) untouched grown_refl show ?thesis by simp
  next
    case True
    then obtain u d media data bytes where b: "b = ImageUrl u d" "starts_with u ''data:''"
      "parse_data_uri u = Some (media, data)" "im_decode host data = Some bytes" by blast
    define fname where "fname = im_uuid host (is_drawn st) @ ''.'' @ ext_for_media media"
    have e: "externalize_block host sess (block_to_json b) st =
        (if im_can_write host sess fname then
           (block_to_json (ImageUrl (image_ref_prefix @ fname) d),
            st\<lparr>is_drawn := Suc (is_drawn st), is_files := (is_files st)(sess := (is_files st sess)(fname := Some bytes))\<rparr>)
         else (block_to_json b, st\<lparr>is_drawn := Suc (is_drawn st)\<rparr>))"
      using b by (simp add: externalize_block_def fname_def Let_def)
    show ?thesis
    proof (cases "im_can_write host sess fname")
      case False
      with e assms(4) have "j = block_to_json b" "st' = st\<lparr>is_drawn := Suc (is_drawn st)\<rparr>" by simp_all
      then show ?thesis using untouched image_inv_drawn [OF assms(2)] by (simp add: grown_def)
    next
      case True
      with e assms(4) have j: "j = block_to_json (ImageUrl (image_ref_prefix @ fname) d)"
        and st': "st' = st\<lparr>is_drawn := Suc (is_drawn st), is_files := (is_files st)(sess := (is_files st sess)(fname := Some bytes))\<rparr>"
        by simp_all
      have new: "is_files st s fname = None" for s
      proof (rule ccontr)
        assume "is_files st s fname \<noteq> None"
        then obtain bs where "is_files st s fname = Some bs" by blast
        from image_invD [OF assms(2) this] obtain n e where "n < is_drawn st" "CHR ''.'' \<notin> set e"
          "fname = im_uuid host n @ ''.'' @ e" .
        with uuid_file_eq [OF assms(1) ext_plain(1) _ , of e "is_drawn st" media n] show False by (simp add: fname_def)
      qed
      have inv: "image_inv host st'"
        unfolding st' fname_def by (rule image_inv_new [OF assms(2) ext_plain(1)])
      have "grown st st'" using new by (auto simp: st' grown_def)
      obtain d' media' where u: "u = ''data:'' @ media' @ '';base64,'' @ d'" "media' \<in> set known_media"
        using assms(3) b(1,2) by (auto simp: plain_image_def starts_with_def)
      with known_media_parse b(3) have m: "media' = media" "d' = data" by auto
      have ext: "extension fname = Some (ext_for_media media)"
        unfolding fname_def using assms(1) by (intro file_extension) (simp_all add: sound_images_def ext_plain)
      have "recovers host sess st' j (block_to_json b)"
      proof -
        have "strip_prefix (image_ref_prefix @ fname) image_ref_prefix = Some fname" by (simp add: strip_prefix_def)
        moreover have "im_encode host bytes = data" using assms(1) b(4) by (simp add: sound_images_def)
        ultimately show ?thesis
          using u m b(1) media_round [of media]
          by (auto simp: recovers_def j inline_block_def grown_def st' ext)
      qed
      with inv \<open>grown st st'\<close> show ?thesis by blast
    qed
  qed
qed

subsection \<open>Messages\<close>

lemma recovers_grown: "recovers host sess st j orig \<Longrightarrow> grown st st' \<Longrightarrow> recovers host sess st' j orig"
  by (auto simp: recovers_def intro: grown_trans)

lemma externalize_blocks_recovers:
  assumes "sound_images host"
  shows "image_inv host st \<Longrightarrow> \<forall>b \<in> set bs. case b of ImageUrl u d \<Rightarrow> plain_image u | _ \<Rightarrow> True \<Longrightarrow>
    externalize_blocks host sess (map block_to_json bs) st = (js, st') \<Longrightarrow>
    image_inv host st' \<and> grown st st' \<and> list_all2 (\<lambda>j b. recovers host sess st' j (block_to_json b)) js bs"
proof (induction bs arbitrary: st js)
  case Nil
  then show ?case by (simp add: grown_refl)
next
  case (Cons b bs)
  obtain j st1 where b: "externalize_block host sess (block_to_json b) st = (j, st1)" by fastforce
  obtain js1 st2 where bs: "externalize_blocks host sess (map block_to_json bs) st1 = (js1, st2)" by fastforce
  from externalize_block_recovers [OF assms Cons.prems(1) _ b] Cons.prems(2)
  have one: "image_inv host st1" "grown st st1" "recovers host sess st1 j (block_to_json b)" by simp_all
  from Cons.prems(3) b bs have eqs: "js = j # js1" "st' = st2" by auto
  have "image_inv host st' \<and> grown st1 st' \<and> list_all2 (\<lambda>j b. recovers host sess st' j (block_to_json b)) js1 bs"
    by (rule Cons.IH [OF one(1)]) (use Cons.prems(2) bs eqs in simp_all)
  with one eqs show ?case by (auto intro: grown_trans recovers_grown)
qed

lemma chat_with_content:
  "cm_content m = Some ct \<Longrightarrow> \<exists>kvs. chat_to_json m = JObj ((''content'', content_to_json ct) # kvs)"
  by (simp add: chat_to_json_def opt_member_def)

lemma json_insert_head: "json_insert k v (JObj ((k, w) # kvs)) = JObj ((k, v) # kvs)"
  by (simp add: json_insert_def)

definition message_recovers :: "image_host \<Rightarrow> rstr \<Rightarrow> image_store \<Rightarrow> json \<Rightarrow> chat_message \<Rightarrow> bool" where
  "message_recovers host sess st j m \<longleftrightarrow> (\<forall>st'. grown st st' \<longrightarrow> inline_images host st' sess j = chat_to_json m)"

lemma externalize_images_recovers:
  assumes "sound_images host" "image_inv host st" "plain_images m" "externalize_images host sess (chat_to_json m) st = (j, st')"
  shows "image_inv host st' \<and> grown st st' \<and> message_recovers host sess st' j m"
proof (cases "\<exists>bs. cm_content m = Some (MBlocks bs)")
  case False
  then have "get_array ''content'' (chat_to_json m) = None"
    by (cases "cm_content m"; cases "the (cm_content m)") (auto simp: get_array_def chat_members)
  with assms(2,4) show ?thesis
    by (auto simp: externalize_images_def message_recovers_def inline_images_def grown_refl)
next
  case True
  then obtain bs where bs: "cm_content m = Some (MBlocks bs)" ..
  from chat_with_content [OF bs] obtain kvs where kvs: "chat_to_json m = JObj ((''content'', JArr (map block_to_json bs)) # kvs)"
    by auto
  obtain js st1 where e: "externalize_blocks host sess (map block_to_json bs) st = (js, st1)" by fastforce
  with assms(4) kvs have j: "j = JObj ((''content'', JArr js) # kvs)" "st' = st1"
    by (auto simp: externalize_images_def get_array_def json_insert_head)
  from externalize_blocks_recovers [OF assms(1,2) _ e] assms(3) bs j(2)
  have r: "image_inv host st'" "grown st st'" "list_all2 (\<lambda>j b. recovers host sess st' j (block_to_json b)) js bs"
    by (simp_all add: plain_images_def)
  have "map (inline_block host st2 sess) js = map block_to_json bs" if "grown st' st2" for st2
    using r(3) that by (induction rule: list_all2_induct) (simp_all add: recovers_def)
  then have "message_recovers host sess st' j m"
    by (simp add: message_recovers_def j(1) kvs inline_images_def get_array_def json_insert_head)
  with r show ?thesis by blast
qed

subsection \<open>Rows\<close>

definition persist_all ::
  "image_host \<Rightarrow> rstr \<Rightarrow> rstr \<Rightarrow> (rstr \<times> agent_message) list \<Rightarrow> image_store \<times> agent_db \<Rightarrow> image_store \<times> agent_db" where
  "persist_all host project sess msgs s = fold (\<lambda>(now, m). persist_message host now project sess m) msgs s"

definition holds_message :: "image_host \<Rightarrow> rstr \<Rightarrow> image_store \<Rightarrow> message_row \<Rightarrow> agent_message \<Rightarrow> bool" where
  "holds_message host sess st r m \<longleftrightarrow>
     mr_session r = sess \<and> mr_rewound r = None \<and> mr_role r = role_to_str (am_role m) \<and> mr_type r = type_to_str (am_type m) \<and>
     mr_metadata r = am_metadata m \<and> mr_turn r = am_turn m \<and> message_recovers host sess st (mr_llm r) (am_llm_message m)"

lemma holds_grown: "holds_message host sess st r m \<Longrightarrow> grown st st' \<Longrightarrow> holds_message host sess st' r m"
  by (auto simp: holds_message_def message_recovers_def intro: grown_trans)

lemma type_not_marker: "type_to_str t \<noteq> ''context_usage''" "type_to_str t \<noteq> ''context_reset''"
  by (cases t; simp)+

lemma role_names [simp]:
  "role_to_str r = ''user'' \<longleftrightarrow> r = RUser" "role_to_str r = ''assistant'' \<longleftrightarrow> r = RAssistant"
  "role_to_str r = ''tool'' \<longleftrightarrow> r = RTool" "role_to_str r = ''system'' \<longleftrightarrow> r = RSystem"
  by (cases r; simp)+

lemma type_names [simp]:
  "type_to_str t = ''text'' \<longleftrightarrow> t = TText" "type_to_str t = ''compaction'' \<longleftrightarrow> t = TCompaction"
  "type_to_str t = ''tool_call'' \<longleftrightarrow> t = TToolCall" "type_to_str t = ''tool_result'' \<longleftrightarrow> t = TToolResult"
  by (cases t; simp)+

lemma holds_context_row: "holds_message host sess st r m \<Longrightarrow> context_row r"
  by (simp add: holds_message_def context_row_def type_not_marker)

definition appended ::
  "image_host \<Rightarrow> rstr \<Rightarrow> agent_message list \<Rightarrow> image_store \<times> agent_db \<Rightarrow> image_store \<times> agent_db \<Rightarrow> bool" where
  "appended host sess msgs s s' \<longleftrightarrow>
     image_inv host (fst s') \<and> grown (fst s) (fst s') \<and> wf_db (snd s') \<and> db_next (snd s) \<le> db_next (snd s') \<and>
     (\<exists>new. db_messages (snd s') = db_messages (snd s) @ new \<and> list_all2 (holds_message host sess (fst s')) new msgs \<and>
        (\<forall>r \<in> set new. db_next (snd s) \<le> mr_id r))"

lemma appended_trans:
  assumes "appended host sess xs s s1" "appended host sess ys s1 s2"
  shows "appended host sess (xs @ ys) s s2"
proof -
  from assms(1) obtain new1 where 1: "grown (fst s) (fst s1)" "db_next (snd s) \<le> db_next (snd s1)"
    "db_messages (snd s1) = db_messages (snd s) @ new1" "list_all2 (holds_message host sess (fst s1)) new1 xs"
    "\<forall>r \<in> set new1. db_next (snd s) \<le> mr_id r"
    by (auto simp: appended_def)
  from assms(2) obtain new2 where 2: "image_inv host (fst s2)" "grown (fst s1) (fst s2)" "wf_db (snd s2)"
    "db_next (snd s1) \<le> db_next (snd s2)"
    "db_messages (snd s2) = db_messages (snd s1) @ new2" "list_all2 (holds_message host sess (fst s2)) new2 ys"
    "\<forall>r \<in> set new2. db_next (snd s1) \<le> mr_id r"
    by (auto simp: appended_def)
  have "list_all2 (holds_message host sess (fst s2)) (new1 @ new2) (xs @ ys)"
    using list_all2_mono [OF 1(4)] holds_grown [OF _ 2(2)] 2(6) by (metis list_all2_appendI)
  moreover have "\<forall>r \<in> set (new1 @ new2). db_next (snd s) \<le> mr_id r" using 1(2,5) 2(7) by force
  ultimately show ?thesis
    unfolding appended_def using 1 2 grown_trans [OF 1(1) 2(2)] order.trans [OF 1(2) 2(4)]
    by (intro conjI exI [of _ "new1 @ new2"]) simp_all
qed

lemma persist_message_appends:
  assumes "sound_images host" "image_inv host (fst s)" "wf_db (snd s)" "plain_images (am_llm_message m)"
  shows "appended host sess [m] s (persist_message host now project sess m s)"
proof -
  obtain j st where e: "externalize_images host sess (chat_to_json (am_llm_message m)) (fst s) = (j, st)" by fastforce
  note rec = externalize_images_recovers [OF assms(1,2,4) e]
  let ?r = "\<lparr>mr_id = db_next (snd s), mr_session = sess, mr_project = project, mr_role = role_to_str (am_role m),
    mr_type = type_to_str (am_type m), mr_llm = j, mr_metadata = am_metadata m, mr_created = now, mr_rewound = None,
    mr_turn = am_turn m\<rparr>"
  have p: "persist_message host now project sess m s =
      (st, (snd s)\<lparr>db_next := Suc (db_next (snd s)), db_messages := db_messages (snd s) @ [?r]\<rparr>)"
    by (simp add: persist_message_def e insert_message_def)
  have "wf_db ((snd s)\<lparr>db_next := Suc (db_next (snd s)), db_messages := db_messages (snd s) @ [?r]\<rparr>)"
    using assms(3) by (auto simp: wf_db_def sorted_wrt_append context_row_def type_not_marker)
  then show ?thesis
    unfolding p appended_def using rec by (auto simp: holds_message_def intro!: exI [of _ "[?r]"])
qed

lemma persist_all_appends:
  assumes "sound_images host"
  shows "image_inv host (fst s) \<Longrightarrow> wf_db (snd s) \<Longrightarrow> \<forall>(now, m) \<in> set msgs. plain_images (am_llm_message m) \<Longrightarrow>
    appended host sess (map snd msgs) s (persist_all host project sess msgs s)"
proof (induction msgs arbitrary: s)
  case Nil
  then show ?case by (simp add: persist_all_def appended_def grown_refl)
next
  case (Cons x msgs)
  obtain now m where x: "x = (now, m)" by fastforce
  have one: "appended host sess [m] s (persist_message host now project sess m s)"
    by (rule persist_message_appends [OF assms]) (use Cons.prems x in auto)
  then have "appended host sess (map snd msgs) (persist_message host now project sess m s)
      (persist_all host project sess msgs (persist_message host now project sess m s))"
    by (intro Cons.IH) (use Cons.prems in \<open>auto simp: appended_def\<close>)
  from appended_trans [OF one this] show ?case by (simp add: x persist_all_def)
qed

lemma held_chats:
  "list_all2 (holds_message host sess st) rows msgs \<Longrightarrow> row_chats host st rows = map am_llm_message msgs"
  by (induction rule: list_all2_induct)
    (auto simp: row_chats_def List.map_filter_simps holds_message_def message_recovers_def grown_refl)

lemma appended_turn_rows:
  assumes "appended host sess msgs s s'"
  obtains new where "turn_rows sess (snd s') = turn_rows sess (snd s) @ new" "active_rows sess (snd s') = active_rows sess (snd s) @ new"
    "list_all2 (holds_message host sess (fst s')) new msgs"
proof -
  from assms obtain new where n: "db_messages (snd s') = db_messages (snd s) @ new" "list_all2 (holds_message host sess (fst s')) new msgs"
    by (auto simp: appended_def)
  have "\<exists>m. holds_message host sess (fst s') r m" if "r \<in> set new" for r
    using n(2) that by (auto simp: list_all2_conv_all_nth in_set_conv_nth)
  then have "\<forall>r \<in> set new. mr_session r = sess \<and> mr_rewound r = None \<and> context_row r"
    using holds_context_row by (fastforce simp: holds_message_def)
  then show thesis using n by (intro that [of new]) (auto simp: turn_rows_def active_rows_def filter_eq_if_all)
qed

subsection \<open>Reloading\<close>

definition orphan_message :: "agent_message \<Rightarrow> bool" where
  "orphan_message m \<longleftrightarrow> am_role m = RTool \<or> am_role m = RAssistant \<and> am_type m = TToolCall"

lemma held_rows:
  assumes "list_all2 (holds_message host sess st) rows msgs"
  shows "map orphan_row rows = map orphan_message msgs" "map mr_type rows = map (type_to_str \<circ> am_type) msgs"
    "list_all context_row rows"
  using assms by (induction rule: list_all2_induct) (simp_all add: holds_message_def orphan_row_def orphan_message_def
    context_row_def type_not_marker)

lemma held_drop_orphans:
  "list_all2 (holds_message host sess st) rows msgs \<Longrightarrow>
     list_all2 (holds_message host sess st) (dropWhile orphan_row rows) (dropWhile orphan_message msgs)"
  by (induction rule: list_all2_induct) (auto simp: holds_message_def orphan_row_def orphan_message_def)

lemma held_last_rows:
  "list_all2 P rows msgs \<Longrightarrow> list_all2 P (last_rows n rows) (last_rows n msgs)"
  by (simp add: last_rows_def list_all2_dropI list_all2_lengthD)

lemma no_compaction_type:
  assumes "list_all2 (holds_message host sess st) rows msgs" "r \<in> set rows" "\<forall>m \<in> set msgs. am_type m \<noteq> TCompaction"
  shows "mr_type r \<noteq> ''compaction''"
proof -
  have "mr_type r \<in> set (map mr_type rows)" using assms(2) by simp
  then show ?thesis unfolding held_rows(2) [OF assms(1)] using assms(3) by (auto dest: sym)
qed

lemma last_position_None: "last_position P xs = None \<longleftrightarrow> (\<forall>x \<in> set xs. \<not> P x)"
  by (induction xs) (auto split: option.splits)

lemma last_position_at:
  "\<not> (\<exists>y \<in> set ys. P y) \<Longrightarrow> P x \<Longrightarrow> last_position P (xs @ x # ys) = Some (length xs)"
  by (induction xs) (auto simp: last_position_None split: option.splits)

lemma step_back_all: "s \<le> left \<Longrightarrow> \<forall>r \<in> set (take s rows). mr_type r \<noteq> ''compaction'' \<Longrightarrow> s \<le> length rows \<Longrightarrow> step_back rows s left = 0"
proof (induction s arbitrary: left)
  case (Suc s)
  have "rows ! s \<in> set (take (Suc s) rows)" using Suc.prems(3) by (simp add: take_Suc_conv_app_nth)
  with Suc.prems have "mr_type (rows ! s) \<noteq> ''compaction''" "\<forall>r \<in> set (take s rows). mr_type r \<noteq> ''compaction''"
    using set_take_subset_set_take [of s "Suc s" rows] by auto
  with Suc show ?case by simp
qed simp

text \<open>
  C10: what was said comes back: the messages a session stored, images and all, are what its next turn starts with,
  in order and nothing else, when there are at most five hundred, none a compaction, and they begin with a user's message.
\<close>

theorem stored_conversation_reloaded:
  assumes "sound_images host" "image_inv host st" "wf_db db" "active_rows sess db = []"
    "\<forall>(now, m) \<in> set msgs. plain_images (am_llm_message m) \<and> am_type m \<noteq> TCompaction"
    "msgs \<noteq> []" "length msgs \<le> 500" "am_role (snd (hd msgs)) = RUser"
    "well_turned (map (am_llm_message \<circ> snd) msgs)" "distinct_batches (map (am_llm_message \<circ> snd) msgs)"
  shows "prior_context host sess (persist_all host project sess msgs (st, db)) = Some (map (am_llm_message \<circ> snd) msgs)"
proof -
  let ?s = "persist_all host project sess msgs (st, db)" and ?ms = "map snd msgs"
  have app: "appended host sess ?ms (st, db) ?s"
    by (rule persist_all_appends) (use assms(1-3,5) in auto)
  from appended_turn_rows [OF app] obtain new where new: "active_rows sess (snd ?s) = new"
    "list_all2 (holds_message host sess (fst ?s)) new ?ms"
    using assms(4) by (auto simp: turn_rows_def)
  have "\<forall>m \<in> set ?ms. am_type m \<noteq> TCompaction" using assms(5) by auto
  then have types: "mr_type r \<noteq> ''compaction''" "context_row r" if "r \<in> set new" for r
    using no_compaction_type [OF new(2) that] held_rows(3) [OF new(2)] that by (simp_all add: list_all_iff)
  have ids: "0 < mr_id r" if "r \<in> set new" for r
  proof -
    from app obtain rows where "db_messages (snd ?s) = db_messages db @ rows" "\<forall>r \<in> set rows. db_next db \<le> mr_id r"
      by (auto simp: appended_def)
    moreover have "\<not> (mr_session x = sess \<and> mr_rewound x = None)" if "x \<in> set (db_messages db)" for x
      using assms(4) that unfolding active_rows_def filter_empty_conv by blast
    ultimately have "db_next db \<le> mr_id r" using that new(1) by (auto simp: active_rows_def)
    with assms(3) show ?thesis by (simp add: wf_db_def)
  qed
  have floor: "reset_floor sess (snd ?s) = 0"
  proof -
    have "filter (\<lambda>r. mr_type r = ''context_reset'') new = []"
      using types(2) by (auto simp: filter_empty_conv context_row_def)
    then show ?thesis by (simp add: reset_floor_def new(1) max_id_def)
  qed
  have none: "last_compaction_id sess (snd ?s) = None"
  proof -
    have "filter (\<lambda>r. mr_type r = ''compaction'' \<and> mr_id r > reset_floor sess (snd ?s)) new = []"
      using types(1) by (auto simp: filter_empty_conv)
    then show ?thesis by (simp add: last_compaction_id_def new(1) max_id_def)
  qed
  have len: "length new = length msgs" using list_all2_lengthD [OF new(2)] by simp
  have first: "dropWhile orphan_row new = new"
  proof (cases new)
    case (Cons r rs)
    with new(2) have "holds_message host sess (fst ?s) r (hd ?ms)" by (cases ?ms) auto
    with assms(6,8) have "mr_role r = ''user''" by (simp add: holds_message_def hd_map)
    with Cons show ?thesis by (simp add: orphan_row_def)
  qed simp
  have "filter (\<lambda>r. mr_id r > 0 \<and> context_row r) new = new" using ids types(2) by (intro filter_eq_if_all) blast
  then have load: "load_session_for_context sess 500 (snd ?s) = new"
    using first len assms(7) by (simp add: load_session_for_context_def none floor new(1) last_rows_def)
  have "last_position (\<lambda>m. mr_type m = ''compaction'') new = None"
    using types(1) by (simp add: last_position_None)
  then have "deserialize_context host (fst ?s) new = sanitize_tool_pairs (map am_llm_message ?ms)"
    by (simp add: deserialize_context_def reconstruct_context_def chats_of_loaded held_chats [OF new(2)])
  also have "\<dots> = map (am_llm_message \<circ> snd) msgs" using sanitize_whole [OF assms(9,10)] by simp
  finally show ?thesis using assms(6) by (simp add: prior_context_def load)
qed

subsection \<open>After a compaction\<close>

lemma find_row_id:
  "sorted_wrt (\<lambda>a b. mr_id a < mr_id b) rows \<Longrightarrow> r \<in> set rows \<Longrightarrow> find (\<lambda>x. mr_id x = mr_id r) rows = Some r"
  by (induction rows) auto

lemma from_first_id:
  assumes "sorted_wrt (\<lambda>a b. mr_id a < mr_id b) (xs @ y # ys)"
  shows "filter (\<lambda>r. mr_id y \<le> mr_id r) (xs @ y # ys) = y # ys"
proof -
  have "filter (\<lambda>r. mr_id y \<le> mr_id r) xs = []" using assms by (auto simp: filter_empty_conv sorted_wrt_append)
  moreover have "filter (\<lambda>r. mr_id y \<le> mr_id r) ys = ys" using assms by (intro filter_eq_if_all) (auto simp: sorted_wrt_append)
  ultimately show ?thesis by simp
qed

lemma loaded_after_compaction:
  assumes "wf_db db" "active_rows sess db = A @ c # L" "mr_type c = ''compaction''"
    "jget ''kept_before_count'' (mr_metadata c) = Some (JInt (int k))" "k < 2 ^ 63" "\<not> orphan_row c"
    "\<forall>r \<in> set (A @ L). context_row r \<and> mr_type r \<noteq> ''compaction''" "\<forall>r \<in> set (A @ c # L). 0 < mr_id r"
  shows "load_session_for_context sess limit db = dropWhile orphan_row (last_rows k A) @ c # L"
    "reconstruct_context host st (dropWhile orphan_row (last_rows k A) @ c # L) =
       map (stored_to_agent_message host st) (dropWhile orphan_row (last_rows k A) @ c # L)"
proof -
  have sorted: "sorted_wrt (\<lambda>a b. mr_id a < mr_id b) (A @ c # L)"
    unfolding assms(2) [symmetric] using assms(1) by (simp add: wf_db_def active_rows_def sorted_wrt_filter)
  have ctx: "context_row c" using assms(3) by (simp add: context_row_def)
  have floor: "reset_floor sess db = 0"
  proof -
    have "filter (\<lambda>r. mr_type r = ''context_reset'') (A @ c # L) = []"
      using assms(7) ctx by (auto simp: filter_empty_conv context_row_def)
    then show ?thesis by (simp only: reset_floor_def assms(2) max_id_def) simp
  qed
  have "filter (\<lambda>r. mr_type r = ''compaction'' \<and> 0 < mr_id r) (A @ c # L) = [c]"
    using assms(3,7,8) by (auto simp: filter_empty_conv)
  then have last: "last_compaction_id sess db = Some (mr_id c)"
    unfolding last_compaction_id_def floor assms(2) by (simp add: max_id_def)
  have "c \<in> set (db_messages db)" using assms(2) by (metis active_rows_def filter_is_subset in_set_conv_decomp subsetD)
  from find_row_id [OF _ this] assms(1) have "find (\<lambda>r. mr_id r = mr_id c) (db_messages db) = Some c" by (simp add: wf_db_def)
  then have kept: "kept_before_row (mr_id c) db = int k"
    using assms(4,5) by (simp add: kept_before_row_def sql_kept_before_def)
  have before: "filter (\<lambda>r. mr_id r < mr_id c \<and> 0 < mr_id r \<and>
      mr_type r \<notin> {''compaction'', ''context_usage'', ''context_reset''}) (A @ c # L) = A"
  proof -
    have "filter (\<lambda>r. mr_id r < mr_id c \<and> 0 < mr_id r \<and>
        mr_type r \<notin> {''compaction'', ''context_usage'', ''context_reset''}) A = A"
      using sorted assms(7,8) by (intro filter_eq_if_all) (auto simp: sorted_wrt_append context_row_def)
    moreover have "filter (\<lambda>r. mr_id r < mr_id c \<and> 0 < mr_id r \<and>
        mr_type r \<notin> {''compaction'', ''context_usage'', ''context_reset''}) (c # L) = []"
      using sorted by (auto simp: filter_empty_conv sorted_wrt_append)
    ultimately show ?thesis by simp
  qed
  let ?kept = "last_rows k A"
  obtain A1 where A: "A = A1 @ ?kept" unfolding last_rows_def by (metis append_take_drop_id)
  have start: "filter (\<lambda>r. mr_id r \<ge> context_start sess (mr_id c) db) (A @ c # L) = ?kept @ c # L"
  proof (cases ?kept)
    case Nil
    have "context_start sess (mr_id c) db = mr_id c"
      using Nil before by (simp add: context_start_def kept floor assms(2) Let_def)
    with from_first_id [OF sorted] Nil show ?thesis by simp
  next
    case (Cons r rs)
    have "k > 0" using Cons by (auto simp: last_rows_def intro: ccontr)
    then have s: "context_start sess (mr_id c) db = mr_id r"
      using Cons before by (simp add: context_start_def kept floor assms(2) Let_def)
    have "A @ c # L = A1 @ r # rs @ c # L" using A Cons by simp
    with from_first_id [of A1 r "rs @ c # L"] sorted s Cons show ?thesis by simp
  qed
  have "\<forall>r \<in> set (?kept @ c # L). context_row r"
    using assms(7) ctx by (auto simp: last_rows_def dest: in_set_dropD)
  then have rows: "filter (\<lambda>r. mr_id r \<ge> context_start sess (mr_id c) db \<and> context_row r) (A @ c # L) = ?kept @ c # L"
    using start by (metis (mono_tags, lifting) filter_cong filter_filter filter_True)
  have drop: "dropWhile orphan_row (?kept @ c # L) = dropWhile orphan_row ?kept @ c # L"
    using assms(6) by (induction ?kept) (auto simp: dropWhile_append)
  show "load_session_for_context sess limit db = dropWhile orphan_row ?kept @ c # L"
    unfolding load_session_for_context_def last option.case assms(2) rows drop ..
  let ?D = "dropWhile orphan_row ?kept"
  have D: "set ?D \<subseteq> set A" by (auto simp: last_rows_def dest!: set_dropWhileD in_set_dropD)
  have pos: "last_position (\<lambda>m. mr_type m = ''compaction'') (?D @ c # L) = Some (length ?D)"
    using assms(3,7) by (intro last_position_at) auto
  have "length ?D \<le> k"
    using length_dropWhile_le [of orphan_row ?kept] by (simp add: last_rows_def)
  then have "step_back (?D @ c # L) (length ?D) k = 0"
    using D assms(7) by (intro step_back_all) auto
  moreover have "get_u64 ''kept_before_count'' (mr_metadata c) = Some k"
    using assms(4,5) by (simp add: get_u64_def)
  ultimately show "reconstruct_context host st (?D @ c # L) = map (stored_to_agent_message host st) (?D @ c # L)"
    unfolding reconstruct_context_def pos option.case by (simp add: Let_def)
qed

text \<open>The record the loop persists when it compacts, with the number of messages in front of the summarised range.\<close>

definition compaction_record :: "chat_message \<Rightarrow> nat \<Rightarrow> bool \<Rightarrow> agent_message" where
  "compaction_record msg start failed =
     (chat_to_agent_message msg TCompaction AgentSender None)\<lparr>am_metadata := compaction_metadata start failed\<rparr>"

lemma new_session_rows:
  assumes "appended host sess msgs (st, db) s" "active_rows sess db = []" "wf_db db"
  obtains new where "active_rows sess (snd s) = new" "list_all2 (holds_message host sess (fst s)) new msgs"
    "\<forall>r \<in> set new. 0 < mr_id r \<and> context_row r" "wf_db (snd s)"
proof -
  from appended_turn_rows [OF assms(1)] obtain new where new: "active_rows sess (snd s) = new"
    "list_all2 (holds_message host sess (fst s)) new msgs"
    using assms(2) by (auto simp: turn_rows_def)
  from assms(1) obtain rows where rows: "db_messages (snd s) = db_messages db @ rows" "\<forall>r \<in> set rows. db_next db \<le> mr_id r"
    "wf_db (snd s)" by (auto simp: appended_def)
  have "\<not> (mr_session x = sess \<and> mr_rewound x = None)" if "x \<in> set (db_messages db)" for x
    using assms(2) that unfolding active_rows_def filter_empty_conv by blast
  then have "\<forall>r \<in> set new. db_next db \<le> mr_id r" using rows new(1) by (auto simp: active_rows_def)
  with assms(3) have "\<forall>r \<in> set new. 0 < mr_id r" by (fastforce simp: wf_db_def)
  with held_rows(3) [OF new(2)] new rows(3) show thesis by (intro that [of new]) (auto simp: list_all_iff)
qed

lemma compaction_forgets:
  assumes "sound_images host" "image_inv host st" "wf_db db" "active_rows sess db = []"
    "\<forall>(now, m) \<in> set msgs. plain_images (am_llm_message m) \<and> am_type m \<noteq> TCompaction"
    "compaction_boundaries (system_msg p # map (am_llm_message \<circ> snd) msgs) keep = Some (start, stop)"
    "am_role (snd (last msgs)) = RTool"
  shows "prior_context host sess (persist_all host project sess (msgs @ [(now, compaction_record (user_msg t) start failed)]) (st, db)) =
      Some [user_msg t]"
    "splice_summary (system_msg p # map (am_llm_message \<circ> snd) msgs) start stop (user_msg t) =
      [system_msg p, user_msg t] @ drop stop (system_msg p # map (am_llm_message \<circ> snd) msgs)"
proof -
  let ?c = "compaction_record (user_msg t) start failed"
  let ?s = "persist_all host project sess (msgs @ [(now, ?c)]) (st, db)"
  have start: "start = 1" using compaction_boundaries_SomeD(4) [OF assms(6)] by (simp add: system_msg_def)
  then show "splice_summary (system_msg p # map (am_llm_message \<circ> snd) msgs) start stop (user_msg t) =
      [system_msg p, user_msg t] @ drop stop (system_msg p # map (am_llm_message \<circ> snd) msgs)"
    using splice_eq compaction_boundaries_SomeD(1,2,3) [OF assms(6)] by simp
  have "appended host sess (map snd (msgs @ [(now, ?c)])) (st, db) ?s"
    by (rule persist_all_appends) (use assms(1-3,5) in \<open>auto simp: compaction_record_def chat_to_agent_message_def plain_images_def user_msg_def\<close>)
  from new_session_rows [OF this assms(4,3)] obtain new where new: "active_rows sess (snd ?s) = new"
    "list_all2 (holds_message host sess (fst ?s)) new (map snd msgs @ [?c])" "\<forall>r \<in> set new. 0 < mr_id r \<and> context_row r"
    "wf_db (snd ?s)" by auto
  from new(2) obtain A c where rows: "new = A @ [c]" "list_all2 (holds_message host sess (fst ?s)) A (map snd msgs)"
    "holds_message host sess (fst ?s) c ?c"
    by (auto simp: list_all2_append2 list_all2_Cons2)
  have "\<forall>m \<in> set (map snd msgs). am_type m \<noteq> TCompaction" using assms(5) by auto
  with no_compaction_type [OF rows(2)] have plain: "\<forall>r \<in> set A. mr_type r \<noteq> ''compaction''" by blast
  have c: "mr_type c = ''compaction''" "mr_metadata c = compaction_metadata start failed" "\<not> orphan_row c"
    using rows(3) by (auto simp: holds_message_def compaction_record_def chat_to_agent_message_def user_msg_def orphan_row_def)
  have meta: "jget ''kept_before_count'' (mr_metadata c) = Some (JInt (int start))"
    by (simp add: c(2) compaction_metadata_def)
  have ne: "msgs \<noteq> []"
    using compaction_boundaries_SomeD(2,3) [OF assms(6)] by auto
  have dropped: "dropWhile orphan_row (last_rows start A) = []"
  proof -
    have "length A = length msgs" using list_all2_lengthD [OF rows(2)] by simp
    with ne have A: "A \<noteq> []" by auto
    then have "last_rows start A = [last A]"
      unfolding start last_rows_def by (metis One_nat_def append_butlast_last_id append_eq_conv_conj length_butlast)
    moreover have "holds_message host sess (fst ?s) (last A) (last (map snd msgs))"
      using rows(2) A ne by (metis list_all2_conv_all_nth last_conv_nth length_0_conv map_is_Nil_conv diff_less length_greater_0_conv zero_less_one)
    then have "mr_role (last A) = ''tool''" using assms(7) ne by (simp add: holds_message_def last_map)
    ultimately show ?thesis by (simp add: orphan_row_def)
  qed
  have shape: "active_rows sess (snd ?s) = A @ c # []" using new(1) rows(1) by simp
  have kept: "start < 2 ^ 63" by (simp add: start)
  have others: "\<forall>r \<in> set (A @ []). context_row r \<and> mr_type r \<noteq> ''compaction''" "\<forall>r \<in> set (A @ c # []). 0 < mr_id r"
    using plain new(3) rows(1) by auto
  note after = loaded_after_compaction [OF new(4) shape c(1) meta kept c(3) others]
  have load: "load_session_for_context sess 500 (snd ?s) = [c]" using after(1) [of 500] by (simp only: dropped append_Nil)
  have rebuilt: "reconstruct_context host (fst ?s) [c] = map (stored_to_agent_message host (fst ?s)) [c]"
    using after(2) [of host "fst ?s"] by (simp only: dropped append_Nil)
  have "row_chats host (fst ?s) [c] = [user_msg t]"
    using held_chats [of host sess "fst ?s" "[c]" "[?c]"] rows(3) by (simp add: compaction_record_def chat_to_agent_message_def)
  then have "deserialize_context host (fst ?s) [c] = [user_msg t]"
    unfolding deserialize_context_def rebuilt chats_of_loaded by (simp add: user_msg_def)
  then show "prior_context host sess ?s = Some [user_msg t]"
    by (simp add: prior_context_def load)
qed


subsection \<open>Rewinding\<close>

lemma held_member: "list_all2 P rows msgs \<Longrightarrow> r \<in> set rows \<Longrightarrow> \<exists>m \<in> set msgs. P r m"
  by (induction rule: list_all2_induct) auto

lemma find_in_front: "find P (xs @ ys) = (case find P xs of Some x \<Rightarrow> Some x | None \<Rightarrow> find P ys)"
  by (induction xs) auto

lemma rewound_messages:
  assumes "appended host sess msgs (st, db) s"
    "\<forall>m \<in> set msgs. \<exists>t. am_turn m = Some t \<and> from_turn \<le> t"
    "\<forall>r \<in> set (active_rows sess db). \<forall>t. mr_turn r = Some t \<longrightarrow> t < from_turn"
  obtains new where "db_messages (rewind_from_turn now sess from_turn (snd s)) = db_messages db @ new"
    "\<forall>r \<in> set new. mr_rewound r \<noteq> None"
proof -
  let ?sel = "\<lambda>r. mr_session r = sess \<and> (case mr_turn r of Some t \<Rightarrow> t \<ge> from_turn | None \<Rightarrow> False) \<and> mr_rewound r = None"
  let ?f = "\<lambda>r. if ?sel r then r\<lparr>mr_rewound := Some now\<rparr> else r"
  from assms(1) obtain rows where rows: "db_messages (snd s) = db_messages db @ rows"
    "list_all2 (holds_message host sess (fst s)) rows msgs" by (auto simp: appended_def)
  have "map ?f (db_messages db) = db_messages db"
    using assms(3) by (intro map_idI) (auto simp: active_rows_def not_less [symmetric] split: option.splits)
  moreover have "\<forall>r \<in> set rows. ?sel r"
  proof
    fix r assume "r \<in> set rows"
    from held_member [OF rows(2) this] obtain m where "m \<in> set msgs" "holds_message host sess (fst s) r m" by blast
    with assms(2) show "?sel r" by (fastforce simp: holds_message_def)
  qed
  ultimately show thesis
    by (intro that [of "map ?f rows"]) (auto simp: rewind_from_turn_def update_messages_def rows(1))
qed

text \<open>
  C11: restoring a checkpoint takes the conversation back with the files: when all that was said since carries the
  numbers of the turns that are undone, what the next turn loads is what it would have loaded before them.
\<close>

theorem rewind_restores_conversation:
  assumes "sound_images host" "image_inv host st" "wf_db db"
    "\<forall>(at, m) \<in> set msgs. plain_images (am_llm_message m) \<and> (\<exists>t. am_turn m = Some t \<and> from_turn \<le> t)"
    "\<forall>r \<in> set (active_rows sess db). \<forall>t. mr_turn r = Some t \<longrightarrow> t < from_turn"
  shows "load_session_for_context sess' limit
      (rewind_from_turn now sess from_turn (snd (persist_all host project sess msgs (st, db)))) =
    load_session_for_context sess' limit db"
proof -
  let ?s = "persist_all host project sess msgs (st, db)"
  have "appended host sess (map snd msgs) (st, db) ?s"
    by (rule persist_all_appends) (use assms(1-4) in auto)
  moreover have "\<forall>m \<in> set (map snd msgs). \<exists>t. am_turn m = Some t \<and> from_turn \<le> t" using assms(4) by auto
  ultimately obtain new where new: "db_messages (rewind_from_turn now sess from_turn (snd ?s)) = db_messages db @ new"
    "\<forall>r \<in> set new. mr_rewound r \<noteq> None"
    using assms(5) by (rule rewound_messages)
  let ?db = "rewind_from_turn now sess from_turn (snd ?s)"
  have act: "active_rows sess' ?db = active_rows sess' db"
    using new(2) by (auto simp: active_rows_def new(1) filter_empty_conv)
  have kept: "kept_before_row (mr_id r) ?db = kept_before_row (mr_id r) db" if "r \<in> set (db_messages db)" for r
  proof -
    have "find (\<lambda>x. mr_id x = mr_id r) (db_messages db) \<noteq> None" using that by (auto simp: find_None_iff)
    then show ?thesis
      by (auto simp: kept_before_row_def new(1) find_in_front split: option.splits)
  qed
  have "context_start sess' c ?db = context_start sess' c db" if "last_compaction_id sess' db = Some c" for c
  proof -
    have "c \<in> mr_id ` set (active_rows sess' db)"
      using that last_in_set [of "filter (\<lambda>r. mr_type r = ''compaction'' \<and> mr_id r > reset_floor sess' db) (active_rows sess' db)"]
      by (auto simp: last_compaction_id_def max_id_def split: if_splits)
    then obtain r where "r \<in> set (db_messages db)" "c = mr_id r" by (auto simp: active_rows_def)
    with kept show ?thesis by (simp add: context_start_def act reset_floor_def Let_def)
  qed
  then show ?thesis
    by (auto simp: load_session_for_context_def act reset_floor_def last_compaction_id_def split: option.splits)
qed

text \<open>A compaction carries no turn number, so it stays when the turns it sums up are undone.\<close>

theorem undone_compaction_stays:
  assumes "sound_images host" "image_inv host st" "wf_db db"
  shows "\<exists>r \<in> set (active_rows sess (rewind_from_turn now sess from_turn
      (snd (persist_message host at project sess (compaction_record (user_msg t) k failed) (st, db))))). mr_type r = ''compaction''"
proof -
  let ?s = "persist_message host at project sess (compaction_record (user_msg t) k failed) (st, db)"
  have "appended host sess [compaction_record (user_msg t) k failed] (st, db) ?s"
    using assms by (intro persist_message_appends)
      (auto simp: compaction_record_def chat_to_agent_message_def plain_images_def user_msg_def)
  then obtain new where "db_messages (snd ?s) = db_messages db @ new"
    "list_all2 (holds_message host sess (fst ?s)) new [compaction_record (user_msg t) k failed]"
    by (auto simp: appended_def)
  then obtain r where "db_messages (snd ?s) = db_messages db @ [r]"
    "holds_message host sess (fst ?s) r (compaction_record (user_msg t) k failed)"
    by (auto simp: list_all2_Cons2)
  then have "r \<in> set (active_rows sess (rewind_from_turn now sess from_turn (snd ?s)))" "mr_type r = ''compaction''"
    by (force simp: active_rows_def rewind_from_turn_def update_messages_def holds_message_def compaction_record_def
        chat_to_agent_message_def)+
  then show ?thesis by blast
qed

subsection \<open>Instances\<close>

definition sample_images :: image_host where
  "sample_images = \<lparr>im_decode = Some, im_encode = (\<lambda>b. b), im_uuid = (\<lambda>n. replicate (Suc n) (CHR ''u'')), im_can_write = (\<lambda>_ _. True)\<rparr>"

definition no_images :: image_store where
  "no_images = \<lparr>is_files = (\<lambda>_ _. None), is_drawn = 0\<rparr>"

definition as_said :: "chat_message \<Rightarrow> message_type \<Rightarrow> agent_message" where
  "as_said m ty = chat_to_agent_message m ty (if cm_role m = ''user'' then HumanUser else AgentSender) (Some 1)"

definition sample_talk :: "(rstr \<times> agent_message) list" where
  "sample_talk =
     [(''1'', as_said (user_with_images [TextBlock ''See'' None, ImageUrl ''data:image/png;base64,aGk='' None]) TText),
      (''2'', as_said (assistant_msg None (Some [example_call]) None) TToolCall),
      (''3'', as_said (tool_result_msg ''t1'' ''out'') TToolResult)]"

lemma sample_sound:
  "sound_images sample_images" "image_inv host no_images" "wf_db new_db" "active_rows sess new_db = []"
  by (auto simp: sound_images_def sample_images_def image_inv_def no_images_def wf_db_def new_db_def active_rows_def
      intro!: injI dest: arg_cong [of _ _ length] simp del: replicate_Suc)

lemma sample_talk_plain: "\<forall>(now, m) \<in> set sample_talk. plain_images (am_llm_message m) \<and> am_type m \<noteq> TCompaction"
  by (auto simp: sample_talk_def as_said_def chat_to_agent_message_def plain_images_def msg_defs plain_image_def image_ref_prefix_def
      known_media_def)

lemma sample_talk_messages:
  "map (am_llm_message \<circ> snd) sample_talk =
     [user_with_images [TextBlock ''See'' None, ImageUrl ''data:image/png;base64,aGk='' None],
      assistant_msg None (Some [example_call]) None, tool_result_msg ''t1'' ''out'']"
  by (simp add: sample_talk_def as_said_def chat_to_agent_message_def)

lemma sample_talk_turned:
  "well_turned (map (am_llm_message \<circ> snd) sample_talk)" "distinct_batches (map (am_llm_message \<circ> snd) sample_talk)"
  unfolding sample_talk_messages
  by (simp_all add: example_call_def msg_defs is_tool_msg_def is_call_msg_def calls_of_def answers_def distinct_batches_def)

theorem stored_conversation_reloaded_witness:
  "prior_context sample_images ''s'' (persist_all sample_images ''/p'' ''s'' sample_talk (no_images, new_db)) =
     Some (map (am_llm_message \<circ> snd) sample_talk)"
  by (rule stored_conversation_reloaded [OF sample_sound sample_talk_plain _ _ _ sample_talk_turned])
    (simp_all add: sample_talk_def as_said_def chat_to_agent_message_def msg_defs)

definition first_talk :: "(rstr \<times> agent_message) list" where
  "first_talk = [(''0'', as_said (user_msg ''Hi'') TText), (''0'', as_said (assistant_msg (Some ''Hello'') None None) TText)]"


theorem rewind_restores_conversation_witness:
  "load_session_for_context ''s'' 500 (rewind_from_turn ''9'' ''s'' 1
     (snd (persist_all sample_images ''/p'' ''s'' sample_talk (no_images, new_db)))) = load_session_for_context ''s'' 500 new_db"
  by (rule rewind_restores_conversation [OF sample_sound(1-3)])
    (use sample_talk_plain sample_sound(4) in \<open>auto simp: sample_talk_def as_said_def chat_to_agent_message_def\<close>)

definition cut_talk :: "(rstr \<times> agent_message) list" where
  "cut_talk = take 2 sample_talk"

definition cut_store :: "image_store \<times> agent_db" where
  "cut_store = persist_all sample_images ''/p'' ''s'' cut_talk (no_images, new_db)"


end
