(* ===== verification/AutoBridge.thy ===== *)
theory AutoBridge
  imports Settings AutoTrace Reload
begin

section \<open>Auto turns of the desktop app (\<open>agent_bridge/auto.rs\<close>)\<close>

text \<open>
  An Auto turn leaves three things in the database: the row of its run, overwritten by every snapshot the executor
  hands to the state listener and once more at the end, and two chat rows, the user's prompt and a placeholder that
  becomes the summary. The listener's writes wait in a queue of their own, so they interleave with those of the end.
  Here are also the commands by which the user answers a plan or a failed worker, and the configuration of the
  executor a fresh or a resumed turn starts.
\<close>

subsection \<open>The rows of a turn\<close>

definition build_llm_message_json :: "rstr \<Rightarrow> rstr \<Rightarrow> json" where
  "build_llm_message_json role content = JObj [(''content'', JStr content), (''role'', JStr role)]"

definition build_auto_metadata_json :: "rstr \<Rightarrow> json" where
  "build_auto_metadata_json auto_run_id = JObj [(''auto_run_id'', JStr auto_run_id), (''kind'', JStr ''auto'')]"

definition placeholder :: rstr where
  "placeholder = ''Auto run in progress'' @ ellipsis"

definition persist_auto_anchor_rows ::
  "rstr \<Rightarrow> rstr \<Rightarrow> rstr \<Rightarrow> rstr \<Rightarrow> rstr \<Rightarrow> rstr \<Rightarrow> agent_db \<Rightarrow> nat \<times> agent_db" where
  "persist_auto_anchor_rows now1 now2 sess folder prompt auto_run_id db =
     (let meta = build_auto_metadata_json auto_run_id;
          db1 = snd (insert_message now1 sess folder ''user'' ''text'' (build_llm_message_json ''user'' prompt) meta None db)
      in insert_message now2 sess folder ''assistant'' ''text'' (build_llm_message_json ''assistant'' placeholder) meta None db1)"

definition update_auto_assistant_summary :: "nat \<Rightarrow> rstr \<Rightarrow> agent_db \<Rightarrow> agent_db" where
  "update_auto_assistant_summary row_id summary =
     update_message_llm_content row_id (build_llm_message_json ''assistant'' summary)"

definition summary_line :: "worker_result \<Rightarrow> rstr" where
  "summary_line w = ''- **'' @ wr_id w @ ''** (`'' @ wr_model w @ ''`): '' @ truncate_chars (wr_summary w) 240 @ [nl]"

definition build_cancelled_summary :: "auto_run \<Rightarrow> rstr \<Rightarrow> rstr" where
  "build_cancelled_summary run phase =
     (let completed = filter (\<lambda>w. wr_status w = WOk) (ar_worker_results run)
      in ''**Auto run stopped during '' @ phase @ ''.**'' @ [nl] @
         (if completed = [] then []
          else [nl] @ ''Completed workers ('' @ nat_str (length completed) @ ''):'' @ [nl] @ concat (map summary_line completed)))"

fun terminal_summary :: "auto_result \<Rightarrow> rstr" where
  "terminal_summary (ResDone summary run) = summary"
| "terminal_summary (ResFailed reason run) = ''Auto run failed: '' @ reason"
| "terminal_summary (ResCancelled run phase) = build_cancelled_summary run phase"

text \<open>What the terminal handler sends itself: the executor is silent when it is cancelled.\<close>

definition terminal_events :: "rstr \<Rightarrow> rstr \<Rightarrow> auto_result \<Rightarrow> agent_event list" where
  "terminal_events sess auto_run_id r =
     (case r of ResCancelled run phase \<Rightarrow> [AutoFailed sess auto_run_id ''Interrupted by user'' None] | _ \<Rightarrow> [])"

subsection \<open>Writes\<close>

text \<open>A write to the database by the listener's task or by the terminal handler, at its moment.\<close>

datatype auto_write = WriteRun rstr auto_run | WriteSummary nat rstr

fun apply_write :: "auto_write \<Rightarrow> agent_db \<Rightarrow> agent_db" where
  "apply_write (WriteRun now run) db = update_auto_run now run db"
| "apply_write (WriteSummary row_id summary) db = update_auto_assistant_summary row_id summary db"

text \<open>What the executor handed to \<open>on_state\<close>; the queue is written in its order.\<close>

fun snapshots :: "auto_action list \<Rightarrow> auto_run list" where
  "snapshots [] = []"
| "snapshots (Notified run # as) = run # snapshots as"
| "snapshots (a # as) = snapshots as"

definition listener_writes :: "(auto_run \<Rightarrow> rstr) \<Rightarrow> auto_action list \<Rightarrow> auto_write list" where
  "listener_writes clock tr = map (\<lambda>run. WriteRun (clock run) run) (snapshots tr)"

definition terminal_writes :: "rstr \<Rightarrow> nat \<Rightarrow> auto_result \<Rightarrow> auto_write list" where
  "terminal_writes now row_id r = [WriteRun now (result_run r), WriteSummary row_id (terminal_summary r)]"

subsection \<open>The executor of a turn\<close>

datatype resume_action = ApproveSavedPlan | RetryWorker rstr | ReplanAfterFailure rstr

text \<open>Replans are the user's to ask for.\<close>

definition auto_replan_budget :: u32 where
  "auto_replan_budget = 0"

definition resume_start_at :: "resume_action \<Rightarrow> rstr option" where
  "resume_start_at action = (case action of RetryWorker i \<Rightarrow> Some i | _ \<Rightarrow> None)"

definition resume_reason :: "resume_action \<Rightarrow> rstr option" where
  "resume_reason action = (case action of ReplanAfterFailure reason \<Rightarrow> Some reason | _ \<Rightarrow> None)"

record auto_turn_config =
  at_executor :: executor_config
  at_folder :: rstr
  at_row :: "nat option"
  at_orchestrator :: client_config
  at_workers :: "(rstr \<times> client_config) list"

definition orchestrator_llm :: "provider_config \<Rightarrow> rstr \<Rightarrow> client_config" where
  "orchestrator_llm p model = (provider_to_llm_config p model)\<lparr>cl_disable_cache_control := True\<rparr>"

text \<open>\<open>run_auto_turn\<close>, its checks and the executor it sets up\<close>

definition new_auto_turn ::
  "settings_db \<Rightarrow> rstr \<Rightarrow> rstr \<Rightarrow> rstr \<Rightarrow> rstr \<Rightarrow> rstr + auto_turn_config" where
  "new_auto_turn st auto_run_id sess folder message =
     (if \<not> read_auto_enabled st then Inl ''Auto mode is disabled in Settings. Re-enable it, or pick a regular model.''
      else case st_orchestrator st of
        None \<Rightarrow> Inl (''Auto mode: orchestrator model not configured in Settings '' @ right_arrow @ '' Auto'')
      | Some r \<Rightarrow>
          if read_auto_worker_pool st = [] then Inl (''Auto mode: worker pool is empty in Settings '' @ right_arrow @ '' Auto'')
          else case provider_by_id st (rf_provider_id r) of
            None \<Rightarrow> Inl (''Auto mode: orchestrator provider `'' @ rf_provider_id r @ ''` is not configured'')
          | Some p \<Rightarrow>
              (case build_worker_llm_configs st (read_auto_worker_pool st) of
                 Inl e \<Rightarrow> Inl e
               | Inr workers \<Rightarrow> Inr
                   \<lparr>at_executor =
                      \<lparr>ec_task = message, ec_run_id = auto_run_id, ec_session_id = sess,
                       ec_worker_pool = read_auto_worker_pool st, ec_replan_budget = auto_replan_budget,
                       ec_resume_from = None, ec_start_at_worker_id = None, ec_initial_replan_reason = None\<rparr>,
                    at_folder = folder, at_row = None, at_orchestrator = orchestrator_llm p (rf_model r),
                    at_workers = workers\<rparr>))"

text \<open>\<open>resume_auto_turn\<close> up to the folder lock: the session, the chat rows, the settings\<close>

definition resumed_auto_turn :: "settings_db \<Rightarrow> agent_db \<Rightarrow> auto_run \<Rightarrow> resume_action \<Rightarrow> rstr + auto_turn_config" where
  "resumed_auto_turn st db snapshot action =
     (case get_session (ar_session_id snapshot) db of
        None \<Rightarrow> Inl (''Session '' @ ar_session_id snapshot @ '' not found'')
      | Some session \<Rightarrow>
      (case find_auto_assistant_row_id (ar_id snapshot) db of
        None \<Rightarrow> Inl (''No assistant anchor row for run_id='' @ ar_id snapshot)
      | Some row \<Rightarrow>
      (case find_auto_user_prompt (ar_id snapshot) db of
        None \<Rightarrow> Inl (''No user prompt found for run_id='' @ ar_id snapshot)
      | Some task \<Rightarrow>
      (case st_orchestrator st of
        None \<Rightarrow> Inl (''Resume: orchestrator model not configured in Settings '' @ right_arrow @ '' Auto'')
      | Some r \<Rightarrow>
          if read_auto_worker_pool st = [] then Inl (''Resume: worker pool is empty in Settings '' @ right_arrow @ '' Auto'')
          else case provider_by_id st (rf_provider_id r) of
            None \<Rightarrow> Inl (''Resume: orchestrator provider `'' @ rf_provider_id r @ ''` is not configured'')
          | Some p \<Rightarrow>
              (case build_worker_llm_configs st (read_auto_worker_pool st) of
                 Inl e \<Rightarrow> Inl e
               | Inr workers \<Rightarrow> Inr
                   \<lparr>at_executor =
                      \<lparr>ec_task = task, ec_run_id = ar_id snapshot, ec_session_id = ar_session_id snapshot,
                       ec_worker_pool = read_auto_worker_pool st, ec_replan_budget = auto_replan_budget,
                       ec_resume_from = Some snapshot, ec_start_at_worker_id = resume_start_at action,
                       ec_initial_replan_reason = resume_reason action\<rparr>,
                    at_folder = sr_folder session, at_row = Some row,
                    at_orchestrator = orchestrator_llm p (rf_model r), at_workers = workers\<rparr>)))))"

subsection \<open>The user's answers\<close>

text \<open>\<open>{:?}\<close> of a status\<close>

fun status_debug :: "auto_status \<Rightarrow> rstr" where
  "status_debug StPlanning = ''Planning''"
| "status_debug StAwaitingApproval = ''AwaitingApproval''"
| "status_debug StRunning = ''Running''"
| "status_debug StAwaitingFailureDecision = ''AwaitingFailureDecision''"
| "status_debug StDone = ''Done''"
| "status_debug StFailed = ''Failed''"
| "status_debug StCancelled = ''Cancelled''"

text \<open>
  What a command comes to: the answer goes to the waiting approver, the run is marked as failed, or a turn is to be
  resumed. The approvers that wait are known by the run's id.
\<close>

datatype auto_command = SentAnswer rstr bool | MarkedFailed | ResumeRun auto_run resume_action

definition mark_failed :: "rstr \<Rightarrow> auto_run \<Rightarrow> agent_db \<Rightarrow> agent_db" where
  "mark_failed now snap db = update_auto_run now (snap\<lparr>ar_status := StFailed\<rparr>) db"

definition approve_auto_plan ::
  "rstr \<Rightarrow> rstr \<Rightarrow> bool \<Rightarrow> rstr set \<Rightarrow> agent_db \<Rightarrow> (rstr + auto_command) \<times> rstr set \<times> agent_db" where
  "approve_auto_plan now run_id approved pending db =
     (if run_id \<in> pending then (Inr (SentAnswer run_id approved), pending - {run_id}, db)
      else case get_auto_run run_id db of
        None \<Rightarrow> (Inl (''No saved Auto run with id='' @ run_id), pending, db)
      | Some snap \<Rightarrow>
          if ar_status snap \<noteq> StAwaitingApproval then
            (Inl (''Auto run id='' @ run_id @ '' is in status '' @ status_debug (ar_status snap) @
               ''; resume is only allowed from awaiting_approval''), pending, db)
          else if \<not> approved then (Inr MarkedFailed, pending, mark_failed now snap db)
          else (Inr (ResumeRun snap ApproveSavedPlan), pending, db))"

definition cancel_reason :: "failure_context \<Rightarrow> rstr" where
  "cancel_reason fx = ''Cancelled by user after worker '' @ fx_worker_id fx @ '' ('' @ fx_worker_model fx @ '') failed: '' @
     fx_error_message fx"

definition resolve_worker_failure ::
  "rstr \<Rightarrow> rstr \<Rightarrow> rstr \<Rightarrow> agent_db \<Rightarrow> (rstr + auto_command) \<times> agent_event list \<times> agent_db" where
  "resolve_worker_failure now run_id action db =
     (case get_auto_run run_id db of
        None \<Rightarrow> (Inl (''No saved Auto run with id='' @ run_id), [], db)
      | Some snap \<Rightarrow>
          if ar_status snap \<noteq> StAwaitingFailureDecision then
            (Inl (''Auto run id='' @ run_id @ '' is in status '' @ status_debug (ar_status snap) @
               ''; failure-resolve is only allowed from awaiting_failure_decision''), [], db)
          else case ar_pending_failure snap of
            None \<Rightarrow> (Inl (''Auto run id='' @ run_id @ '' is awaiting_failure_decision but has no pending_failure context''), [], db)
          | Some fx \<Rightarrow>
              if action = ''cancel'' then
                (Inr MarkedFailed, [AutoFailed (ar_session_id snap) run_id (cancel_reason fx) None],
                 mark_failed now (snap\<lparr>ar_pending_failure := None\<rparr>) db)
              else if action = ''retry'' then (Inr (ResumeRun snap (RetryWorker (fx_worker_id fx))), [], db)
              else if action = ''replan'' then (Inr (ResumeRun snap (ReplanAfterFailure (fx_error_message fx))), [], db)
              else (Inl (''Unknown action `'' @ action @ ''`; expected one of: retry, replan, cancel''), [], db))"

subsection \<open>The snapshots of a run\<close>

lemma snapshots_append [simp]: "snapshots (xs @ ys) = snapshots xs @ snapshots ys"
  by (induction xs rule: snapshots.induct) simp_all

lemma snapshots_emitted [simp]: "snapshots (map Emitted evs) = []"
  by (induction evs) simp_all

text \<open>Every snapshot carries the ids of the run; a result is returned right after its snapshot.\<close>

definition carries :: "rstr \<Rightarrow> rstr \<Rightarrow> 'w auto_state \<Rightarrow> bool" where
  "carries i s st \<longleftrightarrow> (\<forall>run \<in> insert (as_run st) (set (snapshots (as_trace st))). ar_id run = i \<and> ar_session_id run = s)"

definition shown_last :: "'w auto_state \<Rightarrow> bool" where
  "shown_last st \<longleftrightarrow> (\<exists>pre. snapshots (as_trace st) = pre @ [as_run st])"

lemma carries_final:
  "carries i s (snd (finalize_done cfg h st)) = carries i s st" "shown_last (snd (finalize_done cfg h st))"
  "carries i s (snd (finalize_failed cfg reason out st)) = carries i s st" "shown_last (snd (finalize_failed cfg reason out st))"
  "carries i s (snd (finalize_cancelled phase st)) = carries i s st" "shown_last (snd (finalize_cancelled phase st))"
  "carries i s (snd (finalize_awaiting_failure_decision cfg ctx st)) = carries i s st"
  "shown_last (snd (finalize_awaiting_failure_decision cfg ctx st))"
  by (auto simp: carries_def shown_last_def auto_finals auto_prims Let_def)

lemma plan_phase_carries:
  "plan_phase env cfg v st = Some (x, st') \<Longrightarrow> carries i s st \<Longrightarrow> carries i s st' \<and> (\<forall>r. x = Inl r \<longrightarrow> shown_last st')"
  by (auto simp: plan_phase_def auto_prims auto_finals Let_def plan_event_def carries_def shown_last_def
      split: option.splits prod.splits bool.splits sum.splits if_splits)

lemma approval_phase_carries:
  "approval_phase env cfg n p st = Some (x, st') \<Longrightarrow> carries i s st \<Longrightarrow> carries i s st' \<and> (x \<noteq> None \<longrightarrow> shown_last st')"
  by (auto simp: approval_phase_def auto_prims auto_finals Let_def carries_def shown_last_def
      split: option.splits prod.splits bool.splits approval.splits if_splits)

lemma worker_loop_carries:
  "worker_loop env specs prior h st = Some (x, st') \<Longrightarrow> carries i s st \<Longrightarrow> carries i s st' \<and> (\<forall>r. x = Inl r \<longrightarrow> shown_last st')"
proof (induction specs arbitrary: prior h st)
  case (Cons spec specs)
  have ran: "carries i s (worker_ran spec prior evs result w1 (worker_started spec (st\<lparr>as_world := w\<rparr>)))" for evs result w1 w
    using Cons.prems(2) by (auto simp: carries_def auto_prims)
  from Cons.prems(1) show ?case
  proof (cases rule: worker_loop_Cons)
    case (succeeded w evs result w1)
    have "carries i s (notify (push_worker_result result (worker_ran spec prior evs result w1 (worker_started spec (st\<lparr>as_world := w\<rparr>)))))"
      using Cons.prems(2) by (auto simp: carries_def auto_prims)
    from Cons.IH [OF succeeded(4) this] show ?thesis .
  next
    case (failed w evs result w1)
    then show ?thesis using ran by simp
  next
    case (polled w)
    then show ?thesis using Cons.prems(2) by (auto simp: carries_def shown_last_def auto_finals auto_prims Let_def)
  next
    case (cancelled w evs result w1)
    then show ?thesis using Cons.prems(2) by (auto simp: carries_def shown_last_def auto_finals auto_prims Let_def)
  qed
qed auto

lemma after_workers_carries:
  "after_workers cfg v ended st = (x, st') \<Longrightarrow> carries i s st \<Longrightarrow> carries i s st' \<and> (\<forall>r. x = Inl r \<longrightarrow> shown_last st')"
  by (auto simp: after_workers_def map_prod_def auto_prims auto_finals Let_def carries_def shown_last_def
      split: workers_end.splits if_splits prod.splits)

lemma run_workers_carries:
  assumes "run_workers env cfg v p st = Some (x, st')" "carries i s st"
  shows "carries i s st' \<and> (\<forall>r. x = Inl r \<longrightarrow> shown_last st')"
proof -
  let ?st = "notify (set_status StRunning st)"
  have st: "carries i s ?st" using assms(2) by (auto simp: carries_def auto_prims)
  show ?thesis
  proof (cases "start_index (av_start_at v) p")
    case (Inl m)
    with assms(1) have "st' = snd (finalize_failed cfg m None ?st)" by (auto simp: run_workers_def map_prod_def split: prod.splits)
    with st show ?thesis by (simp add: carries_final)
  next
    case (Inr k)
    with assms(1) obtain y st2 where wl: "worker_loop env (drop k (pl_workers p)) (av_prior v) None ?st = Some (y, st2)"
      by (auto simp: run_workers_def Let_def split: option.splits)
    from worker_loop_carries [OF wl st] assms(1) Inr wl show ?thesis
      by (auto simp: run_workers_def Let_def split: sum.splits dest: after_workers_carries)
  qed
qed

lemma auto_round_carries:
  assumes "auto_round env cfg v st = Some (x, st')" "carries i s st"
  shows "carries i s st' \<and> (\<forall>r. x = Inl r \<longrightarrow> shown_last st')"
proof -
  from assms(1) obtain y st1 where p1: "plan_phase env cfg v st = Some (y, st1)"
    by (auto simp: auto_round_def split: option.splits)
  note s1 = plan_phase_carries [OF p1 assms(2)]
  show ?thesis
  proof (cases y)
    case (Inl r)
    with p1 assms(1) s1 show ?thesis by (simp add: auto_round_def)
  next
    case (Inr p)
    with p1 assms(1) obtain z st2 where p2: "approval_phase env cfg (av_version v) p st1 = Some (z, st2)"
      by (auto simp: auto_round_def split: option.splits)
    note s2 = approval_phase_carries [OF p2 conjunct1 [OF s1]]
    show ?thesis
    proof (cases z)
      case (Some r)
      with Inr p1 p2 assms(1) s2 show ?thesis by (simp add: auto_round_def)
    next
      case None
      with Inr p1 p2 assms(1) have "run_workers env cfg v p st2 = Some (x, st')" by (simp add: auto_round_def)
      from run_workers_carries [OF this conjunct1 [OF s2]] show ?thesis .
    qed
  qed
qed

lemma auto_loop_carries:
  "auto_loop env cfg v st = Some (r, st') \<Longrightarrow> carries i s st \<Longrightarrow> carries i s st' \<and> shown_last st'"
proof (induction env cfg v st rule: auto_loop.induct)
  case (1 env cfg v st)
  from "1.prems"(1) obtain x st1 where round: "auto_round env cfg v st = Some (x, st1)"
    by (subst (asm) auto_loop.simps) (auto split: option.splits)
  note c = auto_round_carries [OF round "1.prems"(2)]
  show ?case
  proof (cases x)
    case (Inl res)
    with "1.prems"(1) round c show ?thesis by (subst (asm) auto_loop.simps) simp
  next
    case (Inr v1)
    with "1.prems"(1) round have "auto_loop env cfg v1 st1 = Some (r, st')" by (subst (asm) auto_loop.simps) simp
    with "1.IH" [OF round refl Inr] c show ?thesis by auto
  qed
qed

text \<open>The run a turn starts from: a fresh one or the saved snapshot.\<close>

definition first_run :: "executor_config \<Rightarrow> auto_run" where
  "first_run cfg = fst (start_of cfg)"

lemma executor_carries:
  assumes "executor_run env cfg w = Some (r, st)"
  shows "carries (ar_id (first_run cfg)) (ar_session_id (first_run cfg)) st" "shown_last st"
  using auto_loop_carries [OF assms [unfolded executor_run_def], of "ar_id (first_run cfg)" "ar_session_id (first_run cfg)"]
  by (simp_all add: carries_def start_state_def first_run_def)

subsection \<open>Where the writes end\<close>

fun written_runs :: "auto_write list \<Rightarrow> auto_run list" where
  "written_runs [] = []"
| "written_runs (WriteRun now run # ws) = run # written_runs ws"
| "written_runs (WriteSummary row t # ws) = written_runs ws"

fun written_summaries :: "auto_write list \<Rightarrow> (nat \<times> rstr) list" where
  "written_summaries [] = []"
| "written_summaries (WriteRun now run # ws) = written_summaries ws"
| "written_summaries (WriteSummary row t # ws) = (row, t) # written_summaries ws"

lemma shuffle_head:
  assumes "z # zs \<in> shuffles xs ys"
  obtains xs' where "xs = z # xs'" "zs \<in> shuffles xs' ys" | ys' where "ys = z # ys'" "zs \<in> shuffles xs ys'"
  using assms by (auto simp: Cons_in_shuffles_iff neq_Nil_conv)

lemma written_runs_shuffles:
  "zs \<in> shuffles xs ys \<Longrightarrow> written_runs zs \<in> shuffles (written_runs xs) (written_runs ys)"
proof (induction zs arbitrary: xs ys)
  case (Cons z zs)
  from Cons.prems show ?case
    by (cases rule: shuffle_head) (cases z; auto dest: Cons.IH intro: Cons_in_shuffles_leftI Cons_in_shuffles_rightI)+
qed simp

lemma written_summaries_shuffles:
  "zs \<in> shuffles xs ys \<Longrightarrow> written_summaries zs \<in> shuffles (written_summaries xs) (written_summaries ys)"
proof (induction zs arbitrary: xs ys)
  case (Cons z zs)
  from Cons.prems show ?case
    by (cases rule: shuffle_head) (cases z; auto dest: Cons.IH intro: Cons_in_shuffles_leftI Cons_in_shuffles_rightI)+
qed simp

lemma last_shuffle:
  "zs \<in> shuffles xs ys \<Longrightarrow> xs \<noteq> [] \<Longrightarrow> ys \<noteq> [] \<Longrightarrow> zs \<noteq> [] \<and> last zs \<in> {last xs, last ys}"
proof (induction zs arbitrary: xs ys)
  case (Cons z zs)
  from Cons.prems(1) show ?case
  proof (cases rule: shuffle_head)
    case 1
    then show ?thesis using Cons.IH [OF 1(2)] Cons.prems(3) by (cases "xs' = []") auto
  next
    case 2
    then show ?thesis using Cons.IH [OF 2(2)] Cons.prems(2) by (cases "ys' = []") auto
  qed
qed simp

lemma written_lists [simp]:
  "written_runs (listener_writes clock tr) = snapshots tr" "written_summaries (listener_writes clock tr) = []"
  "written_runs (terminal_writes now row r) = [result_run r]"
  "written_summaries (terminal_writes now row r) = [(row, terminal_summary r)]"
proof -
  have "written_runs (map (\<lambda>run. WriteRun (clock run) run) runs) = runs"
    "written_summaries (map (\<lambda>run. WriteRun (clock run) run) runs) = []" for runs
    by (induction runs) simp_all
  then show "written_runs (listener_writes clock tr) = snapshots tr" "written_summaries (listener_writes clock tr) = []"
    by (simp_all add: listener_writes_def)
qed (simp_all add: terminal_writes_def)

lemma get_auto_run_update:
  "get_auto_run i (update_auto_run now run db) =
     map_option (\<lambda>old. if ar_id run = i then run\<lparr>ar_session_id := ar_session_id old\<rparr> else old) (get_auto_run i db)"
proof -
  have "map_option rr_run (find (\<lambda>r. ar_id (rr_run r) = i) (map (\<lambda>r. if ar_id (rr_run r) = ar_id run
         then r\<lparr>rr_run := run\<lparr>ar_session_id := ar_session_id (rr_run r)\<rparr>, rr_updated := now\<rparr> else r) rows)) =
      map_option (\<lambda>old. if ar_id run = i then run\<lparr>ar_session_id := ar_session_id old\<rparr> else old)
        (map_option rr_run (find (\<lambda>r. ar_id (rr_run r) = i) rows))" for rows
    by (induction rows) auto
  then show ?thesis by (simp add: get_auto_run_def update_auto_run_def)
qed

lemma runs_of_summary [simp]: "get_auto_run i (update_auto_assistant_summary row t db) = get_auto_run i db"
  by (simp add: get_auto_run_def update_auto_assistant_summary_def update_message_llm_content_def update_messages_def)

lemma messages_of_run [simp]: "db_messages (update_auto_run now run db) = db_messages db"
  by (simp add: update_auto_run_def)

lemma same_session: "ar_session_id run = s \<Longrightarrow> run\<lparr>ar_session_id := s\<rparr> = run"
  by (cases run) simp

lemma run_after_writes:
  "get_auto_run i db = Some old \<Longrightarrow> ar_session_id old = s \<Longrightarrow> \<forall>run \<in> set (written_runs ws). ar_id run = i \<and> ar_session_id run = s \<Longrightarrow>
   get_auto_run i (fold apply_write ws db) = Some (last (old # written_runs ws))"
proof (induction ws arbitrary: db old)
  case (Cons w ws)
  show ?case
  proof (cases w)
    case (WriteRun now run)
    with Cons.prems(3) have ids: "ar_id run = i" "ar_session_id run = s"
      and rest: "\<forall>run \<in> set (written_runs ws). ar_id run = i \<and> ar_session_id run = s" by simp_all
    have "get_auto_run i (update_auto_run now run db) = Some run"
      by (simp add: get_auto_run_update Cons.prems(1,2) ids same_session)
    from Cons.IH [OF this ids(2) rest] WriteRun show ?thesis by simp
  next
    case (WriteSummary row t)
    then have "get_auto_run i (apply_write w db) = Some old" using Cons.prems(1) by simp
    from Cons.IH [OF this Cons.prems(2)] Cons.prems(3) WriteSummary show ?thesis by simp
  qed
qed simp

definition put_summary :: "nat \<times> rstr \<Rightarrow> message_row list \<Rightarrow> message_row list" where
  "put_summary p = map (\<lambda>m. if mr_id m = fst p then m\<lparr>mr_llm := build_llm_message_json ''assistant'' (snd p)\<rparr> else m)"

lemma messages_of_summary [simp]:
  "db_messages (update_auto_assistant_summary row t db) = put_summary (row, t) (db_messages db)"
  by (simp add: update_auto_assistant_summary_def update_message_llm_content_def update_messages_def put_summary_def)

lemma messages_after_writes:
  "db_messages (fold apply_write ws db) = fold put_summary (written_summaries ws) (db_messages db)"
proof (induction ws arbitrary: db)
  case (Cons w ws)
  then show ?case by (cases w) simp_all
qed simp

text \<open>Whatever the interleaving, the last write of the run's row is the result.\<close>

lemma turn_writes_end:
  assumes "executor_run env cfg w = Some (r, st)"
    and "get_auto_run (ar_id (first_run cfg)) db = Some old" "ar_session_id old = ar_session_id (first_run cfg)"
    and "ws \<in> shuffles (listener_writes clock (as_trace st)) (terminal_writes now row r)"
  shows "get_auto_run (ar_id (first_run cfg)) (fold apply_write ws db) = Some (result_run r)"
    "db_messages (fold apply_write ws db) = put_summary (row, terminal_summary r) (db_messages db)"
proof -
  have res: "result_run r = as_run st" using executor_path [OF assms(1)] by (simp add: agrees_def)
  from executor_carries(2) [OF assms(1)] obtain pre where pre: "snapshots (as_trace st) = pre @ [result_run r]"
    by (auto simp: shown_last_def res)
  have zs: "written_runs ws \<in> shuffles (pre @ [result_run r]) [result_run r]"
    using written_runs_shuffles [OF assms(4)] pre by simp
  from last_shuffle [OF zs] have last: "written_runs ws \<noteq> []" "last (written_runs ws) = result_run r" by simp_all
  have "set (written_runs ws) \<subseteq> insert (as_run st) (set (snapshots (as_trace st)))"
    using set_shuffles [OF zs] pre res by auto
  then have "\<forall>run \<in> set (written_runs ws). ar_id run = ar_id (first_run cfg) \<and> ar_session_id run = ar_session_id (first_run cfg)"
    using executor_carries(1) [OF assms(1)] by (auto simp: carries_def)
  from run_after_writes [OF assms(2,3) this] last
  show "get_auto_run (ar_id (first_run cfg)) (fold apply_write ws db) = Some (result_run r)" by simp
  have "written_summaries ws = [(row, terminal_summary r)]" using written_summaries_shuffles [OF assms(4)] by simp
  then show "db_messages (fold apply_write ws db) = put_summary (row, terminal_summary r) (db_messages db)"
    by (simp add: messages_after_writes)
qed

subsection \<open>What a turn leaves behind\<close>

lemma insert_message_messages:
  "insert_message now sess folder role ty llm meta turn db = (k, db') \<Longrightarrow>
   k = db_next db \<and> db_next db' = Suc (db_next db) \<and> db_runs db' = db_runs db \<and> db_sessions db' = db_sessions db \<and>
   db_messages db' = db_messages db @ [\<lparr>mr_id = db_next db, mr_session = sess, mr_project = folder, mr_role = role,
     mr_type = ty, mr_llm = llm, mr_metadata = meta, mr_created = now, mr_rewound = None, mr_turn = turn\<rparr>]"
  by (auto simp: insert_message_def)

definition anchor_row :: "nat \<Rightarrow> rstr \<Rightarrow> rstr \<Rightarrow> rstr \<Rightarrow> rstr \<Rightarrow> rstr \<Rightarrow> rstr \<Rightarrow> message_row" where
  "anchor_row k now sess folder role content i =
     \<lparr>mr_id = k, mr_session = sess, mr_project = folder, mr_role = role, mr_type = ''text'',
      mr_llm = build_llm_message_json role content, mr_metadata = build_auto_metadata_json i, mr_created = now,
      mr_rewound = None, mr_turn = None\<rparr>"

text \<open>The chat at the end: the two rows follow what was there, the second with the summary.\<close>

lemma put_summary_append: "put_summary p (xs @ ys) = put_summary p xs @ put_summary p ys"
  by (simp add: put_summary_def)

lemma turn_messages:
  assumes "wf_db db" "insert_auto_run now0 run db = Some db1"
    and "persist_auto_anchor_rows now1 now2 sess folder message i db1 = (row, db2)"
  shows "row = Suc (db_next db)" "db_runs db2 = db_runs db1"
    "put_summary (row, t) (db_messages db2) = db_messages db @
       [anchor_row (db_next db) now1 sess folder ''user'' message i, anchor_row row now2 sess folder ''assistant'' t i]"
proof -
  have db1: "db_messages db1 = db_messages db" "db_next db1 = db_next db"
    using assms(2) by (auto simp: insert_auto_run_def split: if_splits)
  obtain k db' where u: "insert_message now1 sess folder ''user'' ''text'' (build_llm_message_json ''user'' message)
      (build_auto_metadata_json i) None db1 = (k, db')" by (rule prod.exhaust)
  then have a: "insert_message now2 sess folder ''assistant'' ''text'' (build_llm_message_json ''assistant'' placeholder)
      (build_auto_metadata_json i) None db' = (row, db2)"
    using assms(3) by (simp add: persist_auto_anchor_rows_def Let_def)
  note u' = insert_message_messages [OF u] and a' = insert_message_messages [OF a]
  then show row: "row = Suc (db_next db)" "db_runs db2 = db_runs db1" using db1 by simp_all
  have "put_summary (row, t) (db_messages db) = db_messages db"
    using assms(1) row(1) by (auto simp: put_summary_def wf_db_def intro!: map_idI)
  then show "put_summary (row, t) (db_messages db2) = db_messages db @
       [anchor_row (db_next db) now1 sess folder ''user'' message i, anchor_row row now2 sess folder ''assistant'' t i]"
    using u' a' db1 by (simp add: put_summary_append) (simp add: put_summary_def anchor_row_def)
qed

lemma anchor_decodes:
  "chat_of_json (inline_images host imgs sess (build_llm_message_json role content)) =
     Some \<lparr>cm_role = role, cm_content = Some (MText content), cm_tool_calls = None, cm_tool_call_id = None, cm_name = None,
           cm_thinking = None\<rparr>"
  by (simp add: build_llm_message_json_def inline_images_def get_array_def chat_of_json_def get_str_def opt_field_def
      opt_member_def)

lemma anchor_context [simp]: "context_row (anchor_row k now sess folder role content i)"
  by (simp add: context_row_def anchor_row_def)

lemma turn_chats:
  assumes "db_messages db' = db_messages db @
      [anchor_row k now1 sess folder ''user'' message i, anchor_row row now2 sess folder ''assistant'' t i]"
  shows "row_chats host imgs (turn_rows sess db') =
    row_chats host imgs (turn_rows sess db) @ [user_msg message, assistant_msg (Some t) None None]"
proof -
  let ?u = "anchor_row k now1 sess folder ''user'' message i" and ?a = "anchor_row row now2 sess folder ''assistant'' t i"
  have "turn_rows sess db' = turn_rows sess db @ [?u, ?a]"
    by (simp add: turn_rows_def active_rows_def assms) (simp add: anchor_row_def)
  then show ?thesis
    by (simp add: row_chats_append) (simp add: row_chats_Cons row_chats_def anchor_row_def anchor_decodes user_msg_def assistant_msg_def List.map_filter_simps)
qed

lemma new_turn_executor:
  assumes "new_auto_turn st i sess folder message = Inr c"
  shows "ec_task (at_executor c) = message" "ec_resume_from (at_executor c) = None" "first_run (at_executor c) = fresh_run (at_executor c)"
    "ar_id (first_run (at_executor c)) = i" "ar_session_id (first_run (at_executor c)) = sess" "ec_replan_budget (at_executor c) = 0"
  using assms by (auto simp: new_auto_turn_def first_run_def start_of_def fresh_run_def auto_replan_budget_def
      split: if_splits option.splits sum.splits)

lemma get_inserted_run:
  assumes "insert_auto_run now run db = Some db1"
  shows "get_auto_run (ar_id run) db1 = Some run"
proof -
  have "\<not> list_ex (\<lambda>r. ar_id (rr_run r) = ar_id run) (db_runs db)"
    "db1 = db\<lparr>db_runs := db_runs db @ [\<lparr>rr_run = run, rr_created = now, rr_updated = now\<rparr>]\<rparr>"
    using assms by (auto simp: insert_auto_run_def split: if_splits)
  then show ?thesis by (simp add: get_auto_run_def find_added)
qed

lemma turn_ends:
  assumes "wf_db db" "new_auto_turn st i sess folder message = Inr c"
    and "insert_auto_run now0 (fresh_run (at_executor c)) db = Some db1"
    and "persist_auto_anchor_rows now1 now2 sess folder message i db1 = (row, db2)"
    and "executor_run env (at_executor c) w = Some (r, fin)"
    and "ws \<in> shuffles (listener_writes clock (as_trace fin)) (terminal_writes now row r)"
  shows "get_auto_run i (fold apply_write ws db2) = Some (result_run r)"
    "db_messages (fold apply_write ws db2) = db_messages db @ [anchor_row (db_next db) now1 sess folder ''user'' message i,
       anchor_row row now2 sess folder ''assistant'' (terminal_summary r) i]"
proof -
  note exec = new_turn_executor [OF assms(2)] and msgs = turn_messages [OF assms(1,3,4)]
  have "get_auto_run (ar_id (first_run (at_executor c))) db2 = Some (fresh_run (at_executor c))"
    using get_inserted_run [OF assms(3)] exec(3,4) msgs(2) by (simp add: get_auto_run_def)
  from turn_writes_end [OF assms(5) this _ assms(6)] exec(3,4) msgs(3)
  show "get_auto_run i (fold apply_write ws db2) = Some (result_run r)"
    "db_messages (fold apply_write ws db2) = db_messages db @ [anchor_row (db_next db) now1 sess folder ''user'' message i,
       anchor_row row now2 sess folder ''assistant'' (terminal_summary r) i]" by simp_all
qed

text \<open>C17:
  however the listener's writes and those of the end interleave, when all are through the row of the run is the
  executor's result, and the session's conversation has gained exactly the user's prompt and, as the assistant's answer,
  the summary of how the run ended: what the next turn starts from.\<close>

theorem auto_turn_recorded:
  assumes "wf_db db" "new_auto_turn st i sess folder message = Inr c"
    and "insert_auto_run now0 (fresh_run (at_executor c)) db = Some db1"
    and "persist_auto_anchor_rows now1 now2 sess folder message i db1 = (row, db2)"
    and "executor_run env (at_executor c) w = Some (r, fin)"
    and "ws \<in> shuffles (listener_writes clock (as_trace fin)) (terminal_writes now row r)"
  shows "get_auto_run i (fold apply_write ws db2) = Some (result_run r) \<and>
    row_chats host imgs (turn_rows sess (fold apply_write ws db2)) =
      row_chats host imgs (turn_rows sess db) @ [user_msg message, assistant_msg (Some (terminal_summary r)) None None]"
  using turn_ends(1) [OF assms] turn_chats [OF turn_ends(2) [OF assms]] by simp

text \<open>C16:
  Retry takes up a failed run where it stopped, also after a restart: from what is stored once the run has ended, the
  command finds the saved run, its prompt and its chat row, and the executor it starts asks no orchestrator, runs the
  workers of the saved plan from the failed one on, and adds their results to those the first run had kept.\<close>

theorem retry_button_takes_up:
  assumes "wf_db db" "new_auto_turn st i sess folder message = Inr c"
    and "insert_auto_run now0 (fresh_run (at_executor c)) db = Some db1"
    and "persist_auto_anchor_rows now1 now2 sess folder message i db1 = (row, db2)"
    and "executor_run env (at_executor c) w = Some (ResFailed m snap, fin)" "ar_status snap = StAwaitingFailureDecision"
    and "ws \<in> shuffles (listener_writes clock (as_trace fin)) (terminal_writes now row (ResFailed m snap))"
    and "\<forall>x \<in> set (db_messages db). \<not> has_run_id i x"
    and "resolve_worker_failure now3 i ''retry'' (fold apply_write ws db2) = (Inr (ResumeRun saved action), evs, db3)"
    and "resumed_auto_turn st' db3 saved action = Inr c'"
    and "executor_run env' (at_executor c') w' = Some (r', fin')"
    and "distinct (map ws_id (pl_workers (last (ar_plan_versions snap))))"
  shows "at_row c' = Some row \<and> ec_task (at_executor c') = message \<and>
    (\<exists>log spec prior res k left. calls (as_trace fin) = log @ [RanWorker spec prior res] \<and>
       drop k (pl_workers (last (ar_plan_versions snap))) = left \<and> left \<noteq> [] \<and> hd left = spec \<and>
       \<not> list_ex asked (calls (as_trace fin')) \<and> prefix (ran_specs (calls (as_trace fin'))) left \<and>
       (ar_status (result_run r') = StDone \<longrightarrow> ran_specs (calls (as_trace fin')) = left) \<and>
       ar_worker_results (result_run r') = ar_worker_results snap @ kept_results (calls (as_trace fin')))"
proof -
  note ends = turn_ends [OF assms(1-5,7)]
  from assms(9) ends(1) assms(6) obtain fx where fx: "ar_pending_failure snap = Some fx" and
    out: "saved = snap" "action = RetryWorker (fx_worker_id fx)" "db3 = fold apply_write ws db2"
    by (auto simp: resolve_worker_failure_def split: option.splits)
  have ids: "ar_id snap = i"
    using executor_carries(1) [OF assms(5)] executor_path [OF assms(5)] new_turn_executor(4) [OF assms(2)]
    by (auto simp: carries_def agrees_def)
  have none: "find (\<lambda>x. mr_role x = role \<and> has_run_id i x) (db_messages db) = None" for role
    using assms(8) by (auto simp: find_None_iff)
  have front: "find P (xs @ ys) = find P ys" if "find P xs = None" for P and xs ys :: "message_row list"
    using that by (induction xs) (auto split: if_splits)
  have rows: "find_auto_assistant_row_id i db3 = Some row" "find_auto_user_prompt i db3 = Some message"
    unfolding find_auto_assistant_row_id_def find_auto_user_prompt_def out(3) ends(2) front [OF none]
    by (simp_all add: anchor_row_def has_run_id_def build_auto_metadata_json_def build_llm_message_json_def get_str_def)
  have c': "at_row c' = Some row" "ec_task (at_executor c') = message" "ec_resume_from (at_executor c') = Some snap"
    "ec_start_at_worker_id (at_executor c') = Some (fx_worker_id fx)" "ec_initial_replan_reason (at_executor c') = None"
    "ec_replan_budget (at_executor c') = 0"
    using assms(10) unfolding out(1,2) ids resumed_auto_turn_def rows
    by (auto simp: resume_start_at_def resume_reason_def auto_replan_budget_def split: if_splits option.splits sum.splits)
  have "ec_replan_budget (at_executor c') \<le> ar_replans_used snap" by (simp add: c'(6))
  from retry_takes_up [OF assms(5,6) fx assms(11) c'(3-5) this assms(12)] show ?thesis
    using c'(1,2) by blast
qed

definition auto_settings :: settings_db where
  "auto_settings = example_settings\<lparr>st_orchestrator := Some \<lparr>rf_provider_id = ''x'', rf_model = ''m''\<rparr>,
     st_worker_pool := Some [\<lparr>pe_provider_id = ''x'', pe_model = ''m'', pe_description = ''d''\<rparr>],
     st_auto_enabled := Some ''true''\<rparr>"

definition session_db :: agent_db where
  "session_db = the (create_session ''0'' ''s'' ''/p'' ''coding'' None None None None new_db)"

lemma example_turn:
  obtains c db1 row db2 where "new_auto_turn auto_settings ''r'' ''s'' ''/p'' ''t'' = Inr c"
    "at_executor c = auto_example_cfg\<lparr>ec_worker_pool := read_auto_worker_pool auto_settings\<rparr>"
    "insert_auto_run ''1'' (fresh_run (at_executor c)) session_db = Some db1"
    "persist_auto_anchor_rows ''1'' ''1'' ''s'' ''/p'' ''t'' ''r'' db1 = (row, db2)"
proof -
  have auto: "provider_by_id auto_settings ''x'' = Some example_provider" by code_simp
  then obtain c where c: "new_auto_turn auto_settings ''r'' ''s'' ''/p'' ''t'' = Inr c"
    "at_executor c = auto_example_cfg\<lparr>ec_worker_pool := read_auto_worker_pool auto_settings\<rparr>"
    by (simp add: new_auto_turn_def read_auto_enabled_def read_auto_worker_pool_def auto_settings_def build_worker_llm_configs_def
        auto_replan_budget_def auto_example_cfg_def)
  moreover obtain db1 where "insert_auto_run ''1'' (fresh_run (at_executor c)) session_db = Some db1"
    by (simp add: insert_auto_run_def session_db_def create_session_def new_db_def)
  ultimately show thesis using that by (metis prod.exhaust)
qed

lemma session_db_sound: "wf_db session_db" "db_messages session_db = []"
  by (simp_all add: session_db_def create_session_def new_db_def wf_db_def)

lemma example_turn_stops:
  assumes "at_executor c = auto_example_cfg\<lparr>ec_worker_pool := pool\<rparr>"
  shows "\<exists>m fin. executor_run (auto_example_env 1) (at_executor c) 0 = Some (ResFailed m auto_example_snap, fin)"
  unfolding executor_run_def auto_example_snap_def assms
  by (subst auto_loop.simps) (simp add: executor_defs auto_example_defs Let_def failure_of_def)

lemma in_shuffles_append: "xs @ ys \<in> shuffles xs ys"
  by (induction xs) (auto intro: Cons_in_shuffles_leftI)

theorem auto_turn_recorded_witness:
  "\<exists>c db1 row db2 m fin. executor_run (auto_example_env 1) (at_executor c) 0 = Some (ResFailed m auto_example_snap, fin) \<and>
     get_auto_run ''r'' (fold apply_write (listener_writes (\<lambda>_. ''2'') (as_trace fin) @
       terminal_writes ''3'' row (ResFailed m auto_example_snap)) db2) = Some auto_example_snap \<and>
     new_auto_turn auto_settings ''r'' ''s'' ''/p'' ''t'' = Inr c \<and>
     persist_auto_anchor_rows ''1'' ''1'' ''s'' ''/p'' ''t'' ''r'' db1 = (row, db2)"
proof -
  obtain c db1 row db2 where c: "new_auto_turn auto_settings ''r'' ''s'' ''/p'' ''t'' = Inr c"
    "at_executor c = auto_example_cfg\<lparr>ec_worker_pool := read_auto_worker_pool auto_settings\<rparr>"
    "insert_auto_run ''1'' (fresh_run (at_executor c)) session_db = Some db1"
    "persist_auto_anchor_rows ''1'' ''1'' ''s'' ''/p'' ''t'' ''r'' db1 = (row, db2)" by (rule example_turn)
  from example_turn_stops [OF c(2)] obtain m and fin :: "nat auto_state" where
    run: "executor_run (auto_example_env 1) (at_executor c) 0 = Some (ResFailed m auto_example_snap, fin)" by blast
  from auto_turn_recorded [OF session_db_sound(1) c(1,3,4) run in_shuffles_append, of "\<lambda>_. ''2''" "''3''" undefined undefined]
  show ?thesis using c(1,4) run by (metis result_run.simps(2))
qed

theorem retry_button_takes_up_witness:
  "\<exists>(c' :: auto_turn_config) r fin. executor_run (auto_example_env 5) (at_executor c') 0 = Some (r, fin) \<and> ec_task (at_executor c') = ''t'' \<and>
     \<not> list_ex asked (calls (as_trace fin)) \<and> ec_start_at_worker_id (at_executor c') = Some ''w2''"
proof -
  obtain c db1 row db2 where c: "new_auto_turn auto_settings ''r'' ''s'' ''/p'' ''t'' = Inr c"
    "at_executor c = auto_example_cfg\<lparr>ec_worker_pool := read_auto_worker_pool auto_settings\<rparr>"
    "insert_auto_run ''1'' (fresh_run (at_executor c)) session_db = Some db1"
    "persist_auto_anchor_rows ''1'' ''1'' ''s'' ''/p'' ''t'' ''r'' db1 = (row, db2)" by (rule example_turn)
  from example_turn_stops [OF c(2)] obtain m and fin :: "nat auto_state" where
    run: "executor_run (auto_example_env 1) (at_executor c) 0 = Some (ResFailed m auto_example_snap, fin)" by blast
  define ws where "ws = listener_writes (\<lambda>_. ''2'') (as_trace fin) @ terminal_writes ''3'' row (ResFailed m auto_example_snap)"
  have ws: "ws \<in> shuffles (listener_writes (\<lambda>_. ''2'') (as_trace fin)) (terminal_writes ''3'' row (ResFailed m auto_example_snap))"
    unfolding ws_def by (rule in_shuffles_append)
  let ?db = "fold apply_write ws db2"
  note ends = turn_ends [OF session_db_sound(1) c(1,3,4) run ws]
  have res: "resolve_worker_failure ''4'' ''r'' ''retry'' ?db = (Inr (ResumeRun auto_example_snap (RetryWorker ''w2'')), [], ?db)"
    using ends(1) by (simp add: resolve_worker_failure_def auto_example_snap_def failure_of_def auto_example_worker_def)
  have sess: "db_sessions (fold apply_write zs db) = db_sessions db" for zs db
  proof (induction zs arbitrary: db)
    case (Cons z zs)
    then show ?case by (cases z) (simp_all add: update_auto_run_def update_auto_assistant_summary_def
        update_message_llm_content_def update_messages_def)
  qed simp
  have "db_sessions db2 = db_sessions session_db"
    using c(3,4) by (auto simp: insert_auto_run_def persist_auto_anchor_rows_def insert_message_def Let_def split: if_splits)
  then have "get_session ''s'' ?db = get_session ''s'' session_db" by (simp add: get_session_def sess)
  then obtain s where s: "get_session ''s'' ?db = Some s"
    by (simp add: get_session_def session_db_def create_session_def new_db_def)
  have rows: "find_auto_assistant_row_id ''r'' ?db = Some row" "find_auto_user_prompt ''r'' ?db = Some ''t''"
    by (simp_all add: find_auto_assistant_row_id_def find_auto_user_prompt_def ends(2) session_db_sound(2) anchor_row_def has_run_id_def
        build_auto_metadata_json_def build_llm_message_json_def get_str_def)
  have auto: "provider_by_id auto_settings ''x'' = Some example_provider" by code_simp
  have ids: "ar_id auto_example_snap = ''r''" "ar_session_id auto_example_snap = ''s''" by (simp_all add: auto_example_snap_def)
  obtain c' where c': "resumed_auto_turn auto_settings ?db auto_example_snap (RetryWorker ''w2'') = Inr c'"
    and start: "ec_start_at_worker_id (at_executor c') = Some ''w2''"
    using s rows auto
    by (simp add: resumed_auto_turn_def ids read_auto_worker_pool_def auto_settings_def build_worker_llm_configs_def resume_start_at_def)
  from auto_loop_returns [OF auto_example_returns, of 5] obtain r and fin' :: "nat auto_state" where
    again: "executor_run (auto_example_env 5) (at_executor c') 0 = Some (r, fin')" unfolding executor_run_def by fastforce
  have "ar_status auto_example_snap = StAwaitingFailureDecision" "\<forall>x \<in> set (db_messages session_db). \<not> has_run_id ''r'' x"
    "distinct (map ws_id (pl_workers (last (ar_plan_versions auto_example_snap))))"
    by (simp_all add: auto_example_snap_def auto_example_defs session_db_sound)
  from retry_button_takes_up [OF session_db_sound(1) c(1,3,4) run this(1) ws this(2) res c' again this(3)]
  have "ec_task (at_executor c') = ''t''" "\<not> list_ex asked (calls (as_trace fin'))" by auto
  with again start show ?thesis by (intro exI [of _ c'] exI [of _ r] exI [of _ fin'] conjI)
qed

text \<open>
  The queue keeps the listener's writes in order among themselves, but the write of the end does not go through it: it
  can be overtaken, and the row then shows an old snapshot until the queue is through.
\<close>

lemma final_row_overtaken:
  assumes "executor_run env cfg w = Some (r, st)"
    and "get_auto_run (ar_id (first_run cfg)) db = Some old" "ar_session_id old = ar_session_id (first_run cfg)"
  shows "terminal_writes now row r @ listener_writes clock (as_trace st) \<in>
      shuffles (listener_writes clock (as_trace st)) (terminal_writes now row r)"
    "get_auto_run (ar_id (first_run cfg))
       (fold apply_write (terminal_writes now row r @ take 1 (listener_writes clock (as_trace st))) db) =
      Some (hd (snapshots (as_trace st)))"
proof -
  show "terminal_writes now row r @ listener_writes clock (as_trace st) \<in>
      shuffles (listener_writes clock (as_trace st)) (terminal_writes now row r)"
    by (simp only: shuffles_commutes [of "listener_writes clock (as_trace st)"] in_shuffles_append)
  from executor_carries(2) [OF assms(1)] obtain x xs where x: "snapshots (as_trace st) = x # xs"
    by (cases "snapshots (as_trace st)") (auto simp: shown_last_def)
  then have l: "take 1 (listener_writes clock (as_trace st)) = [WriteRun (clock x) x]" by (simp add: listener_writes_def)
  have "result_run r = as_run st" using executor_path [OF assms(1)] by (simp add: agrees_def)
  then have "\<forall>run \<in> set (written_runs (terminal_writes now row r @ [WriteRun (clock x) x])).
      ar_id run = ar_id (first_run cfg) \<and> ar_session_id run = ar_session_id (first_run cfg)"
    using executor_carries(1) [OF assms(1)] x by (auto simp: carries_def terminal_writes_def)
  from run_after_writes [OF assms(2,3) this]
  show "get_auto_run (ar_id (first_run cfg))
       (fold apply_write (terminal_writes now row r @ take 1 (listener_writes clock (as_trace st))) db) =
      Some (hd (snapshots (as_trace st)))"
    by (simp only: l x) (simp add: terminal_writes_def)
qed

end
