(* ===== verification/Turns.thy ===== *)
theory Turns
  imports AutoBridge
begin

section \<open>Turns and the folder lock (\<open>agent_bridge/commands.rs\<close>, \<open>agent_bridge/auto.rs\<close>)\<close>

text \<open>
  A turn takes its folder when it starts, in the set of running folders, and gives it back from tasks that run on their
  own: a monitor that waits for the relay, the end of an Auto run, a task spawned for an early return. Commands and these
  tasks run beside each other; the state has a list of turns, each in its phase, and any step that is possible may be
  next. The rest of what the application does with the database is a step of its own.
\<close>

subsection \<open>State\<close>

text \<open>
  \<open>Preparing\<close>: the command holds the lock and still works. A loop's turn is \<open>Relaying\<close> until its relay ends, then its
  monitor gives the folder back (\<open>Unlocked\<close>) and writes the status. An Auto turn is \<open>Executing\<close> a run, \<open>Cleaned\<close> when
  the executor has returned and its token is gone, and after the status is written its release is on the way. A
  turn that fails early is released the same way, one whose context does not load is \<open>Lost\<close>.
\<close>

datatype turn_phase = Preparing | Relaying | Relayed | Unlocked | Executing rstr | Cleaned | Releasing | Lost | Over

record turn =
  tn_session :: rstr
  tn_folder :: rstr
  tn_phase :: turn_phase

text \<open>A cancellation token is named by the number of its turn; approvers that wait by the id of their run.\<close>

record bridge =
  br_db :: agent_db
  br_settings :: settings_db
  br_running :: "rstr set"
  br_handlers :: "rstr set"
  br_tokens :: "rstr \<rightharpoonup> nat"
  br_cancelled :: "nat set"
  br_pending :: "rstr set"
  br_turns :: "turn list"
  br_deletes :: "rstr list"

definition new_bridge :: "agent_db \<Rightarrow> settings_db \<Rightarrow> bridge" where
  "new_bridge db st = \<lparr>br_db = db, br_settings = st, br_running = {}, br_handlers = {}, br_tokens = Map.empty,
     br_cancelled = {}, br_pending = {}, br_turns = [], br_deletes = []\<rparr>"

definition phase_of :: "nat \<Rightarrow> bridge \<Rightarrow> turn_phase option" where
  "phase_of n b = (if n < length (br_turns b) then Some (tn_phase (br_turns b ! n)) else None)"

definition move_turn :: "nat \<Rightarrow> turn_phase \<Rightarrow> bridge \<Rightarrow> bridge" where
  "move_turn n ph b = b\<lparr>br_turns := (br_turns b)[n := (br_turns b ! n)\<lparr>tn_phase := ph\<rparr>]\<rparr>"

definition on_db :: "(agent_db \<Rightarrow> agent_db) \<Rightarrow> bridge \<Rightarrow> bridge" where
  "on_db f b = b\<lparr>br_db := f (br_db b)\<rparr>"

subsection \<open>Commands\<close>

definition already_running :: "rstr \<Rightarrow> rstr" where
  "already_running folder = ''A session is already running for '' @ folder"

text \<open>The start of \<open>run_agent_turn\<close>, and the folder lock of \<open>resume_auto_turn\<close>\<close>

definition begin_turn :: "rstr \<Rightarrow> rstr \<Rightarrow> bridge \<Rightarrow> (rstr + nat) \<times> bridge" where
  "begin_turn sess folder b =
     (if folder \<in> br_running b then (Inl (already_running folder), b)
      else (Inr (length (br_turns b)),
            b\<lparr>br_running := insert folder (br_running b),
              br_turns := br_turns b @ [\<lparr>tn_session = sess, tn_folder = folder, tn_phase = Preparing\<rparr>]\<rparr>))"

definition apply_mode :: "rstr \<Rightarrow> session_row \<Rightarrow> rstr option \<Rightarrow> agent_db \<Rightarrow> agent_db" where
  "apply_mode now s mode db =
     (case mode of Some m \<Rightarrow> if m \<noteq> sr_mode s then set_session_mode now (sr_id s) m db else db | None \<Rightarrow> db)"

definition send_message :: "rstr \<Rightarrow> rstr \<Rightarrow> rstr option \<Rightarrow> bridge \<Rightarrow> (rstr + nat) \<times> bridge" where
  "send_message now sess mode b =
     (case get_session sess (br_db b) of
        None \<Rightarrow> (Inl (''Session not found: '' @ sess), b)
      | Some s \<Rightarrow> begin_turn (sr_id s) (sr_folder s) (on_db (apply_mode now s mode) b))"

text \<open>What a rewind does to the files, by the checkpoint store.\<close>

datatype file_effect = RestoreTo rstr u32 rstr | DeleteFrom rstr u32

definition rewind_effects :: "rstr \<Rightarrow> rstr \<Rightarrow> u32 option \<Rightarrow> file_effect list" where
  "rewind_effects sess folder turn =
     (let target_turn = (case turn of Some t \<Rightarrow> t | None \<Rightarrow> 1);
          restore_turn = (if target_turn = 0 then 0 else target_turn - 1)
      in [RestoreTo sess restore_turn folder, DeleteFrom sess target_turn])"

definition rewind_to_message ::
  "rstr \<Rightarrow> rstr \<Rightarrow> nat \<Rightarrow> bool \<Rightarrow> bridge \<Rightarrow> (rstr + nat) \<times> file_effect list \<times> bridge" where
  "rewind_to_message now sess message_id restore_code b =
     (case get_message_by_id message_id (br_db b) of
        None \<Rightarrow> (Inl ''Message not found'', [], b)
      | Some target \<Rightarrow>
          if mr_role target \<noteq> ''user'' then (Inl ''Can only rewind to user messages'', [], b)
          else if mr_session target \<noteq> sess then (Inl ''Message does not belong to this session'', [], b)
          else
            let b1 = on_db (rewind_messages now sess (mr_id target)) b
            in case get_session sess (br_db b1) of
                 None \<Rightarrow> (Inl ''Session not found'', [], b1)
               | Some s \<Rightarrow>
                   (case begin_turn (sr_id s) (sr_folder s) b1 of
                      (r, b2) \<Rightarrow> (r, if restore_code then rewind_effects sess (sr_folder s) (mr_turn target) else [], b2)))"

text \<open>The stop button: the session manager's run is told elsewhere, the Auto run by its token.\<close>

definition cancel_session_command :: "rstr \<Rightarrow> bridge \<Rightarrow> bridge" where
  "cancel_session_command sess b =
     b\<lparr>br_cancelled := (case br_tokens b sess of Some n \<Rightarrow> insert n (br_cancelled b) | None \<Rightarrow> br_cancelled b),
       br_handlers := br_handlers b - {sess}\<rparr>"

text \<open>
  Restoring a checkpoint cancels the session manager's run only. The restore may fail with a message (\<open>failure\<close>); then
  nothing after it happens.
\<close>

definition restore_checkpoint ::
  "rstr \<Rightarrow> rstr \<Rightarrow> u32 \<Rightarrow> rstr option \<Rightarrow> bridge \<Rightarrow> (rstr + unit) \<times> file_effect list \<times> bridge" where
  "restore_checkpoint now sess turn failure b =
     (let b1 = b\<lparr>br_handlers := br_handlers b - {sess}\<rparr>;
          folder = (case get_session sess (br_db b1) of Some s \<Rightarrow> sr_folder s | None \<Rightarrow> [])
      in case failure of
           Some e \<Rightarrow> (Inl (''Failed to restore checkpoint: '' @ e), [RestoreTo sess turn folder], b1)
         | None \<Rightarrow> (Inr (), [RestoreTo sess turn folder, DeleteFrom sess (turn + 1)],
                   on_db (rewind_from_turn now sess (turn + 1)) b1))"

definition check_delete :: "rstr \<Rightarrow> bridge \<Rightarrow> (rstr + unit) \<times> bridge" where
  "check_delete sess b =
     (case get_session sess (br_db b) of
        Some s \<Rightarrow> if sr_folder s \<in> br_running b then (Inl ''Stop the running session in this folder before deleting.'', b)
                  else (Inr (), b\<lparr>br_deletes := sess # br_deletes b\<rparr>)
      | None \<Rightarrow> (Inr (), b\<lparr>br_deletes := sess # br_deletes b\<rparr>))"

subsection \<open>Steps\<close>

datatype bridge_action =
    SendMessage rstr rstr "rstr option"
  | RewindTo rstr rstr nat bool
  | ResumeAuto auto_run resume_action
  | MarkActive rstr nat
  | FailTurn nat
  | LoseTurn nat
  | StartLoop nat
  | RelayEnds nat
  | Unlock nat
  | GoIdle rstr nat
  | StartExecutor nat rstr
  | AwaitPlan nat rstr
  | AnswerPlan rstr rstr bool
  | ExecutorReturns nat rstr
  | ExecutorIdle rstr nat
  | Release nat
  | CancelSession rstr
  | RestoreCheckpoint rstr rstr u32 "rstr option"
  | CheckDelete rstr
  | DeleteSession rstr rstr
  | CreateSession rstr rstr rstr "rstr option" "rstr option" "rstr option" "rstr option"
  | ChangeSettings settings_db
  | StoreRows "agent_db \<Rightarrow> agent_db"

definition session_folders :: "agent_db \<Rightarrow> (rstr \<times> rstr) list" where
  "session_folders db = map (\<lambda>s. (sr_id s, sr_folder s)) (db_sessions db)"

fun step_possible :: "bridge_action \<Rightarrow> bridge \<Rightarrow> bool" where
  "step_possible (MarkActive now n) b \<longleftrightarrow> phase_of n b = Some Preparing"
| "step_possible (FailTurn n) b \<longleftrightarrow> phase_of n b = Some Preparing"
| "step_possible (LoseTurn n) b \<longleftrightarrow> phase_of n b = Some Preparing"
| "step_possible (StartLoop n) b \<longleftrightarrow> phase_of n b = Some Preparing"
| "step_possible (RelayEnds n) b \<longleftrightarrow> phase_of n b = Some Relaying"
| "step_possible (Unlock n) b \<longleftrightarrow> phase_of n b = Some Relayed"
| "step_possible (GoIdle now n) b \<longleftrightarrow> phase_of n b = Some Unlocked"
| "step_possible (StartExecutor n i) b \<longleftrightarrow> phase_of n b = Some Preparing"
| "step_possible (AwaitPlan n i) b \<longleftrightarrow> phase_of n b = Some (Executing i)"
| "step_possible (ExecutorReturns n i) b \<longleftrightarrow> phase_of n b = Some (Executing i)"
| "step_possible (ExecutorIdle now n) b \<longleftrightarrow> phase_of n b = Some Cleaned"
| "step_possible (Release n) b \<longleftrightarrow> phase_of n b = Some Releasing"
| "step_possible (DeleteSession now sess) b \<longleftrightarrow> sess \<in> set (br_deletes b)"
| "step_possible (StoreRows f) b \<longleftrightarrow> session_folders (f (br_db b)) = session_folders (br_db b)"
| "step_possible _ b \<longleftrightarrow> True"

abbreviation turn_session :: "nat \<Rightarrow> bridge \<Rightarrow> rstr" where
  "turn_session n b \<equiv> tn_session (br_turns b ! n)"

abbreviation free_folder :: "nat \<Rightarrow> bridge \<Rightarrow> bridge" where
  "free_folder n b \<equiv> b\<lparr>br_running := br_running b - {tn_folder (br_turns b ! n)}\<rparr>"

fun bridge_step :: "bridge_action \<Rightarrow> bridge \<Rightarrow> bridge" where
  "bridge_step (SendMessage now sess mode) b = snd (send_message now sess mode b)"
| "bridge_step (RewindTo now sess i restore) b = snd (snd (rewind_to_message now sess i restore b))"
| "bridge_step (ResumeAuto snap action) b =
     (case resumed_auto_turn (br_settings b) (br_db b) snap action of
        Inl e \<Rightarrow> b
      | Inr c \<Rightarrow> snd (begin_turn (ar_session_id snap) (at_folder c) b))"
| "bridge_step (MarkActive now n) b = on_db (db_set_session_status now (turn_session n b) ''active'') b"
| "bridge_step (FailTurn n) b = move_turn n Releasing b"
| "bridge_step (LoseTurn n) b = move_turn n Lost b"
| "bridge_step (StartLoop n) b = move_turn n Relaying (b\<lparr>br_handlers := insert (turn_session n b) (br_handlers b)\<rparr>)"
| "bridge_step (RelayEnds n) b = move_turn n Relayed b"
| "bridge_step (Unlock n) b = move_turn n Unlocked (free_folder n b)"
| "bridge_step (GoIdle now n) b = move_turn n Over (on_db (db_set_session_status now (turn_session n b) ''idle'') b)"
| "bridge_step (StartExecutor n i) b = move_turn n (Executing i) (b\<lparr>br_tokens := (br_tokens b)(turn_session n b \<mapsto> n)\<rparr>)"
| "bridge_step (AwaitPlan n i) b = b\<lparr>br_pending := insert i (br_pending b)\<rparr>"
| "bridge_step (AnswerPlan now i approved) b =
     (case approve_auto_plan now i approved (br_pending b) (br_db b) of
        (r, pending, db) \<Rightarrow>
          let b1 = b\<lparr>br_pending := pending, br_db := db\<rparr>
          in case r of
               Inr (ResumeRun snap action) \<Rightarrow>
                 (case resumed_auto_turn (br_settings b) db snap action of
                    Inl e \<Rightarrow> b1
                  | Inr c \<Rightarrow> snd (begin_turn (ar_session_id snap) (at_folder c) b1))
             | _ \<Rightarrow> b1)"
| "bridge_step (ExecutorReturns n i) b =
     move_turn n Cleaned (b\<lparr>br_pending := br_pending b - {i}, br_tokens := (br_tokens b)(turn_session n b := None)\<rparr>)"
| "bridge_step (ExecutorIdle now n) b = move_turn n Releasing (on_db (db_set_session_status now (turn_session n b) ''idle'') b)"
| "bridge_step (Release n) b = move_turn n Over (free_folder n b)"
| "bridge_step (CancelSession sess) b = cancel_session_command sess b"
| "bridge_step (RestoreCheckpoint now sess turn failure) b = snd (snd (restore_checkpoint now sess turn failure b))"
| "bridge_step (CheckDelete sess) b = snd (check_delete sess b)"
| "bridge_step (DeleteSession now sess) b = (on_db (delete_session now sess) b)\<lparr>br_deletes := remove1 sess (br_deletes b)\<rparr>"
| "bridge_step (CreateSession now i folder title mode provider_id model) b =
     (case create_session_command now i folder title mode provider_id model (br_settings b) (br_db b) of
        None \<Rightarrow> b | Some (s, db) \<Rightarrow> b\<lparr>br_db := db\<rparr>)"
| "bridge_step (ChangeSettings st) b = b\<lparr>br_settings := st\<rparr>"
| "bridge_step (StoreRows f) b = on_db f b"

inductive bridged :: "bridge \<Rightarrow> bool" where
  start: "bridged (new_bridge db st)"
| step: "bridged b \<Longrightarrow> step_possible a b \<Longrightarrow> bridged (bridge_step a b)"

subsection \<open>The invariant\<close>

definition holds_folder :: "rstr \<Rightarrow> turn \<Rightarrow> bool" where
  "holds_folder f t \<longleftrightarrow> tn_folder t = f \<and> tn_phase t \<noteq> Unlocked \<and> tn_phase t \<noteq> Over"

definition executing :: "turn \<Rightarrow> bool" where
  "executing t \<longleftrightarrow> (\<exists>i. tn_phase t = Executing i)"

definition turns_inv :: "bridge \<Rightarrow> bool" where
  "turns_inv b \<longleftrightarrow>
     (\<forall>f i j. i < length (br_turns b) \<longrightarrow> j < length (br_turns b) \<longrightarrow> holds_folder f (br_turns b ! i) \<longrightarrow>
        holds_folder f (br_turns b ! j) \<longrightarrow> i = j) \<and>
     (\<forall>f. f \<in> br_running b \<longleftrightarrow> list_ex (holds_folder f) (br_turns b)) \<and>
     (\<forall>t \<in> set (br_turns b). map_of (session_folders (br_db b)) (tn_session t) = Some (tn_folder t)) \<and>
     (\<forall>s n. br_tokens b s = Some n \<longleftrightarrow> n < length (br_turns b) \<and> tn_session (br_turns b ! n) = s \<and> executing (br_turns b ! n))"

lemma folder_of_session: "map_of (session_folders db) i = map_option sr_folder (get_session i db)"
proof -
  have "map_of (map (\<lambda>s. (sr_id s, sr_folder s)) xs) i = map_option sr_folder (find (\<lambda>s. sr_id s = i) xs)" for xs
    by (induction xs) auto
  then show ?thesis by (simp add: session_folders_def get_session_def)
qed

lemma get_session_id: "get_session i db = Some s \<Longrightarrow> sr_id s = i"
  by (auto simp: get_session_def find_Some_iff)

lemma session_folders_update:
  "(\<And>r. sr_id (f r) = sr_id r \<and> sr_folder (f r) = sr_folder r) \<Longrightarrow>
   session_folders (update_session now i f db) = session_folders db"
  by (simp add: session_folders_def update_session_def)

lemma session_folders_same [simp]:
  "session_folders (db_set_session_status now i status db) = session_folders db"
  "session_folders (delete_session now i db) = session_folders db"
  "session_folders (set_session_mode now i m db) = session_folders db"
  "session_folders (apply_mode now s mode db) = session_folders db"
  "session_folders (rewind_messages now sess k db) = session_folders db"
  "session_folders (rewind_from_turn now sess t db) = session_folders db"
  "session_folders (update_auto_run now run db) = session_folders db"
  by (simp_all add: db_set_session_status_def delete_session_def set_session_mode_def apply_mode_def session_folders_update
      rewind_messages_def rewind_from_turn_def update_messages_def update_auto_run_def split: option.split)
    (simp_all add: session_folders_def)

lemma created_folders:
  "create_session_command now i folder title mode provider_id model st db = Some (s, db') \<Longrightarrow>
   \<exists>x. session_folders db' = session_folders db @ [x]"
  by (auto simp: create_session_command_def create_session_def session_folders_def Let_def split: if_splits)

lemma turns_invD:
  assumes "turns_inv b"
  shows "i < length (br_turns b) \<Longrightarrow> j < length (br_turns b) \<Longrightarrow> holds_folder f (br_turns b ! i) \<Longrightarrow>
      holds_folder f (br_turns b ! j) \<Longrightarrow> i = j"
    "f \<in> br_running b \<longleftrightarrow> list_ex (holds_folder f) (br_turns b)"
    "t \<in> set (br_turns b) \<Longrightarrow> map_of (session_folders (br_db b)) (tn_session t) = Some (tn_folder t)"
    "br_tokens b s = Some n \<longleftrightarrow> n < length (br_turns b) \<and> tn_session (br_turns b ! n) = s \<and> executing (br_turns b ! n)"
  using assms unfolding turns_inv_def by blast+

lemma executing_holds: "executing t \<Longrightarrow> holds_folder (tn_folder t) t"
  by (auto simp: executing_def holds_folder_def)

lemma one_executing:
  assumes "turns_inv b" "i < length (br_turns b)" "j < length (br_turns b)" "executing (br_turns b ! i)" "executing (br_turns b ! j)"
    "tn_session (br_turns b ! i) = tn_session (br_turns b ! j)"
  shows "i = j"
proof -
  have "tn_folder (br_turns b ! i) = tn_folder (br_turns b ! j)"
    using turns_invD(3) [OF assms(1) nth_mem [OF assms(2)]] turns_invD(3) [OF assms(1) nth_mem [OF assms(3)]] assms(6) by simp
  then show ?thesis
    using turns_invD(1) [OF assms(1,2,3)] executing_holds [OF assms(4)] executing_holds [OF assms(5)] by simp
qed

lemma inv_same:
  assumes "turns_inv b" "br_turns b' = br_turns b" "br_running b' = br_running b" "br_tokens b' = br_tokens b"
    "\<And>s f. map_of (session_folders (br_db b)) s = Some f \<Longrightarrow> map_of (session_folders (br_db b')) s = Some f"
  shows "turns_inv b'"
  using assms unfolding turns_inv_def by auto

lemma inv_begin:
  assumes "turns_inv b" "map_of (session_folders (br_db b)) sess = Some folder"
  shows "turns_inv (snd (begin_turn sess folder b))"
proof (cases "folder \<in> br_running b")
  case True
  with assms(1) show ?thesis by (simp add: begin_turn_def)
next
  case False
  let ?t = "\<lparr>tn_session = sess, tn_folder = folder, tn_phase = Preparing\<rparr>" and ?ts = "br_turns b"
  have new: "holds_folder f ?t \<longleftrightarrow> f = folder" "\<not> executing ?t" for f
    by (auto simp: holds_folder_def executing_def)
  have none: "\<not> holds_folder folder (?ts ! i)" if "i < length ?ts" for i
    using False turns_invD(2) [OF assms(1)] that by (auto simp: list_ex_length)
  have b': "snd (begin_turn sess folder b) = b\<lparr>br_running := insert folder (br_running b), br_turns := ?ts @ [?t]\<rparr>"
    using False by (simp add: begin_turn_def)
  show ?thesis
    unfolding b' turns_inv_def
  proof (intro conjI allI impI)
    fix f i j
    assume "i < length (br_turns (b\<lparr>br_running := insert folder (br_running b), br_turns := ?ts @ [?t]\<rparr>))"
      "j < length (br_turns (b\<lparr>br_running := insert folder (br_running b), br_turns := ?ts @ [?t]\<rparr>))"
      "holds_folder f (br_turns (b\<lparr>br_running := insert folder (br_running b), br_turns := ?ts @ [?t]\<rparr>) ! i)"
      "holds_folder f (br_turns (b\<lparr>br_running := insert folder (br_running b), br_turns := ?ts @ [?t]\<rparr>) ! j)"
    then show "i = j" using turns_invD(1) [OF assms(1), of i j f] none new(1)
      by (auto simp: nth_append less_Suc_eq split: if_splits)
  next
    fix f
    show "f \<in> br_running (b\<lparr>br_running := insert folder (br_running b), br_turns := ?ts @ [?t]\<rparr>) \<longleftrightarrow>
        list_ex (holds_folder f) (br_turns (b\<lparr>br_running := insert folder (br_running b), br_turns := ?ts @ [?t]\<rparr>))"
      using turns_invD(2) [OF assms(1), of f] new(1) by auto
  next
    show "\<forall>t \<in> set (br_turns (b\<lparr>br_running := insert folder (br_running b), br_turns := ?ts @ [?t]\<rparr>)).
        map_of (session_folders (br_db (b\<lparr>br_running := insert folder (br_running b), br_turns := ?ts @ [?t]\<rparr>))) (tn_session t) = Some (tn_folder t)"
      using turns_invD(3) [OF assms(1)] assms(2) by auto
  next
    fix s n
    show "br_tokens (b\<lparr>br_running := insert folder (br_running b), br_turns := ?ts @ [?t]\<rparr>) s = Some n \<longleftrightarrow>
        n < length (br_turns (b\<lparr>br_running := insert folder (br_running b), br_turns := ?ts @ [?t]\<rparr>)) \<and>
        tn_session (br_turns (b\<lparr>br_running := insert folder (br_running b), br_turns := ?ts @ [?t]\<rparr>) ! n) = s \<and>
        executing (br_turns (b\<lparr>br_running := insert folder (br_running b), br_turns := ?ts @ [?t]\<rparr>) ! n)"
      using turns_invD(4) [OF assms(1), of s n] new(2) by (auto simp: nth_append less_Suc_eq)
  qed
qed

text \<open>A turn moves to its next phase: it may give up the folder, and take or give up its session's token.\<close>

abbreviation gives_up :: "turn_phase \<Rightarrow> bool" where
  "gives_up ph \<equiv> ph = Unlocked \<or> ph = Over"

definition moved :: "nat \<Rightarrow> turn_phase \<Rightarrow> bridge \<Rightarrow> bridge \<Rightarrow> bool" where
  "moved n ph b b' \<longleftrightarrow>
     (let t = br_turns b ! n; t' = t\<lparr>tn_phase := ph\<rparr>
      in br_turns b' = (br_turns b)[n := t'] \<and> session_folders (br_db b') = session_folders (br_db b) \<and>
         br_running b' = (if gives_up ph \<and> \<not> gives_up (tn_phase t) then br_running b - {tn_folder t} else br_running b) \<and>
         br_tokens b' = (if executing t' then (br_tokens b)(tn_session t \<mapsto> n)
           else if executing t then (br_tokens b)(tn_session t := None) else br_tokens b))"

lemma inv_move:
  assumes inv: "turns_inv b" and n: "n < length (br_turns b)" and m: "moved n ph b b'"
    and "gives_up (tn_phase (br_turns b ! n)) \<Longrightarrow> gives_up ph"
  shows "turns_inv b'"
proof -
  define t where "t = br_turns b ! n"
  define t' where "t' = t\<lparr>tn_phase := ph\<rparr>"
  have b': "br_turns b' = (br_turns b)[n := t']" "session_folders (br_db b') = session_folders (br_db b)"
    "br_running b' = (if gives_up ph \<and> \<not> gives_up (tn_phase t) then br_running b - {tn_folder t} else br_running b)"
    "br_tokens b' = (if executing t' then (br_tokens b)(tn_session t \<mapsto> n)
       else if executing t then (br_tokens b)(tn_session t := None) else br_tokens b)"
    using m by (simp_all add: moved_def t_def t'_def Let_def)
  have fields [simp]: "tn_session t' = tn_session t" "tn_folder t' = tn_folder t" by (simp_all add: t'_def)
  have less: "holds_folder f t' \<Longrightarrow> holds_folder f t" for f
    using assms(4) by (auto simp: holds_folder_def t'_def t_def)
  have at: "(br_turns b)[n := t'] ! i = (if i = n then t' else br_turns b ! i)" if "i < length (br_turns b)" for i
    using that by simp
  have weaker: "holds_folder f (br_turns b ! i)" if "i < length (br_turns b)" "holds_folder f (br_turns b' ! i)" for f i
    using that less by (auto simp: b'(1) at t_def split: if_splits)
  show ?thesis
    unfolding turns_inv_def
  proof (intro conjI allI impI ballI)
    fix f i j
    assume "i < length (br_turns b')" "j < length (br_turns b')" "holds_folder f (br_turns b' ! i)" "holds_folder f (br_turns b' ! j)"
    then show "i = j" using turns_invD(1) [OF inv, of i j f] weaker by (simp add: b'(1))
  next
    fix f
    have one: "holds_folder f (br_turns b ! j) \<Longrightarrow> j < length (br_turns b) \<Longrightarrow> holds_folder f t \<Longrightarrow> j = n" for j
      using turns_invD(1) [OF inv, of j n f] n by (simp add: t_def)
    have before: "list_ex (holds_folder f) (br_turns b) \<longleftrightarrow> holds_folder f t \<or> (\<exists>j < length (br_turns b). j \<noteq> n \<and> holds_folder f (br_turns b ! j))"
      using n by (auto simp: list_ex_length t_def)
    have after: "list_ex (holds_folder f) (br_turns b') \<longleftrightarrow> holds_folder f t' \<or> (\<exists>j < length (br_turns b). j \<noteq> n \<and> holds_folder f (br_turns b ! j))"
      unfolding b'(1) by (rule list_ex_update [OF n])
    show "f \<in> br_running b' \<longleftrightarrow> list_ex (holds_folder f) (br_turns b')"
    proof (cases "gives_up ph \<and> \<not> gives_up (tn_phase t)")
      case True
      then have "\<not> holds_folder f t'" "holds_folder f t \<longleftrightarrow> f = tn_folder t" by (auto simp: holds_folder_def t'_def)
      then show ?thesis using True turns_invD(2) [OF inv, of f] before after one by (auto simp: b'(3))
    next
      case False
      then have "holds_folder f t' \<longleftrightarrow> holds_folder f t" using assms(4) by (auto simp: holds_folder_def t'_def t_def)
      moreover have "br_running b' = br_running b" using False unfolding b'(3) by (simp only: if_False)
      ultimately show ?thesis using turns_invD(2) [OF inv, of f] before after by simp
    qed
  next
    fix x assume "x \<in> set (br_turns b')"
    then have "x = t' \<or> x \<in> set (br_turns b)" using set_update_subset_insert [of "br_turns b" n t'] by (auto simp: b'(1))
    then show "map_of (session_folders (br_db b')) (tn_session x) = Some (tn_folder x)"
      using turns_invD(3) [OF inv] turns_invD(3) [OF inv nth_mem [OF n]] by (auto simp: b'(2) t_def)
  next
    fix s k
    have same: "executing (br_turns b ! k) \<Longrightarrow> k < length (br_turns b) \<Longrightarrow> tn_session (br_turns b ! k) = tn_session t \<Longrightarrow>
        executing t \<Longrightarrow> k = n"
      using one_executing [OF inv _ n, of k] by (simp add: t_def)
    have clash: "executing (br_turns b ! k) \<Longrightarrow> k < length (br_turns b) \<Longrightarrow> tn_session (br_turns b ! k) = tn_session t \<Longrightarrow>
        executing t' \<Longrightarrow> k = n"
    proof -
      assume k: "executing (br_turns b ! k)" "k < length (br_turns b)" "tn_session (br_turns b ! k) = tn_session t" and "executing t'"
      then have "holds_folder (tn_folder t) t" using less [of "tn_folder t"] executing_holds [of t'] by simp
      moreover have "tn_folder (br_turns b ! k) = tn_folder t"
        using turns_invD(3) [OF inv nth_mem [OF k(2)]] turns_invD(3) [OF inv nth_mem [OF n]] k(3) by (simp add: t_def)
      ultimately show "k = n" using turns_invD(1) [OF inv k(2) n] executing_holds [OF k(1)] by (simp add: t_def)
    qed
    show "br_tokens b' s = Some k \<longleftrightarrow> k < length (br_turns b') \<and> tn_session (br_turns b' ! k) = s \<and> executing (br_turns b' ! k)"
    proof (cases "k = n")
      case True
      have "br_tokens b s = Some n \<longleftrightarrow> tn_session t = s \<and> executing t"
        using turns_invD(4) [OF inv, of s n] n by (simp add: t_def)
      then show ?thesis using n True by (auto simp: b'(1,4))
    next
      case False
      then have k: "(br_turns b)[n := t'] ! k = br_turns b ! k" by simp
      show ?thesis
        using turns_invD(4) [OF inv, of s k] same clash False
        unfolding b'(1,4) k length_list_update by (auto split: if_splits)
    qed
  qed
qed

lemma phase_ofD: "phase_of n b = Some ph \<Longrightarrow> n < length (br_turns b) \<and> tn_phase (br_turns b ! n) = ph"
  by (simp add: phase_of_def split: if_splits)

lemma inv_send:
  assumes "turns_inv b"
  shows "turns_inv (snd (send_message now sess mode b))"
proof (cases "get_session sess (br_db b)")
  case None
  with assms show ?thesis by (simp add: send_message_def)
next
  case (Some s)
  let ?b = "on_db (apply_mode now s mode) b"
  have "turns_inv ?b" using assms by (rule inv_same) (simp_all add: on_db_def)
  moreover have "session_folders (br_db ?b) = session_folders (br_db b)" by (simp add: on_db_def)
  then have "map_of (session_folders (br_db ?b)) (sr_id s) = Some (sr_folder s)"
    by (simp only: folder_of_session get_session_id [OF Some] Some option.map)
  ultimately show ?thesis using inv_begin by (simp add: send_message_def Some)
qed

lemma inv_rewind:
  assumes "turns_inv b"
  shows "turns_inv (snd (snd (rewind_to_message now sess i restore b)))"
proof -
  let ?b = "\<lambda>k. on_db (rewind_messages now sess k) b"
  have inv: "turns_inv (?b k)" for k using assms by (rule inv_same) (simp_all add: on_db_def)
  have folder: "map_of (session_folders (br_db (?b k))) (sr_id s) = Some (sr_folder s)"
    if "get_session sess (br_db (?b k)) = Some s" for k s
    by (simp only: folder_of_session get_session_id [OF that] that option.map)
  show ?thesis
    using assms inv inv_begin [OF inv folder]
    by (auto simp: rewind_to_message_def Let_def split: option.split prod.split) (metis snd_conv)
qed

lemma resumed_folder:
  "resumed_auto_turn st db snap action = Inr c \<Longrightarrow> map_of (session_folders db) (ar_session_id snap) = Some (at_folder c)"
  by (auto simp: resumed_auto_turn_def folder_of_session split: option.splits if_splits sum.splits)

lemma inv_step:
  assumes inv: "turns_inv b" and "step_possible a b"
  shows "turns_inv (bridge_step a b)"
proof (cases a)
  case (SendMessage now sess mode)
  then show ?thesis using inv_send [OF inv] by simp
next
  case (RewindTo now sess i restore)
  then show ?thesis using inv_rewind [OF inv] by simp
next
  case (ResumeAuto snap action)
  then show ?thesis using inv inv_begin [OF inv resumed_folder] by (auto split: sum.split)
next
  case (MarkActive now n)
  show ?thesis using inv by (rule inv_same) (simp_all add: MarkActive on_db_def)
next
  case (FailTurn n)
  then have n: "phase_of n b = Some Preparing" using assms(2) by simp
  show ?thesis by (rule inv_move [OF inv, of n Releasing]) (use phase_ofD [OF n] in \<open>simp_all add: FailTurn moved_def move_turn_def executing_def Let_def\<close>)
next
  case (LoseTurn n)
  then have n: "phase_of n b = Some Preparing" using assms(2) by simp
  show ?thesis by (rule inv_move [OF inv, of n Lost]) (use phase_ofD [OF n] in \<open>simp_all add: LoseTurn moved_def move_turn_def executing_def Let_def\<close>)
next
  case (StartLoop n)
  then have n: "phase_of n b = Some Preparing" using assms(2) by simp
  show ?thesis by (rule inv_move [OF inv, of n Relaying]) (use phase_ofD [OF n] in \<open>simp_all add: StartLoop moved_def move_turn_def executing_def Let_def\<close>)
next
  case (RelayEnds n)
  then have n: "phase_of n b = Some Relaying" using assms(2) by simp
  show ?thesis by (rule inv_move [OF inv, of n Relayed]) (use phase_ofD [OF n] in \<open>simp_all add: RelayEnds moved_def move_turn_def executing_def Let_def\<close>)
next
  case (Unlock n)
  then have n: "phase_of n b = Some Relayed" using assms(2) by simp
  show ?thesis by (rule inv_move [OF inv, of n Unlocked]) (use phase_ofD [OF n] in \<open>simp_all add: Unlock moved_def move_turn_def executing_def Let_def\<close>)
next
  case (GoIdle now n)
  then have n: "phase_of n b = Some Unlocked" using assms(2) by simp
  show ?thesis by (rule inv_move [OF inv, of n Over]) (use phase_ofD [OF n] in \<open>simp_all add: GoIdle moved_def move_turn_def on_db_def executing_def Let_def\<close>)
next
  case (StartExecutor n i)
  then have n: "phase_of n b = Some Preparing" using assms(2) by simp
  show ?thesis by (rule inv_move [OF inv, of n "Executing i"]) (use phase_ofD [OF n] in \<open>simp_all add: StartExecutor moved_def move_turn_def executing_def Let_def\<close>)
next
  case (AwaitPlan n i)
  show ?thesis using inv by (rule inv_same) (simp_all add: AwaitPlan)
next
  case (AnswerPlan now i approved)
  obtain r pending db where r: "approve_auto_plan now i approved (br_pending b) (br_db b) = (r, pending, db)" by (rule prod_cases3)
  let ?b = "b\<lparr>br_pending := pending, br_db := db\<rparr>"
  have "session_folders db = session_folders (br_db b)"
    using r by (auto simp: approve_auto_plan_def mark_failed_def split: if_splits option.splits)
  then have inv': "turns_inv ?b" using inv by (intro inv_same [OF inv]) simp_all
  have "turns_inv (snd (begin_turn (ar_session_id snap) (at_folder c) ?b))" if "resumed_auto_turn (br_settings b) db snap action = Inr c" for snap action c
    using inv_begin [OF inv'] resumed_folder [OF that] by simp
  with inv' show ?thesis by (auto simp: AnswerPlan r Let_def split: sum.split auto_command.split)
next
  case (ExecutorReturns n i)
  then have n: "phase_of n b = Some (Executing i)" using assms(2) by simp
  show ?thesis by (rule inv_move [OF inv, of n Cleaned]) (use phase_ofD [OF n] in \<open>simp_all add: ExecutorReturns moved_def move_turn_def executing_def Let_def\<close>)
next
  case (ExecutorIdle now n)
  then have n: "phase_of n b = Some Cleaned" using assms(2) by simp
  show ?thesis by (rule inv_move [OF inv, of n Releasing]) (use phase_ofD [OF n] in \<open>simp_all add: ExecutorIdle moved_def move_turn_def on_db_def executing_def Let_def\<close>)
next
  case (Release n)
  then have n: "phase_of n b = Some Releasing" using assms(2) by simp
  show ?thesis by (rule inv_move [OF inv, of n Over]) (use phase_ofD [OF n] in \<open>simp_all add: Release moved_def move_turn_def executing_def Let_def\<close>)
next
  case (CancelSession sess)
  show ?thesis using inv by (rule inv_same) (simp_all add: CancelSession cancel_session_command_def)
next
  case (RestoreCheckpoint now sess turn failure)
  show ?thesis using inv
    by (rule inv_same) (simp_all add: RestoreCheckpoint restore_checkpoint_def on_db_def Let_def split: option.splits)
next
  case (CheckDelete sess)
  show ?thesis using inv by (rule inv_same) (simp_all add: CheckDelete check_delete_def split: option.split)
next
  case (DeleteSession now sess)
  show ?thesis using inv by (rule inv_same) (simp_all add: DeleteSession on_db_def)
next
  case (CreateSession now i folder title mode provider_id model)
  show ?thesis
  proof (cases "create_session_command now i folder title mode provider_id model (br_settings b) (br_db b)")
    case None
    then show ?thesis using inv by (simp add: CreateSession)
  next
    case (Some p)
    obtain s db where p: "p = (s, db)" by (rule prod.exhaust)
    from created_folders [OF Some [unfolded p]] obtain x where "session_folders db = session_folders (br_db b) @ [x]" by blast
    then show ?thesis by (intro inv_same [OF inv]) (simp_all add: CreateSession Some p map_add_def)
  qed
next
  case (ChangeSettings st)
  show ?thesis using inv by (rule inv_same) (simp_all add: ChangeSettings)
next
  case (StoreRows f)
  show ?thesis using inv by (rule inv_same) (use assms(2) in \<open>simp_all add: StoreRows on_db_def\<close>)
qed

lemma bridged_inv: "bridged b \<Longrightarrow> turns_inv b"
proof (induction rule: bridged.induct)
  case (start db st)
  show ?case by (simp add: turns_inv_def new_bridge_def)
next
  case (step b a)
  show ?case by (rule inv_step [OF step.IH step.hyps(2)])
qed

subsection \<open>Properties\<close>

text \<open>C8:
  whatever commands and background tasks do, in whatever order, a folder has at most one turn at a time, it is marked as
  running exactly while it has one, and the token a session has in the registry is that of its own Auto run, as
  long as this runs: the stop button never reaches another run, nor misses this one.\<close>

theorem one_turn_per_folder:
  assumes "bridged b"
  shows "length (filter (holds_folder f) (br_turns b)) \<le> 1 \<and>
    (f \<in> br_running b \<longleftrightarrow> list_ex (holds_folder f) (br_turns b)) \<and>
    (br_tokens b sess = Some n \<longleftrightarrow> n < length (br_turns b) \<and> tn_session (br_turns b ! n) = sess \<and> executing (br_turns b ! n))"
proof -
  note inv = turns_invD [OF bridged_inv [OF assms]]
  have "length (filter (holds_folder f) (br_turns b)) \<le> 1" by (rule filter_at_most_one) (rule inv(1))
  with inv(2,4) show ?thesis by blast
qed

fun perform :: "bridge_action list \<Rightarrow> bridge \<Rightarrow> bridge option" where
  "perform [] b = Some b"
| "perform (a # as) b = (if step_possible a b then perform as (bridge_step a b) else None)"

lemma perform_bridged: "perform as b = Some b' \<Longrightarrow> bridged b \<Longrightarrow> bridged b'"
  by (induction as b rule: perform.induct) (auto intro: bridged.step split: if_splits)

definition talk :: bridge where
  "talk = new_bridge session_db fresh_settings"

lemmas talk_defs = talk_def new_bridge_def session_db_def create_session_def new_db_def send_message_def get_session_def
  begin_turn_def on_db_def apply_mode_def phase_of_def move_turn_def db_set_session_status_def update_session_def

lemma talk_bridged: "perform as talk = Some b \<Longrightarrow> bridged b"
  using perform_bridged bridged.start unfolding talk_def by blast

text \<open>Two messages in a row, and the token of an Auto run\<close>

lemma talk_twice: "\<exists>b. perform [SendMessage ''1'' ''s'' None, StartExecutor 0 ''r'', SendMessage ''2'' ''s'' None] talk = Some b \<and>
    br_tokens b ''s'' = Some 0 \<and> length (br_turns b) = 1"
  by (simp add: talk_defs)

theorem one_turn_per_folder_witness:
  "\<exists>b :: bridge. br_tokens b ''s'' = Some 0 \<and> executing (br_turns b ! 0) \<and> ''/p'' \<in> br_running b"
proof -
  from talk_twice obtain b where b: "perform [SendMessage ''1'' ''s'' None, StartExecutor 0 ''r'', SendMessage ''2'' ''s'' None] talk = Some b"
    "br_tokens b ''s'' = Some 0" by blast
  then have "''/p'' \<in> br_running b" by (auto simp: talk_defs)
  with one_turn_per_folder [OF talk_bridged [OF b(1)], of "''/p''" "''s''" 0] b(2) show ?thesis by blast
qed

text \<open>The stop button.\<close>

lemma stop_reaches_the_run:
  assumes "bridged b" "n < length (br_turns b)" "tn_session (br_turns b ! n) = sess" "executing (br_turns b ! n)"
  shows "n \<in> br_cancelled (cancel_session_command sess b)"
  using turns_invD(4) [OF bridged_inv [OF assms(1)], of sess n] assms(2-4) by (simp add: cancel_session_command_def)

text \<open>a rewind refuses to run while the folder is busy only after it has done its work: the messages from the chosen one
  on are gone, and the files are restored if that was asked for, while the answer is that a session is already running
  and no turn starts.\<close>

theorem rewind_of_running_session:
  assumes "get_message_by_id k (br_db b) = Some m" "mr_role m = ''user''" "mr_session m = sess"
    and "get_session sess (br_db b) = Some s" "sr_folder s \<in> br_running b"
  shows "\<exists>b'. rewind_to_message now sess k restore b =
      (Inl (already_running (sr_folder s)), if restore then rewind_effects sess (sr_folder s) (mr_turn m) else [], b') \<and>
    br_turns b' = br_turns b \<and> active_rows sess (br_db b') = filter (\<lambda>r. mr_id r < k) (active_rows sess (br_db b))"
proof -
  have k: "mr_id m = k" using assms(1) by (auto simp: get_message_by_id_def find_Some_iff)
  have s: "get_session sess (rewind_messages now sess k (br_db b)) = Some s"
    using assms(4) by (simp add: get_session_def rewind_messages_def update_messages_def)
  have gone: "active_rows sess (rewind_messages now sess k db) = filter (\<lambda>r. mr_id r < k) (active_rows sess db)" for db
  proof -
    have "filter (\<lambda>r. mr_session r = sess \<and> mr_rewound r = None)
        (map (\<lambda>r. if mr_session r = sess \<and> k \<le> mr_id r \<and> mr_rewound r = None then r\<lparr>mr_rewound := Some now\<rparr> else r) rows) =
      filter (\<lambda>r. mr_id r < k) (filter (\<lambda>r. mr_session r = sess \<and> mr_rewound r = None) rows)" for rows
      by (induction rows) auto
    then show ?thesis by (simp add: active_rows_def rewind_messages_def update_messages_def)
  qed
  show ?thesis
    using assms s k gone by (auto simp: rewind_to_message_def Let_def begin_turn_def on_db_def)
qed

definition busy_bridge :: bridge where
  "busy_bridge = (new_bridge (snd (insert_message ''1'' ''s'' ''/p'' ''user'' ''text'' (JObj []) (JObj []) (Some 1) session_db))
     fresh_settings)\<lparr>br_running := {''/p''}\<rparr>"

theorem rewind_of_running_session_witness:
  "\<exists>b'. rewind_to_message ''2'' ''s'' 1 True busy_bridge = (Inl (already_running ''/p''), rewind_effects ''s'' ''/p'' (Some 1), b') \<and>
     active_rows ''s'' (br_db b') = []"
proof -
  obtain m s where m: "get_message_by_id 1 (br_db busy_bridge) = Some m" "mr_role m = ''user''" "mr_session m = ''s''" "mr_turn m = Some 1"
      "get_session ''s'' (br_db busy_bridge) = Some s" "sr_folder s = ''/p''" "active_rows ''s'' (br_db busy_bridge) = [m]" "mr_id m = 1"
    by (simp add: busy_bridge_def insert_message_def get_message_by_id_def active_rows_def talk_defs)
  have "sr_folder s \<in> br_running busy_bridge" by (simp add: m(6) busy_bridge_def)
  from rewind_of_running_session [OF m(1-3,5) this, of "''2''" True] m show ?thesis by auto
qed

subsection \<open>A folder that is never given back\<close>

definition bridge_next :: "bridge \<Rightarrow> bridge \<Rightarrow> bool" where
  "bridge_next b b' \<longleftrightarrow> (\<exists>a. step_possible a b \<and> b' = bridge_step a b)"

lemma bridge_next_bridged: "bridge_next\<^sup>*\<^sup>* b b' \<Longrightarrow> bridged b \<Longrightarrow> bridged b'"
  by (induction rule: rtranclp_induct) (auto simp: bridge_next_def intro: bridged.step)

text \<open>Turns are never removed; a step moves a turn out of a phase only where it is possible.\<close>

definition lost_in :: "nat \<Rightarrow> rstr \<Rightarrow> bridge \<Rightarrow> bool" where
  "lost_in n f b \<longleftrightarrow> n < length (br_turns b) \<and> tn_phase (br_turns b ! n) = Lost \<and> tn_folder (br_turns b ! n) = f"

lemma lost_begin: "lost_in n f b \<Longrightarrow> lost_in n f (snd (begin_turn sess folder b))"
  by (auto simp: lost_in_def begin_turn_def nth_append)

lemma lost_move: "lost_in n f b \<Longrightarrow> phase_of k b = Some ph \<Longrightarrow> ph \<noteq> Lost \<Longrightarrow> br_turns b' = br_turns b \<Longrightarrow> lost_in n f (move_turn k ph' b')"
  by (cases "k = n") (auto simp: lost_in_def move_turn_def phase_of_def)

lemma lost_same: "lost_in n f b \<Longrightarrow> br_turns b' = br_turns b \<Longrightarrow> lost_in n f b'"
  by (simp add: lost_in_def)

lemma lost_step:
  assumes "lost_in n f b" "step_possible a b"
  shows "lost_in n f (bridge_step a b)"
proof -
  note same = lost_same [OF assms(1)]
  show ?thesis
  proof (cases a)
    case (SendMessage now sess mode)
    then show ?thesis using assms(1) lost_begin [OF same]
      by (auto simp: send_message_def on_db_def split: option.split)
  next
    case (RewindTo now sess i restore)
    have "lost_in n f (snd (begin_turn u v (on_db g b)))" for u v g by (rule lost_begin) (rule same, simp add: on_db_def)
    then show ?thesis using assms(1) same [of "on_db _ b"] RewindTo
      by (auto simp: rewind_to_message_def Let_def on_db_def split: option.split prod.split) (metis snd_conv)
  next
    case (ResumeAuto snap action)
    then show ?thesis using assms(1) by (auto intro: lost_begin split: sum.split)
  next
    case (AnswerPlan now i approved)
    have b1: "lost_in n f (b\<lparr>br_pending := pending, br_db := db\<rparr>)" for pending db by (rule same) simp
    from AnswerPlan lost_begin [OF b1] b1 show ?thesis
      by (auto simp: Let_def split: prod.split sum.split auto_command.split)
  qed (use assms in \<open>auto intro!: lost_move [OF assms(1)] intro: same simp: on_db_def cancel_session_command_def restore_checkpoint_def
      check_delete_def Let_def split: option.split\<close>)
qed

text \<open>C12:
  a turn whose context could not be loaded keeps its folder for good: whatever happens next, every later message of a
  session of that folder is refused as if a session were running.\<close>

theorem lost_folder_stays_locked:
  assumes "bridged b" "lost_in n (sr_folder s) b" "bridge_next\<^sup>*\<^sup>* b b'" "get_session sess (br_db b') = Some s"
  shows "fst (send_message now sess mode b') = Inl (already_running (sr_folder s))"
proof -
  from assms(3,2) have "lost_in n (sr_folder s) b'"
    by (induction rule: rtranclp_induct) (auto simp: bridge_next_def lost_step)
  then have "list_ex (holds_folder (sr_folder s)) (br_turns b')"
    by (auto simp: lost_in_def list_ex_length holds_folder_def)
  then have "sr_folder s \<in> br_running b'"
    using turns_invD(2) [OF bridged_inv [OF bridge_next_bridged [OF assms(3,1)]]] by blast
  then show ?thesis by (simp add: send_message_def assms(4) begin_turn_def on_db_def)
qed

theorem lost_folder_stays_locked_witness:
  "\<exists>b. perform [SendMessage ''1'' ''s'' None, LoseTurn 0] talk = Some b \<and>
     fst (send_message ''2'' ''s'' None b) = Inl (already_running ''/p'')"
proof -
  obtain b s where b: "perform [SendMessage ''1'' ''s'' None, LoseTurn 0] talk = Some b" "lost_in 0 ''/p'' b"
    "get_session ''s'' (br_db b) = Some s" "sr_folder s = ''/p''"
    by (simp add: talk_defs lost_in_def)
  from lost_folder_stays_locked [OF talk_bridged [OF b(1)], of 0 s b "''s''" "''2''" None] b show ?thesis by simp
qed

subsection \<open>Statuses\<close>

text \<open>
  The monitor gives the folder back before it writes the status, so the \<open>idle\<close> of one turn can come after the
  \<open>active\<close> of the next; and an Auto turn that fails after it has written \<open>active\<close> leaves that behind.
\<close>

lemma idle_overtaken:
  "\<exists>b. perform [SendMessage ''1'' ''s'' None, MarkActive ''1'' 0, StartLoop 0, RelayEnds 0, Unlock 0,
       SendMessage ''2'' ''s'' None, MarkActive ''2'' 1, StartLoop 1, GoIdle ''3'' 0] talk = Some b \<and>
     phase_of 1 b = Some Relaying \<and> map_option sr_status (get_session ''s'' (br_db b)) = Some ''idle''"
  by (simp add: talk_defs)

lemma active_left_behind:
  "\<exists>b. perform [SendMessage ''1'' ''s'' None, MarkActive ''1'' 0, FailTurn 0, Release 0] talk = Some b \<and>
     br_running b = {} \<and> map_option sr_status (get_session ''s'' (br_db b)) = Some ''active''"
  by (simp add: talk_defs)

text \<open>Restoring a checkpoint leaves an Auto run of the session alone.\<close>

lemma restore_cancels_no_auto_run: "br_cancelled (snd (snd (restore_checkpoint now sess turn failure b))) = br_cancelled b"
  by (simp add: restore_checkpoint_def on_db_def Let_def split: option.split)

end
