(* ===== verification/Spec2Isabelle.thy ===== *)
theory Spec2Isabelle
  imports Util EditTool Checkpoint PatchTool FileTools ToolCall Compaction LoopRuns LlmClient AutoWorker Orchestrator SyncMirror Approvals Relay Sessions Watchers Subagents Prompts Turns
begin

text \<open>
  SuperCoder is a desktop coding agent. A model is asked, through an OpenAI or Anthropic shaped HTTP
  interface, what to do next; the tools it calls are run on the user's project; a user approves, watches,
  rewinds. This development models the Rust code of that agent and of what keeps it honest: the agent
  crate (\<open>src/crates/agent\<close>), the checkpoints (\<open>src/crates/git-ops/src/checkpoint.rs\<close>), the client of the code
  index (\<open>src/crates/context-sync\<close>) and the parts of the desktop bridge that hold state
  (\<open>src/apps/desktop/src-tauri/src\<close>).

  \<^bold>\<open>How the program hangs together.\<close> The frontend calls commands of the bridge. A message starts a run of a
  session: the session manager makes an \<open>AgentLoop\<close>, seeds it with the conversation loaded from the message
  store and lets it run as a task. In every round the loop compacts its history if need be, asks the provider
  through the LLM client, appends the answer and runs the tools it asks for, each behind a gate (arguments,
  approval, path guard); tools that change files keep the prior bytes in the checkpoint store first. The loop
  sends events, which the relay turns into what the frontend shows, and persists its messages. One tool starts
  a child loop (a subagent). In Auto mode an orchestrator plans a list of workers and an executor runs a loop
  for each. Beside all this the context watcher keeps the server's index of the repository equal to the files.

  \<^bold>\<open>Ground.\<close> \<open>Prelude\<close> (byte strings, rule collections, generic lemmas), \<open>RustStr\<close> (the operations of
  \<open>str\<close>), \<open>RustPath\<close> (\<open>std::path\<close>), \<open>Disk\<close> (files by location, faults chosen by the environment),
  \<open>JsonValue\<close> (\<open>serde_json::Value\<close>, \<open>tool/schema.rs\<close>), \<open>Util\<close> and \<open>AgentDir\<close> (\<open>util.rs\<close>), \<open>KeyedLocks\<close> (a
  table of locks by key and tasks that queue for them). Strings are UTF-8 bytes, so lengths, slices and the
  char boundaries where Rust panics are those of the code; fixed width integers are words where they can wrap.

  \<^bold>\<open>The loop.\<close> \<open>ChatTypes\<close> has the data (\<open>llm/types.rs\<close>, \<open>types.rs\<close>, \<open>persistence.rs\<close>, \<open>error.rs\<close>),
  \<open>Compaction\<close> the trigger, range and splice (\<open>agent/compaction.rs\<close>), \<open>ToolRegistry\<close> and \<open>ToolCall\<close> one
  tool call from the model's text to the bounded result (\<open>tool/mod.rs\<close>, \<open>agent/loop_.rs\<close>), \<open>AgentLoop\<close> the
  rest of \<open>agent/loop_.rs\<close>: \<open>loop_state\<close> is the \<open>AgentLoop\<close> value with what its channels have received,
  \<open>loop_env\<close> the provider, the cancellation token and the schedule of a batch. \<open>LoopRuns\<close> proves what a run
  keeps. The locale \<open>history_contract\<close> says which operations of the history a predicate on conversations has
  to survive; it is interpreted for histories made of turns, for requests whose calls are all answered and
  for the trivial predicate, and its lemmas give the properties of every request sent.

  \<^bold>\<open>Providers.\<close> \<open>SseStream\<close> (the shared line reader and the OpenAI parser, \<open>llm/sse.rs\<close>), \<open>AnthropicApi\<close>
  (\<open>llm/anthropic.rs\<close>), \<open>LlmClient\<close> (\<open>llm/client.rs\<close>), \<open>Prompts\<close> (\<open>agent/prompt.rs\<close>,
  \<open>agent/model_profile.rs\<close>). Streams are lists of what the reader meets when it waits. The two parsers agree
  on streams that say the same; a translated request keeps every tool result behind its use.

  \<^bold>\<open>Tools.\<close> \<open>EditTool\<close>, \<open>PatchTool\<close>, \<open>FileTools\<close> (edit, patch, write, read), \<open>PlanTools\<close> (plans, todos,
  questions), \<open>Checkpoint\<close> (the undo log). Files are a map by location, tools are functions of arguments,
  environment and world. The locale \<open>tool_table\<close> is the contract of the registry, \<open>undo_log\<close> that of the
  checkpoint store; the second is interpreted on the manifests of a turn and gives that restoring undoes turns.

  \<^bold>\<open>Subagents, skills, sessions.\<close> \<open>AgentFiles\<close> (front matter, definitions, tiers, registries, the skill
  tool), \<open>Subagents\<close> (the spawn tool around a child loop, the write lock), \<open>Sessions\<close> (\<open>session.rs\<close>: tasks and
  watchers as steps in any order; \<open>managed\<close> is the reachable states).

  \<^bold>\<open>Auto mode.\<close> \<open>AutoTypes\<close>, \<open>AutoRun\<close> (\<open>auto/executor.rs\<close>: the generator, runner, approver and token are
  functions over a world), \<open>AutoMachine\<close> (the abstract machine and the proof that the executor is one of its
  paths), \<open>AutoRuns\<close> and \<open>AutoTrace\<close> (the locale \<open>auto_invariant\<close>, interpreted once for each invariant of the
  machine; the locales \<open>worker_runner\<close> and \<open>plan_generator\<close> are the contracts of the two trait objects),
  \<open>AutoWorker\<close> and \<open>Orchestrator\<close> (\<open>auto/worker.rs\<close>, \<open>auto/orchestrator.rs\<close>, \<open>auto/schema.rs\<close>: the trait
  objects themselves, where the contracts are interpreted).

  \<^bold>\<open>The index.\<close> \<open>IgnoreFilter\<close>, \<open>Streamer\<close> (\<open>context-sync\<close>; the uploads run under an explicit schedule),
  \<open>SyncRuns\<close> (the locale \<open>upload_invariant\<close> and its interpretations: permits, batches waiting), \<open>SyncMirror\<close>
  (the contract of a server, and that a successful sync leaves its index equal to the files), \<open>FileWatcher\<close>
  (the debouncer by ticks) and \<open>Watchers\<close> (the manager's tasks; \<open>KeyedLocks\<close> interpreted for its locks).

  \<^bold>\<open>The bridge.\<close> \<open>Permissions\<close> and \<open>Approvals\<close> (\<open>permissions.rs\<close>, the handlers of \<open>events.rs\<close>), \<open>Relay\<close>
  (the rest of \<open>events.rs\<close>), \<open>ChatJson\<close>, \<open>MessageStore\<close>, \<open>Conversation\<close> and \<open>Reload\<close> (\<open>db.rs\<close> and what
  \<open>commands.rs\<close> does to a stored conversation; the locale \<open>context_loader\<close> for the two ways of loading).
  \<open>Settings\<close> (providers, selections, the model of a session, the configuration of a run, the Auto settings),
  \<open>AutoBridge\<close> (\<open>auto.rs\<close>: the rows an Auto turn leaves, the queue of snapshots beside the terminal writes, resuming)
  and \<open>Turns\<close> (\<open>AgentState\<close>, the folder lock, stop, rewind and restore, as steps of commands and background tasks).
  \<^bold>\<open>Loops and fuel.\<close> The agent's loop and the polling loop may run forever; they are partial functions whose
  value \<open>None\<close> means that they do not return. The loop is shown to return whenever \<open>max_iterations\<close> is below
  \<open>2 ^ 32 - 1\<close> (at \<open>u32::MAX\<close> the comparison with the counter never stops it), the polling loop when every wait
  takes time. All other recursion terminates by a measure. There is no fuel: where the order of events is open
  (streams, schedules, ticks of the debouncer, steps of tasks) it is an explicit list or an inductive relation,
  and the theorems hold for all of them.

  \<^bold>\<open>Parameters.\<close> What is not the repository's code is an argument: JSON text (\<open>serde_json\<close>), YAML, Base64,
  unique ids, the clock, HTTP and its header syntax, gitignore matching, string similarity and regular
  expressions, hashing and compression, Unicode tables beyond ASCII, prompt templates read from text files, the
  answers of the operating system about paths. Statements of SQLite act on lists of rows and succeed, except
  where the code handles their failure.

  \<^bold>\<open>Not modelled.\<close>
  The shell tool, the git and pull request tools and \<open>git-ops\<close> beyond checkpoints start external programs and
  pass on what these print. Glob and grep are loops around the \<open>glob\<close> and \<open>ripgrep\<close> libraries. The context engine's
  search tools are an HTTP client for a service whose answers they print. The rest of the desktop crate is glue to
  Tauri and the operating system (windows, dialogs, the process of the engine), the benchmark runner and the bulk
  indexer are command lines around the parts above. Logging has no effect on the model's state and is left out.
\<close>

end
